(* ===== verification/Prelude.thy ===== *)
theory Prelude
  imports Main "HOL-Library.Word"
begin

text \<open>
  Shared vocabulary of the development: the fixed-width integer types of the C++ sources, the
  exceptions they throw, the state-and-exception computations every operation is written in, and
  byte-addressed memory as a list of bytes (a region the code owns through a pointer).

  \<^item> \<open>(cpp_exception + 'a) \<times> 's\<close> is the outcome of a C++ member function on an object of
    state \<open>'s\<close>: it either throws or returns, and in both cases leaves the object in some state.
  \<^item> \<open>MemoryFault\<close> is not an exception of the sources: it marks an access outside the memory
    region, which in C++ is undefined behaviour. The lemmas show where it cannot happen.
  \<^item> \<open>mem_read\<close> and \<open>mem_write\<close> are \<open>memcpy\<close> out of and into a region.
\<close>

unbundle bit_operations_syntax

type_synonym byte = "8 word"
type_synonym u16 = "16 word"
type_synonym u32 = "32 word"
type_synonym u64 = "64 word"

named_theorems cpp_simps \<open>symbolic execution of state-and-exception computations\<close>
named_theorems mem_simps \<open>reading and writing byte regions\<close>

section \<open>Exceptions and computations\<close>

datatype cpp_exception = OutOfRange | InvalidArgument | LengthError | RuntimeError | MemoryFault

type_synonym ('s, 'a) cpp = "'s \<Rightarrow> (cpp_exception + 'a) \<times> 's"

definition returnC :: "'a \<Rightarrow> ('s, 'a) cpp" where
  "returnC x s = (Inr x, s)"

definition throwC :: "cpp_exception \<Rightarrow> ('s, 'a) cpp" where
  "throwC e s = (Inl e, s)"

definition bindC :: "('s, 'a) cpp \<Rightarrow> ('a \<Rightarrow> ('s, 'b) cpp) \<Rightarrow> ('s, 'b) cpp" where
  "bindC m f s = (case m s of (Inl e, s') \<Rightarrow> (Inl e, s') | (Inr x, s') \<Rightarrow> f x s')"

definition ok :: "(cpp_exception + 'a) \<times> 's \<Rightarrow> bool" where
  "ok r = (case fst r of Inl _ \<Rightarrow> False | Inr _ \<Rightarrow> True)"

lemma bindC_Inr [cpp_simps]: "m s = (Inr x, s') \<Longrightarrow> bindC m f s = f x s'"
  by (simp add: bindC_def)

lemma bindC_Inl [cpp_simps]: "m s = (Inl e, s') \<Longrightarrow> bindC m f s = (Inl e, s')"
  by (simp add: bindC_def)

lemma bindC_returnC [cpp_simps, simp]: "bindC (returnC x) f = f x"
  by (simp add: fun_eq_iff bindC_def returnC_def)

lemma bindC_throwC [cpp_simps, simp]: "bindC (throwC e) f = throwC e"
  by (simp add: fun_eq_iff bindC_def throwC_def)

lemma bindC_assoc: "bindC (bindC m f) g = bindC m (\<lambda>x. bindC (f x) g)"
  by (simp add: fun_eq_iff bindC_def split: prod.splits sum.splits)

lemma bindC_returnC_right [simp]: "bindC m returnC = m"
  by (auto simp: fun_eq_iff bindC_def returnC_def split: prod.splits sum.splits)

lemma bindC_InrD:
  "bindC m f s = (Inr y, t) \<Longrightarrow> \<exists>x s'. m s = (Inr x, s') \<and> f x s' = (Inr y, t)"
  by (auto simp: bindC_def split: prod.splits sum.splits)

lemma bindC_InrE:
  assumes "bindC m f s = (Inr y, t)"
  obtains x s' where "m s = (Inr x, s')" and "f x s' = (Inr y, t)"
  using bindC_InrD [OF assms] by blast

lemma bindC_cong [fundef_cong]:
  assumes "m s = m' s'" and "\<And>x t. m' s' = (Inr x, t) \<Longrightarrow> f x t = f' x t"
  shows "bindC m f s = bindC m' f' s'"
  using assms by (auto simp: bindC_def split: prod.splits sum.splits)

section \<open>Memory regions\<close>

definition mem_read :: "'a list \<Rightarrow> nat \<Rightarrow> nat \<Rightarrow> 'a list" where
  "mem_read m a n = take n (drop a m)"

definition mem_write :: "'a list \<Rightarrow> nat \<Rightarrow> 'a list \<Rightarrow> 'a list" where
  "mem_write m a bs = take a m @ bs @ drop (a + length bs) m"

lemma length_mem_read [simp, mem_simps]: "a + n \<le> length m \<Longrightarrow> length (mem_read m a n) = n"
  by (simp add: mem_read_def)

lemma length_mem_write [simp, mem_simps]:
  "a + length bs \<le> length m \<Longrightarrow> length (mem_write m a bs) = length m"
  by (simp add: mem_write_def)

lemma mem_write_Nil [simp, mem_simps]: "mem_write m a [] = m"
  by (simp add: mem_write_def)

lemma mem_read_0 [simp, mem_simps]: "mem_read m a 0 = []"
  by (simp add: mem_read_def)

lemma mem_read_mem_write_same [simp, mem_simps]:
  "a + length bs \<le> length m \<Longrightarrow> n = length bs \<Longrightarrow> mem_read (mem_write m a bs) a n = bs"
  by (simp add: mem_read_def mem_write_def)

lemma nth_mem_write:
  "a + length bs \<le> length m \<Longrightarrow> i < length m \<Longrightarrow>
   mem_write m a bs ! i = (if a \<le> i \<and> i < a + length bs then bs ! (i - a) else m ! i)"
  by (auto simp: mem_write_def nth_append min_def)

lemma nth_mem_read: "i < n \<Longrightarrow> a + n \<le> length m \<Longrightarrow> mem_read m a n ! i = m ! (a + i)"
  by (simp add: mem_read_def)

lemma mem_read_mem_write_sub:
  assumes "a + length bs \<le> length m" and "a \<le> b" and "b + n \<le> a + length bs"
  shows "mem_read (mem_write m a bs) b n = mem_read bs (b - a) n"
  by (rule nth_equalityI) (use assms in \<open>auto simp: nth_mem_read nth_mem_write\<close>)

lemma mem_read_mem_write_disjoint:
  assumes "a + length bs \<le> length m" and "b + n \<le> length m"
    and "b + n \<le> a \<or> a + length bs \<le> b"
  shows "mem_read (mem_write m a bs) b n = mem_read m b n"
  by (rule nth_equalityI) (use assms in \<open>auto simp: nth_mem_read nth_mem_write\<close>)

lemma mem_write_mem_write_append:
  assumes "a + length xs + length ys \<le> length m"
  shows "mem_write (mem_write m a xs) (a + length xs) ys = mem_write m a (xs @ ys)"
  by (rule nth_equalityI) (use assms in \<open>auto simp: nth_mem_write nth_append\<close>)

lemma list_update_eq_mem_write: "a < length m \<Longrightarrow> m[a := x] = mem_write m a [x]"
  by (simp add: mem_write_def upd_conv_take_nth_drop)

lemma mem_read_Suc: "a < length m \<Longrightarrow> mem_read m a (Suc n) = m ! a # mem_read m (Suc a) n"
  by (simp add: mem_read_def Cons_nth_drop_Suc [symmetric])

lemma mem_read_add: "mem_read m a (k + n) = mem_read m a k @ mem_read m (a + k) n"
  by (simp add: mem_read_def take_add add.commute)

section \<open>Words\<close>

lemma unat_less_power_iff_drop_bit:
  fixes w :: "'a::len word"
  shows "unat w < 2 ^ n \<longleftrightarrow> drop_bit n w = 0"
  by (metis drop_bit_eq_div unat_drop_bit_eq unat_eq_zero div_eq_0_iff power_not_zero zero_neq_numeral)

lemma and_shifted_mask_eq_0_iff:
  fixes w :: "'a::len word"
  shows "w AND push_bit n (- 1) = 0 \<longleftrightarrow> unat w < 2 ^ n"
proof -
  have "w AND push_bit n (- 1) = push_bit n (drop_bit n w)"
    by (rule bit_word_eqI) (auto simp: bit_simps)
  moreover have "push_bit n (drop_bit n w) = 0 \<longleftrightarrow> drop_bit n w = 0"
  proof
    assume z: "push_bit n (drop_bit n w) = 0"
    show "drop_bit n w = 0"
    proof (rule bit_word_eqI)
      fix k assume "k < LENGTH('a)"
      from z have "\<not> bit (push_bit n (drop_bit n w)) (n + k)" by simp
      then show "bit (drop_bit n w) k \<longleftrightarrow> bit (0 :: 'a word) k"
        by (auto simp: bit_simps dest: bit_imp_le_length)
    qed
  qed simp
  ultimately show ?thesis
    by (simp add: unat_less_power_iff_drop_bit)
qed

lemma bit_imp_unat_ge:
  fixes w :: "'a::len word"
  assumes "bit w n"
  shows "2 ^ n \<le> unat w"
proof (rule ccontr)
  assume "\<not> 2 ^ n \<le> unat w"
  then have "drop_bit n w = 0"
    by (simp add: unat_less_power_iff_drop_bit [symmetric])
  moreover have "bit (drop_bit n w) 0"
    using assms by (simp add: bit_simps)
  ultimately show False by simp
qed

end
