(* ===== verification/PBUtility.thy ===== *)
theory PBUtility
  imports Prelude
begin

text \<open>
  \<open>PBUtility.h\<close> and \<open>PBUtility.cpp\<close>: reinterpreting conversions between signed, unsigned and
  floating-point values, and the number of bytes each value needs in the protobuf wire format.

  A signed C++ integer is a word read with \<open>sint\<close>; a \<open>float\<close> or \<open>double\<close> is the datatype of its
  bit pattern (the code only ever stores and reloads the pattern). \<open>varint\<close> is the abstract
  specification of the wire format: the little-endian base-128 digits of a natural number, every
  digit but the last with the continuation bit.
\<close>

unbundle bit_operations_syntax

type_synonym int32 = "32 word"
type_synonym int64 = "64 word"

datatype float32 = Float32 (float32_bits: u32)
datatype float64 = Float64 (float64_bits: u64)

section \<open>Conversions\<close>

definition Float64ToInt64 :: "float64 \<Rightarrow> int64" where
  "Float64ToInt64 v = float64_bits v"

definition Float32ToInt32 :: "float32 \<Rightarrow> int32" where
  "Float32ToInt32 v = float32_bits v"

definition Int64ToFloat64 :: "int64 \<Rightarrow> float64" where
  "Int64ToFloat64 v = Float64 v"

definition Int32ToFloat32 :: "int32 \<Rightarrow> float32" where
  "Int32ToFloat32 v = Float32 v"

definition Int64ToUInt64 :: "int64 \<Rightarrow> u64" where
  "Int64ToUInt64 v = v"

definition UInt64ToInt64 :: "u64 \<Rightarrow> int64" where
  "UInt64ToInt64 v = v"

definition Int32ToUInt32 :: "int32 \<Rightarrow> u32" where
  "Int32ToUInt32 v = v"

definition UInt32ToInt32 :: "u32 \<Rightarrow> int32" where
  "UInt32ToInt32 v = v"

definition logicalRightShift32 :: "int32 \<Rightarrow> nat \<Rightarrow> int32" where
  "logicalRightShift32 v spaces = UInt32ToInt32 (drop_bit spaces (Int32ToUInt32 v))"

definition logicalRightShift64 :: "int64 \<Rightarrow> nat \<Rightarrow> int64" where
  "logicalRightShift64 v spaces = UInt64ToInt64 (drop_bit spaces (Int64ToUInt64 v))"

lemmas conversion_defs = Float64ToInt64_def Float32ToInt32_def Int64ToFloat64_def
  Int32ToFloat32_def Int64ToUInt64_def UInt64ToInt64_def Int32ToUInt32_def UInt32ToInt32_def
  logicalRightShift32_def logicalRightShift64_def

section \<open>Sizes\<close>

definition LittleEdian32Size :: u32 where "LittleEdian32Size = 4"

definition pbFloatSize :: u32 where "pbFloatSize = LittleEdian32Size"

definition pbFixed32Size :: u32 where "pbFixed32Size = LittleEdian32Size"

definition LittleEdian64Size :: u32 where "LittleEdian64Size = 8"

definition pbDoubleSize :: u32 where "pbDoubleSize = LittleEdian64Size"

definition pbBoolSize :: u32 where "pbBoolSize = 1"

definition Fixed32Size :: u32 where "Fixed32Size = pbFixed32Size"

lemmas fixed_size_defs = LittleEdian32Size_def pbFloatSize_def pbFixed32Size_def
  LittleEdian64Size_def pbDoubleSize_def pbBoolSize_def Fixed32Size_def

definition pbRawVarint32Size :: "u32 \<Rightarrow> u32" where
  "pbRawVarint32Size v =
     (if v AND push_bit 7 0xffffffff = 0 then 1
      else if v AND push_bit 14 0xffffffff = 0 then 2
      else if v AND push_bit 21 0xffffffff = 0 then 3
      else if v AND push_bit 28 0xffffffff = 0 then 4
      else 5)"

definition pbUInt64Size :: "u64 \<Rightarrow> u32" where
  "pbUInt64Size v =
     (if v AND push_bit 7 0xffffffffffffffff = 0 then 1
      else if v AND push_bit 14 0xffffffffffffffff = 0 then 2
      else if v AND push_bit 21 0xffffffffffffffff = 0 then 3
      else if v AND push_bit 28 0xffffffffffffffff = 0 then 4
      else if v AND push_bit 35 0xffffffffffffffff = 0 then 5
      else if v AND push_bit 42 0xffffffffffffffff = 0 then 6
      else if v AND push_bit 49 0xffffffffffffffff = 0 then 7
      else if v AND push_bit 56 0xffffffffffffffff = 0 then 8
      else if v AND push_bit 63 0xffffffffffffffff = 0 then 9
      else 10)"

definition pbInt64Size :: "int64 \<Rightarrow> u32" where
  "pbInt64Size v = pbUInt64Size (Int64ToUInt64 v)"

definition pbInt32Size :: "int32 \<Rightarrow> u32" where
  "pbInt32Size v = (if 0 \<le> sint v then pbRawVarint32Size (Int32ToUInt32 v) else 10)"

definition pbUInt32Size :: "u32 \<Rightarrow> u32" where
  "pbUInt32Size v = pbRawVarint32Size v"

definition pbMMBufferSize :: "byte list \<Rightarrow> u32" where
  "pbMMBufferSize d = (let valueLength = word_of_nat (length d) in valueLength + pbUInt32Size valueLength)"

section \<open>The wire format of unsigned integers\<close>

fun varint :: "nat \<Rightarrow> byte list" where
  "varint n = (if n < 128 then [word_of_nat n]
     else word_of_nat (n mod 128 + 128) # varint (n div 128))"

declare varint.simps [simp del]

lemma varint_small [simp]: "n < 128 \<Longrightarrow> varint n = [word_of_nat n]"
  by (simp add: varint.simps)

lemma varint_large: "128 \<le> n \<Longrightarrow> varint n = word_of_nat (n mod 128 + 128) # varint (n div 128)"
  by (subst varint.simps) simp

lemma varint_not_Nil [simp]: "varint n \<noteq> []"
  by (subst varint.simps) simp

lemma length_varint_gt_0 [simp]: "0 < length (varint n)"
  by simp

lemma length_varint_le: "0 < k \<Longrightarrow> length (varint n) \<le> k \<longleftrightarrow> n < 128 ^ k"
proof (induction k arbitrary: n)
  case 0
  then show ?case by simp
next
  case (Suc k)
  show ?case
  proof (cases "n < 128")
    case True
    moreover have "(128::nat) ^ 1 \<le> 128 ^ Suc k"
      by (rule power_increasing) auto
    ultimately have "n < 128 ^ Suc k"
      unfolding power_one_right by (rule less_le_trans)
    with True show ?thesis by simp
  next
    case large: False
    show ?thesis
    proof (cases "k = 0")
      case True
      with large show ?thesis by (simp add: varint_large)
    next
      case False
      with Suc.IH [of "n div 128"] have "length (varint (n div 128)) \<le> k \<longleftrightarrow> n div 128 < 128 ^ k"
        by simp
      also have "\<dots> \<longleftrightarrow> n < 128 ^ Suc k"
        by (simp add: div_less_iff_less_mult mult.commute)
      finally show ?thesis
        using large by (simp add: varint_large)
    qed
  qed
qed

lemma length_varint_eq_Suc:
  "0 < k \<Longrightarrow> 128 ^ k \<le> n \<Longrightarrow> n < 128 ^ Suc k \<Longrightarrow> length (varint n) = Suc k"
  using length_varint_le [of k n] length_varint_le [of "Suc k" n] by simp

lemma unat_u32_less [simp]: "unat (v :: u32) < 4294967296"
  using unsigned_less [of v] by simp

lemma unat_u64_less [simp]: "unat (v :: u64) < 18446744073709551616"
  using unsigned_less [of v] by simp

lemma length_varint_u32: "length (varint (unat (v :: u32))) \<le> 5"
  using length_varint_le [of 5 "unat v"] unat_u32_less [of v] by simp

lemma length_varint_u64: "length (varint (unat (v :: u64))) \<le> 10"
  using length_varint_le [of 10 "unat v"] unat_u64_less [of v] by simp

lemma pbRawVarint32Size_test:
  fixes v :: u32
  shows "v AND push_bit n 0xffffffff = 0 \<longleftrightarrow> unat v < 2 ^ n"
proof -
  have "(0xffffffff :: u32) = - 1" by simp
  then show ?thesis
    by (simp only: and_shifted_mask_eq_0_iff)
qed

lemma pbUInt64Size_test:
  fixes v :: u64
  shows "v AND push_bit n 0xffffffffffffffff = 0 \<longleftrightarrow> unat v < 2 ^ n"
proof -
  have "(0xffffffffffffffff :: u64) = - 1" by simp
  then show ?thesis
    by (simp only: and_shifted_mask_eq_0_iff)
qed

lemma unat_pbRawVarint32Size: "unat (pbRawVarint32Size v) = length (varint (unat v))"
proof -
  note lv = length_varint_eq_Suc [of _ "unat v"]
  show ?thesis
    unfolding pbRawVarint32Size_def pbRawVarint32Size_test
    using lv [of 1] lv [of 2] lv [of 3] lv [of 4] unat_u32_less [of v]
    by simp
qed

lemma unat_pbUInt64Size: "unat (pbUInt64Size v) = length (varint (unat v))"
proof -
  note lv = length_varint_eq_Suc [of _ "unat v"]
  show ?thesis
    unfolding pbUInt64Size_def pbUInt64Size_test
    using lv [of 1] lv [of 2] lv [of 3] lv [of 4] lv [of 5] lv [of 6] lv [of 7] lv [of 8] lv [of 9]
      unat_u64_less [of v]
    by simp
qed

end
