(* ===== verification/CodedOutput.thy ===== *)
theory CodedOutput
  imports PBUtility
begin

text \<open>
  \<open>CodedOutputData\<close>: the writer that every encoder and the append path of the store use. The
  object is a pointer into a memory region, the number of bytes it may use from there and its
  position; each operation throws \<open>OutOfRange\<close> exactly where the code does and otherwise updates
  the region.

  The lemmas reduce every operation to one bytewise write, \<open>write_bytes\<close>, of the encoding of the
  value (\<open>varint\<close> for the variable-length integers, \<open>le_bytes\<close> for the fixed ones), and say what
  that write does to the region when the bytes fit and when they do not.
\<close>

unbundle bit_operations_syntax

record coded_output =
  out_mem :: "byte list"
  out_ptr :: nat
  out_size :: nat
  out_position :: nat

definition CodedOutputData :: "byte list \<Rightarrow> nat \<Rightarrow> nat \<Rightarrow> coded_output" where
  "CodedOutputData mem ptr len =
     \<lparr>out_mem = mem, out_ptr = ptr, out_size = len, out_position = 0\<rparr>"

section \<open>Operations\<close>

definition curWritePointer :: "coded_output \<Rightarrow> nat" where
  "curWritePointer s = out_ptr s + out_position s"

definition spaceLeft :: "coded_output \<Rightarrow> nat" where
  "spaceLeft s = (if out_size s \<le> out_position s then 0 else out_size s - out_position s)"

definition seekOut :: "nat \<Rightarrow> (coded_output, unit) cpp" where
  "seekOut addedSize s =
     (let s' = s\<lparr>out_position := out_position s + addedSize\<rparr>
      in if out_position s' > out_size s' then (Inl OutOfRange, s') else (Inr (), s'))"

definition resetOut :: "coded_output \<Rightarrow> coded_output" where
  "resetOut s = s\<lparr>out_position := 0\<rparr>"

definition getPosition :: "coded_output \<Rightarrow> nat" where
  "getPosition s = out_position s"

definition setPosition :: "nat \<Rightarrow> coded_output \<Rightarrow> coded_output" where
  "setPosition p s = s\<lparr>out_position := p\<rparr>"

definition writeRawByte :: "byte \<Rightarrow> (coded_output, unit) cpp" where
  "writeRawByte v s =
     (if out_position s = out_size s then (Inl OutOfRange, s)
      else if curWritePointer s < length (out_mem s)
      then (Inr (), s\<lparr>out_mem := (out_mem s)[curWritePointer s := v],
                      out_position := out_position s + 1\<rparr>)
      else (Inl MemoryFault, s))"

definition writeRawData :: "byte list \<Rightarrow> (coded_output, unit) cpp" where
  "writeRawData d s =
     (let numberOfBytes = length d
      in if out_position s + numberOfBytes > out_size s then (Inl OutOfRange, s)
         else if curWritePointer s + numberOfBytes \<le> length (out_mem s)
         then (Inr (), s\<lparr>out_mem := mem_write (out_mem s) (curWritePointer s) d,
                         out_position := out_position s + numberOfBytes\<rparr>)
         else (Inl MemoryFault, s))"

function writeRawVarint32 :: "int32 \<Rightarrow> (coded_output, unit) cpp" where
  "writeRawVarint32 v =
     (if v AND NOT 0x7f = 0 then writeRawByte (ucast v)
      else bindC (writeRawByte (ucast ((v AND 0x7F) OR 0x80)))
             (\<lambda>_. writeRawVarint32 (logicalRightShift32 v 7)))"
  by pat_completeness auto

function writeRawVarint64 :: "int64 \<Rightarrow> (coded_output, unit) cpp" where
  "writeRawVarint64 v =
     (if v AND NOT 0x7f = 0 then writeRawByte (ucast v)
      else bindC (writeRawByte (ucast ((v AND 0x7f) OR 0x80)))
             (\<lambda>_. writeRawVarint64 (logicalRightShift64 v 7)))"
  by pat_completeness auto

lemma unat_drop_bit_7_less:
  fixes v :: "'a::len word"
  assumes "v \<noteq> 0"
  shows "unat (drop_bit 7 v) < unat v"
proof -
  have "0 < unat v" using assms by (simp add: unat_gt_0)
  then have "unat v div 128 < unat v" by simp
  then show ?thesis unfolding unat_drop_bit_eq drop_bit_eq_div [of 7 "unat v"] by simp
qed

termination writeRawVarint32
  by (relation "measure unat") (auto simp: conversion_defs intro!: unat_drop_bit_7_less)

termination writeRawVarint64
  by (relation "measure unat") (auto simp: conversion_defs intro!: unat_drop_bit_7_less)

declare writeRawVarint32.simps [simp del] writeRawVarint64.simps [simp del]

definition writeRawLittleEndian32 :: "int32 \<Rightarrow> (coded_output, unit) cpp" where
  "writeRawLittleEndian32 v =
     bindC (writeRawByte (ucast (v AND 0xff))) (\<lambda>_.
     bindC (writeRawByte (ucast (signed_drop_bit 8 v AND 0xff))) (\<lambda>_.
     bindC (writeRawByte (ucast (signed_drop_bit 16 v AND 0xff))) (\<lambda>_.
     writeRawByte (ucast (signed_drop_bit 24 v AND 0xff)))))"

definition writeRawLittleEndian64 :: "int64 \<Rightarrow> (coded_output, unit) cpp" where
  "writeRawLittleEndian64 v =
     bindC (writeRawByte (ucast (v AND 0xff))) (\<lambda>_.
     bindC (writeRawByte (ucast (signed_drop_bit 8 v AND 0xff))) (\<lambda>_.
     bindC (writeRawByte (ucast (signed_drop_bit 16 v AND 0xff))) (\<lambda>_.
     bindC (writeRawByte (ucast (signed_drop_bit 24 v AND 0xff))) (\<lambda>_.
     bindC (writeRawByte (ucast (signed_drop_bit 32 v AND 0xff))) (\<lambda>_.
     bindC (writeRawByte (ucast (signed_drop_bit 40 v AND 0xff))) (\<lambda>_.
     bindC (writeRawByte (ucast (signed_drop_bit 48 v AND 0xff))) (\<lambda>_.
     writeRawByte (ucast (signed_drop_bit 56 v AND 0xff)))))))))"

definition writeDouble :: "float64 \<Rightarrow> (coded_output, unit) cpp" where
  "writeDouble v = writeRawLittleEndian64 (Float64ToInt64 v)"

definition writeFloat :: "float32 \<Rightarrow> (coded_output, unit) cpp" where
  "writeFloat v = writeRawLittleEndian32 (Float32ToInt32 v)"

definition writeInt64 :: "int64 \<Rightarrow> (coded_output, unit) cpp" where
  "writeInt64 v = writeRawVarint64 v"

definition writeUInt64 :: "u64 \<Rightarrow> (coded_output, unit) cpp" where
  "writeUInt64 v = writeRawVarint64 (ucast v)"

definition writeInt32 :: "int32 \<Rightarrow> (coded_output, unit) cpp" where
  "writeInt32 v = (if 0 \<le> sint v then writeRawVarint32 v else writeRawVarint64 (scast v))"

definition writeUInt32 :: "u32 \<Rightarrow> (coded_output, unit) cpp" where
  "writeUInt32 v = writeRawVarint32 (ucast v)"

definition writeBool :: "bool \<Rightarrow> (coded_output, unit) cpp" where
  "writeBool v = writeRawByte (if v then 1 else 0)"

definition writeData :: "byte list \<Rightarrow> (coded_output, unit) cpp" where
  "writeData v = bindC (writeRawVarint32 (word_of_nat (length v))) (\<lambda>_. writeRawData v)"

definition writeString :: "byte list \<Rightarrow> (coded_output, unit) cpp" where
  "writeString v = bindC (writeRawVarint32 (word_of_nat (length v))) (\<lambda>_ s.
     let numberOfBytes = length v
     in if out_position s + numberOfBytes > out_size s then (Inl OutOfRange, s)
        else if curWritePointer s + numberOfBytes \<le> length (out_mem s)
        then (Inr (), s\<lparr>out_mem := mem_write (out_mem s) (curWritePointer s) v,
                        out_position := out_position s + numberOfBytes\<rparr>)
        else (Inl MemoryFault, s))"

section \<open>Specification: one bytewise write\<close>

text \<open>The invariant of a writer: its window lies in the region and its position in the window.\<close>

definition out_wf :: "coded_output \<Rightarrow> bool" where
  "out_wf s \<longleftrightarrow> out_position s \<le> out_size s \<and> out_ptr s + out_size s \<le> length (out_mem s)"

fun write_bytes :: "byte list \<Rightarrow> (coded_output, unit) cpp" where
  "write_bytes [] = returnC ()"
| "write_bytes (b # bs) = bindC (writeRawByte b) (\<lambda>_. write_bytes bs)"

definition put_bytes :: "byte list \<Rightarrow> coded_output \<Rightarrow> coded_output" where
  "put_bytes bs s = s\<lparr>out_mem := mem_write (out_mem s) (curWritePointer s) bs,
                      out_position := out_position s + length bs\<rparr>"

lemma put_bytes_sel [simp]:
  "out_ptr (put_bytes bs s) = out_ptr s"
  "out_size (put_bytes bs s) = out_size s"
  "out_position (put_bytes bs s) = out_position s + length bs"
  "out_mem (put_bytes bs s) = mem_write (out_mem s) (curWritePointer s) bs"
  by (simp_all add: put_bytes_def)

lemma put_bytes_Nil [simp]: "put_bytes [] s = s"
  by (simp add: put_bytes_def)

definition fits :: "coded_output \<Rightarrow> nat \<Rightarrow> bool" where
  "fits s n \<longleftrightarrow> out_position s + n \<le> out_size s"

lemma out_wf_put_bytes: "out_wf s \<Longrightarrow> fits s (length bs) \<Longrightarrow> out_wf (put_bytes bs s)"
  by (auto simp: out_wf_def fits_def curWritePointer_def)

lemma put_bytes_put_bytes:
  assumes "out_wf s" and "fits s (length xs + length ys)"
  shows "put_bytes ys (put_bytes xs s) = put_bytes (xs @ ys) s"
  using assms mem_write_mem_write_append [of "curWritePointer s" xs ys "out_mem s"]
  by (auto simp: put_bytes_def out_wf_def fits_def curWritePointer_def add.assoc)

lemma writeRawByte_fits:
  "out_wf s \<Longrightarrow> fits s 1 \<Longrightarrow> writeRawByte b s = (Inr (), put_bytes [b] s)"
  by (auto simp: writeRawByte_def put_bytes_def out_wf_def fits_def curWritePointer_def
      list_update_eq_mem_write)

lemma writeRawByte_full:
  "out_position s = out_size s \<Longrightarrow> writeRawByte b s = (Inl OutOfRange, s)"
  by (simp add: writeRawByte_def)

lemma write_bytes_append: "write_bytes (xs @ ys) = bindC (write_bytes xs) (\<lambda>_. write_bytes ys)"
  by (induction xs) (simp_all add: bindC_assoc)

lemma write_bytes_fits:
  "out_wf s \<Longrightarrow> fits s (length bs) \<Longrightarrow> write_bytes bs s = (Inr (), put_bytes bs s)"
proof (induction bs arbitrary: s)
  case Nil
  then show ?case by (simp add: returnC_def)
next
  case (Cons b bs)
  from Cons.prems have one: "fits s 1" and wf: "out_wf (put_bytes [b] s)"
    by (auto simp: fits_def intro!: out_wf_put_bytes)
  have "fits (put_bytes [b] s) (length bs)"
    using Cons.prems by (simp add: fits_def)
  with wf have "write_bytes bs (put_bytes [b] s) = (Inr (), put_bytes bs (put_bytes [b] s))"
    by (rule Cons.IH)
  also have "put_bytes bs (put_bytes [b] s) = put_bytes (b # bs) s"
    using Cons.prems by (subst put_bytes_put_bytes) simp_all
  finally show ?case
    using writeRawByte_fits [OF Cons.prems(1) one, of b] by (simp add: cpp_simps)
qed

text \<open>When the bytes do not fit, the window is filled and the write throws; no byte outside the
  window changes.\<close>

lemma write_bytes_too_long:
  assumes "out_wf s" and "\<not> fits s (length bs)"
  shows "write_bytes bs s = (Inl OutOfRange, put_bytes (take (out_size s - out_position s) bs) s)"
proof -
  define k where "k = out_size s - out_position s"
  have k: "k < length bs" "out_position s + k = out_size s"
    using assms by (auto simp: k_def fits_def out_wf_def)
  have "fits s (length (take k bs))"
    using k by (simp add: fits_def)
  with assms(1) have 1: "write_bytes (take k bs) s = (Inr (), put_bytes (take k bs) s)"
    by (rule write_bytes_fits)
  obtain c cs where d: "drop k bs = c # cs"
    using k(1) by (metis Cons_nth_drop_Suc)
  have "bs = take k bs @ c # cs"
    using append_take_drop_id [of k bs] d by simp
  then have "write_bytes bs = bindC (write_bytes (take k bs)) (\<lambda>_. write_bytes (c # cs))"
    using write_bytes_append [of "take k bs" "c # cs"] by argo
  with 1 have "write_bytes bs s = write_bytes (c # cs) (put_bytes (take k bs) s)"
    by (simp add: cpp_simps)
  also have "\<dots> = (Inl OutOfRange, put_bytes (take k bs) s)"
    using k by (simp add: bindC_Inl writeRawByte_full)
  finally show ?thesis by (simp add: k_def)
qed

section \<open>Every operation as a bytewise write\<close>

lemma take_bit_and_push_bit: "take_bit n (x :: 'a::len word) AND push_bit n y = 0"
  by (rule bit_word_eqI) (auto simp: bit_simps)

lemma varint_byte_more:
  fixes v :: "'a::len word"
  assumes "8 \<le> LENGTH('a)"
  shows "ucast ((v AND 0x7F) OR 0x80) = (word_of_nat (unat v mod 128 + 128) :: byte)"
proof -
  have m: "(0x7F :: 'a word) = mask 7" by (simp add: mask_numeral)
  have l: "ucast ((v AND 0x7F) OR 0x80) = take_bit 7 (ucast v :: byte) OR 0x80"
  proof -
    have p: "(0x80 :: 'a word) = push_bit 7 1" "(0x80 :: byte) = push_bit 7 1"
      by (simp_all add: push_bit_eq_mult)
    show ?thesis
      unfolding m take_bit_eq_mask [symmetric] p
      by (rule bit_word_eqI) (use assms in \<open>auto simp: bit_simps\<close>)
  qed
  have "(word_of_nat (unat v mod 128) :: byte) = word_of_nat (take_bit 7 (unat v))"
    by (simp add: take_bit_eq_mod)
  also have "\<dots> = take_bit 7 (ucast v)"
    by (simp flip: take_bit_of_nat)
  finally have "(word_of_nat (unat v mod 128 + 128) :: byte) = take_bit 7 (ucast v) + 128"
    by simp
  also have "\<dots> = take_bit 7 (ucast v) OR 128"
  proof (rule disjunctive_add_eq_or)
    show "take_bit 7 (ucast v :: byte) AND 128 = 0"
      using take_bit_and_push_bit [of 7 "ucast v :: byte" 1] by simp
  qed
  finally show ?thesis using l by simp
qed

lemma unat_drop_bit_7: "unat (drop_bit 7 v) = unat v div 128"
  unfolding unat_drop_bit_eq drop_bit_eq_div [of 7 "unat v"] by simp

lemma writeRawVarint64_eq: "writeRawVarint64 v = write_bytes (varint (unat v))"
proof (induction v rule: writeRawVarint64.induct)
  case (1 v)
  have "(NOT 0x7f :: u64) = push_bit 7 (- 1)" by (simp add: mask_eq_exp_minus_1)
  then have c: "v AND NOT 0x7f = 0 \<longleftrightarrow> unat v < 128"
    using and_shifted_mask_eq_0_iff [of v 7] by (simp only:) simp
  show ?case
  proof (cases "unat v < 128")
    case True
    then show ?thesis using c
      by (subst writeRawVarint64.simps) (simp)
  next
    case False
    have "unat (logicalRightShift64 v 7) = unat v div 128"
      unfolding conversion_defs by (rule unat_drop_bit_7)
    with False "1.IH" c show ?thesis
      by (subst writeRawVarint64.simps) (simp add: varint_large varint_byte_more)
  qed
qed

definition le_bytes :: "nat \<Rightarrow> nat \<Rightarrow> byte list" where
  "le_bytes k n = map (\<lambda>i. word_of_nat (n div 256 ^ i)) [0..<k]"

lemma length_le_bytes [simp]: "length (le_bytes k n) = k"
  by (simp add: le_bytes_def)

lemma le_byte_shift:
  fixes v :: "'a::len word"
  assumes "8 * i + 8 \<le> LENGTH('a)"
  shows "ucast (signed_drop_bit (8 * i) v AND 0xff) = (word_of_nat (unat v div 256 ^ i) :: byte)"
proof -
  have "signed_drop_bit (8 * i) v AND 0xff = take_bit 8 (signed_drop_bit (8 * i) v)"
    by (simp add: take_bit_eq_mask mask_numeral)
  then have "ucast (signed_drop_bit (8 * i) v AND 0xff) = (ucast (drop_bit (8 * i) v) :: byte)"
    by (simp only:) (rule bit_word_eqI, use assms in \<open>auto simp: bit_simps\<close>)
  also have "\<dots> = word_of_nat (unat (drop_bit (8 * i) v))" by simp
  also have "unat (drop_bit (8 * i) v) = unat v div 256 ^ i"
    unfolding unat_drop_bit_eq drop_bit_eq_div [of _ "unat v"] by (simp add: power_mult)
  finally show ?thesis .
qed

lemma writeRawLittleEndian32_eq: "writeRawLittleEndian32 v = write_bytes (le_bytes 4 (unat v))"
proof -
  have u: "[0..<4] = [0, 1, 2, 3]" by (simp add: upt_rec)
  show ?thesis
    using le_byte_shift [of 0 v] le_byte_shift [of 1 v] le_byte_shift [of 2 v] le_byte_shift [of 3 v]
    unfolding writeRawLittleEndian32_def le_bytes_def u by simp
qed

lemma writeRawLittleEndian64_eq: "writeRawLittleEndian64 v = write_bytes (le_bytes 8 (unat v))"
proof -
  have u: "[0..<8] = [0, 1, 2, 3, 4, 5, 6, 7]" by (simp add: upt_rec)
  show ?thesis
    using le_byte_shift [of 0 v] le_byte_shift [of 1 v] le_byte_shift [of 2 v] le_byte_shift [of 3 v]
      le_byte_shift [of 4 v] le_byte_shift [of 5 v] le_byte_shift [of 6 v] le_byte_shift [of 7 v]
    unfolding writeRawLittleEndian64_def le_bytes_def u by simp
qed

lemma writeRawVarint32_eq: "writeRawVarint32 v = write_bytes (varint (unat v))"
proof (induction v rule: writeRawVarint32.induct)
  case (1 v)
  have "(NOT 0x7f :: u32) = push_bit 7 (- 1)" by (simp add: mask_eq_exp_minus_1)
  then have c: "v AND NOT 0x7f = 0 \<longleftrightarrow> unat v < 128"
    using and_shifted_mask_eq_0_iff [of v 7] by (simp only:) simp
  show ?case
  proof (cases "unat v < 128")
    case True
    then show ?thesis using c
      by (subst writeRawVarint32.simps) (simp)
  next
    case False
    have "unat (logicalRightShift32 v 7) = unat v div 128"
      unfolding conversion_defs by (rule unat_drop_bit_7)
    with False "1.IH" c show ?thesis
      by (subst writeRawVarint32.simps) (simp add: varint_large varint_byte_more)
  qed
qed

text \<open>The encodings of the remaining types. A negative \<open>int32_t\<close> is sign-extended to 64 bits.\<close>

definition enc_int32 :: "int32 \<Rightarrow> byte list" where
  "enc_int32 v = (if 0 \<le> sint v then varint (unat v) else varint (unat (scast v :: u64)))"

definition enc_uint32 :: "u32 \<Rightarrow> byte list" where
  "enc_uint32 v = varint (unat v)"

definition enc_int64 :: "int64 \<Rightarrow> byte list" where
  "enc_int64 v = varint (unat v)"

definition enc_bool :: "bool \<Rightarrow> byte list" where
  "enc_bool v = [if v then 1 else 0]"

definition enc_float :: "float32 \<Rightarrow> byte list" where
  "enc_float v = le_bytes 4 (unat (float32_bits v))"

definition enc_double :: "float64 \<Rightarrow> byte list" where
  "enc_double v = le_bytes 8 (unat (float64_bits v))"

definition enc_data :: "byte list \<Rightarrow> byte list" where
  "enc_data d = varint (unat (word_of_nat (length d) :: u32)) @ d"

lemma writeInt32_eq: "writeInt32 v = write_bytes (enc_int32 v)"
  by (simp add: writeInt32_def enc_int32_def writeRawVarint32_eq writeRawVarint64_eq)

lemma writeUInt32_eq: "writeUInt32 v = write_bytes (enc_uint32 v)"
  by (simp add: writeUInt32_def enc_uint32_def writeRawVarint32_eq)

lemma writeInt64_eq: "writeInt64 v = write_bytes (enc_int64 v)"
  by (simp add: writeInt64_def enc_int64_def writeRawVarint64_eq)

lemma writeUInt64_eq: "writeUInt64 v = write_bytes (enc_int64 v)"
  by (simp add: writeUInt64_def enc_int64_def writeRawVarint64_eq)

lemma writeBool_eq: "writeBool v = write_bytes (enc_bool v)"
  by (simp add: writeBool_def enc_bool_def)

lemma writeFloat_eq: "writeFloat v = write_bytes (enc_float v)"
  by (simp add: writeFloat_def enc_float_def writeRawLittleEndian32_eq conversion_defs)

lemma writeDouble_eq: "writeDouble v = write_bytes (enc_double v)"
  by (simp add: writeDouble_def enc_double_def writeRawLittleEndian64_eq conversion_defs)

lemmas write_eqs = writeInt32_eq writeUInt32_eq writeInt64_eq writeUInt64_eq writeBool_eq
  writeFloat_eq writeDouble_eq writeRawVarint32_eq writeRawVarint64_eq
  writeRawLittleEndian32_eq writeRawLittleEndian64_eq

lemma writeRawData_fits:
  "out_wf s \<Longrightarrow> fits s (length d) \<Longrightarrow> writeRawData d s = (Inr (), put_bytes d s)"
  by (auto simp: writeRawData_def fits_def out_wf_def put_bytes_def curWritePointer_def Let_def)

lemma writeData_fits:
  assumes "out_wf s" and "fits s (length (enc_data d))"
  shows "writeData d s = (Inr (), put_bytes (enc_data d) s)"
proof -
  let ?h = "varint (unat (word_of_nat (length d) :: u32))"
  have h: "fits s (length ?h)" "fits (put_bytes ?h s) (length d)"
    using assms(2) by (auto simp: fits_def enc_data_def)
  have "writeData d s = writeRawData d (put_bytes ?h s)"
    using write_bytes_fits [OF assms(1) h(1)] by (simp add: writeData_def write_eqs cpp_simps)
  also have "\<dots> = (Inr (), put_bytes d (put_bytes ?h s))"
    using h assms(1) by (intro writeRawData_fits out_wf_put_bytes)
  also have "put_bytes d (put_bytes ?h s) = put_bytes (enc_data d) s"
    using assms by (simp add: enc_data_def put_bytes_put_bytes)
  finally show ?thesis .
qed

lemma writeString_eq_writeData: "writeString v = writeData v"
  by (simp add: writeString_def writeData_def writeRawData_def [abs_def])

text \<open>The size functions give the lengths of the encodings.\<close>

lemma unat_pbInt32Size: "unat (pbInt32Size v) = length (enc_int32 v)"
proof (cases "0 \<le> sint v")
  case True
  then show ?thesis
    by (simp add: pbInt32Size_def enc_int32_def unat_pbRawVarint32Size conversion_defs)
next
  case False
  let ?w = "scast v :: u64"
  from False have "bit v 31"
    using bit_last_iff [of v] by simp
  then have "bit ?w 63"
    by (simp add: bit_simps)
  then have "128 ^ 9 \<le> unat ?w"
    using bit_imp_unat_ge [of ?w 63] by simp
  moreover have "unat ?w < 128 ^ 10"
    by (rule less_trans [OF unat_u64_less]) simp
  ultimately have "length (varint (unat ?w)) = 10"
    using length_varint_eq_Suc [of 9 "unat ?w"] by simp
  with False show ?thesis
    by (simp add: pbInt32Size_def enc_int32_def)
qed

lemma unat_pbUInt32Size: "unat (pbUInt32Size v) = length (enc_uint32 v)"
  by (simp add: pbUInt32Size_def enc_uint32_def unat_pbRawVarint32Size)

lemma unat_pbInt64Size: "unat (pbInt64Size v) = length (enc_int64 v)"
  by (simp add: pbInt64Size_def enc_int64_def unat_pbUInt64Size conversion_defs)

end
