(* ===== verification/CodedInput.thy ===== *)
theory CodedInput
  imports CodedOutput
begin

text \<open>
  \<open>CodedInputData\<close> (and its Foundation half \<open>CodedInputData_OSX.cpp\<close>): the reader over a memory
  region, and the plain \<open>KeyValueHolder\<close> whose fields two of its operations fill in.

  A reader is a pointer into a region, the number of bytes it may read and its position. Strings
  and buffers are their bytes. \<open>NSString\<close> is Foundation's: decoding its UTF-8 bytes is the
  parameter \<open>utf8\<close>, \<open>None\<close> for the bytes that have no decoding (\<open>initWithBytes:\<close> answers \<open>nil\<close>).

  The lemmas show, for each type, that reading what the writer of that type wrote gives the value
  back and leaves the reader just behind it, whatever follows; where each operation throws; and
  that a successful read consumes at least one byte, which is why the decoding loops end.
\<close>

unbundle bit_operations_syntax

record KeyValueHolder =
  computedKVSize :: u16
  keySize :: u16
  valueSize :: u32
  offset :: u32

record coded_input =
  in_mem :: "byte list"
  in_ptr :: nat
  in_size :: nat
  in_position :: nat

definition CodedInputData :: "byte list \<Rightarrow> nat \<Rightarrow> nat \<Rightarrow> coded_input" where
  "CodedInputData mem ptr len =
     \<lparr>in_mem = mem, in_ptr = ptr, in_size = len, in_position = 0\<rparr>"

section \<open>Operations\<close>

definition isAtEnd :: "coded_input \<Rightarrow> bool" where
  "isAtEnd s \<longleftrightarrow> in_position s = in_size s"

definition seekIn :: "nat \<Rightarrow> (coded_input, unit) cpp" where
  "seekIn addedSize s =
     (if in_position s + addedSize > in_size s then (Inl OutOfRange, s)
      else (Inr (), s\<lparr>in_position := in_position s + addedSize\<rparr>))"

definition readRawByte :: "(coded_input, byte) cpp" where
  "readRawByte s =
     (if in_position s = in_size s then (Inl OutOfRange, s)
      else if in_ptr s + in_position s < length (in_mem s)
      then (Inr (in_mem s ! (in_ptr s + in_position s)), s\<lparr>in_position := in_position s + 1\<rparr>)
      else (Inl MemoryFault, s))"

fun discardUpperBytes :: "nat \<Rightarrow> int32 \<Rightarrow> (coded_input, int32) cpp" where
  "discardUpperBytes 0 result = throwC InvalidArgument"
| "discardUpperBytes (Suc n) result =
     bindC readRawByte (\<lambda>b. if 0 \<le> sint b then returnC result else discardUpperBytes n result)"

definition readRawVarint32 :: "(coded_input, int32) cpp" where
  "readRawVarint32 =
     bindC readRawByte (\<lambda>tmp.
     if 0 \<le> sint tmp then returnC (scast tmp) else
     let result = scast tmp AND 0x7f in
     bindC readRawByte (\<lambda>tmp.
     if 0 \<le> sint tmp then returnC (result OR push_bit 7 (scast tmp)) else
     let result = result OR push_bit 7 (scast tmp AND 0x7f) in
     bindC readRawByte (\<lambda>tmp.
     if 0 \<le> sint tmp then returnC (result OR push_bit 14 (scast tmp)) else
     let result = result OR push_bit 14 (scast tmp AND 0x7f) in
     bindC readRawByte (\<lambda>tmp.
     if 0 \<le> sint tmp then returnC (result OR push_bit 21 (scast tmp)) else
     let result = result OR push_bit 21 (scast tmp AND 0x7f) in
     bindC readRawByte (\<lambda>tmp.
     let result = result OR push_bit 28 (scast tmp) in
     if sint tmp < 0 then discardUpperBytes 5 result else returnC result)))))"

function readInt64_loop :: "nat \<Rightarrow> int64 \<Rightarrow> (coded_input, int64) cpp" where
  "readInt64_loop shift result =
     (if shift < 64 then
        bindC readRawByte (\<lambda>b.
        let result = result OR push_bit shift (ucast (b AND 0x7f)) in
        if b AND 0x80 = 0 then returnC result else readInt64_loop (shift + 7) result)
      else throwC InvalidArgument)"
  by pat_completeness auto

termination
  by (relation "measure (\<lambda>(shift, result). 64 - shift)") auto

declare readInt64_loop.simps [simp del]

definition readInt64 :: "(coded_input, int64) cpp" where
  "readInt64 = readInt64_loop 0 0"

definition readUInt64 :: "(coded_input, u64) cpp" where
  "readUInt64 = bindC readInt64 (\<lambda>v. returnC (ucast v))"

definition readInt32 :: "(coded_input, int32) cpp" where
  "readInt32 = readRawVarint32"

definition readUInt32 :: "(coded_input, u32) cpp" where
  "readUInt32 = bindC readRawVarint32 (\<lambda>v. returnC (ucast v))"

definition readBool :: "(coded_input, bool) cpp" where
  "readBool = bindC readRawVarint32 (\<lambda>v. returnC (v \<noteq> 0))"

definition readRawLittleEndian32 :: "(coded_input, int32) cpp" where
  "readRawLittleEndian32 =
     bindC readRawByte (\<lambda>b1. bindC readRawByte (\<lambda>b2.
     bindC readRawByte (\<lambda>b3. bindC readRawByte (\<lambda>b4.
     returnC ((scast b1 AND 0xff) OR push_bit 8 (scast b2 AND 0xff) OR
       push_bit 16 (scast b3 AND 0xff) OR push_bit 24 (scast b4 AND 0xff))))))"

definition readRawLittleEndian64 :: "(coded_input, int64) cpp" where
  "readRawLittleEndian64 =
     bindC readRawByte (\<lambda>b1. bindC readRawByte (\<lambda>b2.
     bindC readRawByte (\<lambda>b3. bindC readRawByte (\<lambda>b4.
     bindC readRawByte (\<lambda>b5. bindC readRawByte (\<lambda>b6.
     bindC readRawByte (\<lambda>b7. bindC readRawByte (\<lambda>b8.
     returnC ((scast b1 AND 0xff) OR push_bit 8 (scast b2 AND 0xff) OR
       push_bit 16 (scast b3 AND 0xff) OR push_bit 24 (scast b4 AND 0xff) OR
       push_bit 32 (scast b5 AND 0xff) OR push_bit 40 (scast b6 AND 0xff) OR
       push_bit 48 (scast b7 AND 0xff) OR push_bit 56 (scast b8 AND 0xff))))))))))"

definition readDouble :: "(coded_input, float64) cpp" where
  "readDouble = bindC readRawLittleEndian64 (\<lambda>v. returnC (Int64ToFloat64 v))"

definition readFloat :: "(coded_input, float32) cpp" where
  "readFloat = bindC readRawLittleEndian32 (\<lambda>v. returnC (Int32ToFloat32 v))"

text \<open>\<open>takeBytes\<close> is the common tail of the length-delimited reads: the bytes at the position.\<close>

definition takeBytes :: "nat \<Rightarrow> (coded_input, byte list) cpp" where
  "takeBytes n s =
     (if in_ptr s + in_position s + n \<le> length (in_mem s)
      then (Inr (mem_read (in_mem s) (in_ptr s + in_position s) n),
            s\<lparr>in_position := in_position s + n\<rparr>)
      else (Inl MemoryFault, s))"

definition readString :: "(coded_input, byte list) cpp" where
  "readString = bindC readRawVarint32 (\<lambda>size.
     if sint size < 0 then throwC LengthError
     else (\<lambda>s. let s_size = unat size
               in if s_size \<le> in_size s - in_position s then takeBytes s_size s
                  else (Inl OutOfRange, s)))"

definition readStringKV :: "(coded_input, byte list \<times> KeyValueHolder) cpp" where
  "readStringKV s =
     (let off = word_of_nat (in_position s)
      in bindC readRawVarint32 (\<lambda>size.
           if sint size < 0 then throwC LengthError
           else (\<lambda>s. let s_size = unat size
                     in if s_size \<le> in_size s - in_position s
                        then bindC (takeBytes s_size) (\<lambda>result.
                               returnC (result, \<lparr>computedKVSize = 0, keySize = word_of_nat s_size,
                                                 valueSize = 0, offset = off\<rparr>)) s
                        else (Inl OutOfRange, s))) s)"

definition readDataBuf :: "bool \<Rightarrow> (coded_input, byte list) cpp" where
  "readDataBuf exactly = bindC readRawVarint32 (\<lambda>size.
     if sint size < 0 then throwC LengthError
     else (\<lambda>s. let s_size = unat size;
                   isSizeValid = (if exactly then s_size = in_size s - in_position s
                                  else s_size \<le> in_size s - in_position s)
               in if isSizeValid then takeBytes s_size s else (Inl OutOfRange, s)))"

definition readRealData :: "byte list \<Rightarrow> cpp_exception + byte list" where
  "readRealData d = fst (readDataBuf True (CodedInputData d 0 (length d)))"

definition readDataKV :: "KeyValueHolder \<Rightarrow> (coded_input, KeyValueHolder) cpp" where
  "readDataKV kvHolder = bindC readRawVarint32 (\<lambda>size.
     if sint size < 0 then throwC LengthError
     else (\<lambda>s. let s_size = unat size
               in if s_size \<le> in_size s - in_position s
                  then (Inr (kvHolder\<lparr>
                          computedKVSize := word_of_nat (in_position s) - ucast (offset kvHolder),
                          valueSize := word_of_nat s_size\<rparr>),
                        s\<lparr>in_position := in_position s + s_size\<rparr>)
                  else (Inl OutOfRange, s)))"

definition readNSString :: "(byte list \<Rightarrow> 'k option) \<Rightarrow> (coded_input, 'k option) cpp" where
  "readNSString utf8 = bindC readRawVarint32 (\<lambda>size.
     if sint size < 0 then throwC LengthError
     else (\<lambda>s. let s_size = unat size
               in if s_size \<le> in_size s - in_position s
                  then bindC (takeBytes s_size) (\<lambda>bs. returnC (utf8 bs)) s
                  else (Inl OutOfRange, s)))"

definition readNSStringKV ::
  "(byte list \<Rightarrow> 'k option) \<Rightarrow> (coded_input, 'k option \<times> KeyValueHolder) cpp" where
  "readNSStringKV utf8 s =
     (let off = word_of_nat (in_position s)
      in bindC readRawVarint32 (\<lambda>size.
           if sint size < 0 then throwC LengthError
           else (\<lambda>s. let s_size = unat size
                     in if s_size \<le> in_size s - in_position s
                        then bindC (takeBytes s_size) (\<lambda>bs.
                               returnC (utf8 bs, \<lparr>computedKVSize = 0, keySize = word_of_nat s_size,
                                                  valueSize = 0, offset = off\<rparr>)) s
                        else (Inl OutOfRange, s))) s)"

definition readNSData :: "(coded_input, byte list) cpp" where
  "readNSData = bindC readRawVarint32 (\<lambda>size.
     if sint size < 0 then throwC LengthError
     else (\<lambda>s. let s_size = unat size
               in if s_size \<le> in_size s - in_position s then takeBytes s_size s
                  else (Inl OutOfRange, s)))"

section \<open>Readers in front of given bytes\<close>

text \<open>The invariant of a reader, and what lies in front of it.\<close>

definition in_wf :: "coded_input \<Rightarrow> bool" where
  "in_wf s \<longleftrightarrow> in_position s \<le> in_size s \<and> in_ptr s + in_size s \<le> length (in_mem s)"

definition remaining :: "coded_input \<Rightarrow> byte list" where
  "remaining s = mem_read (in_mem s) (in_ptr s + in_position s) (in_size s - in_position s)"

definition advance :: "nat \<Rightarrow> coded_input \<Rightarrow> coded_input" where
  "advance n s = s\<lparr>in_position := in_position s + n\<rparr>"

lemma advance_sel [simp]:
  "in_mem (advance n s) = in_mem s" "in_ptr (advance n s) = in_ptr s"
  "in_size (advance n s) = in_size s" "in_position (advance n s) = in_position s + n"
  by (simp_all add: advance_def)

lemma advance_advance [simp]: "advance m (advance n s) = advance (n + m) s"
  by (simp add: advance_def add.assoc)

lemma advance_0 [simp]: "advance 0 s = s"
  by (simp add: advance_def)

lemma length_remaining: "in_wf s \<Longrightarrow> length (remaining s) = in_size s - in_position s"
  by (simp add: remaining_def in_wf_def)

lemma in_wf_advance: "in_wf s \<Longrightarrow> n \<le> length (remaining s) \<Longrightarrow> in_wf (advance n s)"
  by (auto simp: length_remaining in_wf_def)

lemma remaining_advance: "remaining (advance n s) = drop n (remaining s)"
  by (simp add: remaining_def mem_read_def drop_take add.commute add.left_commute)

lemma isAtEnd_iff: "in_wf s \<Longrightarrow> isAtEnd s \<longleftrightarrow> remaining s = []"
  using length_remaining [of s] by (auto simp: isAtEnd_def in_wf_def)

lemma readRawByte_Cons:
  assumes "in_wf s" and "remaining s = b # bs"
  shows "readRawByte s = (Inr b, advance 1 s)"
proof -
  have l: "in_position s < in_size s"
    using length_remaining [OF assms(1)] assms(2) by simp
  then have a: "in_ptr s + in_position s < length (in_mem s)"
    using assms(1) by (auto simp: in_wf_def)
  have "remaining s ! 0 = in_mem s ! (in_ptr s + in_position s)"
    using l a assms(1) by (simp add: remaining_def nth_mem_read in_wf_def)
  then show ?thesis
    using l a assms(2) by (simp add: readRawByte_def advance_def)
qed

lemma readRawByte_Nil: "in_wf s \<Longrightarrow> remaining s = [] \<Longrightarrow> readRawByte s = (Inl OutOfRange, s)"
  by (simp add: readRawByte_def isAtEnd_iff [symmetric] isAtEnd_def)

lemma takeBytes_append:
  assumes "in_wf s" and "remaining s = xs @ bs"
  shows "takeBytes (length xs) s = (Inr xs, advance (length xs) s)"
proof -
  have l: "length xs \<le> in_size s - in_position s"
    using length_remaining [OF assms(1)] assms(2) by simp
  have "mem_read (in_mem s) (in_ptr s + in_position s) (length xs) = take (length xs) (remaining s)"
    using l by (simp add: remaining_def mem_read_def min_def)
  with assms l show ?thesis
    by (auto simp: takeBytes_def advance_def in_wf_def)
qed

section \<open>Reading varints\<close>

lemma bit_nat_less_128: "m < 128 \<Longrightarrow> bit (m :: nat) i \<Longrightarrow> i < 7"
  using take_bit_nat_eq_self [of m 7] bit_take_bit_iff [of 7 m i] by simp

lemma take_bit_and_push_bit_nat: "take_bit n (a :: nat) AND push_bit n b = 0"
  by (rule bit_eqI) (auto simp: bit_simps)

lemma bit_cont_byte:
  assumes "m < 128"
  shows "bit (word_of_nat (m + 128) :: byte) i \<longleftrightarrow> i = 7 \<or> bit m i"
proof -
  have "take_bit 7 m = m" using assms by (simp add: take_bit_nat_eq_self)
  then have "m + 128 = take_bit 7 m + push_bit 7 1" by (simp add: push_bit_eq_mult)
  also have "\<dots> = take_bit 7 m OR push_bit 7 1"
    by (rule disjunctive_add_eq_or) (rule take_bit_and_push_bit_nat)
  finally have "bit (m + 128) i = bit (take_bit 7 m OR push_bit 7 1) i" by (rule arg_cong)
  also have "\<dots> \<longleftrightarrow> bit m i \<or> i = 7"
    using bit_nat_less_128 [OF assms, of i]
    unfolding bit_or_iff bit_take_bit_iff bit_push_bit_iff bit_1_iff by auto
  finally have "bit (m + 128) i \<longleftrightarrow> bit m i \<or> i = 7" .
  then show ?thesis
    using bit_nat_less_128 [OF assms, of i] by (auto simp: bit_simps simp del: of_nat_add)
qed

lemma bit_last_byte: "m < 128 \<Longrightarrow> bit (word_of_nat m :: byte) i \<longleftrightarrow> bit m i"
  using bit_nat_less_128 [of m i] by (auto simp: bit_simps)

lemma cont_byte_facts:
  assumes "m < 128"
  shows "sint (word_of_nat (m + 128) :: byte) < 0"
    and "scast (word_of_nat (m + 128) :: byte) AND (0x7f :: u32) = word_of_nat m"
    and "push_bit 28 (scast (word_of_nat (m + 128) :: byte) :: u32) = push_bit 28 (word_of_nat m)"
    and "(word_of_nat (m + 128) :: byte) AND 0x80 \<noteq> 0"
    and "ucast ((word_of_nat (m + 128) :: byte) AND 0x7f) = (word_of_nat m :: u64)"
proof -
  note b = bit_cont_byte [OF assms] bit_nat_less_128 [OF assms]
  have m7: "(0x7f :: u32) = mask 7" "(0x7f :: byte) = mask 7" by (simp_all add: mask_numeral)
  show "sint (word_of_nat (m + 128) :: byte) < 0"
    using b(1) [of 7] bit_last_iff [of "word_of_nat (m + 128) :: byte"] by simp
  show "scast (word_of_nat (m + 128) :: byte) AND (0x7f :: u32) = word_of_nat m"
    unfolding m7 by (rule bit_word_eqI) (use b in \<open>auto simp: bit_simps simp del: of_nat_add\<close>)
  show "push_bit 28 (scast (word_of_nat (m + 128) :: byte) :: u32) = push_bit 28 (word_of_nat m)"
    by (rule bit_word_eqI) (use b in \<open>auto simp: bit_simps simp del: of_nat_add\<close>)
  have "bit ((word_of_nat (m + 128) :: byte) AND push_bit 7 1) 7"
    using b(1) [of 7] by (auto simp: bit_simps simp del: of_nat_add)
  then show "(word_of_nat (m + 128) :: byte) AND 0x80 \<noteq> 0" by auto
  show "ucast ((word_of_nat (m + 128) :: byte) AND 0x7f) = (word_of_nat m :: u64)"
    unfolding m7 by (rule bit_word_eqI) (use b in \<open>auto simp: bit_simps simp del: of_nat_add\<close>)
qed

lemma last_byte_facts:
  assumes "m < 128"
  shows "0 \<le> sint (word_of_nat m :: byte)"
    and "scast (word_of_nat m :: byte) = (word_of_nat m :: u32)"
    and "(word_of_nat m :: byte) AND 0x80 = 0"
    and "ucast ((word_of_nat m :: byte) AND 0x7f) = (word_of_nat m :: u64)"
proof -
  note b = bit_last_byte [OF assms] bit_nat_less_128 [OF assms]
  have m7: "(0x7f :: byte) = mask 7" by (simp add: mask_numeral)
  have "\<not> bit (word_of_nat m :: byte) 7"
    using b(1) [of 7] b(2) [of 7] by auto
  then show "0 \<le> sint (word_of_nat m :: byte)"
    using bit_last_iff [of "word_of_nat m :: byte"] by simp
  show "scast (word_of_nat m :: byte) = (word_of_nat m :: u32)"
    by (rule bit_word_eqI) (use b \<open>\<not> bit (word_of_nat m :: byte) 7\<close> in
      \<open>fastforce simp: bit_simps min_def split: if_splits\<close>)
  show "(word_of_nat m :: byte) AND 0x80 = 0"
  proof -
    have "take_bit 7 (word_of_nat m :: byte) = word_of_nat m"
      by (rule bit_word_eqI) (use b in \<open>auto simp: bit_simps\<close>)
    then show ?thesis
      using take_bit_and_push_bit [of 7 "word_of_nat m :: byte" 1] by simp
  qed
  show "ucast ((word_of_nat m :: byte) AND 0x7f) = (word_of_nat m :: u64)"
    unfolding m7 by (rule bit_word_eqI) (use b in \<open>auto simp: bit_simps\<close>)
qed

lemma bit_word_of_nat: "bit (word_of_nat n :: 'a::len word) i \<longleftrightarrow> i < LENGTH('a) \<and> bit n i"
  by (simp add: bit_simps)

lemma or_push_bit_mod:
  "word_of_nat (n mod 2 ^ k) OR push_bit k (word_of_nat (n div 2 ^ k mod 128)) =
   (word_of_nat (n mod 2 ^ (k + 7)) :: 'a::len word)"
proof -
  have a: "n mod 2 ^ k = take_bit k n" "n div 2 ^ k mod 128 = take_bit 7 (drop_bit k n)"
    "n mod 2 ^ (k + 7) = take_bit (k + 7) n"
    by (simp_all add: take_bit_eq_mod drop_bit_eq_div)
  show ?thesis unfolding a
    by (rule bit_word_eqI) (auto simp: bit_simps)
qed

lemma or_push_bit_div:
  "word_of_nat (n mod 2 ^ k) OR push_bit k (word_of_nat (n div 2 ^ k)) =
   (word_of_nat n :: 'a::len word)"
proof -
  have a: "n mod 2 ^ k = take_bit k n" "n div 2 ^ k = drop_bit k n"
    by (simp_all add: take_bit_eq_mod drop_bit_eq_div)
  show ?thesis unfolding a
    by (rule bit_word_eqI) (auto simp: bit_simps)
qed

lemma readRawByte_bind:
  assumes "in_wf s" and "remaining s = b # bs"
  shows "bindC readRawByte f s = f b (advance 1 s)"
  using readRawByte_Cons [OF assms] by (simp add: bindC_Inr)

lemma in_wf_advance_1: "in_wf s \<Longrightarrow> remaining s = b # bs \<Longrightarrow> in_wf (advance 1 s)"
  by (rule in_wf_advance) simp_all

lemma remaining_advance_1: "remaining s = b # bs \<Longrightarrow> remaining (advance 1 s) = bs"
  by (simp add: remaining_advance)

text \<open>The digits of a varint, one at a time.\<close>

lemma varint_step:
  obtains (last) "n < 128" "varint n = [word_of_nat n]"
  | (more) "128 \<le> n" "varint n = word_of_nat (n mod 128 + 128) # varint (n div 128)"
  by (metis not_less varint_large varint_small)

lemma discardUpperBytes_varint:
  assumes "in_wf s" and "remaining s = varint n @ rest" and "length (varint n) \<le> k"
  shows "discardUpperBytes k r s = (Inr r, advance (length (varint n)) s)"
  using assms
proof (induction k arbitrary: n s)
  case 0
  then show ?case by simp
next
  case (Suc k)
  show ?case
  proof (cases n rule: varint_step)
    case last
    with Suc.prems show ?thesis
      by (simp add: readRawByte_bind last_byte_facts returnC_def)
  next
    case more
    with Suc.prems have r: "remaining s = word_of_nat (n mod 128 + 128) # varint (n div 128) @ rest"
      by simp
    have "discardUpperBytes (Suc k) r s = discardUpperBytes k r (advance 1 s)"
      using cont_byte_facts(1) [of "n mod 128"]
      by (simp add: readRawByte_bind [OF Suc.prems(1) r] del: of_nat_add)
    also have "\<dots> = (Inr r, advance (length (varint (n div 128))) (advance 1 s))"
      using Suc.prems more r by (intro Suc.IH in_wf_advance_1 remaining_advance_1) auto
    finally show ?thesis using more by simp
  qed
qed

lemma varint_bind_last:
  "in_wf s \<Longrightarrow> remaining s = varint n @ rest \<Longrightarrow> n < 128 \<Longrightarrow>
   bindC readRawByte f s = f (word_of_nat n) (advance (length (varint n)) s)"
  by (simp add: readRawByte_bind)

lemma varint_bind_more:
  "in_wf s \<Longrightarrow> remaining s = varint n @ rest \<Longrightarrow> 128 \<le> n \<Longrightarrow>
   bindC readRawByte f s = f (word_of_nat (n mod 128 + 128)) (advance 1 s)"
  by (simp add: varint_large readRawByte_bind del: of_nat_add)

lemma varint_more_facts:
  assumes "in_wf s" and "remaining s = varint n @ rest" and "128 \<le> n"
  shows "in_wf (advance 1 s)" and "remaining (advance 1 s) = varint (n div 128) @ rest"
    and "length (varint n) = Suc (length (varint (n div 128)))"
proof -
  have r: "remaining s = word_of_nat (n mod 128 + 128) # varint (n div 128) @ rest"
    using assms(2,3) by (simp add: varint_large)
  show "in_wf (advance 1 s)" by (rule in_wf_advance_1 [OF assms(1) r])
  show "remaining (advance 1 s) = varint (n div 128) @ rest" by (rule remaining_advance_1 [OF r])
  show "length (varint n) = Suc (length (varint (n div 128)))"
    using assms(3) by (simp add: varint_large)
qed

text \<open>\<open>readRawVarint32\<close> as a loop over its unrolled steps.\<close>

fun varint32_tail :: "nat \<Rightarrow> nat \<Rightarrow> u32 \<Rightarrow> (coded_input, u32) cpp" where
  "varint32_tail 0 k r = bindC readRawByte (\<lambda>b.
     let r = r OR push_bit k (scast b) in if sint b < 0 then discardUpperBytes 5 r else returnC r)"
| "varint32_tail (Suc j) k r = bindC readRawByte (\<lambda>b.
     if 0 \<le> sint b then returnC (r OR push_bit k (scast b))
     else varint32_tail j (k + 7) (r OR push_bit k (scast b AND 0x7f)))"

lemma readRawVarint32_tail: "readRawVarint32 = varint32_tail 4 0 0"
proof -
  have four: "(4 :: nat) = Suc (Suc (Suc (Suc 0)))" by simp
  show ?thesis
    unfolding four by (simp add: readRawVarint32_def Let_def cong: if_cong)
qed

lemma varint32_tail_varint:
  assumes "in_wf s" and "remaining s = varint (n div 2 ^ k) @ rest"
    and "k + 7 * j = 28" and "length (varint (n div 2 ^ k)) \<le> j + 6"
  shows "varint32_tail j k (word_of_nat (n mod 2 ^ k)) s =
         (Inr (word_of_nat n), advance (length (varint (n div 2 ^ k))) s)"
  using assms
proof (induction j arbitrary: k s)
  case 0
  then have k: "k = 28" by simp
  define m where "m = n div 2 ^ k"
  note p = "0.prems"(1) "0.prems"(2) [folded m_def]
  have l: "length (varint m) \<le> 6" using "0.prems"(4) by (simp add: m_def)
  show ?case
  proof (cases "m < 128")
    case True
    have "word_of_nat (n mod 2 ^ k) OR push_bit k (word_of_nat m) = (word_of_nat n :: u32)"
      unfolding m_def by (rule or_push_bit_div)
    moreover have "\<not> sint (word_of_nat m :: byte) < 0"
      using last_byte_facts(1) [OF True] by simp
    ultimately show ?thesis
      by (simp add: m_def [symmetric] varint_bind_last [OF p True] last_byte_facts [OF True]
          returnC_def Let_def del: push_bit_of_nat)
  next
    case False
    then have ge: "128 \<le> m" by simp
    have "word_of_nat (n mod 2 ^ k) OR push_bit k (word_of_nat (m mod 128)) =
          (word_of_nat (n mod 2 ^ (k + 7)) :: u32)"
      unfolding m_def by (rule or_push_bit_mod)
    also have "\<dots> = word_of_nat (take_bit (k + 7) n)" by (simp add: take_bit_eq_mod)
    also have "\<dots> = word_of_nat n"
      by (rule bit_word_eqI) (use k in \<open>auto simp: bit_simps\<close>)
    finally have w: "word_of_nat (n mod 2 ^ k) OR push_bit k (word_of_nat (m mod 128)) =
        (word_of_nat n :: u32)" .
    note f = varint_more_facts [OF p ge]
    have "discardUpperBytes 5 (word_of_nat n) (advance 1 s) =
          (Inr (word_of_nat n), advance (length (varint (m div 128))) (advance 1 s))"
      using l f(3) by (intro discardUpperBytes_varint [OF f(1,2)]) simp
    then show ?thesis
      using w cont_byte_facts(1,3) [of "m mod 128", folded k]
      by (simp add: m_def [symmetric] varint_bind_more [OF p ge] f(3) Let_def
          del: push_bit_of_nat of_nat_add)
  qed
next
  case (Suc j)
  define m where "m = n div 2 ^ k"
  note p = Suc.prems(1) Suc.prems(2) [folded m_def]
  have l: "length (varint m) \<le> j + 7" using Suc.prems(4) by (simp add: m_def)
  show ?case
  proof (cases "m < 128")
    case True
    have "word_of_nat (n mod 2 ^ k) OR push_bit k (word_of_nat m) = (word_of_nat n :: u32)"
      unfolding m_def by (rule or_push_bit_div)
    with True show ?thesis
      by (simp add: m_def [symmetric] varint_bind_last [OF p True] last_byte_facts returnC_def
          del: push_bit_of_nat)
  next
    case False
    then have ge: "128 \<le> m" by simp
    have w: "word_of_nat (n mod 2 ^ k) OR push_bit k (word_of_nat (m mod 128)) =
          (word_of_nat (n mod 2 ^ (k + 7)) :: u32)"
      unfolding m_def by (rule or_push_bit_mod)
    note f = varint_more_facts [OF p ge]
    have d: "m div 128 = n div 2 ^ (k + 7)"
      by (simp add: m_def div_mult2_eq power_add)
    have "varint32_tail j (k + 7) (word_of_nat (n mod 2 ^ (k + 7))) (advance 1 s) =
          (Inr (word_of_nat n), advance (length (varint (n div 2 ^ (k + 7)))) (advance 1 s))"
      using Suc.prems(3) l f unfolding d by (intro Suc.IH) simp_all
    then show ?thesis
      using w cont_byte_facts(1,2) [of "m mod 128"]
      by (simp add: m_def [symmetric] varint_bind_more [OF p ge] f(3) d
          del: push_bit_of_nat of_nat_add varint32_tail.simps(1))
  qed
qed

lemma readRawVarint32_varint:
  assumes "in_wf s" and "remaining s = varint n @ rest" and "length (varint n) \<le> 10"
  shows "readRawVarint32 s = (Inr (word_of_nat n), advance (length (varint n)) s)"
  using varint32_tail_varint [of s n 0 rest 4] assms by (simp add: readRawVarint32_tail)

lemma readInt64_loop_varint:
  assumes "in_wf s" and "remaining s = varint (n div 2 ^ k) @ rest"
    and "k + 7 * length (varint (n div 2 ^ k)) \<le> 70"
  shows "readInt64_loop k (word_of_nat (n mod 2 ^ k)) s =
         (Inr (word_of_nat n), advance (length (varint (n div 2 ^ k))) s)"
  using assms
proof (induction "length (varint (n div 2 ^ k))" arbitrary: k s rule: less_induct)
  case less
  define m where "m = n div 2 ^ k"
  note p = less.prems(1) less.prems(2) [folded m_def]
  have l: "k + 7 * length (varint m) \<le> 70" using less.prems(3) by (simp add: m_def)
  have "1 \<le> length (varint m)" using length_varint_gt_0 [of m] by (simp only: Suc_le_eq One_nat_def)
  with l have k: "k < 64" by linarith
  show ?case
  proof (cases "m < 128")
    case True
    have "word_of_nat (n mod 2 ^ k) OR push_bit k (word_of_nat m) = (word_of_nat n :: u64)"
      unfolding m_def by (rule or_push_bit_div)
    then show ?thesis
      by (simp add: readInt64_loop.simps [of k] k m_def [symmetric] varint_bind_last [OF p True]
          last_byte_facts(3,4) [OF True] True returnC_def Let_def del: push_bit_of_nat)
  next
    case False
    then have ge: "128 \<le> m" by simp
    have w: "word_of_nat (n mod 2 ^ k) OR push_bit k (word_of_nat (m mod 128)) =
          (word_of_nat (n mod 2 ^ (k + 7)) :: u64)"
      unfolding m_def by (rule or_push_bit_mod)
    note f = varint_more_facts [OF p ge]
    have d: "m div 128 = n div 2 ^ (k + 7)"
      by (simp add: m_def div_mult2_eq power_add)
    have "readInt64_loop (k + 7) (word_of_nat (n mod 2 ^ (k + 7))) (advance 1 s) =
          (Inr (word_of_nat n), advance (length (varint (n div 2 ^ (k + 7)))) (advance 1 s))"
      using l f unfolding d by (intro less.hyps) (simp_all add: m_def)
    then show ?thesis
      using w cont_byte_facts(4,5) [of "m mod 128"]
      by (simp add: readInt64_loop.simps [of k] k m_def [symmetric] varint_bind_more [OF p ge]
          f(3) d Let_def del: push_bit_of_nat of_nat_add)
  qed
qed

lemma readInt64_varint:
  assumes "in_wf s" and "remaining s = varint n @ rest" and "length (varint n) \<le> 10"
  shows "readInt64 s = (Inr (word_of_nat n), advance (length (varint n)) s)"
  using readInt64_loop_varint [of s n 0 rest] assms by (simp add: readInt64_def)

section \<open>Reading back\<close>

text \<open>\<open>reads m bs v\<close>: whenever \<open>bs\<close> lies in front of the reader, whatever follows, \<open>m\<close> returns
  \<open>v\<close> and stops just behind \<open>bs\<close>.\<close>

definition reads :: "(coded_input, 'a) cpp \<Rightarrow> byte list \<Rightarrow> 'a \<Rightarrow> bool" where
  "reads m bs v \<longleftrightarrow>
     (\<forall>s rest. in_wf s \<longrightarrow> remaining s = bs @ rest \<longrightarrow> m s = (Inr v, advance (length bs) s))"

lemma readsI:
  "(\<And>s rest. in_wf s \<Longrightarrow> remaining s = bs @ rest \<Longrightarrow> m s = (Inr v, advance (length bs) s)) \<Longrightarrow>
   reads m bs v"
  by (auto simp: reads_def)

lemma readsD:
  "reads m bs v \<Longrightarrow> in_wf s \<Longrightarrow> remaining s = bs @ rest \<Longrightarrow> m s = (Inr v, advance (length bs) s)"
  by (auto simp: reads_def)

lemma reads_returnC [intro!]: "reads (returnC v) [] v"
  by (rule readsI) (simp add: returnC_def)

lemma reads_bindC:
  assumes "reads m xs x" and "reads (f x) ys y"
  shows "reads (bindC m f) (xs @ ys) y"
proof (rule readsI)
  fix s rest assume wf: "in_wf s" and r: "remaining s = (xs @ ys) @ rest"
  from wf r have "m s = (Inr x, advance (length xs) s)"
    by (intro readsD [OF assms(1)]) simp_all
  moreover have "f x (advance (length xs) s) = (Inr y, advance (length ys) (advance (length xs) s))"
    using wf r by (intro readsD [OF assms(2)] in_wf_advance) (simp_all add: remaining_advance)
  ultimately show "bindC m f s = (Inr y, advance (length (xs @ ys)) s)"
    by (simp add: bindC_Inr)
qed

lemma reads_bindC_returnC: "reads m xs x \<Longrightarrow> reads (bindC m (\<lambda>x. returnC (f x))) xs (f x)"
  using reads_bindC [of m xs x "\<lambda>x. returnC (f x)" "[]"] by auto

lemma reads_readRawByte: "reads readRawByte [b] b"
  by (rule readsI) (simp add: readRawByte_Cons)

lemma reads_takeBytes: "reads (takeBytes (length bs)) bs bs"
  by (rule readsI) (rule takeBytes_append)

lemma reads_readRawVarint32:
  "length (varint n) \<le> 10 \<Longrightarrow> reads readRawVarint32 (varint n) (word_of_nat n)"
  by (rule readsI) (rule readRawVarint32_varint)

lemma reads_readInt64_varint:
  "length (varint n) \<le> 10 \<Longrightarrow> reads readInt64 (varint n) (word_of_nat n)"
  by (rule readsI) (rule readInt64_varint)

lemma length_varint_u32_le_10: "length (varint (unat (v :: u32))) \<le> 10"
  using length_varint_u32 [of v] by simp

lemma reads_readInt32: "reads readInt32 (enc_int32 v) v"
proof (cases "0 \<le> sint v")
  case True
  then show ?thesis
    using reads_readRawVarint32 [OF length_varint_u32_le_10 [of v]]
    by (simp add: readInt32_def enc_int32_def)
next
  case False
  have n31: "31 \<le> n \<Longrightarrow> n < 32 \<Longrightarrow> n = 31" for n :: nat by simp
  have "(word_of_nat (unat (scast v :: u64)) :: u32) = ucast (scast v :: u64)"
    by simp
  also have "\<dots> = v"
    by (rule bit_word_eqI) (auto simp: bit_simps min_def dest: n31)
  finally show ?thesis
    using reads_readRawVarint32 [OF length_varint_u64 [of "scast v"]] False
    by (simp add: readInt32_def enc_int32_def)
qed

lemma reads_readUInt32: "reads readUInt32 (enc_uint32 v) v"
  using reads_bindC_returnC [OF reads_readRawVarint32 [OF length_varint_u32_le_10 [of v]],
      of "ucast :: u32 \<Rightarrow> u32"]
  by (simp add: readUInt32_def enc_uint32_def)

lemma reads_readInt64: "reads readInt64 (enc_int64 v) v"
  using reads_readInt64_varint [OF length_varint_u64 [of v]] by (simp add: enc_int64_def)

lemma reads_readUInt64: "reads readUInt64 (enc_int64 v) v"
  using reads_bindC_returnC [OF reads_readInt64, of "ucast :: u64 \<Rightarrow> u64"] by (simp add: readUInt64_def)

lemma reads_readBool: "reads readBool (enc_bool v) v"
proof -
  have "enc_bool v = varint (if v then 1 else 0)" by (simp add: enc_bool_def)
  then show ?thesis
    using reads_bindC_returnC [OF reads_readRawVarint32 [of "if v then 1 else 0"],
        of "\<lambda>w. w \<noteq> 0"]
    by (cases v) (simp_all add: readBool_def)
qed

lemma scast_and_ff:
  fixes b :: byte
  assumes "8 \<le> LENGTH('a)"
  shows "scast b AND 0xff = (ucast b :: 'a::len word)"
proof -
  have m: "(0xff :: 'a word) = mask 8" by (simp add: mask_numeral)
  show ?thesis unfolding m
  proof (rule bit_word_eqI)
    fix n assume n: "n < LENGTH('a)"
    show "bit (scast b AND (mask 8 :: 'a word)) n \<longleftrightarrow> bit (ucast b :: 'a word) n"
    proof (cases "n < 8")
      case True
      then have "min 7 n = n" by simp
      with True n show ?thesis by (simp add: bit_simps)
    next
      case False
      then have "\<not> bit b n" using bit_imp_le_length [of b n] by auto
      with False show ?thesis by (simp add: bit_simps)
    qed
  qed
qed

lemma le_byte_drop_bit:
  fixes v :: "'a::len word"
  assumes "w = 256 ^ i" 
  shows "(word_of_nat (unat v div w) :: byte) = ucast (drop_bit (8 * i) v)"
proof -
  have "unat v div w = unat (drop_bit (8 * i) v)"
    unfolding unat_drop_bit_eq drop_bit_eq_div [of _ "unat v"] assms by (simp add: power_mult)
  then show ?thesis by simp
qed

lemma take_bit_or_byte:
  fixes v :: "'a::len word"
  shows "take_bit k v OR push_bit k (ucast (ucast (drop_bit k v) :: byte)) = take_bit (k + 8) v"
  by (rule bit_word_eqI) (auto simp: bit_simps)

lemma reads_le32:
  "reads readRawLittleEndian32 (le_bytes 4 (unat v)) v"
proof -
  have u: "[0..<4] = [0, 1, 2, 3]" by (simp add: upt_rec)
  note b = le_byte_drop_bit [of 1 0 v] le_byte_drop_bit [of 256 1 v]
    le_byte_drop_bit [of 65536 2 v] le_byte_drop_bit [of 16777216 3 v]
  note t = take_bit_or_byte [of 0 v] take_bit_or_byte [of 8 v] take_bit_or_byte [of 16 v]
    take_bit_or_byte [of 24 v]
  have w: "take_bit 32 v = v" by (simp add: take_bit_word_eq_self)
  have "reads readRawLittleEndian32 ([ucast v] @ [ucast (drop_bit 8 v)] @ [ucast (drop_bit 16 v)]
      @ [ucast (drop_bit 24 v)] @ []) v"
    unfolding readRawLittleEndian32_def
    by (intro reads_bindC [OF reads_readRawByte])
      (use t w in \<open>simp add: scast_and_ff reads_returnC or.assoc [symmetric]\<close>)
  then show ?thesis
    using b by (simp add: le_bytes_def u)
qed

lemma reads_le64:
  "reads readRawLittleEndian64 (le_bytes 8 (unat v)) v"
proof -
  have u: "[0..<8] = [0, 1, 2, 3, 4, 5, 6, 7]" by (simp add: upt_rec)
  note b = le_byte_drop_bit [of 1 0 v] le_byte_drop_bit [of "256 ^ 1" 1 v]
    le_byte_drop_bit [of "256 ^ 2" 2 v] le_byte_drop_bit [of "256 ^ 3" 3 v]
    le_byte_drop_bit [of "256 ^ 4" 4 v] le_byte_drop_bit [of "256 ^ 5" 5 v]
    le_byte_drop_bit [of "256 ^ 6" 6 v] le_byte_drop_bit [of "256 ^ 7" 7 v]
  note t = take_bit_or_byte [of 0 v] take_bit_or_byte [of 8 v] take_bit_or_byte [of 16 v]
    take_bit_or_byte [of 24 v] take_bit_or_byte [of 32 v] take_bit_or_byte [of 40 v]
    take_bit_or_byte [of 48 v] take_bit_or_byte [of 56 v]
  have w: "take_bit 64 v = v" by (simp add: take_bit_word_eq_self)
  have "reads readRawLittleEndian64 ([ucast v] @ [ucast (drop_bit 8 v)] @ [ucast (drop_bit 16 v)]
      @ [ucast (drop_bit 24 v)] @ [ucast (drop_bit 32 v)] @ [ucast (drop_bit 40 v)]
      @ [ucast (drop_bit 48 v)] @ [ucast (drop_bit 56 v)] @ []) v"
    unfolding readRawLittleEndian64_def
    by (intro reads_bindC [OF reads_readRawByte])
      (use t w in \<open>simp add: scast_and_ff reads_returnC or.assoc [symmetric]\<close>)
  then show ?thesis
    using b by (simp add: le_bytes_def u)
qed

lemma reads_readFloat: "reads readFloat (enc_float v) v"
  using reads_bindC_returnC [OF reads_le32 [of "float32_bits v"], of Int32ToFloat32]
  by (simp add: readFloat_def enc_float_def conversion_defs)

lemma reads_readDouble: "reads readDouble (enc_double v) v"
  using reads_bindC_returnC [OF reads_le64 [of "float64_bits v"], of Int64ToFloat64]
  by (simp add: readDouble_def enc_double_def conversion_defs)

text \<open>Length-delimited data. A length of \<open>2 ^ 31\<close> or more would read back as negative.\<close>

definition short :: "byte list \<Rightarrow> bool" where
  "short d \<longleftrightarrow> length d < 2 ^ 31"

lemma short_facts:
  assumes "short d"
  shows "\<not> sint (word_of_nat (length d) :: int32) < 0"
    and "unat (word_of_nat (length d) :: u32) = length d"
proof -
  have l: "length d < 2147483648" using assms by (simp add: short_def)
  then have t: "take_bit 31 (length d) = length d" by (simp add: take_bit_nat_eq_self)
  have "\<not> bit (take_bit 31 (length d)) 31" by (simp add: bit_take_bit_iff)
  then have "\<not> bit (word_of_nat (length d) :: int32) 31" using t by (simp add: bit_simps)
  then show "\<not> sint (word_of_nat (length d) :: int32) < 0"
    using bit_last_iff [of "word_of_nat (length d) :: int32"] by simp
  show "unat (word_of_nat (length d) :: u32) = length d"
    using l by (simp add: unat_of_nat take_bit_nat_eq_self)
qed

lemma enc_data_short: "short d \<Longrightarrow> enc_data d = varint (length d) @ d"
  by (simp add: enc_data_def short_facts)

lemma length_varint_short: "short d \<Longrightarrow> length (varint (length d)) \<le> 5"
  using length_varint_u32 [of "word_of_nat (length d)"] by (simp add: short_facts)

lemma in_size_remaining:
  "in_wf s \<Longrightarrow> remaining s = xs @ ys \<Longrightarrow> length xs \<le> in_size s - in_position s"
  using length_remaining [of s] by simp

text \<open>What every length-delimited read does first: the length, then a check against what is left.\<close>

lemma length_prefix_bind:
  assumes "short d" and "in_wf s" and "remaining s = enc_data d @ rest"
  shows "bindC readRawVarint32 f s = f (word_of_nat (length d)) (advance (length (varint (length d))) s)"
    and "in_wf (advance (length (varint (length d))) s)"
    and "remaining (advance (length (varint (length d))) s) = d @ rest"
    and "in_size s - (in_position s + length (varint (length d))) = length d + length rest"
proof -
  let ?h = "varint (length d)"
  have r: "remaining s = ?h @ d @ rest" using assms by (simp add: enc_data_short)
  have "reads readRawVarint32 ?h (word_of_nat (length d))"
    using length_varint_short [OF assms(1)] by (intro reads_readRawVarint32) simp
  from readsD [OF this assms(2) r]
  show "bindC readRawVarint32 f s = f (word_of_nat (length d)) (advance (length ?h) s)"
    by (rule bindC_Inr)
  show "in_wf (advance (length ?h) s)" using assms(2) r by (intro in_wf_advance) simp_all
  show "remaining (advance (length ?h) s) = d @ rest" using r by (simp add: remaining_advance)
  show "in_size s - (in_position s + length ?h) = length d + length rest"
  proof -
    have "length (?h @ d @ rest) = in_size s - in_position s"
      using length_remaining [OF assms(2)] r by (simp only:)
    moreover have "in_position s \<le> in_size s" using assms(2) by (simp add: in_wf_def)
    ultimately show ?thesis unfolding length_append by linarith
  qed
qed

lemma reads_readString:
  assumes "short d"
  shows "reads readString (enc_data d) d"
proof (rule readsI)
  fix s rest assume p: "in_wf s" "remaining s = enc_data d @ rest"
  note l = length_prefix_bind [OF assms p]
  show "readString s = (Inr d, advance (length (enc_data d)) s)"
    using assms takeBytes_append [OF l(2,3)]
    by (simp add: readString_def l(1,4) short_facts enc_data_short Let_def)
qed

lemma reads_readDataBuf:
  assumes "short d"
  shows "reads (readDataBuf False) (enc_data d) d"
  using reads_readString [OF assms]
  by (simp add: readString_def readDataBuf_def Let_def cong: if_cong)

lemma readDataBuf_exactly:
  assumes "short d" and "in_wf s" and "remaining s = enc_data d @ rest"
  shows "readDataBuf True s =
    (if rest = [] then (Inr d, advance (length (enc_data d)) s)
     else (Inl OutOfRange, advance (length (varint (length d))) s))"
proof -
  note l = length_prefix_bind [OF assms]
  show ?thesis
    using assms takeBytes_append [OF l(2,3)]
    by (simp add: readDataBuf_def l(1,4) short_facts enc_data_short Let_def)
qed

lemma reads_readNSData: "short d \<Longrightarrow> reads readNSData (enc_data d) d"
  using reads_readString [of d] by (simp add: readString_def readNSData_def)

lemma reads_readNSString:
  assumes "short d"
  shows "reads (readNSString utf8) (enc_data d) (utf8 d)"
proof -
  have "readNSString utf8 = bindC readString (\<lambda>bs. returnC (utf8 bs))"
    by (rule ext) (auto simp: readNSString_def readString_def bindC_def returnC_def throwC_def Let_def
        split: prod.splits sum.splits)
  then show ?thesis
    using reads_bindC_returnC [OF reads_readString [OF assms], of utf8] by simp
qed

text \<open>The reads that fill in a \<open>KeyValueHolder\<close>: the key's offset and size when the key is
  read; the distance from that offset to the value, and the value's size, when the value is
  skipped over.\<close>

definition key_holder :: "nat \<Rightarrow> nat \<Rightarrow> KeyValueHolder" where
  "key_holder pos n =
     \<lparr>computedKVSize = 0, keySize = word_of_nat n, valueSize = 0, offset = word_of_nat pos\<rparr>"

lemma readStringKV_enc:
  assumes "short d" and "in_wf s" and "remaining s = enc_data d @ rest"
  shows "readStringKV s =
    (Inr (d, key_holder (in_position s) (length d)), advance (length (enc_data d)) s)"
proof -
  note l = length_prefix_bind [OF assms]
  show ?thesis
    using assms takeBytes_append [OF l(2,3)]
    by (simp add: readStringKV_def l(1,4) short_facts enc_data_short Let_def key_holder_def
        bindC_Inr returnC_def)
qed

lemma readNSStringKV_eq:
  "readNSStringKV utf8 = bindC readStringKV (\<lambda>(bs, kv). returnC (utf8 bs, kv))"
  by (rule ext) (auto simp: readNSStringKV_def readStringKV_def bindC_def returnC_def throwC_def
      Let_def split: prod.splits sum.splits)

lemma readNSStringKV_enc:
  assumes "short d" and "in_wf s" and "remaining s = enc_data d @ rest"
  shows "readNSStringKV utf8 s =
    (Inr (utf8 d, key_holder (in_position s) (length d)), advance (length (enc_data d)) s)"
  using readStringKV_enc [OF assms] by (simp add: readNSStringKV_eq bindC_Inr returnC_def)

lemma readDataKV_enc:
  assumes "short d" and "in_wf s" and "remaining s = enc_data d @ rest"
  shows "readDataKV kv s =
    (Inr (kv\<lparr>computedKVSize :=
                word_of_nat (in_position s + length (varint (length d))) - ucast (offset kv),
             valueSize := word_of_nat (length d)\<rparr>),
     advance (length (enc_data d)) s)"
proof -
  note l = length_prefix_bind [OF assms]
  show ?thesis
    using assms
    by (simp add: readDataKV_def l(1,4) short_facts enc_data_short Let_def advance_def)
qed

section \<open>Reading arbitrary bytes\<close>

text \<open>On any bytes whatever a read stays inside the region, keeps the reader well formed and
  never moves it back; a read that returns has moved it forward.\<close>

definition in_frame :: "coded_input \<Rightarrow> coded_input \<Rightarrow> bool" where
  "in_frame s t \<longleftrightarrow> in_mem t = in_mem s \<and> in_ptr t = in_ptr s \<and> in_size t = in_size s \<and>
     in_position s \<le> in_position t"

lemma in_frame_refl [simp]: "in_frame s s"
  by (simp add: in_frame_def)

lemma in_frame_trans: "in_frame s t \<Longrightarrow> in_frame t u \<Longrightarrow> in_frame s u"
  by (simp add: in_frame_def)

definition safe_read :: "(coded_input, 'a) cpp \<Rightarrow> bool" where
  "safe_read m \<longleftrightarrow> (\<forall>s. in_wf s \<longrightarrow>
     fst (m s) \<noteq> Inl MemoryFault \<and> in_wf (snd (m s)) \<and> in_frame s (snd (m s)))"

definition consumes :: "(coded_input, 'a) cpp \<Rightarrow> bool" where
  "consumes m \<longleftrightarrow> safe_read m \<and>
     (\<forall>s v t. in_wf s \<longrightarrow> m s = (Inr v, t) \<longrightarrow> in_position s < in_position t)"

lemma safe_readD:
  assumes "safe_read m" and "in_wf s" and "m s = (r, t)"
  shows "r \<noteq> Inl MemoryFault" and "in_wf t" and "in_frame s t"
  using assms unfolding safe_read_def by (metis fst_conv snd_conv)+

lemma safe_readI:
  "(\<And>s r t. in_wf s \<Longrightarrow> m s = (r, t) \<Longrightarrow> r \<noteq> Inl MemoryFault \<and> in_wf t \<and> in_frame s t) \<Longrightarrow> safe_read m"
  unfolding safe_read_def by (metis prod.collapse)

named_theorems safe_intros \<open>operations that stay inside the region\<close>

lemma safe_returnC [safe_intros]: "safe_read (returnC v)"
  by (simp add: safe_read_def returnC_def)

lemma safe_throwC [safe_intros]: "e \<noteq> MemoryFault \<Longrightarrow> safe_read (throwC e)"
  by (simp add: safe_read_def throwC_def)

lemma safe_bindC [safe_intros]:
  assumes "safe_read m" and "\<And>x. safe_read (f x)"
  shows "safe_read (bindC m f)"
proof (rule safe_readI)
  fix s r t assume wf: "in_wf s" and b: "bindC m f s = (r, t)"
  obtain r1 u where m: "m s = (r1, u)" by fastforce
  note 1 = safe_readD [OF assms(1) wf m]
  show "r \<noteq> Inl MemoryFault \<and> in_wf t \<and> in_frame s t"
  proof (cases r1)
    case (Inl e)
    with b m have "r = Inl e" "t = u" by (auto simp: bindC_def)
    with 1 Inl show ?thesis by simp
  next
    case (Inr x)
    with b m have "f x u = (r, t)" by (simp add: bindC_def)
    from safe_readD [OF assms(2) 1(2) this] 1(3) show ?thesis
      by (auto intro: in_frame_trans)
  qed
qed

lemma safe_if [safe_intros]:
  "(b \<Longrightarrow> safe_read m) \<Longrightarrow> (\<not> b \<Longrightarrow> safe_read n) \<Longrightarrow> safe_read (if b then m else n)"
  by simp

lemma consumes_bindC:
  assumes "consumes m" and "\<And>x. safe_read (f x)"
  shows "consumes (bindC m f)"
  unfolding consumes_def
proof (intro conjI allI impI)
  show "safe_read (bindC m f)"
    using assms by (auto simp: consumes_def intro: safe_bindC)
  fix s v t assume wf: "in_wf s" and b: "bindC m f s = (Inr v, t)"
  from b obtain x u where m: "m s = (Inr x, u)" and f: "f x u = (Inr v, t)"
    by (rule bindC_InrE)
  have "in_wf u" "in_position s < in_position u"
    using assms(1) wf m safe_readD(2) by (auto simp: consumes_def)
  with safe_readD(3) [OF assms(2) _ f] show "in_position s < in_position t"
    by (auto simp: in_frame_def)
qed

lemma consumes_readRawByte: "consumes readRawByte"
  unfolding consumes_def safe_read_def
  by (auto simp: readRawByte_def in_wf_def in_frame_def split: if_splits)

lemma consumes_imp_safe: "consumes m \<Longrightarrow> safe_read m"
  by (simp add: consumes_def)

lemmas safe_readRawByte [safe_intros] = consumes_imp_safe [OF consumes_readRawByte]

lemma safe_discardUpperBytes [safe_intros]: "safe_read (discardUpperBytes k r)"
  by (induction k arbitrary: r) (auto intro!: safe_intros)

lemma consumes_readRawVarint32: "consumes readRawVarint32"
  unfolding readRawVarint32_def Let_def
  by (intro consumes_bindC consumes_readRawByte) (intro safe_intros)

lemmas safe_readRawVarint32 [safe_intros] = consumes_imp_safe [OF consumes_readRawVarint32]

lemma consumes_varint32:
  "consumes readInt32" "(\<And>x. safe_read (f x)) \<Longrightarrow> consumes (bindC readRawVarint32 f)"
  by (auto simp: readInt32_def intro: consumes_bindC consumes_readRawVarint32)

lemma safe_readInt64_loop [safe_intros]: "safe_read (readInt64_loop k r)"
proof (induction k r rule: readInt64_loop.induct)
  case (1 shift result)
  then show ?case
    by (subst readInt64_loop.simps) (auto simp: Let_def intro!: safe_intros)
qed

lemma consumes_readInt64: "consumes readInt64"
  unfolding readInt64_def
  by (subst readInt64_loop.simps)
    (auto simp: Let_def intro!: consumes_bindC consumes_readRawByte safe_intros)

lemma consumes_le:
  "consumes readRawLittleEndian32" "consumes readRawLittleEndian64"
  unfolding readRawLittleEndian32_def readRawLittleEndian64_def
  by (intro consumes_bindC consumes_readRawByte; intro safe_intros)+

lemma safe_delimited [safe_intros]:
  assumes "\<And>s. b s \<Longrightarrow> n \<le> in_size s - in_position s" and "\<And>bs. safe_read (f bs)"
  shows "safe_read (\<lambda>s. if b s then bindC (takeBytes n) f s else (Inl OutOfRange, s))"
proof (rule safe_readI)
  fix s r t
  assume wf: "in_wf s" and e: "(if b s then bindC (takeBytes n) f s else (Inl OutOfRange, s)) = (r, t)"
  show "r \<noteq> Inl MemoryFault \<and> in_wf t \<and> in_frame s t"
  proof (cases "b s")
    case True
    let ?u = "advance n s"
    have n: "n \<le> in_size s - in_position s" using assms(1) True .
    have u: "in_wf ?u" "in_frame s ?u" using wf n by (auto simp: in_wf_def in_frame_def)
    have "f (mem_read (in_mem s) (in_ptr s + in_position s) n) ?u = (r, t)"
    proof -
      have "in_ptr s + in_position s + n \<le> length (in_mem s)" using wf n by (auto simp: in_wf_def)
      with e True show ?thesis by (simp add: bindC_def takeBytes_def advance_def)
    qed
    from safe_readD [OF assms(2) u(1) this] u(2) show ?thesis
      by (auto intro: in_frame_trans)
  qed (use wf e in auto)
qed

lemma safe_delimited_plain [safe_intros]:
  "(\<And>s. b s \<Longrightarrow> n \<le> in_size s - in_position s) \<Longrightarrow>
   safe_read (\<lambda>s. if b s then takeBytes n s else (Inl OutOfRange, s))"
  using safe_delimited [of b n returnC, OF _ safe_returnC]
  by (simp cong: if_cong)

lemma consumes_delimited:
  "consumes readString" "consumes (readDataBuf b)" "consumes readNSData"
  "consumes (readNSString utf8)"
  unfolding readString_def readDataBuf_def readNSData_def readNSString_def Let_def
  by ((rule consumes_varint32(2), (intro safe_intros; simp split: if_splits))+)

lemma consumes_more:
  "consumes readUInt32" "consumes readUInt64" "consumes readBool" "consumes readFloat"
  "consumes readDouble" "consumes (readNSStringKV utf8)" "consumes readStringKV"
proof -
  show "consumes readUInt32" "consumes readBool"
    unfolding readUInt32_def readBool_def by (intro consumes_varint32(2) safe_intros)+
  show "consumes readUInt64"
    unfolding readUInt64_def by (intro consumes_bindC consumes_readInt64 safe_intros)
  show "consumes readFloat" "consumes readDouble"
    unfolding readFloat_def readDouble_def by (intro consumes_bindC consumes_le safe_intros)+
  have kv: "consumes (\<lambda>s. bindC readRawVarint32 (f (in_position s)) s)"
    if "\<And>p x. safe_read (f p x)" for f :: "nat \<Rightarrow> u32 \<Rightarrow> (coded_input, 'b) cpp"
  proof -
    have c: "consumes (bindC readRawVarint32 (f p))" for p
      using that by (intro consumes_varint32(2))
    have "in_wf s \<Longrightarrow> bindC readRawVarint32 (f (in_position s)) s = (Inr v, t) \<Longrightarrow>
      in_position s < in_position t" for s v t
      using c [of "in_position s"] by (simp add: consumes_def)
    moreover have "safe_read (\<lambda>s. bindC readRawVarint32 (f (in_position s)) s)"
      using c unfolding consumes_def safe_read_def by simp
    ultimately show ?thesis by (simp add: consumes_def)
  qed
  show c: "consumes readStringKV"
    unfolding readStringKV_def Let_def
    by (rule kv) (intro safe_intros; simp split: if_splits)
  show "consumes (readNSStringKV utf8)"
    unfolding readNSStringKV_eq using c
    by (intro consumes_bindC) (auto split: prod.splits intro: safe_intros)
qed

lemma consumes_readDataKV: "consumes (readDataKV kv)"
proof -
  have "safe_read (\<lambda>s. if n \<le> in_size s - in_position s
          then (Inr (g s), s\<lparr>in_position := in_position s + n\<rparr>) else (Inl OutOfRange, s))"
    for n and g :: "coded_input \<Rightarrow> KeyValueHolder"
    by (auto simp: safe_read_def in_wf_def in_frame_def)
  then show ?thesis
    unfolding readDataKV_def Let_def
    by (intro consumes_varint32(2) safe_intros) simp_all
qed

lemmas consumes_facts = consumes_readInt64 consumes_varint32(1) consumes_more consumes_delimited
  consumes_readDataKV

text \<open>Bytes that are no varint: cut short, and longer than ten bytes.\<close>

lemma sint_byte_neg_and_80: "sint (b :: byte) < 0 \<Longrightarrow> b AND 0x80 \<noteq> 0"
proof -
  assume "sint b < 0"
  then have "bit b 7" using bit_last_iff [of b] by simp
  then have "bit (b AND push_bit 7 1) 7" by (simp add: bit_simps)
  then show ?thesis by auto
qed

lemma readInt64_loop_continue:
  assumes "in_wf s" and "remaining s = b # bs" and "sint b < 0" and "k < 64"
  shows "readInt64_loop k r s =
    readInt64_loop (k + 7) (r OR push_bit k (ucast (b AND 0x7f))) (advance 1 s)"
  using sint_byte_neg_and_80 [OF assms(3)] assms(4)
  by (subst readInt64_loop.simps) (simp add: readRawByte_bind [OF assms(1,2)] Let_def)

lemma readInt64_truncated:
  assumes "in_wf s" and "\<forall>b \<in> set (remaining s). sint b < 0" and "length (remaining s) < 10"
  shows "fst (readInt64 s) = Inl OutOfRange"
proof -
  have "fst (readInt64_loop k r s) = Inl OutOfRange"
    if "k + 7 * length (remaining s) < 64" for k r
    using assms(1,2) that
  proof (induction "remaining s" arbitrary: s k r)
    case Nil
    then show ?case
      by (subst readInt64_loop.simps) (simp add: bindC_def readRawByte_Nil)
  next
    case (Cons b bs)
    note r = Cons.hyps(2) [symmetric]
    have "fst (readInt64_loop (k + 7) r' (advance 1 s)) = Inl OutOfRange" for r'
      using Cons.prems r in_wf_advance_1 [OF Cons.prems(1) r] remaining_advance_1 [OF r]
      by (intro Cons.hyps(1)) simp_all
    then show ?case
      using Cons.prems r by (simp add: readInt64_loop_continue [OF Cons.prems(1) r])
  qed
  from this [of 0 0] assms(3) show ?thesis by (simp add: readInt64_def)
qed

lemma readInt64_overlong:
  assumes "in_wf s" and "remaining s = bs @ rest" and "length bs = 10" and "\<forall>b \<in> set bs. sint b < 0"
  shows "fst (readInt64 s) = Inl InvalidArgument"
proof -
  have "fst (readInt64_loop k r s) = Inl InvalidArgument" if "k + 7 * length bs = 70" for k r
    using assms(1,2,4) that
  proof (induction bs arbitrary: s k r)
    case Nil
    then show ?case by (subst readInt64_loop.simps) (simp add: throwC_def)
  next
    case (Cons b bs)
    have r: "remaining s = b # bs @ rest" using Cons.prems(2) by simp
    have "fst (readInt64_loop (k + 7) r' (advance 1 s)) = Inl InvalidArgument" for r'
      using Cons.prems in_wf_advance_1 [OF Cons.prems(1) r] remaining_advance_1 [OF r]
      by (intro Cons.IH) simp_all
    then show ?case
      using Cons.prems by (simp add: readInt64_loop_continue [OF Cons.prems(1) r])
  qed
  with assms(3) show ?thesis by (simp add: readInt64_def)
qed
end
