(* ===== verification/Codec.thy ===== *)
theory Codec
  imports CodedInput
begin

text \<open>
  The interface between the encoders and decoders of \<open>MiniPBCoder\<close> and the reader and writer: a
  type of values with its wire format. The locale \<open>wire_reader\<close> is what a decoding loop asks of
  the operation that reads one element, \<open>wire_writer\<close> what an encoding loop asks of the operation
  that writes one, and \<open>codec\<close> both over one wire format. The lemmas of the loops are proved once
  here and interpreted for every element type the code has.

  A decoding loop (\<open>while (!isAtEnd()) ...\<close>) is \<open>while_not_at_end\<close>, which has no value when the
  loop does not end; \<open>wire_reader\<close> shows that it always has one. The exception that ends the loop
  is part of the outcome, together with what had been decoded before it.
\<close>

section \<open>Loops\<close>

partial_function (option) while_not_at_end ::
  "('s \<Rightarrow> bool) \<Rightarrow> ('d \<Rightarrow> ('s, 'd) cpp) \<Rightarrow> 'd \<Rightarrow> 's \<Rightarrow> (cpp_exception option \<times> 'd \<times> 's) option" where
  "while_not_at_end at_end body d s =
     (if at_end s then Some (None, d, s)
      else case body d s of
        (Inl e, s') \<Rightarrow> Some (Some e, d, s')
      | (Inr d', s') \<Rightarrow> while_not_at_end at_end body d' s')"

declare while_not_at_end.simps [code]

fun write_each :: "('a \<Rightarrow> (coded_output, unit) cpp) \<Rightarrow> 'a list \<Rightarrow> (coded_output, unit) cpp" where
  "write_each w [] = returnC ()"
| "write_each w (v # vs) = bindC (w v) (\<lambda>_. write_each w vs)"

definition push_back :: "('s, 'a) cpp \<Rightarrow> 'a list \<Rightarrow> ('s, 'a list) cpp" where
  "push_back rd result = bindC rd (\<lambda>v. returnC (result @ [v]))"

lemma while_at_end: "at_end s \<Longrightarrow> while_not_at_end at_end body d s = Some (None, d, s)"
  by (simp add: while_not_at_end.simps)

lemma while_step:
  "\<not> at_end s \<Longrightarrow> body d s = (Inr d', s') \<Longrightarrow>
   while_not_at_end at_end body d s = while_not_at_end at_end body d' s'"
  by (subst while_not_at_end.simps) simp

lemma while_throw:
  "\<not> at_end s \<Longrightarrow> body d s = (Inl e, s') \<Longrightarrow>
   while_not_at_end at_end body d s = Some (Some e, d, s')"
  by (subst while_not_at_end.simps) simp

text \<open>A loop whose body consumes input ends, never reads outside the region, and leaves the reader
  at the end unless it throws. \<open>P\<close> is any property of the decoded data, and of
  the size of the region, that the body keeps.\<close>

lemma while_keeps:
  assumes "\<And>d. consumes (body d)" and "in_wf s" and "P (in_size s) d"
    and "\<And>d s d' s'. P (in_size s) d \<Longrightarrow> in_wf s \<Longrightarrow> body d s = (Inr d', s') \<Longrightarrow> P (in_size s) d'"
  shows "\<exists>e d' s'. while_not_at_end isAtEnd body d s = Some (e, d', s') \<and> in_wf s' \<and>
    in_frame s s' \<and> P (in_size s) d' \<and> e \<noteq> Some MemoryFault \<and> (e = None \<longrightarrow> isAtEnd s')"
  using assms(2,3)
proof (induction "in_size s - in_position s" arbitrary: d s rule: less_induct)
  case less
  show ?case
  proof (cases "isAtEnd s")
    case True
    with less.prems show ?thesis by (simp add: while_at_end)
  next
    case False
    obtain r t where b: "body d s = (r, t)" by fastforce
    note t = safe_readD [OF consumes_imp_safe [OF assms(1)] less.prems(1) b]
    show ?thesis
    proof (cases r)
      case (Inl e)
      with False b t less.prems show ?thesis by (simp add: while_throw)
    next
      case (Inr d')
      have "in_position s < in_position t"
        using assms(1) less.prems(1) b Inr unfolding consumes_def by blast
      then have m: "in_size t - in_position t < in_size s - in_position s"
        using t by (auto simp: in_wf_def in_frame_def)
      have size: "in_size t = in_size s" using t(3) by (simp add: in_frame_def)
      obtain e d'' u where "while_not_at_end isAtEnd body d' t = Some (e, d'', u)"
        "in_wf u" "in_frame t u" "P (in_size s) d''" "e \<noteq> Some MemoryFault" "e = None \<longrightarrow> isAtEnd u"
        using less.hyps [OF m t(2), of d', unfolded size] assms(4) [OF less.prems(2,1)] b Inr by blast
      with False b Inr t(3) show ?thesis
        by (auto simp: while_step intro: in_frame_trans)
    qed
  qed
qed

lemma while_consumes:
  assumes "\<And>d. consumes (body d)" and "in_wf s" and "P d"
    and "\<And>d s d' s'. P d \<Longrightarrow> in_wf s \<Longrightarrow> body d s = (Inr d', s') \<Longrightarrow> P d'"
  shows "\<exists>e d' s'. while_not_at_end isAtEnd body d s = Some (e, d', s') \<and> in_wf s' \<and>
    in_frame s s' \<and> P d' \<and> e \<noteq> Some MemoryFault \<and> (e = None \<longrightarrow> isAtEnd s')"
  using while_keeps [of body s "\<lambda>_. P" d] assms by blast

section \<open>Decoding loops\<close>

text \<open>A loop body that, in front of the encoding of \<open>v\<close>, consumes it and updates the decoded data
  by \<open>step\<close>, which may depend on the position the encoding starts at.\<close>

fun run_steps :: "('a \<Rightarrow> byte list) \<Rightarrow> (nat \<Rightarrow> 'a \<Rightarrow> 'd \<Rightarrow> 'd) \<Rightarrow> nat \<Rightarrow> 'a list \<Rightarrow> 'd \<Rightarrow> 'd" where
  "run_steps enc step pos [] d = d"
| "run_steps enc step pos (v # vs) d = run_steps enc step (pos + length (enc v)) vs (step pos v d)"

definition enc_list :: "('a \<Rightarrow> byte list) \<Rightarrow> 'a list \<Rightarrow> byte list" where
  "enc_list enc vs = concat (map enc vs)"

lemma enc_list_simps [simp]:
  "enc_list enc [] = []" "enc_list enc (v # vs) = enc v @ enc_list enc vs"
  by (simp_all add: enc_list_def)

locale loop_reader =
  fixes body :: "'d \<Rightarrow> (coded_input, 'd) cpp" and enc :: "'a \<Rightarrow> byte list"
    and valid :: "'a \<Rightarrow> bool" and step :: "nat \<Rightarrow> 'a \<Rightarrow> 'd \<Rightarrow> 'd"
  assumes body_step: "valid v \<Longrightarrow> in_wf s \<Longrightarrow> remaining s = enc v @ rest \<Longrightarrow>
      body d s = (Inr (step (in_position s) v d), advance (length (enc v)) s)"
    and body_consumes: "consumes (body d)"
begin

lemma enc_not_Nil: "valid v \<Longrightarrow> enc v \<noteq> []"
proof
  assume v: "valid v" and e: "enc v = []"
  let ?s = "CodedInputData [] 0 0"
  have wf: "in_wf ?s" by (simp add: in_wf_def CodedInputData_def)
  have "remaining ?s = enc v @ []" by (simp add: e remaining_def CodedInputData_def)
  from body_step [OF v wf this, of undefined] body_consumes [of undefined] wf show False
    by (auto simp: consumes_def e)
qed

theorem decode_prefix:
  assumes "in_wf s" and "remaining s = enc_list enc vs @ rest" and "\<forall>v \<in> set vs. valid v"
  shows "while_not_at_end isAtEnd body d s =
    while_not_at_end isAtEnd body (run_steps enc step (in_position s) vs d)
      (advance (length (enc_list enc vs)) s)"
  using assms
proof (induction vs arbitrary: d s)
  case (Cons v vs)
  have r: "remaining s = enc v @ enc_list enc vs @ rest" using Cons.prems(2) by simp
  have v: "valid v" using Cons.prems(3) by simp
  have "\<not> isAtEnd s"
    using enc_not_Nil [OF v] Cons.prems(1) r by (simp add: isAtEnd_iff)
  then have "while_not_at_end isAtEnd body d s =
      while_not_at_end isAtEnd body (step (in_position s) v d) (advance (length (enc v)) s)"
    using body_step [OF v Cons.prems(1) r] by (rule while_step)
  also have "\<dots> = while_not_at_end isAtEnd body
      (run_steps enc step (in_position (advance (length (enc v)) s)) vs (step (in_position s) v d))
      (advance (length (enc_list enc vs)) (advance (length (enc v)) s))"
    using Cons.prems(1,3) r by (intro Cons.IH in_wf_advance) (simp_all add: remaining_advance)
  finally show ?case by simp
qed simp

theorem decode_all:
  assumes "in_wf s" and "remaining s = enc_list enc vs" and "\<forall>v \<in> set vs. valid v"
  shows "while_not_at_end isAtEnd body d s =
    Some (None, run_steps enc step (in_position s) vs d, advance (length (enc_list enc vs)) s)"
proof -
  have "in_wf (advance (length (enc_list enc vs)) s)"
    by (rule in_wf_advance [OF assms(1)]) (simp add: assms(2))
  then have "isAtEnd (advance (length (enc_list enc vs)) s)"
    by (simp add: isAtEnd_iff remaining_advance assms(2))
  then show ?thesis
    using decode_prefix [of s vs "[]" d] assms by (simp add: while_at_end)
qed

theorem decode_ends:
  assumes "in_wf s"
  shows "\<exists>e d' s'. while_not_at_end isAtEnd body d s = Some (e, d', s') \<and>
    e \<noteq> Some MemoryFault \<and> (e = None \<longrightarrow> isAtEnd s')"
  using while_consumes [of body s "\<lambda>_. True", OF body_consumes assms] by blast

end

section \<open>Reading one element type\<close>

locale wire_reader =
  fixes rd :: "(coded_input, 'a) cpp" and enc :: "'a \<Rightarrow> byte list" and valid :: "'a \<Rightarrow> bool"
  assumes reads_back: "valid v \<Longrightarrow> reads rd (enc v) v"
    and progress: "consumes rd"
begin

lemma consumes_push_back: "consumes (push_back rd d)"
  unfolding push_back_def by (intro consumes_bindC progress safe_intros)

lemma reads_push_back: "valid v \<Longrightarrow> reads (push_back rd d) (enc v) (d @ [v])"
  unfolding push_back_def by (intro reads_bindC_returnC [where f = "\<lambda>v. d @ [v]"] reads_back)

end

text \<open>Appending what is read to a vector is such a loop body.\<close>

sublocale wire_reader \<subseteq> loop: loop_reader "push_back rd" enc valid "\<lambda>_ v d. d @ [v]"
  by unfold_locales (simp_all add: readsD [OF reads_push_back] consumes_push_back)

lemma run_steps_append: "run_steps enc (\<lambda>_ v d. d @ [v]) pos vs d = d @ vs"
  by (induction vs arbitrary: pos d) simp_all

section \<open>Writing one element type\<close>

locale wire_writer =
  fixes wr :: "'a \<Rightarrow> (coded_output, unit) cpp" and enc :: "'a \<Rightarrow> byte list"
  assumes write_fits: "out_wf s \<Longrightarrow> fits s (length (enc v)) \<Longrightarrow> wr v s = (Inr (), put_bytes (enc v) s)"
    and write_full: "out_wf s \<Longrightarrow> \<not> fits s (length (enc v)) \<Longrightarrow> fst (wr v s) = Inl OutOfRange"
begin

lemma write_each_fits:
  assumes "out_wf s" and "fits s (length (enc_list enc vs))"
  shows "write_each wr vs s = (Inr (), put_bytes (enc_list enc vs) s)"
  using assms
proof (induction vs arbitrary: s)
  case Nil
  then show ?case by (simp add: returnC_def)
next
  case (Cons v vs)
  have f: "fits s (length (enc v))" "fits (put_bytes (enc v) s) (length (enc_list enc vs))"
    using Cons.prems(2) by (auto simp: fits_def)
  have "write_each wr (v # vs) s = write_each wr vs (put_bytes (enc v) s)"
    using write_fits [OF Cons.prems(1) f(1)] by (simp add: cpp_simps)
  also have "\<dots> = (Inr (), put_bytes (enc_list enc vs) (put_bytes (enc v) s))"
    by (intro Cons.IH out_wf_put_bytes Cons.prems(1) f)
  also have "put_bytes (enc_list enc vs) (put_bytes (enc v) s) =
      put_bytes (enc_list enc (v # vs)) s"
    using Cons.prems by (subst put_bytes_put_bytes) simp_all
  finally show ?case .
qed

lemma write_each_full:
  assumes "out_wf s" and "\<not> fits s (length (enc_list enc vs))"
  shows "fst (write_each wr vs s) = Inl OutOfRange"
  using assms
proof (induction vs arbitrary: s)
  case Nil
  then show ?case by (simp add: fits_def out_wf_def)
next
  case (Cons v vs)
  show ?case
  proof (cases "fits s (length (enc v))")
    case True
    have "fst (write_each wr vs (put_bytes (enc v) s)) = Inl OutOfRange"
      using Cons.prems True by (intro Cons.IH out_wf_put_bytes) (auto simp: fits_def)
    with True Cons.prems(1) show ?thesis
      by (simp add: write_fits bindC_Inr)
  next
    case False
    with write_full [OF Cons.prems(1), of v] show ?thesis
      by (cases "wr v s") (auto simp: bindC_def)
  qed
qed

end

locale codec = wire_reader rd enc valid + wire_writer wr enc
  for rd :: "(coded_input, 'a) cpp" and enc and valid and wr +
  fixes sz :: "'a \<Rightarrow> u32"
  assumes size_enc: "valid v \<Longrightarrow> unat (sz v) = length (enc v)"
begin

lemma size_enc_all:
  "\<forall>v \<in> set vs. valid v \<Longrightarrow> sum_list (map (\<lambda>v. unat (sz v)) vs) = length (enc_list enc vs)"
  by (induction vs) (simp_all add: enc_list_simps size_enc)

lemma sum_list_size:
  assumes "\<forall>v \<in> set vs. valid v"
  shows "sum_list (map sz vs) = word_of_nat (length (enc_list enc vs))"
  using assms by (induction vs) (auto simp: enc_list_simps simp flip: size_enc)

end

section \<open>The element types\<close>

lemma write_bytes_full:
  "out_wf s \<Longrightarrow> \<not> fits s (length bs) \<Longrightarrow> fst (write_bytes bs s) = Inl OutOfRange"
  by (simp add: write_bytes_too_long)

lemma writeRawData_full: "\<not> fits s (length d) \<Longrightarrow> fst (writeRawData d s) = Inl OutOfRange"
  by (simp add: writeRawData_def fits_def)

lemma writeData_full:
  assumes "out_wf s" and "\<not> fits s (length (enc_data d))"
  shows "fst (writeData d s) = Inl OutOfRange"
proof -
  let ?h = "varint (unat (word_of_nat (length d) :: u32))"
  show ?thesis
  proof (cases "fits s (length ?h)")
    case True
    have "\<not> fits (put_bytes ?h s) (length d)"
      using assms(2) by (simp add: fits_def enc_data_def)
    with True assms(1) show ?thesis
      by (simp add: writeData_def write_eqs bindC_Inr write_bytes_fits writeRawData_full)
  next
    case False
    with write_bytes_full [OF assms(1) False] show ?thesis
      by (cases "write_bytes ?h s") (auto simp: writeData_def write_eqs bindC_def)
  qed
qed

lemma length_enc [simp]:
  "length (enc_bool b) = 1" "length (enc_float f) = 4" "length (enc_double d) = 8"
  by (simp_all add: enc_bool_def enc_float_def enc_double_def)

lemma unat_pbUInt64Size_enc: "unat (pbUInt64Size v) = length (enc_int64 v)"
  by (simp add: unat_pbUInt64Size enc_int64_def)

interpretation int32: codec readInt32 enc_int32 "\<lambda>_. True" writeInt32 pbInt32Size
  by unfold_locales (simp_all add: reads_readInt32 consumes_facts write_eqs write_bytes_fits
      write_bytes_full unat_pbInt32Size)

interpretation uint32: codec readUInt32 enc_uint32 "\<lambda>_. True" writeUInt32 pbUInt32Size
  by unfold_locales (simp_all add: reads_readUInt32 consumes_facts write_eqs write_bytes_fits
      write_bytes_full unat_pbUInt32Size)

interpretation int64: codec readInt64 enc_int64 "\<lambda>_. True" writeInt64 pbInt64Size
  by unfold_locales (simp_all add: reads_readInt64 consumes_facts write_eqs write_bytes_fits
      write_bytes_full unat_pbInt64Size)

interpretation uint64: codec readUInt64 enc_int64 "\<lambda>_. True" writeUInt64 pbUInt64Size
  by unfold_locales (simp_all add: reads_readUInt64 consumes_facts write_eqs write_bytes_fits
      write_bytes_full unat_pbUInt64Size_enc)

interpretation bool: codec readBool enc_bool "\<lambda>_. True" writeBool "\<lambda>_. pbBoolSize"
  by unfold_locales (simp_all add: reads_readBool consumes_facts write_eqs write_bytes_fits
      write_bytes_full fixed_size_defs)

interpretation float: codec readFloat enc_float "\<lambda>_. True" writeFloat "\<lambda>_. pbFloatSize"
  by unfold_locales (simp_all add: reads_readFloat consumes_facts write_eqs write_bytes_fits
      write_bytes_full fixed_size_defs)

interpretation double: codec readDouble enc_double "\<lambda>_. True" writeDouble "\<lambda>_. pbDoubleSize"
  by unfold_locales (simp_all add: reads_readDouble consumes_facts write_eqs write_bytes_fits
      write_bytes_full fixed_size_defs)

lemma unat_pbMMBufferSize:
  assumes "short d"
  shows "unat (pbMMBufferSize d) = length (enc_data d)"
proof -
  have l: "length d < 2147483648" using assms by (simp add: short_def)
  have "unat (pbUInt32Size (word_of_nat (length d))) = length (varint (length d))"
    by (simp add: unat_pbUInt32Size enc_uint32_def short_facts [OF assms])
  with l length_varint_short [OF assms] show ?thesis
    by (simp add: pbMMBufferSize_def Let_def unat_word_ariths short_facts [OF assms]
        enc_data_short [OF assms])
qed

interpretation data: codec "readDataBuf False" enc_data short writeData pbMMBufferSize
  by unfold_locales (simp_all add: reads_readDataBuf consumes_facts writeData_fits
      writeData_full unat_pbMMBufferSize)

interpretation str: codec readString enc_data short writeString pbMMBufferSize
  by unfold_locales (simp_all add: reads_readString consumes_facts writeData_fits
      writeData_full unat_pbMMBufferSize writeString_eq_writeData)

end
