(* ===== verification/MiniPBCoder.thy ===== *)
theory MiniPBCoder
  imports Codec
begin

text \<open>
  \<open>PBEncodeItem.hpp\<close>, \<open>MiniPBCoder.cpp\<close> and \<open>MiniPBCoder_OSX.cpp\<close>: encoding an object in two
  passes (collect the items with their sizes, allocate a buffer of the computed size, write the
  items into it) and decoding vectors and key-value maps.

  A \<open>PBEncodeItem\<close>'s tag and the member of its union that the tag selects are one datatype. The
  freshly allocated buffer has arbitrary contents, the parameter \<open>junk\<close>; allocation does not fail.
  A result \<open>Inl MemoryFault\<close> is undefined behaviour, which no \<open>catch\<close> of the code sees.
\<close>

unbundle bit_operations_syntax

section \<open>Encode items\<close>

datatype PBEncodeItemType =
    PBEncodeItemType_None
  | PBEncodeItemType_Data "byte list"
  | PBEncodeItemType_Container
  | PBEncodeItemType_String "byte list"
  | PBEncodeItemType_Int32 int32
  | PBEncodeItemType_UInt32 u32
  | PBEncodeItemType_Int64 int64
  | PBEncodeItemType_UInt64 u64
  | PBEncodeItemType_NSString "byte list option"
  | PBEncodeItemType_NSData "byte list"
  | PBEncodeItemType_NSDate float64

record PBEncodeItem =
  item_type :: PBEncodeItemType
  compiledSize :: u32
  item_valueSize :: u32

definition PBEncodeItem_new :: PBEncodeItem where
  "PBEncodeItem_new = \<lparr>item_type = PBEncodeItemType_None, compiledSize = 0, item_valueSize = 0\<rparr>"

datatype 'k NSObject = NSString 'k | NSData "byte list" | NSDate float64 | OtherObject

definition set_compiledSize :: "PBEncodeItem \<Rightarrow> PBEncodeItem" where
  "set_compiledSize item =
     item\<lparr>compiledSize := pbRawVarint32Size (item_valueSize item) + item_valueSize item\<rparr>"

definition add_valueSize :: "nat \<Rightarrow> u32 \<Rightarrow> PBEncodeItem list \<Rightarrow> PBEncodeItem list" where
  "add_valueSize index n items =
     items[index := (items ! index)\<lparr>item_valueSize := item_valueSize (items ! index) + n\<rparr>]"

section \<open>First pass: collecting the items\<close>

definition prepareObjectForEncode_buffer ::
  "byte list \<Rightarrow> PBEncodeItem list \<Rightarrow> nat \<times> PBEncodeItem list" where
  "prepareObjectForEncode_buffer buffer items =
     (length items, items @ [set_compiledSize (PBEncodeItem_new\<lparr>
        item_type := PBEncodeItemType_Data buffer,
        item_valueSize := word_of_nat (length buffer)\<rparr>)])"

definition prepareObjectForEncode_string ::
  "byte list \<Rightarrow> PBEncodeItem list \<Rightarrow> nat \<times> PBEncodeItem list" where
  "prepareObjectForEncode_string str items =
     (length items, items @ [set_compiledSize (PBEncodeItem_new\<lparr>
        item_type := PBEncodeItemType_String str,
        item_valueSize := word_of_nat (length str)\<rparr>)])"

definition prepareObjectForEncode_NSObject ::
  "('k \<Rightarrow> byte list option) \<Rightarrow> 'k NSObject option \<Rightarrow> PBEncodeItem list \<Rightarrow> nat \<times> PBEncodeItem list" where
  "prepareObjectForEncode_NSObject utf8_of obj items =
     (case obj of
        None \<Rightarrow> (length items, items)
      | Some (NSString str) \<Rightarrow>
          (length items, items @ [set_compiledSize (PBEncodeItem_new\<lparr>
             item_type := PBEncodeItemType_NSString (utf8_of str),
             item_valueSize := (case utf8_of str of None \<Rightarrow> 0 | Some d \<Rightarrow> word_of_nat (length d))\<rparr>)])
      | Some (NSDate oDate) \<Rightarrow>
          (length items, items @ [PBEncodeItem_new\<lparr>
             item_type := PBEncodeItemType_NSDate oDate,
             item_valueSize := pbDoubleSize, compiledSize := pbDoubleSize\<rparr>])
      | Some (NSData oData) \<Rightarrow>
          (length items, items @ [set_compiledSize (PBEncodeItem_new\<lparr>
             item_type := PBEncodeItemType_NSData oData,
             item_valueSize := word_of_nat (length oData)\<rparr>)])
      | Some OtherObject \<Rightarrow> (length items, items))"

text \<open>The container is pushed first; its size grows with every element; its compiled size is set
  when the loop is over. \<open>begin_container\<close> and \<open>end_container\<close> are those two ends.\<close>

definition begin_container :: "PBEncodeItem list \<Rightarrow> PBEncodeItem list" where
  "begin_container items = items @ [PBEncodeItem_new\<lparr>item_type := PBEncodeItemType_Container\<rparr>]"

definition end_container :: "nat \<Rightarrow> PBEncodeItem list \<Rightarrow> nat \<times> PBEncodeItem list" where
  "end_container index items = (index, items[index := set_compiledSize (items ! index)])"

fun prepare_pairs ::
  "('k \<Rightarrow> bool) \<Rightarrow> ('k \<Rightarrow> PBEncodeItem list \<Rightarrow> nat \<times> PBEncodeItem list) \<Rightarrow> nat \<Rightarrow>
   ('k \<times> byte list) list \<Rightarrow> PBEncodeItem list \<Rightarrow> PBEncodeItem list" where
  "prepare_pairs isEmpty prepareKey index [] items = items"
| "prepare_pairs isEmpty prepareKey index ((key, value) # vec) items =
     (if isEmpty key then prepare_pairs isEmpty prepareKey index vec items
      else
        let (keyIndex, items) = prepareKey key items
        in prepare_pairs isEmpty prepareKey index vec
             (if keyIndex < length items then
                let (valueIndex, items) = prepareObjectForEncode_buffer value items
                in if valueIndex < length items then
                     add_valueSize index (compiledSize (items ! valueIndex))
                       (add_valueSize index (compiledSize (items ! keyIndex)) items)
                   else butlast items
              else items))"

definition prepareObjectForEncode_MMKVVector ::
  "(byte list \<times> byte list) list \<Rightarrow> PBEncodeItem list \<Rightarrow> nat \<times> PBEncodeItem list" where
  "prepareObjectForEncode_MMKVVector vec items =
     end_container (length items)
       (prepare_pairs (\<lambda>key. length key \<le> 0) prepareObjectForEncode_string (length items) vec
          (begin_container items))"

definition prepareObjectForEncode_MMKVVector_OSX ::
  "('k \<Rightarrow> byte list option) \<Rightarrow> ('k \<Rightarrow> nat) \<Rightarrow> ('k \<times> byte list) list \<Rightarrow>
   PBEncodeItem list \<Rightarrow> nat \<times> PBEncodeItem list" where
  "prepareObjectForEncode_MMKVVector_OSX utf8_of length_of vec items =
     end_container (length items)
       (prepare_pairs (\<lambda>key. length_of key \<le> 0)
          (\<lambda>key. prepareObjectForEncode_NSObject utf8_of (Some (NSString key)))
          (length items) vec (begin_container items))"

fun prepare_strings :: "nat \<Rightarrow> byte list list \<Rightarrow> PBEncodeItem list \<Rightarrow> PBEncodeItem list" where
  "prepare_strings index [] items = items"
| "prepare_strings index (str # v) items =
     (let (itemIndex, items) = prepareObjectForEncode_string str items
      in prepare_strings index v
           (if itemIndex < length items
            then add_valueSize index (compiledSize (items ! itemIndex)) items else items))"

definition prepareObjectForEncode_strings ::
  "byte list list \<Rightarrow> PBEncodeItem list \<Rightarrow> nat \<times> PBEncodeItem list" where
  "prepareObjectForEncode_strings v items =
     end_container (length items) (prepare_strings (length items) v (begin_container items))"

fun prepare_values ::
  "('a \<Rightarrow> PBEncodeItemType) \<Rightarrow> ('a \<Rightarrow> u32) \<Rightarrow> nat \<Rightarrow> 'a list \<Rightarrow> PBEncodeItem list \<Rightarrow>
   PBEncodeItem list" where
  "prepare_values type pbSize index [] items = items"
| "prepare_values type pbSize index (value # vec) items =
     (let item = PBEncodeItem_new\<lparr>item_type := type value, compiledSize := pbSize value\<rparr>
      in prepare_values type pbSize index vec
           (add_valueSize index (compiledSize item) items @ [item]))"

definition prepareObjectForEncode_int32s ::
  "int32 list \<Rightarrow> PBEncodeItem list \<Rightarrow> nat \<times> PBEncodeItem list" where
  "prepareObjectForEncode_int32s vec items = end_container (length items)
     (prepare_values PBEncodeItemType_Int32 pbInt32Size (length items) vec (begin_container items))"

definition prepareObjectForEncode_uint32s ::
  "u32 list \<Rightarrow> PBEncodeItem list \<Rightarrow> nat \<times> PBEncodeItem list" where
  "prepareObjectForEncode_uint32s vec items = end_container (length items)
     (prepare_values PBEncodeItemType_UInt32 pbUInt32Size (length items) vec (begin_container items))"

definition prepareObjectForEncode_int64s ::
  "int64 list \<Rightarrow> PBEncodeItem list \<Rightarrow> nat \<times> PBEncodeItem list" where
  "prepareObjectForEncode_int64s vec items = end_container (length items)
     (prepare_values PBEncodeItemType_Int64 pbInt64Size (length items) vec (begin_container items))"

definition prepareObjectForEncode_uint64s ::
  "u64 list \<Rightarrow> PBEncodeItem list \<Rightarrow> nat \<times> PBEncodeItem list" where
  "prepareObjectForEncode_uint64s vec items = end_container (length items)
     (prepare_values PBEncodeItemType_UInt64 pbUInt64Size (length items) vec (begin_container items))"

section \<open>Second pass: writing the items\<close>

definition write_item :: "PBEncodeItem \<Rightarrow> (coded_output, unit) cpp" where
  "write_item encodeItem =
     (case item_type encodeItem of
        PBEncodeItemType_Data d \<Rightarrow> writeData d
      | PBEncodeItemType_Container \<Rightarrow> writeUInt32 (item_valueSize encodeItem)
      | PBEncodeItemType_Int32 v \<Rightarrow> writeInt32 v
      | PBEncodeItemType_UInt32 v \<Rightarrow> writeUInt32 v
      | PBEncodeItemType_Int64 v \<Rightarrow> writeInt64 v
      | PBEncodeItemType_UInt64 v \<Rightarrow> writeUInt64 v
      | PBEncodeItemType_String str \<Rightarrow> writeString str
      | PBEncodeItemType_NSString obj \<Rightarrow>
          bindC (writeUInt32 (item_valueSize encodeItem)) (\<lambda>_.
            case obj of None \<Rightarrow> returnC ()
            | Some d \<Rightarrow> if 0 < item_valueSize encodeItem then writeRawData d else returnC ())
      | PBEncodeItemType_NSData d \<Rightarrow>
          bindC (writeUInt32 (item_valueSize encodeItem)) (\<lambda>_.
            if 0 < item_valueSize encodeItem then writeRawData d else returnC ())
      | PBEncodeItemType_NSDate t \<Rightarrow> writeDouble t
      | PBEncodeItemType_None \<Rightarrow> returnC ())"

definition writeRootObject :: "PBEncodeItem list \<Rightarrow> (coded_output, unit) cpp" where
  "writeRootObject items = write_each write_item items"

definition MMBuffer_malloc :: "(nat \<Rightarrow> byte) \<Rightarrow> nat \<Rightarrow> byte list" where
  "MMBuffer_malloc junk len = map junk [0..<len]"

definition catch_encode ::
  "(cpp_exception + unit) \<times> coded_output \<Rightarrow> cpp_exception + byte list" where
  "catch_encode r =
     (case r of (Inr _, output) \<Rightarrow> Inr (out_mem output)
      | (Inl MemoryFault, _) \<Rightarrow> Inl MemoryFault
      | (Inl _, _) \<Rightarrow> Inr [])"

definition writePreparedItems ::
  "(nat \<Rightarrow> byte) \<Rightarrow> nat \<times> PBEncodeItem list \<Rightarrow> cpp_exception + byte list" where
  "writePreparedItems junk prepared =
     (let (index, items) = prepared
      in if index < length items \<and> 0 < compiledSize (items ! index)
         then let len = unat (compiledSize (items ! index))
              in catch_encode
                   (writeRootObject items (CodedOutputData (MMBuffer_malloc junk len) 0 len))
         else Inl MemoryFault)"

definition encodeDataWithObject_MMBuffer :: "(nat \<Rightarrow> byte) \<Rightarrow> byte list \<Rightarrow> cpp_exception + byte list" where
  "encodeDataWithObject_MMBuffer junk obj =
     (let valueSize = word_of_nat (length obj);
          len = unat (pbRawVarint32Size valueSize + valueSize)
      in catch_encode (writeData obj (CodedOutputData (MMBuffer_malloc junk len) 0 len)))"

definition getEncodeData_fixed ::
  "(nat \<Rightarrow> byte) \<Rightarrow> u32 \<Rightarrow> ('a \<Rightarrow> (coded_output, unit) cpp) \<Rightarrow> 'a list \<Rightarrow> cpp_exception + byte list" where
  "getEncodeData_fixed junk elemSize writeElem value =
     (let valueLength = word_of_nat (length value * unat elemSize);
          size = unat (pbRawVarint32Size valueLength + valueLength)
      in case bindC (writeUInt32 valueLength) (\<lambda>_. write_each writeElem value)
                (CodedOutputData (MMBuffer_malloc junk size) 0 size)
         of (Inl e, _) \<Rightarrow> Inl e | (Inr _, output) \<Rightarrow> Inr (out_mem output))"

definition getEncodeData_bools :: "(nat \<Rightarrow> byte) \<Rightarrow> bool list \<Rightarrow> cpp_exception + byte list" where
  "getEncodeData_bools junk = getEncodeData_fixed junk pbBoolSize writeBool"

definition getEncodeData_floats :: "(nat \<Rightarrow> byte) \<Rightarrow> float32 list \<Rightarrow> cpp_exception + byte list" where
  "getEncodeData_floats junk = getEncodeData_fixed junk pbFloatSize writeFloat"

definition getEncodeData_doubles :: "(nat \<Rightarrow> byte) \<Rightarrow> float64 list \<Rightarrow> cpp_exception + byte list" where
  "getEncodeData_doubles junk = getEncodeData_fixed junk pbDoubleSize writeDouble"

section \<open>Decoding vectors\<close>

definition decodeOneVector_strings :: "coded_input \<Rightarrow> (cpp_exception + byte list list) option" where
  "decodeOneVector_strings s =
     (case readInt32 s of
        (Inl e, _) \<Rightarrow> Some (Inl e)
      | (Inr _, s) \<Rightarrow>
          (case while_not_at_end isAtEnd (push_back readString) [] s of
             None \<Rightarrow> None
           | Some (None, v, _) \<Rightarrow> Some (Inr v)
           | Some (Some e, _, _) \<Rightarrow> Some (Inl e)))"

text \<open>The other overloads catch the exception and answer \<open>false\<close>, leaving in the caller's vector
  what they had decoded.\<close>

definition catch_decode :: "cpp_exception option \<Rightarrow> 'd \<Rightarrow> cpp_exception + bool \<times> 'd" where
  "catch_decode e d = (if e = Some MemoryFault then Inl MemoryFault else Inr (e = None, d))"

definition decode_elements ::
  "(coded_input, 'h) cpp \<Rightarrow> (coded_input, 'a) cpp \<Rightarrow> 'a list \<Rightarrow> coded_input \<Rightarrow>
   (cpp_exception + bool \<times> 'a list) option" where
  "decode_elements readHeader readElem result s =
     (case readHeader s of
        (Inl e, _) \<Rightarrow> Some (catch_decode (Some e) result)
      | (Inr _, s) \<Rightarrow>
          map_option (\<lambda>(e, result, _). catch_decode e result)
            (while_not_at_end isAtEnd (push_back readElem) result s))"

definition decodeOneVector_bools where
  "decodeOneVector_bools = decode_elements readUInt32 readBool"

definition decodeOneVector_int32s where
  "decodeOneVector_int32s = decode_elements readInt32 readInt32"

definition decodeOneVector_uint32s where
  "decodeOneVector_uint32s = decode_elements readInt32 readUInt32"

definition decodeOneVector_int64s where
  "decodeOneVector_int64s = decode_elements readInt32 readInt64"

definition decodeOneVector_uint64s where
  "decodeOneVector_uint64s = decode_elements readInt32 readUInt64"

definition decodeOneVector_floats where
  "decodeOneVector_floats = decode_elements readUInt32 readFloat"

definition decodeOneVector_doubles where
  "decodeOneVector_doubles = decode_elements readUInt32 readDouble"

definition decodeVector :: "(coded_input \<Rightarrow> 'r) \<Rightarrow> byte list \<Rightarrow> 'r" where
  "decodeVector decodeOneVector oData = decodeOneVector (CodedInputData oData 0 (length oData))"

section \<open>What the two passes compute\<close>

text \<open>The bytes an item is written as.\<close>

definition item_bytes :: "PBEncodeItem \<Rightarrow> byte list" where
  "item_bytes encodeItem =
     (case item_type encodeItem of
        PBEncodeItemType_Data d \<Rightarrow> enc_data d
      | PBEncodeItemType_Container \<Rightarrow> enc_uint32 (item_valueSize encodeItem)
      | PBEncodeItemType_Int32 v \<Rightarrow> enc_int32 v
      | PBEncodeItemType_UInt32 v \<Rightarrow> enc_uint32 v
      | PBEncodeItemType_Int64 v \<Rightarrow> enc_int64 v
      | PBEncodeItemType_UInt64 v \<Rightarrow> enc_int64 v
      | PBEncodeItemType_String str \<Rightarrow> enc_data str
      | PBEncodeItemType_NSString obj \<Rightarrow> enc_uint32 (item_valueSize encodeItem) @
          (case obj of None \<Rightarrow> [] | Some d \<Rightarrow> if 0 < item_valueSize encodeItem then d else [])
      | PBEncodeItemType_NSData d \<Rightarrow> enc_uint32 (item_valueSize encodeItem) @
          (if 0 < item_valueSize encodeItem then d else [])
      | PBEncodeItemType_NSDate t \<Rightarrow> enc_double t
      | PBEncodeItemType_None \<Rightarrow> [])"

lemma write_bytes_bind:
  "out_wf s \<Longrightarrow> fits s (length bs) \<Longrightarrow> bindC (write_bytes bs) f s = f () (put_bytes bs s)"
  by (rule bindC_Inr) (rule write_bytes_fits)

lemma fits_0: "out_wf s \<Longrightarrow> fits s 0"
  by (simp add: fits_def out_wf_def)

lemma write_then_rawData:
  assumes "out_wf s"
  shows "fits s (length (h @ d)) \<Longrightarrow>
      bindC (write_bytes h) (\<lambda>_. writeRawData d) s = (Inr (), put_bytes (h @ d) s)"
    and "\<not> fits s (length (h @ d)) \<Longrightarrow>
      fst (bindC (write_bytes h) (\<lambda>_. writeRawData d) s) = Inl OutOfRange"
proof -
  assume f: "fits s (length (h @ d))"
  then have h: "fits s (length h)" "fits (put_bytes h s) (length d)"
    by (auto simp: fits_def)
  show "bindC (write_bytes h) (\<lambda>_. writeRawData d) s = (Inr (), put_bytes (h @ d) s)"
    using f writeRawData_fits [OF out_wf_put_bytes [OF assms h(1)] h(2)]
      put_bytes_put_bytes [OF assms, of h d]
    by (simp add: write_bytes_bind [OF assms h(1)])
next
  assume f: "\<not> fits s (length (h @ d))"
  show "fst (bindC (write_bytes h) (\<lambda>_. writeRawData d) s) = Inl OutOfRange"
  proof (cases "fits s (length h)")
    case True
    with f have "\<not> fits (put_bytes h s) (length d)" by (simp add: fits_def)
    then show ?thesis
      by (simp add: write_bytes_bind [OF assms True] writeRawData_full)
  next
    case False
    with write_bytes_full [OF assms False] show ?thesis
      by (cases "write_bytes h s") (auto simp: bindC_def)
  qed
qed

lemma write_item_fits:
  "out_wf s \<Longrightarrow> fits s (length (item_bytes item)) \<Longrightarrow>
   write_item item s = (Inr (), put_bytes (item_bytes item) s)"
  by (cases "item_type item")
    (auto simp: write_item_def item_bytes_def writeData_fits writeString_eq_writeData
      write_then_rawData write_eqs write_bytes_fits returnC_def
      simp del: length_append split: option.splits)

lemma write_item_full:
  "out_wf s \<Longrightarrow> \<not> fits s (length (item_bytes item)) \<Longrightarrow> fst (write_item item s) = Inl OutOfRange"
  by (cases "item_type item")
    (auto simp: write_item_def item_bytes_def writeData_full writeString_eq_writeData
      write_then_rawData write_eqs write_bytes_full fits_0
      simp del: length_append split: option.splits)

interpretation item: wire_writer write_item item_bytes
  by unfold_locales (simp_all add: write_item_fits write_item_full)

text \<open>The items of a container, all of known size, behind the container's own item.\<close>

definition container :: "u32 \<Rightarrow> PBEncodeItem" where
  "container n = set_compiledSize
     (PBEncodeItem_new\<lparr>item_type := PBEncodeItemType_Container, item_valueSize := n\<rparr>)"

definition items_bytes :: "PBEncodeItem list \<Rightarrow> byte list" where
  "items_bytes items = enc_list item_bytes items"

definition sized :: "PBEncodeItem \<Rightarrow> bool" where
  "sized item \<longleftrightarrow> compiledSize item = word_of_nat (length (item_bytes item))"

definition packed :: "PBEncodeItem list \<Rightarrow> PBEncodeItem list" where
  "packed items = container (sum_list (map compiledSize items)) # items"

lemma sum_sized:
  "\<forall>x \<in> set items. sized x \<Longrightarrow>
   sum_list (map compiledSize items) = word_of_nat (length (items_bytes items))"
  by (induction items) (auto simp: items_bytes_def sized_def)

lemma container_bytes [simp]: "item_bytes (container n) = enc_uint32 n"
  by (simp add: container_def set_compiledSize_def item_bytes_def)

lemma container_size [simp]: "compiledSize (container n) = pbRawVarint32Size n + n"
  by (simp add: container_def set_compiledSize_def)

lemma out_wf_new: "out_wf (CodedOutputData (MMBuffer_malloc junk n) 0 n)"
  by (simp add: out_wf_def CodedOutputData_def MMBuffer_malloc_def)

lemma fits_new: "fits (CodedOutputData (MMBuffer_malloc junk n) 0 n) k \<longleftrightarrow> k \<le> n"
  by (simp add: fits_def CodedOutputData_def)

lemma put_bytes_exact:
  "length bs = n \<Longrightarrow> out_mem (put_bytes bs (CodedOutputData (MMBuffer_malloc junk n) 0 n)) = bs"
  by (simp add: put_bytes_def CodedOutputData_def MMBuffer_malloc_def curWritePointer_def
      mem_write_def)

lemma compiled_size_nat:
  fixes L :: nat
  defines "w \<equiv> word_of_nat L :: u32"
  shows "unat (pbRawVarint32Size w + w) = (length (enc_uint32 w) + L) mod 2 ^ 32"
proof -
  have "pbRawVarint32Size w = word_of_nat (length (enc_uint32 w))"
    using arg_cong [OF unat_pbRawVarint32Size [of w], of "word_of_nat :: nat \<Rightarrow> u32"]
    by (simp add: enc_uint32_def)
  then have "pbRawVarint32Size w + w = word_of_nat (length (enc_uint32 w) + L)"
    by (simp add: w_def)
  then show ?thesis by (simp add: unat_of_nat take_bit_eq_mod del: of_nat_add)
qed

text \<open>The whole behaviour of the encoder: the bytes when they fit a 32-bit size; nothing when the
  computed size has wrapped, except when it has wrapped to zero: then no buffer is allocated and
  the code moves out of the null pointer.\<close>

lemma writePreparedItems_packed:
  fixes items :: "PBEncodeItem list"
  assumes "\<forall>x \<in> set items. sized x"
  defines "body \<equiv> items_bytes items"
  defines "header \<equiv> enc_uint32 (word_of_nat (length body))"
  shows "writePreparedItems junk (0, packed items) =
    (if length header + length body < 2 ^ 32 then Inr (header @ body)
     else if (length header + length body) mod 2 ^ 32 = 0 then Inl MemoryFault
     else Inr [])"
proof -
  let ?n = "(length header + length body) mod 2 ^ 32"
  let ?s = "CodedOutputData (MMBuffer_malloc junk ?n) 0 ?n"
  have c: "packed items = container (word_of_nat (length body)) # items"
    using sum_sized [OF assms(1)] by (simp add: packed_def body_def)
  have b: "enc_list item_bytes (packed items) = header @ body"
    by (simp add: c header_def body_def items_bytes_def)
  have n: "unat (compiledSize (packed items ! 0)) = ?n"
    by (simp add: c compiled_size_nat header_def)
  then have z: "0 < compiledSize (packed items ! 0) \<longleftrightarrow> ?n \<noteq> 0"
    by (metis unat_eq_0 word_neq_0_conv)
  have l: "0 < length (packed items)" by (simp add: packed_def)
  show ?thesis
  proof (cases "?n = 0")
    case True
    then have "\<not> length header + length body < 2 ^ 32"
      using length_varint_gt_0 by (auto simp: header_def enc_uint32_def)
    with True z show ?thesis by (simp add: writePreparedItems_def)
  next
    case False
    have w: "writePreparedItems junk (0, packed items) = catch_encode (writeRootObject (packed items) ?s)"
      using False l z n by (simp add: writePreparedItems_def Let_def)
    show ?thesis
    proof (cases "length header + length body < 2 ^ 32")
      case True
      then have e: "?n = length (header @ body)" by simp
      have "writeRootObject (packed items) ?s = (Inr (), put_bytes (header @ body) ?s)"
        unfolding writeRootObject_def b [symmetric]
        by (rule item.write_each_fits [OF out_wf_new]) (simp only: fits_new b e order_refl)
      then show ?thesis
        using True False put_bytes_exact [OF e [symmetric]] by (simp add: w catch_encode_def)
    next
      case f: False
      have "?n < length (header @ body)"
        using f by (metis length_append mod_less_divisor not_less order_less_le_trans zero_less_numeral zero_less_power)
      then have "fst (writeRootObject (packed items) ?s) = Inl OutOfRange"
        unfolding writeRootObject_def
        by (intro item.write_each_full [OF out_wf_new]) (simp only: fits_new b not_le)
      then show ?thesis
        using f False by (cases "writeRootObject (packed items) ?s") (simp add: w catch_encode_def)
    qed
  qed
qed

section \<open>The items of each kind of object\<close>

definition string_item :: "byte list \<Rightarrow> PBEncodeItem" where
  "string_item str = set_compiledSize (PBEncodeItem_new\<lparr>
     item_type := PBEncodeItemType_String str, item_valueSize := word_of_nat (length str)\<rparr>)"

definition data_item :: "byte list \<Rightarrow> PBEncodeItem" where
  "data_item d = set_compiledSize (PBEncodeItem_new\<lparr>
     item_type := PBEncodeItemType_Data d, item_valueSize := word_of_nat (length d)\<rparr>)"

definition value_item :: "('a \<Rightarrow> PBEncodeItemType) \<Rightarrow> ('a \<Rightarrow> u32) \<Rightarrow> 'a \<Rightarrow> PBEncodeItem" where
  "value_item type pbSize value =
     PBEncodeItem_new\<lparr>item_type := type value, compiledSize := pbSize value\<rparr>"

lemma word_of_nat_pbRawVarint32Size:
  "pbRawVarint32Size w = word_of_nat (length (varint (unat w)))"
  using arg_cong [OF unat_pbRawVarint32Size [of w], of "word_of_nat :: nat \<Rightarrow> u32"] by simp

lemma item_bytes_made [simp]:
  "item_bytes (string_item str) = enc_data str" "item_bytes (data_item d) = enc_data d"
  by (simp_all add: string_item_def data_item_def set_compiledSize_def item_bytes_def)

lemma sized_made [simp]: "sized (string_item str)" "sized (data_item d)"
  unfolding sized_def item_bytes_made
  by (simp_all add: string_item_def data_item_def set_compiledSize_def enc_data_def
      word_of_nat_pbRawVarint32Size)

text \<open>A loop that runs over a container at the front of the items: its size grows, the rest only
  gains items at the end.\<close>

definition grow :: "u32 \<Rightarrow> PBEncodeItem \<Rightarrow> PBEncodeItem" where
  "grow n item = item\<lparr>item_valueSize := item_valueSize item + n\<rparr>"

lemma grow_grow [simp]: "grow m (grow n item) = grow (n + m) item"
  by (simp add: grow_def add.assoc)

lemma grow_0 [simp]: "grow 0 item = item"
  by (simp add: grow_def)

lemma add_valueSize_Cons [simp]: "add_valueSize 0 n (c # items) = grow n c # items"
  by (simp add: add_valueSize_def grow_def)

lemma prepare_values_eq:
  "prepare_values type pbSize 0 vec (c # items) =
   grow (sum_list (map pbSize vec)) c # items @ map (value_item type pbSize) vec"
  by (induction vec arbitrary: c items) (simp_all add: value_item_def Let_def)

lemma prepare_strings_eq:
  "prepare_strings 0 v (c # items) =
   grow (sum_list (map (compiledSize \<circ> string_item) v)) c # items @ map string_item v"
  by (induction v arbitrary: c items)
    (simp_all add: prepareObjectForEncode_string_def string_item_def)

definition pair_items :: "('k \<Rightarrow> PBEncodeItem) \<Rightarrow> 'k \<times> byte list \<Rightarrow> PBEncodeItem list" where
  "pair_items keyItem kv = [keyItem (fst kv), data_item (snd kv)]"

lemma prepare_pairs_eq:
  assumes "\<And>key items. \<not> isEmpty key \<Longrightarrow> prepareKey key items = (length items, items @ [keyItem key])"
  shows "prepare_pairs isEmpty prepareKey 0 vec (c # items) =
    (let new = concat (map (pair_items keyItem) (filter (\<lambda>kv. \<not> isEmpty (fst kv)) vec))
     in grow (sum_list (map compiledSize new)) c # items @ new)"
proof (induction vec arbitrary: c items)
  case (Cons kv vec)
  show ?case
  proof (cases "isEmpty (fst kv)")
    case True
    then show ?thesis by (cases kv) (simp add: Cons.IH)
  next
    case False
    then show ?thesis
      by (cases kv) (simp add: Cons.IH assms prepareObjectForEncode_buffer_def pair_items_def
          data_item_def [symmetric] nth_append Let_def add.assoc)
  qed
qed simp

lemma begin_container_Nil:
  "begin_container [] = [PBEncodeItem_new\<lparr>item_type := PBEncodeItemType_Container\<rparr>]"
  by (simp add: begin_container_def)

lemma end_container_grow:
  "end_container 0 (grow n (PBEncodeItem_new\<lparr>item_type := PBEncodeItemType_Container\<rparr>) # items) =
   (0, container n # items)"
  by (simp add: end_container_def container_def grow_def PBEncodeItem_new_def)

lemma map_compiledSize_value_item:
  "map (compiledSize \<circ> value_item type pbSize) vec = map pbSize vec"
  by (simp add: value_item_def)

lemma prepare_values_packed:
  "end_container 0 (prepare_values type pbSize 0 vec (begin_container [])) =
   (0, packed (map (value_item type pbSize) vec))"
  by (simp add: begin_container_Nil prepare_values_eq end_container_grow packed_def
      map_compiledSize_value_item)

lemma prepare_strings_packed:
  "prepareObjectForEncode_strings v [] = (0, packed (map string_item v))"
  by (simp add: prepareObjectForEncode_strings_def begin_container_Nil prepare_strings_eq
      end_container_grow packed_def)

lemma prepare_pairs_packed:
  assumes "\<And>key items. \<not> isEmpty key \<Longrightarrow> prepareKey key items = (length items, items @ [keyItem key])"
  shows "end_container 0 (prepare_pairs isEmpty prepareKey 0 vec (begin_container [])) =
    (0, packed (concat (map (pair_items keyItem) (filter (\<lambda>kv. \<not> isEmpty (fst kv)) vec))))"
  by (simp add: begin_container_Nil prepare_pairs_eq [of isEmpty prepareKey keyItem, OF assms]
      end_container_grow packed_def Let_def)
section \<open>Vectors: encoding and decoding\<close>

definition framed :: "byte list \<Rightarrow> byte list" where
  "framed body = enc_uint32 (word_of_nat (length body)) @ body"

definition encode_result :: "byte list \<Rightarrow> cpp_exception + byte list" where
  "encode_result body =
    (if length (framed body) < 2 ^ 32 then Inr (framed body)
     else if length (framed body) mod 2 ^ 32 = 0 then Inl MemoryFault else Inr [])"

lemma encode_packed:
  "\<forall>x \<in> set items. sized x \<Longrightarrow> writePreparedItems junk (0, packed items) = encode_result (items_bytes items)"
  by (simp add: writePreparedItems_packed encode_result_def framed_def)

lemma length_framed: "length (framed body) \<le> 5 + length body"
  using length_varint_u32 by (auto simp: framed_def enc_uint32_def)

lemma encode_result_small: "length body < 2 ^ 32 - 5 \<Longrightarrow> encode_result body = Inr (framed body)"
  using length_framed [of body] by (simp add: encode_result_def)

lemma in_wf_new: "in_wf (CodedInputData d 0 (length d))"
  by (simp add: in_wf_def CodedInputData_def)

lemma remaining_new: "remaining (CodedInputData d 0 (length d)) = d"
  by (simp add: remaining_def CodedInputData_def mem_read_def)

lemma reads_readInt32_uint32: "reads readInt32 (enc_uint32 n) n"
  using reads_readRawVarint32 [OF length_varint_u32_le_10 [of n]]
  by (simp add: readInt32_def enc_uint32_def)

context wire_reader
begin

lemma decode_framed:
  assumes "reads readHeader (enc_uint32 (word_of_nat (length (enc_list enc vs)))) h"
    and "\<forall>v \<in> set vs. valid v"
  shows "decodeVector (decode_elements readHeader rd []) (framed (enc_list enc vs)) = Some (Inr (True, vs))"
proof -
  let ?s = "CodedInputData (framed (enc_list enc vs)) 0 (length (framed (enc_list enc vs)))"
  let ?h = "enc_uint32 (word_of_nat (length (enc_list enc vs)))"
  have r: "remaining ?s = ?h @ enc_list enc vs" by (simp only: remaining_new) (simp add: framed_def)
  have h: "readHeader ?s = (Inr h, advance (length ?h) ?s)"
    by (rule readsD [OF assms(1) in_wf_new r])
  have "in_wf (advance (length ?h) ?s)" by (rule in_wf_advance [OF in_wf_new]) (simp add: r)
  moreover have "remaining (advance (length ?h) ?s) = enc_list enc vs" by (simp add: remaining_advance r)
  ultimately have "while_not_at_end isAtEnd (push_back rd) [] (advance (length ?h) ?s) =
      Some (None, vs, advance (length (enc_list enc vs)) (advance (length ?h) ?s))"
    using loop.decode_all [of _ vs "[]"] assms(2) by (simp add: run_steps_append)
  with h show ?thesis
    by (simp add: decodeVector_def decode_elements_def catch_decode_def)
qed

lemma decode_total:
  assumes "safe_read readHeader"
  shows "\<exists>b r. decodeVector (decode_elements readHeader rd result) oData = Some (Inr (b, r))"
proof -
  obtain h t where h: "readHeader (CodedInputData oData 0 (length oData)) = (h, t)" by fastforce
  note f = safe_readD [OF assms in_wf_new h]
  show ?thesis
  proof (cases h)
    case (Inl e)
    with h f show ?thesis
      by (auto simp: decodeVector_def decode_elements_def catch_decode_def)
  next
    case (Inr x)
    obtain e d' s' where "while_not_at_end isAtEnd (push_back rd) result t = Some (e, d', s')"
      "e \<noteq> Some MemoryFault"
      using loop.decode_ends [OF f(2), of result] by blast
    with h Inr show ?thesis
      by (auto simp: decodeVector_def decode_elements_def catch_decode_def)
  qed
qed

end

context codec
begin

lemma encode_values:
  assumes "\<And>v. item_bytes (value_item type sz v) = enc v" and "\<forall>v \<in> set vs. valid v"
  shows "writePreparedItems junk (end_container 0 (prepare_values type sz 0 vs (begin_container []))) =
    encode_result (enc_list enc vs)"
proof -
  have "sized (value_item type sz v)" if "valid v" for v
    using size_enc [OF that]
    by (simp add: sized_def assms(1)) (simp add: value_item_def word_eq_iff_unsigned flip: size_enc [OF that])
  then have "\<forall>x \<in> set (map (value_item type sz) vs). sized x" using assms(2) by simp
  moreover have "items_bytes (map (value_item type sz) vs) = enc_list enc vs"
    by (simp add: items_bytes_def enc_list_def assms(1) comp_def)
  ultimately show ?thesis
    unfolding prepare_values_packed by (simp only: encode_packed)
qed

lemma encode_fixed:
  assumes "\<And>v. sz v = w" and "\<And>v. valid v" and "length (framed (enc_list enc vs)) < 2 ^ 32"
  shows "getEncodeData_fixed junk w wr vs = Inr (framed (enc_list enc vs))"
proof -
  have e: "length (enc_list enc vs) = length vs * unat w"
    using assms(1,2) by (induction vs) (auto simp: enc_list_simps simp flip: size_enc)
  let ?h = "enc_uint32 (word_of_nat (length (enc_list enc vs)))"
  let ?n = "length (framed (enc_list enc vs))"
  let ?s = "CodedOutputData (MMBuffer_malloc junk ?n) 0 ?n"
  have n: "unat (pbRawVarint32Size (word_of_nat (length (enc_list enc vs))) + word_of_nat (length (enc_list enc vs))) = ?n"
    using assms(3) compiled_size_nat [of "length (enc_list enc vs)"] by (simp add: framed_def)
  have f: "fits ?s (length ?h)" "fits (put_bytes ?h ?s) (length (enc_list enc vs))"
    by (simp_all add: fits_new framed_def) (simp add: fits_def CodedOutputData_def)
  have "bindC (writeUInt32 (word_of_nat (length (enc_list enc vs)))) (\<lambda>_. write_each wr vs) ?s =
      (Inr (), put_bytes (enc_list enc vs) (put_bytes ?h ?s))"
    unfolding write_eqs write_bytes_bind [OF out_wf_new f(1)]
    using write_each_fits [OF out_wf_put_bytes [OF out_wf_new f(1)] f(2)]
    by (simp only: enc_list_def)
  also have "put_bytes (enc_list enc vs) (put_bytes ?h ?s) = put_bytes (framed (enc_list enc vs)) ?s"
    by (subst put_bytes_put_bytes) (simp_all add: out_wf_new fits_new framed_def)
  finally show ?thesis
    using put_bytes_exact [of "framed (enc_list enc vs)" _ junk, OF refl]
    by (simp add: getEncodeData_fixed_def e [symmetric] n Let_def)
qed

end

text \<open>The typed entry points: encode an object, decode a vector.\<close>

definition encodeDataWithObject_int32s where
  "encodeDataWithObject_int32s junk vec = writePreparedItems junk (prepareObjectForEncode_int32s vec [])"

definition encodeDataWithObject_uint32s where
  "encodeDataWithObject_uint32s junk vec = writePreparedItems junk (prepareObjectForEncode_uint32s vec [])"

definition encodeDataWithObject_int64s where
  "encodeDataWithObject_int64s junk vec = writePreparedItems junk (prepareObjectForEncode_int64s vec [])"

definition encodeDataWithObject_uint64s where
  "encodeDataWithObject_uint64s junk vec = writePreparedItems junk (prepareObjectForEncode_uint64s vec [])"

definition encodeDataWithObject_strings where
  "encodeDataWithObject_strings junk v = writePreparedItems junk (prepareObjectForEncode_strings v [])"

definition encodeDataWithObject_MMKVVector where
  "encodeDataWithObject_MMKVVector junk vec =
     writePreparedItems junk (prepareObjectForEncode_MMKVVector vec [])"

lemmas encode_entry_defs =
  encodeDataWithObject_int32s_def prepareObjectForEncode_int32s_def
  encodeDataWithObject_uint32s_def prepareObjectForEncode_uint32s_def
  encodeDataWithObject_int64s_def prepareObjectForEncode_int64s_def
  encodeDataWithObject_uint64s_def prepareObjectForEncode_uint64s_def

lemma item_bytes_values:
  "item_bytes (value_item PBEncodeItemType_Int32 sz32 v32) = enc_int32 v32"
  "item_bytes (value_item PBEncodeItemType_UInt32 sz u32) = enc_uint32 u32"
  "item_bytes (value_item PBEncodeItemType_Int64 sz64 v64) = enc_int64 v64"
  "item_bytes (value_item PBEncodeItemType_UInt64 sz' u64) = enc_int64 u64"
  by (simp_all add: value_item_def item_bytes_def)

lemma encode_ints_eq:
  "encodeDataWithObject_int32s junk a = encode_result (enc_list enc_int32 a)"
  "encodeDataWithObject_uint32s junk b = encode_result (enc_list enc_uint32 b)"
  "encodeDataWithObject_int64s junk c = encode_result (enc_list enc_int64 c)"
  "encodeDataWithObject_uint64s junk d = encode_result (enc_list enc_int64 d)"
  by (simp_all add: encode_entry_defs int32.encode_values uint32.encode_values
      int64.encode_values uint64.encode_values item_bytes_values)

lemma decode_ints_framed:
  "decodeVector (decodeOneVector_int32s []) (framed (enc_list enc_int32 a)) = Some (Inr (True, a))"
  "decodeVector (decodeOneVector_uint32s []) (framed (enc_list enc_uint32 b)) = Some (Inr (True, b))"
  "decodeVector (decodeOneVector_int64s []) (framed (enc_list enc_int64 c)) = Some (Inr (True, c))"
  "decodeVector (decodeOneVector_uint64s []) (framed (enc_list enc_int64 d)) = Some (Inr (True, d))"
  unfolding decodeOneVector_int32s_def decodeOneVector_uint32s_def
    decodeOneVector_int64s_def decodeOneVector_uint64s_def
  by (rule int32.decode_framed uint32.decode_framed int64.decode_framed uint64.decode_framed,
      rule reads_readInt32_uint32, simp)+

lemma length_concat_map_le:
  "(\<And>x. length (f x) \<le> k) \<Longrightarrow> length (concat (map f xs)) \<le> k * length xs"
proof (induction xs)
  case (Cons x xs)
  then have "length (f x) \<le> k" "length (concat (map f xs)) \<le> k * length xs" by auto
  then show ?case by simp
qed simp

lemma length_enc_int32: "length (enc_int32 v) \<le> 10"
  using length_varint_u32_le_10 [of v] length_varint_u64 [of "scast v"] by (simp add: enc_int32_def)

lemma length_enc_ints:
  "length (enc_list enc_int32 a) \<le> 10 * length a" "length (enc_list enc_uint32 b) \<le> 10 * length b"
  "length (enc_list enc_int64 c) \<le> 10 * length c" "length (enc_list enc_int64 d) \<le> 10 * length d"
  unfolding enc_list_def enc_list_def enc_list_def enc_list_def
  by (rule length_concat_map_le;
      simp add: length_enc_int32 enc_uint32_def enc_int64_def length_varint_u32_le_10 length_varint_u64)+
end
