(* ===== verification/PBMap.thy ===== *)
theory PBMap
  imports MiniPBCoder
begin

text \<open>
  The key-value map of a store: \<open>decodeOneMap\<close> of \<open>MiniPBCoder.cpp\<close> (keys are byte strings) and of
  \<open>MiniPBCoder_OSX.cpp\<close> (keys are \<open>NSString\<close>s), and the plain \<open>KeyValueHolder\<close>, which locates a
  value in the buffer instead of holding it.

  The abstract view of a buffer is a log: the list of the key-value pairs appended to it. Its
  meaning is \<open>log_contents\<close>: later pairs win and an empty value removes the key. The lemmas show
  that decoding computes, for every key, a holder through which exactly that value is found.
\<close>

unbundle bit_operations_syntax

section \<open>Holders\<close>

definition KeyValueHolder_new :: "u32 \<Rightarrow> u32 \<Rightarrow> u32 \<Rightarrow> KeyValueHolder" where
  "KeyValueHolder_new keyLength valueLength off =
     (let ks = (ucast keyLength :: u16)
      in \<lparr>computedKVSize = ks + ucast (pbRawVarint32Size (ucast ks)) + ucast (pbRawVarint32Size valueLength),
          keySize = ks, valueSize = valueLength, offset = off\<rparr>)"

definition toMMBuffer :: "byte list \<Rightarrow> KeyValueHolder \<Rightarrow> byte list" where
  "toMMBuffer base kv =
     mem_read base (unat (offset kv) + unat (computedKVSize kv)) (unat (valueSize kv))"

section \<open>Decoding a map\<close>

type_synonym MMKVMap = "byte list \<rightharpoonup> KeyValueHolder"

definition decodeMap_entry :: "MMKVMap \<Rightarrow> (coded_input, MMKVMap) cpp" where
  "decodeMap_entry dictionary =
     bindC readStringKV (\<lambda>(key, kvHolder).
       if length key > 0 then
         bindC (readDataKV kvHolder) (\<lambda>kvHolder.
           if valueSize kvHolder > 0 then returnC (dictionary(key \<mapsto> kvHolder))
           else if key \<in> dom dictionary then returnC (dictionary(key := None))
           else returnC dictionary)
       else returnC dictionary)"

definition decodeMap_entry_OSX ::
  "(byte list \<Rightarrow> 'k option) \<Rightarrow> ('k \<Rightarrow> nat) \<Rightarrow> ('k \<rightharpoonup> KeyValueHolder) \<Rightarrow>
   (coded_input, 'k \<rightharpoonup> KeyValueHolder) cpp" where
  "decodeMap_entry_OSX utf8 length_of dictionary =
     bindC (readNSStringKV utf8) (\<lambda>(nsKey, kvHolder).
       case nsKey of
         None \<Rightarrow> returnC dictionary
       | Some key \<Rightarrow>
           if length_of key > 0 then
             bindC (readDataKV kvHolder) (\<lambda>kvHolder.
               case dictionary key of
                 Some _ \<Rightarrow>
                   if valueSize kvHolder > 0 then returnC (dictionary(key \<mapsto> kvHolder))
                   else returnC (dictionary(key := None))
               | None \<Rightarrow>
                   if valueSize kvHolder > 0 then returnC (dictionary(key \<mapsto> kvHolder))
                   else returnC dictionary)
           else returnC dictionary)"

definition decodeMap_block ::
  "('d \<Rightarrow> (coded_input, 'd) cpp) \<Rightarrow> nat \<Rightarrow> 'd \<Rightarrow> coded_input \<Rightarrow> (cpp_exception option \<times> 'd) option" where
  "decodeMap_block entry pos dictionary s =
     (case (if pos \<noteq> 0 then seekIn pos else bindC readInt32 (\<lambda>_. returnC ())) s of
        (Inl e, _) \<Rightarrow> Some (Some e, dictionary)
      | (Inr _, s) \<Rightarrow>
          map_option (\<lambda>(e, dictionary, _). (e, dictionary))
            (while_not_at_end isAtEnd entry dictionary s))"

definition catch_greedy :: "cpp_exception option \<times> 'd \<Rightarrow> cpp_exception + 'd" where
  "catch_greedy r = (if fst r = Some MemoryFault then Inl MemoryFault else Inr (snd r))"

definition catch_swap :: "'d \<Rightarrow> cpp_exception option \<times> 'd \<Rightarrow> cpp_exception + 'd" where
  "catch_swap dic r =
     (if fst r = Some MemoryFault then Inl MemoryFault
      else if fst r = None then Inr (snd r) else Inr dic)"

definition decodeOneMap ::
  "MMKVMap \<Rightarrow> nat \<Rightarrow> bool \<Rightarrow> coded_input \<Rightarrow> (cpp_exception + MMKVMap) option" where
  "decodeOneMap dic pos greedy s =
     (if greedy then map_option catch_greedy (decodeMap_block decodeMap_entry pos dic s)
      else map_option (catch_swap dic) (decodeMap_block decodeMap_entry pos Map.empty s))"

definition decodeOneMap_OSX ::
  "(byte list \<Rightarrow> 'k option) \<Rightarrow> ('k \<Rightarrow> nat) \<Rightarrow> ('k \<rightharpoonup> KeyValueHolder) \<Rightarrow> nat \<Rightarrow> bool \<Rightarrow>
   coded_input \<Rightarrow> (cpp_exception + ('k \<rightharpoonup> KeyValueHolder)) option" where
  "decodeOneMap_OSX utf8 length_of dic pos greedy s =
     (if greedy
      then map_option catch_greedy (decodeMap_block (decodeMap_entry_OSX utf8 length_of) pos dic s)
      else map_option (catch_swap dic)
             (decodeMap_block (decodeMap_entry_OSX utf8 length_of) pos Map.empty s))"

definition decodeMap :: "MMKVMap \<Rightarrow> byte list \<Rightarrow> nat \<Rightarrow> (cpp_exception + MMKVMap) option" where
  "decodeMap dic oData pos = decodeOneMap dic pos False (CodedInputData oData 0 (length oData))"

definition greedyDecodeMap :: "MMKVMap \<Rightarrow> byte list \<Rightarrow> nat \<Rightarrow> (cpp_exception + MMKVMap) option" where
  "greedyDecodeMap dic oData pos = decodeOneMap dic pos True (CodedInputData oData 0 (length oData))"

section \<open>Logs\<close>

type_synonym log_entry = "byte list \<times> byte list"

definition enc_entry :: "log_entry \<Rightarrow> byte list" where
  "enc_entry kv = enc_data (fst kv) @ enc_data (snd kv)"

definition enc_log :: "log_entry list \<Rightarrow> byte list" where
  "enc_log = enc_list enc_entry"

definition log_step :: "log_entry \<Rightarrow> (byte list \<rightharpoonup> byte list) \<Rightarrow> (byte list \<rightharpoonup> byte list)" where
  "log_step kv m = m(fst kv := (if snd kv = [] then None else Some (snd kv)))"

definition log_contents :: "log_entry list \<Rightarrow> (byte list \<rightharpoonup> byte list)" where
  "log_contents es = fold log_step es Map.empty"

definition valid_entry :: "log_entry \<Rightarrow> bool" where
  "valid_entry kv \<longleftrightarrow> fst kv \<noteq> [] \<and> short (fst kv) \<and> short (snd kv)"

text \<open>The holder a decoder makes for the entry that starts at \<open>pos\<close>.\<close>

definition entry_holder :: "nat \<Rightarrow> log_entry \<Rightarrow> KeyValueHolder" where
  "entry_holder pos kv =
     \<lparr>computedKVSize = word_of_nat (length (enc_data (fst kv)) + length (varint (length (snd kv)))),
      keySize = word_of_nat (length (fst kv)), valueSize = word_of_nat (length (snd kv)),
      offset = word_of_nat pos\<rparr>"

definition holder_step :: "nat \<Rightarrow> log_entry \<Rightarrow> MMKVMap \<Rightarrow> MMKVMap" where
  "holder_step pos kv m =
     m(fst kv := (if snd kv = [] then None else Some (entry_holder pos kv)))"

lemma ucast_word_of_nat_u16: "(ucast (word_of_nat n :: u32) :: u16) = word_of_nat n"
  by (rule bit_word_eqI) (auto simp: bit_simps)

lemma word_of_nat_gt_0_short:
  "short d \<Longrightarrow> (0 :: u32) < word_of_nat (length d) \<longleftrightarrow> d \<noteq> []"
  using short_facts(2) [of d] by (metis length_0_conv of_nat_0 unat_eq_0 word_neq_0_conv)

lemma decodeMap_entry_step:
  assumes "valid_entry kv" and "in_wf s" and "remaining s = enc_entry kv @ rest"
  shows "decodeMap_entry d s =
    (Inr (holder_step (in_position s) kv d), advance (length (enc_entry kv)) s)"
proof -
  obtain k v where kv: "kv = (k, v)" by (cases kv)
  have v: "k \<noteq> []" "short k" "short v" using assms(1) by (auto simp: valid_entry_def kv)
  have r: "remaining s = enc_data k @ enc_data v @ rest" using assms(3) by (simp add: enc_entry_def kv)
  let ?s = "advance (length (enc_data k)) s" and ?h = "key_holder (in_position s) (length k)"
  have k: "readStringKV s = (Inr (k, ?h), ?s)" by (rule readStringKV_enc [OF v(2) assms(2) r])
  have wf: "in_wf ?s" using r assms(2) by (intro in_wf_advance) simp_all
  have r': "remaining ?s = enc_data v @ rest" using r by (simp add: remaining_advance)
  have "?h\<lparr>computedKVSize := word_of_nat (in_position ?s + length (varint (length v))) - ucast (offset ?h),
      valueSize := word_of_nat (length v)\<rparr> = entry_holder (in_position s) kv"
    by (simp add: key_holder_def entry_holder_def kv ucast_word_of_nat_u16)
  then have d: "readDataKV ?h ?s = (Inr (entry_holder (in_position s) kv),
      advance (length (enc_data k) + length (enc_data v)) s)"
    using readDataKV_enc [OF v(3) wf r', of ?h] by simp
  have "valueSize (entry_holder (in_position s) kv) > 0 \<longleftrightarrow> v \<noteq> []"
    by (simp add: entry_holder_def kv word_of_nat_gt_0_short v)
  then show ?thesis
    using v by (auto simp: decodeMap_entry_def bindC_Inr k d returnC_def
        holder_step_def kv enc_entry_def fun_upd_idem_iff)
qed

lemma consumes_decodeMap_entry: "consumes (decodeMap_entry d)"
  unfolding decodeMap_entry_def
  by (rule consumes_bindC) (auto intro!: consumes_more safe_intros
      consumes_imp_safe [OF consumes_readDataKV] split: prod.splits)

interpretation posix: loop_reader decodeMap_entry enc_entry valid_entry holder_step
  by unfold_locales (simp_all add: decodeMap_entry_step consumes_decodeMap_entry)

text \<open>A dictionary whose holders lie in a buffer of \<open>n\<close> bytes and are not empty, as its keys.\<close>

definition holder_in :: "nat \<Rightarrow> KeyValueHolder \<Rightarrow> bool" where
  "holder_in n h \<longleftrightarrow> 0 < valueSize h \<and> unat (offset h) + unat (computedKVSize h) + unat (valueSize h) \<le> n"

definition map_typed :: "nat \<Rightarrow> MMKVMap \<Rightarrow> bool" where
  "map_typed n dic \<longleftrightarrow> (\<forall>key h. dic key = Some h \<longrightarrow> key \<noteq> [] \<and> holder_in n h)"

lemma map_typed_empty: "map_typed n Map.empty"
  by (simp add: map_typed_def)

lemma map_typed_upd: "map_typed n dic \<Longrightarrow> key \<noteq> [] \<Longrightarrow> holder_in n h \<Longrightarrow> map_typed n (dic(key \<mapsto> h))"
  by (simp add: map_typed_def)

lemma map_typed_del: "map_typed n dic \<Longrightarrow> map_typed n (dic(key := None))"
  by (simp add: map_typed_def)

lemma unat_word_of_nat_le: "unat (word_of_nat n :: 'a::len word) \<le> n"
  by (simp add: unat_of_nat take_bit_nat_less_eq_self)

lemma readStringKV_offset:
  assumes "readStringKV s = (Inr (key, h), t)" and "in_wf s"
  shows "offset h = word_of_nat (in_position s)" and "in_wf t" and "in_frame s t"
proof -
  show "in_wf t" "in_frame s t" using safe_readD [OF consumes_imp_safe [OF consumes_more(7)] assms(2,1)] by simp_all
  show "offset h = word_of_nat (in_position s)"
    using assms(1) by (auto simp: readStringKV_def bindC_def returnC_def throwC_def Let_def split: prod.splits sum.splits if_splits)
qed

lemma readDataKV_in:
  assumes "readDataKV h t = (Inr h', u)" and "in_wf t" and off: "offset h = word_of_nat pos" "pos \<le> in_position t"
  shows "unat (offset h') + unat (computedKVSize h') + unat (valueSize h') \<le> in_size t"
proof -
  obtain size v where v: "readRawVarint32 t = (Inr size, v)" "unat size \<le> in_size v - in_position v"
    and h': "h' = h\<lparr>computedKVSize := word_of_nat (in_position v) - ucast (offset h), valueSize := word_of_nat (unat size)\<rparr>"
    using assms(1) by (auto simp: readDataKV_def bindC_def returnC_def throwC_def Let_def split: prod.splits sum.splits if_splits)
  note f = safe_readD [OF safe_readRawVarint32 assms(2) v(1)]
  have le: "pos \<le> in_position v" "in_position v \<le> in_size v" "in_size v = in_size t"
    using off(2) f(2,3) by (auto simp: in_wf_def in_frame_def)
  have "(word_of_nat (in_position v) - ucast (offset h) :: u16) = word_of_nat (in_position v - pos)"
    using le(1) by (simp add: off(1) ucast_word_of_nat_u16)
  then have "unat (word_of_nat (in_position v) - ucast (offset h) :: u16) \<le> in_position v - pos"
    using unat_word_of_nat_le by metis
  moreover have "unat (offset h) \<le> pos" unfolding off(1) by (rule unat_word_of_nat_le)
  ultimately show ?thesis using v(2) le unat_word_of_nat_le [of "unat size"] by (simp add: h')
qed

lemma decodeMap_entry_typed:
  assumes "map_typed (in_size s) d" and "in_wf s" and "decodeMap_entry d s = (Inr d', s')"
  shows "map_typed (in_size s) d'"
proof -
  obtain key h t where k: "readStringKV s = (Inr (key, h), t)"
    using assms(3) by (auto simp: decodeMap_entry_def bindC_def split: prod.splits sum.splits)
  note o = readStringKV_offset [OF k assms(2)]
  show ?thesis
  proof (cases "key = []")
    case True
    then show ?thesis using assms(1,3) k by (simp add: decodeMap_entry_def bindC_def returnC_def)
  next
    case False
    then obtain h' u where h: "readDataKV h t = (Inr h', u)"
      using assms(3) k by (auto simp: decodeMap_entry_def bindC_def split: prod.splits sum.splits)
    have "unat (offset h') + unat (computedKVSize h') + unat (valueSize h') \<le> in_size s"
      using readDataKV_in [OF h o(2,1)] o(3) by (simp add: in_frame_def)
    then have "valueSize h' > 0 \<Longrightarrow> holder_in (in_size s) h'" by (simp add: holder_in_def)
    moreover have "d' = (if valueSize h' > 0 then d(key \<mapsto> h') else if key \<in> dom d then d(key := None) else d)"
      using assms(3) k h False by (simp add: decodeMap_entry_def bindC_def returnC_def split: if_splits)
    ultimately show ?thesis using assms(1) False by (simp add: map_typed_upd map_typed_del)
  qed
qed

lemma decodeMap_block_typed:
  assumes "map_typed (length oData) d"
  shows "\<exists>e m. decodeMap_block decodeMap_entry pos d (CodedInputData oData 0 (length oData)) = Some (e, m) \<and>
    e \<noteq> Some MemoryFault \<and> map_typed (length oData) m"
proof -
  let ?s = "CodedInputData oData 0 (length oData)"
  have "safe_read (seekIn pos)"
    by (auto simp: safe_read_def seekIn_def in_wf_def in_frame_def)
  then have p: "safe_read (if pos \<noteq> 0 then seekIn pos else bindC readInt32 (\<lambda>_. returnC ()))"
    by (auto intro!: safe_intros consumes_imp_safe [OF consumes_varint32(1)])
  obtain r t where r: "(if pos \<noteq> 0 then seekIn pos else bindC readInt32 (\<lambda>_. returnC ())) ?s = (r, t)" by fastforce
  note f = safe_readD [OF p in_wf_new r]
  have size: "in_size t = length oData" using f(3) by (simp add: in_frame_def CodedInputData_def)
  show ?thesis
  proof (cases r)
    case (Inl e)
    then show ?thesis using f(1) r assms by (auto simp: decodeMap_block_def)
  next
    case (Inr x)
    have "\<exists>e m u. while_not_at_end isAtEnd decodeMap_entry d t = Some (e, m, u) \<and> in_wf u \<and> in_frame t u \<and>
        map_typed (in_size t) m \<and> e \<noteq> Some MemoryFault \<and> (e = None \<longrightarrow> isAtEnd u)"
      by (rule while_keeps [of decodeMap_entry t map_typed d, OF consumes_decodeMap_entry f(2) assms [folded size]])
        (rule decodeMap_entry_typed)
    then obtain e m u where "while_not_at_end isAtEnd decodeMap_entry d t = Some (e, m, u)" "e \<noteq> Some MemoryFault" "map_typed (in_size t) m"
      by blast
    then show ?thesis using Inr r size by (simp add: decodeMap_block_def)
  qed
qed

text \<open>The Apple decoder runs the same step through the meaning of its keys: \<open>utf8\<close> reads back what
  \<open>of_key\<close> encodes.\<close>

lemma consumes_decodeMap_entry_OSX: "consumes (decodeMap_entry_OSX utf8 length_of d)"
  unfolding decodeMap_entry_OSX_def
  by (rule consumes_bindC) (auto intro!: consumes_more safe_intros
      consumes_imp_safe [OF consumes_readDataKV] split: prod.splits option.splits)

definition key_step_OSX ::
  "(byte list \<Rightarrow> 'k option) \<Rightarrow> nat \<Rightarrow> log_entry \<Rightarrow> ('k \<rightharpoonup> KeyValueHolder) \<Rightarrow> ('k \<rightharpoonup> KeyValueHolder)" where
  "key_step_OSX utf8 pos kv m =
     m(the (utf8 (fst kv)) := (if snd kv = [] then None else Some (entry_holder pos kv)))"

definition valid_entry_OSX :: "(byte list \<Rightarrow> 'k option) \<Rightarrow> ('k \<Rightarrow> nat) \<Rightarrow> log_entry \<Rightarrow> bool" where
  "valid_entry_OSX utf8 length_of kv \<longleftrightarrow> valid_entry kv \<and>
     (\<exists>key. utf8 (fst kv) = Some key \<and> 0 < length_of key)"

lemma decodeMap_entry_OSX_step:
  assumes "valid_entry_OSX utf8 length_of kv" and "in_wf s" and "remaining s = enc_entry kv @ rest"
  shows "decodeMap_entry_OSX utf8 length_of d s =
    (Inr (key_step_OSX utf8 (in_position s) kv d), advance (length (enc_entry kv)) s)"
proof -
  obtain k v where kv: "kv = (k, v)" by (cases kv)
  obtain key where key: "utf8 k = Some key" "0 < length_of key"
    using assms(1) by (auto simp: valid_entry_OSX_def kv)
  have v: "k \<noteq> []" "short k" "short v"
    using assms(1) by (auto simp: valid_entry_OSX_def valid_entry_def kv)
  have r: "remaining s = enc_data k @ enc_data v @ rest" using assms(3) by (simp add: enc_entry_def kv)
  let ?s = "advance (length (enc_data k)) s" and ?h = "key_holder (in_position s) (length k)"
  have k: "readNSStringKV utf8 s = (Inr (Some key, ?h), ?s)"
    using readNSStringKV_enc [OF v(2) assms(2) r, of utf8] by (simp add: key)
  have wf: "in_wf ?s" using r assms(2) by (intro in_wf_advance) simp_all
  have r': "remaining ?s = enc_data v @ rest" using r by (simp add: remaining_advance)
  have "?h\<lparr>computedKVSize := word_of_nat (in_position ?s + length (varint (length v))) - ucast (offset ?h),
      valueSize := word_of_nat (length v)\<rparr> = entry_holder (in_position s) kv"
    by (simp add: key_holder_def entry_holder_def kv ucast_word_of_nat_u16)
  then have d: "readDataKV ?h ?s = (Inr (entry_holder (in_position s) kv),
      advance (length (enc_data k) + length (enc_data v)) s)"
    using readDataKV_enc [OF v(3) wf r', of ?h] by simp
  have "valueSize (entry_holder (in_position s) kv) > 0 \<longleftrightarrow> v \<noteq> []"
    by (simp add: entry_holder_def kv word_of_nat_gt_0_short v)
  then show ?thesis
    using v key by (auto simp: decodeMap_entry_OSX_def bindC_Inr k d returnC_def
        key_step_OSX_def kv enc_entry_def fun_upd_idem_iff split: option.splits)
qed

interpretation osx: loop_reader "decodeMap_entry_OSX utf8 length_of" enc_entry
    "valid_entry_OSX utf8 length_of" "key_step_OSX utf8" for utf8 length_of
  by unfold_locales (simp_all add: decodeMap_entry_OSX_step consumes_decodeMap_entry_OSX)

section \<open>What the decoded holders locate\<close>

definition contents :: "byte list \<Rightarrow> ('k \<rightharpoonup> KeyValueHolder) \<Rightarrow> 'k \<rightharpoonup> byte list" where
  "contents base m k = map_option (toMMBuffer base) (m k)"

text \<open>The entry's key and its two size fields fit 16 bits, and the entry lies below 4 GB.\<close>

definition addressable :: "nat \<Rightarrow> log_entry \<Rightarrow> bool" where
  "addressable pos kv \<longleftrightarrow> length (enc_data (fst kv)) + length (varint (length (snd kv))) < 2 ^ 16 \<and>
     pos + length (enc_entry kv) < 2 ^ 32"

lemma unat_word_of_nat_u32: "n < 2 ^ 32 \<Longrightarrow> unat (word_of_nat n :: u32) = n"
  by (simp add: unat_of_nat take_bit_nat_eq_self)

lemma unat_word_of_nat_u16: "n < 2 ^ 16 \<Longrightarrow> unat (word_of_nat n :: u16) = n"
  by (simp add: unat_of_nat take_bit_nat_eq_self)

lemma toMMBuffer_entry:
  assumes "valid_entry kv" and "addressable pos kv"
    and "mem_read base pos (length (enc_entry kv)) = enc_entry kv"
  shows "toMMBuffer base (entry_holder pos kv) = snd kv"
proof -
  obtain k v where kv: "kv = (k, v)" by (cases kv)
  have v: "short k" "short v" using assms(1) by (auto simp: valid_entry_def kv)
  let ?n = "length (enc_data k) + length (varint (length v))"
  have o: "unat (offset (entry_holder pos kv)) = pos"
    "unat (computedKVSize (entry_holder pos kv)) = ?n"
    "unat (valueSize (entry_holder pos kv)) = length v"
    using assms(2) short_facts(2) [OF v(2)] unat_word_of_nat_u32 [of pos] unat_word_of_nat_u16 [of ?n]
    by (simp_all add: entry_holder_def addressable_def kv)
  have e: "length (enc_entry kv) = ?n + length v"
    by (simp add: enc_entry_def kv enc_data_short v)
  have "mem_read base (pos + ?n) (length v) = drop ?n (mem_read base pos (?n + length v))"
    by (simp add: mem_read_def drop_take add.commute)
  also have "\<dots> = v"
    using assms(3) unfolding e by (simp add: enc_entry_def kv enc_data_short v)
  finally show ?thesis by (simp add: toMMBuffer_def o [unfolded kv] kv)
qed

fun addressable_log :: "nat \<Rightarrow> log_entry list \<Rightarrow> bool" where
  "addressable_log pos [] \<longleftrightarrow> True"
| "addressable_log pos (kv # es) \<longleftrightarrow>
     addressable pos kv \<and> addressable_log (pos + length (enc_entry kv)) es"

lemma enc_log_simps [simp]: "enc_log [] = []" "enc_log (kv # es) = enc_entry kv @ enc_log es"
  by (simp_all add: enc_log_def)

lemma enc_log_append [simp]: "enc_log (xs @ ys) = enc_log xs @ enc_log ys"
  by (induction xs) simp_all

lemma contents_upd:
  "contents base (m(k := Some h)) = (contents base m)(k \<mapsto> toMMBuffer base h)"
  "contents base (m(k := None)) = (contents base m)(k := None)"
  by (auto simp: contents_def)

lemma contents_empty [simp]: "contents base Map.empty = Map.empty"
  by (simp add: contents_def fun_eq_iff)

lemma contents_run_steps:
  assumes "\<forall>kv \<in> set es. valid_entry kv" and "addressable_log pos es"
    and "mem_read base pos (length (enc_log es)) = enc_log es"
  shows "contents base (run_steps enc_entry holder_step pos es m) =
    fold log_step es (contents base m)"
  using assms
proof (induction es arbitrary: pos m)
  case (Cons kv es)
  let ?n = "length (enc_entry kv)"
  have split: "mem_read base pos ?n @ mem_read base (pos + ?n) (length (enc_log es)) =
      enc_entry kv @ enc_log es"
    using Cons.prems(3) by (simp add: mem_read_add)
  have l: "length (mem_read base pos ?n) = ?n"
    using arg_cong [OF Cons.prems(3), of length] by (simp add: mem_read_def)
  have r: "mem_read base pos ?n = enc_entry kv"
    "mem_read base (pos + ?n) (length (enc_log es)) = enc_log es"
    using split l by simp_all
  have "toMMBuffer base (entry_holder pos kv) = snd kv"
    using Cons.prems r(1) by (intro toMMBuffer_entry) simp_all
  then have "contents base (holder_step pos kv m) = log_step kv (contents base m)"
    by (simp add: holder_step_def log_step_def contents_upd)
  with Cons.IH [of "pos + ?n" "holder_step pos kv m"] Cons.prems r(2) show ?case by simp
qed simp

text \<open>A buffer with a log behind a header or behind given bytes: decoding from the header
  (position zero) or from a position.\<close>

lemma decodeMap_block_seek:
  assumes "0 < pos" and "length pre = pos" and "\<forall>kv \<in> set es. valid_entry kv"
  shows "decodeMap_block decodeMap_entry pos d
      (CodedInputData (pre @ enc_log es) 0 (length (pre @ enc_log es))) =
    Some (None, run_steps enc_entry holder_step pos es d)"
proof -
  let ?s = "CodedInputData (pre @ enc_log es) 0 (length (pre @ enc_log es))"
  have s: "seekIn pos ?s = (Inr (), advance pos ?s)"
    using assms by (simp add: seekIn_def CodedInputData_def advance_def)
  have wf: "in_wf (advance pos ?s)" "remaining (advance pos ?s) = enc_list enc_entry es"
    using assms in_wf_new [of "pre @ enc_log es"] remaining_new [of "pre @ enc_log es"]
    by (simp_all add: in_wf_advance remaining_advance enc_log_def)
  have p: "in_position (advance pos ?s) = pos" by (simp add: CodedInputData_def)
  show ?thesis
    using assms posix.decode_all [OF wf assms(3)] s p by (simp add: decodeMap_block_def)
qed

lemma decodeMap_block_header:
  assumes "reads readInt32 h n" and "\<forall>kv \<in> set es. valid_entry kv"
  shows "decodeMap_block decodeMap_entry 0 d
      (CodedInputData (h @ enc_log es) 0 (length (h @ enc_log es))) =
    Some (None, run_steps enc_entry holder_step (length h) es d)"
proof -
  let ?s = "CodedInputData (h @ enc_log es) 0 (length (h @ enc_log es))"
  have r: "remaining ?s = h @ enc_log es" by (rule remaining_new)
  have s: "bindC readInt32 (\<lambda>_. returnC ()) ?s = (Inr (), advance (length h) ?s)"
    using readsD [OF assms(1) in_wf_new r] by (simp add: bindC_Inr returnC_def)
  have wf: "in_wf (advance (length h) ?s)"
    by (rule in_wf_advance [OF in_wf_new]) (simp only: r, simp)
  have wr: "remaining (advance (length h) ?s) = enc_list enc_entry es"
    unfolding remaining_advance r by (simp add: enc_log_def)
  have p: "in_position (advance (length h) ?s) = length h" by (simp add: CodedInputData_def)
  show ?thesis
    using posix.decode_all [OF wf wr assms(2)] s p by (simp add: decodeMap_block_def)
qed

lemma mem_read_append: "mem_read (pre @ xs) (length pre) (length xs) = xs"
  by (simp add: mem_read_def)
section \<open>Torn logs\<close>

text \<open>More input behind the end: an operation that returns does the same with more input.\<close>

definition extend :: "byte list \<Rightarrow> coded_input \<Rightarrow> coded_input" where
  "extend ext s = s\<lparr>in_mem := in_mem s @ ext, in_size := in_size s + length ext\<rparr>"

definition tight :: "coded_input \<Rightarrow> bool" where
  "tight s \<longleftrightarrow> in_ptr s + in_size s = length (in_mem s)"

definition stable :: "(coded_input, 'a) cpp \<Rightarrow> bool" where
  "stable m \<longleftrightarrow> safe_read m \<and> (\<forall>s ext v t. in_wf s \<longrightarrow> tight s \<longrightarrow> m s = (Inr v, t) \<longrightarrow>
     m (extend ext s) = (Inr v, extend ext t))"

named_theorems stable_intros \<open>operations that read the same from a longer input\<close>

lemma stable_returnC [stable_intros]: "stable (returnC v)"
  by (simp add: stable_def returnC_def safe_read_def)

lemma stable_throwC [stable_intros]: "e \<noteq> MemoryFault \<Longrightarrow> stable (throwC e)"
  by (simp add: stable_def safe_throwC) (simp add: throwC_def)

lemma tight_frame: "tight s \<Longrightarrow> in_frame s t \<Longrightarrow> tight t"
  by (simp add: tight_def in_frame_def)

lemma stable_bindC [stable_intros]:
  assumes "stable m" and "\<And>x. stable (f x)"
  shows "stable (bindC m f)"
  unfolding stable_def
proof (intro conjI allI impI)
  show "safe_read (bindC m f)" using assms by (intro safe_bindC) (auto simp: stable_def)
  fix s ext v t
  assume wf: "in_wf s" and tg: "tight s" and b: "bindC m f s = (Inr v, t)"
  from b obtain x u where m: "m s = (Inr x, u)" and f: "f x u = (Inr v, t)" by (rule bindC_InrE)
  have "safe_read m" using assms(1) by (simp add: stable_def)
  note u = safe_readD [OF this wf m]
  then have "f x (extend ext u) = (Inr v, extend ext t)"
    using assms(2) [of x] f u(2) tight_frame [OF tg u(3)] by (auto simp: stable_def)
  moreover have "m (extend ext s) = (Inr x, extend ext u)"
    using assms(1) wf tg m by (auto simp: stable_def)
  ultimately show "bindC m f (extend ext s) = (Inr v, extend ext t)" by (simp add: bindC_Inr)
qed

lemma stable_if [stable_intros]:
  "(b \<Longrightarrow> stable m) \<Longrightarrow> (\<not> b \<Longrightarrow> stable n) \<Longrightarrow> stable (if b then m else n)"
  by simp

lemma stable_readRawByte [stable_intros]: "stable readRawByte"
  unfolding stable_def
  by (auto simp: safe_readRawByte readRawByte_def extend_def tight_def in_wf_def nth_append
      split: if_splits)

lemma stable_discardUpperBytes [stable_intros]: "stable (discardUpperBytes k r)"
  by (induction k arbitrary: r) (auto intro!: stable_intros)

lemma stable_readRawVarint32 [stable_intros]: "stable readRawVarint32"
  unfolding readRawVarint32_def Let_def by (intro stable_intros)

lemma takeBytes_extend:
  assumes "in_wf s" and "tight s" and "n \<le> in_size s - in_position s"
  shows "takeBytes n (extend ext s) = (fst (takeBytes n s), extend ext (snd (takeBytes n s)))"
proof -
  have "in_ptr s + in_position s + n \<le> length (in_mem s)" using assms by (auto simp: in_wf_def tight_def)
  then show ?thesis
    by (simp add: takeBytes_def extend_def mem_read_def)
qed

lemma safe_pointwise:
  "(\<And>p x. safe_read (f p x)) \<Longrightarrow> safe_read (\<lambda>s. bindC readRawVarint32 (f (in_position s)) s)"
  using safe_bindC [OF safe_readRawVarint32] unfolding safe_read_def by blast

lemma stable_pointwise:
  assumes "\<And>p x. stable (f p x)"
  shows "stable (\<lambda>s. bindC readRawVarint32 (f (in_position s)) s)"
proof -
  have "stable (bindC readRawVarint32 (f p))" for p using assms by (intro stable_intros)
  moreover have "in_position (extend ext s) = in_position s" for ext s by (simp add: extend_def)
  ultimately show ?thesis
    using assms safe_pointwise [of f] unfolding stable_def by simp
qed

lemma stable_delimited:
  assumes "\<And>bs. stable (f bs)"
  shows "stable (\<lambda>s. if n \<le> in_size s - in_position s then bindC (takeBytes n) f s else (Inl OutOfRange, s))"
  unfolding stable_def
proof (intro conjI allI impI)
  show "safe_read (\<lambda>s. if n \<le> in_size s - in_position s then bindC (takeBytes n) f s else (Inl OutOfRange, s))"
    using assms by (intro safe_delimited) (auto simp: stable_def)
  fix s ext v t
  assume wf: "in_wf s" and tg: "tight s"
    and e: "(if n \<le> in_size s - in_position s then bindC (takeBytes n) f s else (Inl OutOfRange, s)) = (Inr v, t)"
  then have n: "n \<le> in_size s - in_position s" and b: "bindC (takeBytes n) f s = (Inr v, t)"
    by (auto split: if_splits)
  from b obtain bs u where m: "takeBytes n s = (Inr bs, u)" and f: "f bs u = (Inr v, t)"
    by (rule bindC_InrE)
  have u: "u = advance n s" using m by (auto simp: takeBytes_def advance_def split: if_splits)
  have "in_wf u" using wf n by (auto simp: u in_wf_def)
  then have "f bs (extend ext u) = (Inr v, extend ext t)"
    using assms [of bs] f tg by (auto simp: stable_def u tight_def)
  moreover have "takeBytes n (extend ext s) = (Inr bs, extend ext u)"
    using takeBytes_extend [OF wf tg n, of ext] m by simp
  moreover have "n \<le> in_size (extend ext s) - in_position (extend ext s)"
    using n by (simp add: extend_def)
  ultimately show "(if n \<le> in_size (extend ext s) - in_position (extend ext s)
      then bindC (takeBytes n) f (extend ext s) else (Inl OutOfRange, extend ext s)) = (Inr v, extend ext t)"
    by (simp add: bindC_Inr)
qed

lemma stable_readStringKV: "stable readStringKV"
  unfolding readStringKV_def Let_def
  by (rule stable_pointwise) (intro stable_intros stable_delimited; simp)

lemma stable_readDataKV: "stable (readDataKV kv)"
proof -
  have "stable (\<lambda>s. if n \<le> in_size s - in_position s
          then (Inr (kv\<lparr>computedKVSize := word_of_nat (in_position s) - ucast (offset kv),
                       valueSize := word_of_nat n\<rparr>),
                s\<lparr>in_position := in_position s + n\<rparr>) else (Inl OutOfRange, s))" for n
    unfolding stable_def safe_read_def
    by (auto simp: extend_def in_wf_def in_frame_def split: if_splits)
  then show ?thesis
    unfolding readDataKV_def Let_def by (intro stable_intros) simp_all
qed

lemma stable_decodeMap_entry: "stable (decodeMap_entry d)"
  unfolding decodeMap_entry_def
  by (auto intro!: stable_intros stable_readStringKV stable_readDataKV split: prod.splits)

lemma decodeMap_entry_torn:
  assumes "valid_entry kv" and "in_wf s" and "tight s" and "remaining s = take n (enc_entry kv)"
    and "n < length (enc_entry kv)"
  shows "\<exists>e t. decodeMap_entry d s = (Inl e, t)"
proof (rule ccontr)
  assume "\<not> (\<exists>e t. decodeMap_entry d s = (Inl e, t))"
  then obtain v t where m: "decodeMap_entry d s = (Inr v, t)"
    by (cases "decodeMap_entry d s"; cases "fst (decodeMap_entry d s)") auto
  let ?ext = "drop n (enc_entry kv)" and ?u = "extend (drop n (enc_entry kv)) s"
  have f: "decodeMap_entry d ?u = (Inr v, extend ?ext t)"
    using stable_decodeMap_entry assms(2,3) m by (auto simp: stable_def)
  have wf: "in_wf ?u" using assms(2) by (simp add: in_wf_def extend_def)
  have "remaining ?u = remaining s @ ?ext"
    using assms(2,3) by (auto simp: remaining_def extend_def mem_read_def tight_def in_wf_def)
  then have r: "remaining ?u = enc_entry kv @ []" using assms(4) by simp
  have "extend ?ext t = advance (length (enc_entry kv)) ?u"
    using decodeMap_entry_step [OF assms(1) wf r, of d] f by simp
  then have "in_position (extend ?ext t) = in_position (advance (length (enc_entry kv)) ?u)"
    by (simp only:)
  then have "in_position t = in_position s + length (enc_entry kv)"
    by (simp add: extend_def)
  moreover have "in_wf t" "in_frame s t"
    using safe_readD [of "decodeMap_entry d" s, OF consumes_imp_safe [OF consumes_decodeMap_entry] assms(2) m]
    by simp_all
  moreover have "in_size s = in_position s + n"
    using length_remaining [OF assms(2)] assms(2,4,5) by (auto simp: in_wf_def)
  ultimately show False using assms(5) by (auto simp: in_wf_def in_frame_def)
qed

lemma decodeMap_block_torn:
  assumes "reads readInt32 h x" and "\<forall>kv \<in> set es. valid_entry kv" and "valid_entry kv"
    and "0 < n" and "n < length (enc_entry kv)"
  defines "oData \<equiv> h @ enc_log es @ take n (enc_entry kv)"
  shows "\<exists>e. e \<noteq> MemoryFault \<and> decodeMap_block decodeMap_entry 0 d (CodedInputData oData 0 (length oData)) =
    Some (Some e, run_steps enc_entry holder_step (length h) es d)"
proof -
  let ?s = "CodedInputData oData 0 (length oData)"
  let ?u = "advance (length h) ?s" and ?v = "advance (length (enc_log es)) (advance (length h) ?s)"
  have r: "remaining ?s = h @ enc_log es @ take n (enc_entry kv)"
    unfolding oData_def by (rule remaining_new)
  have s: "bindC readInt32 (\<lambda>_. returnC ()) ?s = (Inr (), ?u)"
    using readsD [OF assms(1) in_wf_new r] by (simp add: bindC_Inr returnC_def)
  have wf: "in_wf ?u" by (rule in_wf_advance [OF in_wf_new]) (simp add: r)
  have ru: "remaining ?u = enc_list enc_entry es @ take n (enc_entry kv)"
    unfolding remaining_advance r by (simp add: enc_log_def)
  have wv: "in_wf ?v" by (rule in_wf_advance [OF wf]) (simp add: ru enc_log_def)
  have rv: "remaining ?v = take n (enc_entry kv)"
    unfolding remaining_advance r by simp
  have tg: "tight ?v" by (simp add: tight_def CodedInputData_def)
  let ?d = "run_steps enc_entry holder_step (length h) es d"
  obtain e t where m: "decodeMap_entry ?d ?v = (Inl e, t)"
    using decodeMap_entry_torn [OF assms(3) wv tg rv assms(5)] by blast
  have e: "e \<noteq> MemoryFault"
    using safe_readD(1) [of "decodeMap_entry ?d" ?v, OF consumes_imp_safe [OF consumes_decodeMap_entry] wv m]
    by simp
  have "take n (enc_entry kv) \<noteq> []" using assms(4,5) by auto
  then have ne: "\<not> isAtEnd ?v" unfolding isAtEnd_iff [OF wv] rv .
  have "in_position ?u = length h" by (simp add: CodedInputData_def)
  then have "while_not_at_end isAtEnd decodeMap_entry d ?u = Some (Some e, ?d, t)"
    using posix.decode_prefix [OF wf ru assms(2), of d] while_throw [of isAtEnd ?v decodeMap_entry ?d, OF ne m]
    by (simp add: enc_log_def)
  with s e show ?thesis by (simp add: decodeMap_block_def)
qed

section \<open>Encoding a map\<close>

lemma items_bytes_pairs:
  "items_bytes (concat (map (pair_items string_item) vec)) = enc_log vec"
  by (induction vec) (auto simp: items_bytes_def pair_items_def enc_entry_def)

lemma encodeDataWithObject_MMKVVector_eq:
  "encodeDataWithObject_MMKVVector junk vec = encode_result (enc_log (filter (\<lambda>kv. fst kv \<noteq> []) vec))"
proof -
  let ?f = "\<lambda>kv. \<not> length (fst kv) \<le> (0 :: nat)"
  have "prepareObjectForEncode_MMKVVector vec [] =
      (0, packed (concat (map (pair_items string_item) (filter ?f vec))))"
    unfolding prepareObjectForEncode_MMKVVector_def list.size(3)
    by (rule prepare_pairs_packed) (simp add: prepareObjectForEncode_string_def string_item_def)
  moreover have "\<forall>x \<in> set (concat (map (pair_items string_item) (filter ?f vec))). sized x"
    by (auto simp: pair_items_def)
  ultimately show ?thesis
    by (simp add: encodeDataWithObject_MMKVVector_def encode_packed items_bytes_pairs)
qed

text \<open>A log of bounded size is addressable.\<close>

lemma length_enc_data_le: "length (enc_data d) \<le> length d + 5"
  using length_varint_u32 [of "word_of_nat (length d)"] by (simp add: enc_data_def)

lemma addressable_logI:
  assumes "\<forall>kv \<in> set es. valid_entry kv \<and> length (fst kv) < 65526"
    and "pos + length (enc_log es) < 2 ^ 32"
  shows "addressable_log pos es"
  using assms
proof (induction es arbitrary: pos)
  case (Cons kv es)
  have "short (snd kv)" using Cons.prems(1) by (auto simp: valid_entry_def)
  then have "length (enc_data (fst kv)) + length (varint (length (snd kv))) < 2 ^ 16"
    using length_varint_short [of "snd kv"] length_enc_data_le [of "fst kv"] Cons.prems(1) by auto
  then show ?case
    using Cons.prems Cons.IH [of "pos + length (enc_entry kv)"] by (simp add: addressable_def)
qed simp
end
