(* ===== verification/AES.thy ===== *)
theory AES
  imports AESTables
begin

text \<open>
  \<open>openssl_aes_core.cpp\<close>: the AES block cipher by table lookup (the C implementation, which is the
  one compiled where there is no ARM assembly), its key schedules, encryption and decryption of a
  block of sixteen bytes.

  The lemmas reduce each table lookup to the S-box and the column mixing, show that the two column
  mixings invert each other, and conclude that decryption inverts encryption for every key.
\<close>

unbundle bit_operations_syntax

section \<open>Keys and blocks\<close>

record AES_KEY =
  rd_key :: "u32 list"
  rounds :: nat

definition GETU32 :: "byte list \<Rightarrow> nat \<Rightarrow> u32" where
  "GETU32 pt i = push_bit 24 (ucast (pt ! i)) XOR push_bit 16 (ucast (pt ! (i + 1))) XOR
     push_bit 8 (ucast (pt ! (i + 2))) XOR ucast (pt ! (i + 3))"

definition PUTU32 :: "u32 \<Rightarrow> byte list" where
  "PUTU32 st = [ucast (drop_bit 24 st), ucast (drop_bit 16 st), ucast (drop_bit 8 st), ucast st]"

text \<open>The four lookups that make one column, as they occur in a full round and in the last one.\<close>

definition Te_column :: "u32 \<Rightarrow> u32 \<Rightarrow> u32 \<Rightarrow> u32 \<Rightarrow> u32" where
  "Te_column a b c d =
     Te0 ! unat (drop_bit 24 a) XOR Te1 ! unat (drop_bit 16 b AND 0xff) XOR
     Te2 ! unat (drop_bit 8 c AND 0xff) XOR Te3 ! unat (d AND 0xff)"

definition Te_last :: "u32 \<Rightarrow> u32 \<Rightarrow> u32 \<Rightarrow> u32 \<Rightarrow> u32" where
  "Te_last a b c d =
     (Te2 ! unat (drop_bit 24 a) AND 0xff000000) XOR
     (Te3 ! unat (drop_bit 16 b AND 0xff) AND 0x00ff0000) XOR
     (Te0 ! unat (drop_bit 8 c AND 0xff) AND 0x0000ff00) XOR
     (Te1 ! unat (d AND 0xff) AND 0x000000ff)"

definition Td_column :: "u32 \<Rightarrow> u32 \<Rightarrow> u32 \<Rightarrow> u32 \<Rightarrow> u32" where
  "Td_column a b c d =
     Td0 ! unat (drop_bit 24 a) XOR Td1 ! unat (drop_bit 16 b AND 0xff) XOR
     Td2 ! unat (drop_bit 8 c AND 0xff) XOR Td3 ! unat (d AND 0xff)"

definition Td_last :: "u32 \<Rightarrow> u32 \<Rightarrow> u32 \<Rightarrow> u32 \<Rightarrow> u32" where
  "Td_last a b c d =
     push_bit 24 (ucast (Td4 ! unat (drop_bit 24 a))) XOR
     push_bit 16 (ucast (Td4 ! unat (drop_bit 16 b AND 0xff))) XOR
     push_bit 8 (ucast (Td4 ! unat (drop_bit 8 c AND 0xff))) XOR
     ucast (Td4 ! unat (d AND 0xff))"

section \<open>Key schedules\<close>

text \<open>The word that the 128- and 192-bit schedules and the first half of the 256-bit one add
  (rotated, substituted, with the round constant), and the one of the second half (substituted).\<close>

definition schedule_rot :: "u32 \<Rightarrow> nat \<Rightarrow> u32" where
  "schedule_rot temp i =
     (Te2 ! unat (drop_bit 16 temp AND 0xff) AND 0xff000000) XOR
     (Te3 ! unat (drop_bit 8 temp AND 0xff) AND 0x00ff0000) XOR
     (Te0 ! unat (temp AND 0xff) AND 0x0000ff00) XOR
     (Te1 ! unat (drop_bit 24 temp) AND 0x000000ff) XOR
     rcon ! i"

definition schedule_sub :: "u32 \<Rightarrow> u32" where
  "schedule_sub temp =
     (Te2 ! unat (drop_bit 24 temp) AND 0xff000000) XOR
     (Te3 ! unat (drop_bit 16 temp AND 0xff) AND 0x00ff0000) XOR
     (Te0 ! unat (drop_bit 8 temp AND 0xff) AND 0x0000ff00) XOR
     (Te1 ! unat (temp AND 0xff) AND 0x000000ff)"

definition expand_128 :: "u32 list \<Rightarrow> nat \<Rightarrow> u32 list" where
  "expand_128 rd i =
     (let p = 4 * i;
          temp = rd ! (p + 3);
          rd = rd[p + 4 := rd ! p XOR schedule_rot temp i];
          rd = rd[p + 5 := rd ! (p + 1) XOR rd ! (p + 4)];
          rd = rd[p + 6 := rd ! (p + 2) XOR rd ! (p + 5)]
      in rd[p + 7 := rd ! (p + 3) XOR rd ! (p + 6)])"

definition expand_192 :: "u32 list \<Rightarrow> nat \<Rightarrow> u32 list" where
  "expand_192 rd i =
     (let p = 6 * i;
          temp = rd ! (p + 5);
          rd = rd[p + 6 := rd ! p XOR schedule_rot temp i];
          rd = rd[p + 7 := rd ! (p + 1) XOR rd ! (p + 6)];
          rd = rd[p + 8 := rd ! (p + 2) XOR rd ! (p + 7)];
          rd = rd[p + 9 := rd ! (p + 3) XOR rd ! (p + 8)]
      in if i + 1 = 8 then rd
         else let rd = rd[p + 10 := rd ! (p + 4) XOR rd ! (p + 9)]
              in rd[p + 11 := rd ! (p + 5) XOR rd ! (p + 10)])"

definition expand_256 :: "u32 list \<Rightarrow> nat \<Rightarrow> u32 list" where
  "expand_256 rd i =
     (let p = 8 * i;
          temp = rd ! (p + 7);
          rd = rd[p + 8 := rd ! p XOR schedule_rot temp i];
          rd = rd[p + 9 := rd ! (p + 1) XOR rd ! (p + 8)];
          rd = rd[p + 10 := rd ! (p + 2) XOR rd ! (p + 9)];
          rd = rd[p + 11 := rd ! (p + 3) XOR rd ! (p + 10)]
      in if i + 1 = 7 then rd
         else let temp = rd ! (p + 11);
                  rd = rd[p + 12 := rd ! (p + 4) XOR schedule_sub temp];
                  rd = rd[p + 13 := rd ! (p + 5) XOR rd ! (p + 12)];
                  rd = rd[p + 14 := rd ! (p + 6) XOR rd ! (p + 13)]
              in rd[p + 15 := rd ! (p + 7) XOR rd ! (p + 14)])"

definition AES_set_encrypt_key :: "byte list \<Rightarrow> int \<Rightarrow> AES_KEY \<Rightarrow> int \<times> AES_KEY" where
  "AES_set_encrypt_key userKey bits key =
     (if bits \<noteq> 128 \<and> bits \<noteq> 192 \<and> bits \<noteq> 256 then (- 2, key)
      else
        let key = key\<lparr>rounds := if bits = 128 then 10 else if bits = 192 then 12 else 14\<rparr>;
            rk = rd_key key;
            rk = rk[0 := GETU32 userKey 0, 1 := GETU32 userKey 4,
                    2 := GETU32 userKey 8, 3 := GETU32 userKey 12]
        in if bits = 128 then (0, key\<lparr>rd_key := foldl expand_128 rk [0..<10]\<rparr>)
           else
             let rk = rk[4 := GETU32 userKey 16, 5 := GETU32 userKey 20]
             in if bits = 192 then (0, key\<lparr>rd_key := foldl expand_192 rk [0..<8]\<rparr>)
                else
                  let rk = rk[6 := GETU32 userKey 24, 7 := GETU32 userKey 28]
                  in (0, key\<lparr>rd_key := foldl expand_256 rk [0..<7]\<rparr>))"

definition swap_words :: "nat \<Rightarrow> nat \<Rightarrow> u32 list \<Rightarrow> u32 list" where
  "swap_words i j rk = (let temp = rk ! i; rk = rk[i := rk ! j] in rk[j := temp])"

function invert_keys :: "nat \<Rightarrow> nat \<Rightarrow> u32 list \<Rightarrow> u32 list" where
  "invert_keys i j rk =
     (if i < j then
        invert_keys (i + 4) (j - 4)
          (swap_words (i + 3) (j + 3) (swap_words (i + 2) (j + 2)
            (swap_words (i + 1) (j + 1) (swap_words i j rk))))
      else rk)"
  by pat_completeness auto

termination by (relation "measure (\<lambda>(i, j, rk). j - i)") auto

declare invert_keys.simps [simp del]

definition inverse_mix_word :: "u32 \<Rightarrow> u32" where
  "inverse_mix_word w =
     Td0 ! unat (Te1 ! unat (drop_bit 24 w) AND 0xff) XOR
     Td1 ! unat (Te1 ! unat (drop_bit 16 w AND 0xff) AND 0xff) XOR
     Td2 ! unat (Te1 ! unat (drop_bit 8 w AND 0xff) AND 0xff) XOR
     Td3 ! unat (Te1 ! unat (w AND 0xff) AND 0xff)"

definition inverse_mix_key :: "u32 list \<Rightarrow> nat \<Rightarrow> u32 list" where
  "inverse_mix_key rk i =
     (let p = 4 * i;
          rk = rk[p := inverse_mix_word (rk ! p)];
          rk = rk[p + 1 := inverse_mix_word (rk ! (p + 1))];
          rk = rk[p + 2 := inverse_mix_word (rk ! (p + 2))]
      in rk[p + 3 := inverse_mix_word (rk ! (p + 3))])"

definition AES_set_decrypt_key :: "byte list \<Rightarrow> int \<Rightarrow> AES_KEY \<Rightarrow> int \<times> AES_KEY" where
  "AES_set_decrypt_key userKey bits key =
     (let (status, key) = AES_set_encrypt_key userKey bits key
      in if status < 0 then (status, key)
         else
           let rk = invert_keys 0 (4 * rounds key) (rd_key key)
           in (0, key\<lparr>rd_key := foldl inverse_mix_key rk [1..<rounds key]\<rparr>))"

section \<open>Encryption and decryption of a block\<close>

text \<open>The loop runs \<open>rounds / 2\<close> times, two rounds each, and leaves in the middle of its last
  iteration. The key schedules set \<open>rounds\<close> to 10, 12 or 14, so the count is never zero.\<close>

type_synonym aes_state = "u32 \<times> u32 \<times> u32 \<times> u32"

fun encrypt_rounds :: "nat \<Rightarrow> u32 list \<Rightarrow> aes_state \<Rightarrow> aes_state \<times> u32 list" where
  "encrypt_rounds r rk (s0, s1, s2, s3) =
     (let t0 = Te_column s0 s1 s2 s3 XOR rk ! 4;
          t1 = Te_column s1 s2 s3 s0 XOR rk ! 5;
          t2 = Te_column s2 s3 s0 s1 XOR rk ! 6;
          t3 = Te_column s3 s0 s1 s2 XOR rk ! 7;
          rk = drop 8 rk
      in if r \<le> 1 then ((t0, t1, t2, t3), rk)
         else
           let s0 = Te_column t0 t1 t2 t3 XOR rk ! 0;
               s1 = Te_column t1 t2 t3 t0 XOR rk ! 1;
               s2 = Te_column t2 t3 t0 t1 XOR rk ! 2;
               s3 = Te_column t3 t0 t1 t2 XOR rk ! 3
           in encrypt_rounds (r - 1) rk (s0, s1, s2, s3))"

declare encrypt_rounds.simps [simp del]

definition AES_encrypt :: "byte list \<Rightarrow> AES_KEY \<Rightarrow> byte list" where
  "AES_encrypt input key =
     (let rk = rd_key key;
          s0 = GETU32 input 0 XOR rk ! 0;
          s1 = GETU32 input 4 XOR rk ! 1;
          s2 = GETU32 input 8 XOR rk ! 2;
          s3 = GETU32 input 12 XOR rk ! 3;
          ((t0, t1, t2, t3), rk) = encrypt_rounds (rounds key div 2) rk (s0, s1, s2, s3)
      in PUTU32 (Te_last t0 t1 t2 t3 XOR rk ! 0) @ PUTU32 (Te_last t1 t2 t3 t0 XOR rk ! 1) @
         PUTU32 (Te_last t2 t3 t0 t1 XOR rk ! 2) @ PUTU32 (Te_last t3 t0 t1 t2 XOR rk ! 3))"

fun decrypt_rounds :: "nat \<Rightarrow> u32 list \<Rightarrow> aes_state \<Rightarrow> aes_state \<times> u32 list" where
  "decrypt_rounds r rk (s0, s1, s2, s3) =
     (let t0 = Td_column s0 s3 s2 s1 XOR rk ! 4;
          t1 = Td_column s1 s0 s3 s2 XOR rk ! 5;
          t2 = Td_column s2 s1 s0 s3 XOR rk ! 6;
          t3 = Td_column s3 s2 s1 s0 XOR rk ! 7;
          rk = drop 8 rk
      in if r \<le> 1 then ((t0, t1, t2, t3), rk)
         else
           let s0 = Td_column t0 t3 t2 t1 XOR rk ! 0;
               s1 = Td_column t1 t0 t3 t2 XOR rk ! 1;
               s2 = Td_column t2 t1 t0 t3 XOR rk ! 2;
               s3 = Td_column t3 t2 t1 t0 XOR rk ! 3
           in decrypt_rounds (r - 1) rk (s0, s1, s2, s3))"

declare decrypt_rounds.simps [simp del]

definition AES_decrypt :: "byte list \<Rightarrow> AES_KEY \<Rightarrow> byte list" where
  "AES_decrypt input key =
     (let rk = rd_key key;
          s0 = GETU32 input 0 XOR rk ! 0;
          s1 = GETU32 input 4 XOR rk ! 1;
          s2 = GETU32 input 8 XOR rk ! 2;
          s3 = GETU32 input 12 XOR rk ! 3;
          ((t0, t1, t2, t3), rk) = decrypt_rounds (rounds key div 2) rk (s0, s1, s2, s3)
      in PUTU32 (Td_last t0 t3 t2 t1 XOR rk ! 0) @ PUTU32 (Td_last t1 t0 t3 t2 XOR rk ! 1) @
         PUTU32 (Td_last t2 t1 t0 t3 XOR rk ! 2) @ PUTU32 (Td_last t3 t2 t1 t0 XOR rk ! 3))"

section \<open>Lookups as byte operations\<close>

abbreviation B3 :: "u32 \<Rightarrow> byte" where "B3 w \<equiv> ucast (drop_bit 24 w)"
abbreviation B2 :: "u32 \<Rightarrow> byte" where "B2 w \<equiv> ucast (drop_bit 16 w)"
abbreviation B1 :: "u32 \<Rightarrow> byte" where "B1 w \<equiv> ucast (drop_bit 8 w)"
abbreviation B0 :: "u32 \<Rightarrow> byte" where "B0 w \<equiv> ucast w"

definition pack :: "byte \<Rightarrow> byte \<Rightarrow> byte \<Rightarrow> byte \<Rightarrow> u32" where
  "pack p q r s = push_bit 24 (ucast p) XOR push_bit 16 (ucast q) XOR push_bit 8 (ucast r) XOR ucast s"

lemma u32_bit_cases:
  fixes n :: nat
  assumes "n < 32"
  obtains "n < 8" | k where "n = 8 + k" "k < 8" | k where "n = 16 + k" "k < 8" | k where "n = 24 + k" "k < 8"
proof -
  consider "n < 8" | "8 \<le> n" "n < 16" | "16 \<le> n" "n < 24" | "24 \<le> n" using assms by linarith
  then show thesis
  proof cases
    case 2
    then show thesis using that(2) [of "n - 8"] by simp
  next
    case 3
    then show thesis using that(3) [of "n - 16"] by simp
  next
    case 4
    then show thesis using that(4) [of "n - 24"] assms by simp
  qed (use that in blast)
qed

lemma bit_pack:
  "k < 8 \<Longrightarrow> bit (pack p q r s) k \<longleftrightarrow> bit s k" "k < 8 \<Longrightarrow> bit (pack p q r s) (8 + k) \<longleftrightarrow> bit r k"
  "k < 8 \<Longrightarrow> bit (pack p q r s) (16 + k) \<longleftrightarrow> bit q k" "k < 8 \<Longrightarrow> bit (pack p q r s) (24 + k) \<longleftrightarrow> bit p k"
  by (auto simp: pack_def bit_simps dest: bit_imp_le_length)

lemma bytes_pack [simp]:
  "B3 (pack p q r s) = p" "B2 (pack p q r s) = q" "B1 (pack p q r s) = r" "B0 (pack p q r s) = s"
  by (rule bit_word_eqI, simp add: bit_ucast_iff bit_drop_bit_eq bit_pack)+

lemma pack_bytes [simp]: "pack (B3 w) (B2 w) (B1 w) (B0 w) = w"
proof (rule bit_word_eqI)
  fix n assume "n < LENGTH(32)"
  then have "n < 32" by simp
  then show "bit (pack (B3 w) (B2 w) (B1 w) (B0 w)) n \<longleftrightarrow> bit w n"
    by (cases n rule: u32_bit_cases) (simp_all add: bit_pack bit_ucast_iff bit_drop_bit_eq)
qed

lemma GETU32_pack: "GETU32 pt i = pack (pt ! i) (pt ! (i + 1)) (pt ! (i + 2)) (pt ! (i + 3))"
  by (simp add: GETU32_def pack_def)

lemma PUTU32_bytes: "PUTU32 w = [B3 w, B2 w, B1 w, B0 w]"
  by (simp add: PUTU32_def)

lemma and_ff: "w AND 0xff = take_bit 8 (w :: u32)"
  by (simp add: take_bit_eq_mask mask_numeral)

lemma unat_index:
  "unat (drop_bit 24 w) = unat (B3 w)" "unat (drop_bit 16 w AND 0xff) = unat (B2 w)"
  "unat (drop_bit 8 w AND 0xff) = unat (B1 w)" "unat (w AND 0xff) = unat (B0 w)"
proof -
  have "drop_bit 24 w = take_bit 8 (drop_bit 24 w)"
    by (rule bit_word_eqI) (auto simp: bit_simps dest: bit_imp_le_length)
  then have "unat (drop_bit 24 w) = unat (take_bit 8 (drop_bit 24 w))" by (rule arg_cong)
  then show "unat (drop_bit 24 w) = unat (B3 w)"
    unfolding unsigned_ucast_eq unsigned_take_bit_eq by simp
  show "unat (drop_bit 16 w AND 0xff) = unat (B2 w)" "unat (drop_bit 8 w AND 0xff) = unat (B1 w)"
    "unat (w AND 0xff) = unat (B0 w)"
    unfolding and_ff by (simp_all add: unsigned_ucast_eq unsigned_take_bit_eq)
qed

definition sbox :: "byte \<Rightarrow> byte" where "sbox x = ucast (Te1 ! unat x)"
definition isbox :: "byte \<Rightarrow> byte" where "isbox x = Td4 ! unat x"
definition rotb :: "u32 \<Rightarrow> u32" where "rotb w = drop_bit 8 w XOR push_bit 24 w"

lemma unat_byte_less [simp]: "unat (x :: byte) < 256"
  using unsigned_less [of x] by simp

lemma unat_rotb: "unat (rotb w) = rotN (unat w)"
proof -
  have "push_bit 24 w = push_bit 24 (take_bit 8 w)"
    by (rule bit_word_eqI) (auto simp: bit_simps)
  then have "unat (push_bit 24 w) = unat (push_bit 24 (take_bit 8 w))" by (rule arg_cong)
  also have "\<dots> = take_bit 32 (push_bit 24 (take_bit 8 (unat w)))"
    unfolding unsigned_push_bit_eq unsigned_take_bit_eq by simp
  also have "\<dots> = push_bit 24 (take_bit 8 (unat w))"
    by (rule bit_eqI) (auto simp: bit_simps)
  finally have p: "unat (push_bit 24 w) = push_bit 24 (take_bit 8 (unat w))" .
  have "rotN (unat w) = drop_bit 8 (unat w) XOR push_bit 24 (take_bit 8 (unat w))"
    by (simp add: rotN_def drop_bit_eq_div take_bit_eq_mod push_bit_eq_mult)
  then show ?thesis
    unfolding rotb_def unsigned_xor_eq p unat_drop_bit_eq by simp
qed

lemma rotb_nth:
  assumes "map unat B = map rotN (map unat A)" and "length A = 256" and "i < 256"
  shows "B ! i = rotb (A ! i)"
proof -
  have "length B = 256" using arg_cong [OF assms(1), of length] assms(2) by simp
  then have "unat (B ! i) = rotN (unat (A ! i))"
    using arg_cong [OF assms(1), of "\<lambda>l. l ! i"] assms(2,3) by simp
  then show ?thesis by (metis unat_rotb word_unat_eq_iff)
qed

lemma Te_rot: "i < 256 \<Longrightarrow> Te1 ! i = rotb (Te0 ! i)" "i < 256 \<Longrightarrow> Te2 ! i = rotb (Te1 ! i)"
  "i < 256 \<Longrightarrow> Te3 ! i = rotb (Te2 ! i)"
  by (simp_all add: rotb_nth [OF unat_Te1_rot] rotb_nth [OF unat_Te2_rot] rotb_nth [OF unat_Te3_rot]
      length_tables)

lemma Td_rot: "i < 256 \<Longrightarrow> Td1 ! i = rotb (Td0 ! i)" "i < 256 \<Longrightarrow> Td2 ! i = rotb (Td1 ! i)"
  "i < 256 \<Longrightarrow> Td3 ! i = rotb (Td2 ! i)"
  by (simp_all add: rotb_nth [OF unat_Td1_rot] rotb_nth [OF unat_Td2_rot] rotb_nth [OF unat_Td3_rot]
      length_tables)

lemma unat_sbox: "unat (sbox x) = unat (Te1 ! unat x) mod 256"
  by (simp add: sbox_def unsigned_ucast_eq take_bit_eq_mod)

lemma Te0_mix: "Te0 ! unat x = lin mixN (sbox x)"
proof -
  have "unat (Te0 ! unat x) = linN mixN (unat (sbox x))"
    using arg_cong [OF unat_Te0_mix, of "\<lambda>l. l ! unat x"] by (simp add: length_tables unat_sbox)
  then have "word_of_nat (unat (Te0 ! unat x)) = lin mixN (sbox x)"
    by (simp only: lin_def)
  then show ?thesis by simp
qed

lemma Td0_imix: "Td0 ! unat x = lin imixN (isbox x)"
proof -
  have "unat (Td0 ! unat x) = linN imixN (unat (isbox x))"
    using arg_cong [OF unat_Td0_imix, of "\<lambda>l. l ! unat x"] by (simp add: length_tables isbox_def)
  then have "word_of_nat (unat (Td0 ! unat x)) = lin imixN (isbox x)"
    by (simp only: lin_def)
  then show ?thesis by simp
qed

lemma isbox_sbox [simp]: "isbox (sbox x) = x"
proof -
  have "unat (isbox (sbox x)) = unat x"
    using arg_cong [OF unat_Td4_inverse, of "\<lambda>l. l ! unat x"]
    by (simp add: isbox_def unat_sbox length_tables)
  then show ?thesis by (simp only: word_unat_eq_iff)
qed

lemma lin_xor: "lin cs (x XOR y) = lin cs x XOR lin cs y"
proof -
  have "word_of_nat (m XOR n) = (word_of_nat m XOR word_of_nat n :: u32)" for m n
    by (rule bit_word_eqI) (auto simp: bit_simps)
  then show ?thesis by (simp add: lin_def unsigned_xor_eq linN_xor)
qed

lemma rotb_xor: "rotb (x XOR y) = rotb x XOR rotb y"
  by (simp add: rotb_def drop_bit_xor push_bit_xor ac_simps)

lemma bytes_eqI:
  assumes "B3 u = B3 v" and "B2 u = B2 v" and "B1 u = B1 v" and "B0 u = B0 v"
  shows "u = v"
proof -
  have "pack (B3 u) (B2 u) (B1 u) (B0 u) = pack (B3 v) (B2 v) (B1 v) (B0 v)"
    by (simp only: assms)
  then show ?thesis by (simp only: pack_bytes)
qed

lemma bit_rotb:
  "k < 24 \<Longrightarrow> bit (rotb w) k \<longleftrightarrow> bit w (8 + k)" "k < 8 \<Longrightarrow> bit (rotb w) (24 + k) \<longleftrightarrow> bit w k"
  by (auto simp: rotb_def bit_simps dest: bit_imp_le_length)

lemma bytes_rotb [simp]:
  "B3 (rotb w) = B0 w" "B2 (rotb w) = B3 w" "B1 (rotb w) = B2 w" "B0 (rotb w) = B1 w"
  by (rule bit_word_eqI, simp add: bit_ucast_iff bit_drop_bit_eq bit_rotb)+

lemma rotb_4 [simp]: "rotb (rotb (rotb (rotb w))) = w"
  by (rule bytes_eqI) simp_all

lemma rotb_pack: "rotb (pack p q r s) = pack s p q r"
  by (rule bytes_eqI) simp_all

definition mixcol :: "u32 \<Rightarrow> u32" where
  "mixcol w = lin mixN (B3 w) XOR rotb (lin mixN (B2 w)) XOR rotb (rotb (lin mixN (B1 w))) XOR
     rotb (rotb (rotb (lin mixN (B0 w))))"

definition imixcol :: "u32 \<Rightarrow> u32" where
  "imixcol w = lin imixN (B3 w) XOR rotb (lin imixN (B2 w)) XOR rotb (rotb (lin imixN (B1 w))) XOR
     rotb (rotb (rotb (lin imixN (B0 w))))"

lemma Te_column_eq:
  "Te_column a b c d = mixcol (pack (sbox (B3 a)) (sbox (B2 b)) (sbox (B1 c)) (sbox (B0 d)))"
  by (simp add: Te_column_def unat_index mixcol_def Te_rot Te0_mix)

lemma Td_column_eq:
  "Td_column a b c d = imixcol (pack (isbox (B3 a)) (isbox (B2 b)) (isbox (B1 c)) (isbox (B0 d)))"
  by (simp add: Td_column_def unat_index imixcol_def Td_rot Td0_imix)

lemma Td_last_eq: "Td_last a b c d = pack (isbox (B3 a)) (isbox (B2 b)) (isbox (B1 c)) (isbox (B0 d))"
  by (simp add: Td_last_def unat_index pack_def isbox_def)

lemma Te_masks:
  assumes "i = unat x"
  shows "Te2 ! i AND 0xff000000 = push_bit 24 (ucast (sbox x))"
    "Te3 ! i AND 0x00ff0000 = push_bit 16 (ucast (sbox x))"
    "Te0 ! i AND 0x0000ff00 = push_bit 8 (ucast (sbox x))"
    "Te1 ! i AND 0x000000ff = ucast (sbox x)"
proof -
  have m: "(0xff000000 :: u32) = push_bit 24 (mask 8)" "(0x00ff0000 :: u32) = push_bit 16 (mask 8)"
    "(0x0000ff00 :: u32) = push_bit 8 (mask 8)" "(0x000000ff :: u32) = mask 8"
    by (simp_all add: mask_numeral)
  have i: "i < 256" by (simp add: assms)
  note r = Te_rot [OF i] sbox_def assms rotb_def
  have t0: "Te1 ! i = rotb (Te0 ! i)" using Te_rot(1) [OF i] .
  show "Te2 ! i AND 0xff000000 = push_bit 24 (ucast (sbox x))"
    unfolding m Te_rot(2) [OF i] sbox_def assms [symmetric] rotb_def
    by (rule bit_word_eqI) (auto simp: bit_simps dest: bit_imp_le_length)
  show "Te3 ! i AND 0x00ff0000 = push_bit 16 (ucast (sbox x))"
    unfolding m Te_rot(3) [OF i] Te_rot(2) [OF i] sbox_def assms [symmetric] rotb_def
    by (rule bit_word_eqI) (auto simp: bit_simps dest: bit_imp_le_length)
  show "Te0 ! i AND 0x0000ff00 = push_bit 8 (ucast (sbox x))"
    unfolding m sbox_def assms [symmetric] t0 rotb_def
    by (rule bit_word_eqI) (auto simp: bit_simps)
  show "Te1 ! i AND 0x000000ff = ucast (sbox x)"
    unfolding m sbox_def assms [symmetric]
    by (rule bit_word_eqI) (auto simp: bit_simps)
qed

lemma Te_last_eq: "Te_last a b c d = pack (sbox (B3 a)) (sbox (B2 b)) (sbox (B1 c)) (sbox (B0 d))"
  by (simp add: Te_last_def unat_index pack_def Te_masks [OF refl])

lemma inverse_mix_word_eq: "inverse_mix_word w = imixcol w"
proof -
  have "Te1 ! unat x AND 0xff = ucast (sbox x)" for x :: byte using Te_masks(4) [OF refl] .
  moreover have "unat (ucast (sbox x) :: u32) = unat (sbox x)" for x 
    by (simp add: unsigned_ucast_eq take_bit_nat_eq_self less_trans [OF unat_byte_less])
  ultimately show ?thesis
    by (simp add: inverse_mix_word_def unat_index imixcol_def Td_rot Td0_imix)
qed

section \<open>The inverse column mixing\<close>

lemma lin_0 [simp]: "lin cs 0 = 0"
proof -
  have "linN cs 0 = 0" by (induction cs) simp_all
  then show ?thesis by (simp add: lin_def)
qed

lemma linN_less: "\<forall>c \<in> set cs. c < 2 ^ k \<Longrightarrow> linN cs y < 2 ^ k"
proof (induction cs arbitrary: y)
  case (Cons c cs)
  have x: "a XOR b < 2 ^ k" if "a < 2 ^ k" "b < 2 ^ k" for a b :: nat
    using that take_bit_xor [of k a b] take_bit_nat_eq_self_iff [of k "a XOR b"]
    by (simp add: take_bit_nat_eq_self)
  show ?case using Cons by (auto intro!: x)
qed simp

lemma unat_lin: "\<forall>c \<in> set cs. c < 2 ^ 32 \<Longrightarrow> unat (lin cs y) = linN cs (unat y)"
  using linN_less [of cs 32 "unat y"] by (simp add: lin_def unat_of_nat take_bit_nat_eq_self)

lemma unat_imixcol: "unat (imixcol w) = imixcolN (unat w)"
proof -
  have i: "\<forall>c \<in> set imixN. c < 2 ^ 32" by (simp add: imixN_def)
  have b: "unat (B3 w) = unat w div 16777216 mod 256" "unat (B2 w) = unat w div 65536 mod 256"
    "unat (B1 w) = unat w div 256 mod 256" "unat (B0 w) = unat w mod 256"
    unfolding unsigned_ucast_eq unat_drop_bit_eq drop_bit_eq_div [of _ "unat w"]
    by (simp_all add: take_bit_eq_mod)
  have "unat w div 16777216 < 256"
    using unsigned_less [of w] by (simp add: div_less_iff_less_mult)
  then show ?thesis
    by (simp add: imixcol_def imixcolN_def unsigned_xor_eq unat_rotb unat_lin [OF i] b)
qed

lemma imixcol_lin: "imixcol (lin mixN p) = pack p 0 0 0"
proof -
  have m: "\<forall>c \<in> set mixN. c < 2 ^ 32" by (simp add: mixN_def)
  have "unat (imixcol (lin mixN p)) = unat p * 16777216"
    by (simp add: unat_imixcol unat_lin [OF m] imixcolN_mixN)
  also have "\<dots> = unat (pack p 0 0 0)"
  proof -
    have "pack p 0 0 0 = word_of_nat (unat p * 16777216)"
      by (simp add: pack_def push_bit_eq_mult)
    then show ?thesis
      using unat_byte_less [of p] by (simp add: unat_of_nat take_bit_nat_eq_self del: of_nat_mult)
  qed
  finally show ?thesis by (simp only: word_unat_eq_iff)
qed

lemma imixcol_xor: "imixcol (x XOR y) = imixcol x XOR imixcol y"
proof -
  have "B3 (x XOR y) = B3 x XOR B3 y" "B2 (x XOR y) = B2 x XOR B2 y"
    "B1 (x XOR y) = B1 x XOR B1 y" "B0 (x XOR y) = B0 x XOR B0 y"
    by (rule bit_word_eqI, auto simp: bit_simps)+
  then show ?thesis by (simp add: imixcol_def lin_xor rotb_xor ac_simps)
qed

lemma imixcol_rotb: "imixcol (rotb w) = rotb (imixcol w)"
  by (simp add: imixcol_def rotb_xor ac_simps)

lemma pack_0: "pack p 0 0 0 XOR pack 0 q 0 0 XOR pack 0 0 r 0 XOR pack 0 0 0 s = pack p q r s"
  by (simp add: pack_def ac_simps)

theorem imixcol_mixcol: "imixcol (mixcol w) = w"
proof -
  have "imixcol (mixcol w) = pack (B3 w) 0 0 0 XOR pack 0 (B2 w) 0 0 XOR pack 0 0 (B1 w) 0 XOR pack 0 0 0 (B0 w)"
    by (simp add: mixcol_def imixcol_xor imixcol_rotb imixcol_lin rotb_pack)
  also have "\<dots> = w" by (simp only: pack_0 pack_bytes)
  finally show ?thesis .
qed

section \<open>Rounds\<close>

definition xor_state :: "aes_state \<Rightarrow> aes_state \<Rightarrow> aes_state" where
  "xor_state s k = (case (s, k) of ((s0, s1, s2, s3), (k0, k1, k2, k3)) \<Rightarrow>
     (s0 XOR k0, s1 XOR k1, s2 XOR k2, s3 XOR k3))"

definition map_state :: "(u32 \<Rightarrow> u32) \<Rightarrow> aes_state \<Rightarrow> aes_state" where
  "map_state f s = (case s of (s0, s1, s2, s3) \<Rightarrow> (f s0, f s1, f s2, f s3))"

text \<open>Substituting the bytes and shifting the rows, and the inverse.\<close>

definition sub_shift :: "aes_state \<Rightarrow> aes_state" where
  "sub_shift s = (case s of (s0, s1, s2, s3) \<Rightarrow>
     (pack (sbox (B3 s0)) (sbox (B2 s1)) (sbox (B1 s2)) (sbox (B0 s3)),
      pack (sbox (B3 s1)) (sbox (B2 s2)) (sbox (B1 s3)) (sbox (B0 s0)),
      pack (sbox (B3 s2)) (sbox (B2 s3)) (sbox (B1 s0)) (sbox (B0 s1)),
      pack (sbox (B3 s3)) (sbox (B2 s0)) (sbox (B1 s1)) (sbox (B0 s2))))"

definition inv_sub_shift :: "aes_state \<Rightarrow> aes_state" where
  "inv_sub_shift s = (case s of (s0, s1, s2, s3) \<Rightarrow>
     (pack (isbox (B3 s0)) (isbox (B2 s3)) (isbox (B1 s2)) (isbox (B0 s1)),
      pack (isbox (B3 s1)) (isbox (B2 s0)) (isbox (B1 s3)) (isbox (B0 s2)),
      pack (isbox (B3 s2)) (isbox (B2 s1)) (isbox (B1 s0)) (isbox (B0 s3)),
      pack (isbox (B3 s3)) (isbox (B2 s2)) (isbox (B1 s1)) (isbox (B0 s0))))"

lemma inv_sub_shift [simp]: "inv_sub_shift (sub_shift s) = s"
  by (cases s) (simp only: sub_shift_def inv_sub_shift_def prod.case bytes_pack isbox_sbox pack_bytes)

lemma xor_state_cancel [simp]: "xor_state (xor_state s k) k = s"
  by (cases s; cases k) (simp add: xor_state_def xor.assoc)

lemma imix_mix_state [simp]: "map_state imixcol (map_state mixcol s) = s"
  by (cases s) (simp add: map_state_def imixcol_mixcol)

lemma imix_xor_state: "map_state imixcol (xor_state s k) = xor_state (map_state imixcol s) (map_state imixcol k)"
  by (cases s; cases k) (simp add: map_state_def xor_state_def imixcol_xor)

text \<open>The round key \<open>i\<close> of a schedule, the states between the rounds, and the last round.\<close>

definition round_key :: "u32 list \<Rightarrow> nat \<Rightarrow> aes_state" where
  "round_key rd i = (rd ! (4 * i), rd ! (4 * i + 1), rd ! (4 * i + 2), rd ! (4 * i + 3))"

definition enc_round :: "aes_state \<Rightarrow> aes_state \<Rightarrow> aes_state" where
  "enc_round s k = xor_state (map_state mixcol (sub_shift s)) k"

definition dec_round :: "aes_state \<Rightarrow> aes_state \<Rightarrow> aes_state" where
  "dec_round s k = xor_state (map_state imixcol (inv_sub_shift s)) k"

fun enc_state :: "u32 list \<Rightarrow> aes_state \<Rightarrow> nat \<Rightarrow> aes_state" where
  "enc_state rd s 0 = xor_state s (round_key rd 0)"
| "enc_state rd s (Suc i) = enc_round (enc_state rd s i) (round_key rd (Suc i))"

fun dec_state :: "u32 list \<Rightarrow> aes_state \<Rightarrow> nat \<Rightarrow> aes_state" where
  "dec_state rd s 0 = xor_state s (round_key rd 0)"
| "dec_state rd s (Suc i) = dec_round (dec_state rd s i) (round_key rd (Suc i))"

lemma Te_columns:
  "(Te_column s0 s1 s2 s3 XOR k0, Te_column s1 s2 s3 s0 XOR k1,
    Te_column s2 s3 s0 s1 XOR k2, Te_column s3 s0 s1 s2 XOR k3) =
   enc_round (s0, s1, s2, s3) (k0, k1, k2, k3)"
  by (simp add: enc_round_def xor_state_def map_state_def sub_shift_def Te_column_eq)

lemma Td_columns:
  "(Td_column s0 s3 s2 s1 XOR k0, Td_column s1 s0 s3 s2 XOR k1,
    Td_column s2 s1 s0 s3 XOR k2, Td_column s3 s2 s1 s0 XOR k3) =
   dec_round (s0, s1, s2, s3) (k0, k1, k2, k3)"
  by (simp add: dec_round_def xor_state_def map_state_def inv_sub_shift_def Td_column_eq)

lemma encrypt_rounds_unfold:
  "encrypt_rounds r rk s =
    (let t = enc_round s (rk ! 4, rk ! 5, rk ! 6, rk ! 7); rk = drop 8 rk
     in if r \<le> 1 then (t, rk)
        else encrypt_rounds (r - 1) rk (enc_round t (rk ! 0, rk ! 1, rk ! 2, rk ! 3)))"
  by (cases s) (simp add: encrypt_rounds.simps [of r] Let_def Te_columns [symmetric] cong: if_cong)

lemma decrypt_rounds_unfold:
  "decrypt_rounds r rk s =
    (let t = dec_round s (rk ! 4, rk ! 5, rk ! 6, rk ! 7); rk = drop 8 rk
     in if r \<le> 1 then (t, rk)
        else decrypt_rounds (r - 1) rk (dec_round t (rk ! 0, rk ! 1, rk ! 2, rk ! 3)))"
  by (cases s) (simp add: decrypt_rounds.simps [of r] Let_def Td_columns [symmetric] cong: if_cong)

lemma round_key_drop:
  assumes "8 * j + 12 \<le> length rd"
  shows "(drop (8 * j) rd ! 4, drop (8 * j) rd ! 5, drop (8 * j) rd ! 6, drop (8 * j) rd ! 7) =
      round_key rd (Suc (2 * j))"
    and "(drop (8 * j) rd ! 0, drop (8 * j) rd ! 1, drop (8 * j) rd ! 2, drop (8 * j) rd ! 3) =
      round_key rd (2 * j)"
  using assms by (simp_all add: round_key_def ac_simps)

text \<open>Either loop, from any of its iterations, given the states between the rounds.\<close>

lemma rounds_eq:
  fixes loop :: "nat \<Rightarrow> u32 list \<Rightarrow> aes_state \<Rightarrow> aes_state \<times> u32 list"
  assumes unfold: "\<And>r rk s. loop r rk s =
      (let t = rnd s (rk ! 4, rk ! 5, rk ! 6, rk ! 7); rk = drop 8 rk
       in if r \<le> 1 then (t, rk) else loop (r - 1) rk (rnd t (rk ! 0, rk ! 1, rk ! 2, rk ! 3)))"
    and st: "\<And>i. st (Suc i) = rnd (st i) (round_key rd (Suc i))"
    and "1 \<le> r" and "8 * (j + r) + 4 \<le> length rd"
  shows "loop r (drop (8 * j) rd) (st (2 * j)) = (st (2 * (j + r) - 1), drop (8 * (j + r)) rd)"
  using assms(3,4)
proof (induction r arbitrary: j)
  case (Suc r)
  have l: "8 * j + 12 \<le> length rd" using Suc.prems(2) by simp
  have d: "drop 8 (drop (8 * j) rd) = drop (8 * Suc j) rd" by (simp add: add.commute)
  have t: "rnd (st (2 * j)) (round_key rd (Suc (2 * j))) = st (Suc (2 * j))" by (simp add: st)
  show ?case
  proof (cases "r = 0")
    case True
    then show ?thesis
      by (subst unfold) (simp only: round_key_drop [OF l] t d Let_def, simp)
  next
    case False
    then have l': "8 * Suc j + 12 \<le> length rd" using Suc.prems(2) by simp
    have e: "rnd (st (Suc (2 * j))) (round_key rd (2 * Suc j)) = st (2 * Suc j)" by (simp add: st)
    have "loop (Suc r) (drop (8 * j) rd) (st (2 * j)) = loop r (drop (8 * Suc j) rd) (st (2 * Suc j))"
      using False
      by (subst unfold) (simp only: round_key_drop(1) [OF l] round_key_drop(2) [OF l'] t e d Let_def, simp)
    then show ?thesis using Suc.IH [of "Suc j"] Suc.prems False by simp
  qed
qed simp

lemmas encrypt_rounds_eq = rounds_eq [of encrypt_rounds enc_round "enc_state rd s" rd for rd s,
    OF encrypt_rounds_unfold enc_state.simps(2)]

lemmas decrypt_rounds_eq = rounds_eq [of decrypt_rounds dec_round "dec_state rd s" rd for rd s,
    OF decrypt_rounds_unfold dec_state.simps(2)]

section \<open>Blocks\<close>

definition load_block :: "byte list \<Rightarrow> aes_state" where
  "load_block b = (GETU32 b 0, GETU32 b 4, GETU32 b 8, GETU32 b 12)"

definition store_block :: "aes_state \<Rightarrow> byte list" where
  "store_block s = (case s of (s0, s1, s2, s3) \<Rightarrow> PUTU32 s0 @ PUTU32 s1 @ PUTU32 s2 @ PUTU32 s3)"

lemma length_store_block [simp]: "length (store_block s) = 16"
  by (cases s) (simp add: store_block_def PUTU32_def)

lemma load_store_block [simp]: "load_block (store_block s) = s"
proof (cases s)
  case (fields s0 s1 s2 s3)
  then show ?thesis
    by (simp add: load_block_def store_block_def GETU32_pack PUTU32_bytes)
qed

lemma store_load_block:
  assumes "length b = 16"
  shows "store_block (load_block b) = b"
proof -
  have "PUTU32 (GETU32 b i) = [b ! i, b ! (i + 1), b ! (i + 2), b ! (i + 3)]" for i
    unfolding PUTU32_bytes GETU32_pack bytes_pack ..
  moreover have "[0..<16] = [0, 1, 2, 3, 4, 5, 6, 7, 8, 9, 10, 11, 12, 13, 14, 15]"
    by (simp add: upt_rec)
  ultimately have "store_block (load_block b) = map ((!) b) [0..<16]"
    by (simp add: store_block_def load_block_def numeral_2_eq_2)
  also have "\<dots> = b" using assms map_nth [of b] by simp
  finally show ?thesis .
qed

definition enc_last :: "aes_state \<Rightarrow> aes_state \<Rightarrow> aes_state" where
  "enc_last s k = xor_state (sub_shift s) k"

definition dec_last :: "aes_state \<Rightarrow> aes_state \<Rightarrow> aes_state" where
  "dec_last s k = xor_state (inv_sub_shift s) k"

lemma load_xor_key0:
  "(GETU32 b 0 XOR rk ! 0, GETU32 b 4 XOR rk ! 1, GETU32 b 8 XOR rk ! 2, GETU32 b 12 XOR rk ! 3) =
   xor_state (load_block b) (round_key rk 0)"
  by (simp add: xor_state_def load_block_def round_key_def numeral_2_eq_2)

lemma AES_encrypt_states:
  assumes "rounds key = 2 * h" and "1 \<le> h" and "8 * h + 4 \<le> length (rd_key key)"
  shows "AES_encrypt b key = store_block
    (enc_last (enc_state (rd_key key) (load_block b) (2 * h - 1)) (round_key (rd_key key) (2 * h)))"
proof -
  let ?rk = "rd_key key"
  obtain t0 t1 t2 t3 where t: "enc_state ?rk (load_block b) (2 * h - 1) = (t0, t1, t2, t3)"
    by (cases "enc_state ?rk (load_block b) (2 * h - 1)")
  have e: "encrypt_rounds h ?rk (xor_state (load_block b) (round_key ?rk 0)) =
      ((t0, t1, t2, t3), drop (8 * h) ?rk)"
    using encrypt_rounds_eq [of h 0 ?rk "load_block b"] assms t by simp
  have k: "round_key ?rk (2 * h) =
      (drop (8 * h) ?rk ! 0, drop (8 * h) ?rk ! 1, drop (8 * h) ?rk ! 2, drop (8 * h) ?rk ! 3)"
    using assms(3) by (simp add: round_key_def ac_simps)
  have h: "rounds key div 2 = h" using assms(1) by simp
  show ?thesis
    unfolding AES_encrypt_def Let_def h load_xor_key0 e prod.case k t enc_last_def
    by (simp add: xor_state_def sub_shift_def store_block_def Te_last_eq)
qed

lemma AES_decrypt_states:
  assumes "rounds key = 2 * h" and "1 \<le> h" and "8 * h + 4 \<le> length (rd_key key)"
  shows "AES_decrypt b key = store_block
    (dec_last (dec_state (rd_key key) (load_block b) (2 * h - 1)) (round_key (rd_key key) (2 * h)))"
proof -
  let ?rk = "rd_key key"
  obtain t0 t1 t2 t3 where t: "dec_state ?rk (load_block b) (2 * h - 1) = (t0, t1, t2, t3)"
    by (cases "dec_state ?rk (load_block b) (2 * h - 1)")
  have e: "decrypt_rounds h ?rk (xor_state (load_block b) (round_key ?rk 0)) =
      ((t0, t1, t2, t3), drop (8 * h) ?rk)"
    using decrypt_rounds_eq [of h 0 ?rk "load_block b"] assms t by simp
  have k: "round_key ?rk (2 * h) =
      (drop (8 * h) ?rk ! 0, drop (8 * h) ?rk ! 1, drop (8 * h) ?rk ! 2, drop (8 * h) ?rk ! 3)"
    using assms(3) by (simp add: round_key_def ac_simps)
  have h: "rounds key div 2 = h" using assms(1) by simp
  show ?thesis
    unfolding AES_decrypt_def Let_def h load_xor_key0 e prod.case k t dec_last_def
    by (simp add: xor_state_def inv_sub_shift_def store_block_def Td_last_eq)
qed

text \<open>Schedules that belong together: the decryption schedule is the encryption schedule backwards,
  with the inverse column mixing applied to all round keys but the first and the last.\<close>

definition inverse_schedule :: "nat \<Rightarrow> u32 list \<Rightarrow> u32 list \<Rightarrow> bool" where
  "inverse_schedule n rk dk \<longleftrightarrow> (\<forall>i \<le> n. round_key dk i =
     (if i = 0 \<or> i = n then round_key rk (n - i) else map_state imixcol (round_key rk (n - i))))"

lemma dec_state_inverts:
  assumes "inverse_schedule n rk dk" and "i < n"
  shows "dec_state dk (enc_last (enc_state rk s (n - 1)) (round_key rk n)) i =
    sub_shift (enc_state rk s (n - 1 - i))"
  using assms(2)
proof (induction i)
  case 0
  then show ?case using assms(1) by (simp add: enc_last_def inverse_schedule_def)
next
  case (Suc i)
  have k: "round_key dk (Suc i) = map_state imixcol (round_key rk (n - Suc i))"
    using assms(1) Suc.prems by (simp add: inverse_schedule_def)
  obtain m where n: "n = Suc (Suc i + m)"
    using less_imp_Suc_add [OF Suc.prems] by blast
  have m: "n - 1 - i = Suc m" "n - Suc i = Suc m" "n - 1 - Suc i = m" "n - Suc (Suc i) = m"
    by (simp_all add: n)
  have "inv_sub_shift (sub_shift (enc_state rk s (Suc m))) = enc_state rk s (Suc m)" by simp
  then show ?case
    using Suc.IH Suc.prems
    by (simp add: m k dec_round_def enc_round_def imix_xor_state)
qed

theorem AES_decrypt_encrypt_schedules:
  assumes "rounds ek = 2 * h" and "rounds dk = 2 * h" and "1 \<le> h"
    and "8 * h + 4 \<le> length (rd_key ek)" and "8 * h + 4 \<le> length (rd_key dk)"
    and "inverse_schedule (2 * h) (rd_key ek) (rd_key dk)" and "length b = 16"
  shows "AES_decrypt (AES_encrypt b ek) dk = b"
proof -
  let ?s = "load_block b"
  have i: "2 * h - 1 < 2 * h" using assms(3) by simp
  have k: "round_key (rd_key dk) (2 * h) = round_key (rd_key ek) 0"
    using assms(6) by (simp add: inverse_schedule_def)
  have "AES_decrypt (AES_encrypt b ek) dk = store_block (dec_last
      (sub_shift (enc_state (rd_key ek) ?s 0)) (round_key (rd_key ek) 0))"
    using dec_state_inverts [OF assms(6) i, of ?s]
    by (simp add: AES_encrypt_states [OF assms(1,3,4)] AES_decrypt_states [OF assms(2,3,5)] k)
  also have "\<dots> = b" by (simp add: dec_last_def store_load_block assms(7))
  finally show ?thesis .
qed
section \<open>The two schedules of a key belong together\<close>

definition swap_round_keys :: "nat \<Rightarrow> nat \<Rightarrow> u32 list \<Rightarrow> u32 list" where
  "swap_round_keys i j rk =
     swap_words (i + 3) (j + 3) (swap_words (i + 2) (j + 2) (swap_words (i + 1) (j + 1) (swap_words i j rk)))"

lemma length_swap [simp]: "length (swap_words i j rk) = length rk" "length (swap_round_keys i j rk) = length rk"
  by (simp_all add: swap_words_def swap_round_keys_def Let_def)

lemma nth_swap_words:
  "i < length rk \<Longrightarrow> j < length rk \<Longrightarrow>
   swap_words i j rk ! k = (if k = j then rk ! i else if k = i then rk ! j else rk ! k)"
  by (auto simp: swap_words_def Let_def nth_list_update)

lemma mod_4_eq:
  fixes a x :: nat
  assumes "c < 4" and "d < 4"
  shows "4 * a + c = 4 * x + d \<longleftrightarrow> a = x \<and> c = d"
  using assms by presburger

lemma nth_swap_round_keys:
  assumes "4 * y + 3 < length rk" and "4 * x + 3 < length rk" and "c < 4"
  shows "swap_round_keys (4 * x) (4 * y) rk ! (4 * a + c) =
    (if a = y then rk ! (4 * x + c) else if a = x then rk ! (4 * y + c) else rk ! (4 * a + c))"
proof -
  note e = mod_4_eq [OF assms(3), of 0] mod_4_eq [OF assms(3), of 1] mod_4_eq [OF assms(3), of 2]
    mod_4_eq [OF assms(3), of 3]
  consider "c = 0" | "c = 1" | "c = 2" | "c = 3" using assms(3) by linarith
  then show ?thesis
    using assms(1,2) e
    by cases (simp_all add: swap_round_keys_def nth_swap_words)
qed

lemma round_key_swap:
  assumes "4 * y + 3 < length rk" and "4 * x + 3 < length rk"
  shows "round_key (swap_round_keys (4 * x) (4 * y) rk) a =
    (if a = y then round_key rk x else if a = x then round_key rk y else round_key rk a)"
  using nth_swap_round_keys [OF assms, of 0 a] nth_swap_round_keys [OF assms, of 1 a]
    nth_swap_round_keys [OF assms, of 2 a] nth_swap_round_keys [OF assms, of 3 a]
  by (simp add: round_key_def)

lemma invert_keys_step:
  "invert_keys i j rk = (if i < j then invert_keys (i + 4) (j - 4) (swap_round_keys i j rk) else rk)"
  by (subst invert_keys.simps) (simp add: swap_round_keys_def)

lemma length_invert_keys [simp]: "length (invert_keys i j rk) = length rk"
  by (induction i j rk rule: invert_keys.induct) (subst invert_keys.simps, simp)

lemma round_key_invert:
  assumes "4 * y + 3 < length rk"
  shows "round_key (invert_keys (4 * x) (4 * y) rk) a =
    (if x \<le> a \<and> a \<le> y then round_key rk (x + y - a) else round_key rk a)"
  using assms
proof (induction "y - x" arbitrary: x y rk rule: less_induct)
  case less
  show ?case
  proof (cases "x < y")
    case True
    then have "invert_keys (4 * x) (4 * y) rk =
        invert_keys (4 * (x + 1)) (4 * (y - 1)) (swap_round_keys (4 * x) (4 * y) rk)"
      by (subst invert_keys_step) (simp add: algebra_simps diff_mult_distrib2)
    moreover have "round_key (invert_keys (4 * (x + 1)) (4 * (y - 1)) (swap_round_keys (4 * x) (4 * y) rk)) a =
        (if x + 1 \<le> a \<and> a \<le> y - 1 then round_key (swap_round_keys (4 * x) (4 * y) rk) (x + 1 + (y - 1) - a)
         else round_key (swap_round_keys (4 * x) (4 * y) rk) a)"
      using less.prems True by (intro less.hyps) auto
    ultimately show ?thesis
      using True less.prems by (auto simp: round_key_swap)
  next
    case False
    then have "x \<le> a \<Longrightarrow> a \<le> y \<Longrightarrow> x + y - a = a" by simp
    with False show ?thesis by (subst invert_keys_step) simp
  qed
qed

lemma length_inverse_mix_key [simp]: "length (inverse_mix_key rk i) = length rk"
  by (simp add: inverse_mix_key_def Let_def)

lemma round_key_inverse_mix:
  assumes "4 * i + 3 < length rk"
  shows "round_key (inverse_mix_key rk i) a =
    (if a = i then map_state imixcol (round_key rk i) else round_key rk a)"
proof -
  have e: "4 * a + c = 4 * i + d \<longleftrightarrow> a = i \<and> c = d" if "c < 4" "d < 4" for c d
    using that by (rule mod_4_eq)
  show ?thesis
    using assms e [of 0 0] e [of 0 1] e [of 0 2] e [of 0 3] e [of 1 0] e [of 1 1] e [of 1 2] e [of 1 3]
      e [of 2 0] e [of 2 1] e [of 2 2] e [of 2 3] e [of 3 0] e [of 3 1] e [of 3 2] e [of 3 3]
    by (simp add: round_key_def inverse_mix_key_def Let_def nth_list_update map_state_def
        inverse_mix_word_eq)
qed

lemma foldl_inverse_mix:
  assumes "4 * n + 3 < length rk"
  shows "round_key (foldl inverse_mix_key rk [1..<n]) a =
      (if 1 \<le> a \<and> a < n then map_state imixcol (round_key rk a) else round_key rk a) \<and>
    length (foldl inverse_mix_key rk [1..<n]) = length rk"
  using assms
proof (induction n)
  case (Suc n)
  show ?case
  proof (cases "n = 0")
    case False
    then have "[1..<Suc n] = [1..<n] @ [n]" by simp
    then show ?thesis
      using Suc by (auto simp: round_key_inverse_mix)
  qed auto
qed simp

lemma length_expand [simp]:
  "length (expand_128 rd i) = length rd" "length (expand_192 rd i) = length rd"
  "length (expand_256 rd i) = length rd"
  by (simp_all add: expand_128_def expand_192_def expand_256_def Let_def)

lemma length_foldl_same:
  "(\<And>xs i. length (f xs i) = length xs) \<Longrightarrow> length (foldl f xs is) = length (xs :: 'a list)"
  by (induction "is" arbitrary: xs) simp_all

lemma AES_set_encrypt_key_ok:
  assumes "bits = 128 \<or> bits = 192 \<or> bits = 256"
  shows "fst (AES_set_encrypt_key userKey bits key) = 0"
    and "length (rd_key (snd (AES_set_encrypt_key userKey bits key))) = length (rd_key key)"
    and "rounds (snd (AES_set_encrypt_key userKey bits key)) =
      (if bits = 128 then 10 else if bits = 192 then 12 else 14)"
  using assms by (auto simp: AES_set_encrypt_key_def Let_def length_foldl_same)

lemma AES_schedules:
  fixes userKey :: "byte list" and key :: AES_KEY
  assumes "bits = 128 \<or> bits = 192 \<or> bits = 256" and "60 \<le> length (rd_key key)"
  defines "ek \<equiv> snd (AES_set_encrypt_key userKey bits key)"
    and "dk \<equiv> snd (AES_set_decrypt_key userKey bits key)"
  shows "\<exists>h. 1 \<le> h \<and> rounds ek = 2 * h \<and> rounds dk = 2 * h \<and> 8 * h + 4 \<le> length (rd_key ek) \<and>
    8 * h + 4 \<le> length (rd_key dk) \<and> inverse_schedule (2 * h) (rd_key ek) (rd_key dk)"
proof -
  note ok = AES_set_encrypt_key_ok [OF assms(1), of userKey key, folded ek_def]
  let ?inv = "invert_keys 0 (4 * rounds ek) (rd_key ek)"
  have dk: "rounds dk = rounds ek" "rd_key dk = foldl inverse_mix_key ?inv [1..<rounds ek]"
    using ok(1) by (auto simp: dk_def ek_def AES_set_decrypt_key_def Let_def split: prod.splits)
  have l: "4 * rounds ek + 3 < length (rd_key ek)" "rounds ek = 2 * (rounds ek div 2)" "1 \<le> rounds ek div 2"
    using ok assms(1,2) by auto
  have "inverse_schedule (rounds ek) (rd_key ek) (rd_key dk)"
    unfolding inverse_schedule_def
  proof (intro allI impI)
    fix i assume i: "i \<le> rounds ek"
    have "round_key ?inv i = round_key (rd_key ek) (rounds ek - i)"
      using round_key_invert [of "rounds ek" "rd_key ek" 0 i] l(1) i by simp
    then show "round_key (rd_key dk) i = (if i = 0 \<or> i = rounds ek
        then round_key (rd_key ek) (rounds ek - i)
        else map_state imixcol (round_key (rd_key ek) (rounds ek - i)))"
      using foldl_inverse_mix [of "rounds ek" ?inv i] l(1) i by (auto simp: dk)
  qed
  moreover have "length (rd_key dk) = length (rd_key ek)"
    using foldl_inverse_mix [of "rounds ek" ?inv 0] l(1) by (simp add: dk)
  ultimately show ?thesis
    using l dk(1) by (intro exI [of _ "rounds ek div 2"]) auto
qed
end
