(* ===== verification/CFB.thy ===== *)
theory CFB
  imports Prelude
begin

text \<open>
  \<open>openssl_cfb128.cpp\<close> and \<open>Rollback_cfb_decrypt\<close> of \<open>AESCrypt.cpp\<close>: 128-bit cipher feedback over a
  block cipher. The block functions are parameters (\<open>E\<close> encrypts a block of sixteen bytes, \<open>D\<close>
  decrypts one): the repository has them in C and, for ARM, in assembly.

  The state is the feedback vector and the number of its bytes that are used. Input and output are
  lists: each step reads its input bytes before it writes the output bytes of the same place, so
  working in place gives the same bytes.

  The three loops of each function (the rest of the current block, whole blocks eight bytes at a
  time, the beginning of a last block) are shown to be a bytewise step repeated; the properties are
  proved of the step: decryption inverts encryption and both leave the same state, a stream may be
  cut anywhere, and rolling back undoes decryption.
\<close>

unbundle bit_operations_syntax

record cfb_state =
  ivec :: "byte list"
  num :: nat

section \<open>The functions\<close>

text \<open>\<open>xor_bytes\<close> and \<open>xor_words\<close> are the bodies of the loops that run over bytes and over
  \<open>size_t\<close> words of eight bytes.\<close>

definition xor_list :: "byte list \<Rightarrow> byte list \<Rightarrow> byte list" where
  "xor_list xs ys = map2 (XOR) xs ys"

fun encrypt_head :: "byte list \<Rightarrow> byte list \<Rightarrow> nat \<Rightarrow> byte list \<times> byte list \<times> byte list \<times> nat" where
  "encrypt_head [] iv n = ([], [], iv, n)"
| "encrypt_head (x # input) iv n =
     (if n = 0 then ([], x # input, iv, n)
      else
        let y = iv ! n XOR x;
            (output, rest, iv, n) = encrypt_head input (iv[n := y]) ((n + 1) mod 16)
        in (y # output, rest, iv, n))"

function encrypt_words :: "byte list \<Rightarrow> byte list \<Rightarrow> nat \<Rightarrow> byte list" where
  "encrypt_words input iv n =
     (if n < 16
      then encrypt_words input (mem_write iv n (xor_list (mem_read iv n 8) (mem_read input n 8))) (n + 8)
      else iv)"
  by pat_completeness auto

termination by (relation "measure (\<lambda>(input, iv, n). 16 - n)") auto

declare encrypt_words.simps [simp del]

function encrypt_blocks ::
  "(byte list \<Rightarrow> byte list) \<Rightarrow> byte list \<Rightarrow> byte list \<Rightarrow> nat \<Rightarrow> byte list \<times> byte list \<times> byte list \<times> nat" where
  "encrypt_blocks E input iv n =
     (if 16 \<le> length input then
        let iv = encrypt_words input (E iv) n;
            (output, rest, iv', n') = encrypt_blocks E (drop 16 input) iv 0
        in (drop n iv @ output, rest, iv', n')
      else ([], input, iv, n))"
  by pat_completeness auto

termination by (relation "measure (\<lambda>(E, input, iv, n). length input)") auto

declare encrypt_blocks.simps [simp del]

fun encrypt_tail :: "byte list \<Rightarrow> byte list \<Rightarrow> nat \<Rightarrow> byte list \<times> byte list \<times> nat" where
  "encrypt_tail [] iv n = ([], iv, n)"
| "encrypt_tail (x # input) iv n =
     (let y = iv ! n XOR x;
          (output, iv, n) = encrypt_tail input (iv[n := y]) (n + 1)
      in (y # output, iv, n))"

definition AES_cfb128_encrypt ::
  "(byte list \<Rightarrow> byte list) \<Rightarrow> byte list \<Rightarrow> cfb_state \<Rightarrow> byte list \<times> cfb_state" where
  "AES_cfb128_encrypt E input s =
     (let (out1, input, iv, n) = encrypt_head input (ivec s) (num s);
          (out2, input, iv, n) = encrypt_blocks E input iv n;
          (out3, iv, n) = (if input \<noteq> [] then encrypt_tail input (E iv) n else ([], iv, n))
      in (out1 @ out2 @ out3, \<lparr>ivec = iv, num = n\<rparr>))"

fun decrypt_head :: "byte list \<Rightarrow> byte list \<Rightarrow> nat \<Rightarrow> byte list \<times> byte list \<times> byte list \<times> nat" where
  "decrypt_head [] iv n = ([], [], iv, n)"
| "decrypt_head (c # input) iv n =
     (if n = 0 then ([], c # input, iv, n)
      else
        let y = iv ! n XOR c;
            (output, rest, iv, n) = decrypt_head input (iv[n := c]) ((n + 1) mod 16)
        in (y # output, rest, iv, n))"

function decrypt_words :: "byte list \<Rightarrow> byte list \<Rightarrow> nat \<Rightarrow> byte list \<times> byte list" where
  "decrypt_words input iv n =
     (if n < 16 then
        let t = mem_read input n 8;
            y = xor_list (mem_read iv n 8) t;
            (output, iv) = decrypt_words input (mem_write iv n t) (n + 8)
        in (y @ output, iv)
      else ([], iv))"
  by pat_completeness auto

termination by (relation "measure (\<lambda>(input, iv, n). 16 - n)") auto

declare decrypt_words.simps [simp del]

function decrypt_blocks ::
  "(byte list \<Rightarrow> byte list) \<Rightarrow> byte list \<Rightarrow> byte list \<Rightarrow> nat \<Rightarrow> byte list \<times> byte list \<times> byte list \<times> nat" where
  "decrypt_blocks E input iv n =
     (if 16 \<le> length input then
        let (y, iv) = decrypt_words input (E iv) n;
            (output, rest, iv', n') = decrypt_blocks E (drop 16 input) iv 0
        in (y @ output, rest, iv', n')
      else ([], input, iv, n))"
  by pat_completeness auto

termination by (relation "measure (\<lambda>(E, input, iv, n). length input)") auto

declare decrypt_blocks.simps [simp del]

fun decrypt_tail :: "byte list \<Rightarrow> byte list \<Rightarrow> nat \<Rightarrow> byte list \<times> byte list \<times> nat" where
  "decrypt_tail [] iv n = ([], iv, n)"
| "decrypt_tail (c # input) iv n =
     (let y = iv ! n XOR c;
          (output, iv, n) = decrypt_tail input (iv[n := c]) (n + 1)
      in (y # output, iv, n))"

definition AES_cfb128_decrypt ::
  "(byte list \<Rightarrow> byte list) \<Rightarrow> byte list \<Rightarrow> cfb_state \<Rightarrow> byte list \<times> cfb_state" where
  "AES_cfb128_decrypt E input s =
     (let (out1, input, iv, n) = decrypt_head input (ivec s) (num s);
          (out2, input, iv, n) = decrypt_blocks E input iv n;
          (out3, iv, n) = (if input \<noteq> [] then decrypt_tail input (E iv) n else ([], iv, n))
      in (out1 @ out2 @ out3, \<lparr>ivec = iv, num = n\<rparr>))"

text \<open>Rolling back: \<open>input\<close> and \<open>output\<close> point behind the bytes that were decrypted, and both are
  walked backwards. The lists here are the bytes before the pointers, the nearest first.\<close>

fun rollback_head :: "byte list \<Rightarrow> byte list \<Rightarrow> byte list \<Rightarrow> nat \<Rightarrow> byte list \<times> byte list \<times> byte list \<times> nat" where
  "rollback_head (c # output) (x # input) iv n =
     (if n = 0 then (c # output, x # input, iv, n)
      else rollback_head output input (iv[n - 1 := x XOR c]) (n - 1))"
| "rollback_head output input iv n = (output, input, iv, n)"

function rollback_words :: "byte list \<Rightarrow> byte list \<Rightarrow> byte list \<Rightarrow> nat \<Rightarrow> byte list" where
  "rollback_words output input iv n =
     (if n < 16
      then rollback_words output input
             (mem_write iv n (xor_list (mem_read input n 8) (mem_read output n 8))) (n + 8)
      else iv)"
  by pat_completeness auto

termination by (relation "measure (\<lambda>(output, input, iv, n). 16 - n)") auto

declare rollback_words.simps [simp del]

function rollback_blocks ::
  "(byte list \<Rightarrow> byte list) \<Rightarrow> byte list \<Rightarrow> byte list \<Rightarrow> byte list \<Rightarrow> nat \<Rightarrow>
   byte list \<times> byte list \<times> byte list \<times> nat" where
  "rollback_blocks D output input iv n =
     (if 16 \<le> length output then
        let iv = D (rollback_words (rev (take 16 output)) (rev (take 16 input)) iv n)
        in rollback_blocks D (drop 16 output) (drop 16 input) iv 0
      else (output, input, iv, n))"
  by pat_completeness auto

termination by (relation "measure (\<lambda>(D, output, input, iv, n). length output)") auto

declare rollback_blocks.simps [simp del]

fun rollback_tail :: "byte list \<Rightarrow> byte list \<Rightarrow> byte list \<Rightarrow> nat \<Rightarrow> byte list \<times> nat" where
  "rollback_tail (c # output) (x # input) iv n =
     rollback_tail output input (iv[n - 1 := x XOR c]) (n - 1)"
| "rollback_tail output input iv n = (iv, n)"

definition Rollback_cfb_decrypt ::
  "(byte list \<Rightarrow> byte list) \<Rightarrow> byte list \<Rightarrow> byte list \<Rightarrow> cfb_state \<Rightarrow> cfb_state" where
  "Rollback_cfb_decrypt D input output status =
     (let (output, input, iv, n) = rollback_head (rev output) (rev input) (ivec status) (num status);
          iv = (if n = 0 \<and> num status \<noteq> 0 then D iv else iv);
          (output, input, iv, n) = rollback_blocks D output input iv n;
          (iv, n) = (if output \<noteq> [] then rollback_tail output input iv 16 else (iv, n))
      in \<lparr>ivec = iv, num = n\<rparr>)"

section \<open>The bytewise step\<close>

text \<open>\<open>fb\<close> chooses the byte that is fed back: the output of an encryption, the input of a decryption.\<close>

definition cfb_step ::
  "(byte \<Rightarrow> byte \<Rightarrow> byte) \<Rightarrow> (byte list \<Rightarrow> byte list) \<Rightarrow> cfb_state \<Rightarrow> byte \<Rightarrow> byte \<times> cfb_state" where
  "cfb_step fb E s x =
     (let iv = (if num s = 0 then E (ivec s) else ivec s); y = iv ! num s XOR x
      in (y, \<lparr>ivec = iv[num s := fb y x], num = (num s + 1) mod 16\<rparr>))"

definition fb_enc :: "byte \<Rightarrow> byte \<Rightarrow> byte" where "fb_enc y x = y"
definition fb_dec :: "byte \<Rightarrow> byte \<Rightarrow> byte" where "fb_dec y x = x"

fun run_bytes :: "('s \<Rightarrow> byte \<Rightarrow> byte \<times> 's) \<Rightarrow> byte list \<Rightarrow> 's \<Rightarrow> byte list \<times> 's" where
  "run_bytes step [] s = ([], s)"
| "run_bytes step (x # xs) s =
     (let (y, s) = step s x; (ys, s) = run_bytes step xs s in (y # ys, s))"

lemma run_bytes_append:
  "run_bytes step (xs @ ys) s =
    (let (us, s) = run_bytes step xs s; (vs, s) = run_bytes step ys s in (us @ vs, s))"
  by (induction xs arbitrary: s) (auto simp: Let_def split: prod.splits)

lemma length_run_bytes: "run_bytes step xs s = (ys, t) \<Longrightarrow> length ys = length xs"
  by (induction xs arbitrary: s ys t) (auto simp: Let_def split: prod.splits)

definition cfb_ok :: "cfb_state \<Rightarrow> bool" where
  "cfb_ok s \<longleftrightarrow> length (ivec s) = 16 \<and> num s < 16"

section \<open>The loops\<close>

fun cfb_head :: "(byte \<Rightarrow> byte \<Rightarrow> byte) \<Rightarrow> byte list \<Rightarrow> byte list \<Rightarrow> nat \<Rightarrow> byte list \<times> byte list \<times> byte list \<times> nat" where
  "cfb_head fb [] iv n = ([], [], iv, n)"
| "cfb_head fb (x # input) iv n =
     (if n = 0 then ([], x # input, iv, n)
      else
        let y = iv ! n XOR x;
            (output, rest, iv, n) = cfb_head fb input (iv[n := fb y x]) ((n + 1) mod 16)
        in (y # output, rest, iv, n))"

fun cfb_tail :: "(byte \<Rightarrow> byte \<Rightarrow> byte) \<Rightarrow> byte list \<Rightarrow> byte list \<Rightarrow> nat \<Rightarrow> byte list \<times> byte list \<times> nat" where
  "cfb_tail fb [] iv n = ([], iv, n)"
| "cfb_tail fb (x # input) iv n =
     (let y = iv ! n XOR x;
          (output, iv, n) = cfb_tail fb input (iv[n := fb y x]) (n + 1)
      in (y # output, iv, n))"

lemma heads: "encrypt_head input iv n = cfb_head fb_enc input iv n"
    "decrypt_head input iv n = cfb_head fb_dec input iv n"
  by (induction input arbitrary: iv n) (simp_all add: fb_enc_def fb_dec_def Let_def cong: if_cong)

lemma tails: "encrypt_tail input iv n = cfb_tail fb_enc input iv n"
    "decrypt_tail input iv n = cfb_tail fb_dec input iv n"
  by (induction input arbitrary: iv n) (simp_all add: fb_enc_def fb_dec_def Let_def)

lemma head_run:
  assumes "cfb_head fb xs (ivec s) (num s) = (ys, rest, iv, n)" and "cfb_ok s"
  shows "\<exists>us. xs = us @ rest \<and> run_bytes (cfb_step fb E) us s = (ys, \<lparr>ivec = iv, num = n\<rparr>) \<and>
    length iv = 16 \<and> n < 16 \<and> (rest = [] \<or> n = 0)"
  using assms
proof (induction xs arbitrary: s ys)
  case Nil
  then show ?case by (auto simp: cfb_ok_def)
next
  case (Cons x xs)
  show ?case
  proof (cases "num s = 0")
    case True
    with Cons.prems show ?thesis by (intro exI [of _ "[]"]) (auto simp: cfb_ok_def)
  next
    case False
    let ?y = "ivec s ! num s XOR x"
    let ?s = "\<lparr>ivec = (ivec s)[num s := fb ?y x], num = (num s + 1) mod 16\<rparr>"
    obtain ys' where h: "cfb_head fb xs (ivec ?s) (num ?s) = (ys', rest, iv, n)" and ys: "ys = ?y # ys'"
      using Cons.prems(1) False by (auto simp: Let_def split: prod.splits)
    have "cfb_ok ?s" using Cons.prems(2) by (simp add: cfb_ok_def)
    from Cons.IH [OF h this] obtain us where us: "xs = us @ rest"
      "run_bytes (cfb_step fb E) us ?s = (ys', \<lparr>ivec = iv, num = n\<rparr>)"
      "length iv = 16" "n < 16" "rest = [] \<or> n = 0" by blast
    have "cfb_step fb E s x = (?y, ?s)" using False by (simp add: cfb_step_def Let_def)
    with us ys show ?thesis by (intro exI [of _ "x # us"]) simp
  qed
qed

lemma tail_run:
  assumes "0 < num s" and "num s + length xs \<le> 16"
    and "cfb_tail fb xs (ivec s) (num s) = (ys, iv, n)"
  shows "run_bytes (cfb_step fb E) xs s = (ys, \<lparr>ivec = iv, num = n mod 16\<rparr>) \<or> xs = []"
  using assms
proof (induction xs arbitrary: s ys)
  case (Cons x xs)
  let ?y = "ivec s ! num s XOR x"
  let ?s = "\<lparr>ivec = (ivec s)[num s := fb ?y x], num = num s + 1\<rparr>"
  obtain ys' where t: "cfb_tail fb xs (ivec ?s) (num ?s) = (ys', iv, n)" and ys: "ys = ?y # ys'"
    using Cons.prems(3) by (auto simp: Let_def split: prod.splits)
  have st: "cfb_step fb E s x = (?y, ?s\<lparr>num := (num s + 1) mod 16\<rparr>)"
    using Cons.prems(1) by (simp add: cfb_step_def Let_def)
  show ?case
  proof (cases "xs = []")
    case True
    with t ys st show ?thesis by auto
  next
    case False
    then have "num s + 1 < 16" using Cons.prems(2) by (cases xs) auto
    with st have "cfb_step fb E s x = (?y, ?s)" by simp
    moreover have "run_bytes (cfb_step fb E) xs ?s = (ys', \<lparr>ivec = iv, num = n mod 16\<rparr>)"
      using Cons.IH [OF _ _ t] Cons.prems False by simp
    ultimately show ?thesis using ys by simp
  qed
qed simp

lemma first_run:
  assumes "num s = 0" and "xs \<noteq> []" and "length xs \<le> 16" and "cfb_tail fb xs (E (ivec s)) 0 = (ys, iv, n)"
  shows "run_bytes (cfb_step fb E) xs s = (ys, \<lparr>ivec = iv, num = n mod 16\<rparr>)"
proof -
  obtain x xs' where xs: "xs = x # xs'" using assms(2) by (cases xs) auto
  let ?y = "E (ivec s) ! 0 XOR x"
  let ?s = "\<lparr>ivec = (E (ivec s))[0 := fb ?y x], num = 1\<rparr>"
  obtain ys' where t: "cfb_tail fb xs' (ivec ?s) (num ?s) = (ys', iv, n)" and ys: "ys = ?y # ys'"
    using assms(4) by (auto simp: Let_def xs split: prod.splits)
  have "cfb_step fb E s x = (?y, ?s)" using assms(1) by (simp add: cfb_step_def Let_def)
  moreover have "run_bytes (cfb_step fb E) xs' ?s = (ys', \<lparr>ivec = iv, num = n mod 16\<rparr>)"
    using tail_run [OF _ _ t, where E = E] assms(3) t by (cases xs') (simp_all add: xs)
  ultimately show ?thesis using ys by (simp add: xs)
qed

lemma xor_list_simps [simp]: "xor_list [] ys = []" "xor_list (x # xs) (y # ys) = (x XOR y) # xor_list xs ys"
  by (simp_all add: xor_list_def)

lemma length_xor_list [simp]: "length (xor_list xs ys) = min (length xs) (length ys)"
  by (simp add: xor_list_def)

lemma nth_xor_list: "i < length xs \<Longrightarrow> i < length ys \<Longrightarrow> xor_list xs ys ! i = xs ! i XOR ys ! i"
  by (simp add: xor_list_def)

lemma cfb_tail_eq:
  assumes "n + length xs \<le> length iv"
  shows "cfb_tail fb xs iv n = (let ys = xor_list (mem_read iv n (length xs)) xs
    in (ys, mem_write iv n (map2 fb ys xs), n + length xs))"
  using assms
proof (induction xs arbitrary: iv n)
  case (Cons x xs)
  have r: "mem_read iv n (Suc (length xs)) = iv ! n # mem_read iv (Suc n) (length xs)"
    using Cons.prems mem_read_Suc [of n iv "length xs"] by simp
  have "mem_read (iv[n := b]) (Suc n) (length xs) = mem_read iv (Suc n) (length xs)" for b
    by (simp add: mem_read_def)
  moreover have "mem_write (iv[n := b]) (Suc n) bs = mem_write iv n (b # bs)" if "length bs = length xs" for b bs
    using Cons.prems that mem_write_mem_write_append [of n "[b]" bs iv]
    by (simp add: list_update_eq_mem_write)
  ultimately show ?case
    using Cons.prems Cons.IH [of "Suc n" "iv[n := fb (iv ! n XOR x) x]"] by (simp add: r Let_def)
qed simp

lemma words_eq:
  assumes "length iv = 16" and "16 \<le> length input"
  shows "encrypt_words input iv 0 = xor_list iv (take 16 input)"
    and "decrypt_words input iv 0 = (xor_list iv (take 16 input), take 16 input)"
    and "16 \<le> length output \<Longrightarrow>
      rollback_words output input iv 0 = xor_list (take 16 input) (take 16 output)"
proof -
  have split: "take 16 xs = mem_read xs 0 8 @ mem_read xs 8 8" for xs :: "byte list"
    using mem_read_add [of xs 0 8 8] by (simp add: mem_read_def)
  have l: "length (mem_read xs 0 8) = 8" "length (mem_read xs 8 8) = 8"
    if "16 \<le> length xs" for xs :: "byte list"
    using that by (simp_all add: mem_read_def)
  obtain a b where iv: "iv = a @ b" and ab: "length a = 8" "length b = 8"
    using split [of iv] l [of iv] assms(1) by simp
  have w: "mem_write (a @ b) 0 x = x @ b" "mem_read (x @ b) 8 8 = b" "mem_write (x @ b) 8 y = x @ y"
    "mem_read (a @ b) 0 8 = a" if "length x = 8" "length y = 8" for x y
    using that ab by (simp_all add: mem_write_def mem_read_def)
  have x: "xor_list (c @ d) (e @ f) = xor_list c e @ xor_list d f" if "length c = length e" for c d e f
    using that by (simp add: xor_list_def)
  note li = l [OF assms(2)]
  show "encrypt_words input iv 0 = xor_list iv (take 16 input)"
    using ab li by (simp add: iv split encrypt_words.simps w x)
  show "decrypt_words input iv 0 = (xor_list iv (take 16 input), take 16 input)"
    using ab li by (simp add: iv split decrypt_words.simps w x Let_def)
  show "rollback_words output input iv 0 = xor_list (take 16 input) (take 16 output)"
    if "16 \<le> length output"
    using ab li l [OF that] by (simp add: iv split rollback_words.simps w x)
qed

lemma map2_fb: "length ys = length xs \<Longrightarrow> map2 fb_enc ys xs = ys" "length ys = length xs \<Longrightarrow> map2 fb_dec ys xs = xs"
  by (simp_all add: fb_enc_def [abs_def] fb_dec_def [abs_def] list_eq_iff_nth_eq)

lemma block_run:
  assumes "length (E iv) = 16" and "length xs = 16"
  shows "run_bytes (cfb_step fb E) xs \<lparr>ivec = iv, num = 0\<rparr> =
    (xor_list (E iv) xs, \<lparr>ivec = map2 fb (xor_list (E iv) xs) xs, num = 0\<rparr>)"
proof -
  have "cfb_tail fb xs (E iv) 0 = (xor_list (E iv) xs, map2 fb (xor_list (E iv) xs) xs, 16)"
    using assms by (simp add: cfb_tail_eq Let_def mem_read_def mem_write_def)
  moreover have "xs \<noteq> []" using assms(2) by auto
  ultimately show ?thesis
    using first_run [of "\<lparr>ivec = iv, num = 0\<rparr>" xs fb E] assms by auto
qed

text \<open>Both block loops: \<open>fb\<close> says what the vector becomes.\<close>

lemma blocks_run:
  assumes blocks: "\<And>xs iv. length iv = 16 \<Longrightarrow> blocks xs iv =
      (if 16 \<le> length xs then
         let y = xor_list (E iv) (take 16 xs);
             (output, rest, iv', n') = blocks (drop 16 xs) (map2 fb y (take 16 xs))
         in (y @ output, rest, iv', n')
       else ([], xs, iv, 0))"
    and E: "\<And>iv. length iv = 16 \<Longrightarrow> length (E iv) = 16" and "length iv = 16"
    and "blocks xs iv = (ys, rest, iv', n')"
  shows "\<exists>us. xs = us @ rest \<and> length rest < 16 \<and> length iv' = 16 \<and> n' = (0 :: nat) \<and>
    run_bytes (cfb_step fb E) us \<lparr>ivec = iv, num = 0\<rparr> = (ys, \<lparr>ivec = iv', num = 0\<rparr>)"
  using assms(3,4)
proof (induction xs arbitrary: iv ys rule: length_induct)
  case (1 xs)
  show ?case
  proof (cases "16 \<le> length xs")
    case False
    with 1 show ?thesis by (simp add: blocks [of iv xs])
  next
    case True
    let ?x = "take 16 xs" and ?y = "xor_list (E iv) (take 16 xs)"
    let ?iv = "map2 fb ?y ?x"
    have l: "length (E iv) = 16" "length ?x = 16" "length ?iv = 16"
      using E [OF "1.prems"(1)] True by simp_all
    obtain ys' where b: "blocks (drop 16 xs) ?iv = (ys', rest, iv', n')" and ys: "ys = ?y @ ys'"
      using "1.prems"(2) True by (auto simp: blocks [OF "1.prems"(1), of xs] Let_def split: prod.splits)
    have "length (drop 16 xs) < length xs" using True by simp
    with "1.IH" b l(3) obtain us where us: "drop 16 xs = us @ rest" "length rest < 16" "length iv' = 16" "n' = 0"
      "run_bytes (cfb_step fb E) us \<lparr>ivec = ?iv, num = 0\<rparr> = (ys', \<lparr>ivec = iv', num = 0\<rparr>)" by blast
    have "run_bytes (cfb_step fb E) (?x @ us) \<lparr>ivec = iv, num = 0\<rparr> = (ys, \<lparr>ivec = iv', num = 0\<rparr>)"
      using us(5) ys block_run [of E iv ?x fb, OF l(1,2)] by (simp add: run_bytes_append)
    moreover have "xs = (?x @ us) @ rest"
      using append_take_drop_id [of 16 xs] us(1) by simp
    ultimately show ?thesis using us by blast
  qed
qed

lemma encrypt_blocks_step:
  assumes "\<And>iv. length iv = 16 \<Longrightarrow> length (E iv) = 16" and "length iv = 16"
  shows "encrypt_blocks E xs iv 0 =
    (if 16 \<le> length xs then
       let y = xor_list (E iv) (take 16 xs);
           (output, rest, iv', n') = encrypt_blocks E (drop 16 xs) (map2 fb_enc y (take 16 xs)) 0
       in (y @ output, rest, iv', n')
     else ([], xs, iv, 0))"
  using assms(1) [OF assms(2)]
  by (subst encrypt_blocks.simps) (simp add: words_eq(1) map2_fb Let_def)

lemma decrypt_blocks_step:
  assumes "\<And>iv. length iv = 16 \<Longrightarrow> length (E iv) = 16" and "length iv = 16"
  shows "decrypt_blocks E xs iv 0 =
    (if 16 \<le> length xs then
       let y = xor_list (E iv) (take 16 xs);
           (output, rest, iv', n') = decrypt_blocks E (drop 16 xs) (map2 fb_dec y (take 16 xs)) 0
       in (y @ output, rest, iv', n')
     else ([], xs, iv, 0))"
  using assms(1) [OF assms(2)]
  by (subst decrypt_blocks.simps) (simp add: words_eq(2) map2_fb Let_def)

text \<open>A whole call, of either function.\<close>

definition cfb_call ::
  "(byte \<Rightarrow> byte \<Rightarrow> byte) \<Rightarrow> (byte list \<Rightarrow> byte list \<Rightarrow> nat \<Rightarrow> byte list \<times> byte list \<times> byte list \<times> nat) \<Rightarrow>
   (byte list \<Rightarrow> byte list) \<Rightarrow> byte list \<Rightarrow> cfb_state \<Rightarrow> byte list \<times> cfb_state" where
  "cfb_call fb blocks E input s =
     (let (out1, input, iv, n) = cfb_head fb input (ivec s) (num s);
          (out2, input, iv, n) = blocks input iv n;
          (out3, iv, n) = (if input \<noteq> [] then cfb_tail fb input (E iv) n else ([], iv, n))
      in (out1 @ out2 @ out3, \<lparr>ivec = iv, num = n\<rparr>))"

lemma cfb_call_run:
  assumes blocks: "\<And>xs iv. length iv = 16 \<Longrightarrow> blocks xs iv 0 =
      (if 16 \<le> length xs then
         let y = xor_list (E iv) (take 16 xs);
             (output, rest, iv', n') = blocks (drop 16 xs) (map2 fb y (take 16 xs)) 0
         in (y @ output, rest, iv', n')
       else ([], xs, iv, 0))"
    and nil: "\<And>iv n. blocks [] iv n = ([], [], iv, n)"
    and E: "\<And>iv. length iv = 16 \<Longrightarrow> length (E iv) = 16" and ok: "cfb_ok s"
  shows "cfb_call fb blocks E input s = run_bytes (cfb_step fb E) input s"
proof -
  obtain out1 rest1 iv1 n1 where h: "cfb_head fb input (ivec s) (num s) = (out1, rest1, iv1, n1)"
    by (cases "cfb_head fb input (ivec s) (num s)")
  obtain us where us: "input = us @ rest1" "run_bytes (cfb_step fb E) us s = (out1, \<lparr>ivec = iv1, num = n1\<rparr>)"
    "length iv1 = 16" "n1 < 16" "rest1 = [] \<or> n1 = 0"
    using head_run [OF h ok] by blast
  show ?thesis
  proof (cases "rest1 = []")
    case True
    with us h show ?thesis by (simp add: cfb_call_def nil)
  next
    case False
    with us(5) have n1: "n1 = 0" by simp
    obtain out2 rest2 iv2 n2 where b: "blocks rest1 iv1 0 = (out2, rest2, iv2, n2)"
      by (cases "blocks rest1 iv1 0")
    obtain vs where vs: "rest1 = vs @ rest2" "length rest2 < 16" "length iv2 = 16" "n2 = 0"
      "run_bytes (cfb_step fb E) vs \<lparr>ivec = iv1, num = 0\<rparr> = (out2, \<lparr>ivec = iv2, num = 0\<rparr>)"
      using blocks_run [of "\<lambda>xs iv. blocks xs iv 0" E fb, OF blocks E us(3) b] by blast
    obtain out3 iv3 n3 where t: "cfb_tail fb rest2 (E iv2) 0 = (out3, iv3, n3)"
      by (cases "cfb_tail fb rest2 (E iv2) 0")
    have n3: "n3 = length rest2" using cfb_tail_eq [of 0 rest2 "E iv2" fb] E [OF vs(3)] vs(2) t by (simp add: Let_def)
    have f: "rest2 \<noteq> [] \<Longrightarrow> run_bytes (cfb_step fb E) rest2 \<lparr>ivec = iv2, num = 0\<rparr> = (out3, \<lparr>ivec = iv3, num = n3\<rparr>)"
      using first_run [of "\<lparr>ivec = iv2, num = 0\<rparr>" rest2 fb E out3 iv3 n3] t vs(2) n3 by simp
    show ?thesis
      using h b t us vs n1 f
      by (cases "rest2 = []") (simp_all add: cfb_call_def run_bytes_append)
  qed
qed

theorem cfb128_encrypt_run:
  assumes "\<And>iv. length iv = 16 \<Longrightarrow> length (E iv) = 16" and "cfb_ok s"
  shows "AES_cfb128_encrypt E input s = run_bytes (cfb_step fb_enc E) input s"
proof -
  have "AES_cfb128_encrypt E input s = cfb_call fb_enc (encrypt_blocks E) E input s"
    by (simp add: AES_cfb128_encrypt_def cfb_call_def heads tails cong: if_cong)
  also have "\<dots> = run_bytes (cfb_step fb_enc E) input s"
    by (rule cfb_call_run [where blocks = "encrypt_blocks E" and E = E and fb = fb_enc],
        rule encrypt_blocks_step [where E = E, OF assms(1)])
      (simp_all add: assms encrypt_blocks.simps)
  finally show ?thesis .
qed

theorem cfb128_decrypt_run:
  assumes "\<And>iv. length iv = 16 \<Longrightarrow> length (E iv) = 16" and "cfb_ok s"
  shows "AES_cfb128_decrypt E input s = run_bytes (cfb_step fb_dec E) input s"
proof -
  have "AES_cfb128_decrypt E input s = cfb_call fb_dec (decrypt_blocks E) E input s"
    by (simp add: AES_cfb128_decrypt_def cfb_call_def heads tails cong: if_cong)
  also have "\<dots> = run_bytes (cfb_step fb_dec E) input s"
    by (rule cfb_call_run [where blocks = "decrypt_blocks E" and E = E and fb = fb_dec],
        rule decrypt_blocks_step [where E = E, OF assms(1)])
      (simp_all add: assms decrypt_blocks.simps)
  finally show ?thesis .
qed

section \<open>What the step gives\<close>

lemma cfb_step_ok:
  assumes "\<And>iv. length iv = 16 \<Longrightarrow> length (E iv) = 16" and "cfb_ok s" and "cfb_step fb E s x = (y, t)"
  shows "cfb_ok t"
  using assms by (auto simp: cfb_step_def cfb_ok_def Let_def)

lemma run_bytes_ok:
  assumes "\<And>iv. length iv = 16 \<Longrightarrow> length (E iv) = 16" and "cfb_ok s"
    and "run_bytes (cfb_step fb E) xs s = (ys, t)"
  shows "cfb_ok t"
  using assms(2,3)
proof (induction xs arbitrary: s ys)
  case (Cons x xs)
  obtain y u ys' where "cfb_step fb E s x = (y, u)" "run_bytes (cfb_step fb E) xs u = (ys', t)"
    using Cons.prems(2) by (auto simp: Let_def split: prod.splits)
  moreover from this have "cfb_ok u" using cfb_step_ok [of E s, OF assms(1) Cons.prems(1)] by blast
  ultimately show ?case using Cons.IH by blast
qed simp

lemma decrypt_step_inverts:
  "cfb_step fb_enc E s x = (y, t) \<Longrightarrow> cfb_step fb_dec E s y = (x, t)"
  by (auto simp: cfb_step_def Let_def fb_enc_def fb_dec_def xor.assoc [symmetric])

lemma run_decrypt_inverts:
  "run_bytes (cfb_step fb_enc E) xs s = (ys, t) \<Longrightarrow> run_bytes (cfb_step fb_dec E) ys s = (xs, t)"
  by (induction xs arbitrary: s ys)
    (auto simp: Let_def decrypt_step_inverts split: prod.splits)

definition rollback_step :: "(byte list \<Rightarrow> byte list) \<Rightarrow> byte \<Rightarrow> byte \<Rightarrow> cfb_state \<Rightarrow> cfb_state" where
  "rollback_step D p c s =
     (let n = (if num s = 0 then 16 else num s) - 1; iv = (ivec s)[n := c XOR p]
      in \<lparr>ivec = (if n = 0 then D iv else iv), num = n\<rparr>)"

fun rollback_run :: "(byte list \<Rightarrow> byte list) \<Rightarrow> byte list \<Rightarrow> byte list \<Rightarrow> cfb_state \<Rightarrow> cfb_state" where
  "rollback_run D (p # output) (c # input) s = rollback_run D output input (rollback_step D p c s)"
| "rollback_run D output input s = s"

lemma rollback_run_append:
  "length xs = length us \<Longrightarrow>
   rollback_run D (xs @ ys) (us @ vs) s = rollback_run D ys vs (rollback_run D xs us s)"
  by (induction xs us arbitrary: s rule: list_induct2) simp_all

lemma rollback_step_inverts:
  assumes "\<And>iv. length iv = 16 \<Longrightarrow> length (E iv) = 16" and "\<And>iv. length iv = 16 \<Longrightarrow> D (E iv) = iv"
    and "cfb_ok s" and "cfb_step fb_dec E s c = (p, t)"
  shows "rollback_step D p c t = s"
proof (cases "num s = 0")
  case True
  then have t: "t = \<lparr>ivec = (E (ivec s))[0 := c], num = 1\<rparr>" "p = E (ivec s) ! 0 XOR c"
    using assms(4) by (auto simp: cfb_step_def Let_def fb_dec_def)
  have "c XOR p = E (ivec s) ! 0" by (simp add: t ac_simps)
  with True assms(2,3) show ?thesis
    by (simp add: rollback_step_def t cfb_ok_def Let_def)
next
  case False
  then have t: "t = \<lparr>ivec = (ivec s)[num s := c], num = (num s + 1) mod 16\<rparr>" "p = ivec s ! num s XOR c"
    using assms(4) by (auto simp: cfb_step_def Let_def fb_dec_def)
  have "c XOR p = ivec s ! num s" by (simp add: t ac_simps)
  moreover have "(if num t = 0 then 16 else num t) - 1 = num s"
  proof (cases "num s = 15")
    case True
    then show ?thesis by (simp add: t)
  next
    case F: False
    then have "num s + 1 < 16" using assms(3) by (auto simp: cfb_ok_def)
    then show ?thesis by (simp add: t)
  qed
  ultimately show ?thesis
    using False by (simp add: rollback_step_def Let_def) (simp add: t)
qed

lemma rollback_run_inverts:
  assumes "\<And>iv. length iv = 16 \<Longrightarrow> length (E iv) = 16" and "\<And>iv. length iv = 16 \<Longrightarrow> D (E iv) = iv"
    and "cfb_ok s" and "run_bytes (cfb_step fb_dec E) cs s = (ps, t)"
  shows "rollback_run D (rev ps) (rev cs) t = s"
  using assms(3,4)
proof (induction cs arbitrary: s ps)
  case (Cons c cs)
  obtain p u ps' where st: "cfb_step fb_dec E s c = (p, u)"
    "run_bytes (cfb_step fb_dec E) cs u = (ps', t)" "ps = p # ps'"
    using Cons.prems(2) by (auto simp: Let_def split: prod.splits)
  have "rollback_run D (rev ps') (rev cs) t = u"
    using cfb_step_ok [OF assms(1) Cons.prems(1) st(1)] st(2) by (rule Cons.IH)
  moreover have "length ps' = length cs" using length_run_bytes [OF st(2)] .
  ultimately show ?case
    using rollback_step_inverts [OF assms(1,2) Cons.prems(1) st(1)] by (simp add: st(3) rollback_run_append)
qed simp

section \<open>Rolling back\<close>

lemma exI2: "P x y \<Longrightarrow> \<exists>x y. P x y"
  by blast

lemma rollback_head_run:
  assumes "rollback_head os is iv n = (os', is', iv', n')" and "length os = length is" and "n \<le> 16"
    and "length iv = 16" and "0 < n"
  shows "\<exists>us vs. os = us @ os' \<and> is = vs @ is' \<and> length us = length vs \<and> length iv' = 16 \<and> n' \<le> n \<and>
    (os' = [] \<or> n' = 0) \<and>
    rollback_run D us vs \<lparr>ivec = iv, num = n mod 16\<rparr> =
      \<lparr>ivec = (if n' = 0 then D iv' else iv'), num = n' mod 16\<rparr>"
  using assms
proof (induction os "is" iv n rule: rollback_head.induct)
  case (1 c "output" x input iv n)
  let ?iv = "iv[n - 1 := x XOR c]"
  have h: "rollback_head output input ?iv (n - 1) = (os', is', iv', n')" using 1 by simp
  have st: "rollback_step D c x \<lparr>ivec = iv, num = n mod 16\<rparr> =
      \<lparr>ivec = (if n - 1 = 0 then D ?iv else ?iv), num = n - 1\<rparr>"
  proof (cases "n = 16")
    case False
    with 1 show ?thesis by (auto simp: rollback_step_def Let_def)
  qed (simp add: rollback_step_def Let_def)
  show ?case
  proof (cases "n = 1")
    case True
    then have e: "os' = output" "is' = input" "iv' = ?iv" "n' = 0"
      using h by (cases "output"; cases input; simp)+
    show ?thesis
      using st True "1.prems" by (intro exI2 [of _ "[c]" "[x]"]) (simp add: e)
  next
    case False
    then have "0 < n - 1" using "1.prems" by simp
    then obtain us vs where us: "output = us @ os'" "input = vs @ is'" "length us = length vs"
      "length iv' = 16" "n' \<le> n - 1" "os' = [] \<or> n' = 0"
      "rollback_run D us vs \<lparr>ivec = ?iv, num = (n - 1) mod 16\<rparr> =
        \<lparr>ivec = (if n' = 0 then D iv' else iv'), num = n' mod 16\<rparr>"
    proof -
      have "n \<noteq> 0" "length output = length input" "n - 1 \<le> 16" "length ?iv = 16"
        using "1.prems" by simp_all
      from "1.IH" [OF this(1) h this(2-4) \<open>0 < n - 1\<close>] that show thesis by blast
    qed
    have m: "(n - 1) mod 16 = n - 1" using "1.prems" by simp
    from m us st False "1.prems" show ?thesis
      by (intro exI2 [of _ "c # us" "x # vs"]) auto
  qed
qed (auto intro!: exI [of _ "[]"])

lemma rollback_tail_run:
  assumes "length os = length is" and "length os < n" and "n \<le> 16" and "length iv = 16"
  shows "rollback_run D os is \<lparr>ivec = iv, num = n mod 16\<rparr> =
    (let (iv', n') = rollback_tail os is iv n in \<lparr>ivec = iv', num = n' mod 16\<rparr>) \<and>
    snd (rollback_tail os is iv n) = n - length os"
  using assms
proof (induction os "is" arbitrary: iv n rule: list_induct2)
  case (Cons c os x "is")
  have "rollback_step D c x \<lparr>ivec = iv, num = n mod 16\<rparr> = \<lparr>ivec = iv[n - 1 := x XOR c], num = (n - 1) mod 16\<rparr>"
  proof (cases "n = 16")
    case False
    with Cons.prems show ?thesis by (simp add: rollback_step_def Let_def)
  qed (simp add: rollback_step_def Let_def)
  moreover have "(n - 1) mod 16 = n - 1" using Cons.prems by simp
  ultimately show ?case
    using Cons.IH [of "n - 1" "iv[n - 1 := x XOR c]"] Cons.prems Cons.hyps by simp
qed simp

lemma mem_write_update_behind:
  assumes "k + length zs < length iv"
  shows "mem_write (iv[k + length zs := b]) k zs = mem_write iv k (zs @ [b])"
  by (rule nth_equalityI) (use assms in \<open>auto simp: nth_mem_write nth_append nth_list_update\<close>)

lemma rollback_head_eq:
  assumes "length os = length is" and "length os \<le> n" and "n \<le> length iv"
  shows "rollback_head os is iv n =
    ([], [], mem_write iv (n - length os) (rev (xor_list is os)), n - length os)"
  using assms
proof (induction os "is" arbitrary: iv n rule: list_induct2)
  case (Cons c os x "is")
  have "mem_write (iv[n - 1 := x XOR c]) (n - 1 - length os) (rev (xor_list is os)) =
      mem_write iv (n - 1 - length os) (rev (xor_list is os) @ [x XOR c])"
    using mem_write_update_behind [of "n - 1 - length os" "rev (xor_list is os)" iv "x XOR c"] Cons
    by simp
  with Cons show ?case by simp
qed simp

lemma rev_xor_list: "length xs = length ys \<Longrightarrow> rev (xor_list xs ys) = xor_list (rev xs) (rev ys)"
  by (simp add: xor_list_def rev_map zip_rev)

lemma rollback_block_run:
  assumes "length os = 16" and "length is = 16" and "length iv = 16"
  shows "rollback_run D os is \<lparr>ivec = iv, num = 0\<rparr> =
    \<lparr>ivec = D (xor_list (rev is) (rev os)), num = 0\<rparr>"
proof -
  have h: "rollback_head os is iv 16 = ([], [], xor_list (rev is) (rev os), 0)"
    using assms by (simp add: rollback_head_eq mem_write_def rev_xor_list)
  show ?thesis
    using rollback_head_run [OF h, of D] assms by auto
qed

lemma rollback_blocks_run:
  assumes "\<And>iv. length iv = 16 \<Longrightarrow> length (D iv) = 16"
    and "rollback_blocks D os is iv 0 = (os', is', iv', n')" and "length os = length is" and "length iv = 16"
  shows "\<exists>us vs. os = us @ os' \<and> is = vs @ is' \<and> length us = length vs \<and> length iv' = 16 \<and> n' = 0 \<and>
    length os' < 16 \<and> rollback_run D us vs \<lparr>ivec = iv, num = 0\<rparr> = \<lparr>ivec = iv', num = 0\<rparr>"
  using assms(2-)
proof (induction "length os" arbitrary: os "is" iv rule: less_induct)
  case less
  show ?case
  proof (cases "16 \<le> length os")
    case False
    with less show ?thesis
      by (subst (asm) (2) rollback_blocks.simps) (auto intro!: exI [of _ "[]"])
  next
    case True
    let ?u = "take 16 os" and ?v = "take 16 is"
    let ?iv = "D (xor_list (rev ?v) (rev ?u))"
    have l: "length ?u = 16" "length ?v = 16" using True less.prems(2) by simp_all
    have w: "rollback_words (rev ?u) (rev ?v) iv 0 = xor_list (rev ?v) (rev ?u)"
      using words_eq(3) [of iv "rev ?v" "rev ?u"] l less.prems(3) by simp
    have b: "rollback_blocks D (drop 16 os) (drop 16 is) ?iv 0 = (os', is', iv', n')"
      using less.prems(1) True w by (subst (asm) rollback_blocks.simps) (simp add: Let_def)
    have m: "length (drop 16 os) < length os" "length (drop 16 os) = length (drop 16 is)" "length ?iv = 16"
      using True l assms(1) less.prems(2) by simp_all
    obtain us vs where us: "drop 16 os = us @ os'" "drop 16 is = vs @ is'"
      "length us = length vs" "length iv' = 16" "n' = 0" "length os' < 16"
      "rollback_run D us vs \<lparr>ivec = ?iv, num = 0\<rparr> = \<lparr>ivec = iv', num = 0\<rparr>"
      using less.hyps [OF m(1) b m(2,3)] by auto
    have "rollback_run D (?u @ us) (?v @ vs) \<lparr>ivec = iv, num = 0\<rparr> = \<lparr>ivec = iv', num = 0\<rparr>"
      using us rollback_block_run [OF l less.prems(3), of D] l by (simp add: rollback_run_append)
    moreover have "os = (?u @ us) @ os'" "is = (?v @ vs) @ is'"
      using append_take_drop_id [of 16 os] append_take_drop_id [of 16 "is"] us by simp_all
    ultimately show ?thesis using us l by (intro exI2 [of _ "?u @ us" "?v @ vs"]) simp
  qed
qed

theorem Rollback_run:
  assumes D: "\<And>iv. length iv = 16 \<Longrightarrow> length (D iv) = 16"
    and "length input = length output" and "cfb_ok s"
  shows "Rollback_cfb_decrypt D input output s = rollback_run D (rev output) (rev input) s"
proof -
  let ?o = "rev output" and ?i = "rev input"
  obtain os1 is1 iv1 n1 where h: "rollback_head ?o ?i (ivec s) (num s) = (os1, is1, iv1, n1)"
    by (cases "rollback_head ?o ?i (ivec s) (num s)")
  let ?iv1 = "if n1 = 0 \<and> num s \<noteq> 0 then D iv1 else iv1"
  have 1: "\<exists>us vs. ?o = us @ os1 \<and> ?i = vs @ is1 \<and> length us = length vs \<and> length ?iv1 = 16 \<and>
      n1 < 16 \<and> (os1 = [] \<or> n1 = 0) \<and> rollback_run D us vs s = \<lparr>ivec = ?iv1, num = n1\<rparr>"
  proof (cases "num s = 0")
    case True
    then have "os1 = ?o" "is1 = ?i" "iv1 = ivec s" "n1 = 0"
      using h assms(2) by (cases ?o; cases ?i; auto)+
    with True assms(3) show ?thesis
      by (intro exI [of _ "[]"]) (auto simp: cfb_ok_def)
  next
    case False
    have ss: "\<lparr>ivec = ivec s, num = num s\<rparr> = s" by simp
    have m: "num s mod 16 = num s" using assms(3) by (simp add: cfb_ok_def)
    from False obtain us vs where us: "?o = us @ os1" "?i = vs @ is1" "length us = length vs" "length iv1 = 16"
      "n1 \<le> num s" "os1 = [] \<or> n1 = 0"
      "rollback_run D us vs s = \<lparr>ivec = (if n1 = 0 then D iv1 else iv1), num = n1 mod 16\<rparr>"
      using rollback_head_run [OF h, of D, unfolded m ss] assms(2,3) by (auto simp: cfb_ok_def)
    then show ?thesis
      using False assms(3) D [of iv1] by (intro exI2 [of _ us vs]) (auto simp: cfb_ok_def)
  qed
  then obtain us vs where us: "?o = us @ os1" "?i = vs @ is1" "length us = length vs" "length ?iv1 = 16"
    "n1 < 16" "os1 = [] \<or> n1 = 0" "rollback_run D us vs s = \<lparr>ivec = ?iv1, num = n1\<rparr>" by blast
  have "length us + length os1 = length vs + length is1"
    using assms(2) us(1,2) by (metis length_append length_rev)
  then have li: "length os1 = length is1" using us(3) by simp
  show ?thesis
  proof (cases "os1 = []")
    case True
    then have "is1 = []" using li by simp
    with True h us show ?thesis
      by (simp add: Rollback_cfb_decrypt_def rollback_blocks.simps Let_def)
  next
    case False
    then have n1: "n1 = 0" using us(6) by simp
    obtain os2 is2 iv2 n2 where b: "rollback_blocks D os1 is1 ?iv1 0 = (os2, is2, iv2, n2)"
      by (cases "rollback_blocks D os1 is1 ?iv1 0")
    obtain us2 vs2 where us2: "os1 = us2 @ os2" "is1 = vs2 @ is2" "length us2 = length vs2"
      "length iv2 = 16" "n2 = 0" "length os2 < 16"
      "rollback_run D us2 vs2 \<lparr>ivec = ?iv1, num = 0\<rparr> = \<lparr>ivec = iv2, num = 0\<rparr>"
      using rollback_blocks_run [OF D b li us(4)] by blast
    have l2: "length os2 = length is2" using li us2 by simp
    obtain iv3 n3 where t: "rollback_tail os2 is2 iv2 16 = (iv3, n3)" by (cases "rollback_tail os2 is2 iv2 16")
    have t': "rollback_run D os2 is2 \<lparr>ivec = iv2, num = 0\<rparr> = \<lparr>ivec = iv3, num = n3 mod 16\<rparr>" "n3 = 16 - length os2"
      using rollback_tail_run [OF l2, of 16 iv2 D] us2 t by simp_all
    have "rollback_run D ?o ?i s = rollback_run D os2 is2 \<lparr>ivec = iv2, num = 0\<rparr>"
      using us(7) us2(7) n1 by (simp add: us(1,2) us2(1,2) rollback_run_append us(3) us2(3))
    then show ?thesis
      using h b t t' us2(5) n1
      by (cases "os2 = []") (auto simp: Rollback_cfb_decrypt_def Let_def)
  qed
qed
end
