(* ===== verification/AESCrypt.thy ===== *)
theory AESCrypt
  imports AES CFB CodedOutput
begin

text \<open>
  \<open>aes/AESCrypt.cpp\<close>: the stream cipher object that encrypts and decrypts the data file. A key, the
  expanded key schedules and the cipher-feedback status; \<open>encrypt\<close> and \<open>decrypt\<close> continue the stream
  where the last call stopped, \<open>statusBeforeDecrypt\<close> computes the status as it was before some bytes
  were decrypted, and \<open>cloneWithStatus\<close> makes a reader that starts there.

  \<^item> A pointer with a length is a list; a null pointer or a length of zero is the empty list.
  \<^item> \<open>m_aesKey\<close> is a pointer: \<open>None\<close> is null. Encrypting with it is a fault of memory.
  \<^item> The locale \<open>block_cipher\<close> is what cipher feedback relies on, and is interpreted on the AES of the
    sources, for every key and both key lengths.
\<close>

unbundle bit_operations_syntax

section \<open>The interface to the block cipher\<close>

locale block_cipher =
  fixes E :: "byte list \<Rightarrow> byte list" and D :: "byte list \<Rightarrow> byte list"
  assumes length_E: "length b = 16 \<Longrightarrow> length (E b) = 16"
    and length_D: "length b = 16 \<Longrightarrow> length (D b) = 16"
    and D_E: "length b = 16 \<Longrightarrow> D (E b) = b"
begin

lemma cfb_encrypt_run: "cfb_ok s \<Longrightarrow> AES_cfb128_encrypt E xs s = run_bytes (cfb_step fb_enc E) xs s"
  by (rule cfb128_encrypt_run [OF length_E])

lemma cfb_decrypt_run: "cfb_ok s \<Longrightarrow> AES_cfb128_decrypt E xs s = run_bytes (cfb_step fb_dec E) xs s"
  by (rule cfb128_decrypt_run [OF length_E])

lemma run_ok: "cfb_ok s \<Longrightarrow> run_bytes (cfb_step fb E) xs s = (ys, t) \<Longrightarrow> cfb_ok t"
  by (rule run_bytes_ok [OF length_E])

lemma decrypt_encrypt:
  assumes "cfb_ok s" and "AES_cfb128_encrypt E xs s = (ys, t)"
  shows "AES_cfb128_decrypt E ys s = (xs, t)"
  using assms by (simp add: cfb_encrypt_run cfb_decrypt_run run_decrypt_inverts)

lemma call_ok:
  assumes "cfb_ok s" and "AES_cfb128_encrypt E xs s = (ys, t) \<or> AES_cfb128_decrypt E xs s = (ys, t)"
  shows "cfb_ok t" and "length ys = length xs"
  using assms by (auto simp: cfb_encrypt_run cfb_decrypt_run dest: run_ok length_run_bytes)

lemma call_append:
  assumes "cfb_ok s"
  shows "AES_cfb128_encrypt E (xs @ ys) s =
      (let (us, s) = AES_cfb128_encrypt E xs s; (vs, s) = AES_cfb128_encrypt E ys s in (us @ vs, s))"
    and "AES_cfb128_decrypt E (xs @ ys) s =
      (let (us, s) = AES_cfb128_decrypt E xs s; (vs, s) = AES_cfb128_decrypt E ys s in (us @ vs, s))"
proof -
  have *: "run_bytes (cfb_step fb E) (xs @ ys) s =
      (let (us, s') = run_bytes (cfb_step fb E) xs s; (vs, s'') = run_bytes (cfb_step fb E) ys s' in (us @ vs, s''))"
    for fb by (simp add: run_bytes_append)
  show "AES_cfb128_encrypt E (xs @ ys) s =
      (let (us, s) = AES_cfb128_encrypt E xs s; (vs, s) = AES_cfb128_encrypt E ys s in (us @ vs, s))"
    using assms run_ok [OF assms, of fb_enc xs]
    by (simp add: cfb_encrypt_run * split: prod.splits)
  show "AES_cfb128_decrypt E (xs @ ys) s =
      (let (us, s) = AES_cfb128_decrypt E xs s; (vs, s) = AES_cfb128_decrypt E ys s in (us @ vs, s))"
    using assms run_ok [OF assms, of fb_dec xs]
    by (simp add: cfb_decrypt_run * split: prod.splits)
qed

lemma rollback_decrypt:
  assumes "cfb_ok s" and "AES_cfb128_decrypt E cs s = (ps, t)"
  shows "Rollback_cfb_decrypt D cs ps t = s"
proof -
  have r: "run_bytes (cfb_step fb_dec E) cs s = (ps, t)" using assms by (simp add: cfb_decrypt_run)
  moreover have "cfb_ok t" "length cs = length ps"
    using run_ok [OF assms(1) r] length_run_bytes [OF r] by simp_all
  ultimately show ?thesis
    using rollback_run_inverts [OF length_E D_E assms(1)] by (simp add: Rollback_run length_D)
qed

end

section \<open>The cipher object\<close>

record AESCryptStatus =
  st_number :: byte
  st_vector :: "byte list"

record AESCrypt =
  m_isClone :: bool
  m_isAES256 :: bool
  m_number :: u32
  m_aesKey :: "AES_KEY option"
  m_aesRollbackKey :: "AES_KEY option"
  m_key :: "byte list"
  m_vector :: "byte list"

abbreviation AES_IV_LEN :: nat where "AES_IV_LEN \<equiv> 16"

definition zero_AES_KEY :: AES_KEY where
  "zero_AES_KEY = \<lparr>rd_key = replicate 60 0, rounds = 0\<rparr>"

definition getMaxKeyLength :: "AESCrypt \<Rightarrow> nat" where
  "getMaxKeyLength c = (if m_isAES256 c then 32 else 16)"

definition getMaxKeyBitLength :: "AESCrypt \<Rightarrow> int" where
  "getMaxKeyBitLength c = (if m_isAES256 c then 256 else 128)"

definition resetIV :: "byte list \<Rightarrow> AESCrypt \<Rightarrow> AESCrypt" where
  "resetIV iv c =
     c\<lparr>m_number := 0,
       m_vector := mem_write (m_vector c) 0 (if iv \<noteq> [] then take AES_IV_LEN iv else take AES_IV_LEN (m_key c))\<rparr>"

definition AESCrypt_new :: "byte list \<Rightarrow> byte list \<Rightarrow> bool \<Rightarrow> AESCrypt" where
  "AESCrypt_new key iv aes256 =
     (let c = \<lparr>m_isClone = False, m_isAES256 = aes256, m_number = 0, m_aesKey = None,
               m_aesRollbackKey = None, m_key = replicate 32 0, m_vector = replicate AES_IV_LEN 0\<rparr>
      in if key \<noteq> [] then
           let c = c\<lparr>m_key := mem_write (m_key c) 0 (take (getMaxKeyLength c) key)\<rparr>;
               c = resetIV iv c
           in c\<lparr>m_aesKey := Some (snd (AES_set_encrypt_key (m_key c) (getMaxKeyBitLength c) zero_AES_KEY))\<rparr>
         else c)"

definition cloneWithStatus :: "AESCryptStatus \<Rightarrow> AESCrypt \<Rightarrow> AESCrypt" where
  "cloneWithStatus status other =
     \<lparr>m_isClone = True, m_isAES256 = m_isAES256 other, m_number = ucast (st_number status),
      m_aesKey = m_aesKey other, m_aesRollbackKey = None, m_key = replicate 32 0,
      m_vector = st_vector status\<rparr>"

definition resetStatus :: "AESCryptStatus \<Rightarrow> AESCrypt \<Rightarrow> AESCrypt" where
  "resetStatus status c = c\<lparr>m_number := ucast (st_number status), m_vector := st_vector status\<rparr>"

definition getKey :: "byte list \<Rightarrow> AESCrypt \<Rightarrow> byte list" where
  "getKey out c = mem_write out 0 (take (getMaxKeyLength c) (m_key c))"

text \<open>The feedback functions take \<open>m_vector\<close> and \<open>m_number\<close> by pointer.\<close>

definition get_cfb :: "AESCrypt \<Rightarrow> cfb_state" where
  "get_cfb c = \<lparr>ivec = m_vector c, num = unat (m_number c)\<rparr>"

definition set_cfb :: "cfb_state \<Rightarrow> AESCrypt \<Rightarrow> AESCrypt" where
  "set_cfb s c = c\<lparr>m_vector := ivec s, m_number := word_of_nat (num s)\<rparr>"

definition encrypt :: "byte list \<Rightarrow> (AESCrypt, byte list) cpp" where
  "encrypt input c =
     (if input = [] then (Inr [], c)
      else case m_aesKey c of
        None \<Rightarrow> (Inl MemoryFault, c)
      | Some key \<Rightarrow>
          let (out, s) = AES_cfb128_encrypt (\<lambda>b. AES_encrypt b key) input (get_cfb c)
          in (Inr out, set_cfb s c))"

definition decrypt :: "byte list \<Rightarrow> (AESCrypt, byte list) cpp" where
  "decrypt input c =
     (if input = [] then (Inr [], c)
      else case m_aesKey c of
        None \<Rightarrow> (Inl MemoryFault, c)
      | Some key \<Rightarrow>
          let (out, s) = AES_cfb128_decrypt (\<lambda>b. AES_encrypt b key) input (get_cfb c)
          in (Inr out, set_cfb s c))"

definition getCurStatus :: "AESCrypt \<Rightarrow> AESCryptStatus" where
  "getCurStatus c = \<lparr>st_number = ucast (m_number c), st_vector = m_vector c\<rparr>"

text \<open>\<open>input\<close> and \<open>output\<close> are the bytes before the two pointers, that is the last \<open>length\<close> bytes that
  were decrypted and what they became; \<open>status\<close> is the variable that receives the answer.\<close>

definition statusBeforeDecrypt ::
  "byte list \<Rightarrow> byte list \<Rightarrow> AESCryptStatus \<Rightarrow> AESCrypt \<Rightarrow> AESCryptStatus \<times> AESCrypt" where
  "statusBeforeDecrypt input out status c =
     (if out = [] then (status, c)
      else
        let c = (case m_aesRollbackKey c of
                   None \<Rightarrow> c\<lparr>m_aesRollbackKey :=
                     Some (snd (AES_set_decrypt_key (m_key c) (getMaxKeyBitLength c) zero_AES_KEY))\<rparr>
                 | Some _ \<Rightarrow> c);
            status = getCurStatus c;
            s = Rollback_cfb_decrypt (\<lambda>b. AES_decrypt b (the (m_aesRollbackKey c))) input out
                  \<lparr>ivec = st_vector status, num = unat (st_number status)\<rparr>
        in (\<lparr>st_number = word_of_nat (num s), st_vector = ivec s\<rparr>, c))"

text \<open>The values that \<open>rand()\<close> returns are an argument.\<close>

definition fillRandomIV :: "(nat \<Rightarrow> u32) \<Rightarrow> byte list" where
  "fillRandomIV rand = concat (map (\<lambda>i. le_bytes 4 (unat (rand i))) [0..<AES_IV_LEN div 4])"

definition ItemSizeHolders :: "u32 list" where
  "ItemSizeHolders = [0, 0x80, 0x4000, 0x200000, 0x10000000, 0]"

definition randomItemSizeHolder :: "u32 \<Rightarrow> nat \<Rightarrow> u32" where
  "randomItemSizeHolder rand len =
     (let ItemSizeHolderMin = ItemSizeHolders ! (len - 1);
          ItemSizeHolderMax = ItemSizeHolders ! len - 1
      in rand mod (ItemSizeHolderMax - ItemSizeHolderMin + 1) + ItemSizeHolderMin)"

section \<open>AES is a block cipher\<close>

abbreviation encrypt_key :: "byte list \<Rightarrow> bool \<Rightarrow> AES_KEY" where
  "encrypt_key key aes256 \<equiv> snd (AES_set_encrypt_key key (if aes256 then 256 else 128) zero_AES_KEY)"

abbreviation decrypt_key :: "byte list \<Rightarrow> bool \<Rightarrow> AES_KEY" where
  "decrypt_key key aes256 \<equiv> snd (AES_set_decrypt_key key (if aes256 then 256 else 128) zero_AES_KEY)"

lemma length_AES_encrypt [simp]: "length (AES_encrypt b key) = 16"
  by (simp add: AES_encrypt_def PUTU32_def Let_def split: prod.splits)

lemma length_AES_decrypt [simp]: "length (AES_decrypt b key) = 16"
  by (simp add: AES_decrypt_def PUTU32_def Let_def split: prod.splits)

lemma AES_decrypt_encrypt:
  assumes "bits = 128 \<or> bits = 192 \<or> bits = 256" and "60 \<le> length (rd_key sched)" and "length b = 16"
  shows "AES_decrypt (AES_encrypt b (snd (AES_set_encrypt_key userKey bits sched)))
    (snd (AES_set_decrypt_key userKey bits sched)) = b"
  using AES_schedules [OF assms(1,2), of userKey] AES_decrypt_encrypt_schedules assms(3) by blast

interpretation aes: block_cipher "\<lambda>b. AES_encrypt b (encrypt_key key aes256)"
  "\<lambda>b. AES_decrypt b (decrypt_key key aes256)" for key aes256
  by unfold_locales (auto intro!: AES_decrypt_encrypt simp: zero_AES_KEY_def)

section \<open>The cipher object\<close>

text \<open>\<open>cipher_ready\<close> is what the streaming calls rely on, also for a clone; \<open>cipher_ok\<close> holds of an
  object that was constructed with a key, for which the bytes may be rolled back as well.\<close>

definition cipher_ready :: "byte list \<Rightarrow> AESCrypt \<Rightarrow> bool" where
  "cipher_ready key c \<longleftrightarrow> m_aesKey c = Some (encrypt_key key (m_isAES256 c)) \<and> cfb_ok (get_cfb c)"

definition cipher_ok :: "AESCrypt \<Rightarrow> bool" where
  "cipher_ok c \<longleftrightarrow> cipher_ready (m_key c) c \<and>
     m_aesRollbackKey c \<in> {None, Some (decrypt_key (m_key c) (m_isAES256 c))}"

lemma set_get_cfb [simp]: "set_cfb (get_cfb c) c = c"
  by (simp add: set_cfb_def get_cfb_def)

lemma get_set_cfb [simp]: "cfb_ok s \<Longrightarrow> get_cfb (set_cfb s c) = s"
  by (cases s) (simp add: set_cfb_def get_cfb_def cfb_ok_def unsigned_of_nat take_bit_nat_eq_self)

lemma set_set_cfb [simp]: "set_cfb s (set_cfb t c) = set_cfb s c"
  by (simp add: set_cfb_def)

lemma set_cfb_fields [simp]:
  "m_aesKey (set_cfb s c) = m_aesKey c" "m_key (set_cfb s c) = m_key c" "m_isAES256 (set_cfb s c) = m_isAES256 c"
  "m_aesRollbackKey (set_cfb s c) = m_aesRollbackKey c"
  by (simp_all add: set_cfb_def)

lemma cipher_ready_set_cfb [simp]: "cipher_ready key c \<Longrightarrow> cfb_ok s \<Longrightarrow> cipher_ready key (set_cfb s c)"
  by (simp add: cipher_ready_def)

lemma cipher_ok_set_cfb [simp]: "cipher_ok c \<Longrightarrow> cfb_ok s \<Longrightarrow> cipher_ok (set_cfb s c)"
  by (simp add: cipher_ok_def)

lemma AESCrypt_new_ok:
  assumes "key \<noteq> []"
  shows "cipher_ok (AESCrypt_new key iv aes256)"
  using assms
  by (auto simp: AESCrypt_new_def Let_def cipher_ok_def cipher_ready_def resetIV_def get_cfb_def cfb_ok_def
      getMaxKeyLength_def getMaxKeyBitLength_def)

lemma resetIV_ok: "cipher_ok c \<Longrightarrow> cipher_ok (resetIV iv c)"
  by (auto simp: cipher_ok_def cipher_ready_def resetIV_def get_cfb_def cfb_ok_def)

text \<open>A stream is processed bytewise; \<open>crypt_run\<close> is the whole of what a call does.\<close>

definition crypt_run :: "(byte \<Rightarrow> byte \<Rightarrow> byte) \<Rightarrow> byte list \<Rightarrow> byte list \<Rightarrow> AESCrypt \<Rightarrow> byte list \<times> AESCrypt" where
  "crypt_run fb key xs c =
     (let (ys, s) = run_bytes (cfb_step fb (\<lambda>b. AES_encrypt b (encrypt_key key (m_isAES256 c)))) xs (get_cfb c)
      in (ys, set_cfb s c))"

lemma crypt_run_Nil [simp]: "crypt_run fb key [] c = ([], c)"
  by (simp add: crypt_run_def)

lemma encrypt_run:
  assumes "cipher_ready key c"
  shows "encrypt xs c = (let (ys, c) = crypt_run fb_enc key xs c in (Inr ys, c))"
  using assms
  by (auto simp: encrypt_def crypt_run_def cipher_ready_def aes.cfb_encrypt_run Let_def split: prod.splits)

lemma decrypt_run:
  assumes "cipher_ready key c"
  shows "decrypt xs c = (let (ys, c) = crypt_run fb_dec key xs c in (Inr ys, c))"
  using assms
  by (auto simp: decrypt_def crypt_run_def cipher_ready_def aes.cfb_decrypt_run Let_def split: prod.splits)

lemma crypt_run_ready:
  assumes "cipher_ready key c" and "crypt_run fb key xs c = (ys, d)"
  shows "cipher_ready key d" and "length ys = length xs"
  using assms aes.run_ok [of "get_cfb c" fb key "m_isAES256 c" xs]
  by (auto simp: crypt_run_def cipher_ready_def dest: length_run_bytes split: prod.splits)

lemma crypt_run_ok:
  assumes "cipher_ok c" and "crypt_run fb (m_key c) xs c = (ys, d)"
  shows "cipher_ok d" and "m_key d = m_key c"
proof -
  obtain s where d: "d = set_cfb s c" using assms(2) by (auto simp: crypt_run_def split: prod.splits)
  then show "m_key d = m_key c" by simp
  then show "cipher_ok d"
    using crypt_run_ready(1) [of "m_key c" c fb xs ys d] assms d by (simp add: cipher_ok_def)
qed

lemma crypt_run_append:
  assumes "cipher_ready key c"
  shows "crypt_run fb key (xs @ ys) c =
    (let (us, d) = crypt_run fb key xs c; (vs, e) = crypt_run fb key ys d in (us @ vs, e))"
  using assms aes.run_ok [of "get_cfb c" fb key "m_isAES256 c" xs]
  by (auto simp: crypt_run_def run_bytes_append cipher_ready_def split: prod.splits)

lemma crypt_run_inverts:
  assumes "cipher_ready key c" and "crypt_run fb_enc key xs c = (ys, d)"
  shows "crypt_run fb_dec key ys c = (xs, d)"
  using assms by (auto simp: crypt_run_def dest: run_decrypt_inverts split: prod.splits)

text \<open>A copy with another object's status continues that object's stream.\<close>

lemma num_bounds: "cfb_ok (get_cfb c) \<Longrightarrow> unat (m_number c) < 16"
  by (simp add: cfb_ok_def get_cfb_def)

lemma ucast_number:
  assumes "unat (w :: u32) < 256"
  shows "ucast (ucast w :: byte) = w" and "unat (ucast w :: byte) = unat w"
proof -
  show "unat (ucast w :: byte) = unat w"
    using assms by (simp add: unsigned_ucast_eq unsigned_take_bit_eq take_bit_nat_eq_self)
  then show "ucast (ucast w :: byte) = w"
    by (simp add: word_unat_eq_iff unsigned_ucast_eq unsigned_take_bit_eq take_bit_nat_eq_self)
qed

lemma clone_get_cfb [simp]:
  "cfb_ok (get_cfb c) \<Longrightarrow> get_cfb (cloneWithStatus (getCurStatus c) d) = get_cfb c"
  using num_bounds [of c] by (simp add: cloneWithStatus_def getCurStatus_def get_cfb_def ucast_number)

lemma clone_ready:
  assumes "cipher_ready key c" and "m_aesKey d = m_aesKey c" and "m_isAES256 d = m_isAES256 c"
  shows "cipher_ready key (cloneWithStatus (getCurStatus c) d)"
  using assms by (simp add: cipher_ready_def) (simp add: cloneWithStatus_def)

lemma clone_run:
  assumes "cipher_ready key c" and "m_isAES256 d = m_isAES256 c"
  shows "fst (crypt_run fb key xs (cloneWithStatus (getCurStatus c) d)) = fst (crypt_run fb key xs c)"
  using assms
  by (simp add: crypt_run_def cipher_ready_def case_prod_beta) (simp add: cloneWithStatus_def)

lemma statusBeforeDecrypt_decrypt:
  assumes "cipher_ok c" and "crypt_run fb_dec (m_key c) cs c = (ps, d)" and "cs \<noteq> []"
  shows "fst (statusBeforeDecrypt cs ps st d) = getCurStatus c" (is ?status)
    and "\<exists>r. snd (statusBeforeDecrypt cs ps st d) = d\<lparr>m_aesRollbackKey := r\<rparr>"
    and "cipher_ok (snd (statusBeforeDecrypt cs ps st d))"
proof -
  let ?E = "\<lambda>b. AES_encrypt b (encrypt_key (m_key c) (m_isAES256 c))"
  obtain s where s: "run_bytes (cfb_step fb_dec ?E) cs (get_cfb c) = (ps, s)" "d = set_cfb s c"
    using assms(2) by (auto simp: crypt_run_def split: prod.splits)
  have c: "cfb_ok (get_cfb c)" using assms(1) by (simp add: cipher_ok_def cipher_ready_def)
  have d: "cfb_ok s" "cipher_ok d" "get_cfb d = s"
    using aes.run_ok [OF c s(1)] assms(1) s(2) by simp_all
  have ps: "ps \<noteq> []" using assms(3) length_run_bytes [OF s(1)] by auto
  have rb: "Rollback_cfb_decrypt (\<lambda>b. AES_decrypt b (decrypt_key (m_key c) (m_isAES256 c))) cs ps s = get_cfb c"
    using aes.rollback_decrypt [OF c] s(1) aes.cfb_decrypt_run [OF c] by simp
  have st: "\<lparr>ivec = st_vector (getCurStatus d), num = unat (st_number (getCurStatus d))\<rparr> = s"
    using d num_bounds [of d] by (auto simp: getCurStatus_def get_cfb_def ucast_number)
  have getc: "\<lparr>st_number = word_of_nat (num (get_cfb c)), st_vector = ivec (get_cfb c)\<rparr> = getCurStatus c"
    using num_bounds [OF c] by (simp add: getCurStatus_def get_cfb_def)
  have eq: "statusBeforeDecrypt cs ps st d =
      (getCurStatus c, d\<lparr>m_aesRollbackKey := Some (decrypt_key (m_key c) (m_isAES256 c))\<rparr>)"
    using d(2) ps rb st getc s(2)
    by (cases "m_aesRollbackKey d")
      (auto simp: statusBeforeDecrypt_def Let_def cipher_ok_def getMaxKeyBitLength_def getCurStatus_def)
  show ?status "\<exists>r. snd (statusBeforeDecrypt cs ps st d) = d\<lparr>m_aesRollbackKey := r\<rparr>"
    unfolding eq by auto
  show "cipher_ok (snd (statusBeforeDecrypt cs ps st d))"
    using d(2) s(2) unfolding eq by (simp add: cipher_ok_def cipher_ready_def get_cfb_def)
qed

section \<open>The placeholder\<close>

lemma holder_bounds:
  fixes r W m :: u32
  assumes "0 < unat W" and "unat W + unat m \<le> 2 ^ 32"
  shows "unat m \<le> unat (r mod W + m)" and "unat (r mod W + m) < unat W + unat m"
proof -
  have l: "unat (r mod W) < unat W" using assms(1) by (simp add: unat_mod)
  then have "unat (r mod W + m) = unat (r mod W) + unat m"
    using assms(2) by (simp add: unat_add_lem [symmetric])
  with l show "unat m \<le> unat (r mod W + m)" "unat (r mod W + m) < unat W + unat m" by simp_all
qed

lemma pbRawVarint32Size_tests:
  "pbRawVarint32Size v = (if unat v < 2 ^ 7 then 1 else if unat v < 2 ^ 14 then 2
     else if unat v < 2 ^ 21 then 3 else if unat v < 2 ^ 28 then 4 else 5)"
  by (simp only: pbRawVarint32Size_def pbRawVarint32Size_test)

lemma randomItemSizeHolder_size:
  assumes "n \<in> {1..5}"
  shows "unat (pbRawVarint32Size (randomItemSizeHolder rand n)) = n"
proof -
  from assms consider "n = 1" | "n = 2" | "n = 3" | "n = 4" | "n = 5" by fastforce
  then show ?thesis
  proof cases
    case 1
    then show ?thesis
      using holder_bounds [where W = "0x80" and m = "0" and r = rand]
      by (simp add: randomItemSizeHolder_def ItemSizeHolders_def pbRawVarint32Size_tests)
  next
    case 2
    then show ?thesis
      using holder_bounds [where W = "0x3f80" and m = "0x80" and r = rand]
      by (simp add: randomItemSizeHolder_def ItemSizeHolders_def pbRawVarint32Size_tests)
  next
    case 3
    then show ?thesis
      using holder_bounds [where W = "0x1fc000" and m = "0x4000" and r = rand]
      by (simp add: randomItemSizeHolder_def ItemSizeHolders_def pbRawVarint32Size_tests)
  next
    case 4
    then show ?thesis
      using holder_bounds [where W = "0xfe00000" and m = "0x200000" and r = rand]
      by (simp add: randomItemSizeHolder_def ItemSizeHolders_def pbRawVarint32Size_tests)
  next
    case 5
    have e: "(- 268435456 :: u32) = 0xf0000000" by simp
    from 5 show ?thesis
      using holder_bounds [where W = "0xf0000000" and m = "0x10000000" and r = rand]
      by (simp add: randomItemSizeHolder_def ItemSizeHolders_def pbRawVarint32Size_tests e)
  qed
qed

section \<open>Streams in pieces\<close>

fun in_pieces :: "(byte list \<Rightarrow> ('s, byte list) cpp) \<Rightarrow> byte list list \<Rightarrow> ('s, byte list) cpp" where
  "in_pieces f [] = returnC []"
| "in_pieces f (xs # xss) = bindC (f xs) (\<lambda>ys. bindC (in_pieces f xss) (\<lambda>zs. returnC (ys @ zs)))"

locale stream =
  fixes step :: "byte list \<Rightarrow> ('s, byte list) cpp" and inv :: "'k \<Rightarrow> 's \<Rightarrow> bool"
  assumes step_Nil: "inv k s \<Longrightarrow> step [] s = (Inr [], s)"
    and step_append: "inv k s \<Longrightarrow> step (xs @ ys) s =
      bindC (step xs) (\<lambda>us. bindC (step ys) (\<lambda>vs. returnC (us @ vs))) s"
    and step_inv: "inv k s \<Longrightarrow> \<exists>ys t. step xs s = (Inr ys, t) \<and> inv k t"
begin

lemma in_pieces: "inv k s \<Longrightarrow> in_pieces step xss s = step (concat xss) s"
proof (induction xss arbitrary: s)
  case (Cons xs xss)
  obtain ys t where "step xs s = (Inr ys, t)" "inv k t" using step_inv [OF Cons.prems] by blast
  with Cons show ?case
    by (simp add: step_append [OF Cons.prems] bindC_def)
qed (simp add: step_Nil returnC_def)

end

lemma crypt_append:
  assumes "cipher_ready key c"
  shows "encrypt (xs @ ys) c = bindC (encrypt xs) (\<lambda>us. bindC (encrypt ys) (\<lambda>vs. returnC (us @ vs))) c"
    and "decrypt (xs @ ys) c = bindC (decrypt xs) (\<lambda>us. bindC (decrypt ys) (\<lambda>vs. returnC (us @ vs))) c"
proof -
  have r: "cipher_ready key (snd (crypt_run fb key xs c))" for fb
    by (rule crypt_run_ready(1) [OF assms]) (rule prod.collapse [symmetric])
  show "encrypt (xs @ ys) c = bindC (encrypt xs) (\<lambda>us. bindC (encrypt ys) (\<lambda>vs. returnC (us @ vs))) c"
    using r [of fb_enc]
    by (simp add: encrypt_run [OF assms] encrypt_run [OF r] crypt_run_append [OF assms] bindC_def returnC_def
        case_prod_beta)
  show "decrypt (xs @ ys) c = bindC (decrypt xs) (\<lambda>us. bindC (decrypt ys) (\<lambda>vs. returnC (us @ vs))) c"
    using r [of fb_dec]
    by (simp add: decrypt_run [OF assms] decrypt_run [OF r] crypt_run_append [OF assms] bindC_def returnC_def
        case_prod_beta)
qed

interpretation enc_stream: stream encrypt cipher_ready
  by (unfold_locales, simp add: encrypt_run, rule crypt_append(1))
    (auto simp: encrypt_run split: prod.splits dest: crypt_run_ready(1))

interpretation dec_stream: stream decrypt cipher_ready
  by (unfold_locales, simp add: decrypt_run, rule crypt_append(2))
    (auto simp: decrypt_run split: prod.splits dest: crypt_run_ready(1))

end
