(* ===== verification/KeyValueHolderCrypt.thy ===== *)
theory KeyValueHolderCrypt
  imports AESCrypt PBMap
begin

text \<open>
  The holder of an encrypted store (\<open>KeyValueHolder.h\<close>, \<open>KeyValueHolder.cpp\<close>): a value is kept in the
  holder itself when it is small, in a block of its own when it is of medium size, and otherwise is
  located in the file, together with the cipher status at the start of its entry, from which the
  entry is decrypted again.

  The union of the sources is a record with the fields of all three views; \<open>kh_type\<close> says which is
  valid. A block of memory is the list of its bytes, \<open>None\<close> the null pointer. \<open>free\<close> and the
  destructor have no counterpart.
\<close>

unbundle bit_operations_syntax

datatype KeyValueHolderType = Direct | Memory | Offset

record KeyValueHolderCrypt =
  kh_type :: KeyValueHolderType
  kh_pbKeyValueSize :: byte
  kh_keySize :: u16
  kh_valueSize :: u32
  kh_offset :: u32
  kh_cryptStatus :: AESCryptStatus
  kh_paddedSize :: byte
  kh_paddedValue :: "byte list"
  kh_memSize :: u32
  kh_memPtr :: "byte list option"

definition holder_default :: KeyValueHolderCrypt where
  "holder_default = \<lparr>kh_type = Direct, kh_pbKeyValueSize = 0, kh_keySize = 0, kh_valueSize = 0, kh_offset = 0,
     kh_cryptStatus = \<lparr>st_number = 0, st_vector = replicate 16 0\<rparr>, kh_paddedSize = 0, kh_paddedValue = [],
     kh_memSize = 0, kh_memPtr = None\<rparr>"

text \<open>The packed structure has 29 bytes; the value of the direct view starts at the third.\<close>

definition KVHC_SmallBufferSize :: nat where
  "KVHC_SmallBufferSize = 29 - 2"

definition MediumBufferSize :: nat where
  "MediumBufferSize = 256"

definition isValueStoredAsOffset :: "nat \<Rightarrow> bool" where
  "isValueStoredAsOffset len \<longleftrightarrow> MediumBufferSize < len"

definition KeyValueHolderCrypt_value :: "byte list \<Rightarrow> KeyValueHolderCrypt" where
  "KeyValueHolderCrypt_value src =
     (if length src \<le> KVHC_SmallBufferSize
      then holder_default\<lparr>kh_type := Direct, kh_paddedSize := word_of_nat (length src), kh_paddedValue := src\<rparr>
      else holder_default\<lparr>kh_type := Memory, kh_memSize := word_of_nat (length src), kh_memPtr := Some src\<rparr>)"

definition KeyValueHolderCrypt_offset :: "u32 \<Rightarrow> u32 \<Rightarrow> u32 \<Rightarrow> KeyValueHolderCrypt" where
  "KeyValueHolderCrypt_offset keyLength valueLength off =
     (let ks = (ucast keyLength :: u16)
      in holder_default\<lparr>kh_type := Offset, kh_keySize := ks, kh_valueSize := valueLength, kh_offset := off,
           kh_pbKeyValueSize := ucast (pbRawVarint32Size (ucast ks) + pbRawVarint32Size valueLength)\<rparr>)"

text \<open>Moving: the new state of the target and of the source.\<close>

definition holder_move ::
  "KeyValueHolderCrypt \<Rightarrow> KeyValueHolderCrypt \<Rightarrow> KeyValueHolderCrypt \<times> KeyValueHolderCrypt" where
  "holder_move this other =
     (if kh_type other = Direct \<or> kh_type other = Offset then (other, other)
      else (this\<lparr>kh_type := Memory, kh_memSize := kh_memSize other, kh_memPtr := kh_memPtr other\<rparr>,
            other\<lparr>kh_memPtr := None\<rparr>))"

definition realValueSize :: "KeyValueHolderCrypt \<Rightarrow> u32" where
  "realValueSize h = (case kh_type h of
     Direct \<Rightarrow> ucast (kh_paddedSize h)
   | Offset \<Rightarrow> kh_valueSize h
   | Memory \<Rightarrow> kh_memSize h)"

definition toTuple :: "KeyValueHolderCrypt \<Rightarrow> u32 \<times> u32 \<times> AESCryptStatus" where
  "toTuple h = (kh_offset h, ucast (kh_pbKeyValueSize h) + ucast (kh_keySize h) + kh_valueSize h, kh_cryptStatus h)"

section \<open>Decrypting a located value\<close>

text \<open>The loop that decrypts what lies before the value, sixteen bytes at a time; \<open>ptr\<close> is the position
  it has reached.\<close>

function decryptBuffer_loop :: "byte list \<Rightarrow> nat \<Rightarrow> nat \<Rightarrow> nat \<Rightarrow> (AESCrypt, nat) cpp" where
  "decryptBuffer_loop inputBuffer pos index ptr =
     (if index < pos
      then bindC (decrypt (mem_read inputBuffer ptr 16))
             (\<lambda>_. decryptBuffer_loop inputBuffer pos (index + 16) (ptr + 16))
      else returnC ptr)"
  by pat_completeness auto

termination by (relation "measure (\<lambda>(inputBuffer, pos, index, ptr). pos - index)") auto

declare decryptBuffer_loop.simps [simp del]

definition decryptBuffer :: "byte list \<Rightarrow> nat \<Rightarrow> (AESCrypt, byte list) cpp" where
  "decryptBuffer inputBuffer pos =
     bindC (decryptBuffer_loop inputBuffer pos 16 0) (\<lambda>ptr.
     bindC (if ptr < pos then bindC (decrypt (mem_read inputBuffer ptr (pos - ptr))) (\<lambda>_. returnC pos)
            else returnC ptr) (\<lambda>ptr.
     decrypt (mem_read inputBuffer ptr (length inputBuffer - pos))))"

definition toMMBuffer_crypt ::
  "byte list \<Rightarrow> AESCrypt \<Rightarrow> KeyValueHolderCrypt \<Rightarrow> cpp_exception + byte list" where
  "toMMBuffer_crypt base crypter h = (case kh_type h of
     Direct \<Rightarrow> Inr (take (unat (kh_paddedSize h)) (kh_paddedValue h))
   | Memory \<Rightarrow> (case kh_memPtr h of None \<Rightarrow> Inl MemoryFault | Some p \<Rightarrow> Inr (take (unat (kh_memSize h)) p))
   | Offset \<Rightarrow>
       let pos = ucast (kh_pbKeyValueSize h) + ucast (kh_keySize h) :: u32;
           realSize = pos + kh_valueSize h;
           kvBuffer = mem_read base (unat (kh_offset h)) (unat realSize)
       in fst (decryptBuffer kvBuffer (unat pos) (cloneWithStatus (kh_cryptStatus h) crypter)))"

section \<open>Values come back\<close>

lemma toMMBuffer_crypt_value:
  assumes "length v < 2 ^ 32"
  shows "toMMBuffer_crypt base crypter (KeyValueHolderCrypt_value v) = Inr v"
    and "unat (realValueSize (KeyValueHolderCrypt_value v)) = length v"
  using assms
  by (auto simp: toMMBuffer_crypt_def KeyValueHolderCrypt_value_def KVHC_SmallBufferSize_def realValueSize_def
      unat_of_nat take_bit_nat_eq_self unsigned_ucast_eq)

lemma decryptBuffer_loop_pieces:
  assumes "cipher_ready key c" and "ptr + 16 = index" and "ptr \<le> pos"
  shows "\<exists>n d. decryptBuffer_loop buf pos index ptr c = (Inr n, d) \<and> ptr \<le> n \<and> n \<le> pos \<and>
    d = snd (crypt_run fb_dec key (mem_read buf ptr (n - ptr)) c)"
  using assms
proof (induction buf pos index ptr arbitrary: c rule: decryptBuffer_loop.induct)
  case (1 buf pos index ptr)
  show ?case
  proof (cases "index < pos")
    case True
    obtain ys d where r: "crypt_run fb_dec key (mem_read buf ptr 16) c = (ys, d)" by fastforce
    have d: "cipher_ready key d" by (rule crypt_run_ready [OF "1.prems"(1) r])
    have "\<exists>n e. decryptBuffer_loop buf pos (index + 16) (ptr + 16) d = (Inr n, e) \<and> ptr + 16 \<le> n \<and> n \<le> pos \<and>
        e = snd (crypt_run fb_dec key (mem_read buf (ptr + 16) (n - (ptr + 16))) d)"
      by (rule "1.IH" [OF True d]) (use True "1.prems" in simp_all)
    then obtain n e where n: "decryptBuffer_loop buf pos (index + 16) (ptr + 16) d = (Inr n, e)"
      "ptr + 16 \<le> n" "n \<le> pos" "e = snd (crypt_run fb_dec key (mem_read buf (ptr + 16) (n - (ptr + 16))) d)"
      by blast
    have "mem_read buf ptr (n - ptr) = mem_read buf ptr 16 @ mem_read buf (ptr + 16) (n - (ptr + 16))"
      using n(2) mem_read_add [of buf ptr 16 "n - (ptr + 16)"] by simp
    then have "e = snd (crypt_run fb_dec key (mem_read buf ptr (n - ptr)) c)"
      using n(4) r by (simp add: crypt_run_append [OF "1.prems"(1)] case_prod_beta)
    moreover have "decryptBuffer_loop buf pos index ptr c = (Inr n, e)"
      using True n(1) r by (subst decryptBuffer_loop.simps) (simp add: bindC_def decrypt_run [OF "1.prems"(1)])
    ultimately show ?thesis using n(2,3) by auto
  next
    case False
    then show ?thesis
      using "1.prems" by (subst decryptBuffer_loop.simps) (simp add: returnC_def mem_read_def)
  qed
qed

text \<open>Decrypting in pieces of sixteen gives what lies behind the position.\<close>

lemma decryptBuffer_run:
  assumes "cipher_ready key c" and "crypt_run fb_dec key buf c = (plain, d)" and "pos \<le> length buf"
  shows "fst (decryptBuffer buf pos c) = Inr (drop pos plain)"
proof -
  obtain n e where n: "decryptBuffer_loop buf pos 16 0 c = (Inr n, e)" "n \<le> pos"
    "e = snd (crypt_run fb_dec key (mem_read buf 0 n) c)"
    using decryptBuffer_loop_pieces [OF assms(1), of 0 16 pos buf] by auto
  have e: "cipher_ready key e"
    using crypt_run_ready(1) [OF assms(1), of fb_dec "mem_read buf 0 n"] n(3) by (metis prod.collapse)
  have "snd (crypt_run fb_dec key (mem_read buf n (pos - n)) e) = snd (crypt_run fb_dec key (take pos buf) c)"
  proof -
    have "take pos buf = mem_read buf 0 n @ mem_read buf n (pos - n)"
      using n(2) mem_read_add [of buf 0 n "pos - n"] by (simp add: mem_read_def)
    then show ?thesis using n(3) by (simp add: crypt_run_append [OF assms(1)] case_prod_beta)
  qed
  then have "(if n < pos then bindC (decrypt (mem_read buf n (pos - n))) (\<lambda>_. returnC pos) else returnC n) e =
      (Inr pos, snd (crypt_run fb_dec key (take pos buf) c))"
    using n(2) decrypt_run [OF e, of "mem_read buf n (pos - n)"]
    by (cases "n = pos") (simp_all add: bindC_def returnC_def case_prod_beta)
  then have "fst (decryptBuffer buf pos c) =
      fst (decrypt (drop pos buf) (snd (crypt_run fb_dec key (take pos buf) c)))"
    by (simp add: decryptBuffer_def bindC_def n(1) mem_read_def)
  moreover have "cipher_ready key (snd (crypt_run fb_dec key (take pos buf) c))"
    using crypt_run_ready(1) [OF assms(1)] by (metis prod.collapse)
  moreover have "plain = fst (crypt_run fb_dec key (take pos buf) c) @
      fst (crypt_run fb_dec key (drop pos buf) (snd (crypt_run fb_dec key (take pos buf) c)))"
    using assms(2) crypt_run_append [OF assms(1), of fb_dec "take pos buf" "drop pos buf"]
    by (simp add: case_prod_beta)
  moreover have "length (fst (crypt_run fb_dec key (take pos buf) c)) = pos"
    using crypt_run_ready(2) [OF assms(1)] assms(3) by (metis prod.collapse length_take min.absorb2)
  ultimately show ?thesis by (simp add: decrypt_run case_prod_beta)
qed

end
