(* ===== verification/CryptInput.thy ===== *)
theory CryptInput
  imports KeyValueHolderCrypt
begin

text \<open>
  \<open>CodedInputDataCrypt.cpp\<close> (and \<open>readNSString\<close> of \<open>CodedInputDataCrypt_OSX.cpp\<close>): the reader of an
  encrypted log. It decrypts ahead of the reading position into a buffer of its own, keeps the bytes
  from the discard position on, so that the cipher can be rolled back to the start of an entry, and
  skips large values by decrypting them over the same sixteen bytes.

  \<^item> The region that \<open>m_ptr\<close> points to and the decrypt buffer are lists; an access outside of them,
    and an \<open>assert\<close> that does not hold, is a \<open>MemoryFault\<close>.
  \<^item> \<open>cr_junk\<close> is what fresh memory holds (of \<open>malloc\<close> and of the new part of \<open>realloc\<close>); allocation
    does not fail.
  \<^item> \<open>m_decrypter\<close> is a reference to the store's cipher: here a component of the state.
\<close>

unbundle bit_operations_syntax

record coded_input_crypt =
  cr_ptr :: "byte list"
  cr_size :: nat
  cr_position :: nat
  cr_decryptPosition :: nat
  cr_decrypter :: AESCrypt
  cr_buffer :: "byte list"
  cr_bufferSize :: nat
  cr_bufferPosition :: nat
  cr_decryptLength :: nat
  cr_discardPosition :: nat
  cr_junk :: "nat \<Rightarrow> byte"

definition CodedInputDataCrypt :: "(nat \<Rightarrow> byte) \<Rightarrow> byte list \<Rightarrow> AESCrypt \<Rightarrow> coded_input_crypt" where
  "CodedInputDataCrypt junk oData crypt =
     (let n = unat (m_number crypt)
      in \<lparr>cr_ptr = oData, cr_size = length oData, cr_position = 0, cr_decryptPosition = 0,
          cr_decrypter = crypt, cr_buffer = map junk [0..<AES_IV_LEN * 2], cr_bufferSize = AES_IV_LEN * 2,
          cr_bufferPosition = n, cr_decryptLength = n, cr_discardPosition = n, cr_junk = junk\<rparr>)"

definition isAtEnd_crypt :: "coded_input_crypt \<Rightarrow> bool" where
  "isAtEnd_crypt s \<longleftrightarrow> cr_position s = cr_size s"

definition assertC :: "bool \<Rightarrow> ('s, unit) cpp" where
  "assertC b = (if b then returnC () else throwC MemoryFault)"

definition seek_crypt :: "nat \<Rightarrow> (coded_input_crypt, unit) cpp" where
  "seek_crypt addedSize s =
     (let s = s\<lparr>cr_position := cr_position s + addedSize, cr_decryptPosition := cr_decryptPosition s + addedSize\<rparr>
      in if cr_position s > cr_size s then (Inl OutOfRange, s)
         else assertC (cr_position s mod AES_IV_LEN = unat (m_number (cr_decrypter s))) s)"

text \<open>\<open>m_decrypter.decrypt(m_ptr + m_decryptPosition, m_decryptBuffer + off, len)\<close>.\<close>

definition decryptTo :: "nat \<Rightarrow> nat \<Rightarrow> (coded_input_crypt, unit) cpp" where
  "decryptTo off len s =
     (if cr_decryptPosition s + len \<le> length (cr_ptr s) \<and> off + len \<le> length (cr_buffer s) then
        case decrypt (mem_read (cr_ptr s) (cr_decryptPosition s) len) (cr_decrypter s) of
          (Inl e, c) \<Rightarrow> (Inl e, s\<lparr>cr_decrypter := c\<rparr>)
        | (Inr out, c) \<Rightarrow> (Inr (), s\<lparr>cr_decrypter := c, cr_buffer := mem_write (cr_buffer s) off out\<rparr>)
      else (Inl MemoryFault, s))"

definition round_up :: "nat \<Rightarrow> nat" where
  "round_up len = (len + AES_IV_LEN - 1) div AES_IV_LEN * AES_IV_LEN"

definition aligned_length :: "nat \<Rightarrow> nat \<Rightarrow> nat" where
  "aligned_length number len =
     (if number \<noteq> 0 then
        let alignDecrypter = AES_IV_LEN - number
        in if len < alignDecrypter then alignDecrypter else round_up (len - alignDecrypter) + alignDecrypter
      else round_up len)"

definition move_space :: "(coded_input_crypt, unit) cpp" where
  "move_space s =
     (let posToMove = cr_discardPosition s div AES_IV_LEN * AES_IV_LEN
      in if posToMove = 0 then (Inr (), s)
         else if cr_decryptLength s < posToMove \<or> cr_bufferPosition s < posToMove then (Inl MemoryFault, s)
         else
           let sizeToMove = cr_decryptLength s - posToMove
           in (Inr (), s\<lparr>cr_buffer := mem_write (cr_buffer s) 0 (mem_read (cr_buffer s) posToMove sizeToMove),
                 cr_bufferPosition := cr_bufferPosition s - posToMove,
                 cr_decryptLength := cr_decryptLength s - posToMove,
                 cr_discardPosition := 0\<rparr>))"

definition grow_buffer :: "nat \<Rightarrow> (coded_input_crypt, unit) cpp" where
  "grow_buffer len s =
     (Inr (), s\<lparr>cr_buffer := cr_buffer s @ map (cr_junk s) [0..<len], cr_bufferSize := cr_bufferSize s + len\<rparr>)"

definition bytesLeftInBuffer :: "coded_input_crypt \<Rightarrow> nat" where
  "bytesLeftInBuffer s = cr_bufferSize s - cr_decryptLength s"

definition consumeBytes :: "nat \<Rightarrow> bool \<Rightarrow> (coded_input_crypt, unit) cpp" where
  "consumeBytes len discardPreData s =
     (let s = (if discardPreData then s\<lparr>cr_discardPosition := cr_bufferPosition s\<rparr> else s);
          decryptedBytesLeft = cr_decryptLength s - cr_bufferPosition s
      in if decryptedBytesLeft \<ge> len then (Inr (), s)
         else
           let len = min (cr_size s - cr_decryptPosition s)
                 (aligned_length (unat (m_number (cr_decrypter s))) (len - decryptedBytesLeft))
           in bindC (if bytesLeftInBuffer s < len \<and> cr_discardPosition s > 0 then move_space else returnC ()) (\<lambda>_.
              bindC (\<lambda>s. (if bytesLeftInBuffer s < len then grow_buffer len else returnC ()) s) (\<lambda>_.
              bindC (\<lambda>s. decryptTo (cr_decryptLength s) len s) (\<lambda>_.
              (\<lambda>s. let s = s\<lparr>cr_decryptPosition := cr_decryptPosition s + len,
                               cr_decryptLength := cr_decryptLength s + len\<rparr>
                    in assertC (cr_decryptPosition s = cr_size s \<or> m_number (cr_decrypter s) = 0) s)))) s)"

fun skip_rounds :: "nat \<Rightarrow> (coded_input_crypt, unit) cpp" where
  "skip_rounds 0 = returnC ()"
| "skip_rounds (Suc n) = bindC (decryptTo 0 AES_IV_LEN) (\<lambda>_ s.
     skip_rounds n (s\<lparr>cr_decryptPosition := cr_decryptPosition s + AES_IV_LEN\<rparr>))"

definition skipBytes :: "nat \<Rightarrow> (coded_input_crypt, unit) cpp" where
  "skipBytes len s =
     (let s = s\<lparr>cr_position := cr_position s + len\<rparr>;
          decryptedBytesLeft = cr_decryptLength s - cr_bufferPosition s
      in if decryptedBytesLeft \<ge> len then (Inr (), s\<lparr>cr_bufferPosition := cr_bufferPosition s + len\<rparr>)
         else
           let len = len - decryptedBytesLeft;
               sz = min (round_up len) (cr_size s - cr_decryptPosition s);
               decryptedBytesLeft = sz - len;
               rest = sz mod AES_IV_LEN
           in bindC (assertC (m_number (cr_decrypter s) = 0)) (\<lambda>_.
              bindC (skip_rounds (sz div AES_IV_LEN)) (\<lambda>_.
              bindC (if rest \<noteq> 0
                     then bindC (decryptTo 0 rest) (\<lambda>_ s. (Inr (),
                       s\<lparr>cr_decryptPosition := cr_decryptPosition s + rest,
                         cr_bufferPosition := rest - decryptedBytesLeft, cr_decryptLength := rest\<rparr>))
                     else (\<lambda>s. (Inr (), s\<lparr>cr_bufferPosition := AES_IV_LEN - decryptedBytesLeft,
                                            cr_decryptLength := AES_IV_LEN\<rparr>))) (\<lambda>_.
              (\<lambda>s. assertC (cr_bufferPosition s \<le> cr_decryptLength s \<and>
                     cr_decryptPosition s - cr_decryptLength s + cr_bufferPosition s = cr_position s) s)))) s)"

text \<open>The status variable that is written is the holder's.\<close>

definition statusBeforeDecrypt_at :: "nat \<Rightarrow> AESCryptStatus \<Rightarrow> (coded_input_crypt, AESCryptStatus) cpp" where
  "statusBeforeDecrypt_at rollbackSize status s =
     (let n = rollbackSize + (cr_decryptLength s - cr_bufferPosition s)
      in if n \<le> cr_decryptPosition s \<and> n \<le> cr_decryptLength s then
           let (st, c) = statusBeforeDecrypt (mem_read (cr_ptr s) (cr_decryptPosition s - n) n)
                 (mem_read (cr_buffer s) (cr_decryptLength s - n) n) status (cr_decrypter s)
           in (Inr st, s\<lparr>cr_decrypter := c\<rparr>)
         else (Inl MemoryFault, s))"

definition readRawByte_crypt :: "(coded_input_crypt, byte) cpp" where
  "readRawByte_crypt s =
     (if cr_decryptPosition s < cr_position s then (Inl MemoryFault, s)
      else if cr_position s = cr_size s then (Inl OutOfRange, s)
      else
        let s = s\<lparr>cr_position := cr_position s + 1\<rparr>
        in if cr_bufferPosition s < cr_bufferSize s
           then (Inr (cr_buffer s ! cr_bufferPosition s), s\<lparr>cr_bufferPosition := cr_bufferPosition s + 1\<rparr>)
           else (Inl MemoryFault, s))"

fun discardUpperBytes_crypt :: "nat \<Rightarrow> int32 \<Rightarrow> (coded_input_crypt, int32) cpp" where
  "discardUpperBytes_crypt 0 result = throwC InvalidArgument"
| "discardUpperBytes_crypt (Suc n) result =
     bindC readRawByte_crypt (\<lambda>b. if 0 \<le> sint b then returnC result else discardUpperBytes_crypt n result)"

definition readRawVarint32_crypt :: "bool \<Rightarrow> (coded_input_crypt, int32) cpp" where
  "readRawVarint32_crypt discardPreData =
     bindC (consumeBytes 10 discardPreData) (\<lambda>_.
     bindC readRawByte_crypt (\<lambda>tmp.
     if 0 \<le> sint tmp then returnC (scast tmp) else
     let result = scast tmp AND 0x7f in
     bindC readRawByte_crypt (\<lambda>tmp.
     if 0 \<le> sint tmp then returnC (result OR push_bit 7 (scast tmp)) else
     let result = result OR push_bit 7 (scast tmp AND 0x7f) in
     bindC readRawByte_crypt (\<lambda>tmp.
     if 0 \<le> sint tmp then returnC (result OR push_bit 14 (scast tmp)) else
     let result = result OR push_bit 14 (scast tmp AND 0x7f) in
     bindC readRawByte_crypt (\<lambda>tmp.
     if 0 \<le> sint tmp then returnC (result OR push_bit 21 (scast tmp)) else
     let result = result OR push_bit 21 (scast tmp AND 0x7f) in
     bindC readRawByte_crypt (\<lambda>tmp.
     let result = result OR push_bit 28 (scast tmp) in
     if sint tmp < 0 then discardUpperBytes_crypt 5 result else returnC result))))))"

definition readInt32_crypt :: "(coded_input_crypt, int32) cpp" where
  "readInt32_crypt = readRawVarint32_crypt False"

text \<open>Reading \<open>n\<close> decrypted bytes out of the buffer.\<close>

definition takeBuffer :: "nat \<Rightarrow> (coded_input_crypt, byte list) cpp" where
  "takeBuffer n s =
     (if cr_bufferPosition s + n \<le> length (cr_buffer s)
      then (Inr (mem_read (cr_buffer s) (cr_bufferPosition s) n),
            s\<lparr>cr_position := cr_position s + n, cr_bufferPosition := cr_bufferPosition s + n\<rparr>)
      else (Inl MemoryFault, s))"

definition readString_crypt ::
  "KeyValueHolderCrypt \<Rightarrow> (coded_input_crypt, byte list \<times> KeyValueHolderCrypt) cpp" where
  "readString_crypt kvHolder s =
     (let kvHolder = kvHolder\<lparr>kh_offset := word_of_nat (cr_position s)\<rparr>
      in bindC (readRawVarint32_crypt True) (\<lambda>size.
           if sint size < 0 then throwC LengthError
           else (\<lambda>s. let s_size = unat size
                     in if s_size \<le> cr_size s - cr_position s
                        then bindC (consumeBytes s_size False) (\<lambda>_.
                             bindC (takeBuffer s_size) (\<lambda>result.
                             returnC (result, kvHolder\<lparr>kh_keySize := word_of_nat s_size\<rparr>))) s
                        else (Inl OutOfRange, s))) s)"

definition readNSString_crypt ::
  "(byte list \<Rightarrow> 'k option) \<Rightarrow> KeyValueHolderCrypt \<Rightarrow> (coded_input_crypt, 'k option \<times> KeyValueHolderCrypt) cpp" where
  "readNSString_crypt utf8 kvHolder s =
     (let kvHolder = kvHolder\<lparr>kh_offset := word_of_nat (cr_position s)\<rparr>
      in bindC (readRawVarint32_crypt True) (\<lambda>size.
           if sint size < 0 then throwC LengthError
           else (\<lambda>s. let s_size = unat size
                     in if s_size \<le> cr_size s - cr_position s
                        then bindC (consumeBytes s_size False) (\<lambda>_.
                             bindC (takeBuffer s_size) (\<lambda>ptr.
                             returnC (utf8 ptr, kvHolder\<lparr>kh_keySize := word_of_nat s_size\<rparr>))) s
                        else (Inl OutOfRange, s))) s)"

definition readData_crypt :: "KeyValueHolderCrypt \<Rightarrow> (coded_input_crypt, KeyValueHolderCrypt) cpp" where
  "readData_crypt kvHolder = bindC (readRawVarint32_crypt False) (\<lambda>size.
     if sint size < 0 then throwC LengthError
     else (\<lambda>s. let s_size = unat size
               in if s_size \<le> cr_size s - cr_position s then
                    if isValueStoredAsOffset s_size then
                      let kvHolder = kvHolder\<lparr>kh_type := Offset, kh_valueSize := word_of_nat s_size\<rparr>;
                          kvHolder = kvHolder\<lparr>kh_pbKeyValueSize := ucast (pbRawVarint32Size (kh_valueSize kvHolder)
                                       + pbRawVarint32Size (ucast (kh_keySize kvHolder)))\<rparr>;
                          rollbackSize = unat (kh_pbKeyValueSize kvHolder) + unat (kh_keySize kvHolder)
                      in bindC (statusBeforeDecrypt_at rollbackSize (kh_cryptStatus kvHolder)) (\<lambda>st.
                         bindC (skipBytes s_size) (\<lambda>_.
                         returnC (kvHolder\<lparr>kh_cryptStatus := st\<rparr>))) s
                    else
                      bindC (consumeBytes s_size False) (\<lambda>_.
                      bindC (takeBuffer s_size) (\<lambda>value.
                      returnC (fst (holder_move (kvHolder\<lparr>kh_type := Direct\<rparr>) (KeyValueHolderCrypt_value value))))) s
                  else (Inl OutOfRange, s)))"

section \<open>Decoding an encrypted map\<close>

type_synonym MMKVMapCrypt = "byte list \<rightharpoonup> KeyValueHolderCrypt"

definition decodeMapCrypt_entry :: "MMKVMapCrypt \<Rightarrow> (coded_input_crypt, MMKVMapCrypt) cpp" where
  "decodeMapCrypt_entry dictionary =
     bindC (readString_crypt holder_default) (\<lambda>(key, kvHolder).
       if length key > 0 then
         bindC (readData_crypt kvHolder) (\<lambda>kvHolder.
           if realValueSize kvHolder > 0 then returnC (dictionary(key \<mapsto> kvHolder))
           else if key \<in> dom dictionary then returnC (dictionary(key := None))
           else returnC dictionary)
       else returnC dictionary)"

text \<open>The cipher belongs to the store: its state after decoding is part of the outcome.\<close>

definition decodeMapCrypt_block ::
  "nat \<Rightarrow> MMKVMapCrypt \<Rightarrow> coded_input_crypt \<Rightarrow> (cpp_exception option \<times> MMKVMapCrypt \<times> AESCrypt) option" where
  "decodeMapCrypt_block pos dictionary s =
     (case (if pos \<noteq> 0 then seek_crypt pos else bindC readInt32_crypt (\<lambda>_. returnC ())) s of
        (Inl e, s) \<Rightarrow> Some (Some e, dictionary, cr_decrypter s)
      | (Inr _, s) \<Rightarrow>
          map_option (\<lambda>(e, dictionary, s). (e, dictionary, cr_decrypter s))
            (while_not_at_end isAtEnd_crypt decodeMapCrypt_entry dictionary s))"

definition decodeOneMapCrypt ::
  "MMKVMapCrypt \<Rightarrow> nat \<Rightarrow> bool \<Rightarrow> coded_input_crypt \<Rightarrow> ((cpp_exception + MMKVMapCrypt) \<times> AESCrypt) option" where
  "decodeOneMapCrypt dic pos greedy s =
     (if greedy
      then map_option (\<lambda>(e, d, c). (catch_greedy (e, d), c)) (decodeMapCrypt_block pos dic s)
      else map_option (\<lambda>(e, d, c). (catch_swap dic (e, d), c)) (decodeMapCrypt_block pos Map.empty s))"

definition decodeMapCrypt ::
  "(nat \<Rightarrow> byte) \<Rightarrow> MMKVMapCrypt \<Rightarrow> byte list \<Rightarrow> AESCrypt \<Rightarrow> nat \<Rightarrow>
   ((cpp_exception + MMKVMapCrypt) \<times> AESCrypt) option" where
  "decodeMapCrypt junk dic oData crypter pos =
     decodeOneMapCrypt dic pos False (CodedInputDataCrypt junk oData crypter)"

definition greedyDecodeMapCrypt ::
  "(nat \<Rightarrow> byte) \<Rightarrow> MMKVMapCrypt \<Rightarrow> byte list \<Rightarrow> AESCrypt \<Rightarrow> nat \<Rightarrow>
   ((cpp_exception + MMKVMapCrypt) \<times> AESCrypt) option" where
  "greedyDecodeMapCrypt junk dic oData crypter pos =
     decodeOneMapCrypt dic pos True (CodedInputDataCrypt junk oData crypter)"

end
