(* ===== verification/CryptView.thy ===== *)
theory CryptView
  imports CryptInput
begin

text \<open>
  The decrypting reader is simulated by the plain reader: a \<open>view\<close> is what the region decrypts to and
  the cipher's status at every position; \<open>sim\<close> relates the reader's state to it. Decrypting ahead,
  whatever it does to the buffer, keeps the relation.
\<close>

unbundle bit_operations_syntax

section \<open>The decrypted view of a region\<close>

text \<open>What the region decrypts to from \<open>v_base\<close> on, and the cipher's status at every position.\<close>

record view =
  v_key :: "byte list"
  v_aes256 :: bool
  v_code :: "byte list"
  v_base :: nat
  v_plain :: "byte list"
  v_status :: "nat \<Rightarrow> cfb_state"

definition cipher_of :: "view \<Rightarrow> AESCrypt \<Rightarrow> bool" where
  "cipher_of v c \<longleftrightarrow> cipher_ok c \<and> m_key c = v_key v \<and> m_isAES256 c = v_aes256 v"

definition block_E :: "byte list \<Rightarrow> bool \<Rightarrow> byte list \<Rightarrow> byte list" where
  "block_E key aes256 = (\<lambda>b. AES_encrypt b (encrypt_key key aes256))"

lemma crypt_run_block:
  "crypt_run fb (m_key c) xs c = (let (ys, s) = run_bytes (cfb_step fb (block_E (m_key c) (m_isAES256 c))) xs (get_cfb c)
     in (ys, set_cfb s c))"
  by (simp add: crypt_run_def block_E_def)

definition view_ok :: "view \<Rightarrow> bool" where
  "view_ok v \<longleftrightarrow> length (v_plain v) = length (v_code v) \<and> v_base v \<le> length (v_code v) \<and>
     (\<forall>p q. v_base v \<le> p \<longrightarrow> p \<le> q \<longrightarrow> q \<le> length (v_code v) \<longrightarrow> cfb_ok (v_status v p) \<and>
        run_bytes (cfb_step fb_dec (block_E (v_key v) (v_aes256 v)))
          (mem_read (v_code v) p (q - p)) (v_status v p) = (mem_read (v_plain v) p (q - p), v_status v q))"

lemma view_run:
  assumes "view_ok v" and "cipher_of v c" and "get_cfb c = v_status v p"
    and "v_base v \<le> p" and "p + n \<le> length (v_code v)"
  shows "crypt_run fb_dec (v_key v) (mem_read (v_code v) p n) c =
    (mem_read (v_plain v) p n, set_cfb (v_status v (p + n)) c)"
proof -
  have "run_bytes (cfb_step fb_dec (block_E (v_key v) (v_aes256 v))) (mem_read (v_code v) p (p + n - p)) (v_status v p) =
      (mem_read (v_plain v) p (p + n - p), v_status v (p + n))"
    using assms(1,4,5) unfolding view_ok_def by (metis le_add1)
  then show ?thesis
    using assms(2,3) crypt_run_block [of fb_dec c] by (simp add: cipher_of_def)
qed

lemma num_cfb_step: "cfb_step fb E s x = (y, t) \<Longrightarrow> num t = (num s + 1) mod 16"
  by (auto simp: cfb_step_def Let_def)

lemma num_run_bytes:
  "run_bytes (cfb_step fb E) xs s = (ys, t) \<Longrightarrow> num s < 16 \<Longrightarrow> num t = (num s + length xs) mod 16"
proof (induction xs arbitrary: s ys)
  case (Cons x xs)
  obtain y u where "cfb_step fb E s x = (y, u)" by fastforce
  with Cons num_cfb_step [OF this] show ?case
    by (auto split: prod.splits) (simp add: mod_simps add.assoc)
qed simp

lemma view_num:
  assumes "view_ok v" and "v_base v \<le> p" and "p \<le> q" and "q \<le> length (v_code v)"
  shows "num (v_status v q) = (num (v_status v p) + (q - p)) mod 16"
proof -
  have r: "cfb_ok (v_status v p)" "run_bytes (cfb_step fb_dec (block_E (v_key v) (v_aes256 v)))
      (mem_read (v_code v) p (q - p)) (v_status v p) = (mem_read (v_plain v) p (q - p), v_status v q)"
    using assms by (simp_all add: view_ok_def)
  show ?thesis
    using num_run_bytes [OF r(2)] r(1) assms(3,4) by (simp add: cfb_ok_def)
qed

text \<open>The view that starts in a cipher's own status.\<close>

definition view_from :: "AESCrypt \<Rightarrow> nat \<Rightarrow> byte list \<Rightarrow> view" where
  "view_from c base code =
     (let run = \<lambda>n. run_bytes (cfb_step fb_dec (block_E (m_key c) (m_isAES256 c)))
                      (mem_read code base n) (get_cfb c)
      in \<lparr>v_key = m_key c, v_aes256 = m_isAES256 c, v_code = code, v_base = base,
          v_plain = take base code @ fst (run (length code - base)), v_status = \<lambda>p. snd (run (p - base))\<rparr>)"

lemma view_from_ok:
  assumes "cipher_ok c" and "base \<le> length code"
  shows "view_ok (view_from c base code)" and "cipher_of (view_from c base code) c"
    and "v_status (view_from c base code) base = get_cfb c"
proof -
  let ?E = "block_E (m_key c) (m_isAES256 c)"
  let ?run = "\<lambda>n. run_bytes (cfb_step fb_dec ?E) (mem_read code base n) (get_cfb c)"
  have c: "cfb_ok (get_cfb c)" using assms(1) by (simp add: cipher_ok_def cipher_ready_def)
  have ok: "cfb_ok (snd (?run n))" for n
    unfolding block_E_def
    using aes.run_ok [OF c, of fb_dec "m_key c" "m_isAES256 c" "mem_read code base n"] by (metis prod.collapse)
  have len: "length (fst (?run n)) = length (mem_read code base n)" for n
    using length_run_bytes [of "cfb_step fb_dec ?E" "mem_read code base n" "get_cfb c"] by (metis prod.collapse)
  have split: "?run (a + n) = (fst (?run a) @ fst (run_bytes (cfb_step fb_dec ?E) (mem_read code (base + a) n) (snd (?run a))),
      snd (run_bytes (cfb_step fb_dec ?E) (mem_read code (base + a) n) (snd (?run a))))" for a n
    by (simp add: mem_read_add run_bytes_append case_prod_beta)
  let ?v = "view_from c base code"
  have plain: "v_plain ?v = take base code @ fst (?run (length code - base))"
    and status: "v_status ?v p = snd (?run (p - base))" for p
    by (simp_all add: view_from_def Let_def)
  have "run_bytes (cfb_step fb_dec ?E) (mem_read code p (q - p)) (v_status ?v p) =
      (mem_read (v_plain ?v) p (q - p), v_status ?v q)"
    if "base \<le> p" "p \<le> q" "q \<le> length code" for p q
  proof -
    let ?a = "p - base" and ?n = "q - p"
    let ?r = "run_bytes (cfb_step fb_dec ?E) (mem_read code p ?n) (snd (?run ?a))"
    have q: "q - base = ?a + ?n" "base + ?a = p" using that by simp_all
    have 1: "v_status ?v q = snd ?r" using split [of ?a ?n] by (simp add: status q)
    have "length code - base = (q - base) + (length code - q)" using that by simp
    then obtain rest where "fst (?run (length code - base)) = fst (?run (q - base)) @ rest"
      using split [of "q - base" "length code - q"] by auto
    moreover have "fst (?run (q - base)) = fst (?run ?a) @ fst ?r"
      using split [of ?a ?n] by (simp add: q)
    moreover have "length (fst ?r) = ?n"
      using length_run_bytes [of "cfb_step fb_dec ?E" "mem_read code p ?n" "snd (?run ?a)"] that
      by (metis prod.collapse length_mem_read le_add_diff_inverse)
    moreover have "length (fst (?run ?a)) = ?a" using len [of ?a] that by simp
    ultimately have "mem_read (v_plain ?v) p ?n = fst ?r"
      using that by (simp add: plain mem_read_def min_def)
    with 1 show ?thesis by (simp add: status)
  qed
  then show "view_ok ?v"
    using assms ok len [of "length code - base"]
    by (auto simp: view_ok_def view_from_def Let_def min_def)
  show "cipher_of ?v c" "v_status ?v base = get_cfb c"
    using assms(1) by (simp_all add: cipher_of_def view_from_def Let_def mem_read_def)
qed

section \<open>The reader follows the plain reader\<close>

text \<open>\<open>holds v k s\<close>: the buffer holds the plain bytes from position \<open>k\<close> to the decrypting position.
  \<open>sim v s\<close> relates the reader to the view; \<open>kept v k s\<close> says that moving the buffer's content will
  not lose what lies behind \<open>k\<close>; \<open>aligned v s\<close> is what the reader asserts after decrypting.\<close>

definition holds :: "view \<Rightarrow> nat \<Rightarrow> coded_input_crypt \<Rightarrow> bool" where
  "holds v k s \<longleftrightarrow> v_base v \<le> k \<and> k \<le> cr_position s \<and> cr_position s - k \<le> cr_bufferPosition s \<and>
     mem_read (cr_buffer s) (cr_bufferPosition s - (cr_position s - k)) (cr_decryptPosition s - k) =
       mem_read (v_plain v) k (cr_decryptPosition s - k)"

definition kept :: "view \<Rightarrow> nat \<Rightarrow> coded_input_crypt \<Rightarrow> bool" where
  "kept v k s \<longleftrightarrow> holds v k s \<and> cr_discardPosition s \<le> cr_bufferPosition s - (cr_position s - k)"

definition aligned :: "view \<Rightarrow> coded_input_crypt \<Rightarrow> bool" where
  "aligned v s \<longleftrightarrow> num (v_status v (cr_decryptPosition s)) = 0 \<or> cr_decryptPosition s = cr_size s"

definition sim :: "view \<Rightarrow> coded_input_crypt \<Rightarrow> bool" where
  "sim v s \<longleftrightarrow> view_ok v \<and> cr_ptr s = v_code v \<and> cr_size s = length (v_code v) \<and>
     cipher_of v (cr_decrypter s) \<and> get_cfb (cr_decrypter s) = v_status v (cr_decryptPosition s) \<and>
     cr_position s \<le> cr_decryptPosition s \<and> cr_decryptPosition s \<le> cr_size s \<and>
     cr_bufferSize s = length (cr_buffer s) \<and> 32 \<le> cr_bufferSize s \<and>
     cr_bufferPosition s \<le> cr_decryptLength s \<and> cr_decryptLength s \<le> cr_bufferSize s \<and>
     cr_decryptLength s - cr_bufferPosition s = cr_decryptPosition s - cr_position s \<and>
     holds v (cr_position s) s \<and> (aligned v s \<or> cr_decryptPosition s = cr_position s)"

definition reader_at :: "view \<Rightarrow> nat \<Rightarrow> coded_input" where
  "reader_at v p = \<lparr>in_mem = v_plain v, in_ptr = 0, in_size = length (v_plain v), in_position = p\<rparr>"

lemma num_number: "get_cfb c = s \<Longrightarrow> num s = unat (m_number c)"
  by (auto simp: get_cfb_def)

lemma round_up_bounds: "n \<le> round_up n" "round_up n mod 16 = 0" "0 < n \<Longrightarrow> 0 < round_up n" "round_up n < n + 16"
  unfolding round_up_def by presburger+

lemma aligned_length_bounds:
  assumes "number < 16" and "0 < n"
  shows "n \<le> aligned_length number n" and "(number + aligned_length number n) mod 16 = 0"
proof -
  show "n \<le> aligned_length number n"
    using round_up_bounds(1) [of "n - (16 - number)"] round_up_bounds(1) [of n]
    by (auto simp: aligned_length_def Let_def)
  let ?a = "16 - number"
  have "(number + (round_up (n - ?a) + ?a)) mod 16 = (number + ?a + round_up (n - ?a)) mod 16"
    by (simp only: add.assoc add.commute [of ?a])
  also have "number + ?a = 16" using assms(1) by simp
  also have "(16 + round_up (n - ?a)) mod 16 = 0" using round_up_bounds(2) [of "n - ?a"] by simp
  finally have "(number + (round_up (n - ?a) + ?a)) mod 16 = 0" .
  then show "(number + aligned_length number n) mod 16 = 0"
    using round_up_bounds(2) [of n] assms(1) by (auto simp: aligned_length_def Let_def)
qed

lemma cipher_of_set_cfb [simp]:
  "cipher_of v c \<Longrightarrow> cfb_ok s \<Longrightarrow> cipher_of v (set_cfb s c)"
  by (simp add: cipher_of_def)

lemma view_status_ok: "view_ok v \<Longrightarrow> v_base v \<le> p \<Longrightarrow> p \<le> length (v_code v) \<Longrightarrow> cfb_ok (v_status v p)"
  unfolding view_ok_def by blast

lemma view_length: "view_ok v \<Longrightarrow> length (v_plain v) = length (v_code v)"
  by (simp add: view_ok_def)

text \<open>Decrypting the next bytes to an offset of the buffer.\<close>

lemma decryptTo_view:
  assumes "view_ok v" and "cr_ptr s = v_code v" and "cipher_of v (cr_decrypter s)"
    and "get_cfb (cr_decrypter s) = v_status v (cr_decryptPosition s)"
    and "v_base v \<le> cr_decryptPosition s" and "cr_decryptPosition s + n \<le> length (v_code v)"
    and "off + n \<le> length (cr_buffer s)"
  shows "\<exists>c. decryptTo off n s = (Inr (), s\<lparr>cr_decrypter := c,
      cr_buffer := mem_write (cr_buffer s) off (mem_read (v_plain v) (cr_decryptPosition s) n)\<rparr>) \<and>
    cipher_of v c \<and> get_cfb c = v_status v (cr_decryptPosition s + n)"
proof -
  have r: "cipher_ready (v_key v) (cr_decrypter s)" using assms(3) by (simp add: cipher_of_def cipher_ok_def) metis
  have ok: "cfb_ok (v_status v (cr_decryptPosition s + n))"
    using assms(5,6) by (intro view_status_ok [OF assms(1)]) simp_all
  show ?thesis
    using view_run [OF assms(1,3,4,5,6)] assms ok
    by (intro exI [of _ "set_cfb (v_status v (cr_decryptPosition s + n)) (cr_decrypter s)"])
      (simp add: decryptTo_def decrypt_run [OF r])
qed

section \<open>Decrypting ahead\<close>

declare diff_diff_right [simp del]

lemma mem_read_mem_read: "b + k \<le> n \<Longrightarrow> mem_read (mem_read m a n) b k = mem_read m (a + b) k"
  by (simp add: mem_read_def drop_take add.commute)

lemma mem_read_append1: "a + n \<le> length xs \<Longrightarrow> mem_read (xs @ ys) a n = mem_read xs a n"
  by (simp add: mem_read_def)

lemma simD:
  assumes "sim v s"
  shows "view_ok v" "cr_ptr s = v_code v" "cr_size s = length (v_code v)" "cipher_of v (cr_decrypter s)"
    "get_cfb (cr_decrypter s) = v_status v (cr_decryptPosition s)" "cr_position s \<le> cr_decryptPosition s"
    "cr_decryptPosition s \<le> length (v_code v)" "cr_bufferSize s = length (cr_buffer s)"
    "32 \<le> cr_bufferSize s" "cr_bufferPosition s \<le> cr_decryptLength s" "cr_decryptLength s \<le> length (cr_buffer s)"
    "cr_decryptLength s - cr_bufferPosition s = cr_decryptPosition s - cr_position s" "holds v (cr_position s) s"
    "v_base v \<le> cr_position s"
  using assms by (auto simp: sim_def holds_def)

lemma buffer_span:
  assumes "sim v s" and "holds v j s"
  shows "cr_bufferPosition s - (cr_position s - j) + (cr_decryptPosition s - j) = cr_decryptLength s"
  using simD(6,10,12) [OF assms(1)] assms(2) unfolding holds_def by linarith

lemma shift_span: "p \<le> (x :: nat) \<Longrightarrow> x + n = d \<Longrightarrow> x - p + n = d - p \<and> p + (x - p) = x"
  by simp

lemma shift_le: "p \<le> b - (c :: nat) \<Longrightarrow> c \<le> b \<Longrightarrow> c \<le> b - p"
  by simp

text \<open>Rearranging the buffer: moving its content to the front and making it longer.\<close>

lemma move_space_sim:
  assumes "sim v s" and "kept v k s"
  shows "\<exists>s'. move_space s = (Inr (), s') \<and> sim v s' \<and> kept v k s' \<and> cr_position s' = cr_position s \<and>
    cr_decryptPosition s' = cr_decryptPosition s \<and> cr_decrypter s' = cr_decrypter s"
proof (cases "cr_discardPosition s div AES_IV_LEN * AES_IV_LEN = 0")
  case True
  with assms show ?thesis by (auto simp: move_space_def Let_def)
next
  case False
  let ?p = "cr_discardPosition s div AES_IV_LEN * AES_IV_LEN"
  let ?b = "cr_bufferPosition s" and ?d = "cr_decryptLength s"
  let ?buf = "mem_write (cr_buffer s) 0 (mem_read (cr_buffer s) ?p (?d - ?p))"
  let ?s = "s\<lparr>cr_buffer := ?buf, cr_bufferPosition := ?b - ?p, cr_decryptLength := ?d - ?p, cr_discardPosition := 0\<rparr>"
  note d = simD [OF assms(1)]
  have p: "?p \<le> cr_discardPosition s" "cr_discardPosition s \<le> ?b - (cr_position s - k)"
    using assms(2) by (simp_all add: kept_def)
  have l: "length (mem_read (cr_buffer s) ?p (?d - ?p)) = ?d - ?p" "length ?buf = length (cr_buffer s)"
    using p d(10,11) by simp_all
  have h: "holds v j ?s" if "holds v j s" "?p \<le> ?b - (cr_position s - j)" for j
  proof -
    have j: "cr_position s - j \<le> ?b" "j \<le> cr_position s" using that(1) by (simp_all add: holds_def)
    let ?n = "cr_decryptPosition s - j" and ?o = "?b - (cr_position s - j)"
    have o: "?o - ?p + ?n = ?d - ?p" "?p + (?o - ?p) = ?o" "?b - ?p - (cr_position s - j) = ?o - ?p"
      using shift_span [OF that(2) buffer_span [OF assms(1) that(1)]] by (simp_all add: diff_commute)
    have le: "?d - ?p \<le> length (cr_buffer s)" using d(11) by simp
    have "mem_read ?buf (?o - ?p) ?n = mem_read (mem_read (cr_buffer s) ?p (?d - ?p)) (?o - ?p - 0) ?n"
      by (rule mem_read_mem_write_sub) (simp_all only: l(1) o(1) le add_0 order_refl zero_le)
    also have "\<dots> = mem_read (mem_read (cr_buffer s) ?p (?d - ?p)) (?o - ?p) ?n" by (simp only: diff_zero)
    also have "\<dots> = mem_read (cr_buffer s) ?o ?n"
      using mem_read_mem_read [of "?o - ?p" ?n "?d - ?p" "cr_buffer s" ?p] o by simp
    finally show ?thesis
      using that j o(3) shift_le [OF that(2) j(1)] by (simp add: holds_def)
  qed
  have "move_space s = (Inr (), ?s)"
  proof -
    have "\<not> (cr_decryptLength s < ?p \<or> cr_bufferPosition s < ?p)" using p d(10) by linarith
    with False show ?thesis by (simp add: move_space_def Let_def)
  qed
  moreover have "sim v ?s"
    using assms(1) h [of "cr_position s"] p l(2) d(10,11) by (auto simp: sim_def aligned_def)
  moreover have "kept v k ?s"
    using assms(2) h [of k] p by (simp add: kept_def)
  ultimately show ?thesis by auto
qed

lemma grow_buffer_sim:
  assumes "sim v s" and "kept v k s"
  shows "\<exists>s'. grow_buffer n s = (Inr (), s') \<and> sim v s' \<and> kept v k s' \<and> cr_position s' = cr_position s \<and>
    cr_decryptPosition s' = cr_decryptPosition s \<and> cr_decrypter s' = cr_decrypter s \<and>
    n \<le> bytesLeftInBuffer s'"
proof -
  let ?s = "s\<lparr>cr_buffer := cr_buffer s @ map (cr_junk s) [0..<n], cr_bufferSize := cr_bufferSize s + n\<rparr>"
  note d = simD [OF assms(1)]
  have h: "holds v j ?s" if "holds v j s" for j
  proof -
    from buffer_span [OF assms(1) that] that d(11) show ?thesis by (simp add: holds_def mem_read_append1)
  qed
  then have "sim v ?s" "kept v k ?s"
    using assms by (auto simp: sim_def kept_def aligned_def)
  with d(8,11) show ?thesis by (intro exI [of _ ?s]) (simp add: grow_buffer_def bytesLeftInBuffer_def)
qed

lemma decrypt_ahead_sim:
  assumes "sim v s" and "kept v k s" and "n \<le> bytesLeftInBuffer s" and "cr_decryptPosition s + n \<le> cr_size s"
    and "num (v_status v (cr_decryptPosition s + n)) = 0 \<or> cr_decryptPosition s + n = cr_size s"
  shows "\<exists>s1 s'. decryptTo (cr_decryptLength s) n s = (Inr (), s1) \<and>
    s' = s1\<lparr>cr_decryptPosition := cr_decryptPosition s1 + n, cr_decryptLength := cr_decryptLength s1 + n\<rparr> \<and>
    sim v s' \<and> kept v k s' \<and> cr_position s' = cr_position s \<and> cr_decryptPosition s' = cr_decryptPosition s + n"
proof -
  note d = simD [OF assms(1)]
  let ?plain = "mem_read (v_plain v) (cr_decryptPosition s) n"
  let ?buf = "mem_write (cr_buffer s) (cr_decryptLength s) ?plain"
  have space: "cr_decryptLength s + n \<le> length (cr_buffer s)"
    using assms(3) d(8,11) by (simp add: bytesLeftInBuffer_def)
  have end_pos: "cr_decryptPosition s + n \<le> length (v_code v)" using assms(4) d(3) by simp
  obtain c where c: "decryptTo (cr_decryptLength s) n s = (Inr (), s\<lparr>cr_decrypter := c, cr_buffer := ?buf\<rparr>)"
    "cipher_of v c" "get_cfb c = v_status v (cr_decryptPosition s + n)"
    using decryptTo_view [OF d(1,2,4,5) _ end_pos space] d(6,14) by fastforce
  have l: "length ?plain = n" "length ?buf = length (cr_buffer s)"
    using end_pos space view_length [OF d(1)] by simp_all
  let ?s = "s\<lparr>cr_decrypter := c, cr_buffer := ?buf, cr_decryptPosition := cr_decryptPosition s + n,
      cr_decryptLength := cr_decryptLength s + n\<rparr>"
  have h: "holds v j ?s" if "holds v j s" for j
  proof -
    let ?o = "cr_bufferPosition s - (cr_position s - j)" and ?n = "cr_decryptPosition s - j"
    have o: "?o + ?n = cr_decryptLength s" "j + ?n = cr_decryptPosition s" "cr_decryptPosition s + n - j = ?n + n"
      using that d(6) buffer_span [OF assms(1) that] by (simp_all add: holds_def)
    have "mem_read ?buf ?o (?n + n) = mem_read ?buf ?o ?n @ mem_read ?buf (cr_decryptLength s) n"
      by (simp add: mem_read_add o(1))
    also have "mem_read ?buf ?o ?n = mem_read (cr_buffer s) ?o ?n"
      using l o(1) space by (intro mem_read_mem_write_disjoint) simp_all
    also have "mem_read ?buf (cr_decryptLength s) n = ?plain"
      using l space by simp
    also have "mem_read (cr_buffer s) ?o ?n @ ?plain = mem_read (v_plain v) j (?n + n)"
      using that by (simp only: mem_read_add o(2)) (simp add: holds_def)
    finally show ?thesis using that o(3) by (simp add: holds_def)
  qed
  have "sim v ?s" "kept v k ?s"
    using assms(1,2,5) h [of k] h [of "cr_position s"] c l space end_pos
    by (auto simp: sim_def kept_def aligned_def)
  with c show ?thesis
    by (intro exI [of _ "s\<lparr>cr_decrypter := c, cr_buffer := ?buf\<rparr>"] exI [of _ ?s]) simp
qed

text \<open>The whole of \<open>consumeBytes\<close>: \<open>good v k s\<close> is what holds while an entry that starts at \<open>k\<close> is read.\<close>

definition good :: "view \<Rightarrow> nat \<Rightarrow> coded_input_crypt \<Rightarrow> bool" where
  "good v k s \<longleftrightarrow> sim v s \<and> kept v k s \<and> aligned v s"

definition budget :: "nat \<Rightarrow> coded_input_crypt \<Rightarrow> bool" where
  "budget n s \<longleftrightarrow> cr_position s + n \<le> cr_decryptPosition s \<or> cr_decryptPosition s = cr_size s"

lemma consumeBytes_kept:
  assumes "sim v s" and "kept v k s" and "0 < n"
  shows "\<exists>s'. consumeBytes n False s = (Inr (), s') \<and> good v k s' \<and> cr_position s' = cr_position s \<and> budget n s'"
proof (cases "n \<le> cr_decryptLength s - cr_bufferPosition s")
  case True
  then have "aligned v s" using assms(1,3) by (auto simp: sim_def)
  with True assms simD(6,12) [OF assms(1)] show ?thesis
    by (auto simp: consumeBytes_def Let_def good_def budget_def)
next
  case False
  note d = simD [OF assms(1)]
  let ?left = "cr_decryptLength s - cr_bufferPosition s" and ?dp = "cr_decryptPosition s"
  let ?a = "aligned_length (unat (m_number (cr_decrypter s))) (n - ?left)"
  obtain len where len: "min (cr_size s - ?dp) ?a = len" by blast
  have num: "num (v_status v ?dp) = unat (m_number (cr_decrypter s))"
    by (rule num_number [OF d(5)])
  have "cfb_ok (v_status v ?dp)" using d(1,6,7,14) by (intro view_status_ok) simp_all
  then have a: "n - ?left \<le> ?a" "(num (v_status v ?dp) + ?a) mod 16 = 0"
    using False aligned_length_bounds [of "unat (m_number (cr_decrypter s))" "n - ?left"]
    by (simp_all add: num cfb_ok_def)
  have al: "num (v_status v (?dp + len)) = 0 \<or> ?dp + len = cr_size s"
  proof (cases "?a \<le> cr_size s - ?dp")
    case True
    then show ?thesis
      using view_num [OF d(1), of ?dp "?dp + len"] d(3,6,7,14) a(2) len by simp
  next
    case False
    then have "cr_size s - ?dp = len" using len by simp
    then have "?dp + len = cr_size s" using d(3,7) by linarith
    then show ?thesis ..
  qed
  have end_pos: "?dp + len \<le> cr_size s" "n \<le> ?left + len \<or> ?dp + len = cr_size s"
    using len a(1) d(3,7) by linarith+
  obtain s1 where s1: "(if bytesLeftInBuffer s < len \<and> cr_discardPosition s > 0 then move_space else returnC ()) s = (Inr (), s1)"
    "sim v s1" "kept v k s1" "cr_position s1 = cr_position s" "cr_decryptPosition s1 = ?dp"
  proof (cases "bytesLeftInBuffer s < len \<and> cr_discardPosition s > 0")
    case True
    with move_space_sim [OF assms(1,2)] that show thesis by auto
  next
    case False
    with assms that [of s] show thesis by (auto simp: returnC_def)
  qed
  obtain s2 where s2: "(if bytesLeftInBuffer s1 < len then grow_buffer len else returnC ()) s1 = (Inr (), s2)"
    "sim v s2" "kept v k s2" "cr_position s2 = cr_position s" "cr_decryptPosition s2 = ?dp" "len \<le> bytesLeftInBuffer s2"
  proof (cases "bytesLeftInBuffer s1 < len")
    case True
    with grow_buffer_sim [OF s1(2,3), of len] s1(4,5) that show thesis by auto
  next
    case False
    with s1 that [of s1] show thesis by (simp add: returnC_def)
  qed
  have size: "cr_size s2 = cr_size s" using simD(3) [OF s2(2)] d(3) by simp
  obtain s3 t where s3: "decryptTo (cr_decryptLength s2) len s2 = (Inr (), s3)"
    "t = s3\<lparr>cr_decryptPosition := cr_decryptPosition s3 + len, cr_decryptLength := cr_decryptLength s3 + len\<rparr>"
    "sim v t" "kept v k t" "cr_position t = cr_position s" "cr_decryptPosition t = ?dp + len"
    using decrypt_ahead_sim [OF s2(2,3,6)] s2(4,5) al end_pos(1) size by auto
  have aligned: "aligned v t" using al s3(6) simD(3) [OF s3(3)] d(3) by (simp add: aligned_def)
  then have as: "cr_decryptPosition t = cr_size t \<or> m_number (cr_decrypter t) = 0"
    using num_number [OF simD(5) [OF s3(3)]] by (auto simp: aligned_def unat_eq_0)
  have "consumeBytes n False s = (Inr (), t)"
    using False s1(1) s2(1) s3(1,2) as len
    by (simp add: consumeBytes_def Let_def bindC_def assertC_def returnC_def)
  moreover have "budget n t"
    using end_pos(2) d(3,6,12) s3(5,6) simD(3) [OF s3(3)] by (auto simp: budget_def)
  ultimately show ?thesis using s3 aligned by (auto simp: good_def)
qed

lemma consumeBytes_discard:
  assumes "sim v s" and "0 < n"
  shows "\<exists>s'. consumeBytes n True s = (Inr (), s') \<and> good v (cr_position s) s' \<and>
    cr_position s' = cr_position s \<and> budget n s'"
proof -
  let ?s = "s\<lparr>cr_discardPosition := cr_bufferPosition s\<rparr>"
  have "consumeBytes n True s = consumeBytes n False ?s"
    by (simp add: consumeBytes_def)
  moreover have "sim v ?s" using assms(1) by (auto simp: sim_def holds_def aligned_def)
  moreover have "kept v (cr_position s) ?s" using simD(13) [OF assms(1)] by (simp add: kept_def holds_def)
  ultimately show ?thesis using consumeBytes_kept [of v ?s "cr_position s" n] assms(2) by simp
qed

section \<open>Reading decrypted bytes\<close>

lemma mem_read_eq_sub:
  "mem_read xs a n = mem_read ys b n \<Longrightarrow> i + k \<le> n \<Longrightarrow> mem_read xs (a + i) k = mem_read ys (b + i) k"
  by (metis mem_read_mem_read)

lemma kept_ahead:
  assumes "sim v s" and "kept v k s" and "cr_position s + n \<le> cr_decryptPosition s"
  shows "mem_read (cr_buffer s) (cr_bufferPosition s) n = mem_read (v_plain v) (cr_position s) n"
    and "sim v (s\<lparr>cr_position := cr_position s + n, cr_bufferPosition := cr_bufferPosition s + n\<rparr>)"
    and "kept v k (s\<lparr>cr_position := cr_position s + n, cr_bufferPosition := cr_bufferPosition s + n\<rparr>)"
proof -
  let ?s = "s\<lparr>cr_position := cr_position s + n, cr_bufferPosition := cr_bufferPosition s + n\<rparr>"
  note d = simD [OF assms(1)]
  have h: "mem_read (cr_buffer s) (cr_bufferPosition s) (cr_decryptPosition s - cr_position s) =
      mem_read (v_plain v) (cr_position s) (cr_decryptPosition s - cr_position s)"
    using d(13) by (simp add: holds_def)
  have n: "n \<le> cr_decryptPosition s - cr_position s" using assms(3) by linarith
  show "mem_read (cr_buffer s) (cr_bufferPosition s) n = mem_read (v_plain v) (cr_position s) n"
    using mem_read_eq_sub [OF h, of 0 n] n by simp
  have "mem_read (cr_buffer s) (cr_bufferPosition s + n) (cr_decryptPosition s - (cr_position s + n)) =
      mem_read (v_plain v) (cr_position s + n) (cr_decryptPosition s - (cr_position s + n))"
    using n by (intro mem_read_eq_sub [OF h]) simp
  then have "holds v (cr_position ?s) ?s" using d(14) by (simp add: holds_def)
  moreover have "cr_bufferPosition s + n \<le> cr_decryptLength s"
    "cr_decryptLength s - (cr_bufferPosition s + n) = cr_decryptPosition s - (cr_position s + n)"
    using n d(10,12) by linarith+
  moreover have "aligned v s \<or> n = 0"
    using assms(1,3) d(6) by (auto simp: sim_def)
  ultimately show "sim v ?s"
    using assms(1,3) by (auto simp: sim_def aligned_def)
  have k: "k \<le> cr_position s" "cr_position s - k \<le> cr_bufferPosition s"
    using assms(2) by (simp_all add: kept_def holds_def)
  then have "cr_bufferPosition s + n - (cr_position s + n - k) = cr_bufferPosition s - (cr_position s - k)"
    "cr_position s + n - k \<le> cr_bufferPosition s + n" "k \<le> cr_position s + n"
    by linarith+
  then show "kept v k ?s" using assms(2) by (simp add: kept_def holds_def)
qed

lemma good_ahead:
  "good v k s \<Longrightarrow> cr_position s + n \<le> cr_decryptPosition s \<Longrightarrow>
   good v k (s\<lparr>cr_position := cr_position s + n, cr_bufferPosition := cr_bufferPosition s + n\<rparr>)"
  using kept_ahead(2,3) [of v s k n] by (simp add: good_def aligned_def)

lemma takeBuffer_good:
  assumes "good v k s" and "cr_position s + n \<le> cr_decryptPosition s"
  shows "takeBuffer n s = (Inr (mem_read (v_plain v) (cr_position s) n),
    s\<lparr>cr_position := cr_position s + n, cr_bufferPosition := cr_bufferPosition s + n\<rparr>)"
proof -
  have s: "sim v s" "kept v k s" using assms(1) by (simp_all add: good_def)
  have "cr_bufferPosition s + n \<le> length (cr_buffer s)" using simD(10,11,12) [OF s(1)] assms(2) by linarith
  then show ?thesis using kept_ahead(1) [OF s assms(2)] by (simp add: takeBuffer_def)
qed

text \<open>\<open>follows v k n m a\<close>: with \<open>n\<close> bytes decrypted ahead (or all there are), \<open>m\<close> does what \<open>a\<close> does.\<close>

definition follows ::
  "view \<Rightarrow> nat \<Rightarrow> nat \<Rightarrow> (coded_input_crypt, 'a) cpp \<Rightarrow> (coded_input, 'a) cpp \<Rightarrow> bool" where
  "follows v k n m a \<longleftrightarrow> (\<forall>s. good v k s \<longrightarrow> budget n s \<longrightarrow>
     a (reader_at v (cr_position s)) = (fst (m s), reader_at v (cr_position (snd (m s)))) \<and> good v k (snd (m s)))"

lemma follows_returnC: "follows v k n (returnC x) (returnC x)"
  by (simp add: follows_def returnC_def)

lemma follows_throwC: "follows v k n (throwC x) (throwC x)"
  by (simp add: follows_def throwC_def)

lemma follows_if:
  "(b \<Longrightarrow> follows v k n m a) \<Longrightarrow> (\<not> b \<Longrightarrow> follows v k n m' a') \<Longrightarrow>
   follows v k n (if b then m else m') (if b then a else a')"
  by simp

lemma readRawByte_good:
  assumes "good v k s" and "budget (Suc n) s"
  shows "if cr_position s = cr_size s
    then readRawByte_crypt s = (Inl OutOfRange, s) \<and>
      readRawByte (reader_at v (cr_position s)) = (Inl OutOfRange, reader_at v (cr_position s))
    else \<exists>b. readRawByte_crypt s = (Inr b, s\<lparr>cr_position := cr_position s + 1, cr_bufferPosition := cr_bufferPosition s + 1\<rparr>) \<and>
      readRawByte (reader_at v (cr_position s)) = (Inr b, reader_at v (cr_position s + 1)) \<and>
      cr_position s < cr_decryptPosition s"
proof -
  have s: "sim v s" "kept v k s" using assms(1) by (simp_all add: good_def)
  note d = simD [OF s(1)]
  show ?thesis
  proof (cases "cr_position s = cr_size s")
    case True
    with d view_length [OF d(1)] show ?thesis
      by (simp add: readRawByte_crypt_def readRawByte_def reader_at_def)
  next
    case False
    then have lt: "cr_position s < cr_decryptPosition s"
      using assms(2) d(3,6,7) by (auto simp: budget_def)
    then have one: "cr_position s + 1 \<le> cr_decryptPosition s" by simp
    have "cr_bufferPosition s < cr_bufferSize s" using d(8,10,11,12) lt by linarith
    moreover have "cr_position s < length (v_plain v)" using lt d(7) view_length [OF d(1)] by simp
    moreover have "cr_buffer s ! cr_bufferPosition s = v_plain v ! cr_position s"
      using kept_ahead(1) [OF s one] calculation d(8) by (simp add: mem_read_Suc)
    ultimately show ?thesis
      using False lt d(3) view_length [OF d(1)]
      by (simp add: readRawByte_crypt_def readRawByte_def reader_at_def Let_def)
  qed
qed

lemma follows_readRawByte:
  assumes "\<And>b. follows v k n (f b) (g b)"
  shows "follows v k (Suc n) (bindC readRawByte_crypt f) (bindC readRawByte g)"
  unfolding follows_def
proof (intro allI impI)
  fix s assume g: "good v k s" and n: "budget (Suc n) s"
  let ?t = "s\<lparr>cr_position := cr_position s + 1, cr_bufferPosition := cr_bufferPosition s + 1\<rparr>"
  show "bindC readRawByte g (reader_at v (cr_position s)) =
      (fst (bindC readRawByte_crypt f s), reader_at v (cr_position (snd (bindC readRawByte_crypt f s)))) \<and>
      good v k (snd (bindC readRawByte_crypt f s))"
  proof (cases "cr_position s = cr_size s")
    case True
    with readRawByte_good [OF g n] g show ?thesis by (simp add: bindC_Inl)
  next
    case False
    with readRawByte_good [OF g n] obtain b where b: "readRawByte_crypt s = (Inr b, ?t)"
      "readRawByte (reader_at v (cr_position s)) = (Inr b, reader_at v (cr_position s + 1))"
      "cr_position s < cr_decryptPosition s"
      by auto
    have "good v k ?t" "budget n ?t"
      using good_ahead [OF g, of 1] b(3) n by (auto simp: budget_def)
    then show ?thesis
      using assms [of b, unfolded follows_def, rule_format, of ?t] b by (simp add: bindC_Inr)
  qed
qed

lemma follows_discardUpperBytes: "follows v k n (discardUpperBytes_crypt n r) (discardUpperBytes n r)"
  by (induction n) (auto intro!: follows_readRawByte follows_throwC follows_if follows_returnC)

lemma follows_more: "follows v k n m a \<Longrightarrow> n \<le> n' \<Longrightarrow> follows v k n' m a"
  by (auto simp: follows_def budget_def)

definition varint32_crypt :: "(coded_input_crypt, int32) cpp" where
  "varint32_crypt =
     bindC readRawByte_crypt (\<lambda>tmp.
     if 0 \<le> sint tmp then returnC (scast tmp) else
     let result = scast tmp AND 0x7f in
     bindC readRawByte_crypt (\<lambda>tmp.
     if 0 \<le> sint tmp then returnC (result OR push_bit 7 (scast tmp)) else
     let result = result OR push_bit 7 (scast tmp AND 0x7f) in
     bindC readRawByte_crypt (\<lambda>tmp.
     if 0 \<le> sint tmp then returnC (result OR push_bit 14 (scast tmp)) else
     let result = result OR push_bit 14 (scast tmp AND 0x7f) in
     bindC readRawByte_crypt (\<lambda>tmp.
     if 0 \<le> sint tmp then returnC (result OR push_bit 21 (scast tmp)) else
     let result = result OR push_bit 21 (scast tmp AND 0x7f) in
     bindC readRawByte_crypt (\<lambda>tmp.
     let result = result OR push_bit 28 (scast tmp) in
     if sint tmp < 0 then discardUpperBytes_crypt 5 result else returnC result)))))"

lemma readRawVarint32_crypt_eq:
  "readRawVarint32_crypt discard = bindC (consumeBytes 10 discard) (\<lambda>_. varint32_crypt)"
  by (simp only: readRawVarint32_crypt_def varint32_crypt_def)

lemma follows_varint32: "follows v k 10 varint32_crypt readRawVarint32"
proof -
  have "follows v k (Suc (Suc (Suc (Suc (Suc 5))))) varint32_crypt readRawVarint32"
    unfolding varint32_crypt_def readRawVarint32_def Let_def
    by (intro follows_readRawByte follows_if follows_returnC follows_discardUpperBytes)
  then show ?thesis by simp
qed

lemma readRawVarint32_follows:
  assumes "sim v s" and "discard \<and> k = cr_position s \<or> \<not> discard \<and> kept v k s"
    and "readRawVarint32 (reader_at v (cr_position s)) = (r, reader_at v p)"
  shows "\<exists>s'. readRawVarint32_crypt discard s = (r, s') \<and> good v k s' \<and> cr_position s' = p"
proof -
  obtain t where t: "consumeBytes 10 discard s = (Inr (), t)" "good v k t" "cr_position t = cr_position s" "budget 10 t"
    using assms(2) consumeBytes_kept [OF assms(1), of k 10] consumeBytes_discard [OF assms(1), of 10] by auto
  from follows_varint32 [of v k, unfolded follows_def] t(2-4) assms(3)
  have "r = fst (varint32_crypt t)" "reader_at v p = reader_at v (cr_position (snd (varint32_crypt t)))"
    "good v k (snd (varint32_crypt t))"
    by (metis fst_conv snd_conv)+
  then show ?thesis
    using t(1) by (intro exI [of _ "snd (varint32_crypt t)"])
      (simp add: readRawVarint32_crypt_eq bindC_Inr reader_at_def)
qed

section \<open>Skipping and rolling back\<close>

lemma skip_rounds_view:
  assumes "view_ok v" and "cr_ptr s = v_code v" and "cipher_of v (cr_decrypter s)"
    and "get_cfb (cr_decrypter s) = v_status v (cr_decryptPosition s)"
    and "v_base v \<le> cr_decryptPosition s" and "cr_decryptPosition s + 16 * n \<le> length (v_code v)"
    and "16 \<le> length (cr_buffer s)"
  shows "\<exists>c buf. skip_rounds n s = (Inr (), s\<lparr>cr_decrypter := c, cr_buffer := buf,
      cr_decryptPosition := cr_decryptPosition s + 16 * n\<rparr>) \<and>
    cipher_of v c \<and> get_cfb c = v_status v (cr_decryptPosition s + 16 * n) \<and>
    length buf = length (cr_buffer s) \<and>
    (0 < n \<longrightarrow> mem_read buf 0 16 = mem_read (v_plain v) (cr_decryptPosition s + 16 * n - 16) 16)"
  using assms
proof (induction n arbitrary: s)
  case 0
  then show ?case
    by (intro exI [of _ "cr_decrypter s"] exI [of _ "cr_buffer s"]) (simp add: returnC_def)
next
  case (Suc n)
  let ?p = "cr_decryptPosition s"
  have l: "?p + 16 \<le> length (v_code v)" "0 + 16 \<le> length (cr_buffer s)" using Suc.prems(6,7) by simp_all
  obtain c where c: "decryptTo 0 16 s = (Inr (), s\<lparr>cr_decrypter := c,
      cr_buffer := mem_write (cr_buffer s) 0 (mem_read (v_plain v) ?p 16)\<rparr>)"
    "cipher_of v c" "get_cfb c = v_status v (?p + 16)"
    using decryptTo_view [OF Suc.prems(1-5) l] by blast
  let ?t = "s\<lparr>cr_decrypter := c, cr_buffer := mem_write (cr_buffer s) 0 (mem_read (v_plain v) ?p 16),
      cr_decryptPosition := ?p + 16\<rparr>"
  have b: "length (mem_read (v_plain v) ?p 16) = 16" using l(1) view_length [OF Suc.prems(1)] by simp
  have "\<exists>d buf. skip_rounds n ?t = (Inr (), ?t\<lparr>cr_decrypter := d, cr_buffer := buf,
      cr_decryptPosition := ?p + 16 + 16 * n\<rparr>) \<and> cipher_of v d \<and> get_cfb d = v_status v (?p + 16 + 16 * n) \<and>
    length buf = length (cr_buffer s) \<and>
    (0 < n \<longrightarrow> mem_read buf 0 16 = mem_read (v_plain v) (?p + 16 + 16 * n - 16) 16)"
    using Suc.IH [of ?t] Suc.prems c b by simp
  then obtain d buf where d: "skip_rounds n ?t = (Inr (), ?t\<lparr>cr_decrypter := d, cr_buffer := buf,
      cr_decryptPosition := ?p + 16 + 16 * n\<rparr>)" "cipher_of v d" "get_cfb d = v_status v (?p + 16 + 16 * n)"
    "length buf = length (cr_buffer s)"
    "0 < n \<longrightarrow> mem_read buf 0 16 = mem_read (v_plain v) (?p + 16 + 16 * n - 16) 16" by blast
  have "mem_read buf 0 16 = mem_read (v_plain v) (?p + 16 * n) 16"
  proof (cases n)
    case 0
    then have "buf = mem_write (cr_buffer s) 0 (mem_read (v_plain v) ?p 16)"
      using arg_cong [OF d(1), of "cr_buffer \<circ> snd"] by (simp add: returnC_def)
    then show ?thesis using 0 b l by simp
  qed (use d(5) in \<open>simp add: add.commute add.left_commute\<close>)
  then show ?case
    using c(1) d by (intro exI [of _ d] exI [of _ buf]) (simp add: bindC_Inr add.assoc [symmetric])
qed

text \<open>Skipping leaves the buffer with the last sixteen bytes at most: what it held before is lost.\<close>

lemma skip_sizes:
  assumes "0 < len" and "p + len \<le> n" and "sz = min (round_up len) (n - p)"
  shows "len \<le> sz" and "p + sz \<le> n" and "sz mod 16 \<noteq> 0 \<Longrightarrow> p + sz = n"
    and "sz mod 16 \<noteq> 0 \<Longrightarrow> sz - len \<le> sz mod 16" and "sz mod 16 = 0 \<Longrightarrow> sz - len \<le> 16 \<and> 0 < sz div 16"
proof -
  note r = round_up_bounds [of len]
  show *: "len \<le> sz" "p + sz \<le> n" using assms r(1) by linarith+
  show "p + sz = n" if "sz mod 16 \<noteq> 0"
  proof -
    have "sz \<noteq> round_up len" using that r(2) by auto
    then show ?thesis using assms by linarith
  qed
  show "sz - len \<le> sz mod 16" if "sz mod 16 \<noteq> 0"
  proof -
    have "sz \<noteq> round_up len" using that r(2) by auto
    then have lt: "sz < round_up len" using assms(3) by linarith
    obtain a where a: "round_up len = 16 * a" using r(2) by (metis dvdE mod_eq_0_iff_dvd)
    have "sz div 16 < a" using lt a by (simp add: less_mult_imp_div_less mult.commute)
    moreover have d: "sz = 16 * (sz div 16) + sz mod 16" by simp
    ultimately have "16 * (sz div 16) + 16 \<le> round_up len" using a by simp
    then show ?thesis using r(4) d by linarith
  qed
  show "sz - len \<le> 16 \<and> 0 < sz div 16" if "sz mod 16 = 0"
    using that * assms(1,3) r(4) by (auto simp: min_def split: if_splits)
qed

lemma skipBytes_good:
  assumes "good v k s" and "cr_position s + n \<le> cr_size s"
  shows "\<exists>s'. skipBytes n s = (Inr (), s') \<and> sim v s' \<and> cr_position s' = cr_position s + n"
proof (cases "n \<le> cr_decryptLength s - cr_bufferPosition s")
  case True
  have "sim v s" using assms(1) by (simp add: good_def)
  then have "cr_position s + n \<le> cr_decryptPosition s" using True simD(6,12) by fastforce
  from good_ahead [OF assms(1) this] True show ?thesis
    by (simp add: skipBytes_def Let_def good_def)
next
  case False
  have sim: "sim v s" and al: "aligned v s" using assms(1) by (simp_all add: good_def)
  note d = simD [OF sim]
  let ?left = "cr_decryptLength s - cr_bufferPosition s" and ?dp = "cr_decryptPosition s"
  obtain len where len: "n - ?left = len" by blast
  have len0: "0 < len" "?dp + len = cr_position s + n" using False len d(6,12) by linarith+
  obtain sz where sz: "sz = min (round_up len) (cr_size s - ?dp)" by blast
  have le: "?dp + len \<le> cr_size s" using len0(2) assms(2) by simp
  note z = skip_sizes [OF len0(1) le sz]
  have num0: "num (v_status v ?dp) = 0" using al le len0(1) by (auto simp: aligned_def)
  then have m0: "m_number (cr_decrypter s) = 0" using num_number [OF d(5)] by (simp add: unat_eq_0)
  let ?s = "s\<lparr>cr_position := cr_position s + n\<rparr>"
  have base: "v_base v \<le> ?dp" using d(6,14) by simp
  have code: "?dp + sz \<le> length (v_code v)" using z(2) d(3) by simp
  have q: "?dp + 16 * (sz div 16) \<le> length (v_code v)" using code by linarith
  have b16: "16 \<le> length (cr_buffer s)" using d(8,9) by simp
  obtain c buf where r: "skip_rounds (sz div 16) ?s = (Inr (), ?s\<lparr>cr_decrypter := c, cr_buffer := buf,
      cr_decryptPosition := ?dp + 16 * (sz div 16)\<rparr>)" "cipher_of v c"
    "get_cfb c = v_status v (?dp + 16 * (sz div 16))" "length buf = length (cr_buffer s)"
    "0 < sz div 16 \<longrightarrow> mem_read buf 0 16 = mem_read (v_plain v) (?dp + 16 * (sz div 16) - 16) 16"
    using skip_rounds_view [of v ?s "sz div 16"] d base q b16 by auto
  obtain t where t: "bindC (assertC (m_number (cr_decrypter ?s) = 0)) (\<lambda>_. skip_rounds (sz div 16)) ?s = (Inr (), t)"
    and t': "t = ?s\<lparr>cr_decrypter := c, cr_buffer := buf, cr_decryptPosition := ?dp + 16 * (sz div 16)\<rparr>"
    using r(1) m0 by (simp add: assertC_def)
  let ?check = "\<lambda>s. assertC (cr_bufferPosition s \<le> cr_decryptLength s \<and>
      cr_decryptPosition s - cr_decryptLength s + cr_bufferPosition s = cr_position s) s"
  have unf: "skipBytes n s =
      bindC (if sz mod 16 \<noteq> 0
        then bindC (decryptTo 0 (sz mod 16)) (\<lambda>_ s. (Inr (), s\<lparr>cr_decryptPosition := cr_decryptPosition s + sz mod 16,
               cr_bufferPosition := sz mod 16 - (sz - len), cr_decryptLength := sz mod 16\<rparr>))
        else (\<lambda>s. (Inr (), s\<lparr>cr_bufferPosition := 16 - (sz - len), cr_decryptLength := 16\<rparr>)))
      (\<lambda>_ s. assertC (cr_bufferPosition s \<le> cr_decryptLength s \<and>
         cr_decryptPosition s - cr_decryptLength s + cr_bufferPosition s = cr_position s) s) t"
    using False len sz m0 r(1) t'
    by (simp add: skipBytes_def Let_def bindC_Inr assertC_def)
  have fin: "\<exists>s'. assertC (cr_bufferPosition u \<le> cr_decryptLength u \<and>
        cr_decryptPosition u - cr_decryptLength u + cr_bufferPosition u = cr_position u) u = (Inr (), s') \<and>
      sim v s' \<and> cr_position s' = cr_position s + n"
    if u: "u = ?s\<lparr>cr_decrypter := e, cr_buffer := buf', cr_decryptPosition := ?dp + sz,
        cr_bufferPosition := m - (sz - len), cr_decryptLength := m\<rparr>"
      "cipher_of v e" "get_cfb e = v_status v (?dp + sz)" "length buf' = length (cr_buffer s)"
      "mem_read buf' 0 m = mem_read (v_plain v) (?dp + sz - m) m" "sz - len \<le> m" "m \<le> 16" "m \<le> sz" "aligned v u"
    for u e buf' m
  proof -
    have e: "?dp + sz - m + (m - (sz - len)) = cr_position s + n" "m - (m - (sz - len)) = sz - len"
      "?dp + sz - (cr_position s + n) = sz - len"
      using u(6,8) z(1) len0(2) by linarith+
    have "mem_read buf' (0 + (m - (sz - len))) (sz - len) =
        mem_read (v_plain v) (?dp + sz - m + (m - (sz - len))) (sz - len)"
      using u(6) by (intro mem_read_eq_sub [OF u(5)]) simp
    then have h: "holds v (cr_position u) u"
      using d(14) e by (simp add: u(1) holds_def)
    have "sim v u"
      using d u(2-9) h e z(1,2) len0(2) b16 by (simp add: sim_def u(1))
    moreover have "cr_bufferPosition u \<le> cr_decryptLength u \<and>
        cr_decryptPosition u - cr_decryptLength u + cr_bufferPosition u = cr_position u"
      using e(1) by (simp only: u(1) coded_input_crypt.simps) simp
    ultimately show ?thesis by (simp add: u(1) assertC_def returnC_def)
  qed
  show ?thesis
  proof (cases "sz mod 16 = 0")
    case True
    then have s16: "16 * (sz div 16) = sz" by (metis add_0_right mult_div_mod_eq)
    have al': "num (v_status v (?dp + sz)) = 0"
      using view_num [OF d(1) base, of "?dp + sz"] code num0 True by simp
    have sz16: "16 \<le> sz" "0 < sz div 16" "sz - len \<le> 16" using z(5) [OF True] by linarith+
    let ?u = "?s\<lparr>cr_decrypter := c, cr_buffer := buf, cr_decryptPosition := ?dp + sz,
        cr_bufferPosition := 16 - (sz - len), cr_decryptLength := 16\<rparr>"
    have u: "(\<lambda>s. (Inr (), s\<lparr>cr_bufferPosition := 16 - (sz - len), cr_decryptLength := 16\<rparr>)) t = (Inr () :: cpp_exception + unit, ?u)"
      by (simp add: t' s16)
    have "aligned v ?u" using al' by (simp add: aligned_def)
    then have "\<exists>s'. ?check ?u = (Inr (), s') \<and> sim v s' \<and> cr_position s' = cr_position s + n"
      using r(2-5) sz16 s16 by (intro fin [OF refl]) simp_all
    moreover have "skipBytes n s = ?check ?u"
      unfolding unf using True u by (simp only: if_False not_not simp_thms bindC_Inr)
    ultimately show ?thesis by simp
  next
    case False
    let ?m = "sz mod 16"
    have m: "16 * (sz div 16) + ?m = sz" "?m \<le> 16" "?m \<le> sz" by simp_all
    then have m': "?dp + 16 * (sz div 16) + ?m = ?dp + sz" "?dp + sz - ?m = ?dp + 16 * (sz div 16)" by linarith+
    have "cr_decryptPosition t + ?m \<le> length (v_code v)" "0 + ?m \<le> length (cr_buffer t)"
      using code m' b16 r(4) m(2) by (simp_all add: t')
    then obtain e where e: "decryptTo 0 ?m t = (Inr (), t\<lparr>cr_decrypter := e,
        cr_buffer := mem_write (cr_buffer t) 0 (mem_read (v_plain v) (cr_decryptPosition t) ?m)\<rparr>)"
      "cipher_of v e" "get_cfb e = v_status v (cr_decryptPosition t + ?m)"
      using decryptTo_view [OF d(1), of t ?m 0] d(2) r(2,3) base by (auto simp: t')
    let ?buf = "mem_write buf 0 (mem_read (v_plain v) (?dp + 16 * (sz div 16)) ?m)"
    have pl: "length (mem_read (v_plain v) (?dp + 16 * (sz div 16)) ?m) = ?m"
      using code m'(1) view_length [OF d(1)] by simp
    have buf: "length ?buf = length (cr_buffer s)" "mem_read ?buf 0 ?m = mem_read (v_plain v) (?dp + sz - ?m) ?m"
      using pl b16 r(4) m(2) m'(2) by simp_all
    let ?u = "?s\<lparr>cr_decrypter := e, cr_buffer := ?buf, cr_decryptPosition := ?dp + sz,
        cr_bufferPosition := ?m - (sz - len), cr_decryptLength := ?m\<rparr>"
    have u: "bindC (decryptTo 0 ?m) (\<lambda>_ s. (Inr (), s\<lparr>cr_decryptPosition := cr_decryptPosition s + ?m,
        cr_bufferPosition := ?m - (sz - len), cr_decryptLength := ?m\<rparr>)) t = (Inr (), ?u)"
      using e(1) m'(1) by (simp add: bindC_Inr t')
    have "aligned v ?u" using z(3) [OF False] by (simp add: aligned_def)
    then have "\<exists>s'. ?check ?u = (Inr (), s') \<and> sim v s' \<and> cr_position s' = cr_position s + n"
      using e(2,3) m'(1) z(4) [OF False] m(2,3) buf by (intro fin [OF refl]) (simp_all add: t')
    moreover have "skipBytes n s = ?check ?u"
      unfolding unf using False u by (simp only: if_True simp_thms bindC_Inr)
    ultimately show ?thesis by simp
  qed
qed

definition status_of :: "cfb_state \<Rightarrow> AESCryptStatus" where
  "status_of s = \<lparr>st_number = word_of_nat (num s), st_vector = ivec s\<rparr>"

lemma getCurStatus_cfb: "cfb_ok (get_cfb c) \<Longrightarrow> getCurStatus c = status_of (get_cfb c)"
  using num_bounds [of c] by (simp add: getCurStatus_def status_of_def get_cfb_def)

lemma statusBeforeDecrypt_good:
  assumes "good v k s" and "k < cr_position s"
  shows "\<exists>s'. statusBeforeDecrypt_at (cr_position s - k) st s = (Inr (status_of (v_status v k)), s') \<and>
    good v k s' \<and> cr_position s' = cr_position s"
proof -
  have s: "sim v s" "kept v k s" using assms(1) by (simp_all add: good_def)
  note d = simD [OF s(1)]
  have h: "holds v k s" using s(2) by (simp add: kept_def)
  let ?dp = "cr_decryptPosition s"
  have k: "v_base v \<le> k" "k \<le> ?dp" "k + (?dp - k) = ?dp" "?dp - k \<le> cr_decryptLength s"
    "cr_decryptLength s - (?dp - k) = cr_bufferPosition s - (cr_position s - k)"
    using h assms(2) d(6) buffer_span [OF s(1) h] unfolding holds_def by linarith+
  have n: "cr_position s - k + (cr_decryptLength s - cr_bufferPosition s) = ?dp - k" "?dp - (?dp - k) = k"
    using assms(2) d(6,12) k(2) by linarith+
  let ?c = "set_cfb (v_status v k) (cr_decrypter s)"
  have ok: "cfb_ok (v_status v k)" "cfb_ok (v_status v ?dp)"
    using view_status_ok [OF d(1)] k(1,2) d(7) by simp_all
  then have c: "cipher_of v ?c" "get_cfb ?c = v_status v k" using d(4) by simp_all
  have dec: "set_cfb (v_status v ?dp) ?c = cr_decrypter s"
    using d(5) by (simp flip: d(5))
  have run: "crypt_run fb_dec (m_key ?c) (mem_read (v_code v) k (?dp - k)) ?c =
      (mem_read (v_plain v) k (?dp - k), cr_decrypter s)"
    using view_run [OF d(1) c k(1), of "?dp - k"] d(7) k(3) c(1) dec by (simp add: cipher_of_def)
  have ne: "mem_read (v_code v) k (?dp - k) \<noteq> []"
    using assms(2) d(6,7) by (auto simp: mem_read_def)
  have cok: "cipher_ok ?c" using c(1) by (simp add: cipher_of_def)
  note st = statusBeforeDecrypt_decrypt [OF cok run ne, of st]
  obtain r where r: "snd (statusBeforeDecrypt (mem_read (v_code v) k (?dp - k)) (mem_read (v_plain v) k (?dp - k)) st
      (cr_decrypter s)) = (cr_decrypter s)\<lparr>m_aesRollbackKey := r\<rparr>" using st(2) by blast
  let ?d = "(cr_decrypter s)\<lparr>m_aesRollbackKey := r\<rparr>"
  have "mem_read (cr_buffer s) (cr_decryptLength s - (?dp - k)) (?dp - k) = mem_read (v_plain v) k (?dp - k)"
    using h k(5) by (simp add: holds_def)
  then have eq: "statusBeforeDecrypt_at (cr_position s - k) st s =
      (Inr (status_of (v_status v k)), s\<lparr>cr_decrypter := ?d\<rparr>)"
    using st(1) r k n getCurStatus_cfb [of ?c] c(2) ok(1) d(2)
    by (simp add: statusBeforeDecrypt_at_def Let_def case_prod_beta)
  have "get_cfb ?d = get_cfb (cr_decrypter s)" by (simp add: get_cfb_def)
  moreover have "cipher_of v ?d" using st(3) r d(4) by (simp add: cipher_of_def)
  ultimately have "good v k (s\<lparr>cr_decrypter := ?d\<rparr>)"
    using assms(1) by (auto simp: good_def sim_def kept_def holds_def aligned_def)
  with eq show ?thesis by auto
qed

section \<open>Reading an entry\<close>

lemma reader_at_wf:
  assumes "sim v s"
  shows "in_wf (reader_at v (cr_position s))" and "in_size (reader_at v p) = cr_size s"
    and "in_position (reader_at v p) = p" and "advance n (reader_at v p) = reader_at v (p + n)"
    and "remaining (reader_at v p) = drop p (v_plain v)"
  using simD(1,3,6,7) [OF assms] view_length [of v]
  by (simp_all add: reader_at_def in_wf_def advance_def remaining_def mem_read_def)

lemma read_prefix_crypt:
  assumes "sim v s" and "discard \<and> k = cr_position s \<or> \<not> discard \<and> kept v k s"
    and "short d" and "remaining (reader_at v (cr_position s)) = enc_data d @ rest"
  shows "\<exists>s'. readRawVarint32_crypt discard s = (Inr (word_of_nat (length d)), s') \<and> good v k s' \<and>
    cr_position s' = cr_position s + length (varint (length d)) \<and>
    length d \<le> cr_size s' - cr_position s' \<and> mem_read (v_plain v) (cr_position s') (length d) = d \<and>
    cr_position s' + length d \<le> cr_size s'"
proof -
  let ?a = "reader_at v (cr_position s)" and ?n = "length (varint (length d))"
  note a = reader_at_wf [OF assms(1)]
  have "remaining ?a = varint (length d) @ d @ rest" using assms(3,4) by (simp add: enc_data_short)
  then have "readRawVarint32 ?a = (Inr (word_of_nat (length d)), reader_at v (cr_position s + ?n))"
    using readRawVarint32_varint [OF a(1)] length_varint_short [OF assms(3)] a(4) by fastforce
  from readRawVarint32_follows [OF assms(1,2) this] obtain s' where s':
    "readRawVarint32_crypt discard s = (Inr (word_of_nat (length d)), s')" "good v k s'"
    "cr_position s' = cr_position s + ?n" by blast
  have sim: "sim v s'" using s'(2) by (simp add: good_def)
  note a' = reader_at_wf [OF sim]
  have "remaining (reader_at v (cr_position s')) = d @ rest"
    using length_prefix_bind(3) [OF assms(3) a(1) assms(4)] a(4) s'(3) by simp
  then have r: "drop (cr_position s') (v_plain v) = d @ rest" using a'(5) by simp
  then have "mem_read (v_plain v) (cr_position s') (length d) = d" by (simp add: mem_read_def)
  moreover have "length (v_plain v) - cr_position s' = length d + length rest"
    using arg_cong [OF r, of length] by simp
  moreover have "length (v_plain v) = cr_size s'" "cr_position s' \<le> cr_size s'"
    using simD(1,3,6,7) [OF sim] view_length [of v] by simp_all
  ultimately show ?thesis using s' by (intro exI [of _ s']) linarith
qed

text \<open>What both reads of bytes do after the length: decrypt them, then take them out of the buffer.\<close>

lemma consume_take:
  assumes "good v k s" and "cr_position s + n \<le> cr_size s"
  shows "\<exists>s'. bindC (consumeBytes n False) (\<lambda>_. bindC (takeBuffer n) f) s =
      f (mem_read (v_plain v) (cr_position s) n) s' \<and> good v k s' \<and> cr_position s' = cr_position s + n"
proof -
  have s: "sim v s" "kept v k s" using assms(1) by (simp_all add: good_def)
  obtain t where t: "consumeBytes n False s = (Inr (), t)" "good v k t" "cr_position t = cr_position s"
    "cr_position t + n \<le> cr_decryptPosition t"
  proof (cases "n = 0")
    case True
    then have "consumeBytes n False s = (Inr (), s)" by (simp add: consumeBytes_def Let_def)
    with assms(1) True simD(6) [OF s(1)] that show thesis by simp
  next
    case False
    then obtain t where t: "consumeBytes n False s = (Inr (), t)" "good v k t" "cr_position t = cr_position s" "budget n t"
      using consumeBytes_kept [OF s] by blast
    have "cr_size t = cr_size s" using t(2) simD(3) [OF s(1)] simD(3) [of v t] by (simp add: good_def)
    with t assms(2) that show thesis by (auto simp: budget_def)
  qed
  show ?thesis
    using takeBuffer_good [OF t(2,4)] t good_ahead [OF t(2,4)]
    by (intro exI [of _ "t\<lparr>cr_position := cr_position t + n, cr_bufferPosition := cr_bufferPosition t + n\<rparr>"])
      (simp add: bindC_Inr)
qed

lemma readString_crypt_enc:
  assumes "sim v s" and "short d" and "remaining (reader_at v (cr_position s)) = enc_data d @ rest"
  shows "\<exists>s'. readString_crypt h s = (Inr (d, h\<lparr>kh_offset := word_of_nat (cr_position s),
      kh_keySize := word_of_nat (length d)\<rparr>), s') \<and>
    good v (cr_position s) s' \<and> cr_position s' = cr_position s + length (enc_data d)"
proof -
  obtain t where t: "readRawVarint32_crypt True s = (Inr (word_of_nat (length d)), t)" "good v (cr_position s) t"
    "cr_position t = cr_position s + length (varint (length d))" "length d \<le> cr_size t - cr_position t"
    "mem_read (v_plain v) (cr_position t) (length d) = d" "cr_position t + length d \<le> cr_size t"
    using read_prefix_crypt [OF assms(1) _ assms(2,3), of True] by blast
  from consume_take [OF t(2,6), of "\<lambda>result. returnC (result, h\<lparr>kh_offset := word_of_nat (cr_position s),
      kh_keySize := word_of_nat (length d)\<rparr>)"] t assms(2)
  show ?thesis
    by (auto simp: readString_crypt_def Let_def bindC_Inr t(1) short_facts returnC_def enc_data_short)
qed

section \<open>Values\<close>

definition locates :: "view \<Rightarrow> KeyValueHolderCrypt \<Rightarrow> byte list \<Rightarrow> bool" where
  "locates v h d \<longleftrightarrow> unat (realValueSize h) = length d \<and>
     (\<forall>c. m_aesKey c = Some (encrypt_key (v_key v) (v_aes256 v)) \<longrightarrow> m_isAES256 c = v_aes256 v \<longrightarrow>
        toMMBuffer_crypt (v_code v) c h = Inr d)"

text \<open>A holder of the offset kind for the \<open>n\<close> bytes at \<open>k\<close>, of which the last \<open>m\<close> are the value.\<close>

definition points_to :: "view \<Rightarrow> KeyValueHolderCrypt \<Rightarrow> nat \<Rightarrow> nat \<Rightarrow> nat \<Rightarrow> bool" where
  "points_to v h k n m \<longleftrightarrow> unat (kh_offset h) = k \<and> unat (kh_pbKeyValueSize h) + unat (kh_keySize h) + m = n \<and>
     unat (kh_valueSize h) = m \<and> kh_cryptStatus h = status_of (v_status v k)"

lemma view_crypt_run:
  assumes "view_ok v" and "m_isAES256 c = v_aes256 v" and "get_cfb c = v_status v p"
    and "v_base v \<le> p" and "p + n \<le> length (v_code v)"
  shows "crypt_run fb_dec (v_key v) (mem_read (v_code v) p n) c =
    (mem_read (v_plain v) p n, set_cfb (v_status v (p + n)) c)"
proof -
  have "run_bytes (cfb_step fb_dec (block_E (v_key v) (v_aes256 v))) (mem_read (v_code v) p (p + n - p)) (v_status v p) =
      (mem_read (v_plain v) p (p + n - p), v_status v (p + n))"
    using assms(1,4,5) unfolding view_ok_def by (metis le_add1)
  then show ?thesis
    using assms(2,3) by (simp add: crypt_run_def block_E_def)
qed

lemma clone_status:
  assumes "cfb_ok s"
  shows "get_cfb (cloneWithStatus (status_of s) c) = s" and "m_isAES256 (cloneWithStatus (status_of s) c) = m_isAES256 c"
    and "m_aesKey (cloneWithStatus (status_of s) c) = m_aesKey c"
proof -
  have "num s < 16" using assms by (simp add: cfb_ok_def)
  then show "get_cfb (cloneWithStatus (status_of s) c) = s"
    by (cases s) (simp add: cloneWithStatus_def status_of_def get_cfb_def unsigned_ucast_eq unsigned_of_nat
        take_bit_nat_eq_self)
qed (simp_all add: cloneWithStatus_def)

lemma unat_u16_less: "unat (x :: u16) < 65536"
  using unsigned_less [of x] by simp

lemma locates_offset:
  assumes "view_ok v" and "v_base v \<le> k" and "k + m + length d \<le> length (v_code v)"
    and "length (v_code v) < 2 ^ 32"
    and "kh_type h = Offset" and "unat (kh_offset h) = k" and "unat (kh_valueSize h) = length d"
    and "unat (kh_pbKeyValueSize h) + unat (kh_keySize h) = m" and "kh_cryptStatus h = status_of (v_status v k)"
    and "mem_read (v_plain v) (k + m) (length d) = d"
  shows "locates v h d"
proof -
  have "toMMBuffer_crypt (v_code v) c h = Inr d"
    if c: "m_aesKey c = Some (encrypt_key (v_key v) (v_aes256 v))" "m_isAES256 c = v_aes256 v" for c
  proof -
    let ?pos = "ucast (kh_pbKeyValueSize h) + ucast (kh_keySize h) :: u32"
    let ?c = "cloneWithStatus (status_of (v_status v k)) c"
    have pb: "take_bit 32 (unat (kh_pbKeyValueSize h)) = unat (kh_pbKeyValueSize h)"
        "unat (kh_pbKeyValueSize h) < 256"
      by (simp_all add: take_bit_nat_eq_self less_trans [OF unat_byte_less])
    have "m < 256 + 65536" using assms(8) pb(2) unat_u16_less [of "kh_keySize h"] by linarith
    then have m: "m mod 4294967296 = m" by simp
    have pos: "unat ?pos = m"
      using assms(8) pb(2) unat_u16_less [of "kh_keySize h"]
      by (simp add: unat_word_ariths unsigned_ucast_eq take_bit_nat_eq_self pb(1) m)
    have real: "unat (?pos + kh_valueSize h) = m + length d"
      using pos assms(3,4,7) by (simp add: unat_word_ariths)
    have ok: "cfb_ok (v_status v k)" using assms(2,3) by (intro view_status_ok [OF assms(1)]) simp_all
    have ready: "cipher_ready (v_key v) ?c" using clone_status [OF ok, of c] c ok by (simp add: cipher_ready_def)
    have run: "crypt_run fb_dec (v_key v) (mem_read (v_code v) k (m + length d)) ?c =
        (mem_read (v_plain v) k (m + length d), set_cfb (v_status v (k + (m + length d))) ?c)"
      using assms(2,3) clone_status [OF ok, of c] c by (intro view_crypt_run [OF assms(1)]) simp_all
    have l: "m \<le> length (mem_read (v_code v) k (m + length d))" using assms(3) by simp
    have "drop m (mem_read (v_plain v) k (m + length d)) = d"
      using assms(3,10) view_length [OF assms(1)] by (simp add: mem_read_add [of _ k m])
    with decryptBuffer_run [OF ready run l] show ?thesis
      by (simp add: toMMBuffer_crypt_def assms(5,6,9) Let_def pos real)
  qed
  then show ?thesis using assms(5,7) by (simp add: locates_def realValueSize_def)
qed

lemma locates_value:
  assumes "length d < 2 ^ 31" and "length d \<le> 256"
  shows "locates v (fst (holder_move h (KeyValueHolderCrypt_value d))) d"
  using assms
  by (auto simp: locates_def holder_move_def KeyValueHolderCrypt_value_def KVHC_SmallBufferSize_def
      realValueSize_def toMMBuffer_crypt_def holder_default_def unsigned_ucast_eq unat_of_nat take_bit_nat_eq_self)

lemma pb_size_sum:
  fixes a :: u32 and b :: u16
  shows "unat (ucast (pbRawVarint32Size a + pbRawVarint32Size (ucast b)) :: byte) =
    length (varint (unat a)) + length (varint (unat b))"
proof -
  have u: "unat (ucast b :: u32) = unat b"
    using unat_u16_less [of b] by (simp add: unsigned_ucast_eq take_bit_nat_eq_self)
  have "length (varint (unat a)) \<le> 5" "length (varint (unat b)) \<le> 5"
    using length_varint_u32 [of a] length_varint_u32 [of "ucast b"] by (simp_all add: u)
  then show ?thesis
    unfolding unsigned_ucast_eq [where w = "pbRawVarint32Size a + pbRawVarint32Size (ucast b)"]
    by (simp add: unsigned_take_bit_eq unat_word_ariths unat_pbRawVarint32Size u take_bit_nat_eq_self)
qed

lemma readData_crypt_enc:
  assumes "good v k s" and "short d" and "remaining (reader_at v (cr_position s)) = enc_data d @ rest"
    and "kh_offset h = word_of_nat k" and "kh_keySize h = word_of_nat n" and "n < 2 ^ 16" and "0 < n"
    and "cr_position s = k + length (varint n) + n" and "length (v_code v) < 2 ^ 32"
  shows "\<exists>h' s'. readData_crypt h s = (Inr h', s') \<and> sim v s' \<and>
    cr_position s' = cr_position s + length (enc_data d) \<and> locates v h' d \<and>
    (kh_type h' = Offset \<longrightarrow> points_to v h' k (cr_position s - k + length (enc_data d)) (length d))"
proof -
  have s: "sim v s" "kept v k s" using assms(1) by (simp_all add: good_def)
  obtain t where t: "readRawVarint32_crypt False s = (Inr (word_of_nat (length d)), t)" "good v k t"
    "cr_position t = cr_position s + length (varint (length d))" "length d \<le> cr_size t - cr_position t"
    "mem_read (v_plain v) (cr_position t) (length d) = d" "cr_position t + length d \<le> cr_size t"
    using read_prefix_crypt [OF s(1) _ assms(2,3), of False k] s(2) by blast
  have sim: "sim v t" and kt: "kept v k t" using t(2) by (simp_all add: good_def)
  note dt = simD [OF sim]
  have base: "v_base v \<le> k" using kt by (simp add: kept_def holds_def)
  show ?thesis
  proof (cases "isValueStoredAsOffset (length d)")
    case False
    let ?h = "fst (holder_move (h\<lparr>kh_type := Direct\<rparr>) (KeyValueHolderCrypt_value d))"
    from consume_take [OF t(2,6), of "\<lambda>value. returnC (fst (holder_move (h\<lparr>kh_type := Direct\<rparr>)
        (KeyValueHolderCrypt_value value)))"] obtain s' where
      s': "bindC (consumeBytes (length d) False) (\<lambda>_. bindC (takeBuffer (length d)) (\<lambda>value.
          returnC (fst (holder_move (h\<lparr>kh_type := Direct\<rparr>) (KeyValueHolderCrypt_value value))))) t = (Inr ?h, s')"
      "good v k s'" "cr_position s' = cr_position t + length d"
      using t(5) by (auto simp: returnC_def)
    have "length d \<le> 256" using False by (simp add: isValueStoredAsOffset_def MediumBufferSize_def)
    then have "locates v ?h d" using assms(2) by (intro locates_value) (simp_all add: short_def)
    moreover have "readData_crypt h s = (Inr ?h, s')"
      using False t(1,4) s'(1) assms(2) by (simp add: readData_crypt_def bindC_Inr short_facts Let_def)
    moreover have "kh_type ?h \<noteq> Offset" by (simp add: holder_move_def KeyValueHolderCrypt_value_def holder_default_def)
    ultimately show ?thesis
      using s'(2,3) t(3) assms(2)
      by (intro exI2 [of _ ?h s']) (simp add: good_def enc_data_short)
  next
    case True
    let ?h1 = "h\<lparr>kh_type := Offset, kh_valueSize := word_of_nat (length d)\<rparr>"
    let ?h2 = "?h1\<lparr>kh_pbKeyValueSize := ucast (pbRawVarint32Size (kh_valueSize ?h1) + pbRawVarint32Size (ucast (kh_keySize ?h1)))\<rparr>"
    have ks: "unat (kh_keySize ?h2) = n"
      using assms(5,6) by (simp add: unat_of_nat take_bit_nat_eq_self)
    have pb: "unat (kh_pbKeyValueSize ?h2) = length (varint (length d)) + length (varint n)"
      using pb_size_sum [of "kh_valueSize ?h1" "kh_keySize h"] ks short_facts(2) [OF assms(2)] by simp
    have roll: "unat (kh_pbKeyValueSize ?h2) + unat (kh_keySize ?h2) = cr_position t - k"
      unfolding ks pb t(3) assms(8) by simp
    have "k < cr_position t" using assms(7,8) t(3) by simp
    then obtain u where u: "statusBeforeDecrypt_at (cr_position t - k) (kh_cryptStatus ?h2) t =
        (Inr (status_of (v_status v k)), u)" "good v k u" "cr_position u = cr_position t"
      using statusBeforeDecrypt_good [OF t(2)] by blast
    have "cr_size u = cr_size t" using u(2) simD(3) [of v u] dt(3) by (simp add: good_def)
    then obtain w where w: "skipBytes (length d) u = (Inr (), w)" "sim v w" "cr_position w = cr_position t + length d"
      using skipBytes_good [OF u(2), of "length d"] t(6) u(3) by auto
    let ?h = "?h2\<lparr>kh_cryptStatus := status_of (v_status v k)\<rparr>"
    have kp: "k + (cr_position t - k) = cr_position t" using \<open>k < cr_position t\<close> by simp
    have "locates v ?h d"
    proof (rule locates_offset [OF dt(1) base, where m = "cr_position t - k"])
      show "k + (cr_position t - k) + length d \<le> length (v_code v)" using t(6) dt(3) kp by simp
      show "unat (kh_offset ?h) = k"
        using assms(4,9) t(6) dt(3) kp \<open>k < cr_position t\<close> by (simp add: unat_of_nat take_bit_nat_eq_self)
      show "unat (kh_valueSize ?h) = length d" using short_facts(2) [OF assms(2)] by simp
      show "mem_read (v_plain v) (k + (cr_position t - k)) (length d) = d" using t(5) kp by simp
    qed (use roll assms(9) in simp_all)
    moreover have "points_to v ?h k (cr_position s - k + length (enc_data d)) (length d)"
    proof -
      have "cr_position t - k + length d = cr_position s - k + length (enc_data d)"
        using t(3) assms(2,8) by (simp add: enc_data_short)
      moreover have "unat (kh_offset ?h) = k"
        using assms(4,9) t(6) dt(3) kp \<open>k < cr_position t\<close> by (simp add: unat_of_nat take_bit_nat_eq_self)
      ultimately show ?thesis using roll short_facts(2) [OF assms(2)] by (simp add: points_to_def)
    qed
    moreover have "readData_crypt h s = (Inr ?h, w)"
      using True t(1,4) u(1) w(1) roll assms(2)
      by (simp add: readData_crypt_def bindC_Inr short_facts Let_def returnC_def)
    ultimately show ?thesis
      using w(2,3) t(3) assms(2) by (intro exI2 [of _ ?h w]) (simp add: enc_data_short)
  qed
qed

end
