(* ===== verification/CryptMap.thy ===== *)
theory CryptMap
  imports CryptView
begin

text \<open>
  What decoding an encrypted log gives: through the holders, the dictionary has exactly the contents
  of the log, and the cipher is left in the status in which the log was written.
\<close>

unbundle bit_operations_syntax

section \<open>Decoding an encrypted log\<close>

text \<open>What the reader knows of an entry at position \<open>p\<close>: the holder gives its value, and a holder of the offset kind
  has its place.\<close>

definition placed :: "view \<Rightarrow> nat \<Rightarrow> log_entry \<Rightarrow> KeyValueHolderCrypt \<Rightarrow> bool" where
  "placed v p kv h \<longleftrightarrow> locates v h (snd kv) \<and>
     (kh_type h = Offset \<longrightarrow> points_to v h p (length (enc_entry kv)) (length (snd kv)))"

lemma decodeMapCrypt_entry_step:
  assumes "sim v s" and "valid_entry kv" and "length (fst kv) < 2 ^ 16" and "length (v_code v) < 2 ^ 32"
    and "remaining (reader_at v (cr_position s)) = enc_entry kv @ rest"
  shows "\<exists>h s'. decodeMapCrypt_entry d s =
      (Inr (d(fst kv := (if snd kv = [] then None else Some h))), s') \<and> sim v s' \<and>
    cr_position s' = cr_position s + length (enc_entry kv) \<and> placed v (cr_position s) kv h"
proof -
  obtain k x where kv: "kv = (k, x)" by (cases kv)
  have sh: "k \<noteq> []" "short k" "short x" using assms(2) by (auto simp: valid_entry_def kv)
  have r: "remaining (reader_at v (cr_position s)) = enc_data k @ (enc_data x @ rest)"
    using assms(5) by (simp add: enc_entry_def kv)
  let ?h0 = "holder_default\<lparr>kh_offset := word_of_nat (cr_position s), kh_keySize := word_of_nat (length k)\<rparr>"
  obtain t where t: "readString_crypt holder_default s = (Inr (k, ?h0), t)" "good v (cr_position s) t"
    "cr_position t = cr_position s + length (enc_data k)"
    using readString_crypt_enc [OF assms(1) sh(2) r] by blast
  have "remaining (reader_at v (cr_position t)) = enc_data x @ rest"
    using r reader_at_wf(5) [OF assms(1)] t(3) by (metis append_eq_conv_conj drop_drop add.commute)
  then obtain h u where h: "readData_crypt ?h0 t = (Inr h, u)" "sim v u"
    "cr_position u = cr_position t + length (enc_data x)" "locates v h x"
    "kh_type h = Offset \<longrightarrow> points_to v h (cr_position s) (cr_position t - cr_position s + length (enc_data x)) (length x)"
    using readData_crypt_enc [OF t(2) sh(3), of rest ?h0 "length k"] assms(3,4) sh t(3)
    by (auto simp: kv enc_data_short)
  have "realValueSize h > 0 \<longleftrightarrow> x \<noteq> []"
    using h(4) unfolding locates_def by (metis length_greater_0_conv unat_gt_0 word_neq_0_conv)
  moreover have "placed v (cr_position s) kv h"
    using h(4,5) t(3) by (simp add: placed_def kv enc_entry_def)
  ultimately show ?thesis
    using t(1,3) h sh(1)
    by (intro exI [of _ h] exI [of _ u])
      (auto simp: decodeMapCrypt_entry_def bindC_Inr returnC_def kv enc_entry_def fun_upd_idem_iff)
qed

text \<open>\<open>values\<close>: through its holders, the dictionary has the contents \<open>m\<close>.\<close>

definition shows_values :: "byte list \<Rightarrow> AESCrypt \<Rightarrow> MMKVMapCrypt \<Rightarrow> (byte list \<rightharpoonup> byte list) \<Rightarrow> bool" where
  "shows_values base c d m \<longleftrightarrow> (\<forall>k. map_option (toMMBuffer_crypt base c) (d k) = map_option Inr (m k))"

lemma shows_values_empty [simp]: "shows_values base c Map.empty Map.empty"
  by (simp add: shows_values_def)

lemma shows_values_step:
  assumes "shows_values (v_code v) c d m" and "locates v h (snd kv)"
    and "m_aesKey c = Some (encrypt_key (v_key v) (v_aes256 v))" and "m_isAES256 c = v_aes256 v"
  shows "shows_values (v_code v) c (d(fst kv := (if snd kv = [] then None else Some h))) (log_step kv m)"
  using assms by (auto simp: shows_values_def log_step_def locates_def)

lemma shows_values_cong:
  "m_aesKey c = m_aesKey c' \<Longrightarrow> m_isAES256 c = m_isAES256 c' \<Longrightarrow> shows_values base c = shows_values base c'"
proof -
  assume "m_aesKey c = m_aesKey c'" "m_isAES256 c = m_isAES256 c'"
  then have "cloneWithStatus st c = cloneWithStatus st c'" for st by (simp add: cloneWithStatus_def)
  then have "toMMBuffer_crypt base c = toMMBuffer_crypt base c'"
    by (auto simp: fun_eq_iff toMMBuffer_crypt_def split: KeyValueHolderType.split)
  then show ?thesis by (intro ext) (simp only: shows_values_def)
qed

text \<open>Whatever relates the dictionary to the entries and is kept by each entry holds of the decoded one.\<close>

lemma decode_log_invariant:
  assumes step: "\<And>p kv h d m. P d m \<Longrightarrow> placed v p kv h \<Longrightarrow>
      P (d(fst kv := (if snd kv = [] then None else Some h))) (g p kv m)"
    and "sim v s" and "\<forall>kv \<in> set es. valid_entry kv \<and> length (fst kv) < 2 ^ 16" and "length (v_code v) < 2 ^ 32"
    and "remaining (reader_at v (cr_position s)) = enc_log es" and "P d m"
  shows "\<exists>d' s'. while_not_at_end isAtEnd_crypt decodeMapCrypt_entry d s = Some (None, d', s') \<and> sim v s' \<and>
    cr_position s' = cr_size s' \<and> P d' (run_steps enc_entry g (cr_position s) es m)"
  using assms(2,3,5,6)
proof (induction es arbitrary: s d m)
  case Nil
  then have "cr_size s \<le> cr_position s"
    using reader_at_wf(5) [OF Nil.prems(1)] simD(1,3) [OF Nil.prems(1)] view_length by simp
  then have "isAtEnd_crypt s" using simD(3,6,7) [OF Nil.prems(1)] by (simp add: isAtEnd_crypt_def)
  with Nil show ?case by (auto simp: while_at_end isAtEnd_crypt_def)
next
  case (Cons kv es)
  have r: "remaining (reader_at v (cr_position s)) = enc_entry kv @ enc_log es" using Cons.prems(3) by simp
  have kv: "valid_entry kv" "length (fst kv) < 2 ^ 16" using Cons.prems(2) by simp_all
  obtain h t where t: "decodeMapCrypt_entry d s = (Inr (d(fst kv := (if snd kv = [] then None else Some h))), t)"
    "sim v t" "cr_position t = cr_position s + length (enc_entry kv)" "placed v (cr_position s) kv h"
    using decodeMapCrypt_entry_step [OF Cons.prems(1) kv assms(4) r, of d] by blast
  have "enc_entry kv \<noteq> []" using kv(1) by (simp add: enc_entry_def enc_data_def)
  then have "\<not> isAtEnd_crypt s"
    using r reader_at_wf(5) [OF Cons.prems(1)] simD(1,3) [OF Cons.prems(1)] view_length [of v]
    by (auto simp: isAtEnd_crypt_def)
  moreover have "remaining (reader_at v (cr_position t)) = enc_log es"
    using r reader_at_wf(5) [OF Cons.prems(1)] t(3) by (metis append_eq_conv_conj drop_drop add.commute)
  moreover have "\<forall>kv \<in> set es. valid_entry kv \<and> length (fst kv) < 2 ^ 16" using Cons.prems(2) by simp
  moreover obtain d1 where d1: "d(fst kv := (if snd kv = [] then None else Some h)) = d1" by blast
  moreover have "P d1 (g (cr_position s) kv m)"
    using step [OF Cons.prems(4) t(4)] by (simp only: d1)
  moreover have "while_not_at_end isAtEnd_crypt decodeMapCrypt_entry d s =
      while_not_at_end isAtEnd_crypt decodeMapCrypt_entry d1 t"
    using t(1) \<open>\<not> isAtEnd_crypt s\<close> unfolding d1 by (intro while_step)
  ultimately show ?case
    using Cons.IH [OF t(2), of d1 "g (cr_position s) kv m"] t(3) by simp
qed

lemma run_steps_fold: "run_steps enc (\<lambda>_. f) pos es m = fold f es m"
  by (induction es arbitrary: pos m) simp_all

lemma decode_log_crypt:
  assumes "sim v s" and "\<forall>kv \<in> set es. valid_entry kv \<and> length (fst kv) < 2 ^ 16" and "length (v_code v) < 2 ^ 32"
    and "remaining (reader_at v (cr_position s)) = enc_log es"
    and "m_aesKey c = Some (encrypt_key (v_key v) (v_aes256 v))" and "m_isAES256 c = v_aes256 v"
    and "shows_values (v_code v) c d m"
  shows "\<exists>d' s'. while_not_at_end isAtEnd_crypt decodeMapCrypt_entry d s = Some (None, d', s') \<and> sim v s' \<and>
    cr_position s' = cr_size s' \<and> shows_values (v_code v) c d' (fold log_step es m)"
  using decode_log_invariant [where P = "shows_values (v_code v) c" and g = "\<lambda>_. log_step", OF _ assms(1-4,7)]
    shows_values_step assms(5,6) by (simp add: run_steps_fold placed_def)

section \<open>The two ways to start\<close>

lemma sim_new:
  assumes "cipher_ok c"
  shows "sim (view_from c 0 code) (CodedInputDataCrypt junk code c)"
    and "kept (view_from c 0 code) 0 (CodedInputDataCrypt junk code c)"
proof -
  have n: "unat (m_number c) < 16" using assms num_bounds [of c] by (simp add: cipher_ok_def cipher_ready_def)
  have v: "v_code (view_from c 0 code) = code" "v_base (view_from c 0 code) = 0"
    by (simp_all add: view_from_def Let_def)
  show "sim (view_from c 0 code) (CodedInputDataCrypt junk code c)"
    "kept (view_from c 0 code) 0 (CodedInputDataCrypt junk code c)"
    using view_from_ok [OF assms, of 0 code] n v
    by (auto simp: sim_def kept_def holds_def CodedInputDataCrypt_def Let_def)
qed

lemma sim_seek:
  assumes "cipher_ok c" and "pos \<le> length code" and "unat (m_number c) = pos mod 16"
  shows "\<exists>s. seek_crypt pos (CodedInputDataCrypt junk code c) = (Inr (), s) \<and> sim (view_from c pos code) s \<and>
    cr_position s = pos"
proof -
  let ?s = "(CodedInputDataCrypt junk code c)\<lparr>cr_position := pos, cr_decryptPosition := pos\<rparr>"
  have n: "unat (m_number c) < 16" using assms(3) by simp
  have v: "v_code (view_from c pos code) = code" "v_base (view_from c pos code) = pos"
    by (simp_all add: view_from_def Let_def)
  have "sim (view_from c pos code) ?s"
    using view_from_ok [OF assms(1,2)] n v assms(2)
    by (auto simp: sim_def holds_def CodedInputDataCrypt_def Let_def)
  then show ?thesis
    using assms(2,3)
    by (intro exI [of _ ?s]) (simp add: seek_crypt_def CodedInputDataCrypt_def Let_def assertC_def returnC_def)
qed

lemma view_from_encrypt:
  assumes "cipher_ok c" and "encrypt msg c = (Inr code, c')"
  shows "v_plain (view_from c (length pre) (pre @ code)) = pre @ msg"
    and "v_status (view_from c (length pre) (pre @ code)) (length pre + length code) = get_cfb c'"
    and "length code = length msg" and "m_aesKey c' = m_aesKey c" and "m_isAES256 c' = m_isAES256 c"
proof -
  have r: "cipher_ready (m_key c) c" using assms(1) by (simp add: cipher_ok_def)
  have e: "crypt_run fb_enc (m_key c) msg c = (code, c')"
    using assms(2) by (simp add: encrypt_run [OF r] split: prod.splits)
  have d: "crypt_run fb_dec (m_key c) code c = (msg, c')" by (rule crypt_run_inverts [OF r e])
  then obtain s where s: "run_bytes (cfb_step fb_dec (block_E (m_key c) (m_isAES256 c))) code (get_cfb c) = (msg, s)"
    "c' = set_cfb s c"
    by (auto simp: crypt_run_block split: prod.splits)
  have "cfb_ok s"
    using aes.run_ok [of "get_cfb c" fb_dec "m_key c" "m_isAES256 c" code msg s] s(1) r
    by (simp add: block_E_def cipher_ready_def)
  then show "v_plain (view_from c (length pre) (pre @ code)) = pre @ msg"
    "v_status (view_from c (length pre) (pre @ code)) (length pre + length code) = get_cfb c'"
    using s by (simp_all add: view_from_def Let_def mem_read_def)
  show "length code = length msg" using crypt_run_ready(2) [OF r e] .
  show "m_aesKey c' = m_aesKey c" "m_isAES256 c' = m_isAES256 c" using s(2) by simp_all
qed

lemma readInt32_header:
  assumes "cipher_ok c" and "cipher_of v c" and "sim v s" and "kept v k s" and "reads readInt32 header w"
    and "remaining (reader_at v (cr_position s)) = header @ rest"
  shows "\<exists>s'. readInt32_crypt s = (Inr w, s') \<and> sim v s' \<and> remaining (reader_at v (cr_position s')) = rest \<and>
    cr_position s' = cr_position s + length header"
proof -
  note a = reader_at_wf [OF assms(3)]
  have "readRawVarint32 (reader_at v (cr_position s)) = (Inr w, reader_at v (cr_position s + length header))"
    using readsD [OF assms(5) a(1) assms(6)] a(4) by (simp add: readInt32_def)
  from readRawVarint32_follows [OF assms(3) _ this, of False k] assms(4) obtain s' where
    "readRawVarint32_crypt False s = (Inr w, s')" "good v k s'" "cr_position s' = cr_position s + length header"
    by blast
  moreover have "remaining (reader_at v (cr_position s + length header)) = rest"
    using assms(6) a(5) by (metis append_eq_conv_conj drop_drop add.commute)
  ultimately show ?thesis by (auto simp: readInt32_crypt_def good_def)
qed

lemma decode_end_status:
  assumes "sim v s" and "cr_position s = cr_size s" and "v_status v (length (v_code v)) = get_cfb c'"
  shows "getCurStatus (cr_decrypter s) = getCurStatus c'"
    and "m_aesKey (cr_decrypter s) = Some (encrypt_key (v_key v) (v_aes256 v))"
    and "m_isAES256 (cr_decrypter s) = v_aes256 v"
    and "get_cfb (cr_decrypter s) = get_cfb c'"
proof -
  note d = simD [OF assms(1)]
  have "cr_decryptPosition s = length (v_code v)" using d(3,6,7) assms(2) by simp
  then show g: "get_cfb (cr_decrypter s) = get_cfb c'" using d(5) assms(3) by simp
  have "cfb_ok (get_cfb (cr_decrypter s))" using d(4) by (simp add: cipher_of_def cipher_ok_def cipher_ready_def)
  then show "getCurStatus (cr_decrypter s) = getCurStatus c'"
    using g by (simp add: getCurStatus_cfb)
  show "m_aesKey (cr_decrypter s) = Some (encrypt_key (v_key v) (v_aes256 v))"
    "m_isAES256 (cr_decrypter s) = v_aes256 v"
    using d(4) by (simp_all add: cipher_of_def cipher_ok_def cipher_ready_def)
qed

text \<open>Decoding from the header, and from a position behind bytes that are decoded already.\<close>

lemma decode_header_invariant:
  assumes "cipher_ok c" and "encrypt (header @ enc_log es) c = (Inr code, c')"
    and "reads readInt32 header w" and "\<forall>kv \<in> set es. valid_entry kv \<and> length (fst kv) < 2 ^ 16"
    and "length code < 2 ^ 32" and "P d m"
    and step: "\<And>p kv h d m. P d m \<Longrightarrow> placed (view_from c 0 code) p kv h \<Longrightarrow>
      P (d(fst kv := (if snd kv = [] then None else Some h))) (g p kv m)"
  shows "\<exists>d' e. decodeMapCrypt_block 0 d (CodedInputDataCrypt junk code c) = Some (None, d', e) \<and>
    getCurStatus e = getCurStatus c' \<and> get_cfb e = get_cfb c' \<and> cipher_ok e \<and> m_key e = m_key c \<and> m_isAES256 e = m_isAES256 c \<and>
    P d' (run_steps enc_entry g (length header) es m)"
proof -
  let ?v = "view_from c 0 code" and ?s = "CodedInputDataCrypt junk code c"
  note n = sim_new [OF assms(1), of code junk] and vw = view_from_encrypt(1,2) [OF assms(1,2), of "[]", simplified]
  have v: "cipher_of ?v c" "v_code ?v = code" using view_from_ok(2) [OF assms(1), of 0 code] by (simp_all add: view_from_def Let_def)
  have zero: "cr_position ?s = 0" by (simp add: CodedInputDataCrypt_def Let_def)
  then have r: "remaining (reader_at ?v (cr_position ?s)) = header @ enc_log es"
    using reader_at_wf(5) [OF n(1), of 0] vw(1) by simp
  from readInt32_header [OF assms(1) v(1) n assms(3) r] obtain s1 where s1:
    "readInt32_crypt ?s = (Inr w, s1)" "sim ?v s1" "remaining (reader_at ?v (cr_position s1)) = enc_log es"
    "cr_position s1 = length header" using zero by auto
  obtain d' s2 where s2: "while_not_at_end isAtEnd_crypt decodeMapCrypt_entry d s1 = Some (None, d', s2)"
    "sim ?v s2" "cr_position s2 = cr_size s2" "P d' (run_steps enc_entry g (length header) es m)"
    using decode_log_invariant [where P = P and g = g, OF step s1(2) assms(4) _ s1(3) assms(6)] assms(5) v(2) s1(4) by auto
  note e = decode_end_status [OF s2(2,3), of c']
  have "cipher_of ?v (cr_decrypter s2)" using simD(4) [OF s2(2)] .
  then show ?thesis
    using s1(1) s2(1,4) e(1,4) vw(2) v by (simp add: decodeMapCrypt_block_def bindC_def returnC_def cipher_of_def)
qed

lemma decodeMapCrypt_block_header:
  assumes "cipher_ok c" and "encrypt (header @ enc_log es) c = (Inr code, c')"
    and "reads readInt32 header w" and "\<forall>kv \<in> set es. valid_entry kv \<and> length (fst kv) < 2 ^ 16"
    and "length code < 2 ^ 32" and "shows_values code c d m"
  shows "\<exists>d' e. decodeMapCrypt_block 0 d (CodedInputDataCrypt junk code c) = Some (None, d', e) \<and>
    getCurStatus e = getCurStatus c' \<and> shows_values code e d' (fold log_step es m)"
proof -
  let ?v = "view_from c 0 code"
  have v: "cipher_of ?v c" "v_code ?v = code" using view_from_ok(2) [OF assms(1), of 0 code] by (simp_all add: view_from_def Let_def)
  then have key: "m_aesKey c = Some (encrypt_key (v_key ?v) (v_aes256 ?v))" "m_isAES256 c = v_aes256 ?v"
    by (simp_all add: cipher_of_def cipher_ok_def cipher_ready_def)
  have step: "shows_values code c (d(fst kv := (if snd kv = [] then None else Some h))) (log_step kv m)"
    if "shows_values code c d m" "placed ?v p kv h" for p kv h d m
    using shows_values_step [of ?v c d m h kv] that key v(2) by (simp add: placed_def)
  obtain d' e where d: "decodeMapCrypt_block 0 d (CodedInputDataCrypt junk code c) = Some (None, d', e)"
    "getCurStatus e = getCurStatus c'" "cipher_ok e" "m_key e = m_key c" "m_isAES256 e = m_isAES256 c"
    "shows_values code c d' (fold log_step es m)"
    using decode_header_invariant [where P = "shows_values code c" and g = "\<lambda>_. log_step", OF assms(1-6), of junk] step
    unfolding run_steps_fold by blast
  have "m_aesKey e = m_aesKey c" using d(3-5) assms(1) by (simp add: cipher_ok_def cipher_ready_def)
  then show ?thesis using d shows_values_cong [of e c code] by auto
qed

lemma decodeMapCrypt_block_seek:
  assumes "cipher_ok c" and "encrypt (enc_log es) c = (Inr code, c')" and "0 < length pre"
    and "unat (m_number c) = length pre mod 16" and "\<forall>kv \<in> set es. valid_entry kv \<and> length (fst kv) < 2 ^ 16"
    and "length (pre @ code) < 2 ^ 32" and "shows_values (pre @ code) c d m"
  shows "\<exists>d' e. decodeMapCrypt_block (length pre) d (CodedInputDataCrypt junk (pre @ code) c) = Some (None, d', e) \<and>
    getCurStatus e = getCurStatus c' \<and> shows_values (pre @ code) e d' (fold log_step es m)"
proof -
  let ?v = "view_from c (length pre) (pre @ code)" and ?s = "CodedInputDataCrypt junk (pre @ code) c"
  note vw = view_from_encrypt(1,2) [OF assms(1,2), of pre]
  have v: "cipher_of ?v c" "v_code ?v = pre @ code"
    using view_from_ok(2) [OF assms(1), of "length pre" "pre @ code"] by (simp_all add: view_from_def Let_def)
  have key: "m_aesKey c = Some (encrypt_key (v_key ?v) (v_aes256 ?v))" "m_isAES256 c = v_aes256 ?v"
    using v(1) by (simp_all add: cipher_of_def cipher_ok_def cipher_ready_def)
  obtain s1 where s1: "seek_crypt (length pre) ?s = (Inr (), s1)" "sim ?v s1" "cr_position s1 = length pre"
    using sim_seek [OF assms(1) _ assms(4), of "pre @ code"] by auto
  have r: "remaining (reader_at ?v (cr_position s1)) = enc_log es"
    using reader_at_wf(5) [OF s1(2)] vw(1) s1(3) by simp
  obtain d' s2 where s2: "while_not_at_end isAtEnd_crypt decodeMapCrypt_entry d s1 = Some (None, d', s2)"
    "sim ?v s2" "cr_position s2 = cr_size s2" "shows_values (pre @ code) c d' (fold log_step es m)"
    using decode_log_crypt [OF s1(2) assms(5) _ r key, of d m] assms(6,7) v(2) by auto
  note e = decode_end_status [OF s2(2,3), of c']
  have "shows_values (pre @ code) (cr_decrypter s2) d' (fold log_step es m)"
    using s2(4) shows_values_cong [of c "cr_decrypter s2" "pre @ code"] e(2,3) key vw(2) v(2) by simp
  then show ?thesis
    using s1(1) s2(1) e(1) vw(2) v(2) assms(3) by (simp add: decodeMapCrypt_block_def)
qed

lemma encrypt_returns:
  assumes "cipher_ok c"
  obtains code c' where "encrypt msg c = (Inr code, c')"
proof -
  have "cipher_ready (m_key c) c" using assms by (simp add: cipher_ok_def)
  then show thesis
    using that encrypt_run [of "m_key c" c msg] by (simp add: case_prod_beta)
qed

end
