(* ===== verification/InterProcessLock.thy ===== *)
theory InterProcessLock
  imports Prelude
begin

text \<open>
  The recursive file lock shared by the processes that map one store (\<open>InterProcessLock.h\<close>,
  \<open>InterProcessLock.cpp\<close>, \<open>InterProcessLock_Android.cpp\<close>, \<open>ScopedLock.hpp\<close>).

  Every operation is a program \<open>'a sys\<close>: it returns, or makes a system call and continues with the
  call's result. The kernel is a parameter \<open>K\<close>: \<open>K h p c r h'\<close> says that in the lock table \<open>h\<close> the
  call \<open>c\<close> of process \<open>p\<close> may return \<open>r\<close> and leave the table \<open>h'\<close>; what the manual pages of \<open>flock\<close>
  and \<open>fcntl\<close> promise is the predicate \<open>lock_service\<close>. The programs of any number of processes are
  interleaved at their system calls by the step relation \<open>lock_step\<close>; within a process the thread
  lock makes the operations sequential.

  The build modelled is the Android one: with \<open>m_useFcntlLock\<close> false it is the code of every other
  POSIX build. The log calls have no counterpart; counters are unbounded.
\<close>

section \<open>System calls\<close>

datatype LockType = SharedLockType | ExclusiveLockType

datatype lock_mode = Unlocked | Shared | Exclusive

datatype flock_operation = LOCK_SH | LOCK_EX | LOCK_UN

datatype fcntl_type = F_RDLCK | F_WRLCK | F_UNLCK

datatype syscall =
    Flock flock_operation bool (* LOCK_NB *)
  | Fcntl bool bool fcntl_type (* per process (ashmem); wait (F_SETLKW); l_type *)

datatype sys_result = Success | Again (* EWOULDBLOCK, EAGAIN *) | Failed

datatype 'a sys = Ret 'a | Call syscall "sys_result \<Rightarrow> 'a sys"

primrec sys_map :: "('a \<Rightarrow> 'b) \<Rightarrow> 'a sys \<Rightarrow> 'b sys" where
  "sys_map f (Ret x) = Ret (f x)"
| "sys_map f (Call c k) = Call c (\<lambda>r. sys_map f (k r))"

section \<open>The file lock\<close>

record FileLock =
  m_fd :: int
  m_sharedLockCount :: nat
  m_exclusiveLockCount :: nat
  m_useFcntlLock :: bool
  m_isAshmem :: bool
  l_type :: fcntl_type

definition FileLock_new :: "int \<Rightarrow> bool \<Rightarrow> bool \<Rightarrow> FileLock" where
  "FileLock_new fd useFcntlLock isAshmem =
     \<lparr>m_fd = fd, m_sharedLockCount = 0, m_exclusiveLockCount = 0, m_useFcntlLock = useFcntlLock,
      m_isAshmem = isAshmem, l_type = F_WRLCK\<rparr>"

definition isFileLockValid :: "FileLock \<Rightarrow> bool" where
  "isFileLockValid l \<longleftrightarrow> 0 \<le> m_fd l"

text \<open>The result of an operation: what it returns, the variable \<open>tryAgain\<close> points to (\<open>None\<close> for the
  null pointer), and the lock object.\<close>

type_synonym outcome = "bool \<times> bool option \<times> FileLock"

definition LockType2FlockType :: "LockType \<Rightarrow> flock_operation" where
  "LockType2FlockType t = (case t of SharedLockType \<Rightarrow> LOCK_SH | ExclusiveLockType \<Rightarrow> LOCK_EX)"

definition LockType2FlockType_fcntl :: "LockType \<Rightarrow> fcntl_type" where
  "LockType2FlockType_fcntl t = (case t of SharedLockType \<Rightarrow> F_RDLCK | ExclusiveLockType \<Rightarrow> F_WRLCK)"

definition set_tryAgain :: "sys_result \<Rightarrow> bool option \<Rightarrow> bool option" where
  "set_tryAgain ret tryAgain = map_option (\<lambda>_. ret = Again) tryAgain"

text \<open>The request itself, and the attempt to get the shared lock back when it is refused.\<close>

definition fcntlLock_request :: "bool \<Rightarrow> bool \<Rightarrow> bool option \<Rightarrow> FileLock \<Rightarrow> outcome sys" where
  "fcntlLock_request wait unLockFirstIfNeeded tryAgain l =
     Call (Fcntl (m_isAshmem l) wait (l_type l)) (\<lambda>ret.
       if ret \<noteq> Success
       then if unLockFirstIfNeeded
            then let l' = l\<lparr>l_type := LockType2FlockType_fcntl SharedLockType\<rparr>
                 in Call (Fcntl (m_isAshmem l) wait (l_type l')) (\<lambda>_. Ret (False, set_tryAgain ret tryAgain, l'))
            else Ret (False, set_tryAgain ret tryAgain, l)
       else Ret (True, tryAgain, l))"

definition fcntlLock :: "LockType \<Rightarrow> bool \<Rightarrow> bool \<Rightarrow> bool option \<Rightarrow> FileLock \<Rightarrow> outcome sys" where
  "fcntlLock lockType wait unLockFirstIfNeeded tryAgain l0 =
     (let l = l0\<lparr>l_type := LockType2FlockType_fcntl lockType\<rparr>
      in if unLockFirstIfNeeded
         then Call (Fcntl (m_isAshmem l) False (l_type l)) (\<lambda>ret.
                if ret = Success then Ret (True, tryAgain, l)
                else Call (Fcntl (m_isAshmem l) False F_UNLCK) (\<lambda>_.
                       fcntlLock_request wait unLockFirstIfNeeded tryAgain l))
         else fcntlLock_request wait unLockFirstIfNeeded tryAgain l)"

definition fcntlUnLock :: "bool \<Rightarrow> FileLock \<Rightarrow> outcome sys" where
  "fcntlUnLock unlockToSharedLock l0 =
     (let l = l0\<lparr>l_type := if unlockToSharedLock then F_RDLCK else F_UNLCK\<rparr>
      in Call (Fcntl (m_isAshmem l) False (l_type l)) (\<lambda>ret. Ret (ret = Success, None, l)))"

definition platformLock_request :: "flock_operation \<Rightarrow> bool \<Rightarrow> bool \<Rightarrow> bool option \<Rightarrow> FileLock \<Rightarrow> outcome sys" where
  "platformLock_request realLockType wait unLockFirstIfNeeded tryAgain l =
     Call (Flock realLockType (\<not> wait)) (\<lambda>ret.
       if ret \<noteq> Success
       then if unLockFirstIfNeeded
            then Call (Flock (LockType2FlockType SharedLockType) False)
                   (\<lambda>_. Ret (False, set_tryAgain ret tryAgain, l))
            else Ret (False, set_tryAgain ret tryAgain, l)
       else Ret (True, tryAgain, l))"

definition platformLock :: "LockType \<Rightarrow> bool \<Rightarrow> bool \<Rightarrow> bool option \<Rightarrow> FileLock \<Rightarrow> outcome sys" where
  "platformLock lockType wait unLockFirstIfNeeded tryAgain l =
     (if m_useFcntlLock l then fcntlLock lockType wait unLockFirstIfNeeded tryAgain l
      else let realLockType = LockType2FlockType lockType
           in if unLockFirstIfNeeded
              then Call (Flock realLockType True) (\<lambda>ret.
                     if ret = Success then Ret (True, tryAgain, l)
                     else Call (Flock LOCK_UN False) (\<lambda>_.
                            platformLock_request realLockType wait unLockFirstIfNeeded tryAgain l))
              else platformLock_request realLockType wait unLockFirstIfNeeded tryAgain l)"

definition platformUnLock :: "bool \<Rightarrow> FileLock \<Rightarrow> outcome sys" where
  "platformUnLock unlockToSharedLock l =
     (if m_useFcntlLock l then fcntlUnLock unlockToSharedLock l
      else Call (Flock (if unlockToSharedLock then LOCK_SH else LOCK_UN) False)
             (\<lambda>ret. Ret (ret = Success, None, l)))"

text \<open>The bookkeeping that follows a request.\<close>

fun count_lock :: "LockType \<Rightarrow> outcome \<Rightarrow> outcome" where
  "count_lock lockType (ret, tryAgain, l) =
     (ret, tryAgain,
      if ret
      then (case lockType of
              SharedLockType \<Rightarrow> l\<lparr>m_sharedLockCount := m_sharedLockCount l + 1\<rparr>
            | ExclusiveLockType \<Rightarrow> l\<lparr>m_exclusiveLockCount := m_exclusiveLockCount l + 1\<rparr>)
      else l)"

fun count_unlock :: "LockType \<Rightarrow> outcome \<Rightarrow> outcome" where
  "count_unlock lockType (ret, tryAgain, l) =
     (ret, tryAgain,
      if ret
      then (case lockType of
              SharedLockType \<Rightarrow> l\<lparr>m_sharedLockCount := m_sharedLockCount l - 1\<rparr>
            | ExclusiveLockType \<Rightarrow> l\<lparr>m_exclusiveLockCount := m_exclusiveLockCount l - 1\<rparr>)
      else l)"

definition doLock :: "LockType \<Rightarrow> bool \<Rightarrow> bool option \<Rightarrow> FileLock \<Rightarrow> outcome sys" where
  "doLock lockType wait tryAgain l =
     (if \<not> isFileLockValid l then Ret (False, tryAgain, l)
      else case lockType of
        SharedLockType \<Rightarrow>
          if 0 < m_sharedLockCount l \<or> 0 < m_exclusiveLockCount l
          then Ret (True, tryAgain, l\<lparr>m_sharedLockCount := m_sharedLockCount l + 1\<rparr>)
          else sys_map (count_lock lockType) (platformLock lockType wait False tryAgain l)
      | ExclusiveLockType \<Rightarrow>
          if 0 < m_exclusiveLockCount l
          then Ret (True, tryAgain, l\<lparr>m_exclusiveLockCount := m_exclusiveLockCount l + 1\<rparr>)
          else let unLockFirstIfNeeded = (0 < m_sharedLockCount l)
               in sys_map (count_lock lockType) (platformLock lockType wait unLockFirstIfNeeded tryAgain l))"

definition FileLock_lock :: "LockType \<Rightarrow> FileLock \<Rightarrow> outcome sys" where
  "FileLock_lock lockType l = doLock lockType True None l"

definition FileLock_try_lock :: "LockType \<Rightarrow> bool option \<Rightarrow> FileLock \<Rightarrow> outcome sys" where
  "FileLock_try_lock lockType tryAgain l = doLock lockType False tryAgain l"

definition FileLock_unlock :: "LockType \<Rightarrow> FileLock \<Rightarrow> outcome sys" where
  "FileLock_unlock lockType l =
     (if \<not> isFileLockValid l then Ret (False, None, l)
      else case lockType of
        SharedLockType \<Rightarrow>
          if m_sharedLockCount l = 0 then Ret (False, None, l)
          else if 1 < m_sharedLockCount l \<or> 0 < m_exclusiveLockCount l
          then Ret (True, None, l\<lparr>m_sharedLockCount := m_sharedLockCount l - 1\<rparr>)
          else sys_map (count_unlock lockType) (platformUnLock False l)
      | ExclusiveLockType \<Rightarrow>
          if m_exclusiveLockCount l = 0 then Ret (False, None, l)
          else if 1 < m_exclusiveLockCount l
          then Ret (True, None, l\<lparr>m_exclusiveLockCount := m_exclusiveLockCount l - 1\<rparr>)
          else let unlockToSharedLock = (0 < m_sharedLockCount l)
               in sys_map (count_unlock lockType) (platformUnLock unlockToSharedLock l))"

text \<open>The destructor (the object that is left is not used again) and \<open>destroyAndUnLock\<close>, which also
  gives up the file handle; both ignore the result of the call.\<close>

definition FileLock_delete :: "FileLock \<Rightarrow> outcome sys" where
  "FileLock_delete l =
     (if isFileLockValid l
      then if 0 < m_exclusiveLockCount l
           then platformUnLock False (l\<lparr>m_sharedLockCount := 0, m_exclusiveLockCount := 0\<rparr>)
           else if 0 < m_sharedLockCount l then platformUnLock False (l\<lparr>m_sharedLockCount := 0\<rparr>)
           else Ret (True, None, l)
      else Ret (True, None, l))"

definition destroyAndUnLock :: "FileLock \<Rightarrow> outcome sys" where
  "destroyAndUnLock l =
     sys_map (\<lambda>(ret, tryAgain, l'). (ret, tryAgain,
                l'\<lparr>m_sharedLockCount := 0, m_exclusiveLockCount := 0, m_fd := - 1\<rparr>))
       (platformUnLock False l)"

section \<open>The lock of one kind, and its scopes\<close>

record InterProcessLock =
  m_lockType :: LockType
  m_enable :: bool

definition InterProcessLock_new :: "LockType \<Rightarrow> InterProcessLock" where
  "InterProcessLock_new lockType = \<lparr>m_lockType = lockType, m_enable = True\<rparr>"

definition InterProcessLock_lock :: "InterProcessLock \<Rightarrow> FileLock \<Rightarrow> FileLock sys" where
  "InterProcessLock_lock i l =
     (if m_enable i then sys_map (\<lambda>(_, _, l'). l') (FileLock_lock (m_lockType i) l) else Ret l)"

definition InterProcessLock_try_lock :: "InterProcessLock \<Rightarrow> bool option \<Rightarrow> FileLock \<Rightarrow> outcome sys" where
  "InterProcessLock_try_lock i tryAgain l =
     (if m_enable i then FileLock_try_lock (m_lockType i) tryAgain l else Ret (False, tryAgain, l))"

definition InterProcessLock_unlock :: "InterProcessLock \<Rightarrow> FileLock \<Rightarrow> FileLock sys" where
  "InterProcessLock_unlock i l =
     (if m_enable i then sys_map (\<lambda>(_, _, l'). l') (FileLock_unlock (m_lockType i) l) else Ret l)"

primrec sys_bind :: "'a sys \<Rightarrow> ('a \<Rightarrow> 'b sys) \<Rightarrow> 'b sys" where
  "sys_bind (Ret x) f = f x"
| "sys_bind (Call c k) f = Call c (\<lambda>r. sys_bind (k r) f)"

text \<open>A block that starts with a \<open>SCOPED_LOCK\<close>: the constructor locks, the destructor unlocks.\<close>

definition ScopedLock :: "InterProcessLock option \<Rightarrow> (FileLock \<Rightarrow> FileLock sys) \<Rightarrow> FileLock \<Rightarrow> FileLock sys" where
  "ScopedLock m_lock body l =
     (case m_lock of
        None \<Rightarrow> body l
      | Some i \<Rightarrow> sys_bind (InterProcessLock_lock i l) (\<lambda>l1. sys_bind (body l1) (InterProcessLock_unlock i)))"

section \<open>What the kernel promises\<close>

definition target :: "syscall \<Rightarrow> lock_mode" where
  "target c = (case c of
     Flock op _ \<Rightarrow> (case op of LOCK_SH \<Rightarrow> Shared | LOCK_EX \<Rightarrow> Exclusive | LOCK_UN \<Rightarrow> Unlocked)
   | Fcntl _ _ t \<Rightarrow> (case t of F_RDLCK \<Rightarrow> Shared | F_WRLCK \<Rightarrow> Exclusive | F_UNLCK \<Rightarrow> Unlocked))"

definition blocking :: "syscall \<Rightarrow> bool" where
  "blocking c = (case c of Flock _ nonblock \<Rightarrow> \<not> nonblock | Fcntl _ wait _ \<Rightarrow> wait)"

text \<open>\<open>flock\<close> converts a lock in two steps, so a conversion that fails may have lost the lock held
  before; \<open>fcntl\<close> converts atomically, and a failed release changes nothing.\<close>

definition may_lose :: "syscall \<Rightarrow> bool" where
  "may_lose c = (case c of Flock op _ \<Rightarrow> op \<noteq> LOCK_UN | Fcntl _ _ _ \<Rightarrow> False)"

definition own_effect :: "syscall \<Rightarrow> sys_result \<Rightarrow> lock_mode \<Rightarrow> lock_mode \<Rightarrow> bool" where
  "own_effect c r m m' \<longleftrightarrow>
     (if r = Success then m' = target c else m' = m \<or> (may_lose c \<and> m' = Unlocked))"

type_synonym 'p table = "'p \<Rightarrow> lock_mode"
type_synonym 'p kernel = "'p table \<Rightarrow> 'p \<Rightarrow> syscall \<Rightarrow> sys_result \<Rightarrow> 'p table \<Rightarrow> bool"

definition grantable :: "'p table \<Rightarrow> 'p \<Rightarrow> lock_mode \<Rightarrow> bool" where
  "grantable h p m \<longleftrightarrow>
     (case m of Unlocked \<Rightarrow> True
      | Shared \<Rightarrow> \<forall>q. q \<noteq> p \<longrightarrow> h q \<noteq> Exclusive
      | Exclusive \<Rightarrow> \<forall>q. q \<noteq> p \<longrightarrow> h q = Unlocked)"

definition lock_service :: "'p kernel \<Rightarrow> bool" where
  "lock_service K \<longleftrightarrow>
     (\<forall>h p c r h'. K h p c r h' \<longrightarrow>
        own_effect c r (h p) (h' p) \<and> (\<forall>q. q \<noteq> p \<longrightarrow> h' q = h q) \<and>
        (r = Success \<longrightarrow> grantable h p (target c)))"

text \<open>Giving up a lock, or weakening an exclusive one, does not fail.\<close>

definition releases :: "syscall \<Rightarrow> lock_mode \<Rightarrow> bool" where
  "releases c m \<longleftrightarrow> target c = Unlocked \<or> (m = Exclusive \<and> target c = Shared)"

definition releases_succeed :: "'p kernel \<Rightarrow> bool" where
  "releases_succeed K \<longleftrightarrow> (\<forall>h p c r h'. K h p c r h' \<and> releases c (h p) \<longrightarrow> r = Success)"

text \<open>A request for the shared lock that may wait is granted in the end: what the code relies on when
  it gets its shared lock back.\<close>

definition shared_granted :: "'p kernel \<Rightarrow> bool" where
  "shared_granted K \<longleftrightarrow>
     (\<forall>h p c r h'. K h p c r h' \<and> blocking c \<and> target c = Shared \<longrightarrow> r = Success)"

text \<open>A kernel that grants a request as soon as it can, and refuses it otherwise if it may not wait.\<close>

definition plain_kernel :: "'p kernel" where
  "plain_kernel h p c r h' \<longleftrightarrow>
     (r = Success \<and> grantable h p (target c) \<and> h' = h(p := target c)) \<or>
     (r = Again \<and> \<not> blocking c \<and> \<not> releases c (h p) \<and> \<not> grantable h p (target c) \<and> h' = h)"

lemma lock_serviceD:
  assumes "lock_service K" and "K h p c r h'"
  shows "own_effect c r (h p) (h' p)" and "q \<noteq> p \<Longrightarrow> h' q = h q" and "r = Success \<Longrightarrow> grantable h p (target c)"
  using assms unfolding lock_service_def by blast+

lemma releases_succeedD: "releases_succeed K \<Longrightarrow> K h p c r h' \<Longrightarrow> releases c (h p) \<Longrightarrow> r = Success"
  unfolding releases_succeed_def by blast

lemma shared_grantedD:
  "shared_granted K \<Longrightarrow> K h p c r h' \<Longrightarrow> blocking c \<Longrightarrow> target c = Shared \<Longrightarrow> r = Success"
  unfolding shared_granted_def by blast

lemma lock_service_plain_kernel: "lock_service plain_kernel"
  by (auto simp: lock_service_def plain_kernel_def own_effect_def)

lemma releases_succeed_plain_kernel: "releases_succeed plain_kernel"
  by (auto simp: releases_succeed_def plain_kernel_def)

lemma shared_granted_plain_kernel: "shared_granted plain_kernel"
  by (auto simp: shared_granted_def plain_kernel_def)

text \<open>The runs on a kernel in which no release fails, and those in which also every request for the shared lock that
  may wait is granted: a signal or a lack of memory in the kernel may make either fail.\<close>

definition releasing :: "'p kernel \<Rightarrow> 'p kernel" where
  "releasing K h p c r h' \<longleftrightarrow> K h p c r h' \<and> (releases c (h p) \<longrightarrow> r = Success)"

definition recovering :: "'p kernel \<Rightarrow> 'p kernel" where
  "recovering K h p c r h' \<longleftrightarrow> releasing K h p c r h' \<and> (blocking c \<and> target c = Shared \<longrightarrow> r = Success)"

lemma releasing_ok: "lock_service K \<Longrightarrow> lock_service (releasing K)" "releases_succeed (releasing K)"
  by (auto simp: lock_service_def releases_succeed_def releasing_def)

lemma recovering_ok: "lock_service K \<Longrightarrow> lock_service (recovering K)" "releases_succeed (recovering K)" "shared_granted (recovering K)"
  by (auto simp: lock_service_def releases_succeed_def shared_granted_def releasing_def recovering_def)

lemma releasing_plain_kernel: "releasing plain_kernel = plain_kernel"
  by (auto simp: fun_eq_iff releasing_def plain_kernel_def)

lemma recovering_plain_kernel: "recovering plain_kernel = plain_kernel"
  by (auto simp: fun_eq_iff recovering_def releasing_def plain_kernel_def)

section \<open>Programs and their calls\<close>

text \<open>\<open>wp E C prog Q m\<close>: a process that holds \<open>m\<close> and runs \<open>prog\<close> makes only calls that satisfy \<open>C\<close>
  and ends in a result and a mode that satisfy \<open>Q\<close>, if the calls have only the effects \<open>E\<close>.\<close>

type_synonym effect = "syscall \<Rightarrow> sys_result \<Rightarrow> lock_mode \<Rightarrow> lock_mode \<Rightarrow> bool"

primrec wp :: "effect \<Rightarrow> (syscall \<Rightarrow> lock_mode \<Rightarrow> bool) \<Rightarrow> 'a sys \<Rightarrow> ('a \<Rightarrow> lock_mode \<Rightarrow> bool) \<Rightarrow> lock_mode \<Rightarrow> bool" where
  "wp E C (Ret x) Q m = Q x m"
| "wp E C (Call c k) Q m = (C c m \<and> (\<forall>r m'. E c r m m' \<longrightarrow> wp E C (k r) Q m'))"

lemma wp_Ret [simp]: "wp E C (Ret x) Q = Q x"
  by (simp add: fun_eq_iff)

lemma wp_sys_map [simp]: "wp E C (sys_map f prog) Q = wp E C prog (\<lambda>x. Q (f x))"
proof
  show "wp E C (sys_map f prog) Q m = wp E C prog (\<lambda>x. Q (f x)) m" for m
    by (induction prog arbitrary: m) auto
qed

lemma wp_sys_bind: "wp E C (sys_bind prog f) Q = wp E C prog (\<lambda>x. wp E C (f x) Q)"
proof
  show "wp E C (sys_bind prog f) Q m = wp E C prog (\<lambda>x. wp E C (f x) Q) m" for m
    by (induction prog arbitrary: m) auto
qed

lemma wp_mono:
  "wp E C prog Q m \<Longrightarrow> (\<And>x m. Q x m \<Longrightarrow> Q' x m) \<Longrightarrow> (\<And>c r m m'. E' c r m m' \<Longrightarrow> E c r m m') \<Longrightarrow>
   (\<And>c m. C c m \<Longrightarrow> C' c m) \<Longrightarrow> wp E' C' prog Q' m"
proof (induction prog arbitrary: m)
  case (Call c k)
  then show ?case by (simp add: range_eqI)
qed simp

text \<open>The mode the counters stand for. After a shared lock could not be got back, a positive counter of
  shared locks goes with no lock at all (\<open>nominal\<close>); otherwise the two agree.\<close>

definition counted_mode :: "FileLock \<Rightarrow> lock_mode" where
  "counted_mode l = (if 0 < m_exclusiveLockCount l then Exclusive
                     else if 0 < m_sharedLockCount l then Shared else Unlocked)"

definition nominal :: "FileLock \<Rightarrow> lock_mode \<Rightarrow> bool" where
  "nominal l m \<longleftrightarrow> m = counted_mode l \<or> (counted_mode l = Shared \<and> m = Unlocked)"

definition released :: effect where
  "released c r m m' \<longleftrightarrow> own_effect c r m m' \<and> (releases c m \<longrightarrow> r = Success)"

definition recovered :: effect where
  "recovered c r m m' \<longleftrightarrow> released c r m m' \<and> (blocking c \<and> target c = Shared \<longrightarrow> r = Success)"

text \<open>A call that may wait is made without a lock, or weakens an exclusive one.\<close>

definition waits_empty_handed :: "syscall \<Rightarrow> lock_mode \<Rightarrow> bool" where
  "waits_empty_handed c m \<longleftrightarrow> (blocking c \<longrightarrow> m = Unlocked \<or> releases c m)"

lemmas lock_program_defs = doLock_def FileLock_lock_def FileLock_try_lock_def FileLock_unlock_def
  FileLock_delete_def destroyAndUnLock_def platformLock_def platformUnLock_def platformLock_request_def
  fcntlLock_def fcntlUnLock_def fcntlLock_request_def LockType2FlockType_def LockType2FlockType_fcntl_def
  Let_def

lemmas effect_defs = own_effect_def released_def recovered_def releases_def target_def
  blocking_def may_lose_def waits_empty_handed_def

section \<open>Every operation keeps the lock it counts\<close>

datatype lock_request =
    Lock LockType | TryLock LockType "bool option" | Unlock LockType | Destroy | Delete

definition request_program :: "lock_request \<Rightarrow> FileLock \<Rightarrow> outcome sys" where
  "request_program q l = (case q of
     Lock t \<Rightarrow> FileLock_lock t l | TryLock t b \<Rightarrow> FileLock_try_lock t b l | Unlock t \<Rightarrow> FileLock_unlock t l
   | Destroy \<Rightarrow> destroyAndUnLock l | Delete \<Rightarrow> FileLock_delete l)"

lemma doLock_nominal:
  assumes "nominal l m"
  shows "wp released waits_empty_handed (doLock t w b l) (\<lambda>(_, _, l'). nominal l') m"
  using assms
  by (cases t; cases "m_useFcntlLock l"; cases w; cases m)
     (auto simp: lock_program_defs effect_defs nominal_def counted_mode_def split: if_splits)


lemma unlock_nominal:
  assumes "nominal l m"
  shows "wp released waits_empty_handed (FileLock_unlock t l) (\<lambda>(_, _, l'). nominal l') m"
  using assms
  by (cases t; cases "m_useFcntlLock l"; cases m)
     (auto simp: lock_program_defs effect_defs nominal_def counted_mode_def split: if_splits)

lemma delete_nominal:
  assumes "nominal l m"
  shows "wp released waits_empty_handed (FileLock_delete l) (\<lambda>(_, _, l'). nominal l') m"
    and "wp released waits_empty_handed (destroyAndUnLock l) (\<lambda>(_, _, l'). nominal l') m"
  using assms
  by (cases "m_useFcntlLock l"; cases m;
      auto simp: lock_program_defs effect_defs nominal_def counted_mode_def split: if_splits)+

lemma request_nominal:
  "nominal l m \<Longrightarrow>
   wp released waits_empty_handed (request_program q l) (\<lambda>(_, _, l'). nominal l') m"
  by (cases q)
     (simp_all add: request_program_def FileLock_lock_def FileLock_try_lock_def doLock_nominal
        unlock_nominal delete_nominal)

lemma doLock_agrees:
  assumes "m = counted_mode l" and "\<not> m_useFcntlLock l"
  shows "wp recovered (\<lambda>_ _. True) (doLock t w b l)
           (\<lambda>(_, _, l') m'. m' = counted_mode l' \<and> \<not> m_useFcntlLock l') m"
  using assms
  by (cases t; cases w; cases m)
     (auto simp: lock_program_defs effect_defs counted_mode_def split: if_splits)

lemma unlock_agrees:
  assumes "m = counted_mode l" and "\<not> m_useFcntlLock l"
  shows "wp recovered (\<lambda>_ _. True) (FileLock_unlock t l)
           (\<lambda>(_, _, l') m'. m' = counted_mode l' \<and> \<not> m_useFcntlLock l') m"
  using assms
  by (cases t; cases m) (auto simp: lock_program_defs effect_defs counted_mode_def split: if_splits)

lemma delete_agrees:
  assumes "m = counted_mode l" and "\<not> m_useFcntlLock l"
  shows "wp recovered (\<lambda>_ _. True) (FileLock_delete l)
           (\<lambda>(_, _, l') m'. m' = counted_mode l' \<and> \<not> m_useFcntlLock l') m"
    and "wp recovered (\<lambda>_ _. True) (destroyAndUnLock l)
           (\<lambda>(_, _, l') m'. m' = counted_mode l' \<and> \<not> m_useFcntlLock l') m"
  using assms
  by (cases m; auto simp: lock_program_defs effect_defs counted_mode_def split: if_splits)+

lemma request_agrees:
  "m = counted_mode l \<Longrightarrow> \<not> m_useFcntlLock l \<Longrightarrow>
   wp recovered (\<lambda>_ _. True) (request_program q l)
     (\<lambda>(_, _, l') m'. m' = counted_mode l' \<and> \<not> m_useFcntlLock l') m"
  by (cases q)
     (simp_all add: request_program_def FileLock_lock_def FileLock_try_lock_def doLock_agrees
        unlock_agrees delete_agrees)

text \<open>What a lock operation does to the counters, and what the unlock that answers it makes of them.\<close>

definition same_counts :: "FileLock \<Rightarrow> FileLock \<Rightarrow> bool" where
  "same_counts l l' \<longleftrightarrow> m_fd l' = m_fd l \<and> m_useFcntlLock l' = m_useFcntlLock l \<and>
     m_sharedLockCount l' = m_sharedLockCount l \<and> m_exclusiveLockCount l' = m_exclusiveLockCount l"

definition taken :: "LockType \<Rightarrow> FileLock \<Rightarrow> FileLock \<Rightarrow> bool" where
  "taken t l l' \<longleftrightarrow> m_fd l' = m_fd l \<and> m_useFcntlLock l' = m_useFcntlLock l \<and>
     m_sharedLockCount l' = m_sharedLockCount l + (if t = SharedLockType then 1 else 0) \<and>
     m_exclusiveLockCount l' = m_exclusiveLockCount l + (if t = ExclusiveLockType then 1 else 0)"

definition lock_count :: "LockType \<Rightarrow> FileLock \<Rightarrow> nat" where
  "lock_count t l = (case t of SharedLockType \<Rightarrow> m_sharedLockCount l | ExclusiveLockType \<Rightarrow> m_exclusiveLockCount l)"

lemmas count_defs = same_counts_def taken_def lock_count_def nominal_def counted_mode_def isFileLockValid_def

lemma doLock_counts:
  assumes "nominal l m"
  shows "wp released waits_empty_handed (doLock t w b l)
           (\<lambda>(ret, _, l') m'. nominal l' m' \<and>
              (if ret then isFileLockValid l \<and> taken t l l'
               else same_counts l l' \<and> (isFileLockValid l \<longrightarrow> lock_count t l = 0))) m"
  using assms
  by (cases t; cases "m_useFcntlLock l"; cases w; cases m)
     (auto simp: lock_program_defs effect_defs count_defs split: if_splits)

lemma unlock_taken:
  assumes "nominal l2 m" and "isFileLockValid l" and "taken t l l2"
  shows "wp released waits_empty_handed (FileLock_unlock t l2) (\<lambda>(_, _, l') m'. nominal l' m' \<and> same_counts l l') m"
  using assms
  by (cases t; cases "m_useFcntlLock l"; cases m)
     (auto simp: lock_program_defs effect_defs count_defs split: if_splits)

lemma unlock_not_taken:
  assumes "nominal l2 m" and "same_counts l l2" and "isFileLockValid l \<longrightarrow> lock_count t l = 0"
  shows "wp released waits_empty_handed (FileLock_unlock t l2) (\<lambda>(_, _, l') m'. nominal l' m' \<and> same_counts l l') m"
  using assms
  by (cases t) (auto simp: lock_program_defs effect_defs count_defs split: if_splits)

lemma same_counts_trans: "same_counts a b \<Longrightarrow> same_counts b c \<Longrightarrow> same_counts a c"
  by (simp add: same_counts_def)

lemma taken_same_counts: "taken t a b \<Longrightarrow> same_counts b c \<Longrightarrow> taken t a c"
  by (simp add: same_counts_def taken_def)

lemma scoped_counts:
  assumes nom: "nominal l m"
    and body: "\<And>l1 m1. nominal l1 m1 \<Longrightarrow>
           wp released waits_empty_handed (body l1) (\<lambda>l2 m2. nominal l2 m2 \<and> same_counts l1 l2) m1"
  shows "wp released waits_empty_handed (ScopedLock i body l)
           (\<lambda>l' m'. nominal l' m' \<and> same_counts l l') m"
proof (cases "\<exists>j. i = Some j \<and> m_enable j")
  case False
  then show ?thesis
    using body [OF nom]
    by (auto simp: ScopedLock_def InterProcessLock_lock_def InterProcessLock_unlock_def wp_sys_bind split: option.splits)
next
  case True
  then obtain j where j: "i = Some j" "m_enable j" by blast
  show ?thesis
    unfolding ScopedLock_def j(1) InterProcessLock_lock_def InterProcessLock_unlock_def FileLock_lock_def
    apply (simp add: j(2) wp_sys_bind split_def)
    apply (rule wp_mono [OF doLock_counts [OF nom]])
      apply clarsimp
      apply (rule wp_mono [OF body], assumption)
        apply (clarsimp split: if_splits)
         apply (rule wp_mono [OF unlock_taken], assumption, assumption)
            apply (erule taken_same_counts, assumption)
           apply auto[3]
        apply (rule wp_mono [OF unlock_not_taken], assumption)
            apply (erule same_counts_trans, assumption)
           apply auto
    done
qed

text \<open>Scopes in scopes: the locks of the list, the first outermost.\<close>

primrec nested_scopes :: "InterProcessLock list \<Rightarrow> FileLock \<Rightarrow> FileLock sys" where
  "nested_scopes [] l = Ret l"
| "nested_scopes (i # locks) l = ScopedLock (Some i) (nested_scopes locks) l"

lemma nested_scopes_counts:
  "nominal l m \<Longrightarrow>
   wp released waits_empty_handed (nested_scopes locks l) (\<lambda>l' m'. nominal l' m' \<and> same_counts l l') m"
proof (induction locks arbitrary: l m)
  case (Cons i locks)
  then show ?case by (simp add: scoped_counts)
qed (simp add: same_counts_def)

section \<open>Processes\<close>

text \<open>A process is between operations, or in the middle of one. A step starts an operation, lets the
  kernel answer a call, or ends an operation; the processes step in any order.\<close>

datatype process = Idle FileLock | Busy "outcome sys"

inductive lock_step :: "'p kernel \<Rightarrow> 'p table \<times> ('p \<Rightarrow> process) \<Rightarrow> 'p table \<times> ('p \<Rightarrow> process) \<Rightarrow> bool"
  for K where
  start: "ps p = Idle l \<Longrightarrow> lock_step K (h, ps) (h, ps(p := Busy (request_program q l)))"
| call: "ps p = Busy (Call c k) \<Longrightarrow> K h p c r h' \<Longrightarrow> lock_step K (h, ps) (h', ps(p := Busy (k r)))"
| return: "ps p = Busy (Ret (b, t, l)) \<Longrightarrow> lock_step K (h, ps) (h, ps(p := Idle l))"

inductive_cases lock_stepE: "lock_step K s s'"

definition initial :: "('p \<Rightarrow> FileLock) \<Rightarrow> 'p table \<times> ('p \<Rightarrow> process)" where
  "initial ls = (\<lambda>_. Unlocked, \<lambda>p. Idle (ls p))"

definition fresh :: "FileLock \<Rightarrow> bool" where
  "fresh l \<longleftrightarrow> m_sharedLockCount l = 0 \<and> m_exclusiveLockCount l = 0"

definition reachable :: "'p kernel \<Rightarrow> ('p \<Rightarrow> FileLock) \<Rightarrow> 'p table \<times> ('p \<Rightarrow> process) \<Rightarrow> bool" where
  "reachable K ls s \<longleftrightarrow> (lock_step K)\<^sup>*\<^sup>* (initial ls) s"

lemma reachable_induct [consumes 1, case_names initial step]:
  assumes "reachable K ls s" and "P (initial ls)"
    and "\<And>s s'. reachable K ls s \<Longrightarrow> P s \<Longrightarrow> lock_step K s s' \<Longrightarrow> P s'"
  shows "P s"
  using assms(1) unfolding reachable_def
  by (induction rule: rtranclp_induct) (auto simp: reachable_def intro: assms(2,3))

text \<open>The lock table: an exclusive lock stands alone.\<close>

definition table_ok :: "'p table \<Rightarrow> bool" where
  "table_ok h \<longleftrightarrow> (\<forall>p q. p \<noteq> q \<and> h p = Exclusive \<longrightarrow> h q = Unlocked)"

lemma table_ok_call:
  assumes "lock_service K" and "K h p c r h'" and "table_ok h"
  shows "table_ok h'"
proof -
  have eff: "own_effect c r (h p) (h' p)" and same: "\<And>q. q \<noteq> p \<Longrightarrow> h' q = h q"
    and grant: "r = Success \<Longrightarrow> grantable h p (target c)"
    using assms(1,2) unfolding lock_service_def by blast+
  have tab: "h y = Unlocked" if "x \<noteq> y" "h x = Exclusive" for x y
    using assms(3) that by (auto simp: table_ok_def)
  have "h' b = Unlocked" if ab: "a \<noteq> b" and a: "h' a = Exclusive" for a b
  proof (cases "a = p")
    case True
    then have b: "h' b = h b" using ab same by auto
    show ?thesis
    proof (cases "r = Success")
      case True
      then show ?thesis
        using eff grant a b ab \<open>a = p\<close> by (auto simp: own_effect_def grantable_def)
    next
      case False
      then have "h a = Exclusive" using eff a \<open>a = p\<close> by (auto simp: own_effect_def)
      then show ?thesis using tab [OF ab] b by simp
    qed
  next
    case False
    then have ha: "h a = Exclusive" using same a by simp
    then have hb: "h b = Unlocked" by (rule tab [OF ab])
    show ?thesis
    proof (cases "b = p")
      case True
      then have "r = Success \<Longrightarrow> target c = Unlocked"
        using grant ha False by (cases "target c") (auto simp: grantable_def)
      then show ?thesis using eff hb True by (auto simp: own_effect_def split: if_splits)
    qed (use same hb in simp)
  qed
  then show ?thesis by (auto simp: table_ok_def)
qed

text \<open>What holds of every process: its invariant between operations, and the program it runs leads back
  to it.\<close>

definition process_ok :: "effect \<Rightarrow> (syscall \<Rightarrow> lock_mode \<Rightarrow> bool) \<Rightarrow> (FileLock \<Rightarrow> lock_mode \<Rightarrow> bool) \<Rightarrow>
    lock_mode \<Rightarrow> process \<Rightarrow> bool" where
  "process_ok E C I m ps = (case ps of
     Idle l \<Rightarrow> I l m | Busy prog \<Rightarrow> wp E C prog (\<lambda>(_, _, l). I l) m)"

lemma processes_ok:
  assumes reach: "reachable K ls s"
    and service: "lock_service K"
    and effect: "\<And>h p c r h'. K h p c r h' \<Longrightarrow> E c r (h p) (h' p)"
    and init: "\<And>p. I (ls p) Unlocked"
    and ops: "\<And>l m q. I l m \<Longrightarrow> wp E C (request_program q l) (\<lambda>(_, _, l'). I l') m"
  shows "table_ok (fst s) \<and> (\<forall>p. process_ok E C I (fst s p) (snd s p))"
  using reach
proof (induction rule: reachable_induct)
  case initial
  then show ?case by (simp add: initial_def table_ok_def process_ok_def init)
next
  case (step s s')
  from step(2) show ?case
  proof (cases rule: lock_step.cases)
    case (start ps p l h q)
    then show ?thesis using step(3) ops by (auto simp: process_ok_def split: process.splits)
  next
    case (call ps p c k h r h')
    from step(3) have tab: "table_ok h" and all: "\<And>x. process_ok E C I (h x) (ps x)"
      by (simp_all add: call(1))
    have "process_ok E C I (h' x) ((ps(p := Busy (k r))) x)" for x
    proof (cases "x = p")
      case True
      from all [of p] have "wp E C (Call c k) (\<lambda>(_, _, l). I l) (h p)"
        by (simp only: call(3) process_ok_def process.case)
      then have "wp E C (k r) (\<lambda>(_, _, l). I l) (h' p)"
        using effect [OF call(4)] by (simp only: wp.simps(2))
      then show ?thesis
        by (simp only: True fun_upd_same process_ok_def process.case)
    next
      case False
      show ?thesis
        using False all [of x] lock_serviceD(2) [OF service, OF call(4) False] by simp
    qed
    moreover have "table_ok h'"
      by (rule table_ok_call [OF service, OF call(4) tab])
    ultimately show ?thesis by (simp only: call(2) fst_conv snd_conv) blast
  next
    case (return ps p b t l h)
    from step(3) have tab: "table_ok h" and all: "\<And>x. process_ok E C I (h x) (ps x)"
      by (simp_all add: return(1))
    from all [of p] have "I l (h p)"
      by (simp add: return(3) process_ok_def)
    then show ?thesis
      using tab all by (simp add: return(2) process_ok_def)
  qed
qed


lemma reachable_nominal:
  assumes "reachable K ls s" and "lock_service K" and "releases_succeed K" and "\<And>p. fresh (ls p)"
  shows "table_ok (fst s)" and "process_ok released waits_empty_handed nominal (fst s p) (snd s p)"
proof -
  have "released c r (h p) (h' p)" if "K h p c r h'" for h p c r h'
    unfolding released_def using lock_serviceD(1) [OF assms(2), OF that] releases_succeedD [OF assms(3), OF that] by blast
  moreover have "nominal (ls p) Unlocked" for p
    using assms(4) [of p] by (simp add: fresh_def nominal_def counted_mode_def)
  ultimately show "table_ok (fst s)" and "process_ok released waits_empty_handed nominal (fst s p) (snd s p)"
    using processes_ok [OF assms(1,2), of released nominal waits_empty_handed] request_nominal by simp_all
qed

lemma reachable_agrees:
  assumes "reachable K ls s" and "lock_service K" and "releases_succeed K" and "shared_granted K"
    and "\<And>p. fresh (ls p)" and "\<And>p. \<not> m_useFcntlLock (ls p)"
  shows "process_ok recovered (\<lambda>_ _. True) (\<lambda>l m. m = counted_mode l \<and> \<not> m_useFcntlLock l) (fst s p) (snd s p)"
proof -
  have "recovered c r (h p) (h' p)" if "K h p c r h'" for h p c r h'
    unfolding recovered_def released_def
    using lock_serviceD(1) [OF assms(2), OF that] releases_succeedD [OF assms(3), OF that] shared_grantedD [OF assms(4), OF that]
    by blast
  moreover have "Unlocked = counted_mode (ls p) \<and> \<not> m_useFcntlLock (ls p)" for p
    using assms(5,6) [of p] by (simp add: fresh_def counted_mode_def)
  ultimately show ?thesis
    using processes_ok [OF assms(1,2), of recovered "\<lambda>l m. m = counted_mode l \<and> \<not> m_useFcntlLock l" "\<lambda>_ _. True"]
      request_agrees by simp
qed

section \<open>Running a schedule\<close>

text \<open>The steps of a given schedule on the plain kernel, as a function.\<close>

datatype 'p event = Start 'p lock_request | Answer 'p | Finish 'p

fun perform :: "'p event \<Rightarrow> 'p table \<times> ('p \<Rightarrow> process) \<Rightarrow> ('p table \<times> ('p \<Rightarrow> process)) option" where
  "perform (Start p q) (h, ps) =
     (case ps p of Idle l \<Rightarrow> Some (h, ps(p := Busy (request_program q l))) | Busy _ \<Rightarrow> None)"
| "perform (Answer p) (h, ps) =
     (case ps p of Idle _ \<Rightarrow> None
      | Busy prog \<Rightarrow>
          (case prog of Ret _ \<Rightarrow> None
           | Call c k \<Rightarrow>
               if grantable h p (target c) then Some (h(p := target c), ps(p := Busy (k Success)))
               else if blocking c \<or> releases c (h p) then None
               else Some (h, ps(p := Busy (k Again)))))"
| "perform (Finish p) (h, ps) =
     (case ps p of Idle _ \<Rightarrow> None
      | Busy prog \<Rightarrow> (case prog of Ret (_, _, l) \<Rightarrow> Some (h, ps(p := Idle l)) | Call _ _ \<Rightarrow> None))"

fun perform_all :: "'p event list \<Rightarrow> 'p table \<times> ('p \<Rightarrow> process) \<Rightarrow> ('p table \<times> ('p \<Rightarrow> process)) option" where
  "perform_all [] s = Some s"
| "perform_all (e # es) s = (case perform e s of None \<Rightarrow> None | Some s' \<Rightarrow> perform_all es s')"

lemma plain_call:
  assumes "ps p = Busy (Call c k)"
  shows "grantable h p (target c) \<Longrightarrow> lock_step plain_kernel (h, ps) (h(p := target c), ps(p := Busy (k Success)))"
    and "\<not> grantable h p (target c) \<Longrightarrow> \<not> blocking c \<Longrightarrow> \<not> releases c (h p) \<Longrightarrow>
         lock_step plain_kernel (h, ps) (h, ps(p := Busy (k Again)))"
  by (rule lock_step.call [where K = plain_kernel and h = h and ps = ps, OF assms]; simp add: plain_kernel_def)+

lemma perform_step: "perform e s = Some s' \<Longrightarrow> lock_step plain_kernel s s'"
  by (cases "(e, s)" rule: perform.cases)
     (auto split: process.splits sys.splits if_splits prod.splits intro: lock_step.start lock_step.return plain_call)

lemma perform_all_steps: "perform_all es s = Some s' \<Longrightarrow> (lock_step plain_kernel)\<^sup>*\<^sup>* s s'"
  by (induction es arbitrary: s)
     (auto split: option.splits dest: perform_step intro: converse_rtranclp_into_rtranclp)

lemma perform_reachable: "perform_all es (initial ls) = Some s \<Longrightarrow> reachable plain_kernel ls s"
  by (simp add: reachable_def perform_all_steps)

text \<open>Four schedules of two processes: the second tries while the first holds the exclusive lock; the
  first upgrades while nobody else holds a lock; the first upgrades while the second tries to, and both
  held the shared lock; both upgrade at once, up to the calls that may wait.\<close>

definition two_locks :: "bool event list" where
  "two_locks = [Start True (Lock ExclusiveLockType), Answer True, Finish True,
                Start False (TryLock ExclusiveLockType (Some False)), Answer False, Finish False]"

definition upgrade_schedule :: "bool event list" where
  "upgrade_schedule = [Start True (Lock SharedLockType), Answer True, Finish True,
                Start True (Lock ExclusiveLockType), Answer True, Finish True]"

definition lost_shared_schedule :: "bool event list" where
  "lost_shared_schedule = [Start True (Lock SharedLockType), Answer True, Finish True,
                Start False (Lock SharedLockType), Answer False, Finish False,
                Start False (TryLock ExclusiveLockType (Some False)), Answer False, Answer False,
                Start True (Lock ExclusiveLockType), Answer True, Finish True,
                Answer False, Answer False, Finish False]"

definition both_upgrade_schedule :: "bool event list" where
  "both_upgrade_schedule = [Start True (Lock SharedLockType), Answer True, Finish True,
                Start False (Lock SharedLockType), Answer False, Finish False,
                Start True (Lock ExclusiveLockType), Start False (Lock ExclusiveLockType),
                Answer True, Answer False, Answer True, Answer False]"

section \<open>A recovery that fails\<close>

text \<open>A kernel that may also interrupt a request that waits, and what a process counts after that: its shared lock is
  gone, another process holds the exclusive one, and the counter stays.\<close>

definition interrupting_kernel :: "'p kernel" where
  "interrupting_kernel h p c r h' \<longleftrightarrow>
     plain_kernel h p c r h' \<or> (r = Failed \<and> blocking c \<and> \<not> releases c (h p) \<and> h' = h)"

lemma interrupting_kernel_ok: "lock_service interrupting_kernel" "releases_succeed interrupting_kernel"
  by (auto simp: interrupting_kernel_def plain_kernel_def lock_service_def releases_succeed_def own_effect_def)

lemma lock_step_mono:
  assumes "lock_step K s s'" and "\<And>h p c r h'. K h p c r h' \<Longrightarrow> L h p c r h'"
  shows "lock_step L s s'"
  using assms(1) by cases (auto intro: lock_step.intros assms(2))

lemma reachable_mono:
  assumes "reachable K ls s" and "\<And>h p c r h'. K h p c r h' \<Longrightarrow> L h p c r h'"
  shows "reachable L ls s"
  using assms(1) unfolding reachable_def by (rule rtranclp_mono [THEN predicate2D, rotated]) (blast intro: lock_step_mono assms(2))

lemma failed_recovery_miscounts:
  "\<exists>h ps l l'. reachable interrupting_kernel (\<lambda>_ :: bool. FileLock_new 3 False False) (h, ps) \<and>
     ps True = Idle l \<and> m_exclusiveLockCount l = 1 \<and> h True = Exclusive \<and>
     ps False = Idle l' \<and> m_sharedLockCount l' = 1 \<and> m_exclusiveLockCount l' = 0 \<and> h False = Unlocked"
proof -
  have "\<exists>h ps l l' t k. perform_all (butlast (butlast lost_shared_schedule)) (initial (\<lambda>_ :: bool. FileLock_new 3 False False)) = Some (h, ps) \<and>
     ps True = Idle l \<and> m_exclusiveLockCount l = 1 \<and> h True = Exclusive \<and> h False = Unlocked \<and>
     ps False = Busy (Call (Flock LOCK_SH False) k) \<and> k Failed = Ret (False, t, l') \<and> m_sharedLockCount l' = 1 \<and> m_exclusiveLockCount l' = 0"
    by (simp add: lost_shared_schedule_def initial_def FileLock_new_def request_program_def lock_program_defs
        isFileLockValid_def target_def blocking_def releases_def grantable_def all_bool_eq ex_bool_eq)
  then obtain h ps l l' t k where r: "perform_all (butlast (butlast lost_shared_schedule)) (initial (\<lambda>_ :: bool. FileLock_new 3 False False)) = Some (h, ps)"
    and s: "ps True = Idle l" "m_exclusiveLockCount l = 1" "h True = Exclusive" "h False = Unlocked" "m_sharedLockCount l' = 1" "m_exclusiveLockCount l' = 0"
    and b: "ps False = Busy (Call (Flock LOCK_SH False) k)" "k Failed = Ret (False, t, l')" by blast
  let ?qs = "ps(False := Busy (Ret (False, t, l')))"
  have "reachable interrupting_kernel (\<lambda>_. FileLock_new 3 False False) (h, ps)"
    by (rule reachable_mono [OF perform_reachable [OF r]]) (simp add: interrupting_kernel_def)
  moreover have "lock_step interrupting_kernel (h, ps) (h, ?qs)"
    unfolding b(2) [symmetric] by (rule lock_step.call [where r = Failed and K = interrupting_kernel and h = h and ps = ps, OF b(1)])
      (simp add: interrupting_kernel_def blocking_def releases_def target_def s(4))
  moreover have "lock_step interrupting_kernel (h, ?qs) (h, ?qs(False := Idle l'))"
    by (rule lock_step.return [where b = False and t = t]) simp
  ultimately have "reachable interrupting_kernel (\<lambda>_. FileLock_new 3 False False) (h, ?qs(False := Idle l'))"
    unfolding reachable_def by (meson rtranclp.rtrancl_into_rtrancl)
  then show ?thesis using s by (intro exI [of _ h] exI [of _ "?qs(False := Idle l')"] exI [of _ l] exI [of _ l']) simp
qed

end
