(* ===== verification/MemoryFile.thy ===== *)
theory MemoryFile
  imports Prelude
begin

text \<open>
  A file mapped into memory (\<open>MemoryFile.h\<close>, \<open>MemoryFile.cpp\<close>, the POSIX build). The record holds the
  content of the file on disk; while the file is mapped, the memory \<open>f_memory\<close> is the part of it that
  the mapping covers, and writing the memory writes the file.

  Whether an operating-system call succeeds is the next element of the list \<open>f_io\<close> of answers (a
  call with no answer left succeeds): \<open>open\<close>, \<open>close\<close>, \<open>ftruncate\<close>, filling with zeros and \<open>mmap\<close>.
  The page size is an argument. The file lock that \<open>reloadFromFile\<close> takes on the same descriptor, the
  result of \<open>munmap\<close>, which is only logged, and the ashmem files of Android have no counterpart. A
  fill that fails is taken to have written nothing: what it wrote lies behind the old size.
\<close>

record MemoryFile =
  f_fd :: bool (* m_diskFile.isFileValid() *)
  f_ptr :: bool (* m_ptr is not null *)
  f_size :: nat
  f_disk :: "byte list"
  f_readOnly :: bool
  f_isMayflyFD :: bool
  f_io :: "bool list"

definition f_memory :: "MemoryFile \<Rightarrow> byte list" where
  "f_memory f = take (f_size f) (f_disk f)"

definition answer :: "MemoryFile \<Rightarrow> bool \<times> MemoryFile" where
  "answer f = (f_io f = [] \<or> hd (f_io f), f\<lparr>f_io := tl (f_io f)\<rparr>)"

definition roundUp :: "nat \<Rightarrow> nat \<Rightarrow> nat" where
  "roundUp numToRound multiple = (numToRound + multiple - 1) div multiple * multiple"

section \<open>Operations\<close>

definition File_open :: "MemoryFile \<Rightarrow> bool \<times> MemoryFile" where
  "File_open f =
     (if f_fd f then (True, f)
      else let (ret, f) = answer f in (ret, f\<lparr>f_fd := ret\<rparr>))"

definition File_close :: "MemoryFile \<Rightarrow> MemoryFile" where
  "File_close f =
     (if f_fd f then let (ret, f) = answer f in (if ret then f\<lparr>f_fd := False\<rparr> else f) else f)"

definition openIfNeeded :: "MemoryFile \<Rightarrow> bool \<times> MemoryFile" where
  "openIfNeeded f = (if \<not> f_fd f then File_open f else (True, f))"

definition cleanMayflyFD :: "MemoryFile \<Rightarrow> MemoryFile" where
  "cleanMayflyFD f = (if f_isMayflyFD f \<and> f_fd f then File_close f else f)"

definition getFileSize :: "MemoryFile \<Rightarrow> nat" where
  "getFileSize f = f_size f"

definition getActualFileSize :: "MemoryFile \<Rightarrow> nat" where
  "getActualFileSize f = (if \<not> f_isMayflyFD f \<and> \<not> f_fd f then 0 else length (f_disk f))"

definition isFileValid :: "MemoryFile \<Rightarrow> bool" where
  "isFileValid f \<longleftrightarrow> (f_isMayflyFD f \<or> f_fd f) \<and> 0 < f_size f \<and> f_ptr f"

definition doCleanMemoryCache :: "MemoryFile \<Rightarrow> MemoryFile" where
  "doCleanMemoryCache f = (File_close (f\<lparr>f_ptr := False\<rparr>))\<lparr>f_size := 0\<rparr>"

definition mmapOrCleanup :: "MemoryFile \<Rightarrow> bool \<times> MemoryFile" where
  "mmapOrCleanup f =
     (let (ret, f) = answer f
      in if ret then (True, cleanMayflyFD (f\<lparr>f_ptr := True\<rparr>))
         else (False, doCleanMemoryCache (f\<lparr>f_ptr := False\<rparr>)))"

text \<open>\<open>ftruncate\<close> cuts the file or extends it with zeros.\<close>

definition ftruncate_disk :: "nat \<Rightarrow> byte list \<Rightarrow> byte list" where
  "ftruncate_disk n disk = take n disk @ replicate (n - length disk) 0"

definition zeroFillFile :: "nat \<Rightarrow> nat \<Rightarrow> MemoryFile \<Rightarrow> bool \<times> MemoryFile" where
  "zeroFillFile startPos n f =
     (let (ret, f) = answer f
      in (ret, if ret then f\<lparr>f_disk := mem_write (f_disk f) startPos (replicate n 0)\<rparr> else f))"

definition round_to_pages :: "nat \<Rightarrow> nat \<Rightarrow> nat" where
  "round_to_pages page n = (if n < page \<or> n mod page \<noteq> 0 then (n div page + 1) * page else n)"

text \<open>The part of \<open>truncate\<close> that fills the new pages, after \<open>ftruncate\<close> succeeded.\<close>

definition truncate_fill :: "nat \<Rightarrow> MemoryFile \<Rightarrow> bool \<times> MemoryFile" where
  "truncate_fill oldSize f =
     (if f_size f > oldSize
      then let (ret, f) = zeroFillFile oldSize (f_size f - oldSize) f
           in if ret then mmapOrCleanup (f\<lparr>f_ptr := False\<rparr>)
              else let f = f\<lparr>f_size := oldSize\<rparr>;
                       (status, f) = answer f
                   in (False, if status then f\<lparr>f_disk := ftruncate_disk oldSize (f_disk f)\<rparr> else f)
      else mmapOrCleanup (f\<lparr>f_ptr := False\<rparr>))"

definition truncate_file :: "nat \<Rightarrow> nat \<Rightarrow> MemoryFile \<Rightarrow> bool \<times> MemoryFile" where
  "truncate_file page n f =
     (let f = (if f_isMayflyFD f then snd (openIfNeeded f) else f)
      in if \<not> f_fd f then (False, f)
         else if n = f_size f then (True, f)
         else if f_readOnly f then (False, f)
         else let oldSize = f_size f;
                  (ret, f) = answer f
              in if \<not> ret then (False, f)
                 else let newSize = round_to_pages page n
                      in truncate_fill oldSize (f\<lparr>f_size := newSize, f_disk := ftruncate_disk newSize (f_disk f)\<rparr>))"

definition msync :: "MemoryFile \<Rightarrow> bool \<times> MemoryFile" where
  "msync f = (if f_readOnly f then (True, f) else if f_ptr f then answer f else (False, f))"

text \<open>\<open>reloadFromFile\<close> of a file that is mapped fails an assertion in debug builds, where \<open>MMKV_ASSERT\<close> is an
  assertion. Its callers check \<open>reload_asserts\<close> where the file may be mapped; the rest is a function on the file.\<close>

definition reload_asserts :: "bool \<Rightarrow> MemoryFile \<Rightarrow> bool" where
  "reload_asserts debug f \<longleftrightarrow> debug \<and> isFileValid f"

definition reloadFromFile :: "nat \<Rightarrow> nat \<Rightarrow> MemoryFile \<Rightarrow> MemoryFile" where
  "reloadFromFile page expectedCapacity f =
     (let f = (if isFileValid f then doCleanMemoryCache f else f);
          (ret, f) = openIfNeeded f
      in if ret
         then let f = f\<lparr>f_size := length (f_disk f)\<rparr>;
                  expectedSize = max page (roundUp expectedCapacity page)
              in if \<not> f_readOnly f \<and> (f_size f < expectedSize \<or> f_size f mod page \<noteq> 0)
                 then snd (truncate_file page (max expectedSize ((f_size f div page + 1) * page)) f)
                 else snd (mmapOrCleanup f)
         else f)"

definition MemoryFile_new :: "nat \<Rightarrow> nat \<Rightarrow> bool \<Rightarrow> bool \<Rightarrow> byte list \<Rightarrow> bool list \<Rightarrow> MemoryFile" where
  "MemoryFile_new page expectedCapacity readOnly mayflyFD disk io =
     reloadFromFile page expectedCapacity
       (snd (File_open \<lparr>f_fd = False, f_ptr = False, f_size = 0, f_disk = disk, f_readOnly = readOnly,
                        f_isMayflyFD = mayflyFD, f_io = io\<rparr>))"

section \<open>What they keep\<close>

text \<open>A mapping lies inside the file.\<close>

definition file_ok :: "MemoryFile \<Rightarrow> bool" where
  "file_ok f \<longleftrightarrow> (f_ptr f \<longrightarrow> f_size f \<le> length (f_disk f))"

text \<open>Opening and closing descriptors changes nothing else.\<close>

definition same_file :: "MemoryFile \<Rightarrow> MemoryFile \<Rightarrow> bool" where
  "same_file f g \<longleftrightarrow> f_ptr g = f_ptr f \<and> f_size g = f_size f \<and> f_disk g = f_disk f \<and>
     f_readOnly g = f_readOnly f \<and> f_isMayflyFD g = f_isMayflyFD f"

lemma same_file_refl [simp]: "same_file f f"
  by (simp add: same_file_def)

lemma same_file_trans: "same_file f g \<Longrightarrow> same_file g h \<Longrightarrow> same_file f h"
  by (simp add: same_file_def)

lemma File_open_same: "File_open f = (b, g) \<Longrightarrow> same_file f g \<and> f_fd g = b"
  by (auto simp: File_open_def same_file_def answer_def split: if_splits)

lemma File_close_same: "same_file f (File_close f)"
  by (simp add: File_close_def same_file_def answer_def)

lemma openIfNeeded_same: "openIfNeeded f = (b, g) \<Longrightarrow> same_file f g \<and> f_fd g = b"
  by (auto simp: openIfNeeded_def split: if_splits dest: File_open_same)

lemma cleanMayflyFD_same: "same_file f (cleanMayflyFD f)"
  by (simp add: cleanMayflyFD_def File_close_same)

lemma doCleanMemoryCache_invalid: "\<not> isFileValid (doCleanMemoryCache f)" "file_ok (doCleanMemoryCache f)"
    "f_disk (doCleanMemoryCache f) = f_disk f" "f_readOnly (doCleanMemoryCache f) = f_readOnly f"
    "f_isMayflyFD (doCleanMemoryCache f) = f_isMayflyFD f" "\<not> f_ptr (doCleanMemoryCache f)"
  using File_close_same [of "f\<lparr>f_ptr := False\<rparr>"]
  by (simp_all add: doCleanMemoryCache_def isFileValid_def file_ok_def same_file_def)

lemma round_to_pages_ge: "0 < page \<Longrightarrow> n \<le> round_to_pages page n"
  unfolding round_to_pages_def
  by (auto simp: algebra_simps) (metis add.commute dividend_less_div_times less_imp_le_nat mult.commute)

lemma round_to_pages_pos: "0 < page \<Longrightarrow> 0 < round_to_pages page n"
  by (simp add: round_to_pages_def)

lemma round_to_pages_mod: "round_to_pages page n mod page = 0"
  by (simp add: round_to_pages_def)

lemma round_to_pages_le: "0 < page \<Longrightarrow> round_to_pages page n \<le> n + page"
  unfolding round_to_pages_def by (auto simp: algebra_simps intro: div_times_less_eq_dividend)

lemma length_ftruncate_disk [simp]: "length (ftruncate_disk n disk) = n"
  by (simp add: ftruncate_disk_def)

lemma take_ftruncate_disk: "k \<le> n \<Longrightarrow> k \<le> length disk \<Longrightarrow> take k (ftruncate_disk n disk) = take k disk"
  by (simp add: ftruncate_disk_def)

lemma mmapOrCleanup_sel [simp]:
  "fst (mmapOrCleanup f) \<Longrightarrow> f_ptr (snd (mmapOrCleanup f))"
  "fst (mmapOrCleanup f) \<Longrightarrow> f_size (snd (mmapOrCleanup f)) = f_size f"
  "\<not> fst (mmapOrCleanup f) \<Longrightarrow> \<not> f_ptr (snd (mmapOrCleanup f))"
  "f_disk (snd (mmapOrCleanup f)) = f_disk f"
  "f_readOnly (snd (mmapOrCleanup f)) = f_readOnly f"
  "f_isMayflyFD (snd (mmapOrCleanup f)) = f_isMayflyFD f"
  by (cases "f_io f = [] \<or> hd (f_io f)";
      simp add: mmapOrCleanup_def answer_def cleanMayflyFD_def File_close_def doCleanMemoryCache_def Let_def)+

lemma ftruncate_back: "k \<le> n \<Longrightarrow> k \<le> length disk \<Longrightarrow> ftruncate_disk k (ftruncate_disk n disk) = take k disk"
  by (simp add: ftruncate_disk_def)

text \<open>Resizing: when it succeeds the file is mapped with the requested size rounded up to pages, its old
  content kept and the rest zero; when it fails the memory is as before, or there is none.\<close>

definition resized :: "MemoryFile \<Rightarrow> nat \<Rightarrow> MemoryFile \<Rightarrow> bool" where
  "resized f n g \<longleftrightarrow> f_ptr g \<and> f_size g = n \<and> length (f_disk g) = n \<and>
     take (min n (f_size f)) (f_disk g) = take (min n (f_size f)) (f_disk f) \<and>
     (\<forall>i. f_size f \<le> i \<and> i < n \<longrightarrow> f_disk g ! i = 0)"

definition not_resized :: "MemoryFile \<Rightarrow> MemoryFile \<Rightarrow> bool" where
  "not_resized f g \<longleftrightarrow> \<not> f_ptr g \<or> (f_ptr g = f_ptr f \<and> f_size g = f_size f \<and> f_size f \<le> length (f_disk g) \<and>
      take (f_size f) (f_disk g) = take (f_size f) (f_disk f))"

lemma zero_filled:
  assumes "length d = n" and "old < n"
  shows "take old (mem_write d old (replicate (n - old) 0)) = take old d"
    and "old \<le> i \<Longrightarrow> i < n \<Longrightarrow> mem_write d old (replicate (n - old) (0 :: byte)) ! i = 0"
  using assms by (auto simp: mem_write_def nth_append)

lemma truncate_fill_sel [simp]:
  "f_readOnly (snd (truncate_fill old f)) = f_readOnly f"
  "f_isMayflyFD (snd (truncate_fill old f)) = f_isMayflyFD f"
  by (simp_all add: truncate_fill_def zeroFillFile_def answer_def Let_def split_def)

lemma truncate_fill_True:
  assumes "fst (truncate_fill (f_size f) g)" and "f_size g = n" and "f_disk g = ftruncate_disk n (f_disk f)"
    and "f_size f \<le> length (f_disk f)"
  shows "resized f n (snd (truncate_fill (f_size f) g))"
proof (cases "f_size f < n")
  case True
  then show ?thesis
    using assms zero_filled [of "ftruncate_disk n (f_disk f)" n "f_size f"]
    by (auto simp: truncate_fill_def zeroFillFile_def answer_def Let_def split_def resized_def take_ftruncate_disk split: if_splits)
next
  case False
  then show ?thesis
    using assms by (auto simp: truncate_fill_def resized_def take_ftruncate_disk ftruncate_disk_def)
qed

lemma truncate_fill_False:
  assumes "\<not> fst (truncate_fill (f_size f) g)" and "f_size g = n" and "f_disk g = ftruncate_disk n (f_disk f)"
    and "f_ptr g = f_ptr f" and "f_size f \<le> length (f_disk f)"
  shows "not_resized f (snd (truncate_fill (f_size f) g))"
proof (cases "f_size f < n")
  case True
  then show ?thesis
    using assms
    by (auto simp: truncate_fill_def zeroFillFile_def answer_def Let_def split_def not_resized_def take_ftruncate_disk ftruncate_back split: if_splits)
next
  case False
  then show ?thesis
    using assms by (auto simp: truncate_fill_def not_resized_def)
qed

lemma open_mayfly:
  "same_file f (if f_isMayflyFD f then snd (openIfNeeded f) else f)"
  using openIfNeeded_same [of f] by (cases "openIfNeeded f") auto

lemma truncate_cases:
  assumes len: "f_size f \<le> length (f_disk f)"
  shows "fst (truncate_file page n f) \<Longrightarrow>
      (n = f_size f \<and> same_file f (snd (truncate_file page n f))) \<or> resized f (round_to_pages page n) (snd (truncate_file page n f))"
    and "\<not> fst (truncate_file page n f) \<Longrightarrow> not_resized f (snd (truncate_file page n f))"
proof -
  obtain g where g: "g = (if f_isMayflyFD f then snd (openIfNeeded f) else f)" by blast
  have same: "same_file f g" unfolding g by (rule open_mayfly)
  then have sel: "f_ptr g = f_ptr f" "f_size g = f_size f" "f_disk g = f_disk f" by (auto simp: same_file_def)
  let ?m = "round_to_pages page n"
  obtain g' where g': "g' = (snd (answer g))\<lparr>f_size := ?m, f_disk := ftruncate_disk ?m (f_disk (snd (answer g)))\<rparr>" by blast
  have sel': "f_size g' = ?m" "f_disk g' = ftruncate_disk ?m (f_disk f)" "f_ptr g' = f_ptr f"
    by (simp_all add: g' answer_def sel)
  have eq: "truncate_file page n f =
      (if \<not> f_fd g then (False, g) else if n = f_size f then (True, g) else if f_readOnly g then (False, g)
       else if \<not> fst (answer g) then (False, snd (answer g)) else truncate_fill (f_size f) g')"
    by (simp add: truncate_file_def Let_def g [symmetric] split_def g' sel(2))
  show "fst (truncate_file page n f) \<Longrightarrow>
      (n = f_size f \<and> same_file f (snd (truncate_file page n f))) \<or> resized f (round_to_pages page n) (snd (truncate_file page n f))"
    using same truncate_fill_True [OF _ sel'(1,2) len] unfolding eq by (auto split: if_splits)
  show "\<not> fst (truncate_file page n f) \<Longrightarrow> not_resized f (snd (truncate_file page n f))"
    using truncate_fill_False [OF _ sel'(1,2,3) len] len unfolding eq
    by (auto simp: not_resized_def sel answer_def split: if_splits)
qed

lemma truncate_sel [simp]:
  "f_readOnly (snd (truncate_file page n f)) = f_readOnly f"
  "f_isMayflyFD (snd (truncate_file page n f)) = f_isMayflyFD f"
  using open_mayfly [of f] by (auto simp: truncate_file_def Let_def split_def answer_def same_file_def)

text \<open>When the operating system refuses nothing, a valid file can be resized.\<close>

lemma truncate_succeeds:
  assumes "f_io f = []" and "isFileValid f" and "\<not> f_readOnly f" and "0 < page"
  shows "fst (truncate_file page n f)" and "isFileValid (snd (truncate_file page n f))"
    and "f_io (snd (truncate_file page n f)) = []"
  using assms round_to_pages_pos [OF assms(4), of n]
  by (auto simp: truncate_file_def truncate_fill_def zeroFillFile_def mmapOrCleanup_def cleanMayflyFD_def openIfNeeded_def
      File_open_def File_close_def answer_def isFileValid_def Let_def)

text \<open>A file that is valid after a reload holds the old content, extended with zeros, and is a whole
  number of pages unless it was opened only for reading.\<close>

lemma reload_cases:
  assumes "0 < page" and "g = reloadFromFile page cap f" and "isFileValid g" and "\<not> f_ptr f"
  shows "f_size g = length (f_disk g)" and "length (f_disk f) \<le> length (f_disk g)"
    and "take (length (f_disk f)) (f_disk g) = f_disk f"
    and "\<And>i. length (f_disk f) \<le> i \<Longrightarrow> i < length (f_disk g) \<Longrightarrow> f_disk g ! i = 0"
    and "\<not> f_readOnly f \<Longrightarrow> page \<le> f_size g \<and> f_size g mod page = 0"
proof -
  obtain h where h: "h = (snd (openIfNeeded f))\<lparr>f_size := length (f_disk (snd (openIfNeeded f)))\<rparr>" by blast
  have same: "same_file f (snd (openIfNeeded f))"
    using openIfNeeded_same [of f] by (cases "openIfNeeded f") auto
  then have sel: "f_size h = length (f_disk f)" "f_disk h = f_disk f" "f_readOnly h = f_readOnly f" "\<not> f_ptr h"
    using assms(4) by (auto simp: h same_file_def)
  have not_valid: "\<not> isFileValid f" "\<not> isFileValid (snd (openIfNeeded f))"
    using same assms(4) by (auto simp: isFileValid_def same_file_def)
  let ?e = "max page (roundUp cap page)" and ?t = "max (max page (roundUp cap page)) ((length (f_disk f) div page + 1) * page)"
  have g: "g = (if \<not> fst (openIfNeeded f) then snd (openIfNeeded f)
      else if \<not> f_readOnly f \<and> (length (f_disk f) < ?e \<or> length (f_disk f) mod page \<noteq> 0)
      then snd (truncate_file page ?t h) else snd (mmapOrCleanup h))"
    using assms(2) not_valid(1) sel by (simp add: reloadFromFile_def Let_def split_def h [symmetric])
  have ge: "length (f_disk f) < ?t"
    using assms(1) by (simp add: less_max_iff_disj) (metis add.commute dividend_less_div_times)
  consider (trunc) "\<not> f_readOnly f" "resized h (round_to_pages page ?t) g"
    | (map) "f_size g = length (f_disk f)" "f_disk g = f_disk f"
        "\<not> f_readOnly f \<longrightarrow> page \<le> length (f_disk f) \<and> length (f_disk f) mod page = 0"
  proof (cases "\<not> f_readOnly f \<and> (length (f_disk f) < ?e \<or> length (f_disk f) mod page \<noteq> 0)")
    case True
    then have gt: "g = snd (truncate_file page ?t h)" using g not_valid(2) assms(3) by (auto split: if_splits)
    have "fst (truncate_file page ?t h)"
    proof (rule ccontr)
      assume "\<not> fst (truncate_file page ?t h)"
      then have "not_resized h g" using truncate_cases(2) [of h page ?t] sel gt by simp
      then show False using assms(3) sel(4) by (auto simp: not_resized_def isFileValid_def)
    qed
    then have "resized h (round_to_pages page ?t) g"
      using truncate_cases(1) [of h page ?t] sel gt ge by auto
    with True that(1) show ?thesis by blast
  next
    case False
    then have "g = snd (mmapOrCleanup h)" using g not_valid(2) assms(3) by (auto split: if_splits)
    moreover from this have "fst (mmapOrCleanup h)"
      using assms(3) mmapOrCleanup_sel(3) [of h] by (auto simp: isFileValid_def)
    ultimately show ?thesis using False sel by (intro that(2)) auto
  qed
  note cases = this
  have up: "length (f_disk f) \<le> round_to_pages page ?t" "page \<le> round_to_pages page ?t"
    using round_to_pages_ge [OF assms(1), of ?t] ge by linarith+
  have "f_size g = length (f_disk g) \<and> length (f_disk f) \<le> length (f_disk g) \<and>
    take (length (f_disk f)) (f_disk g) = f_disk f \<and>
    (\<forall>i. length (f_disk f) \<le> i \<and> i < length (f_disk g) \<longrightarrow> f_disk g ! i = 0) \<and>
    (\<not> f_readOnly f \<longrightarrow> page \<le> f_size g \<and> f_size g mod page = 0)"
  proof (rule cases)
    assume "resized h (round_to_pages page ?t) g"
    then show ?thesis
      using up sel round_to_pages_mod [of page ?t] by (simp add: resized_def min_absorb2)
  qed auto
  then show "f_size g = length (f_disk g)" "length (f_disk f) \<le> length (f_disk g)"
    "take (length (f_disk f)) (f_disk g) = f_disk f"
    "\<And>i. length (f_disk f) \<le> i \<Longrightarrow> i < length (f_disk g) \<Longrightarrow> f_disk g ! i = 0"
    "\<not> f_readOnly f \<Longrightarrow> page \<le> f_size g \<and> f_size g mod page = 0"
    by auto
qed

end
