(* ===== verification/MMKVMetaInfo.thy ===== *)
theory MMKVMetaInfo
  imports CodedOutput
begin

text \<open>
  The record a store keeps in its second file, with the size and the checksum of the data
  (\<open>MMKVMetaInfo.hpp\<close>). Writing and reading copy the structure's memory; the byte order is little
  endian, and the structure has no padding: four bytes at 0, 4, 8, 28, 32, 36, sixteen at 12,
  sixty-four at 40, eight at 104.
\<close>

section \<open>Structure\<close>

definition MMKVVersionDefault :: u32 where "MMKVVersionDefault = 0"
definition MMKVVersionSequence :: u32 where "MMKVVersionSequence = 1"
definition MMKVVersionRandomIV :: u32 where "MMKVVersionRandomIV = 2"
definition MMKVVersionActualSize :: u32 where "MMKVVersionActualSize = 3"
definition MMKVVersionFlag :: u32 where "MMKVVersionFlag = 4"
definition MMKVVersionHolder :: u32 where "MMKVVersionHolder = 6 + 1"

lemmas version_defs = MMKVVersionDefault_def MMKVVersionSequence_def MMKVVersionRandomIV_def
  MMKVVersionActualSize_def MMKVVersionFlag_def MMKVVersionHolder_def

record MMKVMetaInfo =
  mi_crcDigest :: u32
  mi_version :: u32
  mi_sequence :: u32
  mi_vector :: "byte list"
  mi_actualSize :: u32
  mi_lastActualSize :: u32
  mi_lastCRCDigest :: u32
  mi_reserved :: "u32 list"
  mi_flags :: u64

definition MMKVMetaInfo_new :: MMKVMetaInfo where
  "MMKVMetaInfo_new =
     \<lparr>mi_crcDigest = 0, mi_version = MMKVVersionSequence, mi_sequence = 0, mi_vector = replicate 16 0,
      mi_actualSize = 0, mi_lastActualSize = 0, mi_lastCRCDigest = 0, mi_reserved = replicate 16 0,
      mi_flags = 0\<rparr>"

definition EnableKeyExipre :: u64 where
  "EnableKeyExipre = push_bit 0 1"

definition hasFlag :: "u64 \<Rightarrow> MMKVMetaInfo \<Rightarrow> bool" where
  "hasFlag flag m \<longleftrightarrow> and (mi_flags m) flag \<noteq> 0"

definition setFlag :: "u64 \<Rightarrow> MMKVMetaInfo \<Rightarrow> MMKVMetaInfo" where
  "setFlag flag m = m\<lparr>mi_flags := or (mi_flags m) flag\<rparr>"

definition unsetFlag :: "u64 \<Rightarrow> MMKVMetaInfo \<Rightarrow> MMKVMetaInfo" where
  "unsetFlag flag m = m\<lparr>mi_flags := and (mi_flags m) (not flag)\<rparr>"

section \<open>Its memory\<close>

primrec le_value :: "byte list \<Rightarrow> nat" where
  "le_value [] = 0"
| "le_value (b # bs) = unat b + 256 * le_value bs"

definition le_word :: "byte list \<Rightarrow> nat \<Rightarrow> nat \<Rightarrow> 'a::len word" where
  "le_word mem pos k = word_of_nat (le_value (mem_read mem pos k))"

definition word_bytes :: "nat \<Rightarrow> 'a::len word \<Rightarrow> byte list" where
  "word_bytes k w = le_bytes k (unat w)"

definition meta_bytes :: "MMKVMetaInfo \<Rightarrow> byte list" where
  "meta_bytes m =
     word_bytes 4 (mi_crcDigest m) @ word_bytes 4 (mi_version m) @ word_bytes 4 (mi_sequence m) @
     mi_vector m @ word_bytes 4 (mi_actualSize m) @ word_bytes 4 (mi_lastActualSize m) @
     word_bytes 4 (mi_lastCRCDigest m) @ concat (map (word_bytes 4) (mi_reserved m)) @
     word_bytes 8 (mi_flags m)"

definition meta_write :: "MMKVMetaInfo \<Rightarrow> byte list \<Rightarrow> byte list" where
  "meta_write m mem = mem_write mem 0 (meta_bytes m)"

definition writeCRCAndActualSizeOnly :: "MMKVMetaInfo \<Rightarrow> byte list \<Rightarrow> byte list" where
  "writeCRCAndActualSizeOnly m mem =
     mem_write (mem_write mem 0 (word_bytes 4 (mi_crcDigest m))) 28 (word_bytes 4 (mi_actualSize m))"

definition meta_read :: "byte list \<Rightarrow> MMKVMetaInfo" where
  "meta_read mem =
     \<lparr>mi_crcDigest = le_word mem 0 4, mi_version = le_word mem 4 4, mi_sequence = le_word mem 8 4,
      mi_vector = mem_read mem 12 16, mi_actualSize = le_word mem 28 4,
      mi_lastActualSize = le_word mem 32 4, mi_lastCRCDigest = le_word mem 36 4,
      mi_reserved = map (\<lambda>i. le_word mem (40 + 4 * i) 4) [0..<16], mi_flags = le_word mem 104 8\<rparr>"

text \<open>The arrays have their fixed lengths.\<close>

definition meta_ok :: "MMKVMetaInfo \<Rightarrow> bool" where
  "meta_ok m \<longleftrightarrow> length (mi_vector m) = 16 \<and> length (mi_reserved m) = 16"

section \<open>Reading what was written\<close>

lemma le_value_le_bytes: "le_value (le_bytes k n) = n mod 256 ^ k"
proof (induction k arbitrary: n)
  case (Suc k)
  have "le_bytes (Suc k) n = word_of_nat n # le_bytes k (n div 256)"
    unfolding le_bytes_def upt_rec [of 0 "Suc k"] map_Suc_upt [symmetric]
    by (simp add: div_mult2_eq)
  moreover have "unat (word_of_nat n :: byte) = n mod 256"
    by (simp add: unat_of_nat take_bit_eq_mod)
  ultimately show ?case
    using Suc [of "n div 256"] by (simp add: mod_mult2_eq)
qed (simp add: le_bytes_def)

lemma length_word_bytes [simp]: "length (word_bytes k w) = k"
  by (simp add: word_bytes_def)

lemma word_of_le_value:
  fixes w :: "'a::len word"
  assumes "LENGTH('a) \<le> 8 * k"
  shows "word_of_nat (le_value (word_bytes k w)) = w"
proof -
  have "unat w < 2 ^ LENGTH('a)" by simp
  also have "\<dots> \<le> 2 ^ (8 * k)" using assms by (intro power_increasing) simp_all
  finally have "unat w < 256 ^ k" by (simp add: power_mult)
  then show ?thesis by (simp add: word_bytes_def le_value_le_bytes)
qed

lemma length_concat_words: "length (concat (map (word_bytes 4) ws)) = 4 * length ws"
  by (induction ws) simp_all

lemma length_meta_bytes: "meta_ok m \<Longrightarrow> length (meta_bytes m) = 112"
  by (simp add: meta_bytes_def meta_ok_def length_concat_words)

lemma mem_read_append_at:
  "pos = length xs \<Longrightarrow> k = length ys \<Longrightarrow> mem_read (xs @ ys @ zs) pos k = ys"
  by (simp add: mem_read_def)

lemma le_word_append:
  fixes w :: "'a::len word"
  assumes "pos = length xs" and "LENGTH('a) \<le> 8 * k"
  shows "le_word (xs @ word_bytes k w @ zs) pos k = w"
  using assms by (simp add: le_word_def mem_read_append_at word_of_le_value)

lemma mem_read_concat_words:
  "i < length ws \<Longrightarrow> mem_read (xs @ concat (map (word_bytes 4) ws) @ zs) (length xs + 4 * i) 4 = word_bytes 4 (ws ! i)"
proof (induction ws arbitrary: i xs)
  case (Cons w ws)
  show ?case
  proof (cases i)
    case 0
    then show ?thesis by (simp add: mem_read_append_at)
  next
    case (Suc j)
    then show ?thesis
      using Cons.IH [of j "xs @ word_bytes 4 w"] Cons.prems by (simp add: add.assoc)
  qed
qed simp

lemma meta_read_bytes:
  assumes "meta_ok m"
  shows "meta_read (meta_bytes m @ rest) = m"
proof -
  let ?c = "word_bytes 4 (mi_crcDigest m)" and ?v = "word_bytes 4 (mi_version m)" and ?q = "word_bytes 4 (mi_sequence m)"
    and ?i = "mi_vector m" and ?a = "word_bytes 4 (mi_actualSize m)" and ?la = "word_bytes 4 (mi_lastActualSize m)"
    and ?lc = "word_bytes 4 (mi_lastCRCDigest m)" and ?r = "concat (map (word_bytes 4) (mi_reserved m))"
    and ?f = "word_bytes 8 (mi_flags m)" and ?m = "meta_bytes m @ rest"
  note len = assms [unfolded meta_ok_def]
  have m: "?m = ?c @ ?v @ ?q @ ?i @ ?a @ ?la @ ?lc @ ?r @ ?f @ rest"
    by (simp add: meta_bytes_def)
  have "le_word ?m 0 4 = mi_crcDigest m"
    using le_word_append [of 0 "[]" 4 "mi_crcDigest m"] by (simp add: m)
  moreover have "le_word ?m 4 4 = mi_version m"
    using le_word_append [of 4 ?c 4 "mi_version m"] by (simp add: m)
  moreover have "le_word ?m 8 4 = mi_sequence m"
    using le_word_append [of 8 "?c @ ?v" 4 "mi_sequence m"] by (simp add: m)
  moreover have "mem_read ?m 12 16 = ?i"
    using mem_read_append_at [of 12 "?c @ ?v @ ?q" 16 ?i] len by (simp add: m)
  moreover have "le_word ?m 28 4 = mi_actualSize m"
    using le_word_append [of 28 "?c @ ?v @ ?q @ ?i" 4 "mi_actualSize m"] len by (simp add: m)
  moreover have "le_word ?m 32 4 = mi_lastActualSize m"
    using le_word_append [of 32 "?c @ ?v @ ?q @ ?i @ ?a" 4 "mi_lastActualSize m"] len by (simp add: m)
  moreover have "le_word ?m 36 4 = mi_lastCRCDigest m"
    using le_word_append [of 36 "?c @ ?v @ ?q @ ?i @ ?a @ ?la" 4 "mi_lastCRCDigest m"] len by (simp add: m)
  moreover have "map (\<lambda>i. le_word ?m (40 + 4 * i) 4) [0..<16] = mi_reserved m"
  proof (rule nth_equalityI)
    fix i assume "i < length (map (\<lambda>i. le_word ?m (40 + 4 * i) 4 :: u32) [0..<16])"
    then have i: "i < 16" by simp
    have "mem_read ?m (40 + 4 * i) 4 = word_bytes 4 (mi_reserved m ! i)"
      using mem_read_concat_words [of i "mi_reserved m" "?c @ ?v @ ?q @ ?i @ ?a @ ?la @ ?lc"] i len by (simp add: m)
    then show "map (\<lambda>i. le_word ?m (40 + 4 * i) 4) [0..<16] ! i = mi_reserved m ! i"
      using i word_of_le_value [of 4 "mi_reserved m ! i"] by (simp add: le_word_def)
  qed (use len in simp)
  moreover have "le_word ?m 104 8 = mi_flags m"
    using le_word_append [of 104 "?c @ ?v @ ?q @ ?i @ ?a @ ?la @ ?lc @ ?r" 8 "mi_flags m"] len
    by (simp add: m length_concat_words)
  ultimately show ?thesis
    by (simp add: meta_read_def)
qed

lemma meta_read_write: "meta_ok m \<Longrightarrow> meta_read (meta_write m mem) = m"
  by (simp add: meta_write_def mem_write_def meta_read_bytes)

lemma length_meta_write: "meta_ok m \<Longrightarrow> 112 \<le> length mem \<Longrightarrow> length (meta_write m mem) = length mem"
  by (simp add: meta_write_def length_meta_bytes)

lemma length_writeCRC: "112 \<le> length mem \<Longrightarrow> length (writeCRCAndActualSizeOnly m mem) = length mem"
  by (simp add: writeCRCAndActualSizeOnly_def)

lemma meta_read_writeCRC:
  assumes "112 \<le> length mem"
  shows "meta_read (writeCRCAndActualSizeOnly m mem) =
    (meta_read mem)\<lparr>mi_crcDigest := mi_crcDigest m, mi_actualSize := mi_actualSize m\<rparr>"
proof -
  let ?m = "writeCRCAndActualSizeOnly m mem" and ?c = "word_bytes 4 (mi_crcDigest m)" and ?a = "word_bytes 4 (mi_actualSize m)"
  have a: "mem_read ?m pos k = mem_read mem pos k" if "4 \<le> pos" "pos + k \<le> 28 \<or> 32 \<le> pos" "pos + k \<le> length mem" for pos k
    using assms that unfolding writeCRCAndActualSizeOnly_def
    by (subst mem_read_mem_write_disjoint; force simp: mem_read_mem_write_disjoint)
  have "mem_read ?m 0 4 = ?c"
    using assms unfolding writeCRCAndActualSizeOnly_def by (subst mem_read_mem_write_disjoint) simp_all
  moreover have "mem_read ?m 28 4 = ?a"
    using assms unfolding writeCRCAndActualSizeOnly_def by (subst mem_read_mem_write_same) simp_all
  ultimately have "le_word ?m 0 4 = mi_crcDigest m" "le_word ?m 28 4 = mi_actualSize m"
    using word_of_le_value [of 4 "mi_crcDigest m"] word_of_le_value [of 4 "mi_actualSize m"] by (simp_all add: le_word_def)
  moreover have "map (\<lambda>i. le_word ?m (40 + 4 * i) 4) [0..<16] = map (\<lambda>i. le_word mem (40 + 4 * i) 4) [0..<16]"
    using a assms by (simp add: le_word_def)
  moreover have "le_word ?m 4 4 = le_word mem 4 4" "le_word ?m 8 4 = le_word mem 8 4"
    "le_word ?m 32 4 = le_word mem 32 4" "le_word ?m 36 4 = le_word mem 36 4" "le_word ?m 104 8 = le_word mem 104 8"
    using a [of 4 4] a [of 8 4] a [of 32 4] a [of 36 4] a [of 104 8] assms by (simp_all add: le_word_def)
  ultimately show ?thesis
    using assms a [of 12 16] by (simp add: meta_read_def)
qed

lemma meta_ok_new: "meta_ok MMKVMetaInfo_new"
  by (simp add: meta_ok_def MMKVMetaInfo_new_def)

lemma meta_ok_read: "112 \<le> length mem \<Longrightarrow> meta_ok (meta_read mem)"
  by (simp add: meta_ok_def meta_read_def)

end
