(* ===== verification/MMKV_IO.thy ===== *)
theory MMKV_IO
  imports PBMap AESCrypt MemoryFile MMKVMetaInfo
begin

text \<open>
  The storage engine (\<open>MMKV_IO.cpp\<close> and the members of \<open>MMKV.cpp\<close> it uses) for stores without
  encryption (\<open>m_crypter\<close> null) whose keys are byte strings: every build but Apple's.

  The record \<open>MMKV\<close> has the members of the class that such a store uses. The mapped file and the meta
  file are \<open>MemoryFile\<close>s; \<open>m_output\<close> is the writer on the mapped file, behind its first four bytes, so
  its own memory field is not used: \<open>with_output\<close> runs a writer operation on the memory of the file.
  Writing memory that is mapped for reading only, reading or writing outside the mapping, a \<open>memcpy\<close>
  between overlapping areas and a failed assertion are \<open>MemoryFault\<close>; an assertion that the code
  handles in the next line is left to that line, but for that of \<open>reloadFromFile\<close> in debug builds.

  The record \<open>environment\<close> has what is not in the sources: the page size, the checksum function of
  zlib, the order in which the standard library iterates a dictionary, the next random number, the time,
  the answers of the application's error handler, and whether it is a debug build (\<open>MMKV_DEBUG\<close>). The locks are those of \<open>InterProcessLock\<close>: they
  order the operations and have no counterpart here. The log calls and notifications are left out.
\<close>

unbundle bit_operations_syntax

datatype MMKVRecoverStrategic = OnErrorDiscard | OnErrorRecover

record environment =
  page_size :: nat
  crc32 :: "u32 \<Rightarrow> byte list \<Rightarrow> u32"
  iterate :: "MMKVMap \<Rightarrow> (byte list \<times> KeyValueHolder) list"
  rand_value :: u32
  time_now :: u32
  onMMKVCRCCheckFail :: MMKVRecoverStrategic
  onMMKVFileLengthError :: MMKVRecoverStrategic
  debug_build :: bool

record MMKV =
  m_file :: MemoryFile
  m_metaFile :: MemoryFile
  m_metaInfo :: MMKVMetaInfo
  m_output :: "coded_output option"
  m_dic :: MMKVMap
  m_actualSize :: nat
  m_crcDigest :: u32
  m_expectedCapacity :: nat
  m_itemSizeLimit :: u32
  m_recoverStrategic :: "MMKVRecoverStrategic option"
  m_needLoadFromFile :: bool
  m_hasFullWriteback :: bool
  m_isSecondLoad :: bool
  m_enableKeyExpire :: bool
  m_expiredInSeconds :: u32
  m_enableCompareBeforeSet :: bool
  m_multiProcess :: bool
  m_readOnly :: bool

section \<open>Access to the mapped files\<close>

definition memory_read :: "nat \<Rightarrow> nat \<Rightarrow> (MMKV, byte list) cpp" where
  "memory_read pos n s =
     (if f_ptr (m_file s) \<and> pos + n \<le> f_size (m_file s)
      then (Inr (mem_read (f_disk (m_file s)) pos n), s) else (Inl MemoryFault, s))"

definition memory_write :: "nat \<Rightarrow> byte list \<Rightarrow> (MMKV, unit) cpp" where
  "memory_write pos bs s =
     (if f_ptr (m_file s) \<and> \<not> f_readOnly (m_file s) \<and> pos + length bs \<le> f_size (m_file s)
      then (Inr (), s\<lparr>m_file := (m_file s)\<lparr>f_disk := mem_write (f_disk (m_file s)) pos bs\<rparr>\<rparr>)
      else (Inl MemoryFault, s))"

definition memmove :: "nat \<Rightarrow> nat \<Rightarrow> nat \<Rightarrow> (MMKV, unit) cpp" where
  "memmove dst src n = bindC (memory_read src n) (memory_write dst)"

definition meta_update :: "(byte list \<Rightarrow> byte list) \<Rightarrow> (MMKV, unit) cpp" where
  "meta_update w s =
     (let f = m_metaFile s
      in if f_ptr f \<and> \<not> f_readOnly f \<and> 112 \<le> f_size f
         then (Inr (), s\<lparr>m_metaFile := f\<lparr>f_disk := w (f_disk f)\<rparr>\<rparr>) else (Inl MemoryFault, s))"

definition read_meta :: "MMKV \<Rightarrow> MMKVMetaInfo" where
  "read_meta s = meta_read (f_memory (m_metaFile s))"

definition with_output :: "(coded_output, 'a) cpp \<Rightarrow> (MMKV, 'a) cpp" where
  "with_output op s =
     (case m_output s of
        None \<Rightarrow> (Inl MemoryFault, s)
      | Some out \<Rightarrow>
          if f_ptr (m_file s) \<and> \<not> f_readOnly (m_file s)
          then (case op (out\<lparr>out_mem := f_memory (m_file s)\<rparr>) of
                  (r, out') \<Rightarrow>
                    (r, s\<lparr>m_output := Some out',
                          m_file := (m_file s)\<lparr>f_disk := mem_write (f_disk (m_file s)) 0 (out_mem out')\<rparr>\<rparr>))
          else (Inl MemoryFault, s))"

definition move_output :: "(coded_output, 'a) cpp \<Rightarrow> (MMKV, 'a) cpp" where
  "move_output op s =
     (case m_output s of
        None \<Rightarrow> (Inl MemoryFault, s)
      | Some out \<Rightarrow> (case op out of (r, out') \<Rightarrow> (r, s\<lparr>m_output := Some out'\<rparr>)))"

text \<open>The bytes behind the first four, in the arithmetic of \<open>size_t\<close>: a file that is mapped for reading
  may be shorter.\<close>

definition payload_size :: "nat \<Rightarrow> nat" where
  "payload_size fileSize = (if 4 \<le> fileSize then fileSize - 4 else 2 ^ 64 + fileSize - 4)"

definition new_output :: "MMKV \<Rightarrow> MMKV" where
  "new_output s = s\<lparr>m_output := Some (CodedOutputData [] 4 (payload_size (getFileSize (m_file s))))\<rparr>"

definition catch_all :: "(MMKV, 'a) cpp \<Rightarrow> 'a \<Rightarrow> (MMKV, 'a) cpp" where
  "catch_all m v s =
     (case m s of (Inl e, s') \<Rightarrow> if e = MemoryFault then (Inl e, s') else (Inr v, s') | (Inr x, s') \<Rightarrow> (Inr x, s'))"

section \<open>Size and checksum\<close>

definition isFileValid_store :: "MMKV \<Rightarrow> bool" where
  "isFileValid_store s = isFileValid (m_file s)"

definition checkFileCRCValid :: "environment \<Rightarrow> nat \<Rightarrow> u32 \<Rightarrow> (MMKV, bool) cpp" where
  "checkFileCRCValid E actualSize crcDigest s =
     (if f_ptr (m_file s)
      then bindC (memory_read 4 (unat (word_of_nat actualSize :: u32))) (\<lambda>bs s.
             let s = s\<lparr>m_crcDigest := crc32 E 0 bs\<rparr> in (Inr (m_crcDigest s = crcDigest), s)) s
      else (Inr False, s))"

definition readActualSize :: "(MMKV, nat) cpp" where
  "readActualSize s =
     (if MMKVVersionActualSize \<le> mi_version (m_metaInfo s)
      then (Inr (unat (mi_actualSize (m_metaInfo s))), s)
      else bindC (memory_read 0 4) (\<lambda>bs. returnC (le_value bs)) s)"

definition oldStyleWriteActualSize :: "nat \<Rightarrow> (MMKV, unit) cpp" where
  "oldStyleWriteActualSize actualSize s = memory_write 0 (le_bytes 4 actualSize) (s\<lparr>m_actualSize := actualSize\<rparr>)"

text \<open>The changes of the meta information in \<open>writeActualSize\<close>, and whether all of it is to be written.\<close>

definition update_meta :: "nat \<Rightarrow> u32 \<Rightarrow> byte list option \<Rightarrow> bool \<Rightarrow> MMKVMetaInfo \<Rightarrow> MMKVMetaInfo \<times> bool" where
  "update_meta n crcDigest iv increaseSequence m =
     (let m = m\<lparr>mi_actualSize := word_of_nat n, mi_crcDigest := crcDigest\<rparr>;
          (m, needsFullWrite) =
            (if mi_version m < MMKVVersionSequence then (m\<lparr>mi_version := MMKVVersionSequence\<rparr>, True) else (m, False));
          (m, needsFullWrite) =
            (case iv of
               None \<Rightarrow> (m, needsFullWrite)
             | Some v \<Rightarrow>
                 (if mi_version m < MMKVVersionRandomIV
                  then m\<lparr>mi_vector := v, mi_version := MMKVVersionRandomIV\<rparr> else m\<lparr>mi_vector := v\<rparr>, True));
          (m, needsFullWrite) =
            (if increaseSequence
             then (let m = m\<lparr>mi_sequence := mi_sequence m + 1, mi_lastActualSize := word_of_nat n,
                             mi_lastCRCDigest := crcDigest\<rparr>
                   in if mi_version m < MMKVVersionActualSize then m\<lparr>mi_version := MMKVVersionActualSize\<rparr> else m, True)
             else (m, needsFullWrite))
      in if mi_version m < MMKVVersionFlag then (m\<lparr>mi_flags := 0, mi_version := MMKVVersionFlag\<rparr>, True)
         else (m, needsFullWrite))"

definition writeActualSize :: "nat \<Rightarrow> u32 \<Rightarrow> byte list option \<Rightarrow> bool \<Rightarrow> (MMKV, bool) cpp" where
  "writeActualSize n crcDigest iv increaseSequence s =
     (if m_readOnly s then (Inr False, s)
      else bindC (if \<not> increaseSequence \<and> mi_version (m_metaInfo s) < MMKVVersionActualSize
                  then oldStyleWriteActualSize n else returnC ()) (\<lambda>_ s.
        if \<not> isFileValid (m_metaFile s) then (Inr False, s)
        else let (m, needsFullWrite) = update_meta n crcDigest iv increaseSequence (m_metaInfo s);
                 s = s\<lparr>m_actualSize := n, m_crcDigest := crcDigest, m_metaInfo := m\<rparr>
             in bindC (meta_update (if needsFullWrite then meta_write m else writeCRCAndActualSizeOnly m))
                  (\<lambda>_. returnC True) s) s)"

definition recalculateCRCDigestWithIV :: "environment \<Rightarrow> byte list option \<Rightarrow> (MMKV, unit) cpp" where
  "recalculateCRCDigestWithIV E iv s =
     (if f_ptr (m_file s)
      then bindC (memory_read 4 (unat (word_of_nat (m_actualSize s) :: u32))) (\<lambda>bs s.
             let s = s\<lparr>m_crcDigest := crc32 E 0 bs\<rparr>
             in bindC (writeActualSize (m_actualSize s) (m_crcDigest s) iv True) (\<lambda>_. returnC ()) s) s
      else (Inr (), s))"

definition recalculateCRCDigestOnly :: "environment \<Rightarrow> (MMKV, unit) cpp" where
  "recalculateCRCDigestOnly E s =
     (if f_ptr (m_file s)
      then bindC (memory_read 4 (unat (word_of_nat (m_actualSize s) :: u32))) (\<lambda>bs s.
             let s = s\<lparr>m_crcDigest := crc32 E 0 bs\<rparr>
             in bindC (writeActualSize (m_actualSize s) (m_crcDigest s) None False) (\<lambda>_. returnC ()) s) s
      else (Inr (), s))"

definition updateCRCDigest :: "environment \<Rightarrow> nat \<Rightarrow> nat \<Rightarrow> (MMKV, unit) cpp" where
  "updateCRCDigest E ptr n =
     bindC (memory_read ptr (unat (word_of_nat n :: u32))) (\<lambda>bs s.
       let s = s\<lparr>m_crcDigest := crc32 E (m_crcDigest s) bs\<rparr>
       in bindC (writeActualSize (m_actualSize s) (m_crcDigest s) None False) (\<lambda>_. returnC ()) s)"

definition sync_store :: "(MMKV, unit) cpp" where
  "sync_store s =
     (if m_needLoadFromFile s \<or> \<not> isFileValid_store s then (Inr (), s)
      else (Inr (), s\<lparr>m_file := snd (msync (m_file s)), m_metaFile := snd (msync (m_metaFile s))\<rparr>))"

section \<open>Writing everything back\<close>

definition ItemSizeHolderSize :: nat where
  "ItemSizeHolderSize = 4"

text \<open>The size of an entry in the file, in the 32-bit arithmetic of the code.\<close>

definition kv_size :: "KeyValueHolder \<Rightarrow> u32" where
  "kv_size kvHolder = ucast (computedKVSize kvHolder) + valueSize kvHolder"

definition prepareEncode :: "environment \<Rightarrow> MMKVMap \<Rightarrow> nat" where
  "prepareEncode E dic = ItemSizeHolderSize + sum_list (map (\<lambda>itr. unat (kv_size (snd itr))) (iterate E dic))"

definition prepareEncode_vector :: "(nat \<Rightarrow> byte) \<Rightarrow> (byte list \<times> byte list) list \<Rightarrow> cpp_exception + byte list \<times> nat" where
  "prepareEncode_vector junk vec =
     (case encodeDataWithObject_MMKVVector junk vec of
        Inl e \<Rightarrow> Inl e
      | Inr buffer \<Rightarrow>
          (case readUInt32 (CodedInputData buffer 0 (length buffer)) of
             (Inl e, _) \<Rightarrow> Inl e
           | (Inr sizeOfMap, _) \<Rightarrow> Inr (buffer, ItemSizeHolderSize + unat sizeOfMap)))"

text \<open>Sections are pairs of an offset and a size; adjacent entries are merged.\<close>

definition merge_section :: "(u32 \<times> u32) list \<Rightarrow> KeyValueHolder \<Rightarrow> (u32 \<times> u32) list" where
  "merge_section dataSections kvHolder =
     (let lastSection = last dataSections
      in if offset kvHolder = fst lastSection + snd lastSection
         then butlast dataSections @ [(fst lastSection, snd lastSection + kv_size kvHolder)]
         else dataSections @ [(offset kvHolder, kv_size kvHolder)])"

definition dataSections :: "KeyValueHolder list \<Rightarrow> (u32 \<times> u32) list" where
  "dataSections vec = foldl merge_section [(offset (hd vec), kv_size (hd vec))] (tl vec)"

primrec move_sections :: "nat \<Rightarrow> (u32 \<times> u32) list \<Rightarrow> (MMKV, nat) cpp" where
  "move_sections writePtr [] = returnC writePtr"
| "move_sections writePtr (sec # secs) =
     bindC (memmove writePtr (4 + unat (fst sec)) (unat (snd sec)))
       (\<lambda>_. move_sections (writePtr + unat (snd sec)) secs)"

primrec update_offsets :: "u32 \<Rightarrow> (byte list \<times> KeyValueHolder) list \<Rightarrow> MMKVMap \<Rightarrow> MMKVMap" where
  "update_offsets off [] dic = dic"
| "update_offsets off (itr # vec) dic =
     update_offsets (off + kv_size (snd itr)) vec (dic(fst itr \<mapsto> (snd itr)\<lparr>offset := off\<rparr>))"

definition sort_by_offset :: "(byte list \<times> KeyValueHolder) list \<Rightarrow> (byte list \<times> KeyValueHolder) list" where
  "sort_by_offset = sort_key (\<lambda>itr. unat (offset (snd itr)))"

definition memmoveDictionary :: "environment \<Rightarrow> nat \<Rightarrow> (MMKV, unit) cpp" where
  "memmoveDictionary E totalSize s =
     (case m_output s of
        None \<Rightarrow> (Inl MemoryFault, s)
      | Some out \<Rightarrow>
          let originOutputPtr = curWritePointer out;
              writePtr = originOutputPtr + ItemSizeHolderSize;
              vec = sort_by_offset (iterate E (m_dic s))
          in bindC
               (if vec = [] then returnC writePtr
                else bindC (move_sections writePtr (dataSections (map snd vec))) (\<lambda>writePtr s.
                       (Inr writePtr,
                        s\<lparr>m_dic := update_offsets (word_of_nat ItemSizeHolderSize) vec (m_dic s)\<rparr>)))
               (\<lambda>writePtr.
                  bindC (with_output (writeUInt32 (randomItemSizeHolder (rand_value E) ItemSizeHolderSize))) (\<lambda>_.
                    let writtenSize = writePtr - originOutputPtr
                    in if writtenSize = totalSize then move_output (seekOut (writtenSize - ItemSizeHolderSize))
                       else throwC MemoryFault)) s)"

definition fullWriteBackWholeData :: "environment \<Rightarrow> byte list \<Rightarrow> nat \<Rightarrow> (MMKV, unit) cpp" where
  "fullWriteBackWholeData E allData totalSize s =
     (case m_output s of
        None \<Rightarrow> (Inl MemoryFault, s)
      | Some out \<Rightarrow>
          let originOutputPtr = curWritePointer out
          in bindC (with_output (writeUInt32 (randomItemSizeHolder (rand_value E) ItemSizeHolderSize))) (\<lambda>_.
             bindC
               (if 0 < length allData
                then (case readUInt32 (CodedInputData allData 0 (length allData)) of
                        (Inl e, _) \<Rightarrow> throwC e
                      | (Inr dataSize, _) \<Rightarrow>
                          if dataSize > 0
                          then let dataPtr = unat (pbRawVarint32Size dataSize);
                                   n = unat dataSize
                               in if dataPtr + n \<le> length allData
                                  then (\<lambda>s. bindC (memory_write (curWritePointer (the (m_output s))) (mem_read allData dataPtr n))
                                              (\<lambda>_. move_output (seekOut n)) s)
                                  else throwC MemoryFault
                          else returnC ())
                else returnC ())
               (\<lambda>_ s.
                  let writtenSize = curWritePointer (the (m_output s)) - originOutputPtr
                  in if writtenSize = totalSize then (Inr (), s) else (Inl MemoryFault, s))) s)"

definition doFullWriteBack :: "environment \<Rightarrow> byte list \<Rightarrow> nat \<Rightarrow> bool \<Rightarrow> (MMKV, bool) cpp" where
  "doFullWriteBack E preparedData totalSize needSync s =
     bindC (if preparedData \<noteq> [] then fullWriteBackWholeData E preparedData totalSize else memmoveDictionary E totalSize)
       (\<lambda>_ s.
          bindC (recalculateCRCDigestWithIV E None) (\<lambda>_ s.
            bindC (if needSync then sync_store else returnC ()) (\<lambda>_. returnC True) (s\<lparr>m_hasFullWriteback := True\<rparr>))
            (s\<lparr>m_actualSize := totalSize\<rparr>))
       (new_output s)"

text \<open>Sums and products of \<open>size_t\<close> wrap around.\<close>

definition wrap64 :: "nat \<Rightarrow> nat" where
  "wrap64 n = n mod 2 ^ 64"

text \<open>Doubling until the need is met; a size that has wrapped to zero stays zero, and the loop does not end.\<close>

partial_function (option) expand_size :: "nat \<Rightarrow> nat \<Rightarrow> nat option" where
  "expand_size need fileSize =
     (let fileSize = wrap64 (fileSize * 2)
      in if fileSize \<le> need then expand_size need fileSize else Some fileSize)"

definition expandAndWriteBack :: "environment \<Rightarrow> nat \<Rightarrow> byte list \<Rightarrow> nat \<Rightarrow> bool \<Rightarrow> (MMKV, bool) cpp" where
  "expandAndWriteBack E newSize preparedData sizeOfDic needSync s =
     (let fileSize = getFileSize (m_file s);
          lenNeeded = wrap64 (sizeOfDic + 4 + newSize);
          nowDicCount = length (iterate E (m_dic s));
          laterDicCount = max 1 (wrap64 (nowDicCount + 1));
          avgItemSize = wrap64 (lenNeeded + laterDicCount - 1) div laterDicCount;
          futureUsage = wrap64 (avgItemSize * max 8 (laterDicCount div 2))
      in if fileSize \<le> lenNeeded \<or> (needSync \<and> fileSize \<le> wrap64 (lenNeeded + futureUsage))
         then (case expand_size (wrap64 (lenNeeded + futureUsage)) fileSize of
                 None \<Rightarrow> (Inl MemoryFault, s)
               | Some newFileSize \<Rightarrow>
                   let (ret, f) = truncate_file (page_size E) newFileSize (m_file s);
                       s = s\<lparr>m_file := f\<rparr>
                   in if \<not> ret then (Inr False, s)
                      else if \<not> isFileValid_store s then (Inr False, s)
                      else doFullWriteBack E preparedData sizeOfDic needSync s)
         else doFullWriteBack E preparedData sizeOfDic needSync s)"

section \<open>Expired keys\<close>

definition ExpireNever :: nat where
  "ExpireNever = 0"

primrec filter_expired :: "environment \<Rightarrow> (byte list \<times> KeyValueHolder) list \<Rightarrow> nat \<Rightarrow> (MMKV, nat) cpp" where
  "filter_expired E [] count = returnC count"
| "filter_expired E (itr # itrs) count =
     (let kvHolder = snd itr
      in if unat (valueSize kvHolder) < 4 then filter_expired E itrs count
         else bindC (memory_read (4 + unat (offset kvHolder) + unat (computedKVSize kvHolder)
                                    + unat (valueSize kvHolder) - 4) 4) (\<lambda>bs.
                let time = le_value bs
                in if time \<noteq> ExpireNever \<and> time \<le> unat (time_now E)
                   then (\<lambda>s. filter_expired E itrs (count + 1) (s\<lparr>m_dic := (m_dic s)(fst itr := None)\<rparr>))
                   else filter_expired E itrs count))"

definition filterExpiredKeys :: "environment \<Rightarrow> (MMKV, nat) cpp" where
  "filterExpiredKeys E s =
     (if \<not> m_enableKeyExpire s \<or> iterate E (m_dic s) = [] then (Inr 0, s)
      else filter_expired E (iterate E (m_dic s)) 0 s)"

section \<open>Room for an entry\<close>

definition ensureMemorySize :: "environment \<Rightarrow> nat \<Rightarrow> (MMKV, bool) cpp" where
  "ensureMemorySize E newSize s =
     (if \<not> isFileValid_store s then (Inr False, s)
      else if m_readOnly s then (Inr False, s)
      else (case m_output s of
              None \<Rightarrow> (Inl MemoryFault, s)
            | Some out \<Rightarrow>
                if spaceLeft out \<le> newSize \<or> iterate E (m_dic s) = []
                then bindC (if m_enableKeyExpire s then filterExpiredKeys E else returnC 0) (\<lambda>_ s.
                       expandAndWriteBack E newSize [] (prepareEncode E (m_dic s)) (iterate E (m_dic s) \<noteq> []) s) s
                else (Inr True, s)))"

definition checkSizeLimit :: "nat \<Rightarrow> MMKV \<Rightarrow> bool" where
  "checkSizeLimit n s \<longleftrightarrow> \<not> (m_itemSizeLimit s \<noteq> 0 \<and> unat (m_itemSizeLimit s) < n)"

definition checkSizeForOverride :: "nat \<Rightarrow> MMKV \<Rightarrow> bool" where
  "checkSizeForOverride n s \<longleftrightarrow>
     isFileValid_store s \<and>
     (let fileSize = getFileSize (m_file s);
          spaceNeededForOverride = n + 4 + ItemSizeHolderSize
      in \<not> (fileSize < n \<or> fileSize < spaceNeededForOverride))"

section \<open>Appending and overriding\<close>

text \<open>A buffer the writer copies from: bytes of its own, or a part of the mapped file (\<open>MMBufferNoCopy\<close>).\<close>

datatype buffer = Owned "byte list" | InFile nat nat

fun buffer_length :: "buffer \<Rightarrow> nat" where
  "buffer_length (Owned bs) = length bs"
| "buffer_length (InFile pos n) = n"

definition overlaps :: "nat \<Rightarrow> nat \<Rightarrow> nat \<Rightarrow> bool" where
  "overlaps src dst n \<longleftrightarrow> src \<noteq> dst \<and> src < dst + n \<and> dst < src + n"

text \<open>\<open>memcpy\<close> onto itself is harmless; from an overlapping area it is undefined.\<close>

fun writeRawData_buffer :: "buffer \<Rightarrow> (MMKV, unit) cpp" where
  "writeRawData_buffer (Owned bs) s = with_output (writeRawData bs) s"
| "writeRawData_buffer (InFile pos n) s =
     bindC (memory_read pos n) (\<lambda>bs s.
       case m_output s of
         None \<Rightarrow> (Inl MemoryFault, s)
       | Some out \<Rightarrow>
           if out_position out + n \<le> out_size out \<and> overlaps pos (curWritePointer out) n then (Inl MemoryFault, s)
           else with_output (writeRawData bs) s) s"

definition writeData_buffer :: "buffer \<Rightarrow> (MMKV, unit) cpp" where
  "writeData_buffer b =
     bindC (with_output (writeRawVarint32 (word_of_nat (buffer_length b)))) (\<lambda>_. writeRawData_buffer b)"

definition value_length :: "byte list \<Rightarrow> bool \<Rightarrow> u32" where
  "value_length data isDataHolder =
     (let valueLength = word_of_nat (length data)
      in if isDataHolder then valueLength + pbRawVarint32Size valueLength else valueLength)"

definition entry_size :: "nat \<Rightarrow> u32 \<Rightarrow> nat" where
  "entry_size rawKeySize valueLength = rawKeySize + unat (valueLength + pbRawVarint32Size valueLength)"

definition raw_key_size :: "buffer \<Rightarrow> u32 \<Rightarrow> nat" where
  "raw_key_size keyData originKeyLength =
     (let keyLength = word_of_nat (buffer_length keyData) :: u32
      in if unat originKeyLength < buffer_length keyData then unat keyLength
         else unat (keyLength + pbRawVarint32Size keyLength))"

text \<open>What both write: the key as it is if it is encoded already, else with its length; the length of
  the holder; the value.\<close>

definition write_entry :: "byte list \<Rightarrow> buffer \<Rightarrow> bool \<Rightarrow> u32 \<Rightarrow> (MMKV, unit) cpp" where
  "write_entry data keyData isDataHolder originKeyLength =
     bindC (if unat originKeyLength < buffer_length keyData then writeRawData_buffer keyData
            else writeData_buffer keyData) (\<lambda>_.
     bindC (if isDataHolder then with_output (writeRawVarint32 (value_length data isDataHolder)) else returnC ()) (\<lambda>_.
       with_output (writeData data)))"

definition KeyValueHolder_default :: KeyValueHolder where
  "KeyValueHolder_default = \<lparr>computedKVSize = 0, keySize = 0, valueSize = 0, offset = 0\<rparr>"

definition doAppendDataWithKey ::
  "environment \<Rightarrow> byte list \<Rightarrow> buffer \<Rightarrow> bool \<Rightarrow> u32 \<Rightarrow> (MMKV, bool \<times> KeyValueHolder) cpp" where
  "doAppendDataWithKey E data keyData isDataHolder originKeyLength s =
     (let valueLength = value_length data isDataHolder;
          n = entry_size (raw_key_size keyData originKeyLength) valueLength
      in if \<not> checkSizeLimit n s then (Inr (False, KeyValueHolder_default), s)
         else bindC (ensureMemorySize E n) (\<lambda>hasEnoughSize s.
                if \<not> hasEnoughSize \<or> \<not> isFileValid_store s then (Inr (False, KeyValueHolder_default), s)
                else bindC (catch_all (bindC (write_entry data keyData isDataHolder originKeyLength) (\<lambda>_. returnC True)) False)
                       (\<lambda>written s.
                          if \<not> written then (Inr (False, KeyValueHolder_default), s)
                          else let off = word_of_nat (m_actualSize s);
                                   ptr = 4 + m_actualSize s;
                                   s = s\<lparr>m_actualSize := m_actualSize s + n\<rparr>
                               in bindC (updateCRCDigest E ptr n)
                                    (\<lambda>_. returnC (True, KeyValueHolder_new originKeyLength valueLength off)) s) s) s)"

definition doOverrideDataWithKey ::
  "environment \<Rightarrow> byte list \<Rightarrow> buffer \<Rightarrow> bool \<Rightarrow> u32 \<Rightarrow> (MMKV, bool \<times> KeyValueHolder) cpp" where
  "doOverrideDataWithKey E data keyData isDataHolder originKeyLength s =
     (let valueLength = value_length data isDataHolder;
          n = entry_size (raw_key_size keyData originKeyLength) valueLength
      in if \<not> checkSizeLimit n s then (Inr (False, KeyValueHolder_default), s)
         else if \<not> checkSizeForOverride n s then doAppendDataWithKey E data keyData isDataHolder originKeyLength s
         else bindC
                (catch_all
                  (bindC (move_output (\<lambda>out. (Inr (), setPosition 0 out))) (\<lambda>_.
                   bindC (with_output (writeUInt32 (randomItemSizeHolder (rand_value E) ItemSizeHolderSize))) (\<lambda>_ s.
                   bindC (write_entry data keyData isDataHolder originKeyLength) (\<lambda>_. returnC True)
                     (s\<lparr>m_actualSize := ItemSizeHolderSize\<rparr>)))) False)
                (\<lambda>written s.
                   if \<not> written then (Inr (False, KeyValueHolder_default), s)
                   else let off = word_of_nat (m_actualSize s);
                            s = s\<lparr>m_actualSize := m_actualSize s + n\<rparr>
                        in bindC (recalculateCRCDigestOnly E)
                             (\<lambda>_. returnC (True, KeyValueHolder_new originKeyLength valueLength off)) s) s)"

definition appendDataWithKey ::
  "environment \<Rightarrow> byte list \<Rightarrow> byte list \<Rightarrow> bool \<Rightarrow> (MMKV, bool \<times> KeyValueHolder) cpp" where
  "appendDataWithKey E data key isDataHolder =
     doAppendDataWithKey E data (Owned key) isDataHolder (word_of_nat (length key))"

definition overrideDataWithKey ::
  "environment \<Rightarrow> byte list \<Rightarrow> byte list \<Rightarrow> bool \<Rightarrow> (MMKV, bool \<times> KeyValueHolder) cpp" where
  "overrideDataWithKey E data key isDataHolder =
     doOverrideDataWithKey E data (Owned key) isDataHolder (word_of_nat (length key))"

text \<open>The variants for a key that is in the dictionary take a reference to its holder, which
  \<open>ensureMemorySize\<close> may update: the model passes the key and looks the holder up.\<close>

definition holder_at :: "byte list \<Rightarrow> (MMKV, KeyValueHolder) cpp" where
  "holder_at key s = (case m_dic s key of None \<Rightarrow> (Inl MemoryFault, s) | Some kvHolder \<Rightarrow> (Inr kvHolder, s))"

definition encoded_key_size :: "KeyValueHolder \<Rightarrow> nat" where
  "encoded_key_size kvHolder =
     (let keyLength = ucast (keySize kvHolder) :: u32 in unat (keyLength + pbRawVarint32Size keyLength))"

definition size_needed :: "nat \<Rightarrow> u32 \<Rightarrow> nat" where
  "size_needed rawKeySize valueLength = rawKeySize + unat valueLength + unat (pbRawVarint32Size valueLength)"

definition appendDataWithHolder ::
  "environment \<Rightarrow> byte list \<Rightarrow> byte list \<Rightarrow> bool \<Rightarrow> (MMKV, bool \<times> KeyValueHolder) cpp" where
  "appendDataWithHolder E data key isDataHolder =
     bindC (holder_at key) (\<lambda>kvHolder.
       let rawKeySize = encoded_key_size kvHolder;
           n = size_needed rawKeySize (value_length data isDataHolder)
       in bindC (ensureMemorySize E n) (\<lambda>hasEnoughSize.
            if \<not> hasEnoughSize then returnC (False, KeyValueHolder_default)
            else bindC (holder_at key) (\<lambda>moved.
                   doAppendDataWithKey E data (InFile (4 + unat (offset moved)) rawKeySize) isDataHolder
                     (ucast (keySize kvHolder)))))"

definition overrideDataWithHolder ::
  "environment \<Rightarrow> byte list \<Rightarrow> byte list \<Rightarrow> bool \<Rightarrow> (MMKV, bool \<times> KeyValueHolder) cpp" where
  "overrideDataWithHolder E data key isDataHolder =
     bindC (holder_at key) (\<lambda>kvHolder s.
       let rawKeySize = encoded_key_size kvHolder;
           n = size_needed rawKeySize (value_length data isDataHolder);
           pos = 4 + unat (offset kvHolder)
       in if \<not> checkSizeForOverride n s then appendDataWithHolder E data key isDataHolder s
          else if unat (offset kvHolder) < ItemSizeHolderSize
          then bindC (memory_read pos rawKeySize) (\<lambda>keyData.
                 doOverrideDataWithKey E data (Owned keyData) isDataHolder (ucast (keySize kvHolder))) s
          else doOverrideDataWithKey E data (InFile pos rawKeySize) isDataHolder (ucast (keySize kvHolder)) s)"

section \<open>Loading\<close>

definition clearMemoryCache :: "bool \<Rightarrow> MMKV \<Rightarrow> MMKV" where
  "clearMemoryCache keepSpace s =
     (if m_needLoadFromFile s then s
      else let s = s\<lparr>m_needLoadFromFile := True, m_hasFullWriteback := False, m_dic := Map.empty, m_output := None\<rparr>;
               s = (if keepSpace then s else s\<lparr>m_file := doCleanMemoryCache (m_file s)\<rparr>)
           in s\<lparr>m_actualSize := 0, m_metaInfo := (m_metaInfo s)\<lparr>mi_crcDigest := 0\<rparr>\<rparr>)"

text \<open>Reading the first bytes of a file through its descriptor; an answer \<open>False\<close> stands for one of the
  error codes that make the code delete the file, which leaves it empty.\<close>

definition isDiskOfMMAPFileCorrupted :: "MemoryFile \<Rightarrow> bool \<times> MemoryFile" where
  "isDiskOfMMAPFileCorrupted f =
     (let f = (if f_isMayflyFD f then snd (openIfNeeded f) else f);
          (ok, f) = answer f
      in if ok then (False, cleanMayflyFD f) else (True, f))"

definition replace_corrupted :: "nat \<Rightarrow> nat \<Rightarrow> MemoryFile \<Rightarrow> MemoryFile" where
  "replace_corrupted page cap f =
     (let (corrupted, f) = isDiskOfMMAPFileCorrupted f
      in if corrupted then reloadFromFile page cap ((doCleanMemoryCache f)\<lparr>f_disk := []\<rparr>) else f)"

definition checkFileHasDiskError :: "environment \<Rightarrow> MMKV \<Rightarrow> MMKV" where
  "checkFileHasDiskError E s =
     (if m_isSecondLoad s then s
      else let s = s\<lparr>m_isSecondLoad := True, m_metaFile := replace_corrupted (page_size E) 0 (m_metaFile s)\<rparr>;
               s = (if \<not> isFileValid (m_file s)
                    then s\<lparr>m_file := reloadFromFile (page_size E) (m_expectedCapacity s) (m_file s)\<rparr> else s)
           in if \<not> isFileValid (m_file s) then s
              else s\<lparr>m_file := replace_corrupted (page_size E) (m_expectedCapacity s) (m_file s)\<rparr>)"

text \<open>The checks of the meta information once it is read.\<close>

definition check_meta_version :: "(MMKV, unit) cpp" where
  "check_meta_version s =
     bindC (if MMKVVersionHolder \<le> mi_version (m_metaInfo s)
            then (let m = (m_metaInfo s)\<lparr>mi_version := MMKVVersionActualSize, mi_flags := 0\<rparr>
                  in (\<lambda>s. meta_update (meta_write m) (s\<lparr>m_metaInfo := m\<rparr>)))
            else returnC ()) (\<lambda>_ s.
       if MMKVVersionFlag \<le> mi_version (m_metaInfo s)
       then let s = s\<lparr>m_enableKeyExpire := hasFlag EnableKeyExipre (m_metaInfo s)\<rparr>
            in (Inr (), if m_enableKeyExpire s \<and> m_enableCompareBeforeSet s
                        then s\<lparr>m_enableCompareBeforeSet := False\<rparr> else s)
       else if mi_flags (m_metaInfo s) \<noteq> 0
       then let m = (m_metaInfo s)\<lparr>mi_flags := 0\<rparr> in meta_update (meta_write m) (s\<lparr>m_metaInfo := m\<rparr>)
       else (Inr (), s)) s"

definition loadMetaInfoAndCheck :: "environment \<Rightarrow> (MMKV, unit) cpp" where
  "loadMetaInfoAndCheck E s =
     (let s = (if \<not> isFileValid (m_metaFile s)
               then s\<lparr>m_metaFile := reloadFromFile (page_size E) 0 (m_metaFile s)\<rparr> else s)
      in if \<not> isFileValid (m_metaFile s) then (Inr (), s)
         else let s = checkFileHasDiskError E s
              in if \<not> isFileValid (m_metaFile s) then (Inr (), s)
                 else let s = s\<lparr>m_metaInfo := read_meta s\<rparr>
                      in if m_readOnly s then (Inr (), s) else check_meta_version s)"

definition size_in_file :: "nat \<Rightarrow> nat \<Rightarrow> bool" where
  "size_in_file actualSize fileSize \<longleftrightarrow> actualSize < fileSize \<and> actualSize + 4 \<le> fileSize"

text \<open>The sizes from the files have 32 bits, and so has their sum with four.\<close>

definition size_in_file_32 :: "u32 \<Rightarrow> nat \<Rightarrow> bool" where
  "size_in_file_32 actualSize fileSize \<longleftrightarrow> unat actualSize < fileSize \<and> unat (actualSize + 4) \<le> fileSize"

text \<open>The fallback to the size stored in the file itself, then to the last confirmed size.\<close>

definition check_old_style :: "environment \<Rightarrow> (MMKV, bool) cpp" where
  "check_old_style E s =
     bindC (memory_read 0 4) (\<lambda>bs s.
       let oldStyleActualSize = le_value bs
       in if oldStyleActualSize \<noteq> m_actualSize s \<and> size_in_file_32 (word_of_nat oldStyleActualSize) (getFileSize (m_file s))
          then bindC (checkFileCRCValid E oldStyleActualSize (mi_crcDigest (m_metaInfo s))) (\<lambda>ok s.
                 if ok
                 then bindC (writeActualSize oldStyleActualSize (mi_crcDigest (m_metaInfo s)) None False)
                        (\<lambda>_. returnC True) s
                 else (Inr False, s)) s
          else (Inr False, s)) s"

definition checkLastConfirmedInfo :: "environment \<Rightarrow> (MMKV, bool) cpp" where
  "checkLastConfirmedInfo E s =
     (if mi_version (m_metaInfo s) < MMKVVersionActualSize then (Inr False, s)
      else bindC (check_old_style E) (\<lambda>loadFromFile s.
             if loadFromFile then (Inr True, s)
             else let lastActualSize = unat (mi_lastActualSize (m_metaInfo s));
                      lastCRCDigest = mi_lastCRCDigest (m_metaInfo s)
                  in if size_in_file_32 (mi_lastActualSize (m_metaInfo s)) (getFileSize (m_file s))
                     then bindC (checkFileCRCValid E lastActualSize lastCRCDigest) (\<lambda>ok.
                            if ok then bindC (writeActualSize lastActualSize lastCRCDigest None False) (\<lambda>_. returnC True)
                            else returnC False) s
                     else (Inr False, s)) s)"

definition recover_strategic :: "MMKVRecoverStrategic \<Rightarrow> MMKV \<Rightarrow> MMKVRecoverStrategic" where
  "recover_strategic strategic s = (case m_recoverStrategic s of None \<Rightarrow> strategic | Some r \<Rightarrow> r)"

text \<open>The result: \<open>loadFromFile\<close> and \<open>needFullWriteback\<close>.\<close>

definition checkDataValid :: "environment \<Rightarrow> (MMKV, bool \<times> bool) cpp" where
  "checkDataValid E s =
     (let fileSize = getFileSize (m_file s)
      in bindC readActualSize (\<lambda>n s.
           let s = s\<lparr>m_actualSize := n\<rparr>
           in if size_in_file (m_actualSize s) fileSize
              then bindC (checkFileCRCValid E (m_actualSize s) (mi_crcDigest (m_metaInfo s))) (\<lambda>ok.
                     if ok then returnC (True, False)
                     else bindC (checkLastConfirmedInfo E) (\<lambda>loadFromFile s.
                            if loadFromFile then (Inr (True, False), s)
                            else if recover_strategic (onMMKVCRCCheckFail E) s = OnErrorRecover then (Inr (True, True), s)
                            else (Inr (False, False), s))) s
              else bindC (checkLastConfirmedInfo E) (\<lambda>loadFromFile s.
                     if loadFromFile then (Inr (True, False), s)
                     else if recover_strategic (onMMKVFileLengthError E) s = OnErrorRecover
                     then (Inr (True, True), s\<lparr>m_actualSize := payload_size fileSize\<rparr>)
                     else (Inr (False, False), s)) s) s)"

text \<open>The decoders of a whole file, on the dictionary and a position.\<close>

definition decode_into_dic :: "(MMKVMap \<Rightarrow> byte list \<Rightarrow> nat \<Rightarrow> (cpp_exception + MMKVMap) option) \<Rightarrow> nat \<Rightarrow> (MMKV, unit) cpp" where
  "decode_into_dic decoder pos s =
     bindC (memory_read 4 (m_actualSize s)) (\<lambda>inputBuffer s.
       case decoder (m_dic s) inputBuffer pos of
         None \<Rightarrow> (Inl MemoryFault, s)
       | Some (Inl e) \<Rightarrow> (Inl e, s)
       | Some (Inr dic) \<Rightarrow> (Inr (), s\<lparr>m_dic := dic\<rparr>)) s"

text \<open>The mapping, if it is gone or has another size than the file. In a debug build \<open>reloadFromFile\<close> of a file
  that is still mapped fails its assertion; its other calls are for files that are not.\<close>

definition map_again :: "environment \<Rightarrow> (MMKV, unit) cpp" where
  "map_again E s =
     (let remapped = s\<lparr>m_file := reloadFromFile (page_size E) (m_expectedCapacity s) (m_file s)\<rparr>
      in if \<not> isFileValid (m_file s) then (Inr (), remapped)
         else if m_multiProcess s \<and> getActualFileSize (m_file s) \<noteq> getFileSize (m_file s)
         then (if reload_asserts (debug_build E) (m_file s) then (Inl MemoryFault, s) else (Inr (), remapped))
         else (Inr (), s))"

text \<open>\<open>loadFromFile\<close>, with the full write-back it may end in as an argument.\<close>

definition loadFromFile_body :: "environment \<Rightarrow> (MMKV, bool) cpp \<Rightarrow> (MMKV, unit) cpp" where
  "loadFromFile_body E full s =
     bindC (loadMetaInfoAndCheck E) (\<lambda>_.
       bindC (map_again E) (\<lambda>_ s.
         bindC
           (if \<not> isFileValid (m_file s) then returnC ()
            else bindC (checkDataValid E) (\<lambda>(loadFromFile, needFullWriteback) s.
              if loadFromFile \<and> 0 < m_actualSize s
              then bindC (decode_into_dic (if needFullWriteback then greedyDecodeMap else decodeMap) 0) (\<lambda>_ s.
                     bindC (move_output (seekOut (m_actualSize s))) (\<lambda>_.
                       if needFullWriteback \<and> \<not> m_readOnly s then bindC full (\<lambda>_. returnC ()) else returnC ())
                       (new_output s)) (s\<lparr>m_dic := Map.empty\<rparr>)
              else let s = new_output s
                   in if m_readOnly s then (Inr (), s)
                      else if 0 < m_actualSize s
                      then bindC (writeActualSize 0 0 None True) (\<lambda>_. sync_store) s
                      else bindC (writeActualSize 0 0 None False) (\<lambda>_. returnC ()) s))
           (\<lambda>_ s. (Inr (), s\<lparr>m_needLoadFromFile := False\<rparr>)) s)) s"

text \<open>Reading what another process appended, with the full load it falls back to as an argument.\<close>

definition partialLoadFromFile_body :: "environment \<Rightarrow> (MMKV, unit) cpp \<Rightarrow> (MMKV, unit) cpp" where
  "partialLoadFromFile_body E load s =
     (if \<not> isFileValid (m_file s) then (Inr (), s)
      else let s = s\<lparr>m_metaInfo := read_meta s\<rparr>;
               oldActualSize = m_actualSize s;
               reload = (\<lambda>s. load (clearMemoryCache False s))
           in bindC readActualSize (\<lambda>n s.
                let s = s\<lparr>m_actualSize := n\<rparr>
                in if 0 < n \<and> size_in_file n (getFileSize (m_file s)) \<and> oldActualSize < n
                   then let addedSize = n - oldActualSize
                        in bindC (memory_read (4 + oldActualSize) (unat (word_of_nat addedSize :: u32))) (\<lambda>bs s.
                             let s = s\<lparr>m_crcDigest := crc32 E (m_crcDigest s) bs\<rparr>
                             in if m_crcDigest s = mi_crcDigest (m_metaInfo s)
                                then bindC (decode_into_dic greedyDecodeMap oldActualSize) (\<lambda>_.
                                     bindC (move_output (seekOut addedSize)) (\<lambda>_ s.
                                       (Inr (), s\<lparr>m_hasFullWriteback := False\<rparr>))) s
                                else reload s) s
                   else reload s) s)"

text \<open>\<open>checkLoadData\<close>, with the two loads as arguments.\<close>

definition checkLoadData_body :: "(MMKV, unit) cpp \<Rightarrow> (MMKV, unit) cpp \<Rightarrow> (MMKV, unit) cpp" where
  "checkLoadData_body load partial_load s =
     (if m_needLoadFromFile s then load (s\<lparr>m_needLoadFromFile := False\<rparr>)
      else if \<not> m_multiProcess s then (Inr (), s)
      else if \<not> isFileValid (m_metaFile s) then (Inr (), s)
      else let metaInfo = read_meta s
           in if mi_sequence (m_metaInfo s) \<noteq> mi_sequence metaInfo then load (clearMemoryCache False s)
              else if mi_crcDigest (m_metaInfo s) \<noteq> mi_crcDigest metaInfo \<or>
                      mi_actualSize (m_metaInfo s) \<noteq> mi_actualSize metaInfo
              then partial_load s
              else (Inr (), s))"

text \<open>\<open>clearAll\<close>; \<open>iv\<close> is the new vector it stores.\<close>

definition clearAll_body ::
  "environment \<Rightarrow> byte list \<Rightarrow> (MMKV, unit) cpp \<Rightarrow> (MMKV, unit) cpp \<Rightarrow> bool \<Rightarrow> (MMKV, unit) cpp" where
  "clearAll_body E iv check load keepSpace s =
     (if m_readOnly s then (Inr (), s)
      else bindC check (\<lambda>_ s.
        if \<not> isFileValid_store s then (Inr (), s)
        else if getFileSize (m_file s) = m_expectedCapacity s \<and> m_actualSize s = 0 then (Inr (), s)
        else let s = (if \<not> keepSpace
                      then s\<lparr>m_file := snd (truncate_file (page_size E) (m_expectedCapacity s) (m_file s))\<rparr> else s)
             in bindC (writeActualSize 0 0 (Some iv) True) (\<lambda>_ s.
                  let s = s\<lparr>m_metaFile := snd (msync (m_metaFile s))\<rparr>
                  in load (clearMemoryCache keepSpace s)) s) s)"

definition fullWriteback_body ::
  "environment \<Rightarrow> (bool \<Rightarrow> (MMKV, unit) cpp) \<Rightarrow> bool \<Rightarrow> (MMKV, bool) cpp" where
  "fullWriteback_body E clear onlyWhileExpire s =
     (if m_hasFullWriteback s then (Inr True, s)
      else if m_needLoadFromFile s then (Inr True, s)
      else if \<not> isFileValid_store s then (Inr False, s)
      else if m_readOnly s then (Inr False, s)
      else bindC (if m_enableKeyExpire s then filterExpiredKeys E else returnC 0) (\<lambda>expiredCount s.
             if m_enableKeyExpire s \<and> onlyWhileExpire \<and> expiredCount = 0 then (Inr True, s)
             else if iterate E (m_dic s) = [] then bindC (clear False) (\<lambda>_. returnC True) s
             else let sizeOfDic = prepareEncode E (m_dic s)
                  in if 0 < sizeOfDic
                     then if sizeOfDic + 4 \<le> getFileSize (m_file s) then doFullWriteBack E [] sizeOfDic True s
                          else (Inl MemoryFault, s)
                     else (Inr False, s)) s)"

text \<open>These four call one another. The nesting is bounded: while a load runs for \<open>clearAll\<close> the store is
  marked as not loaded, so the write-back of that load returns at once. The number counts nested
  loads.\<close>

fun loadFromFile :: "nat \<Rightarrow> environment \<Rightarrow> byte list \<Rightarrow> (MMKV, unit) cpp" where
  "loadFromFile 0 E iv = throwC MemoryFault"
| "loadFromFile (Suc n) E iv =
     (let load = loadFromFile n E iv;
          check = checkLoadData_body load (partialLoadFromFile_body E load)
      in loadFromFile_body E (fullWriteback_body E (clearAll_body E iv check load) False))"

definition load_depth :: nat where
  "load_depth = 4"

definition partialLoadFromFile :: "environment \<Rightarrow> byte list \<Rightarrow> (MMKV, unit) cpp" where
  "partialLoadFromFile E iv = partialLoadFromFile_body E (loadFromFile load_depth E iv)"

definition checkLoadData :: "environment \<Rightarrow> byte list \<Rightarrow> (MMKV, unit) cpp" where
  "checkLoadData E iv = checkLoadData_body (loadFromFile load_depth E iv) (partialLoadFromFile E iv)"

definition clearAll :: "environment \<Rightarrow> byte list \<Rightarrow> bool \<Rightarrow> (MMKV, unit) cpp" where
  "clearAll E iv = clearAll_body E iv (checkLoadData E iv) (loadFromFile load_depth E iv)"

definition fullWriteback :: "environment \<Rightarrow> byte list \<Rightarrow> bool \<Rightarrow> (MMKV, bool) cpp" where
  "fullWriteback E iv = fullWriteback_body E (clearAll E iv)"

section \<open>Getting, setting and removing\<close>

definition getRawDataForKey :: "environment \<Rightarrow> byte list \<Rightarrow> byte list \<Rightarrow> (MMKV, byte list) cpp" where
  "getRawDataForKey E iv key =
     bindC (checkLoadData E iv) (\<lambda>_ s.
       case m_dic s key of
         None \<Rightarrow> (Inr [], s)
       | Some kvHolder \<Rightarrow>
           memory_read (4 + (unat (offset kvHolder) + unat (computedKVSize kvHolder))) (unat (valueSize kvHolder)) s)"

text \<open>Comparing with the stored value, in stores that ask for it.\<close>

definition same_data :: "byte list \<Rightarrow> bool \<Rightarrow> KeyValueHolder \<Rightarrow> (MMKV, bool) cpp" where
  "same_data data isDataHolder kvHolder =
     bindC (memory_read (4 + (unat (offset kvHolder) + unat (computedKVSize kvHolder))) (unat (valueSize kvHolder)))
       (\<lambda>oldValueData.
          if isDataHolder
          then (case readRealData oldValueData of
                  Inl e \<Rightarrow> if e = MemoryFault then throwC e else returnC False
                | Inr realData \<Rightarrow> returnC (realData = data))
          else returnC (oldValueData = data))"

definition isCompareBeforeSetEnabled :: "MMKV \<Rightarrow> bool" where
  "isCompareBeforeSetEnabled s \<longleftrightarrow> m_enableCompareBeforeSet s \<and> \<not> m_enableKeyExpire s"

definition store_holder :: "byte list \<Rightarrow> bool \<times> KeyValueHolder \<Rightarrow> (MMKV, bool) cpp" where
  "store_holder key ret s =
     (if \<not> fst ret then (Inr False, s)
      else (Inr True, s\<lparr>m_dic := (m_dic s)(key \<mapsto> snd ret), m_hasFullWriteback := False\<rparr>))"

definition setDataForKey :: "environment \<Rightarrow> byte list \<Rightarrow> byte list \<Rightarrow> byte list \<Rightarrow> bool \<Rightarrow> (MMKV, bool) cpp" where
  "setDataForKey E iv data key isDataHolder s =
     (if (\<not> isDataHolder \<and> length data = 0) \<or> key = [] then (Inr False, s)
      else bindC (checkLoadData E iv) (\<lambda>_ s.
        case m_dic s key of
          Some kvHolder \<Rightarrow>
            bindC (if isCompareBeforeSetEnabled s then same_data data isDataHolder kvHolder else returnC False)
              (\<lambda>same s.
                 if same then (Inr True, s)
                 else let onlyOneKey = \<not> m_multiProcess s \<and> length (iterate E (m_dic s)) = 1
                      in bindC (if \<not> m_enableKeyExpire s
                                then if onlyOneKey then overrideDataWithHolder E data key isDataHolder
                                     else appendDataWithHolder E data key isDataHolder
                                else if onlyOneKey then overrideDataWithKey E data key isDataHolder
                                else appendDataWithKey E data key isDataHolder)
                           (store_holder key) s) s
        | None \<Rightarrow>
            let needOverride = \<not> m_multiProcess s \<and> iterate E (m_dic s) = [] \<and> 0 < m_actualSize s
            in bindC (if needOverride then overrideDataWithKey E data key isDataHolder
                      else appendDataWithKey E data key isDataHolder) (store_holder key) s) s)"

definition removeDataForKey :: "environment \<Rightarrow> byte list \<Rightarrow> (MMKV, bool) cpp" where
  "removeDataForKey E key s =
     (if key = [] then (Inr False, s)
      else (case m_dic s key of
              None \<Rightarrow> (Inr False, s)
            | Some _ \<Rightarrow>
                bindC (if \<not> m_enableKeyExpire s then appendDataWithHolder E [] key False
                       else appendDataWithKey E [] key False) (\<lambda>ret s.
                  (Inr (fst ret), if fst ret then s\<lparr>m_dic := (m_dic s)(key := None)\<rparr> else s))
                (s\<lparr>m_hasFullWriteback := False\<rparr>)))"

definition removeValueForKey :: "environment \<Rightarrow> byte list \<Rightarrow> byte list \<Rightarrow> (MMKV, bool) cpp" where
  "removeValueForKey E iv key s =
     (if key = [] then (Inr False, s)
      else if m_readOnly s then (Inr False, s)
      else bindC (checkLoadData E iv) (\<lambda>_. removeDataForKey E key) s)"

definition getDataWithoutMTimeForKey :: "environment \<Rightarrow> byte list \<Rightarrow> byte list \<Rightarrow> (MMKV, byte list) cpp" where
  "getDataWithoutMTimeForKey E iv key =
     bindC (checkLoadData E iv) (\<lambda>_.
     bindC (getRawDataForKey E iv key) (\<lambda>raw s.
       if length raw < 4 then (Inr raw, s)
       else let newLength = length raw - 4;
                time = le_value (drop newLength raw)
            in if m_enableKeyExpire s \<and> time \<noteq> ExpireNever \<and> time \<le> unat (time_now E)
               then bindC (removeValueForKey E iv key) (\<lambda>_. returnC []) s
               else (Inr (take newLength raw), s)))"

definition getDataForKey :: "environment \<Rightarrow> byte list \<Rightarrow> byte list \<Rightarrow> (MMKV, byte list) cpp" where
  "getDataForKey E iv key s =
     (if m_enableKeyExpire s then getDataWithoutMTimeForKey E iv key s else getRawDataForKey E iv key s)"

text \<open>Giving space back.\<close>

function halve_size :: "nat \<Rightarrow> nat \<Rightarrow> nat" where
  [simp del]: "halve_size limit fileSize = (if limit < fileSize then halve_size limit (fileSize div 2) else fileSize)"
  by pat_completeness auto
termination by (relation "measure snd") auto

definition trim :: "environment \<Rightarrow> byte list \<Rightarrow> (MMKV, unit) cpp" where
  "trim E iv s =
     (if m_readOnly s then (Inr (), s)
      else bindC (checkLoadData E iv) (\<lambda>_ s.
        if \<not> isFileValid_store s then (Inr (), s)
        else if m_actualSize s = 0 then clearAll E iv False s
        else if getFileSize (m_file s) \<le> m_expectedCapacity s then (Inr (), s)
        else bindC (fullWriteback E iv False) (\<lambda>_ s.
          let oldSize = getFileSize (m_file s);
              fileSize = max (halve_size ((m_actualSize s + 4) * 2) oldSize) (m_expectedCapacity s)
          in if oldSize = fileSize then (Inr (), s)
             else let (ret, f) = truncate_file (page_size E) fileSize (m_file s);
                      s = s\<lparr>m_file := f\<rparr>
                  in if \<not> ret then (Inr (), s)
                     else move_output (seekOut (m_actualSize s)) (new_output s)) s) s)"

end
