(* ===== verification/LiveLog.thy ===== *)
theory LiveLog
  imports MMKV_IO "HOL-Library.Multiset"
begin

text \<open>
  Logs and the entries in them that a full write-back keeps: for each key its last entry, unless that
  removes the key. The dictionary of a store locates exactly these entries; sorted by offset they are
  in the order of the log, and between two of them there is either nothing or at least the three bytes
  of a dead entry. From that follows that moving the merged sections to the front of the file copies
  every entry before anything overwrites it, also when the header in front of the entries grows.
\<close>

unbundle bit_operations_syntax

section \<open>Live entries\<close>

abbreviation dic_of :: "nat \<Rightarrow> log_entry list \<Rightarrow> MMKVMap" where
  "dic_of pos es \<equiv> run_steps enc_entry holder_step pos es Map.empty"

fun live_at :: "nat \<Rightarrow> log_entry list \<Rightarrow> (nat \<times> log_entry) list" where
  "live_at pos [] = []"
| "live_at pos (kv # es) =
     (if snd kv = [] \<or> fst kv \<in> fst ` set es then live_at (pos + length (enc_entry kv)) es
      else (pos, kv) # live_at (pos + length (enc_entry kv)) es)"

definition live :: "log_entry list \<Rightarrow> log_entry list" where
  "live es = map snd (live_at 0 es)"

definition live_holders :: "nat \<Rightarrow> log_entry list \<Rightarrow> (byte list \<times> KeyValueHolder) list" where
  "live_holders pos es = map (\<lambda>(p, kv). (fst kv, entry_holder p kv)) (live_at pos es)"

lemma live_at_snd: "map snd (live_at pos es) = live es"
proof -
  have "map snd (live_at pos es) = map snd (live_at pos' es)" for pos'
    by (induction es arbitrary: pos pos') auto
  then show ?thesis by (simp add: live_def)
qed

lemma live_at_keys: "(p, kv) \<in> set (live_at pos es) \<Longrightarrow> kv \<in> set es \<and> snd kv \<noteq> []"
  by (induction pos es rule: live_at.induct) (auto split: if_splits)

lemma live_keys: "kv \<in> set (live es) \<Longrightarrow> kv \<in> set es \<and> snd kv \<noteq> []"
  using live_at_keys by (fastforce simp: live_def)

lemma live_at_key_in: "pkv \<in> set (live_at pos es) \<Longrightarrow> fst (snd pkv) \<in> fst ` set es"
  using live_at_keys by (cases pkv) fastforce

lemma distinct_live_at: "distinct (map (fst \<circ> snd) (live_at pos es))"
proof (induction es arbitrary: pos)
  case (Cons kv es)
  let ?q = "pos + length (enc_entry kv)"
  have "fst kv \<notin> (fst \<circ> snd) ` set (live_at ?q es)" if "fst kv \<notin> fst ` set es"
    using that live_at_key_in [of _ ?q es] by auto
  then show ?case using Cons [of ?q] by simp
qed simp

lemma distinct_live_holders: "distinct (map fst (live_holders pos es))"
  using distinct_live_at [of pos es] by (simp add: live_holders_def comp_def split_def)

text \<open>A dictionary that keeps something about the last entry of each key keeps it about the live entries.\<close>

definition keep_last :: "(nat \<Rightarrow> log_entry \<Rightarrow> 'a) \<Rightarrow> nat \<Rightarrow> log_entry \<Rightarrow> (byte list \<rightharpoonup> 'a) \<Rightarrow> byte list \<rightharpoonup> 'a" where
  "keep_last f p kv m = m(fst kv := (if snd kv = [] then None else Some (f p kv)))"

lemma holder_step_keep_last: "holder_step = keep_last entry_holder"
  by (simp add: fun_eq_iff holder_step_def keep_last_def)

definition live_items :: "(nat \<Rightarrow> log_entry \<Rightarrow> 'a) \<Rightarrow> nat \<Rightarrow> log_entry list \<Rightarrow> (byte list \<times> 'a) list" where
  "live_items f pos es = map (\<lambda>(p, kv). (fst kv, f p kv)) (live_at pos es)"

lemma live_items_None: "k \<notin> fst ` set es \<Longrightarrow> map_of (live_items f pos es) k = None"
  using live_at_key_in [of _ pos es] by (force simp: live_items_def map_of_eq_None_iff)

lemma run_steps_keep_last:
  "run_steps enc_entry (keep_last f) pos es m k =
   (if k \<in> fst ` set es then map_of (live_items f pos es) k else m k)"
proof (induction es arbitrary: pos m)
  case (Cons kv es)
  have none: "map_of (live_items f q es) k = None" if "k \<notin> fst ` set es" for q
    using that by (rule live_items_None)
  show ?case
    using Cons none [of "pos + length (enc_entry kv)"]
    by (auto simp: keep_last_def live_items_def image_iff)
qed simp

lemma run_steps_live_items: "run_steps enc_entry (keep_last f) pos es Map.empty = map_of (live_items f pos es)"
proof
  fix k
  have "map_of (live_items f pos es) k = None" if "k \<notin> fst ` set es"
    using that by (rule live_items_None)
  then show "run_steps enc_entry (keep_last f) pos es Map.empty k = map_of (live_items f pos es) k"
    by (simp add: run_steps_keep_last)
qed

lemma live_holders_items: "live_holders pos es = live_items entry_holder pos es"
  by (simp add: live_holders_def live_items_def)

lemma run_steps_live:
  "run_steps enc_entry holder_step pos es m k =
   (if k \<in> fst ` set es then map_of (live_holders pos es) k else m k)"
  by (simp only: holder_step_keep_last live_holders_items run_steps_keep_last)

lemma dic_of_live: "dic_of pos es = map_of (live_holders pos es)"
  by (simp only: holder_step_keep_last live_holders_items run_steps_live_items)

lemma finite_dic_of: "finite (dom (dic_of pos es))"
  by (simp add: dic_of_live finite_dom_map_of)

text \<open>The log of the live entries has the same meaning.\<close>

lemma fold_log_step_live:
  "fold log_step es m k = (if k \<in> fst ` set es then map_of (live es) k else m k)"
proof (induction es arbitrary: m)
  case (Cons kv es)
  have none: "map_of (live es) k = None" if "k \<notin> fst ` set es"
    using that live_keys by (fastforce simp: map_of_eq_None_iff)
  have "live (kv # es) = (if snd kv = [] \<or> fst kv \<in> fst ` set es then live es else kv # live es)"
    using live_at_snd by (simp add: live_def)
  then show ?case
    using Cons none by (cases kv) (auto simp: log_step_def)
qed simp

lemma log_contents_live: "log_contents es = map_of (live es)"
proof
  fix k
  have "map_of (live es) k = None" if "k \<notin> fst ` set es"
    using that live_keys by (fastforce simp: map_of_eq_None_iff)
  then show "log_contents es k = map_of (live es) k"
    by (simp add: log_contents_def fold_log_step_live)
qed

lemma live_live: "live (live es) = live es"
proof -
  have "live xs = xs" if "distinct (map fst xs)" "\<forall>kv \<in> set xs. snd kv \<noteq> []" for xs :: "log_entry list"
    using that
  proof (induction xs)
    case (Cons kv xs)
    have "live (kv # xs) = (if snd kv = [] \<or> fst kv \<in> fst ` set xs then live xs else kv # live xs)"
      using live_at_snd by (simp add: live_def)
    with Cons show ?case by (auto simp: image_iff)
  qed (simp add: live_def)
  moreover have "distinct (map fst (live es))"
    using distinct_live_at [of 0 es] by (simp add: live_def comp_def)
  ultimately show ?thesis
    using live_keys by blast
qed

lemma log_contents_live_log: "log_contents (live es) = log_contents es"
  by (simp add: log_contents_live live_live)

lemma log_contents_append: "log_contents (es @ [kv]) = log_step kv (log_contents es)"
  by (simp add: log_contents_def)

section \<open>Where they are\<close>

lemma enc_entry_min:
  assumes "valid_entry kv"
  shows "3 \<le> length (enc_entry kv)"
proof -
  have "0 < length (fst kv)" using assms by (simp add: valid_entry_def)
  moreover have "0 < length (varint (length (fst kv)))" "0 < length (varint (length (snd kv)))"
    by (rule length_varint_gt_0)+
  moreover have "length (enc_entry kv) =
      length (varint (length (fst kv))) + length (fst kv) + length (varint (length (snd kv))) + length (snd kv)"
    using assms by (simp add: valid_entry_def enc_entry_def enc_data_short)
  ultimately show ?thesis by linarith
qed

text \<open>The pieces of the file that live entries occupy.\<close>

definition pieces :: "nat \<Rightarrow> log_entry list \<Rightarrow> (nat \<times> nat) list" where
  "pieces pos es = map (\<lambda>(p, kv). (p, length (enc_entry kv))) (live_at pos es)"

abbreviation chained :: "nat \<times> nat \<Rightarrow> nat \<times> nat \<Rightarrow> bool" where
  "chained a b \<equiv> fst b = fst a + snd a \<or> fst a + snd a + 3 \<le> fst b"

abbreviation separated :: "nat \<times> nat \<Rightarrow> nat \<times> nat \<Rightarrow> bool" where
  "separated a b \<equiv> fst a + snd a + 3 \<le> fst b"

lemma live_at_start:
  "\<forall>kv \<in> set es. valid_entry kv \<Longrightarrow> (p, kv) \<in> set (live_at pos es) \<Longrightarrow>
   (p = pos \<or> pos + 3 \<le> p) \<and> p + length (enc_entry kv) \<le> pos + length (enc_log es)"
proof (induction pos es rule: live_at.induct)
  case (2 pos e es)
  then have "3 \<le> length (enc_entry e)" by (simp add: enc_entry_min)
  with 2 show ?case by (force split: if_splits)
qed simp

lemma pieces_start:
  "\<forall>kv \<in> set es. valid_entry kv \<Longrightarrow> ab \<in> set (pieces pos es) \<Longrightarrow>
   (fst ab = pos \<or> pos + 3 \<le> fst ab) \<and> fst ab + snd ab \<le> pos + length (enc_log es) \<and> 3 \<le> snd ab"
  using live_at_start enc_entry_min live_at_keys by (fastforce simp: pieces_def)

lemma pieces_Cons:
  "pieces pos (kv # es) =
     (if snd kv = [] \<or> fst kv \<in> fst ` set es then pieces (pos + length (enc_entry kv)) es
      else (pos, length (enc_entry kv)) # pieces (pos + length (enc_entry kv)) es)"
  by (simp add: pieces_def)

lemma pieces_chained_wrt: "\<forall>kv \<in> set es. valid_entry kv \<Longrightarrow> sorted_wrt chained (pieces pos es)"
proof (induction es arbitrary: pos)
  case (Cons kv es)
  let ?ps = "pieces (pos + length (enc_entry kv)) es"
  have "sorted_wrt chained ?ps" using Cons by simp
  moreover have "chained (pos, length (enc_entry kv)) b" if "b \<in> set ?ps" for b
    using pieces_start [of es b "pos + length (enc_entry kv)"] Cons.prems that by auto
  ultimately show ?case by (simp add: pieces_Cons)
qed (simp add: pieces_def)

lemma pieces_chained: "\<forall>kv \<in> set es. valid_entry kv \<Longrightarrow> successively chained (pieces pos es)"
  by (intro successively_if_sorted_wrt pieces_chained_wrt)

section \<open>The dictionary in the order of the file\<close>

text \<open>Iterating a dictionary gives each of its entries once, in some order.\<close>

definition iterates :: "environment \<Rightarrow> bool" where
  "iterates E \<longleftrightarrow> (\<forall>d. finite (dom d) \<longrightarrow> distinct (map fst (iterate E d)) \<and> map_of (iterate E d) = d)"

definition in_range :: "nat \<Rightarrow> log_entry list \<Rightarrow> bool" where
  "in_range pos es \<longleftrightarrow> (\<forall>kv \<in> set es. valid_entry kv \<and> length (fst kv) < 65526) \<and>
     pos + length (enc_log es) < 2 ^ 32"

lemma in_range_valid: "in_range pos es \<Longrightarrow> \<forall>kv \<in> set es. valid_entry kv"
  by (simp add: in_range_def)

lemma in_range_entry:
  assumes "in_range pos es" and "(p, kv) \<in> set (live_at pos es)"
  shows "unat (offset (entry_holder p kv)) = p" and "unat (kv_size (entry_holder p kv)) = length (enc_entry kv)"
    and "p + length (enc_entry kv) < 2 ^ 32" and "addressable p kv" and "valid_entry kv"
proof -
  have v: "valid_entry kv" "length (fst kv) < 65526" and b: "p + length (enc_entry kv) < 2 ^ 32"
    using assms live_at_keys [OF assms(2)] live_at_start [of es p kv pos] by (auto simp: in_range_def)
  show "valid_entry kv" "p + length (enc_entry kv) < 2 ^ 32" by fact+
  show "unat (offset (entry_holder p kv)) = p"
    using b unat_word_of_nat_u32 [of p] by (simp add: entry_holder_def)
  have len: "length (enc_entry kv) = length (enc_data (fst kv)) + length (varint (length (snd kv))) + length (snd kv)"
    using v by (simp add: enc_entry_def enc_data_short valid_entry_def)
  have small: "length (enc_data (fst kv)) + length (varint (length (snd kv))) < 2 ^ 16"
    using v length_varint_short [of "snd kv"] length_enc_data_le [of "fst kv"] by (simp add: valid_entry_def)
  with b len show "addressable p kv" by (simp add: addressable_def)
  have "(ucast (word_of_nat n :: u16) :: u32) = word_of_nat n" if "n < 2 ^ 16" for n
    using that by (metis unat_word_of_nat_u16 of_nat_unat)
  from this [OF small] have "kv_size (entry_holder p kv) = word_of_nat (length (enc_entry kv))"
    by (simp add: kv_size_def entry_holder_def len)
  then show "unat (kv_size (entry_holder p kv)) = length (enc_entry kv)"
    using b unat_word_of_nat_u32 [of "length (enc_entry kv)"] by simp
qed

lemma set_iterate:
  assumes "iterates E" and "finite (dom d)"
  shows "set (iterate E d) = {(k, h). d k = Some h}"
  using assms by (auto simp: iterates_def) (metis map_of_eq_Some_iff)+

lemma live_at_sorted: "\<forall>kv \<in> set es. valid_entry kv \<Longrightarrow> sorted_wrt (<) (map fst (live_at pos es))"
proof (induction es arbitrary: pos)
  case (Cons kv es)
  let ?q = "pos + length (enc_entry kv)"
  have "3 \<le> length (enc_entry kv)" using Cons.prems by (simp add: enc_entry_min)
  then have "\<forall>pkv \<in> set (live_at ?q es). pos < fst pkv"
    using live_at_start [of es _ _ ?q] Cons.prems by fastforce
  then show ?case using Cons.IH [of ?q] Cons.prems by simp
qed simp

lemma sort_live:
  assumes "iterates E" and "in_range pos es"
  shows "sort_by_offset (iterate E (dic_of pos es)) = live_holders pos es"
proof -
  let ?f = "\<lambda>itr :: byte list \<times> KeyValueHolder. unat (offset (snd itr))" and ?xs = "iterate E (dic_of pos es)"
  have set: "set ?xs = set (live_holders pos es)"
    using set_iterate [OF assms(1) finite_dic_of] distinct_live_holders [of pos es]
    by (auto simp: dic_of_live)
  have f: "map ?f (live_holders pos es) = map fst (live_at pos es)"
    using in_range_entry(1) [OF assms(2)] by (auto simp: live_holders_def)
  have sorted: "sorted_wrt (<) (map ?f (live_holders pos es))"
    unfolding f by (rule live_at_sorted [OF in_range_valid [OF assms(2)]])
  then have d: "distinct (map ?f (live_holders pos es))" "sorted (map ?f (live_holders pos es))"
    by (simp_all add: strict_sorted_iff)
  have "inj_on ?f (set ?xs)" using d(1) by (simp only: set distinct_map)
  moreover have "distinct ?xs"
    using assms(1) finite_dic_of [of pos es] distinct_map [of fst ?xs] unfolding iterates_def by blast
  ultimately have "distinct (map ?f (sort_key ?f ?xs))" by (simp add: distinct_map)
  then show ?thesis
    unfolding sort_by_offset_def using d set
    by (intro map_sorted_distinct_set_unique [where f = ?f]) (simp_all add: distinct_map)
qed

lemma iterate_empty: "iterates E \<Longrightarrow> finite (dom d) \<Longrightarrow> iterate E d = [] \<longleftrightarrow> d = Map.empty"
  using map_of_eq_empty_iff by (auto simp: iterates_def)

lemma sum_list_live:
  assumes "iterates E" and "in_range pos es"
  shows "prepareEncode E (dic_of pos es) = 4 + length (enc_log (live es))"
proof -
  let ?g = "\<lambda>itr :: byte list \<times> KeyValueHolder. unat (kv_size (snd itr))"
  have "mset (sort_by_offset (iterate E (dic_of pos es))) = mset (iterate E (dic_of pos es))"
    by (simp add: sort_by_offset_def)
  then have "mset (iterate E (dic_of pos es)) = mset (live_holders pos es)"
    by (simp only: sort_live [OF assms])
  then have "sum_list (map ?g (iterate E (dic_of pos es))) = sum_list (map ?g (live_holders pos es))"
    by (simp only: sum_mset_sum_list [symmetric] mset_map)
  also have "map ?g (live_holders pos es) = map (\<lambda>pkv. length (enc_entry (snd pkv))) (live_at pos es)"
    using in_range_entry(2) [OF assms(2)] by (auto simp: live_holders_def)
  also have "sum_list \<dots> = length (enc_log (live es))"
    unfolding live_at_snd [of pos es, symmetric] by (simp add: enc_log_def enc_list_def length_concat comp_def)
  finally show ?thesis by (simp add: prepareEncode_def ItemSizeHolderSize_def)
qed


section \<open>Merged sections\<close>

text \<open>The merging of sections on natural numbers, and what reading the sections gives.\<close>

definition merge_piece :: "(nat \<times> nat) list \<Rightarrow> nat \<times> nat \<Rightarrow> (nat \<times> nat) list" where
  "merge_piece secs p =
     (if fst p = fst (last secs) + snd (last secs)
      then butlast secs @ [(fst (last secs), snd (last secs) + snd p)] else secs @ [p])"

definition reads_of :: "byte list \<Rightarrow> (nat \<times> nat) list \<Rightarrow> byte list" where
  "reads_of m secs = concat (map (\<lambda>(s, n). mem_read m s n) secs)"

lemma reads_of_simps [simp]:
  "reads_of m [] = []" "reads_of m (p # ps) = mem_read m (fst p) (snd p) @ reads_of m ps"
  "reads_of m (ps @ qs) = reads_of m ps @ reads_of m qs"
  by (simp_all add: reads_of_def split_def)

lemma reads_of_merge: "secs \<noteq> [] \<Longrightarrow> reads_of m (merge_piece secs p) = reads_of m secs @ mem_read m (fst p) (snd p)"
  by (cases secs rule: rev_cases) (simp_all add: merge_piece_def mem_read_add)

lemma merge_piece_not_Nil [simp]: "merge_piece secs p \<noteq> []"
  by (simp add: merge_piece_def)

abbreviation merged :: "nat \<times> nat \<Rightarrow> (nat \<times> nat) list \<Rightarrow> (nat \<times> nat) list" where
  "merged p ps \<equiv> foldl merge_piece [p] ps"

lemma merged_not_Nil [simp]: "merged p ps \<noteq> []"
  by (induction ps rule: rev_induct) simp_all

lemma reads_of_merged: "reads_of m (merged p ps) = mem_read m (fst p) (snd p) @ reads_of m ps"
  by (induction ps rule: rev_induct) (simp_all add: reads_of_merge)

lemma sum_merged: "sum_list (map snd (merged p ps)) = snd p + sum_list (map snd ps)"
proof (induction ps rule: rev_induct)
  case (snoc q ps)
  have "sum_list (map snd (merge_piece secs q)) = sum_list (map snd secs) + snd q" if "secs \<noteq> []" for secs
    using that by (cases secs rule: rev_cases) (simp_all add: merge_piece_def)
  with snoc show ?case by simp
qed simp

lemma fst_hd_merged: "fst (hd (merged p ps)) = fst p"
proof (induction ps rule: rev_induct)
  case (snoc q ps)
  have "fst (hd (merge_piece secs q)) = fst (hd secs)" if "secs \<noteq> []" for secs
    using that by (cases secs rule: rev_cases; cases "butlast secs") (simp_all add: merge_piece_def hd_append)
  with snoc show ?case by simp
qed simp

text \<open>Merging chained pieces gives separated sections.\<close>

lemma merged_separated:
  "successively chained (p # ps) \<Longrightarrow>
   successively separated (merged p ps) \<and>
   fst (last (merged p ps)) + snd (last (merged p ps)) = fst (last (p # ps)) + snd (last (p # ps))"
proof (induction ps rule: rev_induct)
  case (snoc q ps)
  obtain secs where secs: "secs = merged p ps" by blast
  have ch: "successively chained (p # ps)" "chained (last (p # ps)) q"
    using snoc.prems by (simp_all add: successively_append_iff flip: append_Cons)
  have ih: "successively separated secs" "fst (last secs) + snd (last secs) = fst (last (p # ps)) + snd (last (p # ps))" "secs \<noteq> []"
    using snoc.IH [OF ch(1)] by (simp_all add: secs)
  have "successively separated (merge_piece secs q) \<and>
    fst (last (merge_piece secs q)) + snd (last (merge_piece secs q)) = fst q + snd q"
    using ih ch(2) by (cases secs rule: rev_cases) (auto simp: merge_piece_def successively_append_iff)
  then show ?case by (simp add: secs)
qed simp

lemma separated_sorted: "successively separated secs \<Longrightarrow> sorted_wrt separated secs"
proof (induction secs)
  case (Cons a secs)
  then have ih: "sorted_wrt separated secs" by (auto simp: successively_Cons)
  moreover have "separated a b" if "b \<in> set secs" for b
  proof (cases secs)
    case (Cons c cs)
    then have "separated a c" using Cons.prems by simp
    moreover have "b = c \<or> separated c b" using ih that Cons by auto
    ultimately show ?thesis by auto
  qed (use that in simp)
  ultimately show ?case by simp
qed simp

section \<open>Moving sections to the front\<close>

fun moved :: "nat \<Rightarrow> (nat \<times> nat) list \<Rightarrow> byte list \<Rightarrow> byte list" where
  "moved w [] m = m"
| "moved w (p # ps) m = moved (w + snd p) ps (mem_write m w (mem_read m (fst p) (snd p)))"

abbreviation inside :: "byte list \<Rightarrow> (nat \<times> nat) list \<Rightarrow> bool" where
  "inside m secs \<equiv> \<forall>p \<in> set secs. fst p + snd p \<le> length m"

lemma length_moved:
  "inside m secs \<Longrightarrow> w + sum_list (map snd secs) \<le> length m \<Longrightarrow> length (moved w secs m) = length m"
  by (induction secs arbitrary: w m) simp_all

lemma moved_below:
  "inside m secs \<Longrightarrow> w + sum_list (map snd secs) \<le> length m \<Longrightarrow> b + n \<le> w \<Longrightarrow>
   mem_read (moved w secs m) b n = mem_read m b n"
proof (induction secs arbitrary: w m)
  case (Cons p secs)
  then show ?case by (simp add: mem_read_mem_write_disjoint)
qed simp

lemma reads_of_write:
  assumes "a + length bs \<le> length m" and "\<forall>p \<in> set secs. a + length bs \<le> fst p" and "inside m secs"
  shows "reads_of (mem_write m a bs) secs = reads_of m secs"
  using assms(2,3)
proof (induction secs)
  case (Cons p secs)
  then show ?case using assms(1) by (simp add: mem_read_mem_write_disjoint)
qed simp

lemma moved_reads:
  assumes "sorted_wrt separated secs" and "secs \<noteq> [] \<Longrightarrow> w \<le> fst (hd secs) + 3" and "inside m secs"
    and "w + sum_list (map snd secs) \<le> length m"
  shows "mem_read (moved w secs m) w (sum_list (map snd secs)) = reads_of m secs"
  using assms
proof (induction secs arbitrary: w m)
  case (Cons p secs)
  let ?m = "mem_write m w (mem_read m (fst p) (snd p))"
  have len: "length (mem_read m (fst p) (snd p)) = snd p" using Cons.prems by simp
  then have m: "length ?m = length m" using Cons.prems(4) by simp
  have later: "\<forall>q \<in> set secs. w + snd p \<le> fst q" using Cons.prems(1,2) by fastforce
  have 1: "mem_read (moved (w + snd p) secs ?m) w (snd p) = mem_read m (fst p) (snd p)"
    using Cons.prems(3,4) m len by (simp add: moved_below)
  have "mem_read (moved (w + snd p) secs ?m) (w + snd p) (sum_list (map snd secs)) = reads_of ?m secs"
    using Cons.prems m later by (intro Cons.IH) (auto dest!: bspec [OF _ hd_in_set] simp: trans_le_add1)
  also have "\<dots> = reads_of m secs"
    using Cons.prems later len by (intro reads_of_write) auto
  finally show ?case
    using 1 by (simp add: mem_read_add)
qed simp

section \<open>The merged sections and the new offsets of the code\<close>

abbreviation piece_of :: "KeyValueHolder \<Rightarrow> nat \<times> nat" where
  "piece_of h \<equiv> (unat (offset h), unat (kv_size h))"

lemma unat_add_u32: "unat a + unat b < 2 ^ 32 \<Longrightarrow> unat (a + b) = unat a + unat (b :: u32)"
  by (simp add: unat_word_ariths(1))

lemma word_of_nat_unat: "unat (w :: u32) = n \<Longrightarrow> w = word_of_nat n"
  by auto

text \<open>The merging of the code, on pairs of an offset and a size.\<close>

definition merge_pair :: "(u32 \<times> u32) list \<Rightarrow> u32 \<times> u32 \<Rightarrow> (u32 \<times> u32) list" where
  "merge_pair secs p =
     (let l = last secs
      in if fst p = fst l + snd l then butlast secs @ [(fst l, snd l + snd p)] else secs @ [p])"

lemma merge_section_pair: "merge_section secs h = merge_pair secs (offset h, kv_size h)"
  by (simp add: merge_section_def merge_pair_def Let_def)

abbreviation nats :: "u32 \<times> u32 \<Rightarrow> nat \<times> nat" where
  "nats \<equiv> map_prod unat unat"

lemma merge_pair_piece:
  assumes "secs \<noteq> []" and "unat (fst (last secs)) + unat (snd (last secs)) < 2 ^ 32"
    and "unat (fst p) + unat (snd p) < 2 ^ 32"
  shows "map nats (merge_pair secs p) = merge_piece (map nats secs) (nats p)"
proof -
  obtain b l where secs: "secs = b @ [l]" using assms(1) by (cases secs rule: rev_cases) auto
  have add: "unat (fst l + snd l) = unat (fst l) + unat (snd l)"
    using assms(2) unat_add_u32 [of "fst l" "snd l"] by (simp add: secs)
  have "fst p = fst l + snd l \<longleftrightarrow> unat (fst p) = unat (fst l) + unat (snd l)"
    by (metis add word_unat_eq_iff)
  moreover have "unat (snd l + snd p) = unat (snd l) + unat (snd p)" if "fst p = fst l + snd l"
    using assms(3) add that unat_add_u32 [of "snd l" "snd p"] by simp
  ultimately show ?thesis
    by (cases l; cases p) (auto simp: merge_pair_def merge_piece_def secs Let_def)
qed

lemma pairs_pieces:
  assumes "\<forall>p \<in> set (p0 # ps). unat (fst p) + unat (snd p) < 2 ^ 32"
  shows "map nats (foldl merge_pair [p0] ps) = merged (nats p0) (map nats ps) \<and>
    fst (last (merged (nats p0) (map nats ps))) + snd (last (merged (nats p0) (map nats ps))) < 2 ^ 32"
  using assms
proof (induction ps rule: rev_induct)
  case (snoc h hs)
  obtain secs where secs: "secs = foldl merge_pair [p0] hs" by blast
  obtain ps where ps: "ps = merged (nats p0) (map nats hs)" by blast
  have ih: "map nats secs = ps" "fst (last ps) + snd (last ps) < 2 ^ 32" "ps \<noteq> []"
    using snoc by (simp_all add: secs ps)
  then have ne: "secs \<noteq> []" by auto
  then have last: "last ps = nats (last secs)" unfolding ih(1) [symmetric] by (rule last_map)
  have "map nats (merge_pair secs h) = merge_piece ps (nats h)"
    using merge_pair_piece [of secs h] ih ne last snoc.prems by (simp add: map_prod_def split_def)
  moreover have "fst (last (merge_piece ps (nats h))) + snd (last (merge_piece ps (nats h))) < 2 ^ 32"
    using snoc.prems by (simp add: merge_piece_def)
  ultimately show ?case by (simp add: secs ps)
qed simp

lemma foldl_merge_section: "foldl merge_section secs hs = foldl merge_pair secs (map (\<lambda>h. (offset h, kv_size h)) hs)"
  by (induction hs arbitrary: secs) (simp_all add: merge_section_pair)

lemma sections_pieces:
  assumes "\<forall>h \<in> set (h0 # hs). unat (offset h) + unat (kv_size h) < 2 ^ 32"
  shows "map (map_prod unat unat) (foldl merge_section [(offset h0, kv_size h0)] hs) = merged (piece_of h0) (map piece_of hs)"
  using pairs_pieces [of "(offset h0, kv_size h0)" "map (\<lambda>h. (offset h, kv_size h)) hs"] assms
  by (simp add: foldl_merge_section comp_def)

lemma map_piece_of_live:
  "in_range pos es \<Longrightarrow> map piece_of (map snd (live_holders pos es)) = pieces pos es"
  using in_range_entry(1,2) by (auto simp: live_holders_def pieces_def)

lemma dataSections_live:
  assumes "in_range pos es" and "pieces pos es = p # ps"
  shows "map (map_prod unat unat) (dataSections (map snd (live_holders pos es))) = merged p ps"
proof -
  obtain h hs where h: "map snd (live_holders pos es) = h # hs"
    using assms map_piece_of_live [OF assms(1)] by (cases "map snd (live_holders pos es)") auto
  have "\<forall>h \<in> set (h # hs). unat (offset h) + unat (kv_size h) < 2 ^ 32"
  proof
    fix h' assume "h' \<in> set (h # hs)"
    then obtain q kv where q: "(q, kv) \<in> set (live_at pos es)" "h' = entry_holder q kv"
      unfolding h [symmetric] by (auto simp: live_holders_def)
    then show "unat (offset h') + unat (kv_size h') < 2 ^ 32"
      using in_range_entry(1-3) [OF assms(1) q(1)] by simp
  qed
  moreover have "piece_of h = p" "map piece_of hs = ps"
    using map_piece_of_live [OF assms(1)] assms(2) h by auto
  ultimately show ?thesis
    using sections_pieces [of h hs] by (simp add: dataSections_def h)
qed

lemma update_offsets_steps:
  assumes "\<forall>(p, kv) \<in> set ps. snd kv \<noteq> [] \<and> kv_size (entry_holder p kv) = word_of_nat (length (enc_entry kv))"
  shows "update_offsets (word_of_nat q) (map (\<lambda>(p, kv). (fst kv, entry_holder p kv)) ps) d =
    run_steps enc_entry holder_step q (map snd ps) d"
  using assms
proof (induction ps arbitrary: q d)
  case (Cons pkv ps)
  obtain p kv where pkv: "pkv = (p, kv)" by (cases pkv)
  have "(entry_holder p kv)\<lparr>offset := word_of_nat q\<rparr> = entry_holder q kv" by (simp add: entry_holder_def)
  moreover have "holder_step q kv d = d(fst kv \<mapsto> entry_holder q kv)"
    using Cons.prems by (simp add: pkv holder_step_def)
  ultimately show ?case
    using Cons.IH [of "q + length (enc_entry kv)"] Cons.prems by (simp add: pkv)
qed simp

lemma update_offsets_live:
  assumes "in_range pos es"
  shows "update_offsets (word_of_nat q) (live_holders pos es) (dic_of pos es) = dic_of q (live es)"
proof -
  have "kv_size (entry_holder p kv) = word_of_nat (length (enc_entry kv))" if "(p, kv) \<in> set (live_at pos es)" for p kv
    using in_range_entry(2) [OF assms that] by (rule word_of_nat_unat)
  then have "update_offsets (word_of_nat q) (live_holders pos es) (dic_of pos es) =
      run_steps enc_entry holder_step q (map snd (live_at pos es)) (dic_of pos es)"
    unfolding live_holders_def using live_at_keys by (intro update_offsets_steps) fastforce
  also have "\<dots> = dic_of q (live es)"
  proof
    fix k
    have "dic_of pos es k = None" if "k \<notin> fst ` set (live es)"
    proof -
      have "k \<notin> fst ` set (live_holders pos es)"
        using that unfolding live_at_snd [of pos es, symmetric] by (force simp: live_holders_def)
      then show ?thesis by (simp add: dic_of_live map_of_eq_None_iff)
    qed
    then show "run_steps enc_entry holder_step q (map snd (live_at pos es)) (dic_of pos es) k = dic_of q (live es) k"
      unfolding live_at_snd by (simp add: run_steps_live)
  qed
  finally show ?thesis .
qed

end
