(* ===== verification/MMKV_Rewrite.thy ===== *)
theory MMKV_Rewrite
  imports LiveLog
begin

text \<open>
  The full write-back of a plain store: what \<open>memmoveDictionary\<close>, \<open>doFullWriteBack\<close>,
  \<open>expandAndWriteBack\<close> and \<open>ensureMemorySize\<close> do to a store whose file holds a header and a log.
\<close>

unbundle bit_operations_syntax

section \<open>Writing through the output\<close>

text \<open>Replacing the content of the file and the writer.\<close>

definition set_mem :: "byte list \<Rightarrow> coded_output \<Rightarrow> MMKV \<Rightarrow> MMKV" where
  "set_mem d out s = s\<lparr>m_output := Some out, m_file := (m_file s)\<lparr>f_disk := d\<rparr>\<rparr>"

lemma set_mem_sel [simp]:
  "m_output (set_mem d out s) = Some out"
  "m_file (set_mem d out s) = (m_file s)\<lparr>f_disk := d\<rparr>"
  "m_metaFile (set_mem d out s) = m_metaFile s"
  "m_metaInfo (set_mem d out s) = m_metaInfo s"
  "m_dic (set_mem d out s) = m_dic s"
  "m_actualSize (set_mem d out s) = m_actualSize s"
  "m_crcDigest (set_mem d out s) = m_crcDigest s"
  "m_needLoadFromFile (set_mem d out s) = m_needLoadFromFile s"
  "m_hasFullWriteback (set_mem d out s) = m_hasFullWriteback s"
  "m_enableKeyExpire (set_mem d out s) = m_enableKeyExpire s"
  "m_multiProcess (set_mem d out s) = m_multiProcess s"
  "m_readOnly (set_mem d out s) = m_readOnly s"
  "m_itemSizeLimit (set_mem d out s) = m_itemSizeLimit s"
  "m_expectedCapacity (set_mem d out s) = m_expectedCapacity s"
  "m_enableCompareBeforeSet (set_mem d out s) = m_enableCompareBeforeSet s"
  "m_isSecondLoad (set_mem d out s) = m_isSecondLoad s"
  "set_mem d' out' (set_mem d out s) = set_mem d' out' s"
  by (simp_all add: set_mem_def)

text \<open>The file is mapped for writing and the writer stands at position \<open>n\<close> of it.\<close>

definition writable :: "nat \<Rightarrow> MMKV \<Rightarrow> bool" where
  "writable n s \<longleftrightarrow> f_ptr (m_file s) \<and> \<not> f_readOnly (m_file s) \<and> f_size (m_file s) \<le> length (f_disk (m_file s)) \<and>
     (\<exists>out. m_output s = Some out \<and> out_ptr out = 4 \<and> out_size out + 4 = f_size (m_file s) \<and> out_position out = n)"

lemma writableE:
  assumes "writable n s"
  obtains out where "m_output s = Some out" and "out_ptr out = 4" and "out_size out + 4 = f_size (m_file s)"
    and "out_position out = n" and "f_ptr (m_file s)" and "\<not> f_readOnly (m_file s)"
    and "f_size (m_file s) \<le> length (f_disk (m_file s))"
  using assms by (auto simp: writable_def)

lemma mem_write_take:
  assumes "a + length bs \<le> n" and "n \<le> length m"
  shows "mem_write m 0 (mem_write (take n m) a bs) = mem_write m a bs"
proof -
  have "mem_write m a bs = take n (mem_write m a bs) @ drop n (mem_write m a bs)" by simp
  also have "take n (mem_write m a bs) = mem_write (take n m) a bs"
    using assms by (cases "n = a") (auto simp: mem_write_def take_append drop_take min_def)
  also have "drop n (mem_write m a bs) = drop n m"
    using assms by (simp add: mem_write_def)
  finally show ?thesis using assms by (simp add: mem_write_def)
qed

text \<open>A writer operation that writes some bytes: the general form of its effect on the store.\<close>

definition writes_bytes :: "(coded_output, unit) cpp \<Rightarrow> byte list \<Rightarrow> bool" where
  "writes_bytes op bs \<longleftrightarrow> (\<forall>s. out_wf s \<and> fits s (length bs) \<longrightarrow> op s = (Inr (), put_bytes bs s))"

lemma with_output_writes:
  assumes "writable n s" and "writes_bytes op bs" and "4 + n + length bs \<le> f_size (m_file s)"
  shows "\<exists>out. with_output op s = (Inr (), set_mem (mem_write (f_disk (m_file s)) (4 + n) bs) out s) \<and>
    writable (n + length bs) (set_mem (mem_write (f_disk (m_file s)) (4 + n) bs) out s)"
proof -
  from assms(1) obtain out where out: "m_output s = Some out" "out_ptr out = 4" "out_size out + 4 = f_size (m_file s)"
    "out_position out = n" "f_ptr (m_file s)" "\<not> f_readOnly (m_file s)" "f_size (m_file s) \<le> length (f_disk (m_file s))"
    by (rule writableE)
  let ?o = "out\<lparr>out_mem := f_memory (m_file s)\<rparr>"
  have "out_wf ?o" "fits ?o (length bs)"
    using out assms(3) by (simp_all add: out_wf_def fits_def f_memory_def)
  then have op: "op ?o = (Inr (), put_bytes bs ?o)" using assms(2) by (simp add: writes_bytes_def)
  have "out_mem (put_bytes bs ?o) = mem_write (take (f_size (m_file s)) (f_disk (m_file s))) (4 + n) bs"
    using out by (simp add: curWritePointer_def f_memory_def)
  then have "with_output op s = (Inr (), set_mem (mem_write (f_disk (m_file s)) (4 + n) bs) (put_bytes bs ?o) s)"
    using out assms(3) op mem_write_take [of "4 + n" bs "f_size (m_file s)" "f_disk (m_file s)"]
    by (simp add: with_output_def set_mem_def)
  moreover have "writable (n + length bs) (set_mem (mem_write (f_disk (m_file s)) (4 + n) bs) (put_bytes bs ?o) s)"
    using out assms(3) by (simp add: writable_def)
  ultimately show ?thesis by blast
qed

lemma writes_bytes_write: "writes_bytes (write_bytes bs) bs"
  by (simp add: writes_bytes_def write_bytes_fits)

lemma writes_bytes_ops:
  "writes_bytes (writeUInt32 w) (varint (unat w))"
  "writes_bytes (writeRawVarint32 v) (varint (unat v))"
  "writes_bytes (writeRawData d) d"
  "writes_bytes (writeData d) (enc_data d)"
  using writes_bytes_write [of "varint (unat w)"] writes_bytes_write [of "varint (unat v)"]
  by (simp_all add: write_eqs enc_uint32_def) (simp_all add: writes_bytes_def writeRawData_fits writeData_fits)

section \<open>Moving the dictionary\<close>

text \<open>The bytes the placeholder of the size takes.\<close>

definition holder_bytes :: "environment \<Rightarrow> byte list" where
  "holder_bytes E = varint (unat (randomItemSizeHolder (rand_value E) ItemSizeHolderSize))"

lemma length_holder_bytes [simp]: "length (holder_bytes E) = 4"
  using randomItemSizeHolder_size [of 4 "rand_value E"]
  by (simp add: holder_bytes_def ItemSizeHolderSize_def unat_pbRawVarint32Size)

lemma memmove_run:
  assumes "f_ptr (m_file s)" and "\<not> f_readOnly (m_file s)" and "f_size (m_file s) \<le> length (f_disk (m_file s))"
    and "src + n \<le> f_size (m_file s)" and "dst + n \<le> f_size (m_file s)"
  shows "memmove dst src n s =
    (Inr (), s\<lparr>m_file := (m_file s)\<lparr>f_disk := mem_write (f_disk (m_file s)) dst (mem_read (f_disk (m_file s)) src n)\<rparr>\<rparr>)"
  using assms by (simp add: memmove_def memory_read_def memory_write_def bindC_def)

abbreviation set_disk :: "byte list \<Rightarrow> MMKV \<Rightarrow> MMKV" where
  "set_disk d s \<equiv> s\<lparr>m_file := (m_file s)\<lparr>f_disk := d\<rparr>\<rparr>"

abbreviation in_file :: "u32 \<times> u32 \<Rightarrow> nat \<times> nat" where
  "in_file sec \<equiv> (4 + unat (fst sec), unat (snd sec))"

lemma move_sections_run:
  assumes "f_ptr (m_file s)" and "\<not> f_readOnly (m_file s)" and "f_size (m_file s) \<le> length (f_disk (m_file s))"
    and "\<forall>sec \<in> set secs. 4 + unat (fst sec) + unat (snd sec) \<le> f_size (m_file s)"
    and "w + sum_list (map (unat \<circ> snd) secs) \<le> f_size (m_file s)"
  shows "move_sections w secs s =
    (Inr (w + sum_list (map (unat \<circ> snd) secs)), set_disk (moved w (map in_file secs) (f_disk (m_file s))) s)"
  using assms
proof (induction secs arbitrary: w s)
  case (Cons sec secs)
  let ?d = "f_disk (m_file s)" and ?n = "unat (snd sec)"
  let ?d' = "mem_write ?d w (mem_read ?d (4 + unat (fst sec)) ?n)"
  have mv: "memmove w (4 + unat (fst sec)) ?n s = (Inr (), set_disk ?d' s)"
    using Cons.prems by (intro memmove_run) simp_all
  have "length ?d' = length ?d" using Cons.prems by simp
  then have "move_sections (w + ?n) secs (set_disk ?d' s) =
      (Inr (w + ?n + sum_list (map (unat \<circ> snd) secs)), set_disk (moved (w + ?n) (map in_file secs) ?d') s)"
    using Cons.prems by (subst Cons.IH) (simp_all add: comp_def)
  then show ?case using mv by (simp add: bindC_Inr comp_def)
qed (simp add: returnC_def)

lemma reads_of_pieces:
  "mem_read m pos (length (enc_log es)) = enc_log es \<Longrightarrow> reads_of m (pieces pos es) = enc_log (live es)"
proof (induction es arbitrary: pos)
  case (Cons kv es)
  let ?n = "length (enc_entry kv)"
  have split: "mem_read m pos ?n @ mem_read m (pos + ?n) (length (enc_log es)) = enc_entry kv @ enc_log es"
    using Cons.prems by (simp add: mem_read_add)
  have "length (mem_read m pos ?n) = ?n"
    using arg_cong [OF Cons.prems, of length] by (simp add: mem_read_def)
  with split have "mem_read m pos ?n = enc_entry kv" "mem_read m (pos + ?n) (length (enc_log es)) = enc_log es"
    by simp_all
  moreover have "live (kv # es) = (if snd kv = [] \<or> fst kv \<in> fst ` set es then live es else kv # live es)"
    using live_at_snd by (simp add: live_def)
  ultimately show ?case
    using Cons.IH by (simp add: pieces_Cons)
qed (simp add: pieces_def live_def)

lemma sum_pieces: "sum_list (map snd (pieces pos es)) = length (enc_log (live es))"
  unfolding live_at_snd [of pos es, symmetric]
  by (simp add: pieces_def enc_log_def enc_list_def length_concat comp_def split_def)

lemma reads_of_drop: "reads_of (drop b m) secs = reads_of m (map (\<lambda>p. (b + fst p, snd p)) secs)"
  by (induction secs) (simp_all add: mem_read_def add.commute)

text \<open>The moves of the code, on a file that holds a log behind a header of at least one byte.\<close>

lemma live_sections_moved:
  assumes "f_ptr (m_file s)" and "\<not> f_readOnly (m_file s)" and "f_size (m_file s) \<le> length (f_disk (m_file s))"
    and "in_range pos es" and "1 \<le> pos" and "live_holders pos es \<noteq> []"
    and log: "mem_read (f_disk (m_file s)) (4 + pos) (length (enc_log es)) = enc_log es"
    and bound: "4 + pos + length (enc_log es) \<le> f_size (m_file s)" and room: "8 + length (enc_log (live es)) \<le> f_size (m_file s)"
  shows "\<exists>d. move_sections 8 (dataSections (map snd (live_holders pos es))) s =
      (Inr (8 + length (enc_log (live es))), set_disk d s) \<and> length d = length (f_disk (m_file s)) \<and>
    mem_read d 8 (length (enc_log (live es))) = enc_log (live es) \<and> mem_read d 0 4 = mem_read (f_disk (m_file s)) 0 4"
proof -
  let ?d = "f_disk (m_file s)" and ?secs = "dataSections (map snd (live_holders pos es))" and ?n = "length (enc_log (live es))"
  have valid: "\<forall>kv \<in> set es. valid_entry kv" by (rule in_range_valid [OF assms(4)])
  have "pieces pos es \<noteq> []" using assms(6) by (simp add: live_holders_def pieces_def)
  then obtain p ps where ps: "pieces pos es = p # ps" by (cases "pieces pos es") auto
  have secs: "map (map_prod unat unat) ?secs = merged p ps"
    by (rule dataSections_live [OF assms(4) ps])
  have all: "map in_file ?secs = map (\<lambda>p. (4 + fst p, snd p)) (merged p ps)"
    unfolding secs [symmetric] by simp
  have sums: "sum_list (map (unat \<circ> snd) ?secs) = ?n"
  proof -
    have "map (unat \<circ> snd) ?secs = map snd (merged p ps)" unfolding secs [symmetric] by simp
    then show ?thesis using sum_merged [of p ps] sum_pieces [of pos es] by (simp add: ps)
  qed
  have sums': "sum_list (map snd (map in_file ?secs)) = ?n"
    using sums by (simp add: comp_def)
  have chain: "successively separated (merged p ps)"
    using merged_separated [of p ps] pieces_chained [OF valid, of pos] by (simp add: ps)
  have ends: "fst q + snd q \<le> pos + length (enc_log es)" if "q \<in> set (merged p ps)" for q
  proof -
    obtain l where l: "l = last (merged p ps)" by blast
    have "last (p # ps) \<in> set (pieces pos es)" unfolding ps by (rule last_in_set) simp
    then have "fst l + snd l \<le> pos + length (enc_log es)"
      using merged_separated [of p ps] pieces_chained [OF valid, of pos] pieces_start [OF valid, of "last (p # ps)" pos]
      by (simp add: ps l del: last.simps)
    moreover have "q = l \<or> fst q + snd q + 3 \<le> fst l"
    proof -
      obtain b where b: "merged p ps = b @ [l]"
        using append_butlast_last_id [OF merged_not_Nil, of p ps] unfolding l by metis
      have "sorted_wrt separated (b @ [l])" using separated_sorted [OF chain] unfolding b .
      moreover have "q \<in> set b \<or> q = l" using that unfolding b by auto
      ultimately show ?thesis by (auto simp: sorted_wrt_append)
    qed
    ultimately show ?thesis by auto
  qed
  have in_bounds: "\<forall>sec \<in> set ?secs. 4 + unat (fst sec) + unat (snd sec) \<le> f_size (m_file s)"
  proof
    fix sec assume "sec \<in> set ?secs"
    then have "map_prod unat unat sec \<in> set (merged p ps)" unfolding secs [symmetric] by simp
    from ends [OF this] show "4 + unat (fst sec) + unat (snd sec) \<le> f_size (m_file s)" using bound by simp
  qed
  have inside: "\<forall>q \<in> set (map in_file ?secs). fst q + snd q \<le> length ?d"
    using in_bounds assms(3) by fastforce
  have fits: "8 + sum_list (map snd (map in_file ?secs)) \<le> length ?d"
    using sums' room assms(3) by simp
  let ?d' = "moved 8 (map in_file ?secs) ?d"
  have "move_sections 8 ?secs s = (Inr (8 + ?n), set_disk ?d' s)"
    using move_sections_run [OF assms(1-3) in_bounds, of 8] sums room by simp
  moreover have "length ?d' = length ?d" by (rule length_moved [OF inside fits])
  moreover have "mem_read ?d' 0 4 = mem_read ?d 0 4" by (rule moved_below [OF inside fits]) simp
  moreover have "mem_read ?d' 8 ?n = enc_log (live es)"
  proof -
    have "sorted_wrt separated (map in_file ?secs)"
      unfolding all sorted_wrt_map by (rule sorted_wrt_mono_rel [OF _ separated_sorted [OF chain]]) simp
    moreover have "8 \<le> fst (hd (map in_file ?secs)) + 3"
      using fst_hd_merged [of p ps] pieces_start [OF valid, of p pos] assms(5) by (auto simp: all hd_map ps)
    ultimately have "mem_read ?d' 8 (sum_list (map snd (map in_file ?secs))) = reads_of ?d (map in_file ?secs)"
      using inside fits by (intro moved_reads) simp_all
    also have "reads_of ?d (map in_file ?secs) = reads_of (drop 4 ?d) (merged p ps)"
      by (simp add: all reads_of_drop)
    also have "\<dots> = reads_of (drop 4 ?d) (pieces pos es)"
      by (simp add: reads_of_merged ps)
    also have "\<dots> = enc_log (live es)"
      using log by (intro reads_of_pieces) (simp add: mem_read_def add.commute)
    finally show ?thesis by (simp only: sums')
  qed
  ultimately show ?thesis by blast
qed


lemma memmoveDictionary_run:
  assumes "iterates E" and w: "writable 0 s" and dic: "m_dic s = dic_of pos es" and "in_range pos es" and "1 \<le> pos"
    and log: "mem_read (f_disk (m_file s)) (4 + pos) (length (enc_log es)) = enc_log es"
    and bound: "4 + pos + length (enc_log es) \<le> f_size (m_file s)" and room: "8 + length (enc_log (live es)) \<le> f_size (m_file s)"
  shows "\<exists>d out. memmoveDictionary E (4 + length (enc_log (live es))) s =
      (Inr (), (set_mem d out s)\<lparr>m_dic := dic_of 4 (live es)\<rparr>) \<and>
    writable (4 + length (enc_log (live es))) (set_mem d out s) \<and> length d = length (f_disk (m_file s)) \<and>
    mem_read d 4 (4 + length (enc_log (live es))) = holder_bytes E @ enc_log (live es) \<and>
    mem_read d 0 4 = mem_read (f_disk (m_file s)) 0 4"
proof -
  let ?d = "f_disk (m_file s)" and ?n = "length (enc_log (live es))" and ?vec = "live_holders pos es"
  from w obtain out where out: "m_output s = Some out" "out_ptr out = 4" "out_size out + 4 = f_size (m_file s)"
    "out_position out = 0" "f_ptr (m_file s)" "\<not> f_readOnly (m_file s)" "f_size (m_file s) \<le> length ?d"
    by (rule writableE)
  have vec: "sort_by_offset (iterate E (m_dic s)) = ?vec"
    unfolding dic by (rule sort_live [OF assms(1,4)])
  have "\<exists>d. (if ?vec = [] then returnC 8
       else bindC (move_sections 8 (dataSections (map snd ?vec))) (\<lambda>writePtr s.
              (Inr writePtr, s\<lparr>m_dic := update_offsets (word_of_nat ItemSizeHolderSize) ?vec (m_dic s)\<rparr>))) s =
      (Inr (8 + ?n), (set_disk d s)\<lparr>m_dic := dic_of 4 (live es)\<rparr>) \<and> length d = length ?d \<and>
    mem_read d 8 ?n = enc_log (live es) \<and> mem_read d 0 4 = mem_read ?d 0 4"
  proof (cases "?vec = []")
    case True
    then have "live es = []"
      unfolding live_at_snd [of pos es, symmetric] by (simp add: live_holders_def)
    moreover have "dic_of pos es = Map.empty" using True by (simp add: dic_of_live)
    ultimately show ?thesis
      using True dic by (intro exI [of _ ?d]) (simp add: returnC_def)
  next
    case False
    obtain d where d: "move_sections 8 (dataSections (map snd ?vec)) s = (Inr (8 + ?n), set_disk d s)"
      "length d = length ?d" "mem_read d 8 ?n = enc_log (live es)" "mem_read d 0 4 = mem_read ?d 0 4"
      using live_sections_moved [OF out(5-7) assms(4,5) False log bound room] by blast
    have "update_offsets (word_of_nat ItemSizeHolderSize) ?vec (m_dic s) = dic_of 4 (live es)"
      unfolding dic ItemSizeHolderSize_def by (rule update_offsets_live [OF assms(4)])
    then show ?thesis
      using d False by (intro exI [of _ d]) (simp add: bindC_Inr)
  qed
  then obtain d where d: "(if ?vec = [] then returnC 8
       else bindC (move_sections 8 (dataSections (map snd ?vec))) (\<lambda>writePtr s.
              (Inr writePtr, s\<lparr>m_dic := update_offsets (word_of_nat ItemSizeHolderSize) ?vec (m_dic s)\<rparr>))) s =
      (Inr (8 + ?n), (set_disk d s)\<lparr>m_dic := dic_of 4 (live es)\<rparr>)" "length d = length ?d"
    "mem_read d 8 ?n = enc_log (live es)" "mem_read d 0 4 = mem_read ?d 0 4" by blast
  let ?s = "(set_disk d s)\<lparr>m_dic := dic_of 4 (live es)\<rparr>"
  have w': "writable 0 ?s" using out d(2) by (simp add: writable_def)
  obtain out' where o': "with_output (writeUInt32 (randomItemSizeHolder (rand_value E) ItemSizeHolderSize)) ?s =
      (Inr (), set_mem (mem_write d 4 (holder_bytes E)) out' ?s)" "writable 4 (set_mem (mem_write d 4 (holder_bytes E)) out' ?s)"
    using with_output_writes [OF w' writes_bytes_ops(1), of "randomItemSizeHolder (rand_value E) ItemSizeHolderSize"] room
    by (auto simp flip: holder_bytes_def)
  let ?s' = "set_mem (mem_write d 4 (holder_bytes E)) out' ?s"
  have out': "out_ptr out' = 4" "out_size out' + 4 = f_size (m_file s)" "out_position out' = 4"
    using o'(2) by (auto simp: writable_def)
  let ?out = "out'\<lparr>out_position := 4 + ?n\<rparr>"
  have "move_output (seekOut ?n) ?s' = (Inr (), set_mem (mem_write d 4 (holder_bytes E)) ?out ?s)"
    using out' room by (simp add: move_output_def seekOut_def Let_def) (simp add: set_mem_def)
  moreover obtain m1 where m1: "m1 = (if ?vec = [] then returnC 8
       else bindC (move_sections 8 (dataSections (map snd ?vec))) (\<lambda>writePtr s.
              (Inr writePtr, s\<lparr>m_dic := update_offsets (word_of_nat ItemSizeHolderSize) ?vec (m_dic s)\<rparr>)))" by blast
  have "memmoveDictionary E (4 + ?n) s = bindC m1 (\<lambda>writePtr.
      bindC (with_output (writeUInt32 (randomItemSizeHolder (rand_value E) ItemSizeHolderSize))) (\<lambda>_.
        if writePtr - 4 = 4 + ?n then move_output (seekOut (writePtr - 4 - 4)) else throwC MemoryFault)) s"
    using out(1,2,4) unfolding memmoveDictionary_def vec m1 ItemSizeHolderSize_def
    by (simp add: Let_def curWritePointer_def)
  ultimately have "memmoveDictionary E (4 + ?n) s = (Inr (), set_mem (mem_write d 4 (holder_bytes E)) ?out ?s)"
    using o'(1) by (simp add: bindC_Inr d(1) [folded m1])
  moreover have "set_mem (mem_write d 4 (holder_bytes E)) ?out ?s = (set_mem (mem_write d 4 (holder_bytes E)) ?out s)\<lparr>m_dic := dic_of 4 (live es)\<rparr>"
    by (simp add: set_mem_def)
  moreover have "writable (4 + ?n) (set_mem (mem_write d 4 (holder_bytes E)) ?out s)"
    using out out' d(2) room by (simp add: writable_def)
  moreover have "mem_read (mem_write d 4 (holder_bytes E)) 4 (4 + ?n) = holder_bytes E @ enc_log (live es)"
    using d(2,3) out(7) room by (simp add: mem_read_add mem_read_mem_write_disjoint)
  moreover have "mem_read (mem_write d 4 (holder_bytes E)) 0 4 = mem_read ?d 0 4"
    using d(2,4) out(7) room by (simp add: mem_read_mem_write_disjoint)
  moreover have "length (mem_write d 4 (holder_bytes E)) = length ?d"
    using d(2) out(7) room by simp
  ultimately show ?thesis by metis
qed

end
