(* ===== verification/MMKV_Store.thy ===== *)
theory MMKV_Store
  imports MMKV_Rewrite
begin

text \<open>
  The invariant of a loaded plain store, and what the operations that write it do to a store that
  satisfies it: the file holds a header and a log, the dictionary locates the live entries of the log,
  the writer stands behind its last entry, and the meta information describes the data.
\<close>

unbundle bit_operations_syntax

section \<open>The invariant of a loaded store\<close>

text \<open>The header in front of the log: none in a fresh store, else an integer the decoder skips.\<close>

definition header :: "byte list \<Rightarrow> log_entry list \<Rightarrow> bool" where
  "header hdr es \<longleftrightarrow> (hdr = [] \<and> es = []) \<or> (\<exists>n. reads readInt32 hdr n \<and> 1 \<le> length hdr \<and> length hdr \<le> 10)"

text \<open>The mapped file holds the header and the log.\<close>

definition file_log :: "MMKV \<Rightarrow> byte list \<Rightarrow> log_entry list \<Rightarrow> bool" where
  "file_log s hdr es \<longleftrightarrow> f_ptr (m_file s) \<and> \<not> f_readOnly (m_file s) \<and> f_size (m_file s) \<le> length (f_disk (m_file s)) \<and>
     4 + length hdr + length (enc_log es) \<le> f_size (m_file s) \<and> header hdr es \<and> in_range (length hdr) es \<and>
     mem_read (f_disk (m_file s)) 4 (length hdr + length (enc_log es)) = hdr @ enc_log es"

text \<open>The store is loaded and its writer stands at the end of the log.\<close>

definition log_ok :: "MMKV \<Rightarrow> byte list \<Rightarrow> log_entry list \<Rightarrow> bool" where
  "log_ok s hdr es \<longleftrightarrow> isFileValid (m_file s) \<and> \<not> m_readOnly s \<and> \<not> m_needLoadFromFile s \<and> file_log s hdr es \<and>
     m_actualSize s = length hdr + length (enc_log es) \<and> writable (m_actualSize s) s"

text \<open>The meta information in memory is that of its file, in the current version, and has the flag for
  expiration if the store has it.\<close>

definition meta_ready :: "MMKV \<Rightarrow> bool" where
  "meta_ready s \<longleftrightarrow> isFileValid (m_metaFile s) \<and> \<not> f_readOnly (m_metaFile s) \<and> file_ok (m_metaFile s) \<and>
     112 \<le> f_size (m_metaFile s) \<and> meta_ok (m_metaInfo s) \<and> read_meta s = m_metaInfo s \<and>
     MMKVVersionFlag \<le> mi_version (m_metaInfo s) \<and> mi_version (m_metaInfo s) < MMKVVersionHolder \<and>
     m_enableKeyExpire s = hasFlag EnableKeyExipre (m_metaInfo s)"

text \<open>It describes the data.\<close>

definition meta_current :: "environment \<Rightarrow> MMKV \<Rightarrow> byte list \<Rightarrow> bool" where
  "meta_current E s bs \<longleftrightarrow> meta_ready s \<and> m_crcDigest s = crc32 E 0 bs \<and>
     mi_crcDigest (m_metaInfo s) = m_crcDigest s \<and> mi_actualSize (m_metaInfo s) = word_of_nat (m_actualSize s)"

definition store_ok :: "environment \<Rightarrow> MMKV \<Rightarrow> byte list \<Rightarrow> log_entry list \<Rightarrow> bool" where
  "store_ok E s hdr es \<longleftrightarrow> log_ok s hdr es \<and> meta_current E s (hdr @ enc_log es) \<and> m_dic s = dic_of (length hdr) es"

text \<open>What the application sets and no operation below changes; the meta file stays mapped as it is; and an
  operating system that refuses nothing goes on so, with the data file mapped as a whole.\<close>

definition grows :: "MemoryFile \<Rightarrow> MemoryFile \<Rightarrow> bool" where
  "grows f g \<longleftrightarrow> f_io g = [] \<and> f_size f \<le> f_size g \<and> (f_size f = length (f_disk f) \<longrightarrow> f_size g = length (f_disk g))"

lemma grows_trans: "grows f g \<Longrightarrow> grows g h \<Longrightarrow> grows f h"
  unfolding grows_def by (elim conjE) (intro conjI; simp)

lemma grows_refl [simp]: "grows f f \<longleftrightarrow> f_io f = []"
  by (simp add: grows_def)

lemma grows_disk [simp]:
  "grows f (f\<lparr>f_disk := d\<rparr>) \<longleftrightarrow> f_io f = [] \<and> (f_size f = length (f_disk f) \<longrightarrow> f_size f = length d)"
  by (simp add: grows_def)

lemma grows_io: "grows f g \<Longrightarrow> f_io g = []"
  by (simp add: grows_def)

definition same_settings :: "MMKV \<Rightarrow> MMKV \<Rightarrow> bool" where
  "same_settings s t \<longleftrightarrow> m_readOnly t = m_readOnly s \<and> m_multiProcess t = m_multiProcess s \<and>
     m_enableKeyExpire t = m_enableKeyExpire s \<and> m_enableCompareBeforeSet t = m_enableCompareBeforeSet s \<and>
     m_itemSizeLimit t = m_itemSizeLimit s \<and> m_expectedCapacity t = m_expectedCapacity s \<and>
     m_needLoadFromFile t = m_needLoadFromFile s \<and> m_isSecondLoad t = m_isSecondLoad s \<and>
     f_size (m_metaFile t) = f_size (m_metaFile s) \<and> length (f_disk (m_metaFile t)) = length (f_disk (m_metaFile s)) \<and>
     (f_io (m_metaFile s) = [] \<longrightarrow> f_io (m_metaFile t) = []) \<and>
     (f_io (m_file s) = [] \<longrightarrow> grows (m_file s) (m_file t))"

lemma same_settings_refl [simp]: "same_settings s s"
  by (simp add: same_settings_def)

lemma same_settings_trans: "same_settings s t \<Longrightarrow> same_settings t u \<Longrightarrow> same_settings s u"
  unfolding same_settings_def by (auto dest: grows_io intro: grows_trans)

section \<open>Writing the size\<close>

lemma version_order:
  "MMKVVersionSequence < MMKVVersionHolder" "MMKVVersionRandomIV < MMKVVersionHolder"
  "MMKVVersionActualSize < MMKVVersionHolder" "MMKVVersionFlag < MMKVVersionHolder"
  "MMKVVersionActualSize < MMKVVersionFlag" "MMKVVersionSequence < MMKVVersionFlag"
  by (simp_all add: version_defs)

lemma update_meta_sel:
  "mi_actualSize (fst (update_meta n crc iv b m)) = word_of_nat n"
  "mi_crcDigest (fst (update_meta n crc iv b m)) = crc"
  by (simp_all add: update_meta_def Let_def split: option.split)

lemma update_meta_version:
  "MMKVVersionFlag \<le> mi_version (fst (update_meta n crc iv b m))"
  "mi_version m < MMKVVersionHolder \<Longrightarrow> mi_version (fst (update_meta n crc iv b m)) < MMKVVersionHolder"
  by (cases iv; cases b; simp add: update_meta_def Let_def version_order not_less)+

lemma update_meta_ok: "meta_ok m \<Longrightarrow> (\<And>v. iv = Some v \<Longrightarrow> length v = 16) \<Longrightarrow> meta_ok (fst (update_meta n crc iv b m))"
  by (cases iv; simp add: update_meta_def Let_def meta_ok_def)

lemma update_meta_full: "iv \<noteq> None \<or> b \<Longrightarrow> snd (update_meta n crc iv b m)"
  by (cases iv; cases b; simp add: update_meta_def Let_def if_distrib [of snd] cong: if_cong)

lemma update_meta_partial:
  assumes "\<not> snd (update_meta n crc iv b m)"
  shows "fst (update_meta n crc iv b m) = m\<lparr>mi_actualSize := word_of_nat n, mi_crcDigest := crc\<rparr>"
proof -
  have "iv = None" "\<not> b" using assms update_meta_full by blast+
  then show ?thesis
    using assms by (cases "mi_version m < MMKVVersionSequence"; cases "mi_version m < MMKVVersionFlag")
      (simp_all add: update_meta_def Let_def version_order)
qed

lemma update_meta_sequence:
  "mi_sequence (fst (update_meta n crc None True m)) = mi_sequence m + 1"
  "mi_sequence (fst (update_meta n crc None False m)) = mi_sequence m"
  by (simp_all add: update_meta_def Let_def)

lemma update_meta_flags:
  "MMKVVersionFlag \<le> mi_version m \<Longrightarrow> mi_flags (fst (update_meta n crc iv b m)) = mi_flags m"
  using version_order by (cases iv; cases b) (auto simp: update_meta_def Let_def not_less)

text \<open>The parts of a store that \<open>writeActualSize\<close> sets.\<close>

definition set_meta :: "nat \<Rightarrow> u32 \<Rightarrow> MMKVMetaInfo \<Rightarrow> byte list \<Rightarrow> MMKV \<Rightarrow> MMKV" where
  "set_meta n crc m d s = s\<lparr>m_actualSize := n, m_crcDigest := crc, m_metaInfo := m,
     m_metaFile := (m_metaFile s)\<lparr>f_disk := d\<rparr>\<rparr>"

lemma set_meta_sel [simp]:
  "m_file (set_meta n crc m d s) = m_file s"
  "m_output (set_meta n crc m d s) = m_output s"
  "m_dic (set_meta n crc m d s) = m_dic s"
  "m_actualSize (set_meta n crc m d s) = n"
  "m_crcDigest (set_meta n crc m d s) = crc"
  "m_metaInfo (set_meta n crc m d s) = m"
  "m_metaFile (set_meta n crc m d s) = (m_metaFile s)\<lparr>f_disk := d\<rparr>"
  "m_readOnly (set_meta n crc m d s) = m_readOnly s"
  "m_needLoadFromFile (set_meta n crc m d s) = m_needLoadFromFile s"
  "m_enableKeyExpire (set_meta n crc m d s) = m_enableKeyExpire s"
  "m_multiProcess (set_meta n crc m d s) = m_multiProcess s"
  "m_itemSizeLimit (set_meta n crc m d s) = m_itemSizeLimit s"
  "m_enableCompareBeforeSet (set_meta n crc m d s) = m_enableCompareBeforeSet s"
  "m_expectedCapacity (set_meta n crc m d s) = m_expectedCapacity s"
  "m_hasFullWriteback (set_meta n crc m d s) = m_hasFullWriteback s"
  "m_isSecondLoad (set_meta n crc m d s) = m_isSecondLoad s"
  "writable k (set_meta n crc m d s) = writable k s"
  by (simp_all add: set_meta_def writable_def)

lemma take_meta_write:
  assumes "meta_ok m" and "112 \<le> n" and "n \<le> length d"
  shows "take n (meta_write m d) = meta_write m (take n d)"
    and "take n (writeCRCAndActualSizeOnly m' d) = writeCRCAndActualSizeOnly m' (take n d)"
  using assms by (auto simp: meta_write_def writeCRCAndActualSizeOnly_def mem_write_def length_meta_bytes drop_take min_def)

text \<open>Writing the size and the checksum with the current version: nothing but the meta information changes,
  and what is written is what is read.\<close>

lemma writeActualSize_run:
  assumes "\<not> m_readOnly s" and ok: "meta_ready s" and "\<And>v. iv = Some v \<Longrightarrow> length v = 16"
    and m_def: "m = fst (update_meta n crc iv increase (m_metaInfo s))"
  shows "\<exists>d. writeActualSize n crc iv increase s = (Inr True, set_meta n crc m d s) \<and> meta_ready (set_meta n crc m d s) \<and>
    length d = length (f_disk (m_metaFile s))"
proof -
  let ?u = "update_meta n crc iv increase (m_metaInfo s)" and ?f = "m_metaFile s"
  have f: "f_ptr ?f" "\<not> f_readOnly ?f" "isFileValid ?f" "112 \<le> f_size ?f" "f_size ?f \<le> length (f_disk ?f)" "meta_ok (m_metaInfo s)"
    and same: "read_meta s = m_metaInfo s"
    and v: "MMKVVersionFlag \<le> mi_version (m_metaInfo s)" "mi_version (m_metaInfo s) < MMKVVersionHolder"
    using ok by (auto simp: meta_ready_def isFileValid_def file_ok_def)
  have m: "meta_ok (fst ?u)" using update_meta_ok [OF f(6)] assms(3) by blast
  let ?w = "if snd ?u then meta_write (fst ?u) else writeCRCAndActualSizeOnly (fst ?u)"
  let ?d = "?w (f_disk ?f)" and ?s = "set_meta n crc (fst ?u) (?w (f_disk ?f)) s"
  have len: "length ?d = length (f_disk ?f)" using m f(4,5) by (simp add: length_meta_write length_writeCRC)
  have "\<not> mi_version (m_metaInfo s) < MMKVVersionActualSize" using v version_order by auto
  then have "writeActualSize n crc iv increase s = (Inr True, ?s)"
    using assms(1) f by (cases ?u)
      (auto simp: writeActualSize_def meta_update_def Let_def bindC_def returnC_def set_meta_def)
  moreover have meta: "read_meta ?s = fst ?u"
  proof (cases "snd ?u")
    case True
    then show ?thesis
      using f m by (simp add: read_meta_def f_memory_def take_meta_write meta_read_write)
  next
    case False
    from update_meta_partial [OF this] show ?thesis
      using False f m same
      by (simp add: read_meta_def f_memory_def take_meta_write [OF m] meta_read_writeCRC)
  qed
  moreover have "m_enableKeyExpire s = hasFlag EnableKeyExipre (fst ?u)"
    using ok update_meta_flags [OF v(1)] by (simp add: meta_ready_def hasFlag_def)
  then have "meta_ready ?s"
    using meta f m len update_meta_version v(2) by (simp add: meta_ready_def isFileValid_def file_ok_def)
  ultimately show ?thesis unfolding m_def using len by blast
qed

section \<open>The full write-back\<close>

lemma file_log_cong:
  "f_ptr (m_file t) = f_ptr (m_file s) \<Longrightarrow> f_readOnly (m_file t) = f_readOnly (m_file s) \<Longrightarrow>
   f_size (m_file t) = f_size (m_file s) \<Longrightarrow> f_disk (m_file t) = f_disk (m_file s) \<Longrightarrow> file_log t = file_log s"
  by (simp add: file_log_def fun_eq_iff)

lemma header_holder_bytes: "header (holder_bytes E) es"
  using reads_readInt32_uint32 [of "randomItemSizeHolder (rand_value E) ItemSizeHolderSize"]
  unfolding header_def enc_uint32_def holder_bytes_def [symmetric] by (intro disjI2 exI) auto

lemma length_enc_log_live: "length (enc_log (live es)) \<le> length (enc_log es)"
proof -
  have "live (kv # es) = (if snd kv = [] \<or> fst kv \<in> fst ` set es then live es else kv # live es)" for kv es
    using live_at_snd by (simp add: live_def)
  then show ?thesis by (induction es) (simp_all add: live_def)
qed

lemma in_range_live: "in_range pos es \<Longrightarrow> p + length (enc_log (live es)) < 2 ^ 32 \<Longrightarrow> in_range p (live es)"
  using live_keys by (auto simp: in_range_def)

lemma msync_io: "f_io f = [] \<Longrightarrow> f_io (snd (msync f)) = []"
  by (simp add: msync_def answer_def)

lemma msync_sel [simp]:
  "f_ptr (snd (msync f)) = f_ptr f" "f_size (snd (msync f)) = f_size f" "f_disk (snd (msync f)) = f_disk f"
  "f_readOnly (snd (msync f)) = f_readOnly f" "isFileValid (snd (msync f)) = isFileValid f"
  by (simp_all add: msync_def answer_def isFileValid_def)

lemma grows_msync: "f_io f = [] \<Longrightarrow> grows g (snd (msync f)) = grows g f"
  by (simp add: grows_def msync_io)

lemma sync_store_run:
  assumes "\<not> m_needLoadFromFile s" and "isFileValid (m_file s)"
  shows "sync_store s = (Inr (), s\<lparr>m_file := snd (msync (m_file s)), m_metaFile := snd (msync (m_metaFile s))\<rparr>)"
  using assms by (simp add: sync_store_def isFileValid_store_def)

lemma store_ok_sync:
  "store_ok E (s\<lparr>m_file := snd (msync (m_file s)), m_metaFile := snd (msync (m_metaFile s))\<rparr>) hdr es = store_ok E s hdr es"
  by (simp add: store_ok_def log_ok_def meta_current_def meta_ready_def file_log_def writable_def read_meta_def
      f_memory_def file_ok_def)

lemma memory_read_run: "f_ptr (m_file s) \<Longrightarrow> pos + n \<le> f_size (m_file s) \<Longrightarrow>
    memory_read pos n s = (Inr (mem_read (f_disk (m_file s)) pos n), s)"
  by (simp add: memory_read_def)

lemma recalculate_bytes:
  assumes "f_ptr (m_file s)" and "m_actualSize s < 2 ^ 32" and "4 + m_actualSize s \<le> f_size (m_file s)" and "\<not> m_readOnly s"
    and bs: "mem_read (f_disk (m_file s)) 4 (m_actualSize s) = bs" and "meta_ready s" and "\<And>v. iv = Some v \<Longrightarrow> length v = 16"
    and m: "m = fst (update_meta (m_actualSize s) (crc32 E 0 bs) iv True (m_metaInfo s))"
  shows "\<exists>d. recalculateCRCDigestWithIV E iv s = (Inr (), set_meta (m_actualSize s) (crc32 E 0 bs) m d s) \<and>
    meta_ready (set_meta (m_actualSize s) (crc32 E 0 bs) m d s) \<and> length d = length (f_disk (m_metaFile s))"
proof -
  let ?c = "crc32 E 0 bs"
  have r: "memory_read 4 (unat (word_of_nat (m_actualSize s) :: u32)) s = (Inr bs, s)"
    using memory_read_run [OF assms(1,3)] unat_word_of_nat_u32 [OF assms(2)] by (simp only: bs)
  have s': "meta_ready (s\<lparr>m_crcDigest := ?c\<rparr>)"
    using assms(6) by (simp add: meta_ready_def read_meta_def)
  have m': "m = fst (update_meta (m_actualSize s) ?c iv True (m_metaInfo (s\<lparr>m_crcDigest := ?c\<rparr>)))"
    by (simp add: m)
  obtain d where d: "writeActualSize (m_actualSize s) ?c iv True (s\<lparr>m_crcDigest := ?c\<rparr>) =
      (Inr True, set_meta (m_actualSize s) ?c m d (s\<lparr>m_crcDigest := ?c\<rparr>))"
    "meta_ready (set_meta (m_actualSize s) ?c m d (s\<lparr>m_crcDigest := ?c\<rparr>))" "length d = length (f_disk (m_metaFile s))"
    using writeActualSize_run [OF _ s' _ m'] assms(4,7) by simp blast
  have same: "set_meta (m_actualSize s) ?c m d (s\<lparr>m_crcDigest := ?c\<rparr>) = set_meta (m_actualSize s) ?c m d s"
    by (simp add: set_meta_def)
  have "recalculateCRCDigestWithIV E iv s = (Inr (), set_meta (m_actualSize s) ?c m d s)"
    using assms(1) r d(1) by (simp add: recalculateCRCDigestWithIV_def bindC_Inr Let_def same returnC_def)
  then show ?thesis using d(2,3) by (intro exI [of _ d]) (simp add: same)
qed

lemma recalculate_run:
  assumes "log_ok s hdr es" and "meta_ready s"
  shows "\<exists>d m. recalculateCRCDigestWithIV E None s = (Inr (), set_meta (m_actualSize s) (crc32 E 0 (hdr @ enc_log es)) m d s) \<and>
    meta_current E (set_meta (m_actualSize s) (crc32 E 0 (hdr @ enc_log es)) m d s) (hdr @ enc_log es) \<and>
    length d = length (f_disk (m_metaFile s)) \<and> mi_sequence m = mi_sequence (m_metaInfo s) + 1"
proof -
  let ?c = "crc32 E 0 (hdr @ enc_log es)"
  have l: "f_ptr (m_file s)" "m_actualSize s = length hdr + length (enc_log es)" "m_actualSize s < 2 ^ 32"
    "4 + m_actualSize s \<le> f_size (m_file s)" "\<not> m_readOnly s"
    "mem_read (f_disk (m_file s)) 4 (m_actualSize s) = hdr @ enc_log es"
    using assms(1) by (auto simp: log_ok_def file_log_def in_range_def)
  obtain m where m: "m = fst (update_meta (m_actualSize s) ?c None True (m_metaInfo s))" by blast
  obtain d where d: "recalculateCRCDigestWithIV E None s = (Inr (), set_meta (m_actualSize s) ?c m d s)"
    "meta_ready (set_meta (m_actualSize s) ?c m d s)" "length d = length (f_disk (m_metaFile s))"
    using recalculate_bytes [OF l(1,3-6) assms(2) _ m] by blast
  have "meta_current E (set_meta (m_actualSize s) ?c m d s) (hdr @ enc_log es)"
    using d(2) update_meta_sel [of "m_actualSize s" ?c None True "m_metaInfo s", folded m]
    by (simp add: meta_current_def)
  moreover have "mi_sequence m = mi_sequence (m_metaInfo s) + 1" unfolding m by (rule update_meta_sequence)
  ultimately show ?thesis using d(1,3) by blast
qed

lemma log_ok_set_meta: "m_actualSize s = n \<Longrightarrow> log_ok (set_meta n crc m d s) hdr es = log_ok s hdr es"
  by (simp add: log_ok_def file_log_def)

text \<open>What a full write-back needs of a store.\<close>

definition rewritable :: "MMKV \<Rightarrow> byte list \<Rightarrow> log_entry list \<Rightarrow> bool" where
  "rewritable s hdr es \<longleftrightarrow> isFileValid (m_file s) \<and> \<not> m_readOnly s \<and> \<not> m_needLoadFromFile s \<and> file_log s hdr es \<and>
     meta_ready s \<and> m_dic s = dic_of (length hdr) es"

lemma store_ok_rewritable: "store_ok E s hdr es \<Longrightarrow> rewritable s hdr es"
  by (simp add: store_ok_def log_ok_def meta_current_def rewritable_def)

lemma writable_new_output:
  "f_ptr (m_file s) \<Longrightarrow> \<not> f_readOnly (m_file s) \<Longrightarrow> f_size (m_file s) \<le> length (f_disk (m_file s)) \<Longrightarrow> 4 \<le> f_size (m_file s) \<Longrightarrow>
   writable 0 (new_output s)"
  by (simp add: writable_def new_output_def CodedOutputData_def getFileSize_def payload_size_def)

lemma memmove_rewritable:
  assumes "iterates E" and s: "rewritable s hdr es" and room: "8 + length (enc_log (live es)) \<le> f_size (m_file s)"
  shows "\<exists>d out. memmoveDictionary E (4 + length (enc_log (live es))) (new_output s) =
      (Inr (), (set_mem d out s)\<lparr>m_dic := dic_of 4 (live es)\<rparr>) \<and>
    writable (4 + length (enc_log (live es))) (set_mem d out s) \<and> length d = length (f_disk (m_file s)) \<and>
    mem_read d 4 (4 + length (enc_log (live es))) = holder_bytes E @ enc_log (live es)"
proof -
  let ?s = "new_output s" and ?pos = "max 1 (length hdr)"
  have l: "f_ptr (m_file s)" "\<not> f_readOnly (m_file s)" "f_size (m_file s) \<le> length (f_disk (m_file s))"
    "4 + length hdr + length (enc_log es) \<le> f_size (m_file s)" "header hdr es" "in_range (length hdr) es"
    "mem_read (f_disk (m_file s)) 4 (length hdr + length (enc_log es)) = hdr @ enc_log es"
    "m_dic s = dic_of (length hdr) es"
    using s by (auto simp: rewritable_def file_log_def)
  have f: "m_file ?s = m_file s" "m_dic ?s = m_dic s" by (simp_all add: new_output_def)
  have w: "writable 0 ?s" using l by (intro writable_new_output) simp_all
  consider (empty) "hdr = []" "es = []" | (log) "1 \<le> length hdr" using l(5) by (auto simp: header_def)
  then have pre: "m_dic ?s = dic_of ?pos es \<and> in_range ?pos es \<and> 4 + ?pos + length (enc_log es) \<le> f_size (m_file ?s) \<and>
    mem_read (f_disk (m_file ?s)) (4 + ?pos) (length (enc_log es)) = enc_log es"
  proof cases
    case empty
    then show ?thesis
      using l room by (simp_all add: f in_range_def live_def)
  next
    case log
    then have pos: "?pos = length hdr" by simp
    have "mem_read (f_disk (m_file s)) 4 (length hdr) @ mem_read (f_disk (m_file s)) (4 + length hdr) (length (enc_log es)) =
        hdr @ enc_log es"
      using l(7) by (simp add: mem_read_add)
    moreover have "length (mem_read (f_disk (m_file s)) 4 (length hdr)) = length hdr" using l by simp
    ultimately have "mem_read (f_disk (m_file s)) (4 + length hdr) (length (enc_log es)) = enc_log es" by simp
    then show ?thesis
      unfolding pos f using l by simp_all
  qed
  from memmoveDictionary_run [OF assms(1) w, of ?pos es] pre room f
  obtain d out where m: "memmoveDictionary E (4 + length (enc_log (live es))) ?s =
      (Inr (), (set_mem d out ?s)\<lparr>m_dic := dic_of 4 (live es)\<rparr>)"
    "writable (4 + length (enc_log (live es))) (set_mem d out ?s)" "length d = length (f_disk (m_file s))"
    "mem_read d 4 (4 + length (enc_log (live es))) = holder_bytes E @ enc_log (live es)"
    by auto
  moreover have "set_mem d out ?s = set_mem d out s" by (simp add: set_mem_def new_output_def)
  ultimately show ?thesis by metis
qed

text \<open>A store that writes everything anew says so by the sequence number, from which the other processes on
  the same files learn it.\<close>

definition rewritten :: "MMKV \<Rightarrow> MMKV \<Rightarrow> bool" where
  "rewritten s t \<longleftrightarrow> mi_sequence (m_metaInfo t) = mi_sequence (m_metaInfo s) + 1"

definition same_generation :: "MMKVMetaInfo \<Rightarrow> MMKVMetaInfo \<Rightarrow> bool" where
  "same_generation m m' \<longleftrightarrow> m' = m\<lparr>mi_crcDigest := mi_crcDigest m', mi_actualSize := mi_actualSize m'\<rparr>"

lemma same_generation_refl [simp]: "same_generation m m"
  by (simp add: same_generation_def)

lemma same_generation_trans: "same_generation m m' \<Longrightarrow> same_generation m' m'' \<Longrightarrow> same_generation m m''"
  by (cases m; cases m'; cases m'') (simp add: same_generation_def)

lemma same_generation_sequence: "same_generation m m' \<Longrightarrow> mi_sequence m' = mi_sequence m"
  by (cases m; cases m') (simp add: same_generation_def)

lemma same_generation_append:
  "MMKVVersionFlag \<le> mi_version m \<Longrightarrow> same_generation m (fst (update_meta n crc None False m))"
  using version_order(6) by (simp add: update_meta_def Let_def same_generation_def)

text \<open>One step of a log: entries are appended under the same number, or all is new under the next one.\<close>

definition evolves ::
  "environment \<Rightarrow> MMKV \<Rightarrow> byte list \<Rightarrow> log_entry list \<Rightarrow> MMKV \<Rightarrow> byte list \<Rightarrow> log_entry list \<Rightarrow> bool" where
  "evolves E s hdr es t hdr' es' \<longleftrightarrow>
     (same_generation (m_metaInfo s) (m_metaInfo t) \<and> f_size (m_file t) = f_size (m_file s) \<and> hdr' = hdr \<and> (\<exists>new. es' = es @ new)) \<or>
     (rewritten s t \<and> hdr' \<noteq> [] \<and> (f_size (m_file t) = f_size (m_file s) \<or> f_size (m_file t) mod page_size E = 0))"

lemma evolves_refl: "evolves E s hdr es s hdr es"
  by (simp add: evolves_def)

lemma doFullWriteBack_run:
  assumes "iterates E" and s: "rewritable s hdr es" and room: "8 + length (enc_log (live es)) \<le> f_size (m_file s)"
    and small: "4 + length (enc_log (live es)) < 2 ^ 32"
  shows "\<exists>s'. doFullWriteBack E [] (4 + length (enc_log (live es))) sync s = (Inr True, s') \<and>
    store_ok E s' (holder_bytes E) (live es) \<and> f_size (m_file s') = f_size (m_file s) \<and> same_settings s s' \<and> rewritten s s'"
proof -
  let ?n = "4 + length (enc_log (live es))"
  obtain d out where m: "memmoveDictionary E ?n (new_output s) = (Inr (), (set_mem d out s)\<lparr>m_dic := dic_of 4 (live es)\<rparr>)"
    "writable ?n (set_mem d out s)" "length d = length (f_disk (m_file s))"
    "mem_read d 4 ?n = holder_bytes E @ enc_log (live es)"
    using memmove_rewritable [OF assms(1-3)] by blast
  have l: "isFileValid (m_file s)" "\<not> m_readOnly s" "\<not> m_needLoadFromFile s" "f_ptr (m_file s)" "\<not> f_readOnly (m_file s)"
    "f_size (m_file s) \<le> length (f_disk (m_file s))" "in_range (length hdr) es" "meta_ready s"
    using s by (auto simp: rewritable_def file_log_def)
  let ?t = "(set_mem d out s)\<lparr>m_dic := dic_of 4 (live es), m_actualSize := ?n\<rparr>"
  have t: "log_ok ?t (holder_bytes E) (live es)"
    using l m room small in_range_live [OF l(7), of 4]
    by (simp add: log_ok_def file_log_def header_holder_bytes isFileValid_def writable_def)
  have mt: "meta_ready ?t" using l(8) by (simp add: meta_ready_def read_meta_def)
  obtain e mm where r: "recalculateCRCDigestWithIV E None ?t =
      (Inr (), set_meta (m_actualSize ?t) (crc32 E 0 (holder_bytes E @ enc_log (live es))) mm e ?t)"
    "meta_current E (set_meta (m_actualSize ?t) (crc32 E 0 (holder_bytes E @ enc_log (live es))) mm e ?t) (holder_bytes E @ enc_log (live es))"
    "length e = length (f_disk (m_metaFile ?t))" "mi_sequence mm = mi_sequence (m_metaInfo ?t) + 1"
    using recalculate_run [OF t mt] by blast
  let ?u = "(set_meta (m_actualSize ?t) (crc32 E 0 (holder_bytes E @ enc_log (live es))) mm e ?t)\<lparr>m_hasFullWriteback := True\<rparr>"
  have u: "store_ok E ?u (holder_bytes E) (live es)"
    using r(2) t by (simp add: store_ok_def log_ok_def file_log_def meta_current_def meta_ready_def read_meta_def writable_def)
  have su: "same_settings s ?u" "rewritten s ?u" using m(3) r(3,4) by (simp_all add: same_settings_def rewritten_def)
  let ?v = "?u\<lparr>m_file := snd (msync (m_file ?u)), m_metaFile := snd (msync (m_metaFile ?u))\<rparr>"
  have run: "doFullWriteBack E [] ?n sync s = bindC (if sync then sync_store else returnC ()) (\<lambda>_. returnC True) ?u"
    using m(1) r(1) by (simp add: doFullWriteBack_def bindC_Inr)
  show ?thesis
  proof (cases sync)
    case True
    have "sync_store ?u = (Inr (), ?v)" by (rule sync_store_run) (use l in \<open>simp_all add: isFileValid_def\<close>)
    then have "doFullWriteBack E [] ?n sync s = (Inr True, ?v)"
      using run True by (simp add: bindC_Inr returnC_def)
    moreover have "same_settings s ?v" "rewritten s ?v" using su by (simp_all add: same_settings_def msync_io grows_msync rewritten_def)
    ultimately show ?thesis using u store_ok_sync [of E ?u] by (intro exI [of _ ?v]) simp
  next
    case False
    then have "doFullWriteBack E [] ?n sync s = (Inr True, ?u)" using run by (simp add: bindC_Inr returnC_def)
    then show ?thesis using u su by (intro exI [of _ ?u]) simp
  qed
qed

section \<open>Growing the file\<close>

text \<open>The doubling ends on a file that is not empty, above the need and at most at twice the larger of
  need and size, if neither comes near the end of \<open>size_t\<close>.\<close>

lemma wrap64_less: "n < 2 ^ 64 \<Longrightarrow> wrap64 n = n"
  by (simp add: wrap64_def)

lemma expand_size_Some:
  assumes "0 < fileSize" and "fileSize < 2 ^ 63" and need: "need < 2 ^ 63"
  shows "\<exists>n. expand_size need fileSize = Some n \<and> need < n \<and> fileSize < n \<and> n \<le> 2 * max need fileSize"
  using assms(1,2)
proof (induction "need - fileSize" arbitrary: fileSize rule: less_induct)
  case less
  have w: "wrap64 (fileSize * 2) = fileSize * 2" using less.prems by (simp add: wrap64_less)
  show ?case
  proof (cases "fileSize * 2 \<le> need")
    case True
    then have "need - fileSize * 2 < need - fileSize" using less.prems by simp
    with less.hyps [of "fileSize * 2"] less.prems True need obtain n where
      "expand_size need (fileSize * 2) = Some n" "need < n" "fileSize * 2 < n" "n \<le> 2 * max need (fileSize * 2)"
      by auto
    then show ?thesis
      using True w by (intro exI [of _ n]) (simp add: expand_size.simps [of need fileSize] max_def)
  next
    case False
    then show ?thesis
      using less.prems w by (intro exI [of _ "fileSize * 2"]) (simp add: expand_size.simps [of need fileSize])
  qed
qed

text \<open>A power of two wraps to zero before it is above a need of \<open>2 ^ 63\<close>.\<close>

definition wraps :: "nat \<Rightarrow> bool" where
  "wraps n \<longleftrightarrow> n = 0 \<or> (\<exists>k < 64. n = 2 ^ k)"

lemma wraps_double:
  assumes "wraps n"
  shows "wraps (wrap64 (n * 2))" and "wrap64 (n * 2) \<le> 2 ^ 63"
proof -
  have "k < 63 \<or> k = 63" if "k < 64" for k :: nat using that by linarith
  then consider "n = 0" | k where "k < 63" "n = 2 ^ k" | "n = 2 ^ 63"
    using assms unfolding wraps_def by blast
  then have "wraps (wrap64 (n * 2)) \<and> wrap64 (n * 2) \<le> 2 ^ 63"
  proof cases
    case 2
    then have "n * 2 = 2 ^ Suc k" by simp
    moreover have "(2 :: nat) ^ Suc k \<le> 2 ^ 63" using 2(1) by (intro power_increasing) simp_all
    moreover from this have "(2 :: nat) ^ Suc k < 2 ^ 64" by (rule order.strict_trans1) simp
    ultimately show ?thesis using 2(1) by (auto simp: wrap64_less wraps_def simp del: power_Suc)
  qed (simp_all add: wraps_def wrap64_def)
  then show "wraps (wrap64 (n * 2))" and "wrap64 (n * 2) \<le> 2 ^ 63" by simp_all
qed

lemma expand_size_wraps: "2 ^ 63 \<le> need \<Longrightarrow> wraps fileSize \<Longrightarrow> expand_size need fileSize = None"
proof -
  have "expand_size need fileSize = Some n \<Longrightarrow> 2 ^ 63 \<le> need \<Longrightarrow> \<not> wraps fileSize" for n fileSize need
  proof (induction rule: expand_size.raw_induct [rotated, consumes 1])
    case (1 expand need fileSize n)
    show ?case
    proof
      assume w: "wraps fileSize"
      have "wrap64 (fileSize * 2) \<le> need" using wraps_double(2) [OF w] 1(3) by (rule order.trans)
      then show False using 1 wraps_double(1) [OF w] by (auto simp: Let_def)
    qed
  qed
  then show "2 ^ 63 \<le> need \<Longrightarrow> wraps fileSize \<Longrightarrow> expand_size need fileSize = None"
    by (cases "expand_size need fileSize") auto
qed

lemma expand_size_zero: "expand_size need 0 = None"
proof -
  have "expand_size need fileSize = Some n \<Longrightarrow> 0 < fileSize" for fileSize n
    by (induction rule: expand_size.raw_induct [rotated, consumes 1]) (fastforce simp: Let_def wrap64_def split: if_splits)
  then show ?thesis by (cases "expand_size need 0") auto
qed

text \<open>What the write-back needs for later use; it stays far below the end of \<open>size_t\<close>.\<close>

lemma future_usage:
  fixes need count :: nat
  assumes "1 \<le> need" and "1 \<le> count"
  shows "(need + count - 1) div count * max 8 (count div 2) \<le> 9 * need + count"
proof -
  let ?a = "(need + count - 1) div count"
  have "need \<le> need * count" using assms(2) by simp
  then have "need + count - 1 < Suc need * count" using assms(1) unfolding mult_Suc by linarith
  then have "?a < Suc need" by (rule less_mult_imp_div_less)
  then have "?a * 8 \<le> 8 * need" by simp
  moreover have "?a * (count div 2) \<le> ?a * count" by (intro mult_le_mono2) simp
  then have "?a * (count div 2) \<le> need + count" using div_times_less_eq_dividend [of "need + count - 1" count] by linarith
  ultimately show ?thesis by (auto simp: max_def)
qed

lemma length_le_enc_log: "length es \<le> length (enc_log es)"
proof (induction es)
  case (Cons kv es)
  have "enc_entry kv \<noteq> []" by (simp add: enc_entry_def enc_data_def)
  then have "0 < length (enc_entry kv)" by simp
  with Cons show ?case by (simp add: Suc_le_eq del: length_greater_0_conv)
qed simp

lemma length_iterate_live:
  assumes "iterates E" and "in_range pos es"
  shows "length (iterate E (dic_of pos es)) \<le> length (enc_log es)"
proof -
  have "length (iterate E (dic_of pos es)) = length (sort_by_offset (iterate E (dic_of pos es)))"
    by (simp add: sort_by_offset_def)
  also have "\<dots> = length (live es)"
    unfolding sort_live [OF assms] using live_at_snd [of pos es] by (simp add: live_holders_def) (metis length_map)
  also have "\<dots> \<le> length (enc_log (live es))"
    by (rule length_le_enc_log)
  also have "\<dots> \<le> length (enc_log es)" by (rule length_enc_log_live)
  finally show ?thesis .
qed

text \<open>An operation that failed for want of space, which the operating system refused: the file may be unmapped, else it holds what it held.\<close>

definition no_space :: "MMKV \<Rightarrow> MMKV \<Rightarrow> bool" where
  "no_space s t \<longleftrightarrow> f_io (m_file s) \<noteq> [] \<and> (\<exists>f. t = s\<lparr>m_file := f\<rparr> \<and> f_readOnly f = f_readOnly (m_file s) \<and>
     (isFileValid f \<longrightarrow> f_size f = f_size (m_file s) \<and> f_size f \<le> length (f_disk f) \<and>
        take (f_size f) (f_disk f) = take (f_size f) (f_disk (m_file s))))"

lemma mem_read_take: "a + n \<le> k \<Longrightarrow> mem_read (take k m) a n = mem_read m a n"
  by (simp add: mem_read_def drop_take min_def)

lemma file_log_take:
  assumes "file_log s hdr es" and "f_ptr (m_file t)" and "f_readOnly (m_file t) = f_readOnly (m_file s)"
    and "f_size (m_file s) \<le> f_size (m_file t)" and "f_size (m_file t) \<le> length (f_disk (m_file t))"
    and "take (f_size (m_file s)) (f_disk (m_file t)) = take (f_size (m_file s)) (f_disk (m_file s))"
  shows "file_log t hdr es"
proof -
  let ?n = "length hdr + length (enc_log es)"
  have l: "4 + ?n \<le> f_size (m_file s)" using assms(1) by (simp add: file_log_def)
  have "mem_read (f_disk (m_file t)) 4 ?n = mem_read (f_disk (m_file s)) 4 ?n"
    using mem_read_take [OF l, of "f_disk (m_file t)"] mem_read_take [OF l, of "f_disk (m_file s)"] assms(6) by simp
  then show ?thesis using assms by (simp add: file_log_def)
qed

lemma no_space_store_ok:
  assumes "store_ok E s hdr es" and "no_space s t" and "isFileValid (m_file t)"
  shows "store_ok E t hdr es"
proof -
  obtain f where t: "t = s\<lparr>m_file := f\<rparr>" and f: "f_readOnly f = f_readOnly (m_file s)" "f_size f = f_size (m_file s)"
    "f_size f \<le> length (f_disk f)" "take (f_size f) (f_disk f) = take (f_size f) (f_disk (m_file s))" "isFileValid f"
    using assms(2,3) by (auto simp: no_space_def)
  have "f_ptr f" using f(5) by (simp add: isFileValid_def)
  moreover have "file_log t hdr es"
    by (rule file_log_take [of s]) (use assms(1) f \<open>f_ptr f\<close> in \<open>auto simp: store_ok_def log_ok_def t\<close>)
  moreover have "writable (m_actualSize s) t"
    using assms(1) f \<open>f_ptr f\<close> by (auto simp: store_ok_def log_ok_def t elim!: writableE) (auto simp: writable_def)
  moreover have "meta_current E t (hdr @ enc_log es)"
    using assms(1) by (simp add: store_ok_def meta_current_def meta_ready_def read_meta_def t)
  ultimately show ?thesis
    using assms(1) f(5) by (simp add: store_ok_def log_ok_def t)
qed

lemma expandAndWriteBack_run:
  assumes "iterates E" and "0 < page_size E" and s: "rewritable s hdr es" and small: "4 + length (enc_log (live es)) < 2 ^ 32"
    and new: "newSize < 2 ^ 59"
  obtains (rewritten) s' where
      "expandAndWriteBack E newSize [] (4 + length (enc_log (live es))) sync s = (Inr True, s')"
      "store_ok E s' (holder_bytes E) (live es)" "same_settings s s'"
      "4 + length (enc_log (live es)) + 4 + newSize < f_size (m_file s')"
      "rewritten s s'" "f_size (m_file s') = f_size (m_file s) \<or> f_size (m_file s') mod page_size E = 0"
  | (failed) s' where
      "expandAndWriteBack E newSize [] (4 + length (enc_log (live es))) sync s = (Inr False, s')" "no_space s s'"
proof -
  let ?n = "4 + length (enc_log (live es))"
  let ?need = "?n + 4 + newSize" and ?count = "max 1 (length (iterate E (m_dic s)) + 1)"
  obtain future where future: "future = (?need + ?count - 1) div ?count * max 8 (?count div 2)" by blast
  let ?grow = "f_size (m_file s) \<le> ?need \<or> (sync \<and> f_size (m_file s) \<le> ?need + future)"
  have r: "in_range (length hdr) es" "m_dic s = dic_of (length hdr) es"
    using s by (auto simp: rewritable_def file_log_def)
  have count: "length (iterate E (m_dic s)) < 2 ^ 32"
    using length_iterate_live [OF assms(1) r(1)] r unfolding in_range_def r(2) by auto
  have need: "?need < 2 ^ 59 + 2 ^ 33" using small new by simp
  have future_le: "future \<le> 9 * ?need + ?count" unfolding future by (rule future_usage) simp_all
  then have "future < 2 ^ 63 - ?need" using need count by simp
  then have end_need: "?need + future < 2 ^ 63" by linarith
  have w: "wrap64 (?n + 4 + newSize) = ?need" "wrap64 (length (iterate E (m_dic s)) + 1) = length (iterate E (m_dic s)) + 1"
    "wrap64 (?need + ?count - 1) = ?need + ?count - 1" "wrap64 future = future" "wrap64 (?need + future) = ?need + future"
    using need count end_need by (simp_all add: wrap64_less)
  have l: "f_size (m_file s) \<le> length (f_disk (m_file s))" "0 < f_size (m_file s)"
    using s by (auto simp: rewritable_def file_log_def isFileValid_def)
  show thesis
  proof (cases ?grow)
    case False
    then have "expandAndWriteBack E newSize [] ?n sync s = doFullWriteBack E [] ?n sync s"
      unfolding expandAndWriteBack_def Let_def getFileSize_def w future [symmetric] by (simp only: if_False)
    moreover have "8 + length (enc_log (live es)) \<le> f_size (m_file s)" "?need < f_size (m_file s)" using False by auto
    ultimately show thesis
      using doFullWriteBack_run [OF assms(1) s _ small] by (metis (no_types) rewritten)
  next
    case True
    obtain size where size: "expand_size (?need + future) (f_size (m_file s)) = Some size" "?need + future < size"
      "f_size (m_file s) < size"
      using expand_size_Some [OF l(2) _ end_need] True end_need by auto
    let ?r = "truncate_file (page_size E) size (m_file s)"
    let ?t = "s\<lparr>m_file := snd ?r\<rparr>"
    have run: "expandAndWriteBack E newSize [] ?n sync s =
        (if \<not> fst ?r then (Inr False, ?t) else if \<not> isFileValid (snd ?r) then (Inr False, ?t) else doFullWriteBack E [] ?n sync ?t)"
      unfolding expandAndWriteBack_def Let_def getFileSize_def w future [symmetric] if_P [OF True] size(1)
      by (simp add: split_def isFileValid_store_def)
    have io: "f_io (m_file s) = [] \<Longrightarrow> fst ?r \<and> isFileValid (snd ?r) \<and> f_io (snd ?r) = []"
      using truncate_succeeds [OF _ _ _ assms(2), of "m_file s" size] s by (auto simp: rewritable_def file_log_def)
    show thesis
    proof (cases "fst ?r \<and> isFileValid (snd ?r)")
      case False
      then have "f_io (m_file s) \<noteq> []" using io by auto
      have "no_space s ?t"
      proof (cases "fst ?r")
        case True
        then show ?thesis using False \<open>f_io (m_file s) \<noteq> []\<close> by (auto simp: no_space_def)
      next
        case f: False
        have "not_resized (m_file s) (snd ?r)" by (rule truncate_cases(2) [OF l(1) f])
        then show ?thesis
          using \<open>f_io (m_file s) \<noteq> []\<close> by (auto simp: no_space_def not_resized_def isFileValid_def)
      qed
      moreover have "expandAndWriteBack E newSize [] ?n sync s = (Inr False, ?t)" using run False by auto
      ultimately show thesis by (intro failed)
    next
      case ok: True
      have "resized (m_file s) (round_to_pages (page_size E) size) (snd ?r)"
        using truncate_cases(1) [OF l(1), of "page_size E" size] ok size(3) by auto
      moreover have "size \<le> round_to_pages (page_size E) size" by (rule round_to_pages_ge [OF assms(2)])
      ultimately have r: "size \<le> f_size (snd ?r)" "f_size (snd ?r) mod page_size E = 0" "f_size (snd ?r) = length (f_disk (snd ?r))" "f_ptr (snd ?r)"
        "take (f_size (m_file s)) (f_disk (snd ?r)) = take (f_size (m_file s)) (f_disk (m_file s))"
        using size(3) round_to_pages_mod by (auto simp: resized_def min_def split: if_splits)
      have "file_log ?t hdr es"
        by (rule file_log_take [of s]) (use s r size(3) in \<open>simp_all add: rewritable_def\<close>)
      then have t: "rewritable ?t hdr es"
        using s ok by (simp add: rewritable_def meta_ready_def read_meta_def)
      have "8 + length (enc_log (live es)) \<le> f_size (m_file ?t)" using size(2) r(1) by simp
      from doFullWriteBack_run [OF assms(1) t this small, of sync] obtain s' where
        s': "doFullWriteBack E [] ?n sync ?t = (Inr True, s')" "store_ok E s' (holder_bytes E) (live es)"
        "f_size (m_file s') = f_size (snd ?r)" "same_settings ?t s'" "rewritten ?t s'" by auto
      have "same_settings s ?t" using io r(1,3) size(3) by (simp add: same_settings_def grows_def)
      then have "same_settings s s'" using s'(4) by (rule same_settings_trans)
      moreover have "expandAndWriteBack E newSize [] ?n sync s = (Inr True, s')" using run ok s'(1) by simp
      moreover have "?need < f_size (m_file s')" "f_size (m_file s') mod page_size E = 0" using size(2) r(1,2) s'(3) by simp_all
      ultimately show thesis using s'(2,5) by (intro rewritten disjI2) (simp_all add: rewritten_def)
    qed
  qed
qed

lemma dic_of_None: "log_contents es k = None \<longleftrightarrow> dic_of pos es k = None"
proof -
  have "fst ` set (live_holders pos es) = fst ` set (live es)"
    unfolding live_at_snd [of pos es, symmetric] live_holders_def by force
  then show ?thesis by (simp add: log_contents_live dic_of_live map_of_eq_None_iff)
qed

lemma dic_of_empty: "dic_of pos es = Map.empty \<longleftrightarrow> log_contents es = Map.empty"
  using dic_of_None [of es _ pos] by (metis (no_types, lifting) ext)

text \<open>When there is room for \<open>n\<close> more bytes.\<close>

definition has_room :: "environment \<Rightarrow> nat \<Rightarrow> MMKV \<Rightarrow> byte list \<Rightarrow> log_entry list \<Rightarrow> bool" where
  "has_room E n s hdr es \<longleftrightarrow> store_ok E s hdr es \<and> hdr \<noteq> [] \<and> length hdr + length (enc_log es) + 4 + n < f_size (m_file s)"

text \<open>The log is as it was or has been written back.\<close>

definition same_log :: "environment \<Rightarrow> byte list \<Rightarrow> log_entry list \<Rightarrow> byte list \<Rightarrow> log_entry list \<Rightarrow> bool" where
  "same_log E hdr es hdr' es' \<longleftrightarrow> (hdr' = hdr \<and> es' = es) \<or> (hdr' = holder_bytes E \<and> es' = live es)"

lemma ensureMemorySize_run:
  assumes "iterates E" and "0 < page_size E" and s: "store_ok E s hdr es" and "\<not> m_enableKeyExpire s"
    and small: "4 + length (enc_log (live es)) < 2 ^ 32" and new: "n < 2 ^ 59"
  obtains (room) s' hdr' es' where "ensureMemorySize E n s = (Inr True, s')" "same_log E hdr es hdr' es'"
      "has_room E n s' hdr' es'" "same_settings s s'" "evolves E s hdr es s' hdr' es'"
  | (failed) s' where "ensureMemorySize E n s = (Inr False, s')" "no_space s s'"
proof -
  have l: "isFileValid (m_file s)" "\<not> m_readOnly s" "writable (m_actualSize s) s" "m_dic s = dic_of (length hdr) es"
    "in_range (length hdr) es" "header hdr es" "m_actualSize s = length hdr + length (enc_log es)"
    using s by (auto simp: store_ok_def log_ok_def file_log_def)
  from l(3) obtain out where out: "m_output s = Some out" "out_size out + 4 = f_size (m_file s)" "out_position out = m_actualSize s"
    by (rule writableE)
  have size: "prepareEncode E (m_dic s) = 4 + length (enc_log (live es))"
    unfolding l(4) by (rule sum_list_live [OF assms(1) l(5)])
  show thesis
  proof (cases "spaceLeft out \<le> n \<or> iterate E (m_dic s) = []")
    case True
    then have run: "ensureMemorySize E n s =
        expandAndWriteBack E n [] (4 + length (enc_log (live es))) (iterate E (m_dic s) \<noteq> []) s"
      using l(1,2) out(1) assms(4) size
      by (simp add: ensureMemorySize_def isFileValid_store_def bindC_def returnC_def)
    show thesis
    proof (rule expandAndWriteBack_run [OF assms(1,2) store_ok_rewritable [OF s] small new])
      fix s' assume "expandAndWriteBack E n [] (4 + length (enc_log (live es))) (iterate E (m_dic s) \<noteq> []) s = (Inr True, s')"
        "store_ok E s' (holder_bytes E) (live es)" "same_settings s s'"
        "4 + length (enc_log (live es)) + 4 + n < f_size (m_file s')" "rewritten s s'"
        "f_size (m_file s') = f_size (m_file s) \<or> f_size (m_file s') mod page_size E = 0"
      moreover have "holder_bytes E \<noteq> []" using length_holder_bytes [of E] by fastforce
      ultimately show thesis
        by (intro room [of s' "holder_bytes E" "live es"]) (simp_all add: run same_log_def has_room_def evolves_def)
    next
      fix s' assume "expandAndWriteBack E n [] (4 + length (enc_log (live es))) (iterate E (m_dic s) \<noteq> []) s = (Inr False, s')"
        "no_space s s'"
      then show thesis using run by (intro failed) simp_all
    qed
  next
    case False
    then have "ensureMemorySize E n s = (Inr True, s)"
      using l(1,2) out(1) by (simp add: ensureMemorySize_def isFileValid_store_def)
    moreover have "hdr \<noteq> []"
      using False l(4,6) iterate_empty [OF assms(1) finite_dic_of [of "length hdr" es]] by (auto simp: header_def)
    moreover have "length hdr + length (enc_log es) + 4 + n < f_size (m_file s)"
      using False out l(7) by (auto simp: spaceLeft_def split: if_splits)
    ultimately show thesis
      using s by (intro room [of s hdr es]) (simp_all add: same_log_def has_room_def evolves_refl)
  qed
qed

end
