(* ===== verification/MMKV_Append.thy ===== *)
theory MMKV_Append
  imports MMKV_Store
begin

text \<open>
  Appending an entry to a plain store: the bytes the writer puts behind the log, for a new key and for one
  it copies from its entry in the file; and where the file has the entry of a holder.
\<close>

unbundle bit_operations_syntax

section \<open>Writing an entry\<close>

text \<open>The value as it is stored: with its length in front when it is a data holder.\<close>

definition stored_value :: "byte list \<Rightarrow> bool \<Rightarrow> byte list" where
  "stored_value data isDataHolder = (if isDataHolder then enc_data data else data)"

definition valid_set :: "byte list \<Rightarrow> byte list \<Rightarrow> bool \<Rightarrow> bool" where
  "valid_set key data isDataHolder \<longleftrightarrow> key \<noteq> [] \<and> length key < 65526 \<and> short (stored_value data isDataHolder)"

lemma valid_setD:
  assumes "valid_set key data isDataHolder"
  shows "valid_entry (key, stored_value data isDataHolder)" and "short key" and "short data"
  using assms by (auto simp: valid_set_def valid_entry_def short_def stored_value_def enc_data_def split: if_splits)

lemma unat_add_small: "unat (a :: u32) + unat b < 2 ^ 32 \<Longrightarrow> unat (a + b) = unat a + unat b"
  by (simp add: unat_word_ariths)

lemma pbRawVarint32Size_short:
  assumes "short d"
  shows "pbRawVarint32Size (word_of_nat (length d)) = word_of_nat (length (varint (length d)))"
proof -
  have "unat (pbRawVarint32Size (word_of_nat (length d))) = length (varint (length d))"
    unfolding unat_pbRawVarint32Size short_facts(2) [OF assms] ..
  then show ?thesis by (metis of_nat_unat ucast_id)
qed

lemma value_length_stored:
  assumes "short data" and "short (stored_value data isDataHolder)"
  shows "value_length data isDataHolder = word_of_nat (length (stored_value data isDataHolder))"
    and "unat (value_length data isDataHolder) = length (stored_value data isDataHolder)"
proof -
  show "value_length data isDataHolder = word_of_nat (length (stored_value data isDataHolder))"
    using assms(1) by (simp add: value_length_def stored_value_def enc_data_short Let_def pbRawVarint32Size_short)
  then show "unat (value_length data isDataHolder) = length (stored_value data isDataHolder)"
    using assms(2) by (simp only: short_facts)
qed

text \<open>The sizes the code computes are the lengths of the encodings.\<close>

lemma size_with_varint:
  assumes "short d"
  shows "unat (word_of_nat (length d) + pbRawVarint32Size (word_of_nat (length d))) = length (enc_data d)"
proof -
  have "length d < 2 ^ 31" "length (varint (length d)) \<le> 5"
    using assms length_varint_short by (auto simp: short_def)
  then show ?thesis
    using assms by (subst unat_add_small) (simp_all add: short_facts unat_pbRawVarint32Size enc_data_short)
qed

lemma entry_size_enc:
  assumes "valid_set key data isDataHolder"
  shows "entry_size (length (enc_data key)) (value_length data isDataHolder) = length (enc_entry (key, stored_value data isDataHolder))"
    and "size_needed (length (enc_data key)) (value_length data isDataHolder) = length (enc_entry (key, stored_value data isDataHolder))"
proof -
  note v = valid_setD [OF assms]
  have s: "short (stored_value data isDataHolder)" using assms by (simp add: valid_set_def)
  note vl = value_length_stored [OF v(3) s]
  show "entry_size (length (enc_data key)) (value_length data isDataHolder) = length (enc_entry (key, stored_value data isDataHolder))"
    by (simp add: entry_size_def vl(1) size_with_varint [OF s] enc_entry_def)
  show "size_needed (length (enc_data key)) (value_length data isDataHolder) = length (enc_entry (key, stored_value data isDataHolder))"
    using vl s by (simp add: size_needed_def unat_pbRawVarint32Size enc_entry_def enc_data_short del: varint.simps)
qed

lemma KeyValueHolder_new_entry:
  assumes "valid_set key data isDataHolder"
  shows "KeyValueHolder_new (word_of_nat (length key)) (value_length data isDataHolder) (word_of_nat pos) =
    entry_holder pos (key, stored_value data isDataHolder)"
proof -
  note v = valid_setD [OF assms]
  have s: "short (stored_value data isDataHolder)" using assms by (simp add: valid_set_def)
  have k: "(ucast (word_of_nat (length key) :: u16) :: u32) = word_of_nat (length key)"
    using assms unat_word_of_nat_u16 [of "length key"] by (simp add: valid_set_def) (metis of_nat_unat)
  show ?thesis
    using v(2) s by (simp add: KeyValueHolder_new_def Let_def entry_holder_def value_length_stored [OF v(3) s]
        ucast_word_of_nat_u16 k pbRawVarint32Size_short enc_data_short)
qed

section \<open>The bytes of an entry\<close>

text \<open>An operation writes bytes at a position of the writer.\<close>

definition puts :: "(MMKV, unit) cpp \<Rightarrow> byte list \<Rightarrow> nat \<Rightarrow> MMKV \<Rightarrow> bool" where
  "puts op bs n s \<longleftrightarrow> (\<exists>out. op s = (Inr (), set_mem (mem_write (f_disk (m_file s)) (4 + n) bs) out s) \<and>
     writable (n + length bs) (set_mem (mem_write (f_disk (m_file s)) (4 + n) bs) out s))"

lemma puts_with_output:
  "writable n s \<Longrightarrow> writes_bytes op bs \<Longrightarrow> 4 + n + length bs \<le> f_size (m_file s) \<Longrightarrow> puts (with_output op) bs n s"
  unfolding puts_def by (rule with_output_writes)

lemma puts_bind:
  assumes "puts op bs n s" and "4 + n + length bs + length bs' \<le> f_size (m_file s)"
    and "f_size (m_file s) \<le> length (f_disk (m_file s))"
    and "\<And>t. writable (n + length bs) t \<Longrightarrow> m_file t = (m_file s)\<lparr>f_disk := mem_write (f_disk (m_file s)) (4 + n) bs\<rparr> \<Longrightarrow>
      puts op' bs' (n + length bs) t"
  shows "puts (bindC op (\<lambda>_. op')) (bs @ bs') n s"
proof -
  let ?d = "f_disk (m_file s)"
  obtain out where o: "op s = (Inr (), set_mem (mem_write ?d (4 + n) bs) out s)"
    "writable (n + length bs) (set_mem (mem_write ?d (4 + n) bs) out s)" using assms(1) by (auto simp: puts_def)
  let ?t = "set_mem (mem_write ?d (4 + n) bs) out s"
  have "puts op' bs' (n + length bs) ?t" by (rule assms(4) [OF o(2)]) simp
  then obtain out' where o': "op' ?t = (Inr (), set_mem (mem_write (mem_write ?d (4 + n) bs) (4 + n + length bs) bs') out' s)"
    "writable (n + length bs + length bs') (set_mem (mem_write (mem_write ?d (4 + n) bs) (4 + n + length bs) bs') out' s)"
    by (auto simp: puts_def add.assoc)
  have "mem_write (mem_write ?d (4 + n) bs) (4 + n + length bs) bs' = mem_write ?d (4 + n) (bs @ bs')"
    using assms(2,3) by (intro mem_write_mem_write_append) simp
  with o(1) o' show ?thesis by (auto simp: puts_def bindC_Inr add.assoc)
qed

lemma puts_return: "writable n s \<Longrightarrow> puts (returnC ()) [] n s"
proof (elim writableE)
  fix out assume w: "m_output s = Some out" "out_ptr out = 4" "out_size out + 4 = f_size (m_file s)" "out_position out = n"
    "f_ptr (m_file s)" "\<not> f_readOnly (m_file s)" "f_size (m_file s) \<le> length (f_disk (m_file s))"
  moreover have "set_mem (f_disk (m_file s)) out s = s" using w(1) by (cases s) (simp add: set_mem_def)
  ultimately show "puts (returnC ()) [] n s" by (auto simp: puts_def returnC_def writable_def intro!: exI [of _ out])
qed

text \<open>A buffer that holds given bytes and does not overlap what is written at position \<open>n\<close>.\<close>

fun buffer_holds :: "MMKV \<Rightarrow> nat \<Rightarrow> buffer \<Rightarrow> byte list \<Rightarrow> bool" where
  "buffer_holds s n (Owned xs) bs \<longleftrightarrow> xs = bs"
| "buffer_holds s n (InFile pos k) bs \<longleftrightarrow> k = length bs \<and> pos + k \<le> f_size (m_file s) \<and>
     mem_read (f_disk (m_file s)) pos k = bs \<and> (pos + k \<le> 4 + n \<or> pos = 4 + n \<or> 4 + n + k \<le> pos)"

lemma buffer_holds_length: "buffer_holds s n b bs \<Longrightarrow> buffer_length b = length bs"
  by (cases b) auto

lemma puts_writeRawData_buffer:
  assumes w: "writable n s" and b: "buffer_holds s n b bs" and "4 + n + length bs \<le> f_size (m_file s)"
  shows "puts (writeRawData_buffer b) bs n s"
proof -
  have p: "puts (with_output (writeRawData bs)) bs n s"
    using assms writes_bytes_ops(3) by (intro puts_with_output)
  show ?thesis
  proof (cases b)
    case (Owned xs)
    then have "writeRawData_buffer b s = with_output (writeRawData bs) s" using b by simp
    then show ?thesis using p by (simp add: puts_def)
  next
    case (InFile pos k)
    from w obtain out where out: "m_output s = Some out" "out_ptr out = 4" "out_size out + 4 = f_size (m_file s)"
      "out_position out = n" "f_ptr (m_file s)" by (rule writableE)
    have h: "k = length bs" "pos + k \<le> f_size (m_file s)" "mem_read (f_disk (m_file s)) pos k = bs"
      "pos + k \<le> 4 + n \<or> pos = 4 + n \<or> 4 + n + k \<le> pos" using b InFile by auto
    have "\<not> overlaps pos (curWritePointer out) k"
      using out(2,4) h(4) by (auto simp: overlaps_def curWritePointer_def)
    then have "writeRawData_buffer b s = with_output (writeRawData bs) s"
      using out(1,5) h(2,3) InFile by (simp add: memory_read_run bindC_Inr)
    then show ?thesis using p by (simp add: puts_def)
  qed
qed

text \<open>The key as the application gave it, or its encoding from the file.\<close>

definition key_buffer :: "MMKV \<Rightarrow> nat \<Rightarrow> buffer \<Rightarrow> byte list \<Rightarrow> bool" where
  "key_buffer s n b key \<longleftrightarrow> b = Owned key \<or> buffer_holds s n b (enc_data key)"

lemma puts_write_entry:
  assumes w: "writable n s" and v: "valid_set key data isDataHolder" and b: "key_buffer s n b key"
    and room: "4 + n + length (enc_entry (key, stored_value data isDataHolder)) \<le> f_size (m_file s)"
  shows "puts (write_entry data b isDataHolder (word_of_nat (length key))) (enc_entry (key, stored_value data isDataHolder)) n s"
proof -
  note vd = valid_setD [OF v]
  have sv: "short (stored_value data isDataHolder)" using v by (simp add: valid_set_def)
  have okl: "unat (word_of_nat (length key) :: u32) = length key" using vd(2) by (rule short_facts)
  have f: "f_size (m_file s) \<le> length (f_disk (m_file s))" using w by (auto simp: writable_def)
  have e: "enc_entry (key, stored_value data isDataHolder) = enc_data key @ enc_data (stored_value data isDataHolder)"
    by (simp add: enc_entry_def)
  have key: "puts (if unat (word_of_nat (length key) :: u32) < buffer_length b then writeRawData_buffer b else writeData_buffer b)
      (enc_data key) n s"
  proof (cases "b = Owned key")
    case True
    have "puts (bindC (with_output (writeRawVarint32 (word_of_nat (length key)))) (\<lambda>_. writeRawData_buffer (Owned key)))
        (varint (length key) @ key) n s"
    proof (rule puts_bind)
      show "puts (with_output (writeRawVarint32 (word_of_nat (length key)))) (varint (length key)) n s"
        using puts_with_output [OF w writes_bytes_ops(2), of "word_of_nat (length key)"] room vd(2) okl
        by (simp add: e enc_data_short)
      show "4 + n + length (varint (length key)) + length key \<le> f_size (m_file s)"
        using room vd(2) by (simp add: e enc_data_short)
      fix t assume "writable (n + length (varint (length key))) t"
        "m_file t = (m_file s)\<lparr>f_disk := mem_write (f_disk (m_file s)) (4 + n) (varint (length key))\<rparr>"
      then show "puts (writeRawData_buffer (Owned key)) key (n + length (varint (length key))) t"
        using room vd(2) by (intro puts_writeRawData_buffer) (simp_all add: e enc_data_short)
    qed (rule f)
    then show ?thesis using True okl vd(2) by (simp add: writeData_buffer_def enc_data_short)
  next
    case False
    then have h: "buffer_holds s n b (enc_data key)" using b by (simp add: key_buffer_def)
    have "length key < buffer_length b"
      using buffer_holds_length [OF h] length_varint_gt_0 [of "length key"] vd(2) by (simp add: enc_data_short)
    then show ?thesis
      using puts_writeRawData_buffer [OF w h] room okl by (simp add: e)
  qed
  have val: "puts (bindC (if isDataHolder then with_output (writeRawVarint32 (value_length data isDataHolder)) else returnC ())
      (\<lambda>_. with_output (writeData data))) (enc_data (stored_value data isDataHolder)) m t"
    if t: "writable m t" "4 + m + length (enc_data (stored_value data isDataHolder)) \<le> f_size (m_file t)" for m t
  proof (cases isDataHolder)
    case True
    let ?l = "varint (length (enc_data data))"
    have sd: "short (enc_data data)" using sv True by (simp add: stored_value_def)
    have en: "enc_data (stored_value data isDataHolder) = ?l @ enc_data data"
      using True sd by (simp add: stored_value_def enc_data_short [of "enc_data data"])
    have "puts (bindC (with_output (writeRawVarint32 (value_length data isDataHolder))) (\<lambda>_. with_output (writeData data)))
        (?l @ enc_data data) m t"
    proof (rule puts_bind)
      show "puts (with_output (writeRawVarint32 (value_length data isDataHolder))) ?l m t"
        using puts_with_output [OF t(1) writes_bytes_ops(2), of "value_length data isDataHolder"] t(2)
          value_length_stored(2) [OF vd(3) sv] True unfolding en by (simp add: stored_value_def)
      show "4 + m + length ?l + length (enc_data data) \<le> f_size (m_file t)" using t(2) unfolding en by simp
      show "f_size (m_file t) \<le> length (f_disk (m_file t))" using t(1) by (auto simp: writable_def)
      fix u assume "writable (m + length ?l) u" "m_file u = (m_file t)\<lparr>f_disk := mem_write (f_disk (m_file t)) (4 + m) ?l\<rparr>"
      then show "puts (with_output (writeData data)) (enc_data data) (m + length ?l) u"
        using t(2) unfolding en by (intro puts_with_output writes_bytes_ops) simp_all
    qed
    then show ?thesis unfolding en using True by simp
  next
    case False
    have "puts (bindC (returnC ()) (\<lambda>_. with_output (writeData data))) ([] @ enc_data data) m t"
    proof (rule puts_bind)
      show "puts (returnC ()) [] m t" by (rule puts_return [OF t(1)])
      show "4 + m + length ([] :: byte list) + length (enc_data data) \<le> f_size (m_file t)"
        using t(2) False by (simp add: stored_value_def)
      show "f_size (m_file t) \<le> length (f_disk (m_file t))" using t(1) by (auto simp: writable_def)
      fix u assume "writable (m + length ([] :: byte list)) u"
        "m_file u = (m_file t)\<lparr>f_disk := mem_write (f_disk (m_file t)) (4 + m) []\<rparr>"
      then show "puts (with_output (writeData data)) (enc_data data) (m + length ([] :: byte list)) u"
        using t(2) False by (intro puts_with_output writes_bytes_ops) (simp_all add: stored_value_def)
    qed
    then show ?thesis using False by (simp add: stored_value_def)
  qed
  show ?thesis
    unfolding e write_entry_def
  proof (rule puts_bind [OF key _ f])
    show "4 + n + length (enc_data key) + length (enc_data (stored_value data isDataHolder)) \<le> f_size (m_file s)"
      using room by (simp add: e)
    fix t assume "writable (n + length (enc_data key)) t"
      "m_file t = (m_file s)\<lparr>f_disk := mem_write (f_disk (m_file s)) (4 + n) (enc_data key)\<rparr>"
    then show "puts (bindC (if isDataHolder then with_output (writeRawVarint32 (value_length data isDataHolder)) else returnC ())
        (\<lambda>_. with_output (writeData data))) (enc_data (stored_value data isDataHolder)) (n + length (enc_data key)) t"
      using room by (intro val) (simp_all add: e)
  qed
qed

section \<open>Appending\<close>

text \<open>The law of the checksum function that the incremental update relies on.\<close>

definition crc_append :: "environment \<Rightarrow> bool" where
  "crc_append E \<longleftrightarrow> (\<forall>c xs ys. crc32 E c (xs @ ys) = crc32 E (crc32 E c xs) ys)"

lemma raw_key_size_buffer:
  assumes "short key" and "length key < 65526" and "key_buffer s n b key"
  shows "raw_key_size b (word_of_nat (length key)) = length (enc_data key)"
proof (cases "b = Owned key")
  case True
  then show ?thesis using assms size_with_varint [OF assms(1)] by (simp add: raw_key_size_def short_facts)
next
  case False
  then have h: "buffer_holds s n b (enc_data key)" using assms(3) by (simp add: key_buffer_def)
  have l: "length (enc_data key) = length (varint (length key)) + length key" using assms(1) by (simp add: enc_data_short)
  have gt: "length key < length (enc_data key)" using length_varint_gt_0 [of "length key"] by (simp add: l)
  have "unat (word_of_nat (length (enc_data key)) :: u32) = length (enc_data key)"
    using length_enc_data_le [of key] assms(2) by (intro unat_word_of_nat_u32) simp
  then show ?thesis
    using gt short_facts(2) [OF assms(1)] by (simp add: raw_key_size_def buffer_holds_length [OF h])
qed

text \<open>\<open>catch_all\<close> around a write that fits.\<close>

lemma catch_all_puts:
  assumes "puts op bs n s"
  obtains out where "catch_all (bindC op (\<lambda>_. returnC True)) False s =
      (Inr True, set_mem (mem_write (f_disk (m_file s)) (4 + n) bs) out s)"
    and "writable (n + length bs) (set_mem (mem_write (f_disk (m_file s)) (4 + n) bs) out s)"
  using assms by (auto simp: puts_def catch_all_def bindC_Inr returnC_def)

lemma entry_in_range:
  assumes "in_range pos es" and "valid_set key data isDataHolder"
    and "pos + length (enc_log es) + length (enc_entry (key, stored_value data isDataHolder)) < 2 ^ 32"
  shows "in_range pos (es @ [(key, stored_value data isDataHolder)])"
  using assms valid_setD(1) [OF assms(2)] by (auto simp: in_range_def valid_set_def)

lemma header_append: "header hdr es \<Longrightarrow> hdr \<noteq> [] \<Longrightarrow> header hdr es'"
  by (auto simp: header_def)

text \<open>The store after an entry is written, before the dictionary knows it.\<close>

definition appended :: "environment \<Rightarrow> MMKV \<Rightarrow> byte list \<Rightarrow> log_entry list \<Rightarrow> bool" where
  "appended E s hdr es \<longleftrightarrow> es \<noteq> [] \<and> log_ok s hdr es \<and> meta_current E s (hdr @ enc_log es) \<and>
     m_dic s = dic_of (length hdr) (butlast es)"

lemma log_ok_bound: "log_ok s hdr es \<Longrightarrow> 4 + m_actualSize s \<le> f_size (m_file s)"
  by (simp add: log_ok_def file_log_def)

lemma append_written:
  assumes "crc_append E" and s: "store_ok E s hdr es" and "hdr \<noteq> []" and v: "valid_set key data isDataHolder"
    and b: "key_buffer s (m_actualSize s) b key"
    and room: "length hdr + length (enc_log es) + 4 + length (enc_entry (key, stored_value data isDataHolder)) \<le> f_size (m_file s)"
    and small: "length hdr + length (enc_log es) + length (enc_entry (key, stored_value data isDataHolder)) < 2 ^ 32"
  defines "kv \<equiv> (key, stored_value data isDataHolder)"
  shows "\<exists>s'. bindC (catch_all (bindC (write_entry data b isDataHolder (word_of_nat (length key))) (\<lambda>_. returnC True)) False)
      (\<lambda>written s. if \<not> written then (Inr (False, KeyValueHolder_default), s)
         else let off = word_of_nat (m_actualSize s);
                  ptr = 4 + m_actualSize s;
                  s = s\<lparr>m_actualSize := m_actualSize s + length (enc_entry kv)\<rparr>
              in bindC (updateCRCDigest E ptr (length (enc_entry kv)))
                   (\<lambda>_. returnC (True, KeyValueHolder_new (word_of_nat (length key)) (value_length data isDataHolder) off)) s) s =
      (Inr (True, entry_holder (length hdr + length (enc_log es)) kv), s') \<and>
    appended E s' hdr (es @ [kv]) \<and> same_settings s s' \<and> f_size (m_file s') = f_size (m_file s) \<and>
    same_generation (m_metaInfo s) (m_metaInfo s')"
proof -
  let ?n = "m_actualSize s" and ?e = "enc_entry kv" and ?d = "f_disk (m_file s)"
  let ?d' = "mem_write ?d (4 + ?n) ?e"
  have l: "f_ptr (m_file s)" "\<not> f_readOnly (m_file s)" "f_size (m_file s) \<le> length ?d" "writable ?n s" "\<not> m_readOnly s"
    "?n = length hdr + length (enc_log es)" "mem_read ?d 4 ?n = hdr @ enc_log es" "isFileValid (m_file s)"
    "header hdr es" "in_range (length hdr) es" "m_dic s = dic_of (length hdr) es" "\<not> m_needLoadFromFile s"
    and meta: "meta_ready s" "m_crcDigest s = crc32 E 0 (hdr @ enc_log es)"
    using s by (auto simp: store_ok_def log_ok_def file_log_def meta_current_def)
  have fit: "4 + ?n + length ?e \<le> f_size (m_file s)" using room l(6) by (simp add: kv_def)
  have "puts (write_entry data b isDataHolder (word_of_nat (length key))) ?e ?n s"
    unfolding kv_def using puts_write_entry [OF l(4) v b] fit by (simp add: kv_def)
  then obtain out where w: "catch_all (bindC (write_entry data b isDataHolder (word_of_nat (length key))) (\<lambda>_. returnC True)) False s =
      (Inr True, set_mem ?d' out s)" "writable (?n + length ?e) (set_mem ?d' out s)"
    by (rule catch_all_puts)
  let ?t = "(set_mem ?d' out s)\<lparr>m_actualSize := ?n + length ?e\<rparr>" and ?c = "crc32 E 0 (hdr @ enc_log (es @ [kv]))"
  have read: "mem_read ?d' (4 + ?n) (length ?e) = ?e" and old: "mem_read ?d' 4 ?n = hdr @ enc_log es"
    using fit l(3,7) by (simp_all add: mem_read_mem_write_disjoint)
  have len: "length ?d' = length ?d" using fit l(3) by simp
  have r: "memory_read (4 + ?n) (unat (word_of_nat (length ?e) :: u32)) ?t = (Inr ?e, ?t)"
    using small fit l(1) read unat_word_of_nat_u32 [of "length ?e"] by (simp add: memory_read_run kv_def)
  have crc: "crc32 E (m_crcDigest s) ?e = ?c"
    using assms(1) meta(2) by (simp add: crc_append_def)
  obtain m where m: "m = fst (update_meta (?n + length ?e) ?c None False (m_metaInfo (?t\<lparr>m_crcDigest := ?c\<rparr>)))" by blast
  have "meta_ready (?t\<lparr>m_crcDigest := ?c\<rparr>)" using meta(1) by (simp add: meta_ready_def read_meta_def)
  then obtain e where e: "writeActualSize (?n + length ?e) ?c None False (?t\<lparr>m_crcDigest := ?c\<rparr>) =
      (Inr True, set_meta (?n + length ?e) ?c m e (?t\<lparr>m_crcDigest := ?c\<rparr>))"
    "meta_ready (set_meta (?n + length ?e) ?c m e (?t\<lparr>m_crcDigest := ?c\<rparr>))" "length e = length (f_disk (m_metaFile s))"
    using writeActualSize_run [OF _ _ _ m] l(5) by simp blast
  let ?u = "set_meta (?n + length ?e) ?c m e ?t"
  have same: "set_meta (?n + length ?e) ?c m e (?t\<lparr>m_crcDigest := ?c\<rparr>) = ?u" by (simp add: set_meta_def)
  have up: "updateCRCDigest E (4 + ?n) (length ?e) ?t = (Inr (), ?u)"
    using r e(1) unfolding same by (simp add: updateCRCDigest_def bindC_Inr Let_def crc returnC_def)
  have holder: "KeyValueHolder_new (word_of_nat (length key)) (value_length data isDataHolder) (word_of_nat ?n) =
      entry_holder (length hdr + length (enc_log es)) kv"
    unfolding kv_def l(6) by (rule KeyValueHolder_new_entry [OF v])
  have fl: "file_log ?u hdr (es @ [kv])"
    using l fit old read len entry_in_range [OF l(10) v] small header_append [OF l(9) assms(3)]
    by (simp add: file_log_def kv_def mem_read_add add.assoc)
  have lo: "log_ok ?u hdr (es @ [kv])"
    using fl l w(2) by (simp add: log_ok_def isFileValid_def writable_def)
  have "meta_current E ?u (hdr @ enc_log (es @ [kv]))"
    using e(2) [unfolded same] update_meta_sel [of "?n + length ?e" ?c None False "m_metaInfo (?t\<lparr>m_crcDigest := ?c\<rparr>)", folded m]
    by (simp add: meta_current_def)
  with lo have "appended E ?u hdr (es @ [kv])" using l(11) by (simp add: appended_def)
  moreover have "same_settings s ?u" using e(3) len by (simp add: same_settings_def)
  moreover have "same_generation (m_metaInfo s) (m_metaInfo ?u)"
    using same_generation_append meta(1) by (simp add: m meta_ready_def)
  ultimately show ?thesis
    using w(1) up holder by (intro exI [of _ ?u]) (simp add: bindC_Inr Let_def returnC_def)
qed

text \<open>What the environment has to do: iterate dictionaries, map pages, compute checksums piece by piece.\<close>

definition env_ok :: "environment \<Rightarrow> bool" where
  "env_ok E \<longleftrightarrow> iterates E \<and> 0 < page_size E \<and> crc_append E"

lemma env_okD: "env_ok E \<Longrightarrow> iterates E" "env_ok E \<Longrightarrow> 0 < page_size E" "env_ok E \<Longrightarrow> crc_append E"
  by (simp_all add: env_ok_def)

text \<open>An operation that did not do its work, because of the size limit or the operating system: as long as
  the file is mapped, the store holds what it held.\<close>

definition unchanged :: "environment \<Rightarrow> MMKV \<Rightarrow> log_entry list \<Rightarrow> MMKV \<Rightarrow> bool" where
  "unchanged E s es t \<longleftrightarrow> (m_itemSizeLimit s \<noteq> 0 \<or> f_io (m_file s) \<noteq> []) \<and> same_settings s t \<and>
     (isFileValid (m_file t) \<longrightarrow> (\<exists>hdr' es'. store_ok E t hdr' es' \<and> log_contents es' = log_contents es \<and>
        length (enc_log es') \<le> length (enc_log es)))"

lemma same_log_contents: "same_log E hdr es hdr' es' \<Longrightarrow> log_contents es' = log_contents es"
  by (auto simp: same_log_def log_contents_live_log)

lemma unchanged_no_space: "store_ok E s hdr es \<Longrightarrow> no_space s t \<Longrightarrow> unchanged E s es t"
  using no_space_store_ok [of E s hdr es t] by (auto simp: unchanged_def no_space_def same_settings_def)

lemma same_log_length: "same_log E hdr es hdr' es' \<Longrightarrow> length (enc_log es') \<le> length (enc_log es)"
  using length_enc_log_live by (auto simp: same_log_def)

text \<open>The entry is over the size limit.\<close>

lemma unchanged_limit:
  assumes "store_ok E t hdr' es'" and "same_log E hdr es hdr' es'" and "same_settings s t" and "\<not> checkSizeLimit n t"
  shows "unchanged E s es t"
  using assms(1,3,4) same_log_contents [OF assms(2)] same_log_length [OF assms(2)]
  by (auto simp: unchanged_def checkSizeLimit_def same_settings_def)

lemma same_log_refl: "same_log E hdr es hdr es"
  by (simp add: same_log_def)

text \<open>With room, nothing is rewritten.\<close>

lemma ensure_room:
  assumes "iterates E" and "has_room E n s hdr es" and "m_dic s \<noteq> Map.empty"
  shows "ensureMemorySize E n s = (Inr True, s)"
proof -
  have l: "isFileValid (m_file s)" "\<not> m_readOnly s" "writable (m_actualSize s) s" "m_dic s = dic_of (length hdr) es"
    "m_actualSize s = length hdr + length (enc_log es)" "length hdr + length (enc_log es) + 4 + n < f_size (m_file s)"
    using assms(2) by (auto simp: has_room_def store_ok_def log_ok_def)
  from l(3) obtain out where out: "m_output s = Some out" "out_size out + 4 = f_size (m_file s)" "out_position out = m_actualSize s"
    by (rule writableE)
  have "iterate E (m_dic s) \<noteq> []"
    using iterate_empty [OF assms(1) finite_dic_of [of "length hdr" es]] assms(3) l(4) by simp
  moreover have "\<not> spaceLeft out \<le> n" using out l(5,6) by (simp add: spaceLeft_def)
  ultimately show ?thesis
    using l(1,2) out(1) by (simp add: ensureMemorySize_def isFileValid_store_def)
qed

lemma doAppend_after:
  assumes "env_ok E" and v: "valid_set key data isDataHolder"
    and en: "ensureMemorySize E (length (enc_entry (key, stored_value data isDataHolder))) s = (Inr True, t)"
    and t: "has_room E (length (enc_entry (key, stored_value data isDataHolder))) t hdr es"
    and small: "length hdr + length (enc_log es) + length (enc_entry (key, stored_value data isDataHolder)) < 2 ^ 32"
    and b: "key_buffer t (m_actualSize t) b key" and b': "key_buffer s (m_actualSize s) b key"
    and limit: "checkSizeLimit (length (enc_entry (key, stored_value data isDataHolder))) s"
  shows "\<exists>s'. doAppendDataWithKey E data b isDataHolder (word_of_nat (length key)) s =
      (Inr (True, entry_holder (length hdr + length (enc_log es)) (key, stored_value data isDataHolder)), s') \<and>
    appended E s' hdr (es @ [(key, stored_value data isDataHolder)]) \<and> same_settings t s' \<and> f_size (m_file s') = f_size (m_file t) \<and>
    same_generation (m_metaInfo t) (m_metaInfo s')"
proof -
  let ?kv = "(key, stored_value data isDataHolder)"
  have key: "short key" "length key < 65526" using valid_setD(2) [OF v] v by (auto simp: valid_set_def)
  have n: "entry_size (raw_key_size b (word_of_nat (length key))) (value_length data isDataHolder) = length (enc_entry ?kv)"
    unfolding raw_key_size_buffer [OF key b] by (rule entry_size_enc(1) [OF v])
  have st: "store_ok E t hdr es" "hdr \<noteq> []" "length hdr + length (enc_log es) + 4 + length (enc_entry ?kv) \<le> f_size (m_file t)"
    using t by (auto simp: has_room_def)
  then have "isFileValid (m_file t)" by (simp add: store_ok_def log_ok_def)
  from append_written [OF env_okD(3) [OF assms(1)] st(1,2) v b st(3) small]
  obtain s' where s': "bindC (catch_all (bindC (write_entry data b isDataHolder (word_of_nat (length key))) (\<lambda>_. returnC True)) False)
      (\<lambda>written s. if \<not> written then (Inr (False, KeyValueHolder_default), s)
         else let off = word_of_nat (m_actualSize s);
                  ptr = 4 + m_actualSize s;
                  s = s\<lparr>m_actualSize := m_actualSize s + length (enc_entry ?kv)\<rparr>
              in bindC (updateCRCDigest E ptr (length (enc_entry ?kv)))
                   (\<lambda>_. returnC (True, KeyValueHolder_new (word_of_nat (length key)) (value_length data isDataHolder) off)) s) t =
      (Inr (True, entry_holder (length hdr + length (enc_log es)) ?kv), s')"
    "appended E s' hdr (es @ [?kv])" "same_settings t s'" "f_size (m_file s') = f_size (m_file t)"
    "same_generation (m_metaInfo t) (m_metaInfo s')" by blast
  have "doAppendDataWithKey E data b isDataHolder (word_of_nat (length key)) s =
      (Inr (True, entry_holder (length hdr + length (enc_log es)) ?kv), s')"
    unfolding doAppendDataWithKey_def Let_def n
    using limit en s'(1) [unfolded Let_def] \<open>isFileValid (m_file t)\<close> by (simp add: bindC_Inr isFileValid_store_def)
  with s'(2-5) show ?thesis by blast
qed

lemma evolves_append:
  assumes "evolves E s hdr es t hdr' es'" and "f_size (m_file u) = f_size (m_file t)"
    and "same_generation (m_metaInfo t) (m_metaInfo u)"
  shows "evolves E s hdr es u hdr' (es' @ [kv])"
  using assms same_generation_trans same_generation_sequence [OF assms(3)] by (auto simp: evolves_def rewritten_def)

text \<open>The bound under which the 32-bit sizes of the code do not wrap.\<close>

definition below_4GB :: "log_entry list \<Rightarrow> log_entry \<Rightarrow> bool" where
  "below_4GB es kv \<longleftrightarrow> 10 + length (enc_log es) + length (enc_entry kv) < 2 ^ 32"

lemma below_4GB_entry: "below_4GB es kv \<Longrightarrow> length (enc_entry kv) < 2 ^ 59"
  by (simp add: below_4GB_def)

lemma below_4GB_same_log:
  assumes "below_4GB es kv" and "same_log E hdr es hdr' es'" and "header hdr es"
  shows "length hdr' + length (enc_log es') + length (enc_entry kv) < 2 ^ 32"
    and "below_4GB es' kv" and "4 + length (enc_log (live es)) < 2 ^ 32"
  using assms length_enc_log_live [of es] by (auto simp: below_4GB_def same_log_def header_def)

lemma store_ok_header: "store_ok E s hdr es \<Longrightarrow> header hdr es"
  by (simp add: store_ok_def log_ok_def file_log_def)

lemma doAppend_Owned:
  assumes "env_ok E" and s: "store_ok E s hdr es" and "\<not> m_enableKeyExpire s" and v: "valid_set key data isDataHolder"
    and small: "below_4GB es (key, stored_value data isDataHolder)"
  obtains (written) s' hdr' es' where
      "doAppendDataWithKey E data (Owned key) isDataHolder (word_of_nat (length key)) s =
        (Inr (True, entry_holder (length hdr' + length (enc_log es')) (key, stored_value data isDataHolder)), s')"
      "same_log E hdr es hdr' es'" "appended E s' hdr' (es' @ [(key, stored_value data isDataHolder)])" "same_settings s s'"
      "evolves E s hdr es s' hdr' (es' @ [(key, stored_value data isDataHolder)])"
  | (failed) s' where
      "doAppendDataWithKey E data (Owned key) isDataHolder (word_of_nat (length key)) s = (Inr (False, KeyValueHolder_default), s')"
      "unchanged E s es s'"
proof -
  let ?kv = "(key, stored_value data isDataHolder)"
  have key: "short key" "length key < 65526" using valid_setD(2) [OF v] v by (auto simp: valid_set_def)
  have b: "key_buffer t m (Owned key) key" for t m by (simp add: key_buffer_def)
  have n: "entry_size (raw_key_size (Owned key) (word_of_nat (length key))) (value_length data isDataHolder) = length (enc_entry ?kv)"
    unfolding raw_key_size_buffer [OF key b] by (rule entry_size_enc(1) [OF v])
  have hdr: "header hdr es" by (rule store_ok_header [OF s])
  show thesis
  proof (cases "checkSizeLimit (length (enc_entry ?kv)) s")
    case False
    then have "doAppendDataWithKey E data (Owned key) isDataHolder (word_of_nat (length key)) s =
        (Inr (False, KeyValueHolder_default), s)"
      by (simp add: doAppendDataWithKey_def Let_def n)
    moreover have "unchanged E s es s" by (rule unchanged_limit [OF s same_log_refl _ False]) simp
    ultimately show thesis by (rule failed)
  next
    case True
    have small': "4 + length (enc_log (live es)) < 2 ^ 32"
      using below_4GB_same_log(3) [of es _ E hdr hdr es, OF small _ hdr] by (simp add: same_log_def)
    show thesis
    proof (rule ensureMemorySize_run [OF env_okD(1,2) [OF assms(1)] s assms(3) small' below_4GB_entry [OF small]])
      fix t hdr' es' assume t: "ensureMemorySize E (length (enc_entry ?kv)) s = (Inr True, t)" "same_log E hdr es hdr' es'"
        "has_room E (length (enc_entry ?kv)) t hdr' es'" "same_settings s t" "evolves E s hdr es t hdr' es'"
      from doAppend_after [OF assms(1) v t(1,3) below_4GB_same_log(1) [OF small t(2) hdr] b b True]
      obtain s' where s': "doAppendDataWithKey E data (Owned key) isDataHolder (word_of_nat (length key)) s =
          (Inr (True, entry_holder (length hdr' + length (enc_log es')) ?kv), s')"
        "appended E s' hdr' (es' @ [?kv])" "same_settings t s'" "f_size (m_file s') = f_size (m_file t)"
        "same_generation (m_metaInfo t) (m_metaInfo s')" by blast
      from s'(1) t(2) s'(2) same_settings_trans [OF t(4) s'(3)] evolves_append [OF t(5) s'(4,5)] show thesis by (rule written)
    next
      fix t assume t: "ensureMemorySize E (length (enc_entry ?kv)) s = (Inr False, t)" "no_space s t"
      then have "doAppendDataWithKey E data (Owned key) isDataHolder (word_of_nat (length key)) s =
          (Inr (False, KeyValueHolder_default), t)"
        unfolding doAppendDataWithKey_def Let_def n using True t(1) by (simp add: bindC_def)
      then show thesis using unchanged_no_space [OF s t(2)] by (rule failed)
    qed
  qed
qed

section \<open>Keys that are in the dictionary\<close>

lemma dic_of_Some:
  assumes "dic_of pos es key = Some h"
  obtains p v where "(p, (key, v)) \<in> set (live_at pos es)" and "h = entry_holder p (key, v)"
  using assms map_of_SomeD unfolding dic_of_live live_holders_def by (fastforce split: prod.splits)

lemma log_entry_bytes:
  "mem_read base pos (length (enc_log es)) = enc_log es \<Longrightarrow> (p, kv) \<in> set (live_at pos es) \<Longrightarrow>
   mem_read base p (length (enc_entry kv)) = enc_entry kv"
proof (induction es arbitrary: pos)
  case (Cons e es)
  let ?n = "length (enc_entry e)"
  have split: "mem_read base pos ?n @ mem_read base (pos + ?n) (length (enc_log es)) = enc_entry e @ enc_log es"
    using Cons.prems(1) by (simp add: mem_read_add)
  have "length (mem_read base pos ?n) = ?n"
    using arg_cong [OF Cons.prems(1), of length] by (simp add: mem_read_def)
  with split have "mem_read base pos ?n = enc_entry e" "mem_read base (pos + ?n) (length (enc_log es)) = enc_log es"
    by simp_all
  then show ?case using Cons.IH [of "pos + ?n"] Cons.prems(2) by (auto split: if_splits)
qed simp

text \<open>Where the file has the entry of a holder.\<close>

lemma located:
  assumes s: "store_ok E s hdr es" and d: "m_dic s key = Some h"
  obtains p v where "(p, (key, v)) \<in> set (live_at (length hdr) es)" and "h = entry_holder p (key, v)"
    and "unat (offset h) = p" and "encoded_key_size h = length (enc_data key)"
    and "p + length (enc_entry (key, v)) \<le> m_actualSize s"
    and "mem_read (f_disk (m_file s)) (4 + p) (length (enc_entry (key, v))) = enc_entry (key, v)"
    and "unat (computedKVSize h) + unat (valueSize h) = length (enc_entry (key, v))" and "unat (valueSize h) = length v"
    and "ucast (keySize h) = (word_of_nat (length key) :: u32)" and "log_contents es key = Some v"
proof -
  have l: "m_dic s = dic_of (length hdr) es" "in_range (length hdr) es" "m_actualSize s = length hdr + length (enc_log es)"
    "mem_read (f_disk (m_file s)) 4 (m_actualSize s) = hdr @ enc_log es" "4 + m_actualSize s \<le> f_size (m_file s)"
    "f_size (m_file s) \<le> length (f_disk (m_file s))"
    using s by (auto simp: store_ok_def log_ok_def file_log_def)
  from d l(1) obtain p v where pv: "(p, (key, v)) \<in> set (live_at (length hdr) es)" "h = entry_holder p (key, v)"
    by (auto elim: dic_of_Some)
  note e = in_range_entry [OF l(2) pv(1)]
  have valid: "valid_entry (key, v)" "(key, v) \<in> set es" using e(5) live_at_keys [OF pv(1)] by auto
  then have k: "short key" "short v" "length key < 65526" using l(2) by (auto simp: valid_entry_def in_range_def)
  have "mem_read (f_disk (m_file s)) 4 (length hdr) @ mem_read (f_disk (m_file s)) (4 + length hdr) (length (enc_log es)) =
      hdr @ enc_log es"
    using l(3,4) by (simp add: mem_read_add)
  moreover have "length (mem_read (f_disk (m_file s)) 4 (length hdr)) = length hdr" using l(3,5,6) by simp
  ultimately have "mem_read (drop 4 (f_disk (m_file s))) (length hdr) (length (enc_log es)) = enc_log es"
    by (simp add: mem_read_def add.commute)
  from log_entry_bytes [OF this pv(1)]
  have bytes: "mem_read (f_disk (m_file s)) (4 + p) (length (enc_entry (key, v))) = enc_entry (key, v)"
    by (simp add: mem_read_def add.commute)
  have "p + length (enc_entry (key, v)) \<le> m_actualSize s"
    using live_at_start [OF in_range_valid [OF l(2)] pv(1)] l(3) by simp
  moreover have ks: "ucast (keySize h) = (word_of_nat (length key) :: u32)"
    using unat_word_of_nat_u16 [of "length key"] k(3) by (simp add: pv(2) entry_holder_def) (metis of_nat_unat)
  moreover have "encoded_key_size h = length (enc_data key)"
    using size_with_varint [OF k(1)] by (simp add: encoded_key_size_def ks)
  moreover have "unat (valueSize h) = length v" using k(2) by (simp add: pv(2) entry_holder_def short_facts)
  moreover have "unat (computedKVSize h) + unat (valueSize h) = length (enc_entry (key, v))"
    using e(4) k unat_word_of_nat_u16 [of "length (enc_data key) + length (varint (length v))"]
    by (simp add: pv(2) entry_holder_def short_facts addressable_def enc_entry_def enc_data_short)
  moreover have "log_contents es key = Some v"
    using pv(1) distinct_live_at [of "length hdr" es]
    unfolding log_contents_live live_at_snd [of "length hdr" es, symmetric]
    by (intro map_of_is_SomeI) (force simp: comp_def image_iff)+
  ultimately show thesis using that pv e(1) bytes by blast
qed

lemma checkLoadData_loaded: "store_ok E s hdr es \<Longrightarrow> checkLoadData E iv s = (Inr (), s)"
  by (simp add: store_ok_def log_ok_def meta_current_def meta_ready_def checkLoadData_def checkLoadData_body_def Let_def)

lemma has_room_mono: "has_room E n s hdr es \<Longrightarrow> store_ok E s hdr es"
  by (simp add: has_room_def)

lemma mem_read_parts:
  assumes "mem_read m a (length (xs @ ys)) = xs @ ys"
  shows "mem_read m a (length xs) = xs" and "mem_read m (a + length xs) (length ys) = ys"
  using arg_cong [OF assms, of "take (length xs)"] arg_cong [OF assms, of "drop (length xs)"]
  by (simp_all add: mem_read_def drop_take add.commute)

text \<open>The key of an entry in the file, as the writer gets it.\<close>

lemma key_buffer_located:
  assumes "store_ok E s hdr es" and "p + length (enc_entry (key, v)) \<le> m_actualSize s"
    and "mem_read (f_disk (m_file s)) (4 + p) (length (enc_entry (key, v))) = enc_entry (key, v)"
  shows "key_buffer s (m_actualSize s) (InFile (4 + p) (length (enc_data key))) key"
    and "mem_read (f_disk (m_file s)) (4 + p) (length (enc_data key)) = enc_data key"
proof -
  have e: "enc_entry (key, v) = enc_data key @ enc_data v" by (simp add: enc_entry_def)
  have l: "4 + m_actualSize s \<le> f_size (m_file s)" "f_size (m_file s) \<le> length (f_disk (m_file s))"
    using assms(1) by (auto simp: store_ok_def log_ok_def file_log_def)
  show r: "mem_read (f_disk (m_file s)) (4 + p) (length (enc_data key)) = enc_data key"
    by (rule mem_read_parts(1) [OF assms(3) [unfolded e]])
  then show "key_buffer s (m_actualSize s) (InFile (4 + p) (length (enc_data key))) key"
    using assms(2) l unfolding e by (simp add: key_buffer_def)
qed

lemma dic_of_not_empty: "m_dic s key = Some h \<Longrightarrow> m_dic s \<noteq> Map.empty"
  by auto

lemma appendDataWithHolder_run:
  assumes "env_ok E" and s: "store_ok E s hdr es" and "\<not> m_enableKeyExpire s" and v: "valid_set key data isDataHolder"
    and small: "below_4GB es (key, stored_value data isDataHolder)" and d: "m_dic s key = Some h"
  obtains (written) s' hdr' es' where
      "appendDataWithHolder E data key isDataHolder s =
        (Inr (True, entry_holder (length hdr' + length (enc_log es')) (key, stored_value data isDataHolder)), s')"
      "same_log E hdr es hdr' es'" "appended E s' hdr' (es' @ [(key, stored_value data isDataHolder)])" "same_settings s s'"
      "evolves E s hdr es s' hdr' (es' @ [(key, stored_value data isDataHolder)])"
  | (failed) s' where
      "appendDataWithHolder E data key isDataHolder s = (Inr (False, KeyValueHolder_default), s')" "unchanged E s es s'"
proof -
  let ?kv = "(key, stored_value data isDataHolder)"
  have hdr: "header hdr es" by (rule store_ok_header [OF s])
  obtain p w where h: "encoded_key_size h = length (enc_data key)" "ucast (keySize h) = (word_of_nat (length key) :: u32)"
    "log_contents es key = Some w"
    using located [OF s d] by metis
  have n: "size_needed (encoded_key_size h) (value_length data isDataHolder) = length (enc_entry ?kv)"
    unfolding h(1) by (rule entry_size_enc(2) [OF v])
  have small': "4 + length (enc_log (live es)) < 2 ^ 32"
    using below_4GB_same_log(3) [of es _ E hdr hdr es, OF small _ hdr] by (simp add: same_log_def)
  have hold: "holder_at key s = (Inr h, s)" using d by (simp add: holder_at_def)
  show thesis
  proof (rule ensureMemorySize_run [OF env_okD(1,2) [OF assms(1)] s assms(3) small' below_4GB_entry [OF small]])
    fix t assume t: "ensureMemorySize E (length (enc_entry ?kv)) s = (Inr False, t)" "no_space s t"
    have "appendDataWithHolder E data key isDataHolder s = (Inr (False, KeyValueHolder_default), t)"
      using t(1) hold n by (simp add: appendDataWithHolder_def bindC_def Let_def returnC_def)
    then show thesis using unchanged_no_space [OF s t(2)] by (rule failed)
  next
    fix t hdr' es' assume t: "ensureMemorySize E (length (enc_entry ?kv)) s = (Inr True, t)" "same_log E hdr es hdr' es'"
      "has_room E (length (enc_entry ?kv)) t hdr' es'" "same_settings s t" "evolves E s hdr es t hdr' es'"
    have st: "store_ok E t hdr' es'" by (rule has_room_mono [OF t(3)])
    then have dt: "m_dic t = dic_of (length hdr') es'" by (simp add: store_ok_def)
    have "log_contents es' key \<noteq> None" using same_log_contents [OF t(2)] h(3) by simp
    then obtain h' where h': "m_dic t key = Some h'" using dic_of_None [of es' key "length hdr'"] dt by auto
    obtain p' v' where p': "unat (offset h') = p'" "p' + length (enc_entry (key, v')) \<le> m_actualSize t"
      "mem_read (f_disk (m_file t)) (4 + p') (length (enc_entry (key, v'))) = enc_entry (key, v')"
      using located [OF st h'] by metis
    let ?b = "InFile (4 + unat (offset h')) (encoded_key_size h)"
    have b: "key_buffer t (m_actualSize t) ?b key"
      using key_buffer_located(1) [OF st p'(2,3)] by (simp add: p'(1) h(1))
    have run: "appendDataWithHolder E data key isDataHolder s = doAppendDataWithKey E data ?b isDataHolder (word_of_nat (length key)) t"
      using t(1) hold n h' h(2) by (simp add: appendDataWithHolder_def bindC_def Let_def holder_at_def [of key t])
    show thesis
    proof (cases "checkSizeLimit (length (enc_entry ?kv)) t")
      case False
      have key: "short key" "length key < 65526" using valid_setD(2) [OF v] v by (auto simp: valid_set_def)
      have "entry_size (raw_key_size ?b (word_of_nat (length key))) (value_length data isDataHolder) = length (enc_entry ?kv)"
        unfolding raw_key_size_buffer [OF key b] by (rule entry_size_enc(1) [OF v])
      with False have "doAppendDataWithKey E data ?b isDataHolder (word_of_nat (length key)) t = (Inr (False, KeyValueHolder_default), t)"
        by (simp add: doAppendDataWithKey_def Let_def)
      then show thesis
        using run unchanged_limit [OF st t(2,4) False] by (intro failed) simp_all
    next
      case True
      have en: "ensureMemorySize E (length (enc_entry ?kv)) t = (Inr True, t)"
        using dic_of_not_empty [OF h'] by (rule ensure_room [OF env_okD(1) [OF assms(1)] t(3)])
      from doAppend_after [OF assms(1) v en t(3) below_4GB_same_log(1) [OF small t(2) hdr] b b True]
      obtain s' where s': "doAppendDataWithKey E data ?b isDataHolder (word_of_nat (length key)) t =
          (Inr (True, entry_holder (length hdr' + length (enc_log es')) ?kv), s')"
        "appended E s' hdr' (es' @ [?kv])" "same_settings t s'" "f_size (m_file s') = f_size (m_file t)"
        "same_generation (m_metaInfo t) (m_metaInfo s')" by blast
      from s'(1) [folded run] t(2) s'(2) same_settings_trans [OF t(4) s'(3)] evolves_append [OF t(5) s'(4,5)]
      show thesis by (rule written)
    qed
  qed
qed

section \<open>Entries and the dictionary\<close>

lemma dic_of_append: "dic_of pos (es @ [kv]) = holder_step (pos + length (enc_log es)) kv (dic_of pos es)"
proof -
  have "run_steps enc_entry holder_step pos (es @ [kv]) m =
      holder_step (pos + length (enc_log es)) kv (run_steps enc_entry holder_step pos es m)" for m
    by (induction es arbitrary: pos m) (simp_all add: add.assoc)
  then show ?thesis .
qed

lemma log_ok_dic [simp]:
  "log_ok (s\<lparr>m_dic := d, m_hasFullWriteback := b\<rparr>) hdr es = log_ok s hdr es"
  "meta_current E (s\<lparr>m_dic := d, m_hasFullWriteback := b\<rparr>) bs = meta_current E s bs"
  by (simp_all add: log_ok_def file_log_def writable_def meta_current_def meta_ready_def read_meta_def)

lemma appended_store_ok:
  assumes "appended E s hdr (es @ [kv])"
  shows "store_ok E (s\<lparr>m_dic := holder_step (length hdr + length (enc_log es)) kv (m_dic s), m_hasFullWriteback := b\<rparr>) hdr (es @ [kv])"
  using assms by (simp add: appended_def store_ok_def dic_of_append)

lemma appended_set:
  assumes "appended E s hdr (es @ [kv])" and "snd kv \<noteq> []"
  shows "store_ok E (s\<lparr>m_dic := (m_dic s)(fst kv \<mapsto> entry_holder (length hdr + length (enc_log es)) kv),
      m_hasFullWriteback := b\<rparr>) hdr (es @ [kv])"
  using appended_store_ok [OF assms(1), of b] assms(2) by (simp add: holder_step_def)

lemma appended_removed:
  assumes "appended E s hdr (es @ [kv])" and "snd kv = []"
  shows "store_ok E (s\<lparr>m_dic := (m_dic s)(fst kv := None)\<rparr>) hdr (es @ [kv])"
  using appended_store_ok [OF assms(1), of "m_hasFullWriteback s"] assms(2) by (simp add: holder_step_def)

lemma stored_value_Nil: "stored_value data isDataHolder = [] \<longleftrightarrow> \<not> isDataHolder \<and> data = []"
  using length_varint_gt_0 [of "unat (word_of_nat (length data) :: u32)"]
  by (auto simp: stored_value_def enc_data_def)

lemma same_settings_dic: "same_settings s (t\<lparr>m_dic := d, m_hasFullWriteback := b\<rparr>) = same_settings s t"
  "same_settings s (t\<lparr>m_dic := d\<rparr>) = same_settings s t"
  by (simp_all add: same_settings_def)

section \<open>Getting and removing\<close>

text \<open>Getting gives the value of the log, or nothing, and changes nothing.\<close>

definition value_of :: "log_entry list \<Rightarrow> byte list \<Rightarrow> byte list" where
  "value_of es key = (case log_contents es key of None \<Rightarrow> [] | Some v \<Rightarrow> v)"

lemma getRawDataForKey_run:
  assumes s: "store_ok E s hdr es"
  shows "getRawDataForKey E iv key s = (Inr (value_of es key), s)"
proof (cases "m_dic s key")
  case None
  moreover have "log_contents es key = None"
    using s None dic_of_None [of es key "length hdr"] by (simp add: store_ok_def)
  ultimately show ?thesis
    using s by (simp add: getRawDataForKey_def value_of_def bindC_Inr checkLoadData_loaded)
next
  case (Some h)
  from located [OF s this] obtain p v where l: "unat (offset h) = p" "p + length (enc_entry (key, v)) \<le> m_actualSize s"
    "mem_read (f_disk (m_file s)) (4 + p) (length (enc_entry (key, v))) = enc_entry (key, v)"
    "unat (computedKVSize h) + unat (valueSize h) = length (enc_entry (key, v))" "unat (valueSize h) = length v"
    "log_contents es key = Some v" "(p, (key, v)) \<in> set (live_at (length hdr) es)" by metis
  have f: "f_ptr (m_file s)" "4 + m_actualSize s \<le> f_size (m_file s)" "in_range (length hdr) es"
    using s by (auto simp: store_ok_def log_ok_def file_log_def)
  have "valid_entry (key, v)" by (rule in_range_entry(5) [OF f(3) l(7)])
  then have e: "enc_entry (key, v) = (enc_data key @ varint (length v)) @ v" by (simp add: enc_entry_def valid_entry_def enc_data_short)
  have c: "unat (computedKVSize h) = length (enc_data key @ varint (length v))" using l(4,5) unfolding e by simp
  have v: "mem_read (f_disk (m_file s)) (4 + p + unat (computedKVSize h)) (length v) = v"
    unfolding c by (rule mem_read_parts(2) [OF l(3) [unfolded e]])
  have "4 + (p + unat (computedKVSize h)) + length v \<le> f_size (m_file s)"
    using l(2,4,5) f(2) by simp
  then have "memory_read (4 + (p + unat (computedKVSize h))) (length v) s = (Inr v, s)"
    using f(1) v by (simp add: memory_read_run add.assoc)
  then show ?thesis
    using s Some l(1,5,6) by (simp add: getRawDataForKey_def value_of_def bindC_Inr checkLoadData_loaded)
qed

end
