(* ===== verification/MMKV_Keys.thy ===== *)
theory MMKV_Keys
  imports MMKV_Append
begin

text \<open>
  Overriding the only entry of a plain store, and what setting and removing a value does to a store that
  satisfies the invariant.
\<close>

unbundle bit_operations_syntax

section \<open>Overriding\<close>

text \<open>The store after the only entry was written over everything, before the dictionary knows it.\<close>

definition overridden :: "environment \<Rightarrow> MMKV \<Rightarrow> log_entry \<Rightarrow> MMKV \<Rightarrow> bool" where
  "overridden E s kv t \<longleftrightarrow> log_ok t (holder_bytes E) [kv] \<and> meta_current E t (holder_bytes E @ enc_log [kv]) \<and>
     m_dic t = m_dic s \<and> same_settings s t"

text \<open>The key for the writer once the header has been written.\<close>

definition override_buffer :: "MMKV \<Rightarrow> buffer \<Rightarrow> byte list \<Rightarrow> bool" where
  "override_buffer s b key \<longleftrightarrow> b = Owned key \<or> b = Owned (enc_data key) \<or>
     (\<exists>p. b = InFile (4 + p) (length (enc_data key)) \<and> (p = 4 \<or> 4 + length (enc_data key) \<le> p) \<and>
        4 + p + length (enc_data key) \<le> f_size (m_file s) \<and>
        mem_read (f_disk (m_file s)) (4 + p) (length (enc_data key)) = enc_data key)"

lemma override_key_buffer:
  assumes "override_buffer s b key" and "length hb = 4" and "f_size (m_file s) \<le> length (f_disk (m_file s))"
    and "8 \<le> f_size (m_file s)" and "m_file t = (m_file s)\<lparr>f_disk := mem_write (f_disk (m_file s)) 4 hb\<rparr>"
  shows "key_buffer t 4 b key"
  using assms unfolding override_buffer_def key_buffer_def
  by (elim disjE exE) (auto simp: mem_read_mem_write_disjoint)

lemma raw_key_size_override:
  assumes "short key" and "length key < 65526" and "override_buffer s b key"
  shows "raw_key_size b (word_of_nat (length key)) = length (enc_data key)"
proof (cases "b = Owned key")
  case True
  then show ?thesis by (intro raw_key_size_buffer [where s = s and n = 0, OF assms(1,2)]) (simp add: key_buffer_def)
next
  case False
  have l: "length (enc_data key) = length (varint (length key)) + length key" using assms(1) by (simp add: enc_data_short)
  have "length key < length (enc_data key)" using length_varint_gt_0 [of "length key"] by (simp add: l)
  moreover have "unat (word_of_nat (length (enc_data key)) :: u32) = length (enc_data key)"
    using length_enc_data_le [of key] assms(2) by (intro unat_word_of_nat_u32) simp
  moreover have "buffer_length b = length (enc_data key)"
    using assms(3) False by (auto simp: override_buffer_def)
  ultimately show ?thesis
    using short_facts(2) [OF assms(1)] by (simp add: raw_key_size_def)
qed

lemma bindC_cong_Inr: "m s = (Inr x, t) \<Longrightarrow> f x t = r \<Longrightarrow> bindC m f s = r"
  by (simp add: bindC_Inr)

lemma set_mem_actualSize: "(set_mem d out s)\<lparr>m_actualSize := n\<rparr> = set_mem d out (s\<lparr>m_actualSize := n\<rparr>)"
  by (simp add: set_mem_def)

text \<open>What the two writes leave in the file.\<close>

lemma override_write:
  assumes w: "writable k s" and v: "valid_set key data isDataHolder" and b: "override_buffer s b key"
    and room: "8 + length (enc_entry (key, stored_value data isDataHolder)) \<le> f_size (m_file s)"
  shows "\<exists>out. catch_all
      (bindC (move_output (\<lambda>out. (Inr (), setPosition 0 out))) (\<lambda>_.
       bindC (with_output (writeUInt32 (randomItemSizeHolder (rand_value E) ItemSizeHolderSize))) (\<lambda>_ s.
       bindC (write_entry data b isDataHolder (word_of_nat (length key))) (\<lambda>_. returnC True)
         (s\<lparr>m_actualSize := ItemSizeHolderSize\<rparr>)))) False s =
     (Inr True, set_mem (mem_write (f_disk (m_file s)) 4 (holder_bytes E @ enc_entry (key, stored_value data isDataHolder))) out
        (s\<lparr>m_actualSize := 4\<rparr>)) \<and>
     writable (4 + length (enc_entry (key, stored_value data isDataHolder)))
       (set_mem (mem_write (f_disk (m_file s)) 4 (holder_bytes E @ enc_entry (key, stored_value data isDataHolder))) out s)"
proof -
  let ?kv = "(key, stored_value data isDataHolder)" and ?d = "f_disk (m_file s)" and ?hb = "holder_bytes E"
  from w obtain out where out: "m_output s = Some out" "out_ptr out = 4" "out_size out + 4 = f_size (m_file s)"
    "f_ptr (m_file s)" "\<not> f_readOnly (m_file s)" "f_size (m_file s) \<le> length ?d" by (rule writableE)
  let ?s0 = "s\<lparr>m_output := Some (setPosition 0 out)\<rparr>"
  have m0: "move_output (\<lambda>out. (Inr (), setPosition 0 out)) s = (Inr (), ?s0)" using out(1) by (simp add: move_output_def)
  have w0: "writable 0 ?s0" using out by (simp add: writable_def setPosition_def)
  obtain o1 where h: "with_output (writeUInt32 (randomItemSizeHolder (rand_value E) ItemSizeHolderSize)) ?s0 =
      (Inr (), set_mem (mem_write ?d 4 ?hb) o1 ?s0)" "writable 4 (set_mem (mem_write ?d 4 ?hb) o1 ?s0)"
    using with_output_writes [OF w0 writes_bytes_ops(1), of "randomItemSizeHolder (rand_value E) ItemSizeHolderSize"] room
    by (auto simp flip: holder_bytes_def)
  let ?s1 = "(set_mem (mem_write ?d 4 ?hb) o1 ?s0)\<lparr>m_actualSize := 4\<rparr>"
  have w1: "writable 4 ?s1" using h(2) by (simp add: writable_def)
  have k1: "key_buffer ?s1 4 b key"
    using room out(6) by (intro override_key_buffer [OF b, of ?hb]) simp_all
  have "puts (write_entry data b isDataHolder (word_of_nat (length key))) (enc_entry ?kv) 4 ?s1"
    using room by (intro puts_write_entry [OF w1 v k1]) simp
  then obtain o2 where p: "write_entry data b isDataHolder (word_of_nat (length key)) ?s1 =
      (Inr (), set_mem (mem_write (mem_write ?d 4 ?hb) 8 (enc_entry ?kv)) o2 ?s1)"
    "writable (4 + length (enc_entry ?kv)) (set_mem (mem_write (mem_write ?d 4 ?hb) 8 (enc_entry ?kv)) o2 ?s1)"
    by (auto simp: puts_def)
  have all: "mem_write (mem_write ?d 4 ?hb) 8 (enc_entry ?kv) = mem_write ?d 4 (?hb @ enc_entry ?kv)"
    using mem_write_mem_write_append [of 4 ?hb "enc_entry ?kv" ?d] room out(6) by simp
  have eq: "set_mem d o2 ?s1 = set_mem d o2 (s\<lparr>m_actualSize := 4\<rparr>)" for d by (simp add: set_mem_def)
  have "bindC (move_output (\<lambda>out. (Inr (), setPosition 0 out))) (\<lambda>_.
       bindC (with_output (writeUInt32 (randomItemSizeHolder (rand_value E) ItemSizeHolderSize))) (\<lambda>_ s.
       bindC (write_entry data b isDataHolder (word_of_nat (length key))) (\<lambda>_. returnC True)
         (s\<lparr>m_actualSize := ItemSizeHolderSize\<rparr>))) s = (Inr True, set_mem (mem_write ?d 4 (?hb @ enc_entry ?kv)) o2 (s\<lparr>m_actualSize := 4\<rparr>))"
    by (rule bindC_cong_Inr, rule m0, rule bindC_cong_Inr, rule h(1))
      (use p(1) [unfolded all eq] in \<open>simp add: ItemSizeHolderSize_def bindC_def returnC_def\<close>)
  moreover have "writable (4 + length (enc_entry ?kv)) (set_mem (mem_write ?d 4 (?hb @ enc_entry ?kv)) o2 s)"
    using p(2) unfolding all eq by (simp add: writable_def)
  ultimately show ?thesis by (auto simp: catch_all_def)
qed

lemma doOverride_fits:
  assumes s: "store_ok E s hdr es" and v: "valid_set key data isDataHolder" and b: "override_buffer s b key"
    and small: "below_4GB es (key, stored_value data isDataHolder)"
    and limit: "checkSizeLimit (length (enc_entry (key, stored_value data isDataHolder))) s"
    and fits: "checkSizeForOverride (length (enc_entry (key, stored_value data isDataHolder))) s"
  shows "\<exists>t. doOverrideDataWithKey E data b isDataHolder (word_of_nat (length key)) s =
      (Inr (True, entry_holder 4 (key, stored_value data isDataHolder)), t) \<and>
    overridden E s (key, stored_value data isDataHolder) t"
proof -
  let ?kv = "(key, stored_value data isDataHolder)" and ?d = "f_disk (m_file s)" and ?hb = "holder_bytes E"
  let ?n = "length (enc_entry ?kv)"
  have key: "short key" "length key < 65526" using valid_setD(2) [OF v] v by (auto simp: valid_set_def)
  have n: "entry_size (raw_key_size b (word_of_nat (length key))) (value_length data isDataHolder) = ?n"
    unfolding raw_key_size_override [OF key b] by (rule entry_size_enc(1) [OF v])
  have l: "f_ptr (m_file s)" "\<not> f_readOnly (m_file s)" "f_size (m_file s) \<le> length ?d" "writable (m_actualSize s) s"
    "\<not> m_readOnly s" "isFileValid (m_file s)" "\<not> m_needLoadFromFile s" and meta: "meta_ready s"
    using s by (auto simp: store_ok_def log_ok_def file_log_def meta_current_def)
  have room: "8 + ?n \<le> f_size (m_file s)"
    using fits by (simp add: checkSizeForOverride_def Let_def getFileSize_def ItemSizeHolderSize_def)
  let ?d' = "mem_write ?d 4 (?hb @ enc_entry ?kv)" and ?c = "crc32 E 0 (?hb @ enc_entry ?kv)"
  obtain out where w: "catch_all
      (bindC (move_output (\<lambda>out. (Inr (), setPosition 0 out))) (\<lambda>_.
       bindC (with_output (writeUInt32 (randomItemSizeHolder (rand_value E) ItemSizeHolderSize))) (\<lambda>_ s.
       bindC (write_entry data b isDataHolder (word_of_nat (length key))) (\<lambda>_. returnC True)
         (s\<lparr>m_actualSize := ItemSizeHolderSize\<rparr>)))) False s = (Inr True, set_mem ?d' out (s\<lparr>m_actualSize := 4\<rparr>))"
    "writable (4 + ?n) (set_mem ?d' out s)"
    using override_write [OF l(4) v b room] by blast
  let ?t = "(set_mem ?d' out s)\<lparr>m_actualSize := 4 + ?n\<rparr>"
  have t: "(set_mem ?d' out (s\<lparr>m_actualSize := 4\<rparr>))\<lparr>m_actualSize := 4 + ?n\<rparr> = ?t" by (simp add: set_mem_def)
  have read: "mem_read ?d' 4 (4 + ?n) = ?hb @ enc_entry ?kv" and len: "length ?d' = length ?d"
    using room l(3) by simp_all
  have lt: "4 + ?n < 2 ^ 32" using small by (simp add: below_4GB_def)
  have r: "memory_read 4 (unat (word_of_nat (4 + ?n) :: u32)) ?t = (Inr (?hb @ enc_entry ?kv), ?t)"
    unfolding unat_word_of_nat_u32 [OF lt] using room l(1) read by (simp add: memory_read_run)
  obtain m where m: "m = fst (update_meta (4 + ?n) ?c None False (m_metaInfo (?t\<lparr>m_crcDigest := ?c\<rparr>)))" by blast
  have "meta_ready (?t\<lparr>m_crcDigest := ?c\<rparr>)" using meta by (simp add: meta_ready_def read_meta_def)
  then obtain e where e: "writeActualSize (4 + ?n) ?c None False (?t\<lparr>m_crcDigest := ?c\<rparr>) =
      (Inr True, set_meta (4 + ?n) ?c m e (?t\<lparr>m_crcDigest := ?c\<rparr>))"
    "meta_ready (set_meta (4 + ?n) ?c m e (?t\<lparr>m_crcDigest := ?c\<rparr>))" "length e = length (f_disk (m_metaFile s))"
    using writeActualSize_run [OF _ _ _ m] l(5) by simp blast
  let ?u = "set_meta (4 + ?n) ?c m e ?t"
  have same: "set_meta (4 + ?n) ?c m e (?t\<lparr>m_crcDigest := ?c\<rparr>) = ?u" by (simp add: set_meta_def)
  have up: "recalculateCRCDigestOnly E ?t = (Inr (), ?u)"
  proof -
    have "f_ptr (m_file ?t)" "m_actualSize ?t = 4 + ?n" using l(1) by simp_all
    then show ?thesis
      unfolding recalculateCRCDigestOnly_def using r e(1) unfolding same
      by (simp only: if_True) (simp add: bindC_def Let_def returnC_def)
  qed
  have holder: "KeyValueHolder_new (word_of_nat (length key)) (value_length data isDataHolder) (word_of_nat 4) = entry_holder 4 ?kv"
    by (rule KeyValueHolder_new_entry [OF v])
  have "in_range 4 [?kv]"
    using entry_in_range [of 4 "[]", OF _ v] lt by (simp add: in_range_def)
  then have "file_log ?u ?hb [?kv]"
    using l read len room by (simp add: file_log_def header_holder_bytes)
  then have "log_ok ?u ?hb [?kv]"
    using l w(2) by (simp add: log_ok_def isFileValid_def writable_def)
  moreover have "meta_current E ?u (?hb @ enc_log [?kv])"
    using e(2) [unfolded same] update_meta_sel [of "4 + ?n" ?c None False "m_metaInfo (?t\<lparr>m_crcDigest := ?c\<rparr>)", folded m]
    by (simp add: meta_current_def)
  ultimately have ov: "overridden E s ?kv ?u" using e(3) len unfolding overridden_def same_settings_def by simp
  have "doOverrideDataWithKey E data b isDataHolder (word_of_nat (length key)) s = (Inr (True, entry_holder 4 ?kv), ?u)"
    unfolding doOverrideDataWithKey_def Let_def n
    apply (simp only: limit fits not_True_eq_False if_False)
    apply (rule bindC_cong_Inr, rule w(1))
    using up holder by (simp add: t bindC_def returnC_def)
  with ov show ?thesis by blast
qed

section \<open>Setting a value\<close>

text \<open>The result of a set: the log ends in an entry of the key, or nothing changed.\<close>

definition is_set :: "environment \<Rightarrow> MMKV \<Rightarrow> byte list \<Rightarrow> log_entry list \<Rightarrow> log_entry \<Rightarrow> MMKV \<Rightarrow> bool" where
  "is_set E s hdr es kv t \<longleftrightarrow> same_settings s t \<and>
     (\<exists>hdr' es'. store_ok E t hdr' es' \<and> hdr' \<noteq> [] \<and> log_contents es' = (log_contents es)(fst kv \<mapsto> snd kv) \<and>
        length (enc_log es') \<le> length (enc_log es) + length (enc_entry kv) \<and>
        (m_multiProcess s \<longrightarrow> evolves E s hdr es t hdr' es'))"

abbreviation with_holder :: "MMKV \<Rightarrow> byte list \<Rightarrow> KeyValueHolder \<Rightarrow> MMKV" where
  "with_holder s key h \<equiv> s\<lparr>m_dic := (m_dic s)(key \<mapsto> h), m_hasFullWriteback := False\<rparr>"

lemma appended_hdr: "appended E s hdr es \<Longrightarrow> hdr \<noteq> []"
  by (auto simp: appended_def log_ok_def file_log_def header_def)

lemma is_set_appended:
  assumes "appended E t hdr' (es' @ [kv])" and "same_log E hdr es hdr' es'" and "same_settings s t" and "snd kv \<noteq> []"
    and "evolves E s hdr es t hdr' (es' @ [kv])"
  shows "is_set E s hdr es kv (with_holder t (fst kv) (entry_holder (length hdr' + length (enc_log es')) kv))"
  using appended_set [OF assms(1,4), of False] same_log_contents [OF assms(2)] same_log_length [OF assms(2)] assms(3-5) appended_hdr [OF assms(1)]
  unfolding is_set_def same_settings_dic
  by (intro conjI exI [of _ hdr'] exI [of _ "es' @ [kv]"]) 
    (simp_all add: log_contents_append log_step_def evolves_def rewritten_def)

lemma upd_single: "dom m \<subseteq> {k} \<Longrightarrow> m(k \<mapsto> v) = [k \<mapsto> v]"
  by (rule ext) auto

lemma is_set_overridden:
  assumes "overridden E s kv t" and "dom (m_dic s) \<subseteq> {fst kv}" and "dom (log_contents es) \<subseteq> {fst kv}" and "snd kv \<noteq> []"
    and "\<not> m_multiProcess s"
  shows "is_set E s hdr es kv (with_holder t (fst kv) (entry_holder 4 kv))"
proof -
  have "(m_dic t)(fst kv \<mapsto> entry_holder 4 kv) = dic_of 4 [kv]"
    using assms(1,4) upd_single [OF assms(2)] by (simp add: overridden_def holder_step_def)
  then have "store_ok E (with_holder t (fst kv) (entry_holder 4 kv)) (holder_bytes E) [kv]"
    using assms(1) by (simp add: overridden_def store_ok_def)
  moreover have "log_contents [kv] = (log_contents es)(fst kv \<mapsto> snd kv)"
    unfolding upd_single [OF assms(3)] using assms(4) by (simp add: log_contents_def log_step_def)
  moreover have "holder_bytes E \<noteq> []" using length_holder_bytes [of E] by fastforce
  ultimately show ?thesis
    using assms(1) unfolding is_set_def same_settings_dic
    by (intro conjI exI [of _ "holder_bytes E"] exI [of _ "[kv]"]) (simp_all add: overridden_def assms(5))
qed

text \<open>The override of the only key copies the key inside the file: onto itself, or from where the new
  entry does not reach it. Only a key behind a shorter removed entry fails this.\<close>

definition copies_apart :: "MMKV \<Rightarrow> byte list \<Rightarrow> bool" where
  "copies_apart s key \<longleftrightarrow> m_multiProcess s \<or>
     (\<forall>h. m_dic s = [key \<mapsto> h] \<longrightarrow> unat (offset h) \<le> 4 \<or> 4 + length (enc_data key) \<le> unat (offset h))"

lemma iterate_single:
  assumes "iterates E" and "finite (dom d)" and "length (iterate E d) = 1" and "d key = Some h"
  shows "d = [key \<mapsto> h]"
proof -
  from assms(3) obtain k h' where "iterate E d = [(k, h')]" by (cases "iterate E d") (auto simp: length_Suc_conv)
  moreover have "map_of (iterate E d) = d" using assms(1,2) by (auto simp: iterates_def)
  ultimately have "d = [k \<mapsto> h']" by auto
  with assms(4) show ?thesis by (auto split: if_splits)
qed

lemma store_holder_True: "store_holder key (True, h) t = (Inr True, with_holder t key h)"
  by (simp add: store_holder_def)

lemma store_holder_False: "store_holder key (False, h) t = (Inr False, t)"
  by (simp add: store_holder_def)

text \<open>Either way of a set.\<close>

definition set_outcome ::
  "environment \<Rightarrow> MMKV \<Rightarrow> byte list \<Rightarrow> log_entry list \<Rightarrow> log_entry \<Rightarrow> (cpp_exception + bool) \<times> MMKV \<Rightarrow> bool" where
  "set_outcome E s hdr es kv r \<longleftrightarrow> (\<exists>t. r = (Inr True, t) \<and> is_set E s hdr es kv t) \<or> (\<exists>t. r = (Inr False, t) \<and> unchanged E s es t)"

lemma set_done: "r = (Inr True, t) \<Longrightarrow> is_set E s hdr es kv t \<Longrightarrow> set_outcome E s hdr es kv r"
  and set_failed: "r = (Inr False, t) \<Longrightarrow> unchanged E s es t \<Longrightarrow> set_outcome E s hdr es kv r"
  by (auto simp: set_outcome_def)

lemma overrideDataWithHolder_run:
  assumes "env_ok E" and s: "store_ok E s hdr es" and "\<not> m_enableKeyExpire s" and v: "valid_set key data isDataHolder"
    and small: "below_4GB es (key, stored_value data isDataHolder)" and d: "m_dic s = [key \<mapsto> h]"
    and ne: "stored_value data isDataHolder \<noteq> []" and sp: "\<not> m_multiProcess s" and apart: "unat (offset h) \<le> 4 \<or> 4 + length (enc_data key) \<le> unat (offset h)"
  shows "set_outcome E s hdr es (key, stored_value data isDataHolder) (bindC (overrideDataWithHolder E data key isDataHolder) (store_holder key) s)"
proof -
  let ?kv = "(key, stored_value data isDataHolder)"
  have d': "m_dic s key = Some h" using d by simp
  obtain p w where h: "unat (offset h) = p" "encoded_key_size h = length (enc_data key)" "ucast (keySize h) = (word_of_nat (length key) :: u32)"
    "p + length (enc_entry (key, w)) \<le> m_actualSize s"
    "mem_read (f_disk (m_file s)) (4 + p) (length (enc_entry (key, w))) = enc_entry (key, w)"
    using located [OF s d'] by metis
  note kb = key_buffer_located(2) [OF s h(4,5)]
  have n: "size_needed (encoded_key_size h) (value_length data isDataHolder) = length (enc_entry ?kv)"
    unfolding h(2) by (rule entry_size_enc(2) [OF v])
  have hold: "holder_at key s = (Inr h, s)" using d' by (simp add: holder_at_def)
  have key: "short key" "length key < 65526" using valid_setD(2) [OF v] v by (auto simp: valid_set_def)
  have f: "f_ptr (m_file s)" "4 + m_actualSize s \<le> f_size (m_file s)" "m_dic s = dic_of (length hdr) es"
    using s by (auto simp: store_ok_def log_ok_def file_log_def)
  show ?thesis
  proof (cases "checkSizeForOverride (length (enc_entry ?kv)) s")
    case False
    then have run: "overrideDataWithHolder E data key isDataHolder s = appendDataWithHolder E data key isDataHolder s"
      using hold n by (simp add: overrideDataWithHolder_def bindC_def Let_def)
    show ?thesis
    proof (rule appendDataWithHolder_run [OF assms(1) s assms(3) v small d'])
      fix s' hdr' es' assume a: "appendDataWithHolder E data key isDataHolder s =
          (Inr (True, entry_holder (length hdr' + length (enc_log es')) ?kv), s')"
        "same_log E hdr es hdr' es'" "appended E s' hdr' (es' @ [?kv])" "same_settings s s'"
      "evolves E s hdr es s' hdr' (es' @ [?kv])"
      have "is_set E s hdr es ?kv (with_holder s' key (entry_holder (length hdr' + length (enc_log es')) ?kv))"
        using is_set_appended [OF a(3,2,4) _ a(5)] ne by simp
      then show ?thesis
        using a(1) by (intro set_done) (simp_all add: run bindC_def store_holder_True)
    next
      fix s' assume "appendDataWithHolder E data key isDataHolder s = (Inr (False, KeyValueHolder_default), s')" "unchanged E s es s'"
      then show ?thesis by (intro set_failed) (simp_all add: run bindC_def store_holder_False)
    qed
  next
    case fits: True
    define b where "b = (if p < 4 then Owned (enc_data key) else InFile (4 + p) (length (enc_data key)))"
    have entry: "length (enc_data key) \<le> length (enc_entry (key, w))" by (simp add: enc_entry_def)
    have b: "override_buffer s b key"
      using apart h(1,4) kb f(2) entry by (auto simp: b_def override_buffer_def)
    have "memory_read (4 + p) (length (enc_data key)) s = (Inr (enc_data key), s)"
      using f h(4) kb entry by (simp add: memory_read_run)
    then have run: "overrideDataWithHolder E data key isDataHolder s = doOverrideDataWithKey E data b isDataHolder (word_of_nat (length key)) s"
      using hold n fits h(1,2,3) by (simp add: overrideDataWithHolder_def bindC_def Let_def ItemSizeHolderSize_def b_def)
    show ?thesis
    proof (cases "checkSizeLimit (length (enc_entry ?kv)) s")
      case True
      from doOverride_fits [OF s v b small True fits] obtain t where
        t: "doOverrideDataWithKey E data b isDataHolder (word_of_nat (length key)) s = (Inr (True, entry_holder 4 ?kv), t)"
        "overridden E s ?kv t" by blast
      have "dom (log_contents es) \<subseteq> {key}"
        using dic_of_None [of es _ "length hdr"] d f(3) by (auto simp: dom_def)
      then have "is_set E s hdr es ?kv (with_holder t key (entry_holder 4 ?kv))"
        using is_set_overridden [OF t(2)] d ne sp by simp
      then show ?thesis using t(1) by (intro set_done) (simp_all add: run bindC_def store_holder_True)
    next
      case False
      have "entry_size (raw_key_size b (word_of_nat (length key))) (value_length data isDataHolder) = length (enc_entry ?kv)"
        unfolding raw_key_size_override [OF key b] by (rule entry_size_enc(1) [OF v])
      with False have "doOverrideDataWithKey E data b isDataHolder (word_of_nat (length key)) s = (Inr (False, KeyValueHolder_default), s)"
        by (simp add: doOverrideDataWithKey_def Let_def)
      moreover have "unchanged E s es s" by (rule unchanged_limit [OF s same_log_refl _ False]) simp
      ultimately show ?thesis by (intro set_failed) (simp_all add: run bindC_def store_holder_False)
    qed
  qed
qed

lemma appendDataWithKey_set:
  assumes "env_ok E" and s: "store_ok E s hdr es" and "\<not> m_enableKeyExpire s" and v: "valid_set key data isDataHolder"
    and small: "below_4GB es (key, stored_value data isDataHolder)" and ne: "stored_value data isDataHolder \<noteq> []"
  shows "set_outcome E s hdr es (key, stored_value data isDataHolder) (bindC (appendDataWithKey E data key isDataHolder) (store_holder key) s)"
proof (rule doAppend_Owned [OF assms(1) s assms(3) v small])
  let ?kv = "(key, stored_value data isDataHolder)"
  fix s' hdr' es' assume a: "doAppendDataWithKey E data (Owned key) isDataHolder (word_of_nat (length key)) s =
      (Inr (True, entry_holder (length hdr' + length (enc_log es')) ?kv), s')"
    "same_log E hdr es hdr' es'" "appended E s' hdr' (es' @ [?kv])" "same_settings s s'"
      "evolves E s hdr es s' hdr' (es' @ [?kv])"
  have "is_set E s hdr es ?kv (with_holder s' key (entry_holder (length hdr' + length (enc_log es')) ?kv))"
    using is_set_appended [OF a(3,2,4) _ a(5)] ne by simp
  then show ?thesis
    using a(1) by (intro set_done) (simp_all add: appendDataWithKey_def bindC_def store_holder_True)
next
  fix s' assume "doAppendDataWithKey E data (Owned key) isDataHolder (word_of_nat (length key)) s = (Inr (False, KeyValueHolder_default), s')"
    "unchanged E s es s'"
  then show ?thesis by (intro set_failed) (simp_all add: appendDataWithKey_def bindC_def store_holder_False)
qed

lemma overrideDataWithKey_set:
  assumes "env_ok E" and s: "store_ok E s hdr es" and "\<not> m_enableKeyExpire s" and v: "valid_set key data isDataHolder"
    and small: "below_4GB es (key, stored_value data isDataHolder)" and ne: "stored_value data isDataHolder \<noteq> []"
    and d: "m_dic s = Map.empty" and sp: "\<not> m_multiProcess s"
  shows "set_outcome E s hdr es (key, stored_value data isDataHolder) (bindC (overrideDataWithKey E data key isDataHolder) (store_holder key) s)"
proof -
  let ?kv = "(key, stored_value data isDataHolder)"
  have b: "override_buffer s (Owned key) key" by (simp add: override_buffer_def)
  have key: "short key" "length key < 65526" using valid_setD(2) [OF v] v by (auto simp: valid_set_def)
  have n: "entry_size (raw_key_size (Owned key) (word_of_nat (length key))) (value_length data isDataHolder) = length (enc_entry ?kv)"
    unfolding raw_key_size_override [OF key b] by (rule entry_size_enc(1) [OF v])
  consider (over) "checkSizeLimit (length (enc_entry ?kv)) s" "checkSizeForOverride (length (enc_entry ?kv)) s"
    | (limit) "\<not> checkSizeLimit (length (enc_entry ?kv)) s"
    | (append) "checkSizeLimit (length (enc_entry ?kv)) s" "\<not> checkSizeForOverride (length (enc_entry ?kv)) s" by blast
  then show ?thesis
  proof cases
    case over
    from doOverride_fits [OF s v b small over] obtain t where
      t: "doOverrideDataWithKey E data (Owned key) isDataHolder (word_of_nat (length key)) s = (Inr (True, entry_holder 4 ?kv), t)"
      "overridden E s ?kv t" by blast
    have "log_contents es = Map.empty"
      using s d dic_of_empty [of "length hdr" es] by (simp add: store_ok_def)
    then have "is_set E s hdr es ?kv (with_holder t key (entry_holder 4 ?kv))"
      using is_set_overridden [OF t(2)] d ne sp by simp
    then show ?thesis using t(1) by (intro set_done) (simp_all add: overrideDataWithKey_def bindC_def store_holder_True)
  next
    case limit
    then have "doOverrideDataWithKey E data (Owned key) isDataHolder (word_of_nat (length key)) s = (Inr (False, KeyValueHolder_default), s)"
      unfolding doOverrideDataWithKey_def Let_def n by simp
    moreover have "unchanged E s es s" by (rule unchanged_limit [OF s same_log_refl _ limit]) simp
    ultimately show ?thesis by (intro set_failed) (simp_all add: overrideDataWithKey_def bindC_def store_holder_False)
  next
    case append
    then have "overrideDataWithKey E data key isDataHolder s = appendDataWithKey E data key isDataHolder s"
      unfolding overrideDataWithKey_def appendDataWithKey_def doOverrideDataWithKey_def Let_def n by simp
    then have "bindC (overrideDataWithKey E data key isDataHolder) (store_holder key) s =
        bindC (appendDataWithKey E data key isDataHolder) (store_holder key) s"
      by (simp add: bindC_def)
    then show ?thesis
      using appendDataWithKey_set [OF assms(1) s assms(3) v small ne] by simp
  qed
qed

lemma setDataForKey_run:
  assumes "env_ok E" and s: "store_ok E s hdr es" and "\<not> m_enableKeyExpire s" and "\<not> m_enableCompareBeforeSet s"
    and v: "valid_set key data isDataHolder" and small: "below_4GB es (key, stored_value data isDataHolder)"
    and ne: "isDataHolder \<or> data \<noteq> []" and apart: "copies_apart s key"
  shows "set_outcome E s hdr es (key, stored_value data isDataHolder) (setDataForKey E iv data key isDataHolder s)"
proof -
  have ne': "stored_value data isDataHolder \<noteq> []" using ne by (simp add: stored_value_Nil)
  have k: "key \<noteq> []" using v by (simp add: valid_set_def)
  have guard: "\<not> ((\<not> isDataHolder \<and> length data = 0) \<or> key = [])" using k ne by auto
  have load: "checkLoadData E iv s = (Inr (), s)" by (rule checkLoadData_loaded [OF s])
  have fin: "finite (dom (m_dic s))" using s finite_dic_of by (simp add: store_ok_def)
  show ?thesis
  proof (cases "m_dic s key")
    case None
    let ?over = "\<not> m_multiProcess s \<and> iterate E (m_dic s) = [] \<and> 0 < m_actualSize s"
    have run: "setDataForKey E iv data key isDataHolder s =
        bindC (if ?over then overrideDataWithKey E data key isDataHolder else appendDataWithKey E data key isDataHolder) (store_holder key) s"
      unfolding setDataForKey_def if_not_P [OF guard] using load None by (simp add: bindC_def [of "checkLoadData E iv"] Let_def)
    show ?thesis
    proof (cases ?over)
      case True
      then have "m_dic s = Map.empty" using iterate_empty [OF env_okD(1) [OF assms(1)] fin] by simp
      then show ?thesis
        using overrideDataWithKey_set [OF assms(1) s assms(3) v small ne'] True unfolding run if_P [OF True] by simp
    next
      case False
      then show ?thesis
        using appendDataWithKey_set [OF assms(1) s assms(3) v small ne'] unfolding run if_not_P [OF False] by simp
    qed
  next
    case (Some h)
    let ?one = "\<not> m_multiProcess s \<and> length (iterate E (m_dic s)) = 1"
    have run: "setDataForKey E iv data key isDataHolder s =
        bindC (if ?one then overrideDataWithHolder E data key isDataHolder else appendDataWithHolder E data key isDataHolder) (store_holder key) s"
      unfolding setDataForKey_def if_not_P [OF guard]
      using load Some assms(3,4) by (simp add: bindC_def [of "checkLoadData E iv"] isCompareBeforeSetEnabled_def bindC_def [of "returnC False"] returnC_def Let_def)
    show ?thesis
    proof (cases ?one)
      case True
      then have d: "m_dic s = [key \<mapsto> h]" using iterate_single [OF env_okD(1) [OF assms(1)] fin _ Some] by simp
      have "unat (offset h) \<le> 4 \<or> 4 + length (enc_data key) \<le> unat (offset h)"
        using apart True d by (simp add: copies_apart_def)
      then show ?thesis
        using overrideDataWithHolder_run [OF assms(1) s assms(3) v small d ne'] True unfolding run if_P [OF True] by simp
    next
      case False
      show ?thesis
      proof (rule appendDataWithHolder_run [OF assms(1) s assms(3) v small Some])
        let ?kv = "(key, stored_value data isDataHolder)"
        fix s' hdr' es' assume a: "appendDataWithHolder E data key isDataHolder s =
            (Inr (True, entry_holder (length hdr' + length (enc_log es')) ?kv), s')"
          "same_log E hdr es hdr' es'" "appended E s' hdr' (es' @ [?kv])" "same_settings s s'"
      "evolves E s hdr es s' hdr' (es' @ [?kv])"
        have "is_set E s hdr es ?kv (with_holder s' key (entry_holder (length hdr' + length (enc_log es')) ?kv))"
          using is_set_appended [OF a(3,2,4) _ a(5)] ne' by simp
        then show ?thesis using a(1) unfolding run if_not_P [OF False] by (intro set_done) (simp_all add: bindC_def store_holder_True)
      next
        fix s' assume "appendDataWithHolder E data key isDataHolder s = (Inr (False, KeyValueHolder_default), s')" "unchanged E s es s'"
        then show ?thesis unfolding run if_not_P [OF False] by (intro set_failed) (simp_all add: bindC_def store_holder_False)
      qed
    qed
  qed
qed

lemma store_ok_flag [simp]: "store_ok E (s\<lparr>m_hasFullWriteback := b\<rparr>) hdr es = store_ok E s hdr es"
  by (simp add: store_ok_def log_ok_def file_log_def writable_def meta_current_def meta_ready_def read_meta_def)

lemma removeValueForKey_run:
  assumes "env_ok E" and s: "store_ok E s hdr es" and "\<not> m_enableKeyExpire s"
    and v: "valid_set key [] False" and small: "below_4GB es (key, [])"
  obtains (done_) s' hdr' es' where "removeValueForKey E iv key s = (Inr (log_contents es key \<noteq> None), s')"
      "store_ok E s' hdr' es'" "log_contents es' = (log_contents es)(key := None)" "same_settings s s'"
      "length (enc_log es') \<le> length (enc_log es) + length (enc_entry (key, []))" "evolves E s hdr es s' hdr' es'"
  | (failed) s' where "removeValueForKey E iv key s = (Inr False, s')" "unchanged E s es s'"
proof -
  have k: "key \<noteq> []" using v by (simp add: valid_set_def)
  have ro: "\<not> m_readOnly s" using s by (simp add: store_ok_def log_ok_def)
  have load: "checkLoadData E iv s = (Inr (), s)" by (rule checkLoadData_loaded [OF s])
  have run: "removeValueForKey E iv key s = removeDataForKey E key s"
    using k ro load by (simp add: removeValueForKey_def bindC_def)
  show thesis
  proof (cases "m_dic s key")
    case None
    then have n: "log_contents es key = None" using s dic_of_None [of es key "length hdr"] by (simp add: store_ok_def)
    then show thesis
      using None k s by (intro done_ [of s hdr es]) (simp_all add: run removeDataForKey_def fun_upd_idem evolves_refl)
  next
    case (Some h)
    then have n: "log_contents es key \<noteq> None" using s dic_of_None [of es key "length hdr"] by (simp add: store_ok_def)
    let ?s = "s\<lparr>m_hasFullWriteback := False\<rparr>"
    have s': "store_ok E ?s hdr es" using s by simp
    have st: "stored_value [] False = []" by (simp add: stored_value_def)
    show thesis
    proof (rule appendDataWithHolder_run [OF assms(1) s' _ v _ _])
      show "\<not> m_enableKeyExpire ?s" "m_dic ?s key = Some h" using assms(3) Some by simp_all
      show "below_4GB es (key, stored_value [] False)" using small by (simp add: st)
    next
      fix t hdr' es' assume a: "appendDataWithHolder E [] key False ?s =
          (Inr (True, entry_holder (length hdr' + length (enc_log es')) (key, stored_value [] False)), t)"
        "same_log E hdr es hdr' es'" "appended E t hdr' (es' @ [(key, stored_value [] False)])" "same_settings ?s t"
        "evolves E ?s hdr es t hdr' (es' @ [(key, stored_value [] False)])"
      have r: "removeValueForKey E iv key s = (Inr True, t\<lparr>m_dic := (m_dic t)(key := None)\<rparr>)"
        using a(1) k Some assms(3) by (simp add: run removeDataForKey_def bindC_def)
      have "store_ok E (t\<lparr>m_dic := (m_dic t)(key := None)\<rparr>) hdr' (es' @ [(key, [])])"
        using appended_removed [OF a(3)] by (simp add: st)
      moreover have "log_contents (es' @ [(key, [])]) = (log_contents es)(key := None)"
        using same_log_contents [OF a(2)] by (simp add: log_contents_append log_step_def)
      moreover have "same_settings s (t\<lparr>m_dic := (m_dic t)(key := None)\<rparr>)"
        using a(4) by (simp add: same_settings_def)
      moreover have "evolves E s hdr es (t\<lparr>m_dic := (m_dic t)(key := None)\<rparr>) hdr' (es' @ [(key, [])])"
        using a(5) by (simp add: evolves_def rewritten_def st)
      ultimately show thesis using r n same_log_length [OF a(2)] by (intro done_ [of _ hdr' "es' @ [(key, [])]"]) simp_all
    next
      fix t assume a: "appendDataWithHolder E [] key False ?s = (Inr (False, KeyValueHolder_default), t)" "unchanged E ?s es t"
      then have "removeValueForKey E iv key s = (Inr False, t)"
        using k Some assms(3) by (simp add: run removeDataForKey_def bindC_def)
      moreover have "unchanged E s es t" using a(2) by (simp add: unchanged_def same_settings_def)
      ultimately show thesis by (rule failed)
    qed
  qed
qed

section \<open>The override whose key lies in the way\<close>

lemma iterate_one:
  assumes "iterates E"
  shows "length (iterate E [key \<mapsto> h]) = 1"
proof -
  have it: "distinct (map fst (iterate E [key \<mapsto> h]))" "map_of (iterate E [key \<mapsto> h]) = [key \<mapsto> h]"
    using assms by (auto simp: iterates_def)
  then have "fst ` set (iterate E [key \<mapsto> h]) = {key}" by (metis dom_map_of_conv_image_fst dom_eq_singleton_conv)
  then have "card (set (map fst (iterate E [key \<mapsto> h]))) = 1" by simp
  then show ?thesis using distinct_card [OF it(1)] by simp
qed

text \<open>The key is copied from its old place to behind the new header; the two places overlap.\<close>

lemma write_overlapping:
  assumes w: "writable 4 s" and "8 + n \<le> f_size (m_file s)" and "4 < p" and "p < 4 + n" and "4 + p + n \<le> f_size (m_file s)"
    and "unat originKeyLength < n"
  shows "fst (write_entry data (InFile (4 + p) n) isDataHolder originKeyLength s) = Inl MemoryFault"
proof -
  from w obtain out where out: "m_output s = Some out" "out_ptr out = 4" "out_size out + 4 = f_size (m_file s)"
    "out_position out = 4" "f_ptr (m_file s)" by (rule writableE)
  have o: "overlaps (4 + p) (curWritePointer out) n"
    using assms(3,4) out by (simp add: overlaps_def curWritePointer_def)
  have "writeRawData_buffer (InFile (4 + p) n) s = (Inl MemoryFault, s)"
    using out assms(2,5) o by (simp add: bindC_def memory_read_run)
  then show ?thesis using assms(6) by (simp add: write_entry_def bindC_def)
qed

lemma override_fault:
  assumes "env_ok E" and s: "store_ok E s hdr es" and "\<not> m_enableKeyExpire s" and "\<not> m_enableCompareBeforeSet s"
    and "\<not> m_multiProcess s" and d: "m_dic s = [key \<mapsto> h]"
    and p: "4 < unat (offset h)" "unat (offset h) < 4 + length (enc_data key)"
    and v: "valid_set key data False" and "data \<noteq> []" and "m_itemSizeLimit s = 0"
    and room: "checkSizeForOverride (length (enc_entry (key, data))) s"
  shows "fst (setDataForKey E iv data key False s) = Inl MemoryFault"
proof -
  let ?n = "length (enc_data key)" and ?b = "InFile (4 + unat (offset h)) (length (enc_data key))"
  let ?k = "word_of_nat (length key) :: u32"
  have d': "m_dic s key = Some h" using d by simp
  obtain w where h: "encoded_key_size h = ?n" "ucast (keySize h) = ?k"
    "unat (offset h) + length (enc_entry (key, w)) \<le> m_actualSize s"
    "mem_read (f_disk (m_file s)) (4 + unat (offset h)) (length (enc_entry (key, w))) = enc_entry (key, w)"
    using located [OF s d'] by metis
  have key: "short key" "length key < 65526" using valid_setD(2) [OF v] v by (auto simp: valid_set_def)
  have f: "4 + m_actualSize s \<le> f_size (m_file s)" "writable (m_actualSize s) s"
    using s by (auto simp: store_ok_def log_ok_def file_log_def)
  have e: "length (enc_entry (key, x)) = ?n + length (enc_data x)" for x by (simp add: enc_entry_def)
  have rk: "raw_key_size ?b ?k = ?n"
    by (rule raw_key_size_buffer [OF key key_buffer_located(1) [OF s h(3,4)]])
  have sv: "stored_value data False = data" by (simp add: stored_value_def)
  note sizes = entry_size_enc [OF v, unfolded sv]
  have big: "8 + length (enc_entry (key, data)) \<le> f_size (m_file s)"
    using room by (simp add: checkSizeForOverride_def Let_def getFileSize_def ItemSizeHolderSize_def)
  have len: "unat ?k < ?n" using short_facts(2) [OF key(1)] length_varint_gt_0 [of "length key"] key(1) by (simp add: enc_data_short)
  let ?s0 = "s\<lparr>m_output := Some (setPosition 0 (the (m_output s)))\<rparr>"
  obtain out where out: "m_output s = Some out" "out_ptr out = 4" "out_size out + 4 = f_size (m_file s)"
    "f_ptr (m_file s)" "\<not> f_readOnly (m_file s)" "f_size (m_file s) \<le> length (f_disk (m_file s))"
    using f(2) by (auto elim: writableE)
  have m0: "move_output (\<lambda>out. (Inr (), setPosition 0 out)) s = (Inr (), ?s0)" using out(1) by (simp add: move_output_def)
  have w0: "writable 0 ?s0" using out by (simp add: writable_def setPosition_def)
  obtain o1 where h1: "with_output (writeUInt32 (randomItemSizeHolder (rand_value E) ItemSizeHolderSize)) ?s0 =
      (Inr (), set_mem (mem_write (f_disk (m_file s)) 4 (holder_bytes E)) o1 ?s0)"
    "writable 4 (set_mem (mem_write (f_disk (m_file s)) 4 (holder_bytes E)) o1 ?s0)"
    using with_output_writes [OF w0 writes_bytes_ops(1), of "randomItemSizeHolder (rand_value E) ItemSizeHolderSize"] big
    by (auto simp flip: holder_bytes_def)
  let ?s1 = "(set_mem (mem_write (f_disk (m_file s)) 4 (holder_bytes E)) o1 ?s0)\<lparr>m_actualSize := ItemSizeHolderSize\<rparr>"
  have w1: "writable 4 ?s1" using h1(2) by (simp add: writable_def)
  have "fst (write_entry data ?b False ?k ?s1) = Inl MemoryFault"
    using big h(3) f(1) e[of data] e[of w] p len by (intro write_overlapping [OF w1]) simp_all
  then obtain t where t: "write_entry data ?b False ?k ?s1 = (Inl MemoryFault, t)" by (metis eq_fst_iff)
  have "doOverrideDataWithKey E data ?b False ?k s = (Inl MemoryFault, t)"
    using assms(11) room t
    by (simp add: doOverrideDataWithKey_def Let_def rk sizes checkSizeLimit_def bindC_def catch_all_def m0 h1(1))
  then have "overrideDataWithHolder E data key False s = (Inl MemoryFault, t)"
    using d' p(1) room by (simp add: overrideDataWithHolder_def holder_at_def bindC_def Let_def h(1,2) sizes ItemSizeHolderSize_def)
  then show ?thesis
    using assms(3-5,9,10) d' iterate_one [OF env_okD(1) [OF assms(1)], of key h]
    by (simp add: setDataForKey_def valid_set_def bindC_def checkLoadData_loaded [OF s] isCompareBeforeSetEnabled_def returnC_def Let_def d)
qed
end
