(* ===== verification/SampleStore.thy ===== *)
theory SampleStore
  imports MMKV_Keys "HOL-Library.List_Lexorder"
begin

text \<open>
  Concrete stores and a concrete environment, for the examples of the properties: the checksum of zlib, a
  dictionary iterated in the order of its keys, and for every log a loaded store that holds it.
\<close>

unbundle bit_operations_syntax

section \<open>An environment\<close>

text \<open>The reflected polynomial of zlib's checksum, a bit at a time.\<close>

primrec crc_bits :: "nat \<Rightarrow> u32 \<Rightarrow> u32" where
  "crc_bits 0 c = c"
| "crc_bits (Suc n) c = crc_bits n (if bit c 0 then drop_bit 1 c XOR 0xEDB88320 else drop_bit 1 c)"

definition zlib_crc32 :: "u32 \<Rightarrow> byte list \<Rightarrow> u32" where
  "zlib_crc32 c bs = NOT (foldl (\<lambda>c b. crc_bits 8 (c XOR ucast b)) (NOT c) bs)"

definition sorted_iterate :: "MMKVMap \<Rightarrow> (byte list \<times> KeyValueHolder) list" where
  "sorted_iterate d = map (\<lambda>k. (k, the (d k))) (sorted_list_of_set (dom d))"

definition sample_env :: environment where
  "sample_env = \<lparr>page_size = 4096, crc32 = zlib_crc32, iterate = sorted_iterate, rand_value = 0, time_now = 1000,
     onMMKVCRCCheckFail = OnErrorDiscard, onMMKVFileLengthError = OnErrorDiscard,
     debug_build = False\<rparr>"

lemma zlib_crc32_append: "zlib_crc32 c (xs @ ys) = zlib_crc32 (zlib_crc32 c xs) ys"
  by (simp add: zlib_crc32_def)

lemma zlib_crc32_Nil: "zlib_crc32 c [] = c"
  by (simp add: zlib_crc32_def)

lemma map_of_sorted_iterate: "finite (dom d) \<Longrightarrow> map_of (sorted_iterate d) = d"
proof
  fix k assume "finite (dom d)"
  then show "map_of (sorted_iterate d) k = d k"
    by (cases "d k") (auto simp: sorted_iterate_def map_of_eq_None_iff map_of_map_keys[symmetric] image_iff intro!: map_of_is_SomeI simp: comp_def)
qed

lemma sample_env_ok: "env_ok sample_env"
proof -
  have "iterates sample_env"
    unfolding iterates_def by (simp add: sample_env_def map_of_sorted_iterate) (simp add: sorted_iterate_def comp_def)
  then show ?thesis
    by (simp add: env_ok_def crc_append_def zlib_crc32_append) (simp add: sample_env_def zlib_crc32_append)
qed

section \<open>Stores\<close>

definition mapped :: "byte list \<Rightarrow> MemoryFile" where
  "mapped disk = \<lparr>f_fd = True, f_ptr = True, f_size = length disk, f_disk = disk, f_readOnly = False,
     f_isMayflyFD = False, f_io = []\<rparr>"

definition sample_meta :: "bool \<Rightarrow> byte list \<Rightarrow> MMKVMetaInfo" where
  "sample_meta expire bs = MMKVMetaInfo_new\<lparr>mi_version := MMKVVersionFlag, mi_crcDigest := zlib_crc32 0 bs,
     mi_actualSize := word_of_nat (length bs), mi_flags := if expire then EnableKeyExipre else 0\<rparr>"

text \<open>A store that holds a header, a log and some free space, with or without expiration.\<close>

definition sample_store_with :: "bool \<Rightarrow> bool \<Rightarrow> byte list \<Rightarrow> log_entry list \<Rightarrow> nat \<Rightarrow> MMKV" where
  "sample_store_with expire multiProcess hdr es room =
     (let bs = hdr @ enc_log es
      in \<lparr>m_file = mapped (replicate 4 0 @ bs @ replicate room 0),
          m_metaFile = mapped (meta_write (sample_meta expire bs) (replicate 4096 0)),
          m_metaInfo = sample_meta expire bs,
          m_output = Some (setPosition (length bs) (CodedOutputData [] 4 (length bs + room))),
          m_dic = dic_of (length hdr) es, m_actualSize = length bs, m_crcDigest = zlib_crc32 0 bs,
          m_expectedCapacity = 0, m_itemSizeLimit = 0, m_recoverStrategic = None, m_needLoadFromFile = False,
          m_hasFullWriteback = False, m_isSecondLoad = False, m_enableKeyExpire = expire, m_expiredInSeconds = 0,
          m_enableCompareBeforeSet = False, m_multiProcess = multiProcess, m_readOnly = False\<rparr>)"

abbreviation sample_store :: "bool \<Rightarrow> byte list \<Rightarrow> log_entry list \<Rightarrow> nat \<Rightarrow> MMKV" where
  "sample_store \<equiv> sample_store_with False"

lemmas sample_store_def = sample_store_with_def

lemma mapped_sel [simp]:
  "f_fd (mapped d)" "f_ptr (mapped d)" "f_size (mapped d) = length d" "f_disk (mapped d) = d" "\<not> f_readOnly (mapped d)"
  "\<not> f_isMayflyFD (mapped d)" "f_io (mapped d) = []" "isFileValid (mapped d) \<longleftrightarrow> d \<noteq> []" "file_ok (mapped d)"
  "f_memory (mapped d) = d"
  by (simp_all add: mapped_def isFileValid_def file_ok_def f_memory_def)

lemma sample_meta_ok: "meta_ok (sample_meta expire bs)"
  by (simp add: sample_meta_def MMKVMetaInfo_new_def meta_ok_def)

lemma sample_store_sel [simp]:
  "m_enableKeyExpire (sample_store_with expire mp hdr es room) = expire"
  "m_enableCompareBeforeSet (sample_store_with expire mp hdr es room) = False"
  "m_multiProcess (sample_store_with expire mp hdr es room) = mp"
  "m_itemSizeLimit (sample_store_with expire mp hdr es room) = 0"
  "m_readOnly (sample_store_with expire mp hdr es room) = False"
  "m_dic (sample_store_with expire mp hdr es room) = dic_of (length hdr) es"
  "f_io (m_file (sample_store_with expire mp hdr es room)) = []"
  by (simp_all add: sample_store_def Let_def)

lemma sample_store_ok:
  assumes "header hdr es" and "in_range (length hdr) es"
  shows "store_ok sample_env (sample_store_with expire mp hdr es room) hdr es"
proof -
  let ?bs = "hdr @ enc_log es" and ?s = "sample_store_with expire mp hdr es room"
  have len: "length (meta_write (sample_meta expire ?bs) (replicate 4096 0)) = 4096"
    using length_meta_write [OF sample_meta_ok, of "replicate 4096 0"] by simp
  have sel: "mi_version (sample_meta expire bs) = MMKVVersionFlag" "mi_crcDigest (sample_meta expire bs) = zlib_crc32 0 bs"
    "mi_actualSize (sample_meta expire bs) = word_of_nat (length bs)" "hasFlag EnableKeyExipre (sample_meta expire bs) = expire" for bs
    by (simp_all add: sample_meta_def MMKVMetaInfo_new_def hasFlag_def EnableKeyExipre_def)
  have read: "mem_read (replicate 4 0 @ ?bs @ replicate room 0) 4 (length ?bs) = ?bs"
    by (simp add: mem_read_def)
  have fl: "file_log ?s hdr es"
    using assms read by (simp add: file_log_def sample_store_def Let_def)
  then have "log_ok ?s hdr es"
    by (simp add: log_ok_def sample_store_def Let_def writable_def setPosition_def CodedOutputData_def)
  moreover have "meta_current sample_env ?s ?bs"
    using len sample_meta_ok version_order meta_read_write [OF sample_meta_ok]
    by (auto simp: meta_current_def meta_ready_def sample_store_def Let_def read_meta_def sel sample_env_def)
  ultimately show ?thesis by (simp add: store_ok_def)
qed

section \<open>A small store\<close>

abbreviation small_header :: "byte list" where
  "small_header \<equiv> enc_uint32 5"

abbreviation small_log :: "log_entry list" where
  "small_log \<equiv> [([107], [1, 2]), ([108], [3]), ([107], [4])]"

abbreviation small_store :: "bool \<Rightarrow> nat \<Rightarrow> MMKV" where
  "small_store multiProcess room \<equiv> sample_store multiProcess small_header small_log room"

lemma small_store_ok: "store_ok sample_env (small_store multiProcess room) small_header small_log"
proof (rule sample_store_ok)
  show "header small_header small_log"
    using reads_readInt32_uint32 [of 5] by (auto simp: header_def enc_uint32_def)
  show "in_range (length small_header) small_log"
    by (simp add: in_range_def valid_entry_def short_def enc_entry_def enc_data_def enc_uint32_def)
qed

lemma small_log_contents: "log_contents small_log = [[108] \<mapsto> [3], [107] \<mapsto> [4]]"
  by (simp add: log_contents_def log_step_def fun_eq_iff)

lemma small_log_below: "length (enc_entry kv) < 1000 \<Longrightarrow> below_4GB small_log kv"
  by (simp add: below_4GB_def enc_entry_def enc_data_def)
end
