(* ===== verification/MMKV_Expire.thy ===== *)
theory MMKV_Expire
  imports MMKV_IO
begin

text \<open>
  Keys that expire (\<open>MMKV_IO.cpp\<close>, "auto expire") and the comparison before a set, for stores without
  encryption. In a store with expiration every value ends in four bytes: the second at which it expires,
  or 0. Switching expiration on or off rewrites all values with or without these bytes.
\<close>

unbundle bit_operations_syntax

definition getCurrentTimeInSecond :: "environment \<Rightarrow> u32" where
  "getCurrentTimeInSecond E = time_now E"

text \<open>The time stored with a value, in the arithmetic of the code.\<close>

definition expire_time :: "environment \<Rightarrow> u32 \<Rightarrow> u32" where
  "expire_time E expireDuration =
     (if unat expireDuration \<noteq> ExpireNever then getCurrentTimeInSecond E + expireDuration else word_of_nat ExpireNever)"

text \<open>Writing a given list of pairs over everything, after which the store has to be loaded again.\<close>

definition doFullWriteBack_vector ::
  "environment \<Rightarrow> (nat \<Rightarrow> byte) \<Rightarrow> (byte list \<times> byte list) list \<Rightarrow> (MMKV, bool) cpp" where
  "doFullWriteBack_vector E junk vec s =
     (case prepareEncode_vector junk vec of
        Inl e \<Rightarrow> (Inl e, s)
      | Inr (buffer, sizeOfDic) \<Rightarrow>
          let fileSize = getFileSize (m_file s)
          in bindC (if sizeOfDic + 4 \<le> fileSize then doFullWriteBack E buffer sizeOfDic True
                    else expandAndWriteBack E (sizeOfDic + 4 - fileSize) buffer sizeOfDic True)
               (\<lambda>ret s. (Inr ret, clearMemoryCache False s)) (s\<lparr>m_dic := Map.empty\<rparr>))"

text \<open>The loops over the dictionary, with or without the time.\<close>

definition holder_value :: "KeyValueHolder \<Rightarrow> (MMKV, byte list) cpp" where
  "holder_value kvHolder =
     memory_read (4 + (unat (offset kvHolder) + unat (computedKVSize kvHolder))) (unat (valueSize kvHolder))"

primrec pack_with_time ::
  "u32 \<Rightarrow> (byte list \<times> KeyValueHolder) list \<Rightarrow> (byte list \<times> byte list) list \<Rightarrow> (MMKV, (byte list \<times> byte list) list) cpp" where
  "pack_with_time time [] vec = returnC vec"
| "pack_with_time time (pair # pairs) vec =
     bindC (holder_value (snd pair)) (\<lambda>value. pack_with_time time pairs (vec @ [(fst pair, value @ word_bytes 4 time)]))"

primrec pack_without_time ::
  "(byte list \<times> KeyValueHolder) list \<Rightarrow> (byte list \<times> byte list) list \<Rightarrow> (MMKV, (byte list \<times> byte list) list) cpp" where
  "pack_without_time [] vec = returnC vec"
| "pack_without_time (pair # pairs) vec =
     bindC (holder_value (snd pair)) (\<lambda>value.
       pack_without_time pairs (if length value < 4 then vec else vec @ [(fst pair, take (length value - 4) value)]))"

definition file_is_new :: "MMKV \<Rightarrow> bool" where
  "file_is_new s \<longleftrightarrow> getFileSize (m_file s) = m_expectedCapacity s \<and> m_actualSize s = 0"

definition write_meta_of_new_file :: "(MMKV, bool) cpp" where
  "write_meta_of_new_file =
     bindC (writeActualSize 0 0 None True) (\<lambda>_ s. (Inr True, s\<lparr>m_metaFile := snd (msync (m_metaFile s))\<rparr>))"

definition enableAutoKeyExpire :: "environment \<Rightarrow> byte list \<Rightarrow> (nat \<Rightarrow> byte) \<Rightarrow> u32 \<Rightarrow> (MMKV, bool) cpp" where
  "enableAutoKeyExpire E iv junk expiredInSeconds s =
     (if m_readOnly s then (Inr False, s)
      else bindC (checkLoadData E iv) (\<lambda>_ s.
        if \<not> isFileValid_store s \<or> \<not> isFileValid (m_metaFile s) then (Inr False, s)
        else let s = s\<lparr>m_enableCompareBeforeSet := False, m_expiredInSeconds := expiredInSeconds, m_enableKeyExpire := True\<rparr>
             in if hasFlag EnableKeyExipre (m_metaInfo s) then (Inr True, s)
                else let time = expire_time E (m_expiredInSeconds s);
                         s = s\<lparr>m_metaInfo := (setFlag EnableKeyExipre (m_metaInfo s))\<lparr>mi_version := MMKVVersionFlag\<rparr>\<rparr>
                     in if file_is_new s then write_meta_of_new_file s
                        else bindC (pack_with_time time (iterate E (m_dic s)) []) (doFullWriteBack_vector E junk) s) s)"

definition disableAutoKeyExpire :: "environment \<Rightarrow> byte list \<Rightarrow> (nat \<Rightarrow> byte) \<Rightarrow> (MMKV, bool) cpp" where
  "disableAutoKeyExpire E iv junk s =
     (if m_readOnly s then (Inr False, s)
      else bindC (checkLoadData E iv) (\<lambda>_ s.
        if \<not> isFileValid_store s \<or> \<not> isFileValid (m_metaFile s) then (Inr False, s)
        else let s = s\<lparr>m_expiredInSeconds := 0, m_enableKeyExpire := False\<rparr>
             in if \<not> hasFlag EnableKeyExipre (m_metaInfo s) then (Inr True, s)
                else let s = s\<lparr>m_metaInfo := (unsetFlag EnableKeyExipre (m_metaInfo s))\<lparr>mi_version := MMKVVersionFlag\<rparr>\<rparr>
                     in if file_is_new s then write_meta_of_new_file s
                        else bindC (pack_without_time (iterate E (m_dic s)) []) (doFullWriteBack_vector E junk) s) s)"

text \<open>The setting of the configuration, in the constructor.\<close>

definition configAutoExipreIfNeeded ::
  "environment \<Rightarrow> byte list \<Rightarrow> (nat \<Rightarrow> byte) \<Rightarrow> bool option \<Rightarrow> u32 \<Rightarrow> (MMKV, unit) cpp" where
  "configAutoExipreIfNeeded E iv junk enableKeyExpire expiredInSeconds s =
     (case enableKeyExpire of
        None \<Rightarrow> (Inr (), s)
      | Some enable \<Rightarrow>
          if m_readOnly s then (Inr (), s)
          else bindC (loadMetaInfoAndCheck E) (\<lambda>_ s.
                 if \<not> isFileValid (m_metaFile s) then (Inr (), s)
                 else if m_enableKeyExpire s
                 then if enable then (Inr (), s\<lparr>m_expiredInSeconds := expiredInSeconds\<rparr>)
                      else bindC (disableAutoKeyExpire E iv junk) (\<lambda>_. returnC ()) s
                 else if enable then bindC (enableAutoKeyExpire E iv junk expiredInSeconds) (\<lambda>_. returnC ()) s
                 else (Inr (), s)) s)"

definition getExpireTimeForKey :: "environment \<Rightarrow> byte list \<Rightarrow> byte list \<Rightarrow> (MMKV, u32) cpp" where
  "getExpireTimeForKey E iv key =
     bindC (checkLoadData E iv) (\<lambda>_ s.
       if \<not> m_enableKeyExpire s \<or> length key = 0 then (Inr 0, s)
       else bindC (getRawDataForKey E iv key) (\<lambda>raw.
              if length raw < 4 then returnC 0 else returnC (word_of_nat (le_value (drop (length raw - 4) raw)))) s)"

definition enableCompareBeforeSet :: "(MMKV, bool) cpp" where
  "enableCompareBeforeSet s =
     (if m_enableKeyExpire s then (Inr False, s) else (Inr True, s\<lparr>m_enableCompareBeforeSet := True\<rparr>))"

definition disableCompareBeforeSet :: "(MMKV, bool) cpp" where
  "disableCompareBeforeSet s =
     (if m_enableKeyExpire s then (Inr False, s) else (Inr True, s\<lparr>m_enableCompareBeforeSet := False\<rparr>))"

end
