(* ===== verification/MMKV_API.thy ===== *)
theory MMKV_API
  imports MMKV_Expire
begin

text \<open>
  The interface of a store (\<open>MMKV.cpp\<close>): the constructor, typed sets and gets, enumeration, and importing
  another store. A typed set encodes its value into a buffer of its own, whose first content is the
  argument \<open>junk\<close>; a typed get returns the value and whether there was one (\<open>hasValue\<close>).
\<close>

unbundle bit_operations_syntax

section \<open>The constructor\<close>

definition MMKV_MULTI_PROCESS :: u32 where "MMKV_MULTI_PROCESS = 2"
definition MMKV_READ_ONLY :: u32 where "MMKV_READ_ONLY = 32"

record MMKVConfig =
  mode :: u32
  expectedCapacity :: nat
  enableKeyExpire :: "bool option"
  expiredInSeconds :: u32
  compareBeforeSet :: bool
  recover :: "MMKVRecoverStrategic option"
  itemSizeLimit :: u32

definition isMultiProcess :: "MMKVConfig \<Rightarrow> bool" where
  "isMultiProcess config \<longleftrightarrow> mode config AND MMKV_MULTI_PROCESS \<noteq> 0"

definition isReadOnly :: "MMKVConfig \<Rightarrow> bool" where
  "isReadOnly config \<longleftrightarrow> mode config AND MMKV_READ_ONLY \<noteq> 0"

text \<open>The object on the files with the given contents. The operating system answers the calls on the one
  and on the other file by \<open>io\<close> and \<open>metaIo\<close>. The default size of a file is the page size.\<close>

definition MMKV_object :: "environment \<Rightarrow> MMKVConfig \<Rightarrow> byte list \<Rightarrow> byte list \<Rightarrow> bool list \<Rightarrow> bool list \<Rightarrow> MMKV" where
  "MMKV_object E config disk metaDisk io metaIo =
     (let capacity = max (page_size E) (roundUp (expectedCapacity config) (page_size E))
      in \<lparr>m_file = MemoryFile_new (page_size E) capacity (isReadOnly config) True disk io,
          m_metaFile = MemoryFile_new (page_size E) 0 (isReadOnly config) (\<not> isMultiProcess config) metaDisk metaIo,
          m_metaInfo = MMKVMetaInfo_new, m_output = None, m_dic = Map.empty, m_actualSize = 0, m_crcDigest = 0,
          m_expectedCapacity = capacity, m_itemSizeLimit = itemSizeLimit config, m_recoverStrategic = recover config,
          m_needLoadFromFile = True, m_hasFullWriteback = False, m_isSecondLoad = False, m_enableKeyExpire = False,
          m_expiredInSeconds = word_of_nat ExpireNever, m_enableCompareBeforeSet = False,
          m_multiProcess = isMultiProcess config, m_readOnly = isReadOnly config\<rparr>)"

definition MMKV_new ::
  "environment \<Rightarrow> byte list \<Rightarrow> (nat \<Rightarrow> byte) \<Rightarrow> MMKVConfig \<Rightarrow> byte list \<Rightarrow> byte list \<Rightarrow> bool list \<Rightarrow> bool list \<Rightarrow>
   (cpp_exception + unit) \<times> MMKV" where
  "MMKV_new E iv junk config disk metaDisk io metaIo =
     bindC (if enableKeyExpire config \<noteq> None
            then configAutoExipreIfNeeded E iv junk (enableKeyExpire config) (expiredInSeconds config)
            else returnC ())
       (\<lambda>_. if compareBeforeSet config then bindC enableCompareBeforeSet (\<lambda>_. returnC ()) else returnC ())
       (MMKV_object E config disk metaDisk io metaIo)"

section \<open>Typed sets\<close>

text \<open>The common shape of the sets of numbers: a buffer of the size of the encoding, and four bytes for the
  time in a store with expiration. A duration without expiration is a failed assertion.\<close>

definition encode_value ::
  "environment \<Rightarrow> (nat \<Rightarrow> byte) \<Rightarrow> u32 \<Rightarrow> (coded_output, unit) cpp \<Rightarrow> bool \<Rightarrow> u32 \<Rightarrow> cpp_exception + byte list" where
  "encode_value E junk sz wr expire expireDuration =
     (let n = unat (if expire then Fixed32Size + sz else sz);
          (r, out) = bindC wr (\<lambda>_.
             if expire then writeRawLittleEndian32 (UInt32ToInt32 (expire_time E expireDuration))
             else if unat expireDuration = ExpireNever then returnC () else throwC MemoryFault)
             (CodedOutputData (map junk [0..<n]) 0 n)
      in case r of Inl e \<Rightarrow> Inl e | Inr _ \<Rightarrow> Inr (out_mem out))"

definition set_encoded ::
  "environment \<Rightarrow> byte list \<Rightarrow> (nat \<Rightarrow> byte) \<Rightarrow> u32 \<Rightarrow> (coded_output, unit) cpp \<Rightarrow> byte list \<Rightarrow> u32 \<Rightarrow> (MMKV, bool) cpp" where
  "set_encoded E iv junk sz wr key expireDuration s =
     (if key = [] then (Inr False, s)
      else (case encode_value E junk sz wr (m_enableKeyExpire s) expireDuration of
              Inl e \<Rightarrow> (Inl e, s)
            | Inr data \<Rightarrow> setDataForKey E iv data key False s))"

definition set_bool :: "environment \<Rightarrow> byte list \<Rightarrow> (nat \<Rightarrow> byte) \<Rightarrow> bool \<Rightarrow> byte list \<Rightarrow> u32 \<Rightarrow> (MMKV, bool) cpp" where
  "set_bool E iv junk value = set_encoded E iv junk pbBoolSize (writeBool value)"

definition set_int32 :: "environment \<Rightarrow> byte list \<Rightarrow> (nat \<Rightarrow> byte) \<Rightarrow> int32 \<Rightarrow> byte list \<Rightarrow> u32 \<Rightarrow> (MMKV, bool) cpp" where
  "set_int32 E iv junk value = set_encoded E iv junk (pbInt32Size value) (writeInt32 value)"

definition set_uint32 :: "environment \<Rightarrow> byte list \<Rightarrow> (nat \<Rightarrow> byte) \<Rightarrow> u32 \<Rightarrow> byte list \<Rightarrow> u32 \<Rightarrow> (MMKV, bool) cpp" where
  "set_uint32 E iv junk value = set_encoded E iv junk (pbUInt32Size value) (writeUInt32 value)"

definition set_int64 :: "environment \<Rightarrow> byte list \<Rightarrow> (nat \<Rightarrow> byte) \<Rightarrow> int64 \<Rightarrow> byte list \<Rightarrow> u32 \<Rightarrow> (MMKV, bool) cpp" where
  "set_int64 E iv junk value = set_encoded E iv junk (pbInt64Size value) (writeInt64 value)"

definition set_uint64 :: "environment \<Rightarrow> byte list \<Rightarrow> (nat \<Rightarrow> byte) \<Rightarrow> u64 \<Rightarrow> byte list \<Rightarrow> u32 \<Rightarrow> (MMKV, bool) cpp" where
  "set_uint64 E iv junk value = set_encoded E iv junk (pbUInt64Size value) (writeUInt64 value)"

definition set_float :: "environment \<Rightarrow> byte list \<Rightarrow> (nat \<Rightarrow> byte) \<Rightarrow> float32 \<Rightarrow> byte list \<Rightarrow> u32 \<Rightarrow> (MMKV, bool) cpp" where
  "set_float E iv junk value = set_encoded E iv junk pbFloatSize (writeFloat value)"

definition set_double :: "environment \<Rightarrow> byte list \<Rightarrow> (nat \<Rightarrow> byte) \<Rightarrow> float64 \<Rightarrow> byte list \<Rightarrow> u32 \<Rightarrow> (MMKV, bool) cpp" where
  "set_double E iv junk value = set_encoded E iv junk pbDoubleSize (writeDouble value)"

text \<open>The sets without a duration take the one of the store.\<close>

definition with_default_duration :: "(u32 \<Rightarrow> (MMKV, bool) cpp) \<Rightarrow> (MMKV, bool) cpp" where
  "with_default_duration f s = f (m_expiredInSeconds s) s"

text \<open>Bytes and strings.\<close>

definition setDataForKey_duration ::
  "environment \<Rightarrow> byte list \<Rightarrow> (nat \<Rightarrow> byte) \<Rightarrow> byte list \<Rightarrow> byte list \<Rightarrow> u32 \<Rightarrow> (MMKV, bool) cpp" where
  "setDataForKey_duration E iv junk data key expireDuration s =
     (if \<not> m_enableKeyExpire s
      then if unat expireDuration = ExpireNever then setDataForKey E iv data key True s else (Inl MemoryFault, s)
      else (let n = unat (pbMMBufferSize data + Fixed32Size);
                (r, out) = bindC (writeData data) (\<lambda>_. writeRawLittleEndian32 (UInt32ToInt32 (expire_time E expireDuration)))
                             (CodedOutputData (map junk [0..<n]) 0 n)
            in case r of Inl e \<Rightarrow> (Inl e, s) | Inr _ \<Rightarrow> setDataForKey E iv (out_mem out) key False s))"

definition set_cstring ::
  "environment \<Rightarrow> byte list \<Rightarrow> (nat \<Rightarrow> byte) \<Rightarrow> byte list option \<Rightarrow> byte list \<Rightarrow> u32 \<Rightarrow> (MMKV, bool) cpp" where
  "set_cstring E iv junk value key expireDuration =
     (case value of
        None \<Rightarrow> bindC (removeValueForKey E iv key) (\<lambda>_. returnC True)
      | Some str \<Rightarrow> setDataForKey_duration E iv junk (takeWhile (\<lambda>b. b \<noteq> 0) str) key expireDuration)"

definition set_string :: "environment \<Rightarrow> byte list \<Rightarrow> (nat \<Rightarrow> byte) \<Rightarrow> byte list \<Rightarrow> byte list \<Rightarrow> u32 \<Rightarrow> (MMKV, bool) cpp" where
  "set_string E iv junk value key expireDuration s =
     (if key = [] then (Inr False, s) else setDataForKey_duration E iv junk value key expireDuration s)"

definition set_bytes :: "environment \<Rightarrow> byte list \<Rightarrow> (nat \<Rightarrow> byte) \<Rightarrow> byte list \<Rightarrow> byte list \<Rightarrow> u32 \<Rightarrow> (MMKV, bool) cpp" where
  "set_bytes E iv junk value key expireDuration s =
     (if key = [] then (Inr False, s) else setDataForKey_duration E iv junk value key expireDuration s)"

text \<open>Vectors are encoded already.\<close>

definition set_vector_data ::
  "environment \<Rightarrow> byte list \<Rightarrow> cpp_exception + byte list \<Rightarrow> byte list \<Rightarrow> u32 \<Rightarrow> (MMKV, bool) cpp" where
  "set_vector_data E iv encoded key expireDuration s =
     (case encoded of
        Inl e \<Rightarrow> (Inl e, s)
      | Inr data \<Rightarrow>
          setDataForKey E iv
            (if m_enableKeyExpire s \<and> 0 < length data then data @ word_bytes 4 (expire_time E expireDuration) else data)
            key False s)"

definition set_strings ::
  "environment \<Rightarrow> byte list \<Rightarrow> (nat \<Rightarrow> byte) \<Rightarrow> byte list list \<Rightarrow> byte list \<Rightarrow> u32 \<Rightarrow> (MMKV, bool) cpp" where
  "set_strings E iv junk v key expireDuration s =
     (if key = [] then (Inr False, s)
      else set_vector_data E iv (encodeDataWithObject_strings junk v) key expireDuration s)"

definition set_int32s ::
  "environment \<Rightarrow> byte list \<Rightarrow> (nat \<Rightarrow> byte) \<Rightarrow> int32 list \<Rightarrow> byte list \<Rightarrow> u32 \<Rightarrow> (MMKV, bool) cpp" where
  "set_int32s E iv junk v key expireDuration s =
     (if key = [] then (Inr False, s)
      else set_vector_data E iv (encodeDataWithObject_int32s junk v) key expireDuration s)"

section \<open>Typed gets\<close>

text \<open>The value that an operation of the reader gives on the stored bytes, and whether it gave one.\<close>

definition get_decoded ::
  "environment \<Rightarrow> byte list \<Rightarrow> (coded_input, 'a) cpp \<Rightarrow> byte list \<Rightarrow> 'a \<Rightarrow> (MMKV, 'a \<times> bool) cpp" where
  "get_decoded E iv rd key defaultValue =
     (if key = [] then returnC (defaultValue, False)
      else bindC (getDataForKey E iv key) (\<lambda>data.
             if 0 < length data
             then (case rd (CodedInputData data 0 (length data)) of
                     (Inr v, _) \<Rightarrow> returnC (v, True)
                   | (Inl e, _) \<Rightarrow> if e = MemoryFault then throwC e else returnC (defaultValue, False))
             else returnC (defaultValue, False)))"

definition getBool :: "environment \<Rightarrow> byte list \<Rightarrow> byte list \<Rightarrow> bool \<Rightarrow> (MMKV, bool \<times> bool) cpp" where
  "getBool E iv = get_decoded E iv readBool"

definition getInt32 :: "environment \<Rightarrow> byte list \<Rightarrow> byte list \<Rightarrow> int32 \<Rightarrow> (MMKV, int32 \<times> bool) cpp" where
  "getInt32 E iv = get_decoded E iv readInt32"

definition getUInt32 :: "environment \<Rightarrow> byte list \<Rightarrow> byte list \<Rightarrow> u32 \<Rightarrow> (MMKV, u32 \<times> bool) cpp" where
  "getUInt32 E iv = get_decoded E iv readUInt32"

definition getInt64 :: "environment \<Rightarrow> byte list \<Rightarrow> byte list \<Rightarrow> int64 \<Rightarrow> (MMKV, int64 \<times> bool) cpp" where
  "getInt64 E iv = get_decoded E iv readInt64"

definition getUInt64 :: "environment \<Rightarrow> byte list \<Rightarrow> byte list \<Rightarrow> u64 \<Rightarrow> (MMKV, u64 \<times> bool) cpp" where
  "getUInt64 E iv = get_decoded E iv readUInt64"

definition getFloat :: "environment \<Rightarrow> byte list \<Rightarrow> byte list \<Rightarrow> float32 \<Rightarrow> (MMKV, float32 \<times> bool) cpp" where
  "getFloat E iv = get_decoded E iv readFloat"

definition getDouble :: "environment \<Rightarrow> byte list \<Rightarrow> byte list \<Rightarrow> float64 \<Rightarrow> (MMKV, float64 \<times> bool) cpp" where
  "getDouble E iv = get_decoded E iv readDouble"

text \<open>A string or buffer that is not there leaves the result as it was: the default of the model.\<close>

definition getString :: "environment \<Rightarrow> byte list \<Rightarrow> byte list \<Rightarrow> byte list \<Rightarrow> (MMKV, byte list \<times> bool) cpp" where
  "getString E iv = get_decoded E iv readString"

definition getBytes :: "environment \<Rightarrow> byte list \<Rightarrow> byte list \<Rightarrow> byte list \<Rightarrow> (MMKV, byte list \<times> bool) cpp" where
  "getBytes E iv = get_decoded E iv (readDataBuf False)"

definition getVector :: "environment \<Rightarrow> byte list \<Rightarrow> byte list \<Rightarrow> byte list list \<Rightarrow> (MMKV, byte list list \<times> bool) cpp" where
  "getVector E iv key result =
     (if key = [] then returnC (result, False)
      else bindC (getDataForKey E iv key) (\<lambda>data.
             if 0 < length data
             then (case decodeOneVector_strings (CodedInputData data 0 (length data)) of
                     Some (Inr v) \<Rightarrow> returnC (v, True)
                   | Some (Inl e) \<Rightarrow> if e = MemoryFault then throwC e else returnC (result, False)
                   | None \<Rightarrow> throwC MemoryFault)
             else returnC (result, False)))"

section \<open>The size of a value\<close>

definition getValueSize :: "environment \<Rightarrow> byte list \<Rightarrow> byte list \<Rightarrow> bool \<Rightarrow> (MMKV, nat) cpp" where
  "getValueSize E iv key actualSize =
     (if key = [] then returnC 0
      else bindC (getDataForKey E iv key) (\<lambda>data.
             if actualSize
             then (case readInt32 (CodedInputData data 0 (length data)) of
                     (Inr n, _) \<Rightarrow>
                       if 0 \<le> sint n \<and> unat (pbRawVarint32Size (ucast n)) + nat (sint n) = length data
                       then returnC (nat (sint n)) else returnC (length data)
                   | (Inl e, _) \<Rightarrow> if e = MemoryFault then throwC e else returnC (length data))
             else returnC (length data)))"

text \<open>The result, and the bytes written to the start of the caller's buffer.\<close>

definition writeValueToBuffer :: "environment \<Rightarrow> byte list \<Rightarrow> byte list \<Rightarrow> int32 \<Rightarrow> (MMKV, int32 \<times> byte list) cpp" where
  "writeValueToBuffer E iv key bufferSize =
     (if key = [] \<or> sint bufferSize < 0 then returnC (- 1, [])
      else bindC (getDataForKey E iv key) (\<lambda>data.
             case readInt32 (CodedInputData data 0 (length data)) of
               (Inl e, _) \<Rightarrow> if e = MemoryFault then throwC e else returnC (- 1, [])
             | (Inr n, _) \<Rightarrow>
                 let off = unat (pbRawVarint32Size (ucast n))
                 in if sint n < 0 then returnC (- 1, [])
                    else if off + nat (sint n) = length data
                    then if nat (sint n) \<le> nat (sint bufferSize) then returnC (n, drop off data) else returnC (- 1, [])
                    else if length data \<le> nat (sint bufferSize) then returnC (word_of_nat (length data), data)
                    else returnC (- 1, [])))"

section \<open>Enumeration\<close>

definition containsKey :: "environment \<Rightarrow> byte list \<Rightarrow> byte list \<Rightarrow> (MMKV, bool) cpp" where
  "containsKey E iv key =
     bindC (checkLoadData E iv) (\<lambda>_ s.
       if \<not> m_enableKeyExpire s then (Inr (m_dic s key \<noteq> None), s)
       else bindC (getDataWithoutMTimeForKey E iv key) (\<lambda>raw. returnC (length raw \<noteq> 0)) s)"

definition filter_if :: "environment \<Rightarrow> byte list \<Rightarrow> bool \<Rightarrow> (MMKV, unit) cpp" where
  "filter_if E iv filterExpire s =
     (if filterExpire \<and> m_enableKeyExpire s then bindC (fullWriteback E iv True) (\<lambda>_. returnC ()) s else (Inr (), s))"

definition count_keys :: "environment \<Rightarrow> byte list \<Rightarrow> bool \<Rightarrow> (MMKV, nat) cpp" where
  "count_keys E iv filterExpire =
     bindC (checkLoadData E iv) (\<lambda>_. bindC (filter_if E iv filterExpire) (\<lambda>_ s. (Inr (length (iterate E (m_dic s))), s)))"

definition totalSize :: "environment \<Rightarrow> byte list \<Rightarrow> (MMKV, nat) cpp" where
  "totalSize E iv = bindC (checkLoadData E iv) (\<lambda>_ s. (Inr (getFileSize (m_file s)), s))"

definition actualSize :: "environment \<Rightarrow> byte list \<Rightarrow> (MMKV, nat) cpp" where
  "actualSize E iv = bindC (checkLoadData E iv) (\<lambda>_ s. (Inr (m_actualSize s), s))"

definition allKeys :: "environment \<Rightarrow> byte list \<Rightarrow> bool \<Rightarrow> (MMKV, byte list list) cpp" where
  "allKeys E iv filterExpire =
     bindC (checkLoadData E iv) (\<lambda>_.
     bindC (filter_if E iv filterExpire) (\<lambda>_ s. (Inr (map fst (iterate E (m_dic s))), s)))"

primrec erase_keys :: "byte list list \<Rightarrow> nat \<Rightarrow> (MMKV, nat) cpp" where
  "erase_keys [] deleteCount = returnC deleteCount"
| "erase_keys (key # keys) deleteCount =
     (\<lambda>s. if m_dic s key \<noteq> None then erase_keys keys (deleteCount + 1) (s\<lparr>m_dic := (m_dic s)(key := None)\<rparr>)
          else erase_keys keys deleteCount s)"

definition removeValuesForKeys :: "environment \<Rightarrow> byte list \<Rightarrow> byte list list \<Rightarrow> (MMKV, bool) cpp" where
  "removeValuesForKeys E iv arrKeys s =
     (if m_readOnly s then (Inr False, s)
      else if arrKeys = [] then (Inr True, s)
      else if length arrKeys = 1 then removeValueForKey E iv (hd arrKeys) s
      else bindC (checkLoadData E iv) (\<lambda>_.
           bindC (erase_keys arrKeys 0) (\<lambda>deleteCount s.
             if 0 < deleteCount then fullWriteback E iv False (s\<lparr>m_hasFullWriteback := False\<rparr>) else (Inr True, s))) s)"

section \<open>Importing another store\<close>

text \<open>The state is the pair of this store and the source.\<close>

definition on_this :: "(MMKV, 'a) cpp \<Rightarrow> (MMKV \<times> MMKV, 'a) cpp" where
  "on_this m st = (case m (fst st) of (r, s) \<Rightarrow> (r, (s, snd st)))"

definition on_src :: "(MMKV, 'a) cpp \<Rightarrow> (MMKV \<times> MMKV, 'a) cpp" where
  "on_src m st = (case m (snd st) of (r, s) \<Rightarrow> (r, (fst st, s)))"

primrec import_keys ::
  "environment \<Rightarrow> byte list \<Rightarrow> bool \<Rightarrow> u32 \<Rightarrow> byte list list \<Rightarrow> nat \<Rightarrow> (MMKV \<times> MMKV, nat) cpp" where
  "import_keys E iv notAutoExpire time [] count = returnC count"
| "import_keys E iv notAutoExpire time (key # keys) count =
     bindC (on_src (getDataForKey E iv key)) (\<lambda>value.
       if 0 < length value
       then bindC (on_this (setDataForKey E iv (if notAutoExpire then value else value @ word_bytes 4 time) key False))
              (\<lambda>_. import_keys E iv notAutoExpire time keys (count + 1))
       else import_keys E iv notAutoExpire time keys count)"

definition importFrom :: "environment \<Rightarrow> byte list \<Rightarrow> (MMKV \<times> MMKV, nat) cpp" where
  "importFrom E iv st =
     (if m_readOnly (fst st) then (Inr 0, st)
      else bindC (on_this (checkLoadData E iv)) (\<lambda>_.
           bindC (on_src (checkLoadData E iv)) (\<lambda>_ st.
             if \<not> isFileValid_store (fst st) \<or> \<not> isFileValid_store (snd st) then (Inr 0, st)
             else bindC (on_src (allKeys E iv False))
                    (\<lambda>keys. import_keys E iv (\<not> m_enableKeyExpire (fst st)) (expire_time E (m_expiredInSeconds (fst st))) keys 0) st)) st)"

end
