(* ===== verification/MMKV_Load.thy ===== *)
theory MMKV_Load
  imports MMKV_API MMKV_Keys
begin

text \<open>
  Opening a store: the constructor on the files of an earlier store, and the load that reads them. What a
  store that satisfies the invariant has in its files is what a later store loads, also when bytes
  behind the log were written in between. Empty files are loaded as an empty store.
\<close>

unbundle bit_operations_syntax


section \<open>The check for disk errors\<close>

definition same_valid_file :: "MemoryFile \<Rightarrow> MemoryFile \<Rightarrow> bool" where
  "same_valid_file f g \<longleftrightarrow> same_file f g \<and> isFileValid g \<and> f_io g = []"

lemma same_valid_fileD:
  assumes "same_valid_file f g"
  shows "f_ptr g = f_ptr f" "f_size g = f_size f" "f_disk g = f_disk f" "f_readOnly g = f_readOnly f"
    "f_isMayflyFD g = f_isMayflyFD f" "isFileValid g" "f_io g = []" "f_memory g = f_memory f"
  using assms by (auto simp: same_valid_file_def same_file_def f_memory_def)

lemma replace_corrupted_ok:
  assumes "isFileValid f" and "f_io f = []"
  shows "same_valid_file f (replace_corrupted page cap f)"
  using assms
  by (auto simp: replace_corrupted_def isDiskOfMMAPFileCorrupted_def answer_def cleanMayflyFD_def File_close_def
      openIfNeeded_def File_open_def same_valid_file_def same_file_def isFileValid_def Let_def)

lemma checkFileHasDiskError_ok:
  assumes "isFileValid (m_file s)" and "isFileValid (m_metaFile s)" and "f_io (m_file s) = []" and "f_io (m_metaFile s) = []"
  shows "\<exists>f g. checkFileHasDiskError E s = s\<lparr>m_isSecondLoad := True, m_metaFile := g, m_file := f\<rparr> \<and>
    same_valid_file (m_file s) f \<and> same_valid_file (m_metaFile s) g"
proof (cases "m_isSecondLoad s")
  case True
  then show ?thesis
    using assms by (intro exI [of _ "m_file s"] exI [of _ "m_metaFile s"])
      (simp add: checkFileHasDiskError_def same_valid_file_def)
next
  case False
  then show ?thesis
    using assms replace_corrupted_ok
    by (intro exI [of _ "replace_corrupted (page_size E) (m_expectedCapacity s) (m_file s)"]
        exI [of _ "replace_corrupted (page_size E) 0 (m_metaFile s)"]) (simp add: checkFileHasDiskError_def Let_def)
qed

section \<open>Loading\<close>

text \<open>The files of a store that holds a log: both are mapped for writing, and the meta file describes the log.\<close>

definition files_hold :: "environment \<Rightarrow> MMKV \<Rightarrow> byte list \<Rightarrow> log_entry list \<Rightarrow> bool" where
  "files_hold E s hdr es \<longleftrightarrow> isFileValid (m_file s) \<and> isFileValid (m_metaFile s) \<and> f_io (m_file s) = [] \<and> f_io (m_metaFile s) = [] \<and>
     \<not> f_readOnly (m_metaFile s) \<and> file_ok (m_metaFile s) \<and> 112 \<le> f_size (m_metaFile s) \<and>
     f_size (m_file s) = length (f_disk (m_file s)) \<and> file_log s hdr es \<and> \<not> m_readOnly s \<and>
     (let mi = read_meta s; bs = hdr @ enc_log es
      in meta_ok mi \<and> MMKVVersionFlag \<le> mi_version mi \<and> mi_version mi < MMKVVersionHolder \<and>
         mi_crcDigest mi = crc32 E 0 bs \<and> mi_actualSize mi = word_of_nat (length bs))"

text \<open>What loading leaves of the settings.\<close>

definition loaded_settings :: "MMKV \<Rightarrow> MMKV \<Rightarrow> bool" where
  "loaded_settings s t \<longleftrightarrow> m_readOnly t = m_readOnly s \<and> m_multiProcess t = m_multiProcess s \<and>
     m_itemSizeLimit t = m_itemSizeLimit s \<and> m_expectedCapacity t = m_expectedCapacity s \<and>
     m_expiredInSeconds t = m_expiredInSeconds s \<and> m_enableKeyExpire t = hasFlag EnableKeyExipre (read_meta s) \<and>
     m_enableCompareBeforeSet t = (m_enableCompareBeforeSet s \<and> \<not> m_enableKeyExpire t) \<and>
     f_io (m_file t) = [] \<and> f_io (m_metaFile t) = [] \<and> m_isSecondLoad t \<and> mi_sequence (m_metaInfo t) = mi_sequence (read_meta s) \<and>
     (MMKVVersionFlag \<le> mi_version (read_meta s) \<longrightarrow> same_generation (read_meta s) (m_metaInfo t)) \<and>
     f_size (m_file t) = length (f_disk (m_file s)) \<and> length (f_disk (m_file t)) = length (f_disk (m_file s)) \<and>
     f_size (m_metaFile t) = f_size (m_metaFile s) \<and> length (f_disk (m_metaFile t)) = length (f_disk (m_metaFile s))"

lemma loadMetaInfoAndCheck_flags:
  assumes "isFileValid (m_metaFile s)" and c: "checkFileHasDiskError E s = s1" and "isFileValid (m_metaFile s1)" and "\<not> m_readOnly s1"
    and h: "MMKVVersionFlag \<le> mi_version (read_meta s1)" "mi_version (read_meta s1) < MMKVVersionHolder"
  shows "loadMetaInfoAndCheck E s = (Inr (), s1\<lparr>m_metaInfo := read_meta s1, m_enableKeyExpire := hasFlag EnableKeyExipre (read_meta s1),
    m_enableCompareBeforeSet := m_enableCompareBeforeSet s1 \<and> \<not> hasFlag EnableKeyExipre (read_meta s1)\<rparr>)"
proof -
  let ?s2 = "s1\<lparr>m_metaInfo := read_meta s1\<rparr>" and ?e = "hasFlag EnableKeyExipre (read_meta s1)"
  have v: "\<not> MMKVVersionHolder \<le> mi_version (m_metaInfo ?s2)" "MMKVVersionFlag \<le> mi_version (m_metaInfo ?s2)"
    using h by simp_all
  have "check_meta_version ?s2 = (Inr (), if ?e \<and> m_enableCompareBeforeSet s1
      then ?s2\<lparr>m_enableKeyExpire := ?e, m_enableCompareBeforeSet := False\<rparr> else ?s2\<lparr>m_enableKeyExpire := ?e\<rparr>)"
    unfolding check_meta_version_def if_not_P [OF v(1)] using v(2) by (simp add: bindC_def returnC_def Let_def)
  also have "\<dots> = (Inr (), ?s2\<lparr>m_enableKeyExpire := ?e, m_enableCompareBeforeSet := m_enableCompareBeforeSet s1 \<and> \<not> ?e\<rparr>)"
    by (cases s1) auto
  finally show ?thesis unfolding loadMetaInfoAndCheck_def Let_def using assms(1,3,4) c by simp
qed

lemma loadMetaInfoAndCheck_run:
  assumes "files_hold E s hdr es"
  shows "\<exists>f g. loadMetaInfoAndCheck E s =
      (Inr (), s\<lparr>m_isSecondLoad := True, m_metaFile := g, m_file := f, m_metaInfo := read_meta s,
         m_enableKeyExpire := hasFlag EnableKeyExipre (read_meta s),
         m_enableCompareBeforeSet := m_enableCompareBeforeSet s \<and> \<not> hasFlag EnableKeyExipre (read_meta s)\<rparr>) \<and>
    same_valid_file (m_file s) f \<and> same_valid_file (m_metaFile s) g"
proof -
  have h: "isFileValid (m_file s)" "isFileValid (m_metaFile s)" "f_io (m_file s) = []" "f_io (m_metaFile s) = []" "\<not> m_readOnly s"
    "MMKVVersionFlag \<le> mi_version (read_meta s)" "mi_version (read_meta s) < MMKVVersionHolder"
    using assms by (auto simp: files_hold_def Let_def)
  obtain f g where c: "checkFileHasDiskError E s = s\<lparr>m_isSecondLoad := True, m_metaFile := g, m_file := f\<rparr>"
    "same_valid_file (m_file s) f" "same_valid_file (m_metaFile s) g"
    using checkFileHasDiskError_ok [OF h(1-4)] by blast
  have r: "read_meta (s\<lparr>m_isSecondLoad := True, m_metaFile := g, m_file := f\<rparr>) = read_meta s"
    using same_valid_fileD(8) [OF c(3)] by (simp add: read_meta_def)
  show ?thesis
    using loadMetaInfoAndCheck_flags [OF h(2) c(1)] same_valid_fileD(6) [OF c(3)] h(5-7) c(2,3) r
    by (intro exI [of _ f] exI [of _ g]) simp
qed

lemma decode_log:
  assumes "reads readInt32 hdr n" and "in_range (length hdr) es"
  shows "decodeMap d (hdr @ enc_log es) 0 = Some (Inr (dic_of (length hdr) es))"
  using decodeMap_block_header [OF assms(1) in_range_valid [OF assms(2)], of Map.empty]
  by (simp add: decodeMap_def decodeOneMap_def catch_swap_def)

lemma checkDataValid_bytes:
  assumes "isFileValid (m_file s)" and "4 + length bs \<le> f_size (m_file s)" and "length bs < 2 ^ 32"
    and bs: "mem_read (f_disk (m_file s)) 4 (length bs) = bs" and "MMKVVersionFlag \<le> mi_version (m_metaInfo s)"
    and "mi_crcDigest (m_metaInfo s) = crc32 E 0 bs" and sz: "mi_actualSize (m_metaInfo s) = word_of_nat (length bs)"
  shows "checkDataValid E s = (Inr (True, False), s\<lparr>m_actualSize := length bs, m_crcDigest := crc32 E 0 bs\<rparr>)"
proof -
  let ?n = "length bs"
  have f: "f_ptr (m_file s)" using assms(1) by (simp add: isFileValid_def)
  have v: "MMKVVersionActualSize \<le> mi_version (m_metaInfo s)" using assms(5) version_order(5) by (meson less_imp_le order.trans)
  have u: "unat (word_of_nat ?n :: u32) = ?n" by (rule unat_word_of_nat_u32 [OF assms(3)])
  have szf: "size_in_file ?n (f_size (m_file s))" using assms(2) by (simp add: size_in_file_def)
  have a: "readActualSize s = (Inr ?n, s)"
    unfolding readActualSize_def sz u using v by simp
  have m: "memory_read 4 ?n (s\<lparr>m_actualSize := ?n\<rparr>) = (Inr bs, s\<lparr>m_actualSize := ?n\<rparr>)"
    using f assms(2) memory_read_run [of "s\<lparr>m_actualSize := ?n\<rparr>" 4 ?n] bs by simp
  have c: "checkFileCRCValid E ?n (mi_crcDigest (m_metaInfo s)) (s\<lparr>m_actualSize := ?n\<rparr>) =
      (Inr True, s\<lparr>m_actualSize := ?n, m_crcDigest := crc32 E 0 bs\<rparr>)"
    unfolding checkFileCRCValid_def u bindC_def m using f assms(6) by (simp add: Let_def)
  show ?thesis
    unfolding checkDataValid_def Let_def bindC_def a using szf c by (simp add: getFileSize_def returnC_def)
qed

lemma checkDataValid_run:
  assumes "isFileValid (m_file s)" and "file_log s hdr es" and "MMKVVersionFlag \<le> mi_version (m_metaInfo s)"
    and "mi_crcDigest (m_metaInfo s) = crc32 E 0 (hdr @ enc_log es)"
    and "mi_actualSize (m_metaInfo s) = word_of_nat (length (hdr @ enc_log es))"
  shows "checkDataValid E s = (Inr (True, False),
    s\<lparr>m_actualSize := length (hdr @ enc_log es), m_crcDigest := crc32 E 0 (hdr @ enc_log es)\<rparr>)"
  by (rule checkDataValid_bytes [OF assms(1) _ _ _ assms(3-5)]) (use assms(2) in \<open>auto simp: file_log_def in_range_def\<close>)

text \<open>Mapping again: a file of the right size stays, one that is gone is mapped, one of another size is mapped if that
  is not a debug build.\<close>

lemma map_again_same:
  "isFileValid (m_file s) \<Longrightarrow> getActualFileSize (m_file s) = getFileSize (m_file s) \<Longrightarrow> map_again E s = (Inr (), s)"
  by (simp add: map_again_def Let_def)

lemma map_again_run:
  assumes "\<not> debug_build E \<or> \<not> isFileValid (m_file s) \<or> getActualFileSize (m_file s) = getFileSize (m_file s)"
  shows "map_again E s = (Inr (), if \<not> isFileValid (m_file s) \<or> (m_multiProcess s \<and> getActualFileSize (m_file s) \<noteq> getFileSize (m_file s))
    then s\<lparr>m_file := reloadFromFile (page_size E) (m_expectedCapacity s) (m_file s)\<rparr> else s)"
  using assms by (auto simp: map_again_def reload_asserts_def Let_def)

lemma map_again_asserts:
  assumes "debug_build E" and "isFileValid (m_file s)" and "m_multiProcess s" and "getActualFileSize (m_file s) \<noteq> getFileSize (m_file s)"
  shows "map_again E s = (Inl MemoryFault, s)"
  using assms by (simp add: map_again_def reload_asserts_def Let_def)

text \<open>A load whose checks find the log: the dictionary is that of the log, and the writer stands behind it.\<close>

lemma load_log:
  assumes m: "loadMetaInfoAndCheck E s = (Inr (), s0)"
    and s1: "map_again E s0 = (Inr (), s1)"
    and valid: "isFileValid (m_file s1)" and fl: "file_log s1 hdr es" and ro: "\<not> m_readOnly s1" and mr: "meta_ready s1"
    and crc: "mi_crcDigest (m_metaInfo s1) = crc32 E 0 (hdr @ enc_log es)"
    and sz: "mi_actualSize (m_metaInfo s1) = word_of_nat (length (hdr @ enc_log es))" and "hdr \<noteq> []"
  shows "\<exists>out. loadFromFile (Suc n) E iv s = (Inr (), s1\<lparr>m_actualSize := length (hdr @ enc_log es),
      m_crcDigest := crc32 E 0 (hdr @ enc_log es), m_dic := dic_of (length hdr) es, m_output := out, m_needLoadFromFile := False\<rparr>) \<and>
    store_ok E (s1\<lparr>m_actualSize := length (hdr @ enc_log es),
      m_crcDigest := crc32 E 0 (hdr @ enc_log es), m_dic := dic_of (length hdr) es, m_output := out, m_needLoadFromFile := False\<rparr>) hdr es"
proof -
  let ?bs = "hdr @ enc_log es" and ?f = "m_file s1"
  have v: "MMKVVersionFlag \<le> mi_version (m_metaInfo s1)" using mr by (simp add: meta_ready_def)
  have chk: "checkDataValid E s1 = (Inr (True, False), s1\<lparr>m_actualSize := length ?bs, m_crcDigest := crc32 E 0 ?bs\<rparr>)"
    by (rule checkDataValid_run [OF valid fl v crc sz])
  let ?s2 = "s1\<lparr>m_actualSize := length ?bs, m_crcDigest := crc32 E 0 ?bs, m_dic := Map.empty\<rparr>"
  have l: "f_ptr ?f" "\<not> f_readOnly ?f" "4 + length ?bs \<le> f_size ?f" "f_size ?f \<le> length (f_disk ?f)" "in_range (length hdr) es"
    "mem_read (f_disk ?f) 4 (length ?bs) = ?bs" "header hdr es"
    using fl by (auto simp: file_log_def)
  from l(7) assms(9) obtain k where k: "reads readInt32 hdr k" by (auto simp: header_def)
  have r: "memory_read 4 (length ?bs) ?s2 = (Inr ?bs, ?s2)"
    using memory_read_run [of ?s2 4 "length ?bs"] l(1,3,6) by simp
  have dec: "decode_into_dic decodeMap 0 ?s2 = (Inr (), ?s2\<lparr>m_dic := dic_of (length hdr) es\<rparr>)"
    using r decode_log [OF k l(5)] by (simp add: decode_into_dic_def bindC_def)
  let ?s3 = "?s2\<lparr>m_dic := dic_of (length hdr) es\<rparr>"
  let ?out = "CodedOutputData [] 4 (payload_size (f_size ?f))"
  have pay: "payload_size (f_size ?f) = f_size ?f - 4" using l(3) by (simp add: payload_size_def)
  have seek: "move_output (seekOut (length ?bs)) (new_output ?s3) =
      (Inr (), ?s3\<lparr>m_output := Some (setPosition (length ?bs) ?out)\<rparr>)"
    using l(3) by (simp add: move_output_def new_output_def seekOut_def pay CodedOutputData_def setPosition_def getFileSize_def Let_def)
  let ?t = "?s3\<lparr>m_output := Some (setPosition (length ?bs) ?out), m_needLoadFromFile := False\<rparr>"
  have pos: "0 < length ?bs" using assms(9) by simp
  have "loadFromFile (Suc n) E iv s = (Inr (), ?t)"
    unfolding loadFromFile.simps Let_def loadFromFile_body_def bindC_def m prod.case sum.case s1
    using valid chk dec seek pos by (simp add: returnC_def)
  moreover have "store_ok E ?t hdr es"
  proof -
    have "file_log ?t hdr es" using fl by (subst file_log_cong [of _ s1]) simp_all
    then have "log_ok ?t hdr es"
      using valid ro l by (simp add: log_ok_def writable_def pay setPosition_def CodedOutputData_def)
    moreover have "meta_current E ?t ?bs"
      using mr crc sz by (simp add: meta_current_def meta_ready_def read_meta_def)
    ultimately show ?thesis by (simp add: store_ok_def)
  qed
  ultimately show ?thesis by (intro exI [of _ "Some (setPosition (length ?bs) ?out)"]) simp
qed

lemma loadFromFile_run:
  assumes s: "files_hold E s hdr es" and "hdr \<noteq> []"
  shows "\<exists>t. loadFromFile (Suc n) E iv s = (Inr (), t) \<and> store_ok E t hdr es \<and> loaded_settings s t"
proof -
  obtain f g where m: "loadMetaInfoAndCheck E s =
      (Inr (), s\<lparr>m_isSecondLoad := True, m_metaFile := g, m_file := f, m_metaInfo := read_meta s,
         m_enableKeyExpire := hasFlag EnableKeyExipre (read_meta s),
         m_enableCompareBeforeSet := m_enableCompareBeforeSet s \<and> \<not> hasFlag EnableKeyExipre (read_meta s)\<rparr>)"
    and f: "same_valid_file (m_file s) f" and g: "same_valid_file (m_metaFile s) g"
    using loadMetaInfoAndCheck_run [OF s] by blast
  note fs = same_valid_fileD [OF f] and gs = same_valid_fileD [OF g]
  let ?s1 = "s\<lparr>m_isSecondLoad := True, m_metaFile := g, m_file := f, m_metaInfo := read_meta s,
         m_enableKeyExpire := hasFlag EnableKeyExipre (read_meta s),
         m_enableCompareBeforeSet := m_enableCompareBeforeSet s \<and> \<not> hasFlag EnableKeyExipre (read_meta s)\<rparr>"
  have h: "file_log s hdr es" "f_size (m_file s) = length (f_disk (m_file s))" "\<not> m_readOnly s"
    "MMKVVersionFlag \<le> mi_version (read_meta s)" "mi_version (read_meta s) < MMKVVersionHolder" "meta_ok (read_meta s)"
    "mi_crcDigest (read_meta s) = crc32 E 0 (hdr @ enc_log es)" "mi_actualSize (read_meta s) = word_of_nat (length (hdr @ enc_log es))"
    "\<not> f_readOnly (m_metaFile s)" "file_ok (m_metaFile s)" "112 \<le> f_size (m_metaFile s)"
    using s by (auto simp: files_hold_def Let_def)
  have fl: "file_log ?s1 hdr es" using h(1) by (subst file_log_cong [of _ s]) (simp_all add: fs)
  have valid: "isFileValid (m_file ?s1)" "getActualFileSize (m_file ?s1) = getFileSize (m_file ?s1)"
    using fs h(2) by (auto simp: getActualFileSize_def getFileSize_def isFileValid_def)
  have mr: "meta_ready ?s1" using h gs by (simp add: meta_ready_def read_meta_def file_ok_def)
  have "\<exists>out. loadFromFile (Suc n) E iv s = (Inr (), ?s1\<lparr>m_actualSize := length (hdr @ enc_log es),
      m_crcDigest := crc32 E 0 (hdr @ enc_log es), m_dic := dic_of (length hdr) es, m_output := out, m_needLoadFromFile := False\<rparr>) \<and>
    store_ok E (?s1\<lparr>m_actualSize := length (hdr @ enc_log es),
      m_crcDigest := crc32 E 0 (hdr @ enc_log es), m_dic := dic_of (length hdr) es, m_output := out, m_needLoadFromFile := False\<rparr>) hdr es"
    by (rule load_log [OF m map_again_same [OF valid] valid(1) fl _ mr _ _ assms(2)]) (use h(3,7,8) in simp_all)
  then show ?thesis using fs gs h(2) by (auto simp: loaded_settings_def simp del: loadFromFile.simps)
qed

section \<open>Opening files\<close>

lemma truncate_opened:
  assumes "f_io f = []" and "f_fd f" and "n \<noteq> f_size f" and "\<not> f_readOnly f" and "0 < page"
  shows "isFileValid (snd (truncate_file page n f)) \<and> f_io (snd (truncate_file page n f)) = []"
  using assms(1-4) round_to_pages_pos [OF assms(5), of n]
  by (auto simp: truncate_file_def truncate_fill_def zeroFillFile_def mmapOrCleanup_def cleanMayflyFD_def openIfNeeded_def
      File_open_def File_close_def answer_def isFileValid_def Let_def)

lemma MemoryFile_new_ok:
  assumes "0 < page" and "g = MemoryFile_new page cap False mayfly disk []"
  shows "isFileValid g" and "f_io g = []" and "\<not> f_readOnly g" and "f_size g = length (f_disk g)" and "file_ok g"
    and "length disk \<le> length (f_disk g)" and "take (length disk) (f_disk g) = disk"
    and "\<And>i. length disk \<le> i \<Longrightarrow> i < length (f_disk g) \<Longrightarrow> f_disk g ! i = 0" and "page \<le> f_size g"
proof -
  let ?f = "snd (File_open \<lparr>f_fd = False, f_ptr = False, f_size = 0, f_disk = disk, f_readOnly = False, f_isMayflyFD = mayfly, f_io = []\<rparr>)"
  have f: "\<not> f_ptr ?f" "f_disk ?f = disk" "\<not> f_readOnly ?f" "f_fd ?f" "f_io ?f = []"
    by (simp_all add: File_open_def answer_def)
  have g: "g = reloadFromFile page cap ?f" using assms(2) by (simp add: MemoryFile_new_def)
  have inv: "\<not> isFileValid ?f" using f(1) by (simp add: isFileValid_def)
  let ?e = "max page (roundUp cap page)" and ?h = "?f\<lparr>f_size := length disk\<rparr>"
  have "isFileValid g \<and> f_io g = []"
  proof (cases "length disk < ?e \<or> length disk mod page \<noteq> 0")
    case True
    then have "g = snd (truncate_file page (max ?e ((length disk div page + 1) * page)) ?h)"
      unfolding g reloadFromFile_def using inv f by (simp add: openIfNeeded_def Let_def)
    moreover have "length disk < max ?e ((length disk div page + 1) * page)"
      using assms(1) by (simp add: less_max_iff_disj) (metis add.commute dividend_less_div_times)
    ultimately show ?thesis
      using truncate_opened [of ?h "max ?e ((length disk div page + 1) * page)" page] f assms(1) by simp
  next
    case False
    then have "g = snd (mmapOrCleanup ?h)"
      unfolding g reloadFromFile_def using inv f by (simp add: openIfNeeded_def Let_def)
    moreover have "0 < length disk" using False assms(1) by auto
    ultimately show ?thesis
      using f by (auto simp: mmapOrCleanup_def cleanMayflyFD_def File_open_def File_close_def answer_def isFileValid_def Let_def)
  qed
  then show v: "isFileValid g" and "f_io g = []" by simp_all
  note r = reload_cases [OF assms(1) g v f(1)]
  show ro: "\<not> f_readOnly g"
    using truncate_sel(1) mmapOrCleanup_sel(5) f unfolding g reloadFromFile_def by (simp add: openIfNeeded_def Let_def inv)
  show "f_size g = length (f_disk g)" "length disk \<le> length (f_disk g)" "take (length disk) (f_disk g) = disk"
    "\<And>i. length disk \<le> i \<Longrightarrow> i < length (f_disk g) \<Longrightarrow> f_disk g ! i = 0" "page \<le> f_size g"
    using r f(2,3) by simp_all
  then show "file_ok g" by (simp add: file_ok_def)
qed

text \<open>The files of a store with a log.\<close>

definition disk_holds :: "environment \<Rightarrow> byte list \<Rightarrow> byte list \<Rightarrow> byte list \<Rightarrow> log_entry list \<Rightarrow> bool" where
  "disk_holds E disk metaDisk hdr es \<longleftrightarrow> 4 + length hdr + length (enc_log es) \<le> length disk \<and> header hdr es \<and>
     in_range (length hdr) es \<and> mem_read disk 4 (length hdr + length (enc_log es)) = hdr @ enc_log es \<and> 112 \<le> length metaDisk \<and>
     (let mi = meta_read metaDisk; bs = hdr @ enc_log es
      in meta_ok mi \<and> MMKVVersionFlag \<le> mi_version mi \<and> mi_version mi < MMKVVersionHolder \<and>
         mi_crcDigest mi = crc32 E 0 bs \<and> mi_actualSize mi = word_of_nat (length bs))"

lemma meta_read_take: "112 \<le> n \<Longrightarrow> meta_read (take n d) = meta_read d"
proof -
  assume "112 \<le> n"
  then have "mem_read (take n d) pos k = mem_read d pos k" if "pos + k \<le> 112" for pos k
    using that by (intro mem_read_take) simp
  then show ?thesis by (simp add: meta_read_def le_word_def)
qed

lemma store_disk_holds:
  assumes "store_ok E s hdr es" and "take (4 + m_actualSize s) disk = take (4 + m_actualSize s) (f_disk (m_file s))"
    and "4 + m_actualSize s \<le> length disk"
  shows "disk_holds E disk (f_disk (m_metaFile s)) hdr es"
proof -
  have l: "m_actualSize s = length hdr + length (enc_log es)" "file_log s hdr es"
    "meta_read (f_memory (m_metaFile s)) = m_metaInfo s" "meta_ok (m_metaInfo s)"
    "MMKVVersionFlag \<le> mi_version (m_metaInfo s)" "mi_version (m_metaInfo s) < MMKVVersionHolder"
    "mi_crcDigest (m_metaInfo s) = crc32 E 0 (hdr @ enc_log es)" "mi_actualSize (m_metaInfo s) = word_of_nat (m_actualSize s)"
    "112 \<le> f_size (m_metaFile s)" "f_size (m_metaFile s) \<le> length (f_disk (m_metaFile s))"
    using assms(1) by (auto simp: store_ok_def log_ok_def meta_current_def meta_ready_def read_meta_def file_ok_def isFileValid_def)
  have "meta_read (f_disk (m_metaFile s)) = m_metaInfo s"
    using l(3) meta_read_take [OF l(9), of "f_disk (m_metaFile s)"] by (simp add: f_memory_def)
  moreover have "mem_read disk 4 (m_actualSize s) = mem_read (f_disk (m_file s)) 4 (m_actualSize s)"
    using arg_cong [OF assms(2), of "\<lambda>d. mem_read d 4 (m_actualSize s)"] by (simp add: mem_read_take)
  ultimately show ?thesis
    using l assms(3) by (simp add: disk_holds_def file_log_def Let_def)
qed

lemma object_files_hold:
  assumes "0 < page_size E" and d: "disk_holds E disk metaDisk hdr es" and ro: "\<not> isReadOnly config"
  shows "files_hold E (MMKV_object E config disk metaDisk [] []) hdr es"
    and "read_meta (MMKV_object E config disk metaDisk [] []) = meta_read metaDisk"
proof -
  let ?s = "MMKV_object E config disk metaDisk [] []"
  let ?cap = "max (page_size E) (roundUp (expectedCapacity config) (page_size E))"
  have f: "m_file ?s = MemoryFile_new (page_size E) ?cap False True disk []"
    and g: "m_metaFile ?s = MemoryFile_new (page_size E) 0 False (\<not> isMultiProcess config) metaDisk []"
    using ro by (simp_all add: MMKV_object_def Let_def)
  note f = MemoryFile_new_ok [OF assms(1) f] and g = MemoryFile_new_ok [OF assms(1) g]
  have l: "4 + (length hdr + length (enc_log es)) \<le> length disk" "112 \<le> length metaDisk"
    "mem_read disk 4 (length hdr + length (enc_log es)) = hdr @ enc_log es" "header hdr es" "in_range (length hdr) es"
    using d by (auto simp: disk_holds_def)
  have mem: "f_memory (m_metaFile ?s) = f_disk (m_metaFile ?s)" using g(4) by (simp add: f_memory_def)
  have "112 \<le> length metaDisk" by (rule l(2))
  then show m: "read_meta ?s = meta_read metaDisk"
    unfolding read_meta_def mem using meta_read_take [of "length metaDisk" "f_disk (m_metaFile ?s)"] g(7) by simp
  have "mem_read (f_disk (m_file ?s)) 4 (length hdr + length (enc_log es)) = hdr @ enc_log es"
    using mem_read_take [OF l(1), of disk] mem_read_take [of 4 "length hdr + length (enc_log es)" "length disk" "f_disk (m_file ?s)"] l(1,3) f(7) by simp
  then have fl: "file_log ?s hdr es"
    using f l by (simp add: file_log_def isFileValid_def)
  have ros: "\<not> m_readOnly ?s" using ro by (simp add: MMKV_object_def Let_def)
  show "files_hold E ?s hdr es"
    unfolding files_hold_def m using f(1-5) g fl ros l(2) d by (simp add: disk_holds_def Let_def)
qed

section \<open>Loading an empty store\<close>

text \<open>Writing the size with an older version also writes it to the file, and raises the version.\<close>

lemma update_meta_old: "mi_version m < MMKVVersionFlag \<Longrightarrow> snd (update_meta n crc iv b m)"
  using update_meta_full [of iv b n crc m] version_order
  by (cases iv; cases b) (auto simp: update_meta_def Let_def)

lemma update_meta_old_flags: "mi_version m < MMKVVersionFlag \<Longrightarrow> mi_flags (fst (update_meta n crc iv b m)) = 0"
  using version_order by (cases iv; cases b) (auto simp: update_meta_def Let_def version_defs)

definition expire_flag :: "MMKV \<Rightarrow> bool" where
  "expire_flag s \<longleftrightarrow> MMKVVersionFlag \<le> mi_version (m_metaInfo s) \<and> hasFlag EnableKeyExipre (m_metaInfo s)"

lemma writeActualSize_zero:
  assumes "\<not> m_readOnly s" and "isFileValid (m_metaFile s)" and "\<not> f_readOnly (m_metaFile s)" and "file_ok (m_metaFile s)"
    and "112 \<le> f_size (m_metaFile s)" and "meta_ok (m_metaInfo s)" and "mi_version (m_metaInfo s) < MMKVVersionHolder"
    and "read_meta s = m_metaInfo s" and "f_ptr (m_file s)" and "\<not> f_readOnly (m_file s)" and "4 \<le> f_size (m_file s)"
    and "f_size (m_file s) \<le> length (f_disk (m_file s))" and "m_enableKeyExpire s = expire_flag s"
  shows "\<exists>d e m. writeActualSize 0 crc None False s = (Inr True, set_meta 0 crc m d (s\<lparr>m_file := (m_file s)\<lparr>f_disk := e\<rparr>\<rparr>)) \<and>
    meta_ready (set_meta 0 crc m d s) \<and> mi_crcDigest m = crc \<and> mi_actualSize m = 0 \<and> length e = length (f_disk (m_file s)) \<and>
    length d = length (f_disk (m_metaFile s)) \<and> mi_sequence m = mi_sequence (m_metaInfo s) \<and>
    (MMKVVersionFlag \<le> mi_version (m_metaInfo s) \<longrightarrow> same_generation (m_metaInfo s) m)"
proof (cases "MMKVVersionFlag \<le> mi_version (m_metaInfo s)")
  case True
  then have "meta_ready s" using assms by (simp add: meta_ready_def expire_flag_def)
  from writeActualSize_run [OF assms(1) this, of None "fst (update_meta 0 crc None False (m_metaInfo s))" 0 crc False]
  obtain d where "writeActualSize 0 crc None False s = (Inr True, set_meta 0 crc (fst (update_meta 0 crc None False (m_metaInfo s))) d s)"
    "meta_ready (set_meta 0 crc (fst (update_meta 0 crc None False (m_metaInfo s))) d s)" "length d = length (f_disk (m_metaFile s))"
    by auto
  then show ?thesis
    by (intro exI [of _ d] exI [of _ "f_disk (m_file s)"] exI [of _ "fst (update_meta 0 crc None False (m_metaInfo s))"])
      (simp add: update_meta_sel update_meta_sequence same_generation_append)
next
  case False
  let ?u = "update_meta 0 crc None False (m_metaInfo s)" and ?f = "m_metaFile s"
  let ?d = "meta_write (fst ?u) (f_disk ?f)"
  obtain e where e: "e = (if mi_version (m_metaInfo s) < MMKVVersionActualSize then mem_write (f_disk (m_file s)) 0 (le_bytes 4 0)
      else f_disk (m_file s))" by blast
  have old: "(if \<not> False \<and> mi_version (m_metaInfo s) < MMKVVersionActualSize then oldStyleWriteActualSize 0 else returnC ()) s =
      (Inr (), if mi_version (m_metaInfo s) < MMKVVersionActualSize then s\<lparr>m_actualSize := 0, m_file := (m_file s)\<lparr>f_disk := e\<rparr>\<rparr> else s)"
    using assms(9-12) by (simp add: oldStyleWriteActualSize_def memory_write_def returnC_def e)
  have f: "f_ptr ?f" using assms(2) by (simp add: isFileValid_def)
  have len: "length e = length (f_disk (m_file s))" using assms(11,12) by (simp add: e)
  have m: "meta_ok (fst ?u)" by (rule update_meta_ok [OF assms(6)]) simp
  have full: "snd ?u" by (rule update_meta_old) (use False in simp)
  have run: "writeActualSize 0 crc None False s = (Inr True, set_meta 0 crc (fst ?u) ?d (s\<lparr>m_file := (m_file s)\<lparr>f_disk := e\<rparr>\<rparr>))"
    using assms(1-5) f full old e
    by (cases ?u) (auto simp: writeActualSize_def bindC_def meta_update_def Let_def returnC_def set_meta_def)
  have "f_size ?f \<le> length (f_disk ?f)" using assms(4) f by (simp add: file_ok_def)
  then have dl: "read_meta (set_meta 0 crc (fst ?u) ?d s) = fst ?u" "length ?d = length (f_disk ?f)"
    using m assms(5) by (simp_all add: read_meta_def f_memory_def take_meta_write meta_read_write length_meta_write)
  moreover have "mi_flags (fst ?u) = 0" by (rule update_meta_old_flags) (use False in simp)
  ultimately have "meta_ready (set_meta 0 crc (fst ?u) ?d s)"
    using dl False assms(2-7,13) m update_meta_version [where m = "m_metaInfo s"] \<open>f_size ?f \<le> length (f_disk ?f)\<close>
    by (simp add: meta_ready_def isFileValid_def file_ok_def expire_flag_def hasFlag_def)
  then show ?thesis
    using run len dl(2) by (intro exI [of _ ?d] exI [of _ e] exI [of _ "fst ?u"]) (simp add: update_meta_sel update_meta_sequence False)
qed

definition zero_loaded :: "MMKV \<Rightarrow> MMKV \<Rightarrow> bool" where
  "zero_loaded s t \<longleftrightarrow> (\<exists>d e m crc out. t = set_meta 0 0 m d (s\<lparr>m_output := out, m_crcDigest := crc,
       m_file := (m_file s)\<lparr>f_disk := e\<rparr>, m_needLoadFromFile := False\<rparr>) \<and> mi_sequence m = mi_sequence (m_metaInfo s) \<and>
     (MMKVVersionFlag \<le> mi_version (m_metaInfo s) \<longrightarrow> same_generation (m_metaInfo s) m) \<and>
     length e = length (f_disk (m_file s)) \<and> length d = length (f_disk (m_metaFile s)))"

lemma zero_loadedD:
  assumes "zero_loaded s t"
  shows "m_readOnly t = m_readOnly s" "m_multiProcess t = m_multiProcess s" "m_itemSizeLimit t = m_itemSizeLimit s"
    "m_expectedCapacity t = m_expectedCapacity s" "m_expiredInSeconds t = m_expiredInSeconds s" "m_enableKeyExpire t = m_enableKeyExpire s"
    "m_enableCompareBeforeSet t = m_enableCompareBeforeSet s" "m_isSecondLoad t = m_isSecondLoad s"
    "f_io (m_file t) = f_io (m_file s)" "f_io (m_metaFile t) = f_io (m_metaFile s)" "f_size (m_file t) = f_size (m_file s)"
    "length (f_disk (m_file t)) = length (f_disk (m_file s))" "f_size (m_metaFile t) = f_size (m_metaFile s)"
    "length (f_disk (m_metaFile t)) = length (f_disk (m_metaFile s))" "mi_sequence (m_metaInfo t) = mi_sequence (m_metaInfo s)"
    "MMKVVersionFlag \<le> mi_version (m_metaInfo s) \<longrightarrow> same_generation (m_metaInfo s) (m_metaInfo t)"
proof -
  obtain d e m crc out where "t = set_meta 0 0 m d (s\<lparr>m_output := out, m_crcDigest := crc,
       m_file := (m_file s)\<lparr>f_disk := e\<rparr>, m_needLoadFromFile := False\<rparr>)" "mi_sequence m = mi_sequence (m_metaInfo s)"
    "MMKVVersionFlag \<le> mi_version (m_metaInfo s) \<longrightarrow> same_generation (m_metaInfo s) m"
    "length e = length (f_disk (m_file s))" "length d = length (f_disk (m_metaFile s))"
    using assms unfolding zero_loaded_def by blast
  then show "m_readOnly t = m_readOnly s" "m_multiProcess t = m_multiProcess s" "m_itemSizeLimit t = m_itemSizeLimit s"
    "m_expectedCapacity t = m_expectedCapacity s" "m_expiredInSeconds t = m_expiredInSeconds s" "m_enableKeyExpire t = m_enableKeyExpire s"
    "m_enableCompareBeforeSet t = m_enableCompareBeforeSet s" "m_isSecondLoad t = m_isSecondLoad s"
    "f_io (m_file t) = f_io (m_file s)" "f_io (m_metaFile t) = f_io (m_metaFile s)" "f_size (m_file t) = f_size (m_file s)"
    "length (f_disk (m_file t)) = length (f_disk (m_file s))" "f_size (m_metaFile t) = f_size (m_metaFile s)"
    "length (f_disk (m_metaFile t)) = length (f_disk (m_metaFile s))" "mi_sequence (m_metaInfo t) = mi_sequence (m_metaInfo s)"
    "MMKVVersionFlag \<le> mi_version (m_metaInfo s) \<longrightarrow> same_generation (m_metaInfo s) (m_metaInfo t)"
    by (simp_all add: set_meta_def)
qed

lemma loadFromFile_zero:
  assumes m: "loadMetaInfoAndCheck E s = (Inr (), s1)" and "isFileValid (m_file s1)"
    and "getActualFileSize (m_file s1) = getFileSize (m_file s1)"
    and c: "checkDataValid E s1 = (Inr (True, False), s1\<lparr>m_actualSize := 0, m_crcDigest := crc\<rparr>)" and "crc32 E 0 [] = 0"
    and s1: "\<not> m_readOnly s1" "isFileValid (m_metaFile s1)" "\<not> f_readOnly (m_metaFile s1)" "file_ok (m_metaFile s1)"
      "112 \<le> f_size (m_metaFile s1)" "meta_ok (m_metaInfo s1)" "mi_version (m_metaInfo s1) < MMKVVersionHolder"
      "read_meta s1 = m_metaInfo s1" "\<not> f_readOnly (m_file s1)" "4 \<le> f_size (m_file s1)"
      "f_size (m_file s1) = length (f_disk (m_file s1))" "m_enableKeyExpire s1 = expire_flag s1"
  shows "\<exists>t. loadFromFile (Suc n) E iv s = (Inr (), t) \<and> (m_dic s1 = Map.empty \<longrightarrow> store_ok E t [] []) \<and> zero_loaded s1 t"
proof -
  let ?s2 = "new_output (s1\<lparr>m_actualSize := 0, m_crcDigest := crc\<rparr>)"
  have ptr: "f_ptr (m_file s1)" using assms(2) by (simp add: isFileValid_def)
  have "\<exists>d e m. writeActualSize 0 0 None False ?s2 = (Inr True, set_meta 0 0 m d (?s2\<lparr>m_file := (m_file ?s2)\<lparr>f_disk := e\<rparr>\<rparr>)) \<and>
    meta_ready (set_meta 0 0 m d ?s2) \<and> mi_crcDigest m = 0 \<and> mi_actualSize m = 0 \<and> length e = length (f_disk (m_file ?s2)) \<and>
    length d = length (f_disk (m_metaFile ?s2)) \<and> mi_sequence m = mi_sequence (m_metaInfo ?s2) \<and>
    (MMKVVersionFlag \<le> mi_version (m_metaInfo ?s2) \<longrightarrow> same_generation (m_metaInfo ?s2) m)"
    using s1 ptr by (intro writeActualSize_zero) (simp_all add: new_output_def read_meta_def expire_flag_def)
  then obtain d e mi where w: "writeActualSize 0 0 None False ?s2 = (Inr True, set_meta 0 0 mi d (?s2\<lparr>m_file := (m_file ?s2)\<lparr>f_disk := e\<rparr>\<rparr>))"
    "meta_ready (set_meta 0 0 mi d ?s2)" "mi_crcDigest mi = 0" "mi_actualSize mi = 0" "length e = length (f_disk (m_file ?s2))"
    "length d = length (f_disk (m_metaFile ?s2))" "mi_sequence mi = mi_sequence (m_metaInfo ?s2)"
    "MMKVVersionFlag \<le> mi_version (m_metaInfo ?s2) \<longrightarrow> same_generation (m_metaInfo ?s2) mi" by blast
  let ?out = "Some (CodedOutputData [] 4 (payload_size (f_size (m_file s1))))"
  let ?t = "set_meta 0 0 mi d (s1\<lparr>m_output := ?out, m_crcDigest := crc, m_file := (m_file s1)\<lparr>f_disk := e\<rparr>, m_needLoadFromFile := False\<rparr>)"
  have eq: "(set_meta 0 0 mi d (?s2\<lparr>m_file := (m_file ?s2)\<lparr>f_disk := e\<rparr>\<rparr>))\<lparr>m_needLoadFromFile := False\<rparr> = ?t"
    by (simp add: set_meta_def new_output_def getFileSize_def)
  have sel: "\<not> m_readOnly ?s2" "m_actualSize ?s2 = 0" using s1(1) by (simp_all add: new_output_def)
  have "loadFromFile (Suc n) E iv s = (Inr (), ?t)"
    unfolding loadFromFile.simps Let_def loadFromFile_body_def bindC_def m prod.case sum.case map_again_same [OF assms(2,3)]
    using assms(2,3) c w(1) sel eq by (simp add: returnC_def)
  moreover have "store_ok E ?t [] []" if "m_dic s1 = Map.empty"
  proof -
    have "file_log ?t [] []"
      using ptr s1 w(5) by (simp add: file_log_def header_def in_range_def mem_read_def new_output_def)
    moreover have "writable 0 ?t"
      using ptr s1 w(5) by (simp add: writable_def CodedOutputData_def payload_size_def new_output_def)
    moreover have "meta_ready ?t" using w(2) by (simp add: meta_ready_def read_meta_def new_output_def)
    ultimately show ?thesis
      using assms(2,5) s1(1) w(3,4) that by (simp add: store_ok_def log_ok_def meta_current_def isFileValid_def)
  qed
  moreover have "zero_loaded s1 ?t"
    using w(5-8) unfolding zero_loaded_def
    by (intro exI [of _ d] exI [of _ e] exI [of _ mi] exI [of _ crc] exI [of _ ?out]) (simp add: new_output_def)
  ultimately show ?thesis by blast
qed

section \<open>Opening\<close>

text \<open>New files are read as zeros.\<close>

definition zero_meta :: MMKVMetaInfo where
  "zero_meta = MMKVMetaInfo_new\<lparr>mi_version := MMKVVersionDefault\<rparr>"

lemma word_bytes_0: "word_bytes k 0 = replicate k 0"
  by (simp add: word_bytes_def le_bytes_def map_replicate_const)

lemma meta_bytes_zero: "meta_bytes zero_meta = replicate 112 0"
proof -
  have "replicate 4 (0 :: byte) @ replicate 4 0 @ replicate 4 0 @ replicate 16 0 @ replicate 4 0 @ replicate 4 0 @
      replicate 4 0 @ replicate 64 0 @ replicate 8 0 = replicate 112 0"
    by (simp flip: replicate_add)
  moreover have "concat (map (word_bytes 4) (replicate n 0)) = replicate (4 * n) 0" for n
    by (induction n) (simp_all add: word_bytes_0 flip: replicate_add)
  ultimately show ?thesis
    by (simp add: zero_meta_def MMKVMetaInfo_new_def meta_bytes_def word_bytes_0 version_defs)
qed

lemma meta_read_zero: "112 \<le> n \<Longrightarrow> meta_read (replicate n 0) = zero_meta"
proof -
  assume "112 \<le> n"
  then have "meta_write zero_meta (replicate n 0) = replicate n 0"
    by (simp add: meta_write_def mem_write_def meta_bytes_zero drop_replicate flip: replicate_add)
  moreover have "meta_ok zero_meta" by (simp add: zero_meta_def MMKVMetaInfo_new_def meta_ok_def)
  ultimately show ?thesis using meta_read_write by metis
qed

lemma le_value_zero: "le_value (replicate k 0) = 0"
  using le_value_le_bytes [of k 0] word_bytes_0 [of k, where 'a = 8] by (simp add: word_bytes_def)

lemma new_file_zero:
  assumes "0 < page" and "g = MemoryFile_new page cap False mayfly disk []" and "disk = replicate (length disk) 0"
  shows "f_disk g = replicate (length (f_disk g)) 0"
proof -
  note g = MemoryFile_new_ok [OF assms(1,2)]
  have "f_disk g ! i = 0" if "i < length (f_disk g)" for i
  proof (cases "i < length disk")
    case True
    then have "f_disk g ! i = disk ! i" using g(7) by (metis nth_take)
    then show ?thesis using True assms(3) by (metis nth_replicate)
  qed (use g(8) that in simp)
  then show ?thesis by (intro nth_equalityI) simp_all
qed

lemma no_flag_zero: "\<not> hasFlag flag (meta_read (replicate k 0))"
  by (simp add: hasFlag_def meta_read_def le_word_def mem_read_def le_value_zero)

definition fresh_files :: "MMKV \<Rightarrow> bool" where
  "fresh_files s \<longleftrightarrow> isFileValid (m_file s) \<and> isFileValid (m_metaFile s) \<and> f_io (m_file s) = [] \<and> f_io (m_metaFile s) = [] \<and>
     \<not> f_readOnly (m_file s) \<and> \<not> f_readOnly (m_metaFile s) \<and> file_ok (m_metaFile s) \<and> 112 \<le> f_size (m_metaFile s) \<and>
     f_size (m_file s) = length (f_disk (m_file s)) \<and> 4 \<le> f_size (m_file s) \<and> \<not> m_readOnly s \<and> \<not> m_enableKeyExpire s \<and>
     f_disk (m_file s) = replicate (length (f_disk (m_file s))) 0 \<and> read_meta s = zero_meta"

lemma loadFromFile_fresh:
  assumes s: "fresh_files s" and "crc32 E 0 [] = 0" and "m_dic s = Map.empty"
  shows "\<exists>t. loadFromFile (Suc n) E iv s = (Inr (), t) \<and> store_ok E t [] [] \<and> loaded_settings s t"
proof -
  have h: "isFileValid (m_file s)" "isFileValid (m_metaFile s)" "f_io (m_file s) = []" "f_io (m_metaFile s) = []"
    "f_size (m_file s) = length (f_disk (m_file s))" "4 \<le> f_size (m_file s)" "read_meta s = zero_meta" "\<not> m_readOnly s"
    "f_disk (m_file s) = replicate (length (f_disk (m_file s))) 0" "\<not> m_enableKeyExpire s"
    "\<not> f_readOnly (m_file s)" "\<not> f_readOnly (m_metaFile s)" "file_ok (m_metaFile s)" "112 \<le> f_size (m_metaFile s)"
    using s by (auto simp: fresh_files_def)
  obtain f g where c: "checkFileHasDiskError E s = s\<lparr>m_isSecondLoad := True, m_metaFile := g, m_file := f\<rparr>"
    and f: "same_valid_file (m_file s) f" and g: "same_valid_file (m_metaFile s) g"
    using checkFileHasDiskError_ok [OF h(1-4)] by blast
  note fs = same_valid_fileD [OF f] and gs = same_valid_fileD [OF g]
  let ?s0 = "s\<lparr>m_isSecondLoad := True, m_metaFile := g, m_file := f\<rparr>" and ?s1 = "s\<lparr>m_isSecondLoad := True, m_metaFile := g, m_file := f, m_metaInfo := zero_meta\<rparr>"
  have r: "read_meta ?s0 = zero_meta" "read_meta ?s1 = zero_meta" using gs h(7) by (simp_all add: read_meta_def)
  have z: "mi_version zero_meta = 0" "mi_flags zero_meta = 0" "mi_crcDigest zero_meta = 0" "meta_ok zero_meta"
    by (simp_all add: zero_meta_def MMKVMetaInfo_new_def version_defs meta_ok_def)
  have m: "loadMetaInfoAndCheck E s = (Inr (), ?s1)"
    unfolding loadMetaInfoAndCheck_def Let_def using h(2,8) c gs(6) r
    by (simp add: check_meta_version_def bindC_def returnC_def z version_defs)
  have valid: "isFileValid (m_file ?s1)" "getActualFileSize (m_file ?s1) = getFileSize (m_file ?s1)" "f_ptr f"
    using fs h(5) by (auto simp: getActualFileSize_def getFileSize_def isFileValid_def)
  have zeros: "mem_read (f_disk f) 0 4 = replicate 4 0"
    using fs(3) h(5,6) by (subst fs(3), subst h(9)) (simp add: mem_read_def)
  have rd: "memory_read 0 4 ?s1 = (Inr (replicate 4 0), ?s1)"
    using memory_read_run [of ?s1 0 4] valid(3) h(6) fs(2) zeros by simp
  have a: "readActualSize ?s1 = (Inr 0, ?s1)"
    unfolding readActualSize_def bindC_def rd by (simp add: z version_defs returnC_def le_value_zero)
  have crc: "checkFileCRCValid E 0 0 (?s1\<lparr>m_actualSize := 0\<rparr>) = (Inr True, ?s1\<lparr>m_actualSize := 0, m_crcDigest := 0\<rparr>)"
    using valid(3) h(6) fs(2) assms(2)
    by (simp add: checkFileCRCValid_def bindC_def memory_read_def mem_read_def Let_def)
  have chk: "checkDataValid E ?s1 = (Inr (True, False), ?s1\<lparr>m_actualSize := 0, m_crcDigest := 0\<rparr>)"
    unfolding checkDataValid_def Let_def bindC_def a using crc h(6) fs(2) z by (simp add: size_in_file_def getFileSize_def returnC_def)
  have "\<exists>t. loadFromFile (Suc n) E iv s = (Inr (), t) \<and> (m_dic ?s1 = Map.empty \<longrightarrow> store_ok E t [] []) \<and> zero_loaded ?s1 t"
    by (rule loadFromFile_zero [OF m valid(1,2) chk assms(2)])
      (use h fs gs z r in \<open>simp_all add: expire_flag_def version_defs file_ok_def\<close>)
  then obtain t where
    t: "loadFromFile (Suc n) E iv s = (Inr (), t)" "m_dic ?s1 = Map.empty \<longrightarrow> store_ok E t [] []" "zero_loaded ?s1 t" by blast
  have "loaded_settings s t"
    using zero_loadedD [OF t(3)] fs(2,3,7) gs(2,3,7) h(5,7,10) z(2) by (simp add: loaded_settings_def hasFlag_def)
  then show ?thesis using t(1,2) assms(3) by auto
qed

lemma loadFromFile_empty:
  assumes s: "files_hold E s [] []" and "crc32 E 0 [] = 0" and "m_dic s = Map.empty"
  shows "\<exists>t. loadFromFile (Suc n) E iv s = (Inr (), t) \<and> store_ok E t [] [] \<and> loaded_settings s t"
proof -
  obtain f g where m: "loadMetaInfoAndCheck E s =
      (Inr (), s\<lparr>m_isSecondLoad := True, m_metaFile := g, m_file := f, m_metaInfo := read_meta s,
         m_enableKeyExpire := hasFlag EnableKeyExipre (read_meta s),
         m_enableCompareBeforeSet := m_enableCompareBeforeSet s \<and> \<not> hasFlag EnableKeyExipre (read_meta s)\<rparr>)"
    and f: "same_valid_file (m_file s) f" and g: "same_valid_file (m_metaFile s) g"
    using loadMetaInfoAndCheck_run [OF s] by blast
  note fs = same_valid_fileD [OF f] and gs = same_valid_fileD [OF g]
  let ?s1 = "s\<lparr>m_isSecondLoad := True, m_metaFile := g, m_file := f, m_metaInfo := read_meta s,
         m_enableKeyExpire := hasFlag EnableKeyExipre (read_meta s),
         m_enableCompareBeforeSet := m_enableCompareBeforeSet s \<and> \<not> hasFlag EnableKeyExipre (read_meta s)\<rparr>"
  have h: "file_log s [] []" "f_size (m_file s) = length (f_disk (m_file s))" "\<not> m_readOnly s"
    "MMKVVersionFlag \<le> mi_version (read_meta s)" "mi_version (read_meta s) < MMKVVersionHolder" "meta_ok (read_meta s)"
    "mi_crcDigest (read_meta s) = crc32 E 0 []" "mi_actualSize (read_meta s) = 0"
    "\<not> f_readOnly (m_metaFile s)" "file_ok (m_metaFile s)" "112 \<le> f_size (m_metaFile s)"
    using s by (auto simp: files_hold_def Let_def)
  have fl: "file_log ?s1 [] []" using h(1) by (subst file_log_cong [of _ s]) (simp_all add: fs)
  have valid: "isFileValid (m_file ?s1)" "getActualFileSize (m_file ?s1) = getFileSize (m_file ?s1)"
    using fs h(2) by (auto simp: getActualFileSize_def getFileSize_def isFileValid_def)
  have chk: "checkDataValid E ?s1 = (Inr (True, False), ?s1\<lparr>m_actualSize := 0, m_crcDigest := crc32 E 0 []\<rparr>)"
    using checkDataValid_run [OF valid(1) fl] h by simp
  have "\<exists>t. loadFromFile (Suc n) E iv s = (Inr (), t) \<and> (m_dic ?s1 = Map.empty \<longrightarrow> store_ok E t [] []) \<and> zero_loaded ?s1 t"
    by (rule loadFromFile_zero [OF m valid(1,2) chk assms(2)])
      (use h fs gs fl in \<open>simp_all add: expire_flag_def file_ok_def read_meta_def file_log_def\<close>)
  then obtain t where
    t: "loadFromFile (Suc n) E iv s = (Inr (), t)" "m_dic ?s1 = Map.empty \<longrightarrow> store_ok E t [] []" "zero_loaded ?s1 t" by blast
  have "loaded_settings s t"
    using zero_loadedD [OF t(3)] fs(2,3,7) gs(2,3,7) h(2) by (simp add: loaded_settings_def)
  then show ?thesis using t(1,2) assms(3) by auto
qed

lemma load_mapped:
  assumes "files_hold E s hdr es \<or> (fresh_files s \<and> hdr = [] \<and> es = [])" and "crc32 E 0 [] = 0" and "m_dic s = Map.empty"
  shows "\<exists>t. loadFromFile (Suc n) E iv s = (Inr (), t) \<and> store_ok E t hdr es \<and> loaded_settings s t"
proof (cases "files_hold E s hdr es \<and> hdr \<noteq> []")
  case True
  then show ?thesis using loadFromFile_run by blast
next
  case False
  have "hdr = [] \<Longrightarrow> files_hold E s hdr es \<Longrightarrow> es = []" by (auto simp: files_hold_def file_log_def header_def)
  then show ?thesis
    using False assms loadFromFile_fresh [OF _ assms(2,3)] loadFromFile_empty [OF _ assms(2,3)] by blast
qed

text \<open>The files of a closed store: they hold a log, or nothing was written to them yet.\<close>

definition disk_state :: "environment \<Rightarrow> byte list \<Rightarrow> byte list \<Rightarrow> byte list \<Rightarrow> log_entry list \<Rightarrow> bool" where
  "disk_state E disk metaDisk hdr es \<longleftrightarrow> disk_holds E disk metaDisk hdr es \<or>
     (disk = replicate (length disk) 0 \<and> metaDisk = replicate (length metaDisk) 0 \<and> hdr = [] \<and> es = [])"

text \<open>The checksum of nothing is 0, and a page has room for the meta information.\<close>

definition env_files :: "environment \<Rightarrow> bool" where
  "env_files E \<longleftrightarrow> crc32 E 0 [] = 0 \<and> 112 \<le> page_size E"

definition opened :: "environment \<Rightarrow> MMKVConfig \<Rightarrow> byte list \<Rightarrow> MMKV \<Rightarrow> bool" where
  "opened E config metaDisk u \<longleftrightarrow> m_multiProcess u = isMultiProcess config \<and> m_itemSizeLimit u = itemSizeLimit config \<and>
     m_enableKeyExpire u = hasFlag EnableKeyExipre (meta_read metaDisk) \<and>
     m_enableCompareBeforeSet u = (compareBeforeSet config \<and> \<not> m_enableKeyExpire u) \<and> f_io (m_file u) = [] \<and>
     page_size E \<le> f_size (m_file u)"

lemma MMKV_new_run:
  assumes "enableKeyExpire config = None"
  shows "MMKV_new E iv junk config disk metaDisk io metaIo =
    (Inr (), (MMKV_object E config disk metaDisk io metaIo)\<lparr>m_enableCompareBeforeSet := compareBeforeSet config\<rparr>)"
  using assms by (simp add: MMKV_new_def bindC_def returnC_def enableCompareBeforeSet_def) (simp add: MMKV_object_def Let_def)

lemma MMKV_object_sel [simp]:
  "m_readOnly (MMKV_object E config disk metaDisk io metaIo) = isReadOnly config"
  "m_multiProcess (MMKV_object E config disk metaDisk io metaIo) = isMultiProcess config"
  "m_itemSizeLimit (MMKV_object E config disk metaDisk io metaIo) = itemSizeLimit config"
  "m_needLoadFromFile (MMKV_object E config disk metaDisk io metaIo)"
  "\<not> m_enableKeyExpire (MMKV_object E config disk metaDisk io metaIo)"
  "m_dic (MMKV_object E config disk metaDisk io metaIo) = Map.empty"
  by (simp_all add: MMKV_object_def Let_def)

lemma MMKV_object_files:
  assumes "\<not> isReadOnly config" and "s = MMKV_object E config disk metaDisk [] []"
  shows "m_file s = MemoryFile_new (page_size E) (max (page_size E) (roundUp (expectedCapacity config) (page_size E))) False True disk []"
    and "m_metaFile s = MemoryFile_new (page_size E) 0 False (\<not> isMultiProcess config) metaDisk []"
  using assms by (simp_all add: MMKV_object_def Let_def)

lemma object_fresh_files:
  assumes "env_files E" and ro: "\<not> isReadOnly config" and z: "disk = replicate (length disk) 0" "metaDisk = replicate (length metaDisk) 0"
  shows "fresh_files (MMKV_object E config disk metaDisk [] [])"
proof -
  let ?s = "MMKV_object E config disk metaDisk [] []"
  have page: "0 < page_size E" "112 \<le> page_size E" using assms(1) by (simp_all add: env_files_def)
  note f = MMKV_object_files(1) [OF ro refl, of E disk metaDisk] and g = MMKV_object_files(2) [OF ro refl, of E disk metaDisk]
  note fo = MemoryFile_new_ok [OF page(1) f] and go = MemoryFile_new_ok [OF page(1) g]
  have "f_memory (m_metaFile ?s) = replicate (f_size (m_metaFile ?s)) 0"
    using new_file_zero [OF page(1) g z(2)] go(4) by (simp add: f_memory_def)
  moreover have "112 \<le> f_size (m_metaFile ?s)" "4 \<le> f_size (m_file ?s)"
    using go(9) fo(9) page(2) by linarith+
  ultimately show ?thesis
    using fo(1-5) go(1-5) new_file_zero [OF page(1) f z(1)] ro meta_read_zero
    unfolding fresh_files_def read_meta_def by simp
qed

text \<open>Opening alone changes nothing of what the files hold.\<close>

lemma disk_holds_extends:
  assumes "disk_holds E disk metaDisk hdr es" and "take (length disk) d = disk" and "take (length metaDisk) m = metaDisk"
    and "length disk \<le> length d" and "length metaDisk \<le> length m"
  shows "disk_holds E d m hdr es"
proof -
  have l: "4 + (length hdr + length (enc_log es)) \<le> length disk" "112 \<le> length metaDisk"
    using assms(1) by (auto simp: disk_holds_def)
  have "mem_read d 4 (length hdr + length (enc_log es)) = mem_read disk 4 (length hdr + length (enc_log es))"
    using mem_read_take [OF l(1), of d] assms(2) by simp
  moreover have "meta_read m = meta_read metaDisk" using meta_read_take [OF l(2), of m] assms(3) by simp
  ultimately show ?thesis using assms(1,4,5) by (simp add: disk_holds_def)
qed

lemma object_disk_state:
  assumes "env_files E" and ro: "\<not> isReadOnly config" and d: "disk_state E disk metaDisk hdr es"
    and s: "s = MMKV_object E config disk metaDisk [] []"
  shows "disk_state E (f_disk (m_file s)) (f_disk (m_metaFile s)) hdr es"
    and "hasFlag flag (meta_read (f_disk (m_metaFile s))) = hasFlag flag (meta_read metaDisk)"
proof -
  have page: "0 < page_size E" using assms(1) by (simp add: env_files_def)
  note f = MMKV_object_files(1) [OF ro s] and g = MMKV_object_files(2) [OF ro s]
  note fo = MemoryFile_new_ok [OF page f] and go = MemoryFile_new_ok [OF page g]
  have "disk_state E (f_disk (m_file s)) (f_disk (m_metaFile s)) hdr es \<and>
      hasFlag flag (meta_read (f_disk (m_metaFile s))) = hasFlag flag (meta_read metaDisk)"
    using d [unfolded disk_state_def]
  proof
    assume h: "disk_holds E disk metaDisk hdr es"
    then have "112 \<le> length metaDisk" by (simp add: disk_holds_def)
    then have "meta_read (f_disk (m_metaFile s)) = meta_read metaDisk" using meta_read_take [of "length metaDisk"] go(7) by metis
    moreover have "disk_holds E (f_disk (m_file s)) (f_disk (m_metaFile s)) hdr es"
      by (rule disk_holds_extends [OF h fo(7) go(7) fo(6) go(6)])
    ultimately show ?thesis by (simp add: disk_state_def)
  next
    assume z: "disk = replicate (length disk) 0 \<and> metaDisk = replicate (length metaDisk) 0 \<and> hdr = [] \<and> es = []"
    then have "f_disk (m_file s) = replicate (length (f_disk (m_file s))) 0" "f_disk (m_metaFile s) = replicate (length (f_disk (m_metaFile s))) 0"
      using new_file_zero [OF page f] new_file_zero [OF page g] by blast+
    then show ?thesis using z no_flag_zero by (metis disk_state_def)
  qed
  then show "disk_state E (f_disk (m_file s)) (f_disk (m_metaFile s)) hdr es"
    "hasFlag flag (meta_read (f_disk (m_metaFile s))) = hasFlag flag (meta_read metaDisk)" by simp_all
qed

lemma open_run:
  assumes "env_files E" and ro: "\<not> isReadOnly config" and "enableKeyExpire config = None"
    and d: "disk_state E disk metaDisk hdr es"
  shows "\<exists>t u. MMKV_new E iv junk config disk metaDisk [] [] = (Inr (), t) \<and> checkLoadData E iv t = (Inr (), u) \<and>
    store_ok E u hdr es \<and> opened E config metaDisk u \<and> \<not> m_readOnly t \<and> \<not> m_enableKeyExpire t \<and>
    disk_state E (f_disk (m_file t)) (f_disk (m_metaFile t)) hdr es \<and>
    hasFlag EnableKeyExipre (meta_read (f_disk (m_metaFile t))) = hasFlag EnableKeyExipre (meta_read metaDisk)"
proof -
  let ?s = "MMKV_object E config disk metaDisk [] []"
  let ?t = "?s\<lparr>m_enableCompareBeforeSet := compareBeforeSet config\<rparr>"
  have page: "0 < page_size E" and crc: "crc32 E 0 [] = 0" using assms(1) by (simp_all add: env_files_def)
  let ?l = "?t\<lparr>m_needLoadFromFile := False\<rparr>"
  have check: "checkLoadData E iv ?t = loadFromFile (Suc 3) E iv ?l"
    by (simp add: checkLoadData_def checkLoadData_body_def load_depth_def)
  have dic: "m_dic ?l = Map.empty" by simp
  have big: "page_size E \<le> f_size (m_file ?l)" "f_size (m_file ?l) = length (f_disk (m_file ?l))"
    using MemoryFile_new_ok(9,4) [OF page MMKV_object_files(1) [OF ro refl]] by simp_all
  have "(files_hold E ?l hdr es \<or> (fresh_files ?l \<and> hdr = [] \<and> es = [])) \<and>
      hasFlag EnableKeyExipre (read_meta ?l) = hasFlag EnableKeyExipre (meta_read metaDisk)"
    using d unfolding disk_state_def
  proof
    assume h: "disk_holds E disk metaDisk hdr es"
    then show ?thesis
      using object_files_hold [OF page h ro] by (simp add: files_hold_def file_log_def read_meta_def)
  next
    assume z: "disk = replicate (length disk) 0 \<and> metaDisk = replicate (length metaDisk) 0 \<and> hdr = [] \<and> es = []"
    then have "fresh_files ?l"
      using object_fresh_files [OF assms(1) ro, of disk metaDisk] by (simp add: fresh_files_def read_meta_def)
    moreover from this have "read_meta ?l = zero_meta" by (simp add: fresh_files_def)
    moreover have "\<not> hasFlag EnableKeyExipre zero_meta" by (simp add: hasFlag_def zero_meta_def MMKVMetaInfo_new_def)
    moreover have "\<not> hasFlag EnableKeyExipre (meta_read metaDisk)"
      using z no_flag_zero [of EnableKeyExipre "length metaDisk"] by metis
    ultimately show ?thesis using z by simp
  qed
  with load_mapped [OF _ crc dic] obtain u where
    u: "loadFromFile (Suc 3) E iv ?l = (Inr (), u)" "store_ok E u hdr es" "loaded_settings ?l u"
    "hasFlag EnableKeyExipre (read_meta ?l) = hasFlag EnableKeyExipre (meta_read metaDisk)" by blast
  have "opened E config metaDisk u" using u(3,4) big by (simp add: loaded_settings_def opened_def)
  with u(1,2) have "\<exists>u. loadFromFile (Suc 3) E iv ?l = (Inr (), u) \<and> store_ok E u hdr es \<and> opened E config metaDisk u" by blast
  then show ?thesis
    unfolding MMKV_new_run [OF assms(3)] check [symmetric] using ro object_disk_state [OF assms(1) ro d refl] by auto
qed

end
