(* ===== verification/MMKV_Typed.thy ===== *)
theory MMKV_Typed
  imports MMKV_Load
begin

text \<open>
  Typed sets and gets on a store that satisfies the invariant: the sets of numbers for every element type
  of the locale \<open>codec\<close>, the round trip of every type, and gets from a store with expiration.
\<close>

unbundle bit_operations_syntax


section \<open>Encoding into a buffer\<close>

text \<open>The suffix of a value in a store with expiration.\<close>

definition time_suffix :: "environment \<Rightarrow> bool \<Rightarrow> u32 \<Rightarrow> byte list" where
  "time_suffix E expire expireDuration = (if expire then word_bytes 4 (expire_time E expireDuration) else [])"

lemma length_time_suffix: "length (time_suffix E expire d) = (if expire then 4 else 0)"
  by (simp add: time_suffix_def)

lemma duration_zero: "unat d = ExpireNever \<longleftrightarrow> d = 0"
  by (simp add: ExpireNever_def unat_eq_0)

lemma write_time:
  "writeRawLittleEndian32 (UInt32ToInt32 t) = write_bytes (word_bytes 4 t)"
  by (simp add: writeRawLittleEndian32_eq word_bytes_def conversion_defs)

lemma CodedOutputData_wf: "out_wf (CodedOutputData (map f [0..<n]) 0 n)"
  by (simp add: out_wf_def CodedOutputData_def)

lemma mem_write_all: "length bs = length m \<Longrightarrow> mem_write m 0 bs = bs"
  by (simp add: mem_write_def)

context wire_writer
begin

text \<open>Filling a buffer exactly, whatever it held.\<close>

lemma fill_buffer:
  assumes "length (enc v) + length (time_suffix E expire d) = n" and "expire \<or> d = 0"
  shows "bindC (wr v) (\<lambda>_. if expire then writeRawLittleEndian32 (UInt32ToInt32 (expire_time E d))
      else if unat d = ExpireNever then returnC () else throwC MemoryFault) (CodedOutputData (map junk [0..<n]) 0 n) =
    (Inr (), put_bytes (enc v @ time_suffix E expire d) (CodedOutputData (map junk [0..<n]) 0 n))"
proof -
  let ?o = "CodedOutputData (map junk [0..<n]) 0 n"
  have f: "fits ?o (length (enc v))" "fits (put_bytes (enc v) ?o) (length (time_suffix E expire d))"
    "fits ?o (length (enc v) + length (time_suffix E expire d))"
    using assms(1) by (auto simp: fits_def CodedOutputData_def)
  have wf: "out_wf (put_bytes (enc v) ?o)" by (rule out_wf_put_bytes [OF CodedOutputData_wf f(1)])
  have "write_bytes (time_suffix E expire d) (put_bytes (enc v) ?o) = (Inr (), put_bytes (enc v @ time_suffix E expire d) ?o)"
    unfolding write_bytes_fits [OF wf f(2)] put_bytes_put_bytes [OF CodedOutputData_wf f(3)] ..
  then show ?thesis
    using write_fits [OF CodedOutputData_wf f(1)] assms(2)
    by (cases expire) (simp_all add: bindC_Inr write_time time_suffix_def duration_zero ExpireNever_def)
qed

end

context codec
begin

lemma encode_value_eq:
  assumes "valid v" and "expire \<or> d = 0" and "length (enc v) < 2 ^ 32 - 4"
  shows "encode_value E junk (sz v) (wr v) expire d = Inr (enc v @ time_suffix E expire d)"
proof -
  let ?n = "unat (if expire then Fixed32Size + sz v else sz v)"
  have n: "length (enc v) + length (time_suffix E expire d) = ?n"
    using size_enc [OF assms(1)] assms(3) by (simp add: length_time_suffix fixed_size_defs unat_word_ariths)
  have "out_mem (put_bytes (enc v @ time_suffix E expire d) (CodedOutputData (map junk [0..<?n]) 0 ?n)) = enc v @ time_suffix E expire d"
    using n by (simp add: CodedOutputData_def curWritePointer_def mem_write_all)
  then show ?thesis
    using fill_buffer [OF n assms(2)] by (simp add: encode_value_def Let_def)
qed

text \<open>A set of a number is a set of its bytes, and a get of the bytes gives the number.\<close>

lemma set_encoded_eq:
  assumes "valid v" and "m_enableKeyExpire s \<or> d = 0" and "length (enc v) < 2 ^ 32 - 4" and "key \<noteq> []"
  shows "set_encoded E iv junk (sz v) (wr v) key d s =
    setDataForKey E iv (enc v @ time_suffix E (m_enableKeyExpire s) d) key False s"
  using assms by (simp add: set_encoded_def encode_value_eq)

lemma read_enc:
  assumes "valid v"
  shows "fst (rd (CodedInputData (enc v) 0 (length (enc v)))) = Inr v"
proof -
  have "rd (CodedInputData (enc v) 0 (length (enc v))) = (Inr v, advance (length (enc v)) (CodedInputData (enc v) 0 (length (enc v))))"
    using readsD [OF reads_back [OF assms] in_wf_new, of "enc v" "[]"] remaining_new [of "enc v"] by simp
  then show ?thesis by simp
qed

lemma get_decoded_eq:
  assumes "valid v" and "key \<noteq> []" and "getDataForKey E iv key s = (Inr (enc v), t)"
  shows "get_decoded E iv rd key def s = (Inr (v, True), t)"
  using assms(2,3) read_enc [OF assms(1)] loop.enc_not_Nil [OF assms(1)]
  by (cases "rd (CodedInputData (enc v) 0 (length (enc v)))") (auto simp: get_decoded_def bindC_def returnC_def)

end

lemma get_decoded_none:
  "getDataForKey E iv key s = (Inr [], t) \<Longrightarrow> key \<noteq> [] \<Longrightarrow> get_decoded E iv rd key def s = (Inr (def, False), t)"
  by (simp add: get_decoded_def bindC_def returnC_def)

section \<open>Values of all types\<close>

datatype typed_value = Bool bool | Int32 int32 | UInt32 u32 | Int64 int64 | UInt64 u64 | Float float32 | Double float64
  | String "byte list" | Bytes "byte list"

fun set_typed :: "environment \<Rightarrow> byte list \<Rightarrow> (nat \<Rightarrow> byte) \<Rightarrow> typed_value \<Rightarrow> byte list \<Rightarrow> u32 \<Rightarrow> (MMKV, bool) cpp" where
  "set_typed E iv junk (Bool v) = set_bool E iv junk v"
| "set_typed E iv junk (Int32 v) = set_int32 E iv junk v"
| "set_typed E iv junk (UInt32 v) = set_uint32 E iv junk v"
| "set_typed E iv junk (Int64 v) = set_int64 E iv junk v"
| "set_typed E iv junk (UInt64 v) = set_uint64 E iv junk v"
| "set_typed E iv junk (Float v) = set_float E iv junk v"
| "set_typed E iv junk (Double v) = set_double E iv junk v"
| "set_typed E iv junk (String v) = set_string E iv junk v"
| "set_typed E iv junk (Bytes v) = set_bytes E iv junk v"

text \<open>The get of the type of a value, which is the default.\<close>

definition typed :: "('a \<Rightarrow> typed_value) \<Rightarrow> (MMKV, 'a \<times> bool) cpp \<Rightarrow> (MMKV, typed_value \<times> bool) cpp" where
  "typed f m = bindC m (\<lambda>(v, hasValue). returnC (f v, hasValue))"

fun get_typed :: "environment \<Rightarrow> byte list \<Rightarrow> byte list \<Rightarrow> typed_value \<Rightarrow> (MMKV, typed_value \<times> bool) cpp" where
  "get_typed E iv key (Bool def) = typed Bool (getBool E iv key def)"
| "get_typed E iv key (Int32 def) = typed Int32 (getInt32 E iv key def)"
| "get_typed E iv key (UInt32 def) = typed UInt32 (getUInt32 E iv key def)"
| "get_typed E iv key (Int64 def) = typed Int64 (getInt64 E iv key def)"
| "get_typed E iv key (UInt64 def) = typed UInt64 (getUInt64 E iv key def)"
| "get_typed E iv key (Float def) = typed Float (getFloat E iv key def)"
| "get_typed E iv key (Double def) = typed Double (getDouble E iv key def)"
| "get_typed E iv key (String def) = typed String (getString E iv key def)"
| "get_typed E iv key (Bytes def) = typed Bytes (getBytes E iv key def)"

fun kind :: "typed_value \<Rightarrow> nat" where
  "kind (Bool _) = 0"
| "kind (Int32 _) = 1"
| "kind (UInt32 _) = 2"
| "kind (Int64 _) = 3"
| "kind (UInt64 _) = 4"
| "kind (Float _) = 5"
| "kind (Double _) = 6"
| "kind (String _) = 7"
| "kind (Bytes _) = 8"

definition same_type :: "typed_value \<Rightarrow> typed_value \<Rightarrow> bool" where
  "same_type v w \<longleftrightarrow> kind v = kind w"

fun wire_bytes :: "typed_value \<Rightarrow> byte list" where
  "wire_bytes (Bool v) = enc_bool v"
| "wire_bytes (Int32 v) = enc_int32 v"
| "wire_bytes (UInt32 v) = enc_uint32 v"
| "wire_bytes (Int64 v) = enc_int64 v"
| "wire_bytes (UInt64 v) = enc_int64 v"
| "wire_bytes (Float v) = enc_float v"
| "wire_bytes (Double v) = enc_double v"
| "wire_bytes (String v) = enc_data v"
| "wire_bytes (Bytes v) = enc_data v"

fun short_value :: "typed_value \<Rightarrow> bool" where
  "short_value (String v) = short v"
| "short_value (Bytes v) = short v"
| "short_value _ = True"

lemma wire_bytes_not_Nil: "short_value v \<Longrightarrow> wire_bytes v \<noteq> []"
  using bool.loop.enc_not_Nil int32.loop.enc_not_Nil uint32.loop.enc_not_Nil int64.loop.enc_not_Nil
    float.loop.enc_not_Nil double.loop.enc_not_Nil data.loop.enc_not_Nil
  by (cases v) auto

text \<open>A typed get of the bytes of a value.\<close>

lemma get_typed_eq:
  assumes "same_type v def" and "short_value v" and "key \<noteq> []" and "getDataForKey E iv key s = (Inr (wire_bytes v), t)"
  shows "get_typed E iv key def s = (Inr (v, True), t)"
  using assms
  by (cases v; cases def) (simp_all add: same_type_def typed_def bindC_def returnC_def getBool_def getInt32_def getUInt32_def getInt64_def
      getUInt64_def getFloat_def getDouble_def getString_def getBytes_def bool.get_decoded_eq int32.get_decoded_eq
      uint32.get_decoded_eq int64.get_decoded_eq uint64.get_decoded_eq float.get_decoded_eq double.get_decoded_eq
      str.get_decoded_eq data.get_decoded_eq)

lemma get_typed_none:
  assumes "getDataForKey E iv key s = (Inr [], t)" and "key \<noteq> []"
  shows "get_typed E iv key def s = (Inr (def, False), t)"
  by (cases def) (simp_all add: get_decoded_none [OF assms] typed_def bindC_def returnC_def getBool_def getInt32_def
      getUInt32_def getInt64_def getUInt64_def getFloat_def getDouble_def getString_def getBytes_def)

section \<open>Sets and gets of stores\<close>

text \<open>The set of a value, with what \<open>setDataForKey\<close> gets.\<close>

definition set_arguments :: "typed_value \<Rightarrow> byte list \<times> bool" where
  "set_arguments v = (case v of String d \<Rightarrow> (d, True) | Bytes d \<Rightarrow> (d, True) | _ \<Rightarrow> (wire_bytes v, False))"

lemma stored_arguments: "stored_value (fst (set_arguments v)) (snd (set_arguments v)) = wire_bytes v"
  by (cases v) (simp_all add: set_arguments_def stored_value_def)

lemma short_wire_bytes: "short (wire_bytes v) \<Longrightarrow> short_value v"
  by (cases v) (simp_all add: short_def enc_data_def)

lemma set_encoded_short:
  "short bs \<Longrightarrow> length bs < 2 ^ 32 - 4"
  by (simp add: short_def)

lemma set_typed_eq:
  assumes "short (wire_bytes v)" and "\<not> m_enableKeyExpire s" and "key \<noteq> []"
  shows "set_typed E iv junk v key 0 s = setDataForKey E iv (fst (set_arguments v)) key (snd (set_arguments v)) s"
proof -
  note l = set_encoded_short [OF assms(1)]
  have e: "m_enableKeyExpire s \<or> (0 :: u32) = 0" by simp
  have t: "time_suffix E (m_enableKeyExpire s) 0 = []" using assms(2) by (simp add: time_suffix_def)
  show ?thesis
  proof (cases v)
    case (Bool x)
    then show ?thesis using bool.set_encoded_eq [OF TrueI e _ assms(3)] l t by (simp add: set_bool_def set_arguments_def)
  next
    case (Int32 x)
    then show ?thesis using int32.set_encoded_eq [OF TrueI e _ assms(3)] l t by (simp add: set_int32_def set_arguments_def)
  next
    case (UInt32 x)
    then show ?thesis using uint32.set_encoded_eq [OF TrueI e _ assms(3)] l t by (simp add: set_uint32_def set_arguments_def)
  next
    case (Int64 x)
    then show ?thesis using int64.set_encoded_eq [OF TrueI e _ assms(3)] l t by (simp add: set_int64_def set_arguments_def)
  next
    case (UInt64 x)
    then show ?thesis using uint64.set_encoded_eq [OF TrueI e _ assms(3)] l t by (simp add: set_uint64_def set_arguments_def)
  next
    case (Float x)
    then show ?thesis using float.set_encoded_eq [OF TrueI e _ assms(3)] l t by (simp add: set_float_def set_arguments_def)
  next
    case (Double x)
    then show ?thesis using double.set_encoded_eq [OF TrueI e _ assms(3)] l t by (simp add: set_double_def set_arguments_def)
  qed (use assms in \<open>simp_all add: set_string_def set_bytes_def setDataForKey_duration_def set_arguments_def ExpireNever_def\<close>)
qed

lemma set_typed_outcome:
  assumes "env_ok E" and "store_ok E s hdr es" and "\<not> m_enableKeyExpire s" and "\<not> m_enableCompareBeforeSet s"
    and w: "short (wire_bytes v)" and k: "valid_set key [] False" and "below_4GB es (key, wire_bytes v)" and "copies_apart s key"
  shows "set_outcome E s hdr es (key, wire_bytes v) (set_typed E iv junk v key 0 s)"
proof -
  let ?a = "set_arguments v"
  have ne: "snd ?a \<or> fst ?a \<noteq> []"
    using wire_bytes_not_Nil [OF short_wire_bytes [OF w]] by (cases v) (simp_all add: set_arguments_def)
  have v: "valid_set key (fst ?a) (snd ?a)" using k w by (simp add: valid_set_def stored_arguments)
  have key: "key \<noteq> []" using k by (simp add: valid_set_def)
  have small: "below_4GB es (key, stored_value (fst ?a) (snd ?a))" using assms(7) by (simp add: stored_arguments)
  show ?thesis
    using setDataForKey_run [OF assms(1-4) v small ne assms(8), of iv]
    unfolding set_typed_eq [OF w assms(3) key] by (simp add: stored_arguments)
qed

text \<open>Getting a value that the log has.\<close>

lemma get_typed_run:
  assumes s: "store_ok E s hdr es" and "\<not> m_enableKeyExpire s" and "log_contents es key = Some (wire_bytes v)"
    and "short (wire_bytes v)" and "same_type v def" and "key \<noteq> []"
  shows "get_typed E iv key def s = (Inr (v, True), s)"
proof -
  have "getDataForKey E iv key s = (Inr (wire_bytes v), s)"
    using assms(2,3) getRawDataForKey_run [OF s, of iv key] by (simp add: getDataForKey_def value_of_def)
  from get_typed_eq [OF assms(5) short_wire_bytes [OF assms(4)] assms(6) this] show ?thesis .
qed

section \<open>Expiration\<close>

lemma le_value_word_bytes: "le_value (word_bytes 4 (t :: u32)) = unat t"
  using unsigned_less [of t, where 'a = nat] by (simp add: word_bytes_def le_value_le_bytes)

text \<open>When a value with the given time is expired.\<close>

definition expired :: "environment \<Rightarrow> u32 \<Rightarrow> bool" where
  "expired E time \<longleftrightarrow> time \<noteq> 0 \<and> time \<le> time_now E"

lemma get_not_expired:
  assumes s: "store_ok E s hdr es" and "m_enableKeyExpire s" and "log_contents es key = Some (data @ word_bytes 4 time)"
    and "\<not> expired E time"
  shows "getDataForKey E iv key s = (Inr data, s)"
proof -
  have "getRawDataForKey E iv key s = (Inr (data @ word_bytes 4 time), s)"
    using getRawDataForKey_run [OF s, of iv key] assms(3) by (simp add: value_of_def)
  moreover have "le_value (word_bytes 4 time) = unat time"
    by (rule le_value_word_bytes)
  ultimately show ?thesis
    using assms(2,4) checkLoadData_loaded [OF s, of iv]
    by (auto simp: getDataForKey_def getDataWithoutMTimeForKey_def bindC_def Let_def expired_def ExpireNever_def word_le_nat_alt unat_eq_0)
qed

lemma get_expired:
  assumes E: "env_ok E" and s: "store_ok E s hdr es" and x: "m_enableKeyExpire s" and l: "log_contents es key = Some (data @ word_bytes 4 time)"
    and "expired E time" and v: "valid_set key [] False" and room: "has_room E (length (enc_entry (key, []))) s hdr es"
    and small: "below_4GB es (key, [])" and "m_itemSizeLimit s = 0"
  shows "\<exists>t. getDataForKey E iv key s = (Inr [], t) \<and> store_ok E t hdr (es @ [(key, [])]) \<and> same_settings s t"
proof -
  have raw: "getRawDataForKey E iv key s = (Inr (data @ word_bytes 4 time), s)"
    using getRawDataForKey_run [OF s, of iv key] l by (simp add: value_of_def)
  have t: "le_value (word_bytes 4 time) = unat time"
    by (rule le_value_word_bytes)
  have k: "key \<noteq> []" using v by (simp add: valid_set_def)
  have ro: "\<not> m_readOnly s" "m_dic s = dic_of (length hdr) es" using s by (simp_all add: store_ok_def log_ok_def)
  obtain h where h: "m_dic s key = Some h" using dic_of_None [of es key "length hdr"] l ro(2) by auto
  let ?s = "s\<lparr>m_hasFullWriteback := False\<rparr>"
  have room': "has_room E (length (enc_entry (key, stored_value [] False))) ?s hdr es"
    using room by (simp add: has_room_def stored_value_def)
  have en: "ensureMemorySize E (length (enc_entry (key, stored_value [] False))) ?s = (Inr True, ?s)"
    by (rule ensure_room [OF env_okD(1) [OF E] room']) (use h in auto)
  have kb: "key_buffer ?s n (Owned key) key" for n by (simp add: key_buffer_def)
  have lim: "checkSizeLimit (length (enc_entry (key, stored_value [] False))) ?s" using assms(9) by (simp add: checkSizeLimit_def)
  have lt: "length hdr + length (enc_log es) + length (enc_entry (key, stored_value [] False)) < 2 ^ 32"
    using below_4GB_same_log(1) [OF small same_log_refl store_ok_header [OF s]] by (simp add: stored_value_def)
  obtain u where u: "appendDataWithKey E [] key False ?s = (Inr (True, entry_holder (length hdr + length (enc_log es)) (key, [])), u)"
    "appended E u hdr (es @ [(key, [])])" "same_settings ?s u"
    using doAppend_after [OF E v en room' lt kb kb lim] by (auto simp: appendDataWithKey_def stored_value_def)
  let ?t = "u\<lparr>m_dic := (m_dic u)(key := None)\<rparr>"
  have "removeValueForKey E iv key s = (Inr True, ?t)"
    using k ro(1) h x u(1) checkLoadData_loaded [OF s, of iv]
    by (simp add: removeValueForKey_def removeDataForKey_def bindC_def)
  then have "getDataForKey E iv key s = (Inr [], ?t)"
    using raw t x assms(5) checkLoadData_loaded [OF s, of iv]
    by (simp add: getDataForKey_def getDataWithoutMTimeForKey_def bindC_def Let_def expired_def ExpireNever_def word_le_nat_alt unat_eq_0 returnC_def)
  moreover have "store_ok E ?t hdr (es @ [(key, [])])" using appended_removed [OF u(2)] by simp
  moreover have "same_settings s ?t" using u(3) by (simp add: same_settings_def)
  ultimately show ?thesis by blast
qed

text \<open>A set with room in a store with expiration that processes share: the bytes are stored as they are given.\<close>

lemma setDataForKey_expiring:
  assumes E: "env_ok E" and s: "store_ok E s hdr es" and x: "m_enableKeyExpire s" "m_multiProcess s" "m_itemSizeLimit s = 0"
    and v: "valid_set key data False" and "data \<noteq> []" and room: "has_room E (length (enc_entry (key, data))) s hdr es"
    and small: "below_4GB es (key, data)" and "log_contents es \<noteq> Map.empty"
  shows "\<exists>t. setDataForKey E iv data key False s = (Inr True, t) \<and> store_ok E t hdr (es @ [(key, data)]) \<and> same_settings s t \<and> f_size (m_file t) = f_size (m_file s)"
proof -
  have sv: "stored_value data False = data" by (simp add: stored_value_def)
  have k: "key \<noteq> []" using v by (simp add: valid_set_def)
  have d: "m_dic s \<noteq> Map.empty" using s dic_of_empty [of "length hdr" es] assms(10) by (simp add: store_ok_def)
  have room': "has_room E (length (enc_entry (key, stored_value data False))) s hdr es" using room by (simp add: sv)
  have en: "ensureMemorySize E (length (enc_entry (key, stored_value data False))) s = (Inr True, s)"
    by (rule ensure_room [OF env_okD(1) [OF E] room' d])
  have kb: "key_buffer s n (Owned key) key" for n by (simp add: key_buffer_def)
  have lim: "checkSizeLimit (length (enc_entry (key, stored_value data False))) s" using x(3) by (simp add: checkSizeLimit_def)
  have lt: "length hdr + length (enc_log es) + length (enc_entry (key, stored_value data False)) < 2 ^ 32"
    using below_4GB_same_log(1) [OF small same_log_refl store_ok_header [OF s]] by (simp add: sv)
  obtain u where u: "appendDataWithKey E data key False s = (Inr (True, entry_holder (length hdr + length (enc_log es)) (key, data)), u)"
    "appended E u hdr (es @ [(key, data)])" "same_settings s u" "f_size (m_file u) = f_size (m_file s)"
    using doAppend_after [OF E v en room' lt kb kb lim] by (auto simp: appendDataWithKey_def sv)
  let ?t = "with_holder u key (entry_holder (length hdr + length (enc_log es)) (key, data))"
  have "bindC (appendDataWithKey E data key False) (store_holder key) s = (Inr True, ?t)"
    using u(1) by (simp add: bindC_def store_holder_True)
  then have "setDataForKey E iv data key False s = (Inr True, ?t)"
    using k x assms(7) checkLoadData_loaded [OF s, of iv]
    by (simp add: setDataForKey_def bindC_def [of "checkLoadData E iv"] bindC_def [of "returnC False"] returnC_def
        isCompareBeforeSetEnabled_def Let_def split: option.split)
  moreover have "store_ok E ?t hdr (es @ [(key, data)])" using appended_set [OF u(2)] assms(7) by simp
  moreover have "same_settings s ?t" using u(3) by (simp add: same_settings_dic)
  ultimately show ?thesis using u(4) by (intro exI [of _ ?t]) simp
qed

text \<open>The eight bytes of a double, taken for a value of four bytes with a time.\<close>

definition high_word :: "float64 \<Rightarrow> u32" where
  "high_word v = word_of_nat (unat (float64_bits v) div 2 ^ 32)"

lemma le_bytes_add: "le_bytes (a + b) n = le_bytes a n @ le_bytes b (n div 256 ^ a)"
proof -
  have "map f [0..<a + b] = map f [0..<a] @ map (\<lambda>i. f (a + i)) [0..<b]" for f :: "nat \<Rightarrow> byte"
  proof (rule nth_equalityI)
    fix i assume "i < length (map f [0..<a + b])"
    then have "i - a < b \<or> i < a" by auto
    then show "map f [0..<a + b] ! i = (map f [0..<a] @ map (\<lambda>i. f (a + i)) [0..<b]) ! i"
      using \<open>i < length (map f [0..<a + b])\<close> by (cases "i < a") (simp_all add: nth_append)
  qed simp
  then show ?thesis by (simp add: le_bytes_def div_mult2_eq power_add)
qed

lemma enc_double_split: "enc_double v = le_bytes 4 (unat (float64_bits v)) @ word_bytes 4 (high_word v)"
proof -
  have "unat (float64_bits v) < 2 ^ 64" using unsigned_less [of "float64_bits v", where 'a = nat] by simp
  then have "unat (float64_bits v) div 2 ^ 32 < 2 ^ 32" by (simp add: less_mult_imp_div_less)
  then have "unat (high_word v) = unat (float64_bits v) div 256 ^ 4"
    by (simp add: high_word_def unat_of_nat take_bit_eq_mod)
  then show ?thesis
    using le_bytes_add [of 4 4 "unat (float64_bits v)"] by (simp add: enc_double_def word_bytes_def)
qed

lemma readDouble_short: "length bs = 4 \<Longrightarrow> fst (readDouble (CodedInputData bs 0 4)) = Inl OutOfRange"
  by (simp add: readDouble_def readRawLittleEndian64_def bindC_def readRawByte_def CodedInputData_def)

lemma getDouble_short:
  assumes "getDataForKey E iv key s = (Inr bs, t)" and "length bs = 4" and "key \<noteq> []"
  shows "getDouble E iv key def s = (Inr (def, False), t)"
proof -
  obtain u where "readDouble (CodedInputData bs 0 4) = (Inl OutOfRange, u)"
    using readDouble_short [OF assms(2)] by (metis eq_fst_iff)
  then show ?thesis using assms by (simp add: getDouble_def get_decoded_def bindC_def returnC_def)
qed

text \<open>A double that is stored before the store is loaded is stored without a time, and is never read again.\<close>

lemma first_double_lost:
  assumes E: "env_ok E" and load: "checkLoadData E iv s = (Inr (), u)" "\<not> m_enableKeyExpire s"
    and u: "store_ok E u hdr es" and x: "m_enableKeyExpire u" "m_multiProcess u" "m_itemSizeLimit u = 0"
    and v: "valid_set key [] False" and room: "has_room E (length (enc_entry (key, enc_double v)) + length (enc_entry (key, []))) u hdr es"
    and small: "below_4GB (es @ [(key, enc_double v)]) (key, [])" and "log_contents es \<noteq> Map.empty"
  shows "\<exists>t t'. set_double E iv junk v key 0 s = (Inr True, t) \<and> m_enableKeyExpire t \<and> getDouble E iv key def t = (Inr (def, False), t')"
proof -
  let ?kv = "(key, enc_double v)"
  have k: "key \<noteq> []" using v by (simp add: valid_set_def)
  have ne: "enc_double v \<noteq> []" using double.loop.enc_not_Nil [OF TrueI, of v] .
  have vs: "valid_set key (enc_double v) False" using v by (simp add: valid_set_def stored_value_def short_def)
  have small': "below_4GB es ?kv" using small by (simp add: below_4GB_def)
  have r: "has_room E (length (enc_entry ?kv)) u hdr es" using room by (simp add: has_room_def)
  obtain t where t: "setDataForKey E iv (enc_double v) key False u = (Inr True, t)" "store_ok E t hdr (es @ [?kv])" "same_settings u t"
    "f_size (m_file t) = f_size (m_file u)"
    using setDataForKey_expiring [OF E u x vs ne r small' assms(11)] by blast
  have "set_double E iv junk v key 0 s = setDataForKey E iv (enc_double v) key False s"
    using double.set_encoded_eq [OF TrueI _ _ k, of s 0 v E iv junk] load(2) by (simp add: set_double_def time_suffix_def)
  also have "\<dots> = setDataForKey E iv (enc_double v) key False u"
    using ne k load(1) checkLoadData_loaded [OF u, of iv] by (simp add: setDataForKey_def bindC_def)
  finally have set: "set_double E iv junk v key 0 s = (Inr True, t)" using t(1) by simp
  have xt: "m_enableKeyExpire t" "m_itemSizeLimit t = 0" using t(3) x by (simp_all add: same_settings_def)
  have l: "log_contents (es @ [?kv]) key = Some (le_bytes 4 (unat (float64_bits v)) @ word_bytes 4 (high_word v))"
    using ne by (simp add: log_contents_append log_step_def flip: enc_double_split)
  have "\<exists>t'. getDouble E iv key def t = (Inr (def, False), t')"
  proof (cases "expired E (high_word v)")
    case True
    have "has_room E (length (enc_entry (key, []))) t hdr (es @ [?kv])"
      using room t(2,4) by (simp add: has_room_def)
    from get_expired [OF E t(2) xt(1) l True v this small xt(2), of iv] obtain t' where
      "getDataForKey E iv key t = (Inr [], t')" by blast
    from get_decoded_none [OF this k, of readDouble def] show ?thesis unfolding getDouble_def by blast
  next
    case False
    from get_not_expired [OF t(2) xt(1) l False] show ?thesis
      using getDouble_short [OF _ _ k] by fastforce
  qed
  then show ?thesis using set xt(1) by blast
qed
end
