(* ===== verification/MMKV_Requests.thy ===== *)
theory MMKV_Requests
  imports MMKV_Load
begin

text \<open>
  Sequences of requests to a plain store. A server keeps a contract for every single request; whatever
  keeps it answers whole sequences as the specification does. The store, loaded or not, keeps the contract
  of a finite map from keys to byte strings. A session opens the files of the last one and serves a
  sequence of requests.
\<close>

unbundle bit_operations_syntax

section \<open>A server of requests\<close>

primrec serve_all :: "('q \<Rightarrow> ('s, 'r) cpp) \<Rightarrow> 'q list \<Rightarrow> ('s, 'r list) cpp" where
  "serve_all serve [] = returnC []"
| "serve_all serve (q # qs) = bindC (serve q) (\<lambda>r. bindC (serve_all serve qs) (\<lambda>rs. returnC (r # rs)))"

primrec spec_all :: "('q \<Rightarrow> 'm \<Rightarrow> 'r \<times> 'm) \<Rightarrow> 'q list \<Rightarrow> 'm \<Rightarrow> 'r list \<times> 'm" where
  "spec_all spec [] m = ([], m)"
| "spec_all spec (q # qs) m =
     (let (r, m) = spec q m; (rs, m) = spec_all spec qs m in (r # rs, m))"

text \<open>The contract: a request to a state that holds a value of the specification is answered as the
  specification answers it, and the next state holds the next value. A request adds at most its weight
  to the size of the state, and is served as long as the size stays below a limit.\<close>

locale server =
  fixes holds :: "'s \<Rightarrow> 'm \<Rightarrow> nat \<Rightarrow> bool"
    and serve :: "'q \<Rightarrow> ('s, 'r) cpp"
    and spec :: "'q \<Rightarrow> 'm \<Rightarrow> 'r \<times> 'm"
    and admissible :: "'q \<Rightarrow> bool"
    and weight :: "'q \<Rightarrow> nat"
    and limit :: nat
  assumes served: "holds s m n \<Longrightarrow> admissible q \<Longrightarrow> n + weight q < limit \<Longrightarrow>
    \<exists>s'. serve q s = (Inr (fst (spec q m)), s') \<and> holds s' (snd (spec q m)) (n + weight q)"
begin

lemma served_all:
  assumes "holds s m n" and "\<forall>q \<in> set qs. admissible q" and "n + sum_list (map weight qs) < limit"
  shows "\<exists>s'. serve_all serve qs s = (Inr (fst (spec_all spec qs m)), s') \<and>
    holds s' (snd (spec_all spec qs m)) (n + sum_list (map weight qs))"
  using assms
proof (induction qs arbitrary: s m n)
  case (Cons q qs)
  then obtain t where t: "serve q s = (Inr (fst (spec q m)), t)" "holds t (snd (spec q m)) (n + weight q)"
    using served [of s m n q] by auto
  with Cons.IH [OF t(2)] Cons.prems(2,3) obtain s' where
    "serve_all serve qs t = (Inr (fst (spec_all spec qs (snd (spec q m)))), s')"
    "holds s' (snd (spec_all spec qs (snd (spec q m)))) (n + weight q + sum_list (map weight qs))"
    by (auto simp: add.assoc)
  with t(1) show ?case by (simp add: bindC_def returnC_def split_def Let_def add.assoc)
qed (simp add: returnC_def)

end

section \<open>The plain store as a server\<close>

datatype request = SetData "byte list" "byte list" bool | RemoveKey "byte list" | GetData "byte list"

datatype reply = Done bool | Value "byte list"

fun serve :: "environment \<Rightarrow> byte list \<Rightarrow> request \<Rightarrow> (MMKV, reply) cpp" where
  "serve E iv (SetData key data isDataHolder) = bindC (setDataForKey E iv data key isDataHolder) (\<lambda>b. returnC (Done b))"
| "serve E iv (RemoveKey key) = bindC (removeValueForKey E iv key) (\<lambda>b. returnC (Done b))"
| "serve E iv (GetData key) = bindC (getDataForKey E iv key) (\<lambda>v. returnC (Value v))"

text \<open>What a finite map would answer.\<close>

fun map_spec :: "request \<Rightarrow> (byte list \<rightharpoonup> byte list) \<Rightarrow> reply \<times> (byte list \<rightharpoonup> byte list)" where
  "map_spec (SetData key data isDataHolder) m =
     (if data = [] \<and> \<not> isDataHolder then (Done False, m) else (Done True, m(key \<mapsto> stored_value data isDataHolder)))"
| "map_spec (RemoveKey key) m = (Done (m key \<noteq> None), m(key := None))"
| "map_spec (GetData key) m = (Value (case m key of None \<Rightarrow> [] | Some v \<Rightarrow> v), m)"

fun valid_request :: "request \<Rightarrow> bool" where
  "valid_request (SetData key data isDataHolder) = valid_set key data isDataHolder"
| "valid_request (RemoveKey key) = valid_set key [] False"
| "valid_request (GetData key) = True"

fun entry_weight :: "request \<Rightarrow> nat" where
  "entry_weight (SetData key data isDataHolder) = length (enc_entry (key, stored_value data isDataHolder))"
| "entry_weight (RemoveKey key) = length (enc_entry (key, []))"
| "entry_weight (GetData key) = 0"

text \<open>A store that appends whatever it is asked to: shared by processes, without expiration and size
  limits, on an operating system that refuses nothing.\<close>

definition plain_settings :: "MMKV \<Rightarrow> bool" where
  "plain_settings s \<longleftrightarrow> m_multiProcess s \<and> \<not> m_enableKeyExpire s \<and> \<not> m_enableCompareBeforeSet s \<and>
     m_itemSizeLimit s = 0 \<and> f_io (m_file s) = []"

definition holds :: "environment \<Rightarrow> byte list \<Rightarrow> MMKV \<Rightarrow> (byte list \<rightharpoonup> byte list) \<Rightarrow> nat \<Rightarrow> bool" where
  "holds E iv s m n \<longleftrightarrow> env_ok E \<and> \<not> m_readOnly s \<and> \<not> m_enableKeyExpire s \<and>
     (\<exists>u hdr es. checkLoadData E iv s = (Inr (), u) \<and> plain_settings u \<and> store_ok E u hdr es \<and>
        log_contents es = m \<and> length (enc_log es) \<le> n \<and>
        disk_state E (f_disk (m_file s)) (f_disk (m_metaFile s)) hdr es \<and>
        \<not> hasFlag EnableKeyExipre (meta_read (f_disk (m_metaFile s))))"

lemma holdsI:
  assumes "env_ok E" and "plain_settings s" and s: "store_ok E s hdr es" and "log_contents es = m" and "length (enc_log es) \<le> n"
  shows "holds E iv s m n"
proof -
  have l: "\<not> m_readOnly s" "\<not> m_enableKeyExpire s" "meta_read (f_memory (m_metaFile s)) = m_metaInfo s" "112 \<le> f_size (m_metaFile s)"
    "m_enableKeyExpire s = hasFlag EnableKeyExipre (m_metaInfo s)" "4 + m_actualSize s \<le> length (f_disk (m_file s))"
    using assms(2,3)
    by (auto simp: store_ok_def log_ok_def plain_settings_def meta_current_def meta_ready_def read_meta_def file_log_def)
  have "\<not> hasFlag EnableKeyExipre (meta_read (f_disk (m_metaFile s)))"
    using l(2,3,5) meta_read_take [OF l(4), of "f_disk (m_metaFile s)"] by (simp add: f_memory_def)
  moreover have "disk_state E (f_disk (m_file s)) (f_disk (m_metaFile s)) hdr es"
    using store_disk_holds [OF s refl l(6)] by (simp add: disk_state_def)
  ultimately show ?thesis
    using assms l(1,2) checkLoadData_loaded [OF s, of iv] unfolding holds_def by blast
qed

lemma plain_settings_same: "plain_settings s \<Longrightarrow> same_settings s t \<Longrightarrow> plain_settings t"
  by (auto simp: plain_settings_def same_settings_def dest: grows_io)

lemma plain_settings_no_failure: "plain_settings s \<Longrightarrow> \<not> unchanged E s es t"
  by (simp add: plain_settings_def unchanged_def)

text \<open>A set of nothing is refused before the store is looked at.\<close>

fun refused :: "request \<Rightarrow> bool" where
  "refused (SetData key data isDataHolder) \<longleftrightarrow> data = [] \<and> \<not> isDataHolder"
| "refused _ \<longleftrightarrow> False"

lemma serve_refused: "refused q \<Longrightarrow> serve E iv q s = (Inr (fst (map_spec q m)), s) \<and> snd (map_spec q m) = m"
  by (cases q) (simp_all add: setDataForKey_def bindC_def returnC_def)

text \<open>Any other request to a store that is not loaded is the request to the loaded one.\<close>

lemma serve_load:
  assumes load: "checkLoadData E iv s = (Inr (), u)" and loaded: "checkLoadData E iv u = (Inr (), u)" and q: "valid_request q" "\<not> refused q"
    and set: "\<not> m_readOnly s" "\<not> m_readOnly u" "\<not> m_enableKeyExpire s" "\<not> m_enableKeyExpire u"
  shows "serve E iv q s = serve E iv q u"
proof (cases q)
  case (SetData key data d)
  then have g: "\<not> ((\<not> d \<and> length data = 0) \<or> key = [])" using q by (auto simp: valid_set_def)
  have "setDataForKey E iv data key d s = setDataForKey E iv data key d u"
    unfolding setDataForKey_def if_not_P [OF g] bindC_def load loaded by simp
  then show ?thesis by (simp add: SetData bindC_def)
next
  case (RemoveKey key)
  then show ?thesis using load loaded set(1,2) q by (simp add: removeValueForKey_def bindC_def valid_set_def)
next
  case (GetData key)
  then show ?thesis using load loaded set by (simp add: getDataForKey_def getRawDataForKey_def bindC_def)
qed

lemma serve_set:
  assumes "env_ok E" and p: "plain_settings s" and s: "store_ok E s hdr es" and v: "valid_set key data isDataHolder"
    and small: "below_4GB es (key, stored_value data isDataHolder)" and ne: "\<not> (data = [] \<and> \<not> isDataHolder)"
  obtains t where "setDataForKey E iv data key isDataHolder s = (Inr True, t)"
    and "is_set E s hdr es (key, stored_value data isDataHolder) t"
proof -
  have "copies_apart s key" using p by (simp add: copies_apart_def plain_settings_def)
  then have "set_outcome E s hdr es (key, stored_value data isDataHolder) (setDataForKey E iv data key isDataHolder s)"
    using assms by (intro setDataForKey_run) (auto simp: plain_settings_def)
  then show thesis using plain_settings_no_failure [OF p] that by (auto simp: set_outcome_def)
qed

text \<open>Every request to a loaded store: the reply and the change of the contents are those of the map, the log
  grows by at most the weight of the request, and it evolves as other processes expect.\<close>

definition served :: "environment \<Rightarrow> request \<Rightarrow> MMKV \<Rightarrow> byte list \<Rightarrow> log_entry list \<Rightarrow> MMKV \<Rightarrow> byte list \<Rightarrow> log_entry list \<Rightarrow> bool" where
  "served E q s hdr es t hdr' es' \<longleftrightarrow> store_ok E t hdr' es' \<and> log_contents es' = snd (map_spec q (log_contents es)) \<and>
     length (enc_log es') \<le> length (enc_log es) + entry_weight q \<and> same_settings s t \<and> evolves E s hdr es t hdr' es'"

lemma served_refl: "store_ok E s hdr es \<Longrightarrow> log_contents es = snd (map_spec q (log_contents es)) \<Longrightarrow> served E q s hdr es s hdr es"
  by (simp add: served_def evolves_refl)

lemma serve_loaded:
  assumes "env_ok E" and p: "plain_settings s" and s: "store_ok E s hdr es" and q: "valid_request q"
    and n: "length (enc_log es) + entry_weight q < 2 ^ 32 - 10"
  shows "\<exists>t hdr' es'. serve E iv q s = (Inr (fst (map_spec q (log_contents es))), t) \<and> served E q s hdr es t hdr' es'"
proof (cases q)
  case (SetData key data d)
  show ?thesis
  proof (cases "refused q")
    case True
    then show ?thesis using serve_refused [OF True, of E iv s "log_contents es"] served_refl [OF s, of q] by metis
  next
    case False
    have small: "below_4GB es (key, stored_value data d)" using n SetData by (simp add: below_4GB_def)
    have v: "valid_set key data d" using q SetData by simp
    have ne: "\<not> (data = [] \<and> \<not> d)" using False SetData by simp
    obtain t where t: "setDataForKey E iv data key d s = (Inr True, t)" "is_set E s hdr es (key, stored_value data d) t"
      by (rule serve_set [OF assms(1) p s v small ne])
    have "m_multiProcess s" using p by (simp add: plain_settings_def)
    with t(2) obtain hdr' es' where "store_ok E t hdr' es'" "log_contents es' = (log_contents es)(key \<mapsto> stored_value data d)"
      "length (enc_log es') \<le> length (enc_log es) + length (enc_entry (key, stored_value data d))" "same_settings s t"
      "evolves E s hdr es t hdr' es'"
      unfolding is_set_def by auto
    then show ?thesis
      using t(1) ne SetData by (intro exI [of _ t] exI [of _ hdr'] exI [of _ es']) (auto simp: served_def bindC_def returnC_def)
  qed
next
  case (RemoveKey key)
  have small: "below_4GB es (key, [])" using n RemoveKey by (simp add: below_4GB_def)
  have v: "valid_set key [] False" using q RemoveKey by simp
  have x: "\<not> m_enableKeyExpire s" using p by (simp add: plain_settings_def)
  show ?thesis
  proof (rule removeValueForKey_run [OF assms(1) s x v small, of iv])
    fix t hdr' es' assume "removeValueForKey E iv key s = (Inr (log_contents es key \<noteq> None), t)" "store_ok E t hdr' es'"
      "log_contents es' = (log_contents es)(key := None)" "same_settings s t"
      "length (enc_log es') \<le> length (enc_log es) + length (enc_entry (key, []))" "evolves E s hdr es t hdr' es'"
    then show ?thesis
      using RemoveKey by (intro exI [of _ t] exI [of _ hdr'] exI [of _ es']) (simp add: served_def bindC_def returnC_def)
  qed (use plain_settings_no_failure [OF p] in blast)
next
  case (GetData key)
  have "getDataForKey E iv key s = (Inr (value_of es key), s)"
    using getRawDataForKey_run [OF s] p by (simp add: getDataForKey_def plain_settings_def)
  then show ?thesis
    using served_refl [OF s, of q] GetData
    by (intro exI [of _ s] exI [of _ hdr] exI [of _ es]) (simp add: bindC_def returnC_def value_of_def)
qed

lemma holds_mono: "holds E iv s m n \<Longrightarrow> n \<le> k \<Longrightarrow> holds E iv s m k"
  unfolding holds_def using le_trans by blast

lemma serve_request:
  assumes h: "holds E iv s m n" and q: "valid_request q" and n: "n + entry_weight q < 2 ^ 32 - 10"
  shows "\<exists>s'. serve E iv q s = (Inr (fst (map_spec q m)), s') \<and> holds E iv s' (snd (map_spec q m)) (n + entry_weight q)"
proof (cases "refused q")
  case True
  then show ?thesis using serve_refused [OF True, of E iv s m] holds_mono [OF h, of "n + entry_weight q"] by simp
next
  case False
  obtain u hdr es where s: "env_ok E" "\<not> m_readOnly s" "\<not> m_enableKeyExpire s" "checkLoadData E iv s = (Inr (), u)"
    "plain_settings u" "store_ok E u hdr es" "log_contents es = m" "length (enc_log es) \<le> n"
    using h by (auto simp: holds_def)
  have ro: "\<not> m_readOnly u" "\<not> m_enableKeyExpire u" using s(5,6) by (simp_all add: store_ok_def log_ok_def plain_settings_def)
  have small: "length (enc_log es) + entry_weight q < 2 ^ 32 - 10" using n s(8) by linarith
  obtain t hdr' es' where t: "serve E iv q u = (Inr (fst (map_spec q m)), t)" "served E q u hdr es t hdr' es'"
    using serve_loaded [OF s(1,5,6) q small, of iv] s(7) by blast
  have "holds E iv t (snd (map_spec q m)) (n + entry_weight q)"
    using t(2) s(7,8) plain_settings_same [OF s(5)] by (intro holdsI [OF s(1)]) (auto simp: served_def)
  then show ?thesis
    using t(1) serve_load [OF s(4) checkLoadData_loaded [OF s(6)] q False s(2) ro(1) s(3) ro(2)] by metis
qed

interpretation plain: server "holds E iv" "serve E iv" map_spec valid_request entry_weight "2 ^ 32 - 10" for E iv
  by unfold_locales (rule serve_request)

section \<open>Sessions\<close>

text \<open>Each session constructs a store on the files that the last one left, loaded or not, and serves its
  requests.\<close>

fun sessions ::
  "environment \<Rightarrow> byte list \<Rightarrow> (nat \<Rightarrow> byte) \<Rightarrow> MMKVConfig \<Rightarrow> request list list \<Rightarrow> byte list \<times> byte list \<Rightarrow>
   cpp_exception + reply list list" where
  "sessions E iv junk config [] files = Inr []"
| "sessions E iv junk config (qs # qss) (disk, metaDisk) =
     (case MMKV_new E iv junk config disk metaDisk [] [] of
        (Inl e, _) \<Rightarrow> Inl e
      | (Inr _, s) \<Rightarrow>
          (case serve_all (serve E iv) qs s of
             (Inl e, _) \<Rightarrow> Inl e
           | (Inr rs, s) \<Rightarrow>
               map_sum id ((#) rs) (sessions E iv junk config qss (f_disk (m_file s), f_disk (m_metaFile s)))))"

fun spec_sessions :: "request list list \<Rightarrow> (byte list \<rightharpoonup> byte list) \<Rightarrow> reply list list" where
  "spec_sessions [] m = []"
| "spec_sessions (qs # qss) m = (let (rs, m) = spec_all map_spec qs m in rs # spec_sessions qss m)"

lemma sessions_run:
  assumes E: "env_ok E" "env_files E"
    and c: "\<not> isReadOnly config" "isMultiProcess config" "enableKeyExpire config = None" "\<not> compareBeforeSet config" "itemSizeLimit config = 0"
    and "disk_state E disk metaDisk hdr es" and "\<not> hasFlag EnableKeyExipre (meta_read metaDisk)"
    and "\<forall>qs \<in> set qss. \<forall>q \<in> set qs. valid_request q"
    and "length (enc_log es) \<le> n" and "n + sum_list (map (\<lambda>qs. sum_list (map entry_weight qs)) qss) < 2 ^ 32 - 10"
  shows "sessions E iv junk config qss (disk, metaDisk) = Inr (spec_sessions qss (log_contents es))"
  using assms(8-12)
proof (induction qss arbitrary: disk metaDisk hdr es n)
  case (Cons qs qss)
  obtain t u where t: "MMKV_new E iv junk config disk metaDisk [] [] = (Inr (), t)" "checkLoadData E iv t = (Inr (), u)"
    "store_ok E u hdr es" "opened E config metaDisk u" "\<not> m_readOnly t" "\<not> m_enableKeyExpire t"
    "disk_state E (f_disk (m_file t)) (f_disk (m_metaFile t)) hdr es"
    "hasFlag EnableKeyExipre (meta_read (f_disk (m_metaFile t))) = hasFlag EnableKeyExipre (meta_read metaDisk)"
    using open_run [OF E(2) c(1,3) Cons.prems(1), of iv junk] by blast
  have "plain_settings u" using t(4) c Cons.prems(2) by (simp add: opened_def plain_settings_def)
  then have h: "holds E iv t (log_contents es) n"
    using E(1) t Cons.prems(2,4) unfolding holds_def by blast
  have v: "\<forall>q \<in> set qs. valid_request q" and w: "n + sum_list (map entry_weight qs) < 2 ^ 32 - 10"
    using Cons.prems(3,5) by simp_all
  obtain s where s: "serve_all (serve E iv) qs t = (Inr (fst (spec_all map_spec qs (log_contents es))), s)"
    "holds E iv s (snd (spec_all map_spec qs (log_contents es))) (n + sum_list (map entry_weight qs))"
    using plain.served_all [OF h v w] by blast
  then obtain hdr' es' where d: "disk_state E (f_disk (m_file s)) (f_disk (m_metaFile s)) hdr' es'"
    "\<not> hasFlag EnableKeyExipre (meta_read (f_disk (m_metaFile s)))" "log_contents es' = snd (spec_all map_spec qs (log_contents es))"
    "length (enc_log es') \<le> n + sum_list (map entry_weight qs)"
    by (auto simp: holds_def)
  have "sessions E iv junk config qss (f_disk (m_file s), f_disk (m_metaFile s)) = Inr (spec_sessions qss (log_contents es'))"
    by (rule Cons.IH [OF d(1,2) _ d(4)]) (use Cons.prems(3,5) in simp_all)
  then show ?case by (simp add: t(1) s(1) d(3) split_def Let_def)
qed simp

end
