(* ===== verification/MMKV_Shared.thy ===== *)
theory MMKV_Shared
  imports MMKV_Requests
begin

text \<open>
  Several processes on the same files (\<open>checkLoadData\<close>, \<open>partialLoadFromFile\<close>, \<open>clearMemoryCache\<close> of
  \<open>MMKV_IO.cpp\<close> and \<open>MMKV.cpp\<close>). A process keeps its own dictionary, size, checksum and meta information while
  others write; \<open>attach\<close> puts the current bytes of the two files under its mappings. A process is \<open>behind\<close> when
  others only appended to the log it knows; it is stale when the log was rewritten, which the sequence number of
  the meta file shows. \<open>moved\<close> is what a request of another process may do to the files (the rely condition): it
  appends within a generation or starts a later one. \<open>client_ok\<close> is stable under it, and \<open>checkLoadData\<close> brings
  every such process up to date: it reads what was appended, or loads the file anew. \<open>interleaved\<close> runs the
  requests of any number of processes in any order.
\<close>

unbundle bit_operations_syntax

section \<open>Loading what another process wrote\<close>

text \<open>Mapping a file again.\<close>

lemma reload_same:
  assumes "0 < page" and "g = reloadFromFile page cap f" and io: "f_io f = []" and ro: "\<not> f_readOnly f"
    and "max page (roundUp cap page) \<le> length (f_disk f)" and "length (f_disk f) mod page = 0"
  shows "isFileValid g" and "f_io g = []" and "\<not> f_readOnly g" and "f_size g = length (f_disk g)" and "f_disk g = f_disk f"
proof -
  obtain h where hd: "h = (if isFileValid f then doCleanMemoryCache f else f)" by blast
  have h: "f_io h = []" "\<not> f_readOnly h" "f_disk h = f_disk f"
    using io ro doCleanMemoryCache_invalid(3,4) [of f] unfolding hd by (auto simp: doCleanMemoryCache_def File_close_def answer_def)
  have "fst (openIfNeeded h)" "f_io (snd (openIfNeeded h)) = []"
    using h(1) by (simp_all add: openIfNeeded_def File_open_def answer_def)
  then obtain k where k: "openIfNeeded h = (True, k)" "f_io k = []" by (cases "openIfNeeded h") simp
  note same = openIfNeeded_same [OF k(1)]
  let ?m = "k\<lparr>f_size := length (f_disk k)\<rparr>"
  have kd: "f_disk k = f_disk f" "\<not> f_readOnly k" "f_fd k" using same h by (simp_all add: same_file_def)
  have "\<not> (length (f_disk f) < max page (roundUp cap page) \<or> length (f_disk f) mod page \<noteq> 0)"
    using leD [OF assms(5)] assms(6) by blast
  then have g: "g = snd (mmapOrCleanup ?m)"
    unfolding assms(2) reloadFromFile_def Let_def hd [symmetric] k(1) prod.case using kd by simp
  have "0 < length (f_disk f)" using assms(1,5) by linarith
  then show "isFileValid g" "f_io g = []" "\<not> f_readOnly g" "f_size g = length (f_disk g)" "f_disk g = f_disk f"
    using k(2) kd unfolding g
    by (auto simp: mmapOrCleanup_def cleanMayflyFD_def File_close_def answer_def isFileValid_def Let_def)
qed

text \<open>A store whose own mapping is out of date, or gone, on files that hold a log.\<close>

definition outdated :: "environment \<Rightarrow> MMKV \<Rightarrow> byte list \<Rightarrow> log_entry list \<Rightarrow> bool" where
  "outdated E s hdr es \<longleftrightarrow> isFileValid (m_metaFile s) \<and> \<not> f_readOnly (m_metaFile s) \<and> file_ok (m_metaFile s) \<and>
     112 \<le> f_size (m_metaFile s) \<and> f_io (m_metaFile s) = [] \<and> f_io (m_file s) = [] \<and> \<not> f_readOnly (m_file s) \<and> \<not> m_readOnly s \<and>
     m_multiProcess s \<and> (m_isSecondLoad s \<or> isFileValid (m_file s)) \<and>
     disk_holds E (f_disk (m_file s)) (f_disk (m_metaFile s)) hdr es \<and> hdr \<noteq> [] \<and>
     max (page_size E) (roundUp (m_expectedCapacity s) (page_size E)) \<le> length (f_disk (m_file s)) \<and>
     length (f_disk (m_file s)) mod page_size E = 0 \<and>
     (debug_build E \<longrightarrow> \<not> isFileValid (m_file s) \<or> f_size (m_file s) = length (f_disk (m_file s)))"

lemma read_meta_disk: "112 \<le> f_size (m_metaFile s) \<Longrightarrow> read_meta s = meta_read (f_disk (m_metaFile s))"
  by (simp add: read_meta_def f_memory_def meta_read_take)

text \<open>The first part of a load of a store whose own mapping is out of date, or gone: the meta information is read and
  the file is mapped anew if need be.\<close>

definition unloaded :: "environment \<Rightarrow> MMKV \<Rightarrow> bool" where
  "unloaded E s \<longleftrightarrow> isFileValid (m_metaFile s) \<and> \<not> f_readOnly (m_metaFile s) \<and> file_ok (m_metaFile s) \<and>
     112 \<le> f_size (m_metaFile s) \<and> f_io (m_metaFile s) = [] \<and> f_io (m_file s) = [] \<and> \<not> f_readOnly (m_file s) \<and> \<not> m_readOnly s \<and>
     (m_isSecondLoad s \<or> isFileValid (m_file s)) \<and>
     (m_multiProcess s \<or> \<not> isFileValid (m_file s) \<or> f_size (m_file s) = length (f_disk (m_file s))) \<and>
     meta_ok (read_meta s) \<and> MMKVVersionFlag \<le> mi_version (read_meta s) \<and> mi_version (read_meta s) < MMKVVersionHolder \<and>
     max (page_size E) (roundUp (m_expectedCapacity s) (page_size E)) \<le> length (f_disk (m_file s)) \<and>
     length (f_disk (m_file s)) mod page_size E = 0 \<and>
     (debug_build E \<longrightarrow> \<not> isFileValid (m_file s) \<or> f_size (m_file s) = length (f_disk (m_file s)))"

definition with_files :: "MMKV \<Rightarrow> MemoryFile \<Rightarrow> MemoryFile \<Rightarrow> MMKV" where
  "with_files s f g = s\<lparr>m_isSecondLoad := True, m_metaFile := g, m_file := f, m_metaInfo := read_meta s,
     m_enableKeyExpire := hasFlag EnableKeyExipre (read_meta s),
     m_enableCompareBeforeSet := m_enableCompareBeforeSet s \<and> \<not> hasFlag EnableKeyExipre (read_meta s)\<rparr>"

lemma meta_checked:
  assumes h: "isFileValid (m_metaFile s)" "f_io (m_metaFile s) = []" "f_io (m_file s) = []" "\<not> m_readOnly s"
      "m_isSecondLoad s \<or> isFileValid (m_file s)"
    and d: "MMKVVersionFlag \<le> mi_version (read_meta s)" "mi_version (read_meta s) < MMKVVersionHolder"
  shows "\<exists>f g. loadMetaInfoAndCheck E s = (Inr (), with_files s f g) \<and> same_file (m_file s) f \<and> f_io f = [] \<and>
    isFileValid f = isFileValid (m_file s) \<and> same_valid_file (m_metaFile s) g"
proof -
  obtain f g where c: "checkFileHasDiskError E s = s\<lparr>m_isSecondLoad := True, m_metaFile := g, m_file := f\<rparr>"
    and f: "same_file (m_file s) f" "f_io f = []" "isFileValid f = isFileValid (m_file s)" and g: "same_valid_file (m_metaFile s) g"
  proof (cases "m_isSecondLoad s")
    case True
    then have "checkFileHasDiskError E s = s\<lparr>m_isSecondLoad := True, m_metaFile := m_metaFile s, m_file := m_file s\<rparr>"
      by (simp add: checkFileHasDiskError_def)
    then show thesis using h(1-3) by (intro that [of "m_file s" "m_metaFile s"]) (simp_all add: same_valid_file_def)
  next
    case False
    then have "isFileValid (m_file s)" using h(5) by simp
    with checkFileHasDiskError_ok [OF this h(1,3,2)] show thesis
      using that unfolding same_valid_file_def by blast
  qed
  note gs = same_valid_fileD [OF g]
  let ?s1 = "s\<lparr>m_isSecondLoad := True, m_metaFile := g, m_file := f\<rparr>"
  have r: "read_meta ?s1 = read_meta s" using gs(8) by (simp add: read_meta_def)
  have m: "loadMetaInfoAndCheck E s = (Inr (), with_files s f g)"
    using loadMetaInfoAndCheck_flags [OF h(1) c] gs(6) h(4) d r by (simp add: with_files_def)
  then show ?thesis using f g by blast
qed

lemma load_prepares:
  assumes "0 < page_size E" and s: "unloaded E s"
  shows "\<exists>f f' g. loadMetaInfoAndCheck E s = (Inr (), with_files s f g) \<and>
    map_again E (with_files s f g) = (Inr (), with_files s f' g) \<and>
    same_valid_file (m_metaFile s) g \<and> isFileValid f' \<and> f_io f' = [] \<and> \<not> f_readOnly f' \<and> f_size f' = length (f_disk f') \<and>
    f_disk f' = f_disk (m_file s) \<and> meta_ready (with_files s f' g)"
proof -
  have h: "isFileValid (m_metaFile s)" "\<not> f_readOnly (m_metaFile s)" "file_ok (m_metaFile s)" "112 \<le> f_size (m_metaFile s)"
    "f_io (m_metaFile s) = []" "f_io (m_file s) = []" "\<not> f_readOnly (m_file s)" "\<not> m_readOnly s"
    "m_isSecondLoad s \<or> isFileValid (m_file s)"
    "m_multiProcess s \<or> \<not> isFileValid (m_file s) \<or> f_size (m_file s) = length (f_disk (m_file s))"
    "max (page_size E) (roundUp (m_expectedCapacity s) (page_size E)) \<le> length (f_disk (m_file s))"
    "length (f_disk (m_file s)) mod page_size E = 0"
    "debug_build E \<Longrightarrow> \<not> isFileValid (m_file s) \<or> f_size (m_file s) = length (f_disk (m_file s))"
    and d: "meta_ok (read_meta s)" "MMKVVersionFlag \<le> mi_version (read_meta s)" "mi_version (read_meta s) < MMKVVersionHolder"
    using s by (auto simp: unloaded_def)
  obtain f g where m: "loadMetaInfoAndCheck E s = (Inr (), with_files s f g)"
    and f: "same_file (m_file s) f" "f_io f = []" "isFileValid f = isFileValid (m_file s)" and g: "same_valid_file (m_metaFile s) g"
    using meta_checked [OF h(1,5,6,8,9) d(2,3)] by blast
  note gs = same_valid_fileD [OF g]
  have fd: "f_disk f = f_disk (m_file s)" "f_readOnly f = f_readOnly (m_file s)" "f_size f = f_size (m_file s)"
    using f(1) by (simp_all add: same_file_def)
  obtain f' where f': "f' = (if \<not> isFileValid f \<or> (m_multiProcess s \<and> getActualFileSize f \<noteq> getFileSize f)
      then reloadFromFile (page_size E) (m_expectedCapacity s) f else f)" by blast
  have v: "isFileValid f' \<and> f_io f' = [] \<and> \<not> f_readOnly f' \<and> f_size f' = length (f_disk f') \<and> f_disk f' = f_disk (m_file s)"
  proof (cases "isFileValid f \<and> getActualFileSize f = getFileSize f")
    case True
    then have "f' = f" "f_size f = length (f_disk f)"
      by (auto simp: f' getActualFileSize_def getFileSize_def isFileValid_def)
    then show ?thesis using True f(2) fd h(7) by simp
  next
    case False
    have "getActualFileSize f = getFileSize f" if "isFileValid f" "f_size f = length (f_disk f)"
      using that by (simp add: getActualFileSize_def getFileSize_def isFileValid_def)
    with False h(10) have "\<not> isFileValid f \<or> (m_multiProcess s \<and> getActualFileSize f \<noteq> getFileSize f)"
      unfolding f(3) [symmetric] fd [symmetric] by blast
    then have "f' = reloadFromFile (page_size E) (m_expectedCapacity s) f" unfolding f' by (rule if_P)
    from reload_same [OF assms(1) this f(2)] show ?thesis using fd h(7,11,12) by simp
  qed
  have "meta_ready (with_files s f' g)" using h gs d by (simp add: meta_ready_def read_meta_def file_ok_def with_files_def)
  moreover have "map_again E (with_files s f g) = (Inr (), with_files s f' g)"
  proof -
    have "getActualFileSize f = getFileSize f" if "isFileValid f" "debug_build E"
      using h(13) that unfolding f(3) [symmetric] fd [symmetric] by (auto simp: getActualFileSize_def getFileSize_def isFileValid_def)
    then have "\<not> debug_build E \<or> \<not> isFileValid (m_file (with_files s f g)) \<or>
        getActualFileSize (m_file (with_files s f g)) = getFileSize (m_file (with_files s f g))" by (auto simp: with_files_def)
    from map_again_run [OF this] show ?thesis by (simp add: f' with_files_def)
  qed
  ultimately show ?thesis using m v g by blast
qed

lemma load_outdated:
  assumes "0 < page_size E" and s: "outdated E s hdr es"
  shows "\<exists>t. loadFromFile (Suc n) E iv s = (Inr (), t) \<and> store_ok E t hdr es \<and> loaded_settings s t"
proof -
  have h: "112 \<le> f_size (m_metaFile s)" "\<not> m_readOnly s" "m_multiProcess s"
    "disk_holds E (f_disk (m_file s)) (f_disk (m_metaFile s)) hdr es" "hdr \<noteq> []"
    using s by (auto simp: outdated_def)
  have d: "4 + length hdr + length (enc_log es) \<le> length (f_disk (m_file s))" "header hdr es" "in_range (length hdr) es"
    "mem_read (f_disk (m_file s)) 4 (length hdr + length (enc_log es)) = hdr @ enc_log es"
    "meta_ok (read_meta s)" "MMKVVersionFlag \<le> mi_version (read_meta s)" "mi_version (read_meta s) < MMKVVersionHolder"
    "mi_crcDigest (read_meta s) = crc32 E 0 (hdr @ enc_log es)" "mi_actualSize (read_meta s) = word_of_nat (length (hdr @ enc_log es))"
    using h(4) unfolding read_meta_disk [OF h(1)] by (simp_all add: disk_holds_def Let_def)
  have "unloaded E s" using s d(5-7) by (auto simp: outdated_def unloaded_def)
  from load_prepares [OF assms(1) this] obtain f f' g where m: "loadMetaInfoAndCheck E s = (Inr (), with_files s f g)"
    and t: "map_again E (with_files s f g) = (Inr (), with_files s f' g)"
    and v: "same_valid_file (m_metaFile s) g" "isFileValid f'" "f_io f' = []" "\<not> f_readOnly f'" "f_size f' = length (f_disk f')"
      "f_disk f' = f_disk (m_file s)" "meta_ready (with_files s f' g)" by blast
  note gs = same_valid_fileD [OF v(1)]
  let ?t = "with_files s f' g"
  have fl: "file_log ?t hdr es" using d(1-4) v by (simp add: file_log_def isFileValid_def with_files_def)
  have "\<exists>out. loadFromFile (Suc n) E iv s = (Inr (), ?t\<lparr>m_actualSize := length (hdr @ enc_log es),
      m_crcDigest := crc32 E 0 (hdr @ enc_log es), m_dic := dic_of (length hdr) es, m_output := out, m_needLoadFromFile := False\<rparr>) \<and>
    store_ok E (?t\<lparr>m_actualSize := length (hdr @ enc_log es),
      m_crcDigest := crc32 E 0 (hdr @ enc_log es), m_dic := dic_of (length hdr) es, m_output := out, m_needLoadFromFile := False\<rparr>) hdr es"
    by (rule load_log [OF m t _ fl _ v(7) _ _ h(5)]) (use v h(2) d(8,9) in \<open>simp_all add: with_files_def\<close>)
  then show ?thesis using v gs by (auto simp: loaded_settings_def with_files_def simp del: loadFromFile.simps)
qed

section \<open>Reading what another process appended\<close>

text \<open>A process on files whose contents others have changed: the files are mapped, so it sees the change.\<close>

definition attach :: "byte list \<times> byte list \<Rightarrow> MMKV \<Rightarrow> MMKV" where
  "attach files s = s\<lparr>m_file := (m_file s)\<lparr>f_disk := fst files\<rparr>, m_metaFile := (m_metaFile s)\<lparr>f_disk := snd files\<rparr>\<rparr>"

lemma attach_sel [simp]:
  "m_file (attach files s) = (m_file s)\<lparr>f_disk := fst files\<rparr>"
  "m_metaFile (attach files s) = (m_metaFile s)\<lparr>f_disk := snd files\<rparr>"
  "m_metaInfo (attach files s) = m_metaInfo s" "m_output (attach files s) = m_output s" "m_dic (attach files s) = m_dic s"
  "m_actualSize (attach files s) = m_actualSize s" "m_crcDigest (attach files s) = m_crcDigest s"
  "m_needLoadFromFile (attach files s) = m_needLoadFromFile s" "m_multiProcess (attach files s) = m_multiProcess s"
  "m_readOnly (attach files s) = m_readOnly s" "m_isSecondLoad (attach files s) = m_isSecondLoad s"
  "m_expectedCapacity (attach files s) = m_expectedCapacity s" "m_itemSizeLimit (attach files s) = m_itemSizeLimit s"
  "m_enableKeyExpire (attach files s) = m_enableKeyExpire s"
  "m_enableCompareBeforeSet (attach files s) = m_enableCompareBeforeSet s"
  by (simp_all add: attach_def)

lemma attach_attach [simp]: "attach files (attach old s) = attach files s"
  by (simp add: attach_def)

lemma attach_own [simp]: "attach (f_disk (m_file s), f_disk (m_metaFile s)) s = s"
  by (simp add: attach_def)

lemma isFileValid_disk [simp]: "isFileValid (f\<lparr>f_disk := d\<rparr>) = isFileValid f"
  by (simp add: isFileValid_def)

lemma enc_entry_not_Nil: "enc_entry kv \<noteq> []"
  using length_varint_gt_0 [of "unat (word_of_nat (length (fst kv)) :: u32)"]
  by (cases kv) (auto simp: enc_entry_def enc_data_def)

lemma enc_log_Nil: "enc_log es = [] \<longleftrightarrow> es = []"
  by (cases es) (simp_all add: enc_entry_not_Nil)

lemma run_steps_append_log:
  "run_steps enc_entry holder_step pos (es @ new) d =
   run_steps enc_entry holder_step (pos + length (enc_log es)) new (run_steps enc_entry holder_step pos es d)"
  by (induction es arbitrary: pos d) (simp_all add: add.assoc)

lemma in_range_appended: "in_range pos (es @ new) \<Longrightarrow> in_range pos es \<and> in_range (pos + length (enc_log es)) new"
  by (auto simp: in_range_def)

text \<open>What a process may find when it comes back: the files were in a good state for it when it left them, and
  since then entries were appended to the log, under meta information of the same generation.\<close>

definition behind :: "environment \<Rightarrow> MMKV \<Rightarrow> byte list \<times> byte list \<Rightarrow> byte list \<Rightarrow> log_entry list \<Rightarrow> log_entry list \<Rightarrow> bool" where
  "behind E p files hdr es new \<longleftrightarrow> (\<exists>old. store_ok E (attach old p) hdr es) \<and> m_multiProcess p \<and> disk_holds E (fst files) (snd files) hdr (es @ new) \<and>
     f_size (m_file p) = length (fst files) \<and> f_size (m_metaFile p) \<le> length (snd files) \<and>
     same_generation (m_metaInfo p) (meta_read (snd files))"

lemma behindD:
  assumes "behind E p files hdr es new"
  shows "read_meta (attach files p) = meta_read (snd files)"
    and "file_log (attach files p) hdr (es @ new)" and "isFileValid (m_file p)"
    and "meta_ready ((attach files p)\<lparr>m_metaInfo := meta_read (snd files)\<rparr>)"
    and "mi_crcDigest (meta_read (snd files)) = crc32 E 0 (hdr @ enc_log (es @ new))"
    and "mi_actualSize (meta_read (snd files)) = word_of_nat (length (hdr @ enc_log (es @ new)))"
    and "writable (m_actualSize p) (attach files p)" and "hdr = [] \<Longrightarrow> new = []"
    and "m_actualSize p = length hdr + length (enc_log es)" and "m_crcDigest p = crc32 E 0 (hdr @ enc_log es)"
    and "m_dic p = dic_of (length hdr) es" and "\<not> m_readOnly p" and "\<not> m_needLoadFromFile p"
    and "mi_crcDigest (m_metaInfo p) = crc32 E 0 (hdr @ enc_log es)"
    and "mi_actualSize (m_metaInfo p) = word_of_nat (length (hdr @ enc_log es))"
proof -
  have b: "m_multiProcess p" "disk_holds E (fst files) (snd files) hdr (es @ new)"
    "f_size (m_file p) = length (fst files)" "f_size (m_metaFile p) \<le> length (snd files)"
    "same_generation (m_metaInfo p) (meta_read (snd files))"
    using assms by (simp_all add: behind_def)
  obtain old where s: "store_ok E (attach old p) hdr es" using assms by (auto simp: behind_def)
  then have p: "isFileValid (m_file p)" "\<not> f_readOnly (m_file p)" "writable (m_actualSize p) (attach old p)"
    "isFileValid (m_metaFile p)" "\<not> f_readOnly (m_metaFile p)" "112 \<le> f_size (m_metaFile p)"
    "m_enableKeyExpire p = hasFlag EnableKeyExipre (m_metaInfo p)"
    by (auto simp: store_ok_def log_ok_def file_log_def meta_current_def meta_ready_def)
  show rm: "read_meta (attach files p) = meta_read (snd files)" using p(6) by (simp add: read_meta_disk)
  show "isFileValid (m_file p)" by (rule p(1))
  show "file_log (attach files p) hdr (es @ new)" using p(1,2) b(2,3) by (simp add: file_log_def disk_holds_def isFileValid_def)
  have fl: "mi_flags (meta_read (snd files)) = mi_flags (m_metaInfo p)"
    using b(5) by (cases "m_metaInfo p"; cases "meta_read (snd files)") (simp add: same_generation_def)
  show "meta_ready ((attach files p)\<lparr>m_metaInfo := meta_read (snd files)\<rparr>)"
    using rm p(4-7) b(2,4) fl by (simp add: meta_ready_def read_meta_def file_ok_def disk_holds_def Let_def hasFlag_def)
  show "mi_crcDigest (meta_read (snd files)) = crc32 E 0 (hdr @ enc_log (es @ new))"
    "mi_actualSize (meta_read (snd files)) = word_of_nat (length (hdr @ enc_log (es @ new)))"
    using b(2) by (simp_all add: disk_holds_def Let_def)
  show "writable (m_actualSize p) (attach files p)" using p(3) b(3) by (simp add: writable_def)
  show "hdr = [] \<Longrightarrow> new = []" using b(2) by (auto simp: disk_holds_def header_def)
  show "m_actualSize p = length hdr + length (enc_log es)" "m_crcDigest p = crc32 E 0 (hdr @ enc_log es)" "m_dic p = dic_of (length hdr) es"
    "\<not> m_readOnly p" "\<not> m_needLoadFromFile p"
    "mi_crcDigest (m_metaInfo p) = crc32 E 0 (hdr @ enc_log es)" "mi_actualSize (m_metaInfo p) = word_of_nat (length (hdr @ enc_log es))"
    using s by (simp_all add: store_ok_def log_ok_def meta_current_def)
qed

lemma partialLoad_run:
  assumes "crc_append E" and b: "behind E p files hdr es new" and "new \<noteq> []"
  shows "\<exists>out. let u = (attach files p)\<lparr>m_metaInfo := meta_read (snd files), m_actualSize := length (hdr @ enc_log (es @ new)),
        m_crcDigest := crc32 E 0 (hdr @ enc_log (es @ new)), m_dic := dic_of (length hdr) (es @ new), m_output := Some out,
        m_hasFullWriteback := False\<rparr>
    in partialLoadFromFile_body E load (attach files p) = (Inr (), u) \<and> store_ok E u hdr (es @ new)"
proof -
  note f = behindD [OF b]
  let ?a = "attach files p" and ?mi = "meta_read (snd files)" and ?n = "length (hdr @ enc_log (es @ new))" and ?o = "length hdr + length (enc_log es)"
  note p = f(9-13)
  let ?s1 = "?a\<lparr>m_metaInfo := ?mi\<rparr>" and ?s2 = "?a\<lparr>m_metaInfo := ?mi, m_actualSize := ?n\<rparr>"
  have l: "f_ptr (m_file p)" "4 + ?n \<le> f_size (m_file p)" "f_size (m_file p) \<le> length (fst files)" "in_range (length hdr) (es @ new)"
    "mem_read (fst files) 4 ?n = (hdr @ enc_log es) @ enc_log new" "\<not> f_readOnly (m_file p)" "header hdr (es @ new)"
    using f(2) by (auto simp: file_log_def)
  have lt: "?n < 2 ^ 32" using l(4) by (simp add: in_range_def)
  have added: "?n - ?o = length (enc_log new)" "?o < ?n" "0 < ?o"
    using assms(3) enc_log_Nil [of new] f(8) by auto
  have v: "MMKVVersionActualSize \<le> mi_version ?mi" using f(4) version_order(5) by (auto simp: meta_ready_def)
  have n: "readActualSize ?s1 = (Inr ?n, ?s1)"
    using v unat_word_of_nat_u32 [OF lt] unfolding readActualSize_def f(6) [symmetric] by simp
  have parts: "mem_read (fst files) (4 + ?o) (length (enc_log new)) = enc_log new"
    using mem_read_parts(2) [of "fst files" 4 "hdr @ enc_log es" "enc_log new"] l(5) by simp
  have rd: "memory_read (4 + ?o) (unat (word_of_nat (?n - ?o) :: u32)) ?s2 = (Inr (enc_log new), ?s2)"
    using memory_read_run [of ?s2 "4 + ?o" "length (enc_log new)"] l(1,2) lt parts added(1)
    by (simp add: unat_word_of_nat_u32)
  have crc: "crc32 E (m_crcDigest p) (enc_log new) = crc32 E 0 (hdr @ enc_log (es @ new))"
    using assms(1) p(2) by (simp add: crc_append_def)
  let ?s3 = "?s2\<lparr>m_crcDigest := crc32 E 0 (hdr @ enc_log (es @ new))\<rparr>"
  have rall: "memory_read 4 ?n ?s3 = (Inr ((hdr @ enc_log es) @ enc_log new), ?s3)"
    using memory_read_run [of ?s3 4 ?n] l(1,2,5) by simp
  have val: "\<forall>kv \<in> set new. valid_entry kv" using in_range_valid in_range_appended [OF l(4)] by blast
  have dec: "greedyDecodeMap (m_dic p) ((hdr @ enc_log es) @ enc_log new) ?o = Some (Inr (dic_of (length hdr) (es @ new)))"
    using decodeMap_block_seek [OF added(3) _ val, of "hdr @ enc_log es" "dic_of (length hdr) es"]
    by (simp add: greedyDecodeMap_def decodeOneMap_def catch_greedy_def p(3) run_steps_append_log)
  let ?s4 = "?s3\<lparr>m_dic := dic_of (length hdr) (es @ new)\<rparr>"
  have d: "decode_into_dic greedyDecodeMap ?o ?s3 = (Inr (), ?s4)"
    unfolding decode_into_dic_def bindC_def using rall dec by simp
  obtain out where out: "m_output p = Some out" "out_ptr out = 4" "out_size out + 4 = f_size (m_file p)" "out_position out = ?o"
    using f(7) by (auto simp: p(1) elim!: writableE)
  let ?out = "out\<lparr>out_position := ?n\<rparr>"
  have m: "move_output (seekOut (length (enc_log new))) ?s4 = (Inr (), ?s4\<lparr>m_output := Some ?out\<rparr>)"
    using out l(2) by (simp add: move_output_def seekOut_def)
  let ?u = "?s4\<lparr>m_output := Some ?out, m_hasFullWriteback := False\<rparr>"
  have "partialLoadFromFile_body E load ?a = (Inr (), ?u)"
    unfolding partialLoadFromFile_body_def Let_def bindC_def f(1) n
    using f(3,5) n rd crc d m added l(2) p(1)
    by (simp add: size_in_file_def getFileSize_def isFileValid_def returnC_def)
  moreover have "store_ok E ?u hdr (es @ new)"
  proof -
    have "log_ok ?u hdr (es @ new)"
      using f(2,3) p(4,5) l out by (simp add: log_ok_def file_log_def writable_def isFileValid_def)
    moreover have "meta_current E ?u (hdr @ enc_log (es @ new))"
      using f(4-6) by (simp add: meta_current_def meta_ready_def read_meta_def)
    ultimately show ?thesis by (simp add: store_ok_def)
  qed
  ultimately show ?thesis by (intro exI [of _ ?out]) (simp add: Let_def)
qed

section \<open>What a process relies on\<close>

abbreviation sequence_of :: "byte list \<times> byte list \<Rightarrow> nat" where
  "sequence_of files \<equiv> unat (mi_sequence (meta_read (snd files)))"

definition mapped_size :: "environment \<Rightarrow> nat \<Rightarrow> nat" where
  "mapped_size E capacity = max (page_size E) (roundUp capacity (page_size E))"

text \<open>Files that need not be extended when they are mapped.\<close>

definition sized :: "environment \<Rightarrow> MMKVConfig \<Rightarrow> byte list \<times> byte list \<Rightarrow> bool" where
  "sized E config files \<longleftrightarrow>
     mapped_size E (mapped_size E (expectedCapacity config)) \<le> length (fst files) \<and> length (fst files) mod page_size E = 0 \<and>
     mapped_size E 0 \<le> length (snd files) \<and> length (snd files) mod page_size E = 0"

definition shared_settings :: "environment \<Rightarrow> MMKVConfig \<Rightarrow> byte list \<times> byte list \<Rightarrow> MMKV \<Rightarrow> bool" where
  "shared_settings E config files p \<longleftrightarrow> plain_settings p \<and> \<not> m_readOnly p \<and> f_io (m_metaFile p) = [] \<and>
     m_expectedCapacity p = mapped_size E (expectedCapacity config) \<and> \<not> f_readOnly (m_file p) \<and>
     isFileValid (m_metaFile p) \<and> \<not> f_readOnly (m_metaFile p) \<and> f_size (m_metaFile p) = length (snd files)"

text \<open>The state of a process that comes back: not loaded yet, or behind, or everything was rewritten.\<close>

definition client_ok :: "environment \<Rightarrow> MMKVConfig \<Rightarrow> byte list \<times> byte list \<Rightarrow> byte list \<Rightarrow> log_entry list \<Rightarrow> MMKV \<Rightarrow> bool" where
  "client_ok E config files hdr es p \<longleftrightarrow> shared_settings E config files p \<and>
     (if m_needLoadFromFile p
      then m_dic p = Map.empty \<and> isFileValid (m_file p) \<and> (hdr = [] \<longrightarrow> f_size (m_file p) = length (fst files))
      else m_isSecondLoad p \<and>
        ((\<exists>es0 new. es = es0 @ new \<and> behind E p files hdr es0 new) \<or>
         (hdr \<noteq> [] \<and> unat (mi_sequence (m_metaInfo p)) < sequence_of files)))"

definition files_ok :: "environment \<Rightarrow> byte list \<times> byte list \<Rightarrow> byte list \<Rightarrow> log_entry list \<Rightarrow> bool" where
  "files_ok E files hdr es \<longleftrightarrow> disk_state E (fst files) (snd files) hdr es \<and> \<not> hasFlag EnableKeyExipre (meta_read (snd files))"

lemma files_ok_holds: "files_ok E files hdr es \<Longrightarrow> hdr \<noteq> [] \<Longrightarrow> disk_holds E (fst files) (snd files) hdr es"
  by (auto simp: files_ok_def disk_state_def)

lemma attach_settings [simp]:
  "plain_settings (attach files p) = plain_settings p"
  "shared_settings E config files (attach old p) = shared_settings E config files p"
  by (simp_all add: plain_settings_def shared_settings_def)

lemma client_ok_attach [simp]: "client_ok E config files hdr es (attach old p) = client_ok E config files hdr es p"
  by (simp add: client_ok_def behind_def)

text \<open>What one step may do to the files.\<close>

definition moved ::
  "environment \<Rightarrow> byte list \<times> byte list \<Rightarrow> byte list \<Rightarrow> log_entry list \<Rightarrow> byte list \<times> byte list \<Rightarrow> byte list \<Rightarrow> log_entry list \<Rightarrow> bool" where
  "moved E files hdr es files' hdr' es' \<longleftrightarrow> files_ok E files hdr es \<and> disk_holds E (fst files') (snd files') hdr' es' \<and>
     length (snd files') = length (snd files) \<and>
     ((hdr' = hdr \<and> (\<exists>new. es' = es @ new) \<and> length (fst files') = length (fst files) \<and>
       (disk_holds E (fst files) (snd files) hdr es \<longrightarrow> same_generation (meta_read (snd files)) (meta_read (snd files')))) \<or>
      (hdr' \<noteq> [] \<and> sequence_of files' = sequence_of files + 1))"

text \<open>A process at rest stays in a state it can go on from, whatever step another process takes.\<close>

lemma client_ok_moved:
  assumes p: "client_ok E config files hdr es p" and m: "moved E files hdr es files' hdr' es'"
  shows "client_ok E config files' hdr' es' p"
proof -
  have f: "files_ok E files hdr es" "disk_holds E (fst files') (snd files') hdr' es'" "length (snd files') = length (snd files)"
    using m by (simp_all add: moved_def)
  have s: "shared_settings E config files' p" using p f(3) by (simp add: client_ok_def shared_settings_def)
  consider (same) new where "hdr' = hdr" "es' = es @ new" "length (fst files') = length (fst files)"
      "disk_holds E (fst files) (snd files) hdr es \<Longrightarrow> same_generation (meta_read (snd files)) (meta_read (snd files'))"
    | (anew) "hdr' \<noteq> []" "sequence_of files' = sequence_of files + 1"
    using m by (auto simp: moved_def)
  then show ?thesis
  proof cases
    case same
    have "(\<exists>es0 new. es' = es0 @ new \<and> behind E p files' hdr' es0 new) \<or>
        (hdr' \<noteq> [] \<and> unat (mi_sequence (m_metaInfo p)) < sequence_of files')"
      if "\<not> m_needLoadFromFile p"
    proof -
      from p that consider (behind) es0 n where "es = es0 @ n" "behind E p files hdr es0 n"
        | (stale) "hdr \<noteq> []" "unat (mi_sequence (m_metaInfo p)) < sequence_of files"
        unfolding client_ok_def by auto
      then show ?thesis
      proof cases
        case behind
        then have "same_generation (m_metaInfo p) (meta_read (snd files'))"
          using same(4) same_generation_trans unfolding behind_def by metis
        then have "behind E p files' hdr' es0 (n @ new)"
          using behind same f by (simp add: behind_def)
        then show ?thesis using behind same(2) by (metis append.assoc)
      next
        case stale
        then show ?thesis using same(1,4) same_generation_sequence files_ok_holds [OF f(1)] by metis
      qed
    qed
    then show ?thesis using p s same(1,3) by (auto simp: client_ok_def)
  next
    case anew
    have "unat (mi_sequence (m_metaInfo p)) < sequence_of files'" if "\<not> m_needLoadFromFile p"
      using p that anew(2) same_generation_sequence unfolding client_ok_def behind_def by fastforce
    then show ?thesis using p s anew(1) by (auto simp: client_ok_def)
  qed
qed

section \<open>A process comes back\<close>

definition refreshed :: "environment \<Rightarrow> MMKVConfig \<Rightarrow> byte list \<times> byte list \<Rightarrow> MMKV \<Rightarrow> bool" where
  "refreshed E config files u \<longleftrightarrow> shared_settings E config files u \<and> m_isSecondLoad u \<and>
     f_size (m_file u) = length (fst files) \<and> length (f_disk (m_file u)) = length (fst files) \<and>
     length (f_disk (m_metaFile u)) = length (snd files) \<and> mi_sequence (m_metaInfo u) = mi_sequence (meta_read (snd files)) \<and>
     (MMKVVersionFlag \<le> mi_version (meta_read (snd files)) \<longrightarrow> same_generation (meta_read (snd files)) (m_metaInfo u))"

lemma page_sizes: "env_files E \<Longrightarrow> 0 < page_size E \<and> 112 \<le> page_size E"
  by (simp add: env_files_def)

lemma sized_lengths: "env_files E \<Longrightarrow> sized E config files \<Longrightarrow> 112 \<le> length (snd files) \<and> 112 \<le> length (fst files) \<and> snd files \<noteq> [] \<and> fst files \<noteq> []"
  using page_sizes [of E] by (auto simp: sized_def mapped_size_def)

lemma loaded_refreshed:
  assumes u: "loaded_settings s u" "store_ok E u hdr es" and s: "shared_settings E config files s" "m_file s = (m_file p)\<lparr>f_disk := fst files\<rparr>"
      "m_metaFile s = (m_metaFile p)\<lparr>f_disk := snd files\<rparr>"
    and "112 \<le> length (snd files)" and f: "files_ok E files hdr es"
  shows "refreshed E config files u"
proof -
  have "f_size (m_metaFile s) = length (snd files)" using s(1) by (simp add: shared_settings_def)
  then have "read_meta s = meta_read (snd files)" using assms(6) s(3) by (simp add: read_meta_disk)
  moreover have "isFileValid (m_metaFile u)" "\<not> f_readOnly (m_metaFile u)" "\<not> f_readOnly (m_file u)"
    using u(2) by (simp_all add: store_ok_def log_ok_def file_log_def meta_current_def meta_ready_def)
  ultimately show ?thesis
    using u(1) s f by (simp add: refreshed_def loaded_settings_def shared_settings_def plain_settings_def files_ok_def)
qed

lemma refresh_load:
  assumes E: "env_files E" and z: "sized E config files" and f: "files_ok E files hdr es"
    and p: "client_ok E config files hdr es p" and need: "m_needLoadFromFile p" and rel: "\<not> debug_build E"
  shows "\<exists>u. checkLoadData E iv (attach files p) = (Inr (), u) \<and> store_ok E u hdr es \<and> refreshed E config files u"
proof -
  note page = page_sizes [OF E] and len = sized_lengths [OF E z]
  let ?s = "(attach files p)\<lparr>m_needLoadFromFile := False\<rparr>"
  have crc: "crc32 E 0 [] = 0" using E by (simp add: env_files_def)
  have h: "shared_settings E config files p" "m_dic p = Map.empty" "isFileValid (m_file p)" "hdr = [] \<longrightarrow> f_size (m_file p) = length (fst files)"
    using p need by (simp_all add: client_ok_def)
  have check: "checkLoadData E iv (attach files p) = loadFromFile (Suc 3) E iv ?s"
    using need by (simp add: checkLoadData_def checkLoadData_body_def load_depth_def)
  have st: "shared_settings E config files ?s" using h(1) by (simp add: shared_settings_def plain_settings_def)
  have fm: "m_file ?s = (m_file p)\<lparr>f_disk := fst files\<rparr>" "m_metaFile ?s = (m_metaFile p)\<lparr>f_disk := snd files\<rparr>" by simp_all
  have "\<exists>u. loadFromFile (Suc 3) E iv ?s = (Inr (), u) \<and> store_ok E u hdr es \<and> loaded_settings ?s u"
  proof (cases "hdr = []")
    case False
    then have "outdated E ?s hdr es"
      using files_ok_holds [OF f] h z len rel
      by (auto simp: outdated_def shared_settings_def plain_settings_def sized_def mapped_size_def file_ok_def)
    then show ?thesis using page by (intro load_outdated) simp_all
  next
    case True
    have rm: "read_meta ?s = meta_read (snd files)" using len h(1) by (simp add: read_meta_disk shared_settings_def)
    have "files_hold E ?s hdr es \<or> (fresh_files ?s \<and> hdr = [] \<and> es = [])"
      using f unfolding files_ok_def disk_state_def
    proof (elim conjE disjE)
      assume d: "disk_holds E (fst files) (snd files) hdr es"
      have "files_hold E ?s hdr es"
        unfolding files_hold_def rm using h d len True
        by (simp add: shared_settings_def plain_settings_def file_ok_def file_log_def disk_holds_def Let_def isFileValid_def)
      then show ?thesis ..
    next
      assume zero: "fst files = replicate (length (fst files)) 0" "snd files = replicate (length (snd files)) 0" "es = []"
      have "meta_read (snd files) = zero_meta" using zero(2) meta_read_zero len by metis
      then have "fresh_files ?s"
        unfolding fresh_files_def rm using h zero(1) len True
        by (auto simp: shared_settings_def plain_settings_def file_ok_def)
      then show ?thesis using True zero(3) by blast
    qed
    from load_mapped [OF this crc, of 3 iv] show ?thesis using h(2) by simp
  qed
  then obtain u where u: "loadFromFile (Suc 3) E iv ?s = (Inr (), u)" "store_ok E u hdr es" "loaded_settings ?s u" by blast
  have "refreshed E config files u" using loaded_refreshed [OF u(3,2) st fm _ f] len by simp
  then show ?thesis using u(1,2) check by metis
qed

text \<open>In a debug build the assertion of \<open>reloadFromFile\<close> fails in a process that was constructed, but has not loaded
  the store when another process enlarges the file.\<close>

lemma enlarged_file_asserts:
  assumes E: "env_files E" "debug_build E" and z: "sized E config files" and f: "files_ok E files hdr es"
    and p: "client_ok E config files hdr es p" and need: "m_needLoadFromFile p" and size: "f_size (m_file p) \<noteq> length (fst files)"
  shows "fst (checkLoadData E iv (attach files p)) = Inl MemoryFault"
proof -
  note len = sized_lengths [OF E(1) z]
  let ?s = "(attach files p)\<lparr>m_needLoadFromFile := False\<rparr>"
  have h: "shared_settings E config files p" "isFileValid (m_file p)" "hdr \<noteq> []"
    using p need size by (auto simp: client_ok_def)
  have check: "checkLoadData E iv (attach files p) = loadFromFile (Suc 3) E iv ?s"
    using need by (simp add: checkLoadData_def checkLoadData_body_def load_depth_def)
  have rm: "read_meta ?s = meta_read (snd files)" using len h(1) by (simp add: read_meta_disk shared_settings_def)
  have d: "MMKVVersionFlag \<le> mi_version (read_meta ?s)" "mi_version (read_meta ?s) < MMKVVersionHolder"
    using files_ok_holds [OF f h(3)] unfolding rm by (simp_all add: disk_holds_def Let_def)
  have "\<exists>k g. loadMetaInfoAndCheck E ?s = (Inr (), with_files ?s k g) \<and> same_file (m_file ?s) k \<and> f_io k = [] \<and>
      isFileValid k = isFileValid (m_file ?s) \<and> same_valid_file (m_metaFile ?s) g"
    by (rule meta_checked) (use h d in \<open>simp_all add: shared_settings_def plain_settings_def\<close>)
  then obtain k g where m: "loadMetaInfoAndCheck E ?s = (Inr (), with_files ?s k g)" and k: "same_file (m_file ?s) k"
    "isFileValid k = isFileValid (m_file ?s)" by blast
  have "map_again E (with_files ?s k g) = (Inl MemoryFault, with_files ?s k g)"
    by (rule map_again_asserts [OF E(2)])
      (use k h size in \<open>auto simp: with_files_def same_file_def getActualFileSize_def getFileSize_def isFileValid_def shared_settings_def plain_settings_def\<close>)
  then show ?thesis
    unfolding check loadFromFile.simps Let_def loadFromFile_body_def by (simp add: bindC_def m)
qed

lemma word_sizes_differ:
  "a < 2 ^ 32 \<Longrightarrow> b < 2 ^ 32 \<Longrightarrow> (word_of_nat a :: u32) = word_of_nat b \<longleftrightarrow> a = b"
  using unat_word_of_nat_u32 by metis

lemma refresh_behind:
  assumes E: "env_ok E" "env_files E" and z: "sized E config files" and f: "files_ok E files hdr (es @ new)"
    and p: "client_ok E config files hdr (es @ new) p" and b: "behind E p files hdr es new"
  shows "\<exists>u. checkLoadData E iv (attach files p) = (Inr (), u) \<and> store_ok E u hdr (es @ new) \<and> refreshed E config files u"
proof -
  note len = sized_lengths [OF E(2) z] and d = behindD [OF b]
  let ?a = "attach files p" and ?mi = "meta_read (snd files)"
  have h: "shared_settings E config files p" "m_isSecondLoad p" using p d(13) by (simp_all add: client_ok_def)
  have v: "isFileValid (m_metaFile p)" "m_multiProcess p" using h(1) by (simp_all add: shared_settings_def plain_settings_def)
  have g: "same_generation (m_metaInfo p) ?mi" "f_size (m_file p) = length (fst files)" using b by (simp_all add: behind_def)
  have lt: "length (hdr @ enc_log (es @ new)) < 2 ^ 32" using d(2) by (simp add: file_log_def in_range_def)
  have check: "checkLoadData E iv ?a =
      (if mi_crcDigest (m_metaInfo p) \<noteq> mi_crcDigest ?mi \<or> mi_actualSize (m_metaInfo p) \<noteq> mi_actualSize ?mi
       then partialLoadFromFile E iv ?a else (Inr (), ?a))"
    using d(1,13) v same_generation_sequence [OF g(1)] by (simp add: checkLoadData_def checkLoadData_body_def Let_def)
  have ver: "MMKVVersionFlag \<le> mi_version ?mi" using d(4) by (simp add: meta_ready_def)
  show ?thesis
  proof (cases "new = []")
    case True
    then have "?mi = m_metaInfo p"
      using g(1) d(5,6,14,15) by (cases "m_metaInfo p"; cases ?mi) (simp add: same_generation_def)
    then have same: "?a\<lparr>m_metaInfo := ?mi\<rparr> = ?a" by (simp add: attach_def)
    have "meta_ready ?a" using d(4) unfolding same .
    then have "store_ok E ?a hdr (es @ new)"
      using d(2,3,5-7,9-13) True \<open>?mi = m_metaInfo p\<close> by (simp add: store_ok_def log_ok_def meta_current_def)
    moreover have "refreshed E config files ?a"
      using h g ver \<open>?mi = m_metaInfo p\<close> by (simp add: refreshed_def)
    moreover have "checkLoadData E iv ?a = (Inr (), ?a)" using check \<open>?mi = m_metaInfo p\<close> by simp
    ultimately show ?thesis by blast
  next
    case False
    obtain out where o: "let u = ?a\<lparr>m_metaInfo := ?mi, m_actualSize := length (hdr @ enc_log (es @ new)),
        m_crcDigest := crc32 E 0 (hdr @ enc_log (es @ new)), m_dic := dic_of (length hdr) (es @ new), m_output := Some out,
        m_hasFullWriteback := False\<rparr>
      in partialLoadFromFile_body E (loadFromFile load_depth E iv) ?a = (Inr (), u) \<and> store_ok E u hdr (es @ new)"
      using partialLoad_run [OF env_okD(3) [OF E(1)] b False] by blast
    have "length (hdr @ enc_log es) \<noteq> length (hdr @ enc_log (es @ new))" "length (hdr @ enc_log es) < 2 ^ 32"
      using False enc_log_Nil [of new] lt by simp_all
    then have "mi_actualSize (m_metaInfo p) \<noteq> mi_actualSize ?mi"
      unfolding d(6,15) using word_sizes_differ lt by metis
    then have "checkLoadData E iv ?a = partialLoadFromFile_body E (loadFromFile load_depth E iv) ?a"
      using check by (simp add: partialLoadFromFile_def)
    moreover have "refreshed E config files (?a\<lparr>m_metaInfo := ?mi, m_actualSize := length (hdr @ enc_log (es @ new)),
        m_crcDigest := crc32 E 0 (hdr @ enc_log (es @ new)), m_dic := dic_of (length hdr) (es @ new), m_output := Some out,
        m_hasFullWriteback := False\<rparr>)"
      using h g by (simp add: refreshed_def shared_settings_def plain_settings_def)
    ultimately show ?thesis using o by (auto simp: Let_def)
  qed
qed

lemma clear_attached:
  "\<not> m_needLoadFromFile s \<Longrightarrow> clearMemoryCache False s = s\<lparr>m_needLoadFromFile := True, m_hasFullWriteback := False, m_dic := Map.empty,
     m_output := None, m_file := doCleanMemoryCache (m_file s), m_actualSize := 0, m_metaInfo := (m_metaInfo s)\<lparr>mi_crcDigest := 0\<rparr>\<rparr>"
  by (simp add: clearMemoryCache_def Let_def)

lemma clean_disk: "doCleanMemoryCache (f\<lparr>f_disk := d\<rparr>) = (doCleanMemoryCache f)\<lparr>f_disk := d\<rparr>"
  by (simp add: doCleanMemoryCache_def File_close_def answer_def)

lemma refresh_stale:
  assumes E: "env_files E" and z: "sized E config files" and f: "files_ok E files hdr es"
    and p: "client_ok E config files hdr es p" "\<not> m_needLoadFromFile p"
    and s: "hdr \<noteq> []" "unat (mi_sequence (m_metaInfo p)) < sequence_of files"
  shows "\<exists>u. checkLoadData E iv (attach files p) = (Inr (), u) \<and> store_ok E u hdr es \<and> refreshed E config files u"
proof -
  note page = page_sizes [OF E] and len = sized_lengths [OF E z]
  let ?a = "attach files p" and ?c = "clearMemoryCache False (attach files p)"
  let ?q = "p\<lparr>m_file := doCleanMemoryCache (m_file p)\<rparr>"
  have h: "shared_settings E config files p" "m_isSecondLoad p" using p by (simp_all add: client_ok_def)
  have rm: "read_meta ?a = meta_read (snd files)" using len h(1) by (simp add: read_meta_disk shared_settings_def)
  have check: "checkLoadData E iv ?a = loadFromFile (Suc 3) E iv ?c"
    using p(2) h(1) s(2) rm by (auto simp: checkLoadData_def checkLoadData_body_def Let_def load_depth_def shared_settings_def plain_settings_def)
  have io: "f_io (doCleanMemoryCache (m_file p)) = []"
    using h(1) by (simp add: shared_settings_def plain_settings_def doCleanMemoryCache_def File_close_def answer_def)
  have cl: "?c = ?a\<lparr>m_needLoadFromFile := True, m_hasFullWriteback := False, m_dic := Map.empty,
     m_output := None, m_file := (doCleanMemoryCache (m_file p))\<lparr>f_disk := fst files\<rparr>, m_actualSize := 0,
     m_metaInfo := (m_metaInfo p)\<lparr>mi_crcDigest := 0\<rparr>\<rparr>"
    using p(2) by (simp add: clear_attached clean_disk)
  have st: "shared_settings E config files ?c"
    using h(1) io doCleanMemoryCache_invalid(4) [of "m_file p"] unfolding cl by (simp add: shared_settings_def plain_settings_def)
  have fm: "m_file ?c = (m_file ?q)\<lparr>f_disk := fst files\<rparr>" "m_metaFile ?c = (m_metaFile ?q)\<lparr>f_disk := snd files\<rparr>"
    unfolding cl by simp_all
  have "outdated E ?c hdr es"
    using files_ok_holds [OF f s(1)] st h(2) z len s(1) doCleanMemoryCache_invalid(1) [of "m_file p"] unfolding cl
    by (auto simp: outdated_def shared_settings_def plain_settings_def sized_def mapped_size_def file_ok_def)
  from load_outdated [OF _ this, of 3 iv] page obtain u where
    u: "loadFromFile (Suc 3) E iv ?c = (Inr (), u)" "store_ok E u hdr es" "loaded_settings ?c u" by auto
  have "refreshed E config files u" using loaded_refreshed [OF u(3,2) st fm _ f] len by simp
  then show ?thesis using u(1,2) check by metis
qed

lemma refresh:
  assumes E: "env_ok E" "env_files E" and z: "sized E config files" and f: "files_ok E files hdr es"
    and p: "client_ok E config files hdr es p" and rel: "\<not> debug_build E"
  shows "\<exists>u. checkLoadData E iv (attach files p) = (Inr (), u) \<and> store_ok E u hdr es \<and> refreshed E config files u"
proof (cases "m_needLoadFromFile p")
  case True
  show ?thesis by (rule refresh_load [OF E(2) z f p True rel])
next
  case False
  with p consider (behind) es0 new where "es = es0 @ new" "behind E p files hdr es0 new"
    | (stale) "hdr \<noteq> []" "unat (mi_sequence (m_metaInfo p)) < sequence_of files"
    unfolding client_ok_def by auto
  then show ?thesis
  proof cases
    case behind
    then show ?thesis using refresh_behind [OF E z, of hdr es0 new p iv] f p by simp
  next
    case stale
    then show ?thesis by (rule refresh_stale [OF E(2) z f p False])
  qed
qed

section \<open>A process opens the files\<close>

definition multi_process_config :: "MMKVConfig \<Rightarrow> bool" where
  "multi_process_config config \<longleftrightarrow> \<not> isReadOnly config \<and> isMultiProcess config \<and> enableKeyExpire config = None \<and>
     \<not> compareBeforeSet config \<and> itemSizeLimit config = 0"

lemma MemoryFile_new_size:
  assumes "0 < page_size E" and g: "g = MemoryFile_new (page_size E) cap False mayfly disk []"
  shows "mapped_size E cap \<le> length (f_disk g)" and "length (f_disk g) mod page_size E = 0"
    and "mapped_size E cap \<le> length disk \<Longrightarrow> length disk mod page_size E = 0 \<Longrightarrow> f_disk g = disk"
proof -
  let ?page = "page_size E"
  obtain f where fd: "f = snd (File_open \<lparr>f_fd = False, f_ptr = False, f_size = 0, f_disk = disk, f_readOnly = False,
      f_isMayflyFD = mayfly, f_io = []\<rparr>)" by blast
  have f: "\<not> f_ptr f" "f_disk f = disk" "\<not> f_readOnly f" "f_fd f" "f_io f = []"
    unfolding fd by (simp_all add: File_open_def answer_def)
  have g': "g = reloadFromFile ?page cap f" using g by (simp add: MemoryFile_new_def fd)
  show same: "f_disk g = disk" if "mapped_size E cap \<le> length disk" "length disk mod ?page = 0"
    using reload_same(5) [OF assms(1) g' f(5,3)] that f(2) by (simp add: mapped_size_def)
  note ok = MemoryFile_new_ok [OF assms(1) g]
  have "f_size g mod ?page = 0" using reload_cases(5) [OF assms(1) g' ok(1) f(1)] f(3) by simp
  then show "length (f_disk g) mod ?page = 0" using ok(4) by simp
  show "mapped_size E cap \<le> length (f_disk g)"
  proof (cases "mapped_size E cap \<le> length disk \<and> length disk mod ?page = 0")
    case True
    then show ?thesis using same by simp
  next
    case False
    let ?e = "mapped_size E cap" and ?h = "f\<lparr>f_size := length disk\<rparr>"
    let ?t = "max ?e ((length disk div ?page + 1) * ?page)"
    have inv: "\<not> isFileValid f" "openIfNeeded f = (True, f)" using f(1,4) by (simp_all add: isFileValid_def openIfNeeded_def)
    have cond: "length disk < max ?page (roundUp cap ?page) \<or> length disk mod ?page \<noteq> 0" using False by (auto simp: mapped_size_def)
    have g'': "g = snd (truncate_file ?page ?t ?h)"
      unfolding g' reloadFromFile_def using inv f cond by (simp add: mapped_size_def Let_def)
    have "length disk < (length disk div ?page + 1) * ?page"
      using assms(1) dividend_less_div_times [of ?page "length disk"] by simp
    then have "length disk < ?t" by (simp add: less_max_iff_disj)
    then have ne: "?t \<noteq> f_size ?h" by simp
    have "fst (truncate_file ?page ?t ?h)"
    proof (rule ccontr)
      assume "\<not> fst (truncate_file ?page ?t ?h)"
      then have "not_resized ?h g" using truncate_cases(2) [of ?h ?page ?t] f(2) g'' by simp
      then show False using ok(1) f(1) by (auto simp: not_resized_def isFileValid_def)
    qed
    then have "resized ?h (round_to_pages ?page ?t) g"
      using truncate_cases(1) [of ?h ?page ?t] f(2) ne unfolding g'' by simp
    then have "f_size g = round_to_pages ?page ?t" "length (f_disk g) = f_size g" by (simp_all add: resized_def)
    then show ?thesis using round_to_pages_ge [OF assms(1), of ?t] by simp
  qed
qed

lemma zero_sequence: "mi_sequence (meta_read (replicate k 0)) = 0"
  by (simp add: meta_read_def le_word_def mem_read_def le_value_zero)

lemma open_process:
  assumes E: "env_files E" and c: "multi_process_config config" and f: "files_ok E files hdr es"
  shows "\<exists>s. MMKV_new E iv junk config (fst files) (snd files) [] [] = (Inr (), s) \<and>
    files_ok E (f_disk (m_file s), f_disk (m_metaFile s)) hdr es \<and> sized E config (f_disk (m_file s), f_disk (m_metaFile s)) \<and>
    client_ok E config (f_disk (m_file s), f_disk (m_metaFile s)) hdr es s \<and>
    (sized E config files \<longrightarrow> (f_disk (m_file s), f_disk (m_metaFile s)) = files) \<and>
    mi_sequence (meta_read (f_disk (m_metaFile s))) = mi_sequence (meta_read (snd files))"
proof -
  have page: "0 < page_size E" using page_sizes [OF E] by simp
  have cc: "\<not> isReadOnly config" "isMultiProcess config" "enableKeyExpire config = None" "\<not> compareBeforeSet config" "itemSizeLimit config = 0"
    using c by (simp_all add: multi_process_config_def)
  let ?o = "MMKV_object E config (fst files) (snd files) [] []" and ?s = "(MMKV_object E config (fst files) (snd files) [] [])\<lparr>m_enableCompareBeforeSet := compareBeforeSet config\<rparr>"
  have sel: "m_file ?s = m_file ?o" "m_metaFile ?s = m_metaFile ?o" by simp_all
  note fe = MMKV_object_files(1) [OF cc(1) refl, of E "fst files" "snd files"] and ge = MMKV_object_files(2) [OF cc(1) refl, of E "fst files" "snd files"]
  note fo = MemoryFile_new_ok [OF page fe] and go = MemoryFile_new_ok [OF page ge]
  note fz = MemoryFile_new_size [OF page fe] and gz = MemoryFile_new_size [OF page ge]
  have d: "disk_state E (fst files) (snd files) hdr es" "\<not> hasFlag EnableKeyExipre (meta_read (snd files))"
    using f by (simp_all add: files_ok_def)
  note od = object_disk_state [OF E cc(1) d(1) refl]
  have fok: "files_ok E (f_disk (m_file ?s), f_disk (m_metaFile ?s)) hdr es"
    using od(1) od(2) [of EnableKeyExipre] d(2) by (simp add: files_ok_def)
  have cap: "m_expectedCapacity ?o = mapped_size E (expectedCapacity config)"
    by (simp add: MMKV_object_def Let_def mapped_size_def)
  have z: "sized E config (f_disk (m_file ?s), f_disk (m_metaFile ?s))"
    using fz(1,2) gz(1,2) by (simp add: sized_def mapped_size_def)
  have same: "sized E config files \<longrightarrow> (f_disk (m_file ?s), f_disk (m_metaFile ?s)) = files"
    using fz(3) gz(3) by (cases files) (auto simp: sized_def mapped_size_def)
  have sh: "shared_settings E config (f_disk (m_file ?s), f_disk (m_metaFile ?s)) ?s"
    using fo go cc cap by (simp add: shared_settings_def plain_settings_def)
  have "client_ok E config (f_disk (m_file ?s), f_disk (m_metaFile ?s)) hdr es ?s"
    using sh fo by (simp add: client_ok_def)
  moreover have "mi_sequence (meta_read (f_disk (m_metaFile ?s))) = mi_sequence (meta_read (snd files))"
  proof (cases "disk_holds E (fst files) (snd files) hdr es")
    case True
    then have "112 \<le> length (snd files)" by (simp add: disk_holds_def)
    then have "meta_read (f_disk (m_metaFile ?o)) = meta_read (snd files)" using meta_read_take [of "length (snd files)"] go(7) by metis
    then show ?thesis by simp
  next
    case False
    then have zero: "snd files = replicate (length (snd files)) 0" using d(1) by (simp add: disk_state_def)
    note new_file_zero [OF page ge zero]
    then have "mi_sequence (meta_read (f_disk (m_metaFile ?o))) = 0" using zero_sequence by metis
    moreover have "mi_sequence (meta_read (snd files)) = 0" using zero zero_sequence by metis
    ultimately show ?thesis by simp
  qed
  ultimately show ?thesis
    using MMKV_new_run [OF cc(3), of E iv junk "fst files" "snd files" "[]" "[]"] fok z same by blast
qed

section \<open>A process serves a request\<close>

text \<open>Everything the processes need to know about the files, and what they hold.\<close>

definition world_ok ::
  "environment \<Rightarrow> MMKVConfig \<Rightarrow> byte list \<times> byte list \<Rightarrow> (nat \<rightharpoonup> MMKV) \<Rightarrow> byte list \<Rightarrow> log_entry list \<Rightarrow> bool" where
  "world_ok E config files procs hdr es \<longleftrightarrow> files_ok E files hdr es \<and>
     (\<forall>i p. procs i = Some p \<longrightarrow> client_ok E config files hdr es p) \<and> (procs \<noteq> Map.empty \<longrightarrow> sized E config files)"

lemma store_files:
  assumes "store_ok E t hdr es" and "\<not> m_enableKeyExpire t"
  shows "disk_holds E (f_disk (m_file t)) (f_disk (m_metaFile t)) hdr es"
    and "meta_read (f_disk (m_metaFile t)) = m_metaInfo t"
    and "files_ok E (f_disk (m_file t), f_disk (m_metaFile t)) hdr es"
proof -
  have l: "4 + m_actualSize t \<le> length (f_disk (m_file t))" "112 \<le> f_size (m_metaFile t)" "read_meta t = m_metaInfo t"
    "m_enableKeyExpire t = hasFlag EnableKeyExipre (m_metaInfo t)"
    using assms(1) by (auto simp: store_ok_def log_ok_def file_log_def meta_current_def meta_ready_def)
  show d: "disk_holds E (f_disk (m_file t)) (f_disk (m_metaFile t)) hdr es" by (rule store_disk_holds [OF assms(1) refl l(1)])
  show m: "meta_read (f_disk (m_metaFile t)) = m_metaInfo t" using read_meta_disk [OF l(2)] l(3) by simp
  show "files_ok E (f_disk (m_file t), f_disk (m_metaFile t)) hdr es"
    using d m l(4) assms(2) by (simp add: files_ok_def disk_state_def)
qed

lemma client_ok_self:
  assumes t: "store_ok E t hdr es" and s: "shared_settings E config (f_disk (m_file t), f_disk (m_metaFile t)) t"
    and "m_isSecondLoad t" and "f_size (m_file t) = length (f_disk (m_file t))"
  shows "client_ok E config (f_disk (m_file t), f_disk (m_metaFile t)) hdr es t"
proof -
  have x: "\<not> m_enableKeyExpire t" "m_multiProcess t" "f_size (m_metaFile t) = length (f_disk (m_metaFile t))"
    using s by (simp_all add: shared_settings_def plain_settings_def)
  note f = store_files [OF t x(1)]
  have "store_ok E (attach (f_disk (m_file t), f_disk (m_metaFile t)) t) hdr es" using t by simp
  then have "behind E t (f_disk (m_file t), f_disk (m_metaFile t)) hdr es []"
    unfolding behind_def using f(1,2) x assms(4)
    by (intro conjI exI [of _ "(f_disk (m_file t), f_disk (m_metaFile t))"]) (simp_all add: same_generation_def)
  then show ?thesis using s assms(3) t unfolding client_ok_def by (auto simp: store_ok_def log_ok_def)
qed

lemma serve_process:
  assumes E: "env_ok E" "env_files E" and z: "sized E config files" and f: "files_ok E files hdr es"
    and p: "client_ok E config files hdr es p" and q: "valid_request q"
    and n: "length (enc_log es) + entry_weight q < 2 ^ 32 - 10" and sq: "sequence_of files + 1 < 2 ^ 32" and rel: "\<not> debug_build E"
  shows "\<exists>t hdr' es'. serve E iv q (attach files p) = (Inr (fst (map_spec q (log_contents es))), t) \<and>
    log_contents es' = snd (map_spec q (log_contents es)) \<and> length (enc_log es') \<le> length (enc_log es) + entry_weight q \<and>
    (let files' = (f_disk (m_file t), f_disk (m_metaFile t))
     in files_ok E files' hdr' es' \<and> sized E config files' \<and> client_ok E config files' hdr' es' t \<and>
        sequence_of files' \<le> sequence_of files + 1 \<and>
        (\<forall>r. client_ok E config files hdr es r \<longrightarrow> client_ok E config files' hdr' es' r))"
proof (cases "refused q")
  case True
  have own: "(f_disk (m_file (attach files p)), f_disk (m_metaFile (attach files p))) = files" by simp
  show ?thesis
    using serve_refused [OF True, of E iv "attach files p" "log_contents es"] f z p own
    by (intro exI [of _ "attach files p"] exI [of _ hdr] exI [of _ es]) (simp add: Let_def)
next
  case False
  obtain u where u: "checkLoadData E iv (attach files p) = (Inr (), u)" "store_ok E u hdr es" "refreshed E config files u"
    using refresh [OF E z f p rel] by blast
  have us: "plain_settings u" "\<not> m_readOnly u" "\<not> m_enableKeyExpire u" "f_io (m_metaFile u) = []" "f_io (m_file u) = []"
    "m_expectedCapacity u = mapped_size E (expectedCapacity config)" "f_size (m_metaFile u) = length (snd files)"
    using u(3) by (simp_all add: refreshed_def shared_settings_def plain_settings_def)
  have ps: "\<not> m_readOnly (attach files p)" "\<not> m_enableKeyExpire (attach files p)"
    using p by (simp_all add: client_ok_def shared_settings_def plain_settings_def)
  let ?fu = "(f_disk (m_file u), f_disk (m_metaFile u))"
  have ul: "f_size (m_file u) = length (fst files)" "length (f_disk (m_file u)) = length (fst files)"
    "length (f_disk (m_metaFile u)) = length (snd files)" "mi_sequence (m_metaInfo u) = mi_sequence (meta_read (snd files))"
    "MMKVVersionFlag \<le> mi_version (meta_read (snd files)) \<longrightarrow> same_generation (meta_read (snd files)) (m_metaInfo u)"
    using u(3) by (simp_all add: refreshed_def)
  note fu = store_files [OF u(2) us(3)]
  have mu: "moved E files hdr es ?fu hdr es"
    using f fu ul unfolding moved_def by (auto simp: disk_holds_def Let_def)
  obtain t hdr' es' where t: "serve E iv q u = (Inr (fst (map_spec q (log_contents es))), t)" "served E q u hdr es t hdr' es'"
    using serve_loaded [OF E(1) us(1) u(2) q n] by blast
  have st: "store_ok E t hdr' es'" "same_settings u t" "evolves E u hdr es t hdr' es'" using t(2) by (simp_all add: served_def)
  have tp: "plain_settings t" by (rule plain_settings_same [OF us(1) st(2)])
  then have "\<not> m_enableKeyExpire t" by (simp add: plain_settings_def)
  note ft = store_files [OF st(1) this]
  let ?ft = "(f_disk (m_file t), f_disk (m_metaFile t))"
  have g: "grows (m_file u) (m_file t)" using st(2) us(5) by (simp add: same_settings_def)
  then have tl: "f_size (m_file t) = length (f_disk (m_file t))" "f_size (m_file u) \<le> f_size (m_file t)"
    using ul(1,2) by (simp_all add: grows_def)
  have tm: "length (f_disk (m_metaFile t)) = length (snd files)" "f_size (m_metaFile t) = length (snd files)"
    using st(2) ul(3) us(7) by (simp_all add: same_settings_def)
  have mt: "moved E ?fu hdr es ?ft hdr' es'"
  proof -
    have "unat (mi_sequence (m_metaInfo u) + 1) = unat (mi_sequence (m_metaInfo u)) + 1"
      using sq ul(4) by (simp add: unat_word_ariths)
    then show ?thesis
      using st(3) fu(2,3) ft(1,2) tl ul(1-3) tm unfolding moved_def evolves_def rewritten_def by auto
  qed
  have zt: "sized E config ?ft"
    using z tl ul(1,2) tm st(3) by (auto simp: sized_def evolves_def)
  have sh: "shared_settings E config ?ft t"
    using tp tm us(2,4,6) st(1,2) unfolding shared_settings_def
    by (simp add: same_settings_def store_ok_def log_ok_def file_log_def meta_current_def meta_ready_def)
  have "m_isSecondLoad t" using st(2) u(3) by (simp add: same_settings_def refreshed_def)
  then have pt: "client_ok E config ?ft hdr' es' t" by (rule client_ok_self [OF st(1) sh _ tl(1)])
  have seq: "sequence_of ?ft \<le> sequence_of files + 1"
    using mt fu(2) ul(4) same_generation_sequence unfolding moved_def by (auto simp: fu(1))
  have "\<forall>r. client_ok E config files hdr es r \<longrightarrow> client_ok E config ?ft hdr' es' r"
    using client_ok_moved mu mt by blast
  moreover have "serve E iv q (attach files p) = (Inr (fst (map_spec q (log_contents es))), t)"
    using t(1) serve_load [OF u(1) checkLoadData_loaded [OF u(2)] q False ps(1) us(2) ps(2) us(3)] by simp
  ultimately show ?thesis
    using t(2) ft(3) zt pt seq
    by (intro exI [of _ t] exI [of _ hdr'] exI [of _ es']) (simp add: served_def Let_def)
qed

section \<open>Interleavings\<close>

text \<open>Processes serve requests on the same two files, in any order. A process that has no store constructs one
  first; a process may end at any time, and a later request of the same process constructs a new store. Each
  request is one step: a process holds the lock on the files for the time of a request.\<close>

datatype event = Serve nat request | Quit nat

definition store_of ::
  "environment \<Rightarrow> byte list \<Rightarrow> (nat \<Rightarrow> byte) \<Rightarrow> MMKVConfig \<Rightarrow> byte list \<times> byte list \<Rightarrow> MMKV option \<Rightarrow> cpp_exception + MMKV" where
  "store_of E iv junk config files p =
     (case p of
        Some s \<Rightarrow> Inr (attach files s)
      | None \<Rightarrow> (case MMKV_new E iv junk config (fst files) (snd files) [] [] of (Inl e, _) \<Rightarrow> Inl e | (Inr _, s) \<Rightarrow> Inr s))"

fun interleaved ::
  "environment \<Rightarrow> byte list \<Rightarrow> (nat \<Rightarrow> byte) \<Rightarrow> MMKVConfig \<Rightarrow> event list \<Rightarrow> byte list \<times> byte list \<Rightarrow> (nat \<rightharpoonup> MMKV) \<Rightarrow>
   cpp_exception + reply list" where
  "interleaved E iv junk config [] files procs = Inr []"
| "interleaved E iv junk config (Quit i # evs) files procs = interleaved E iv junk config evs files (procs(i := None))"
| "interleaved E iv junk config (Serve i q # evs) files procs =
     (case store_of E iv junk config files (procs i) of
        Inl e \<Rightarrow> Inl e
      | Inr s \<Rightarrow>
          (case serve E iv q s of
             (Inl e, _) \<Rightarrow> Inl e
           | (Inr r, t) \<Rightarrow>
               map_sum id ((#) r)
                 (interleaved E iv junk config evs (f_disk (m_file t), f_disk (m_metaFile t)) (procs(i \<mapsto> t)))))"

fun requests_of :: "event list \<Rightarrow> request list" where
  "requests_of [] = []"
| "requests_of (Serve i q # evs) = q # requests_of evs"
| "requests_of (Quit i # evs) = requests_of evs"

lemma store_of_ok:
  assumes E: "env_files E" and c: "multi_process_config config" and w: "world_ok E config files procs hdr es"
  shows "\<exists>s files'. store_of E iv junk config files (procs i) = Inr s \<and> s = attach files' s \<and> client_ok E config files' hdr es s \<and>
    world_ok E config files' procs hdr es \<and> sized E config files' \<and> sequence_of files' = sequence_of files"
proof (cases "procs i")
  case (Some p)
  then have "client_ok E config files hdr es p" "sized E config files" using w by (auto simp: world_ok_def)
  then show ?thesis
    using Some w by (intro exI [of _ "attach files p"] exI [of _ files]) (simp add: store_of_def)
next
  case None
  have f: "files_ok E files hdr es" using w by (simp add: world_ok_def)
  obtain s where s: "MMKV_new E iv junk config (fst files) (snd files) [] [] = (Inr (), s)"
    "files_ok E (f_disk (m_file s), f_disk (m_metaFile s)) hdr es" "sized E config (f_disk (m_file s), f_disk (m_metaFile s))"
    "client_ok E config (f_disk (m_file s), f_disk (m_metaFile s)) hdr es s"
    "sized E config files \<longrightarrow> (f_disk (m_file s), f_disk (m_metaFile s)) = files"
    "mi_sequence (meta_read (f_disk (m_metaFile s))) = mi_sequence (meta_read (snd files))"
    using open_process [OF E c f] by blast
  let ?f = "(f_disk (m_file s), f_disk (m_metaFile s))"
  have "world_ok E config ?f procs hdr es"
  proof (cases "procs = Map.empty")
    case True
    then show ?thesis using s(2) by (simp add: world_ok_def)
  next
    case False
    then have "?f = files" using w s(5) by (simp add: world_ok_def)
    then show ?thesis using w by simp
  qed
  then show ?thesis
    using None s by (intro exI [of _ s] exI [of _ ?f]) (simp add: store_of_def)
qed

lemma interleaved_run:
  assumes E: "env_ok E" "env_files E" and c: "multi_process_config config"
    and "world_ok E config files procs hdr es" and "\<forall>q \<in> set (requests_of evs). valid_request q"
    and "length (enc_log es) \<le> n" and "n + sum_list (map entry_weight (requests_of evs)) < 2 ^ 32 - 10"
    and "sequence_of files + length (requests_of evs) < 2 ^ 32" and rel: "\<not> debug_build E"
  shows "interleaved E iv junk config evs files procs = Inr (fst (spec_all map_spec (requests_of evs) (log_contents es)))"
  using assms(4-8)
proof (induction evs arbitrary: files procs hdr es n rule: requests_of.induct)
  case 1
  show ?case by simp
next
  case (2 i q evs)
  obtain s fs where s: "store_of E iv junk config files (procs i) = Inr s" "s = attach fs s" "client_ok E config fs hdr es s"
    "world_ok E config fs procs hdr es" "sized E config fs" "sequence_of fs = sequence_of files"
    using store_of_ok [OF E(2) c 2(2)] by blast
  have q: "valid_request q" and n: "length (enc_log es) + entry_weight q < 2 ^ 32 - 10" and sq: "sequence_of fs + 1 < 2 ^ 32"
    using 2(3-6) s(6) by simp_all
  have f: "files_ok E fs hdr es" using s(4) by (simp add: world_ok_def)
  obtain t hdr' es' where t: "serve E iv q (attach fs s) = (Inr (fst (map_spec q (log_contents es))), t)"
    "log_contents es' = snd (map_spec q (log_contents es))" "length (enc_log es') \<le> length (enc_log es) + entry_weight q"
    "files_ok E (f_disk (m_file t), f_disk (m_metaFile t)) hdr' es'" "sized E config (f_disk (m_file t), f_disk (m_metaFile t))"
    "client_ok E config (f_disk (m_file t), f_disk (m_metaFile t)) hdr' es' t"
    "sequence_of (f_disk (m_file t), f_disk (m_metaFile t)) \<le> sequence_of fs + 1"
    "\<forall>r. client_ok E config fs hdr es r \<longrightarrow> client_ok E config (f_disk (m_file t), f_disk (m_metaFile t)) hdr' es' r"
    using serve_process [OF E s(5) f s(3) q n sq rel, of iv] by (auto simp: Let_def)
  let ?f = "(f_disk (m_file t), f_disk (m_metaFile t))"
  have w: "world_ok E config ?f (procs(i \<mapsto> t)) hdr' es'"
    using t(4-6,8) s(4) by (auto simp: world_ok_def)
  have "interleaved E iv junk config evs ?f (procs(i \<mapsto> t)) = Inr (fst (spec_all map_spec (requests_of evs) (log_contents es')))"
    by (rule 2(1) [OF w, of "n + entry_weight q"]) (use 2(3-6) t(3,7) s(6) in simp_all)
  then show ?case
    using s(1) t(1,2) s(2) by (simp add: split_def Let_def)
next
  case (3 i evs)
  have "world_ok E config files (procs(i := None)) hdr es" using 3(2) by (auto simp: world_ok_def)
  then show ?case using 3 by simp
qed

end
