(* ===== verification/CryptStore.thy ===== *)
theory CryptStore
  imports CryptMap MMKV_Store
begin

text \<open>
  The storage engine (\<open>MMKV_IO.cpp\<close>, \<open>MMKV.cpp\<close>) of stores that may be encrypted: the branches that
  \<open>MMKV_IO\<close> leaves out, where \<open>m_crypter\<close> is not null, and changing the key, which leads from one kind of store
  to the other. Covered are loading, reading a value, the full write-back with its in-place decryption and
  encryption, expanding, expired keys, clearing, and the operations on keys. Appending to an encrypted store is not.

  The record \<open>CryptMMKV\<close> has the members of a store with encryption beside those of \<open>MMKV\<close>. The pointers \<open>m_dic\<close>
  and \<open>m_dicCrypt\<close> are null in the other kind of store: \<open>m_hasDic\<close> says whether \<open>m_dic\<close> is there, \<open>m_dicCrypt\<close> is
  an option. Using a null dictionary is \<open>MemoryFault\<close>.

  The cipher reads a byte (or a word of eight) before it writes the one of the same place, so that it may work in
  place and may write in front of what it reads (the decryption of the sections); writing behind the start of
  what it reads would destroy input, which is \<open>MemoryFault\<close> here.

  \<open>fresh_mem\<close> is what newly allocated or uninitialised memory holds, \<open>rand_word\<close> are the values of \<open>rand()\<close> for a new vector,
  \<open>iterateCrypt\<close> the order in which a dictionary is iterated.
\<close>

unbundle bit_operations_syntax

record crypt_environment =
  plain_env :: environment
  iterateCrypt :: "MMKVMapCrypt \<Rightarrow> (byte list \<times> KeyValueHolderCrypt) list"
  fresh_mem :: "nat \<Rightarrow> byte"
  rand_word :: "nat \<Rightarrow> u32"

record CryptMMKV =
  m_store :: MMKV
  m_hasDic :: bool
  m_dicCrypt :: "MMKVMapCrypt option"
  m_crypter :: "AESCrypt option"

text \<open>Operations on the members that both kinds of store have.\<close>

definition on_store :: "(MMKV, 'a) cpp \<Rightarrow> (CryptMMKV, 'a) cpp" where
  "on_store op s = (case op (m_store s) of (r, t) \<Rightarrow> (r, s\<lparr>m_store := t\<rparr>))"

definition with_dicCrypt :: "(MMKVMapCrypt \<Rightarrow> (CryptMMKV, 'a) cpp) \<Rightarrow> (CryptMMKV, 'a) cpp" where
  "with_dicCrypt f s = (case m_dicCrypt s of None \<Rightarrow> (Inl MemoryFault, s) | Some dic \<Rightarrow> f dic s)"

definition with_dic :: "(MMKVMap \<Rightarrow> (CryptMMKV, 'a) cpp) \<Rightarrow> (CryptMMKV, 'a) cpp" where
  "with_dic f s = (if m_hasDic s then f (m_dic (m_store s)) s else (Inl MemoryFault, s))"

section \<open>The cipher on the mapped file\<close>

definition crypt_bytes ::
  "(byte list \<Rightarrow> (AESCrypt, byte list) cpp) \<Rightarrow> nat \<Rightarrow> nat \<Rightarrow> nat \<Rightarrow> AESCrypt \<Rightarrow> (MMKV, AESCrypt) cpp" where
  "crypt_bytes f src dst n c =
     (if src < dst \<and> dst < src + n then throwC MemoryFault
      else bindC (memory_read src n) (\<lambda>bs.
             case f bs c of
               (Inl e, _) \<Rightarrow> throwC e
             | (Inr out, c) \<Rightarrow> bindC (memory_write dst out) (\<lambda>_. returnC c)))"

definition encrypt_in_place :: "nat \<Rightarrow> nat \<Rightarrow> AESCrypt option \<Rightarrow> (MMKV, AESCrypt option) cpp" where
  "encrypt_in_place ptr n encrypter =
     (case encrypter of
        None \<Rightarrow> returnC None
      | Some c \<Rightarrow> bindC (crypt_bytes encrypt ptr ptr n c) (\<lambda>c. returnC (Some c)))"

section \<open>Writing everything back\<close>

definition crypt_size :: "KeyValueHolderCrypt \<Rightarrow> u32" where
  "crypt_size kvHolder = ucast (kh_pbKeyValueSize kvHolder) + ucast (kh_keySize kvHolder) + kh_valueSize kvHolder"

abbreviation in_file_holder :: "byte list \<times> KeyValueHolderCrypt \<Rightarrow> bool" where
  "in_file_holder itr \<equiv> kh_type (snd itr) = Offset"

text \<open>The values that are in memory; \<open>toMMBuffer\<close> is called with null pointers.\<close>

primrec memory_values :: "(byte list \<times> KeyValueHolderCrypt) list \<Rightarrow> cpp_exception + (byte list \<times> byte list) list" where
  "memory_values [] = Inr []"
| "memory_values (itr # itrs) =
     (case toMMBuffer_crypt [] (AESCrypt_new [] [] False) (snd itr) of
        Inl e \<Rightarrow> Inl e
      | Inr v \<Rightarrow> map_sum id (\<lambda>vec. (fst itr, v) # vec) (memory_values itrs))"

definition smallest_offset :: "(byte list \<times> KeyValueHolderCrypt) list \<Rightarrow> u32" where
  "smallest_offset items =
     (let smallestOffet = foldl (\<lambda>m itr. min m (kh_offset (snd itr))) (5 + 1) (filter in_file_holder items)
      in if 5 < smallestOffet then word_of_nat ItemSizeHolderSize else smallestOffet)"

definition prepareEncode_crypt ::
  "(nat \<Rightarrow> byte) \<Rightarrow> (byte list \<times> KeyValueHolderCrypt) list \<Rightarrow> cpp_exception + byte list \<times> nat" where
  "prepareEncode_crypt junk items =
     (let totalSize = sum_list (map (\<lambda>itr. unat (crypt_size (snd itr))) (filter in_file_holder items)) + unat (smallest_offset items)
      in case memory_values (filter (\<lambda>itr. \<not> in_file_holder itr) items) of
           Inl e \<Rightarrow> Inl e
         | Inr vec \<Rightarrow>
             if vec = [] then Inr ([], totalSize)
             else (case encodeDataWithObject_MMKVVector junk vec of
                     Inl e \<Rightarrow> Inl e
                   | Inr buffer \<Rightarrow>
                       (case readUInt32 (CodedInputData buffer 0 (length buffer)) of
                          (Inl e, _) \<Rightarrow> Inl e
                        | (Inr sizeOfMap, _) \<Rightarrow> Inr (buffer, totalSize + unat sizeOfMap))))"

definition sort_crypt :: "(byte list \<times> KeyValueHolderCrypt) list \<Rightarrow> (byte list \<times> KeyValueHolderCrypt) list" where
  "sort_crypt items = sort_key (\<lambda>itr. unat (kh_offset (snd itr))) (filter in_file_holder items)"

text \<open>Adjacent entries are merged; a section keeps the cipher status of its first entry.\<close>

definition merge_section_crypt ::
  "(u32 \<times> u32 \<times> AESCryptStatus) list \<Rightarrow> KeyValueHolderCrypt \<Rightarrow> (u32 \<times> u32 \<times> AESCryptStatus) list" where
  "merge_section_crypt secs kvHolder =
     (let (off, n, st) = last secs
      in if kh_offset kvHolder = off + n
         then butlast secs @ [(off, n + crypt_size kvHolder, st)]
         else secs @ [toTuple kvHolder])"

definition dataSections_crypt :: "KeyValueHolderCrypt list \<Rightarrow> (u32 \<times> u32 \<times> AESCryptStatus) list" where
  "dataSections_crypt vec = foldl merge_section_crypt [toTuple (hd vec)] (tl vec)"

text \<open>Each section is decrypted with a copy of the cipher in the status of the section.\<close>

primrec decrypt_sections :: "AESCrypt \<Rightarrow> nat \<Rightarrow> (u32 \<times> u32 \<times> AESCryptStatus) list \<Rightarrow> (MMKV, nat) cpp" where
  "decrypt_sections decrypter writePtr [] = returnC writePtr"
| "decrypt_sections decrypter writePtr (sec # secs) =
     (let (off, n, st) = sec
      in bindC (crypt_bytes decrypt (4 + unat off) writePtr (unat n) (cloneWithStatus st decrypter)) (\<lambda>_.
         decrypt_sections decrypter (writePtr + unat n) secs))"

primrec encrypt_entries ::
  "u32 \<Rightarrow> (byte list \<times> KeyValueHolderCrypt) list \<Rightarrow> MMKVMapCrypt \<Rightarrow> AESCrypt \<Rightarrow> (MMKV, MMKVMapCrypt \<times> AESCrypt) cpp" where
  "encrypt_entries off [] dic c = returnC (dic, c)"
| "encrypt_entries off (itr # vec) dic c =
     (let kvHolder = (snd itr)\<lparr>kh_offset := off, kh_cryptStatus := getCurStatus c\<rparr>;
          n = crypt_size (snd itr)
      in bindC (crypt_bytes encrypt (4 + unat off) (4 + unat off) (unat n) c) (\<lambda>c.
         encrypt_entries (off + n) vec (dic(fst itr \<mapsto> kvHolder)) c))"

text \<open>The encoded values from memory behind the entries of the file.\<close>

definition write_prepared :: "byte list \<Rightarrow> nat \<Rightarrow> AESCrypt option \<Rightarrow> (MMKV, nat \<times> AESCrypt option) cpp" where
  "write_prepared preparedData writePtr encrypter =
     (if length preparedData > 0
      then (case readUInt32 (CodedInputData preparedData 0 (length preparedData)) of
              (Inl e, _) \<Rightarrow> throwC e
            | (Inr dataSize, _) \<Rightarrow>
                if dataSize > 0
                then let dataPtr = unat (pbRawVarint32Size dataSize); n = unat dataSize
                     in if dataPtr + n \<le> length preparedData
                        then (case encrypter of
                                None \<Rightarrow> bindC (memory_write writePtr (mem_read preparedData dataPtr n)) (\<lambda>_. returnC (writePtr + n, None))
                              | Some c \<Rightarrow>
                                  (case encrypt (mem_read preparedData dataPtr n) c of
                                     (Inl e, _) \<Rightarrow> throwC e
                                   | (Inr code, c) \<Rightarrow> bindC (memory_write writePtr code) (\<lambda>_. returnC (writePtr + n, Some c))))
                        else throwC MemoryFault
                else returnC (writePtr, encrypter))
      else returnC (writePtr, encrypter))"

definition ItemSizeHolderBounds :: "u32 list" where
  "ItemSizeHolderBounds = [0, 0x0f, 0xff, 0xffff, 0xffffff, 0xffffffff]"

text \<open>The size of the placeholder and its value, with the assertion on its value.\<close>

definition size_holder_crypt :: "environment \<Rightarrow> (byte list \<times> KeyValueHolderCrypt) list \<Rightarrow> (nat \<times> u32) option" where
  "size_holder_crypt E vec =
     (let smallestOffset = kh_offset (snd (hd vec))
      in if vec \<noteq> [] \<and> smallestOffset \<noteq> word_of_nat ItemSizeHolderSize \<and> smallestOffset \<le> 5
         then let n = unat smallestOffset; sizeHolder = randomItemSizeHolder (rand_value E) n
              in if n \<noteq> 0 \<and> ItemSizeHolderBounds ! n \<le> sizeHolder \<and> sizeHolder \<le> ItemSizeHolderBounds ! n
                 then Some (n, sizeHolder) else None
         else Some (ItemSizeHolderSize, randomItemSizeHolder (rand_value E) ItemSizeHolderSize))"

definition memmoveDictionary_crypt ::
  "environment \<Rightarrow> (byte list \<times> KeyValueHolderCrypt) list \<Rightarrow> MMKVMapCrypt \<Rightarrow> AESCrypt \<Rightarrow> AESCrypt option \<Rightarrow>
   byte list \<times> nat \<Rightarrow> (MMKV, MMKVMapCrypt \<times> AESCrypt option) cpp" where
  "memmoveDictionary_crypt E items dic decrypter encrypter preparedData =
     (let vec = sort_crypt items
      in case size_holder_crypt E vec of
           None \<Rightarrow> throwC MemoryFault
         | Some (sizeHolderSize, sizeHolder) \<Rightarrow>
             bindC (with_output (writeRawVarint32 sizeHolder)) (\<lambda>_ s.
               let begin_ptr = curWritePointer (the (m_output s))
               in bindC (encrypt_in_place (begin_ptr - sizeHolderSize) sizeHolderSize encrypter) (\<lambda>encrypter.
                  bindC (if vec = [] then returnC (begin_ptr, dic, encrypter)
                         else bindC (decrypt_sections decrypter begin_ptr (dataSections_crypt (map snd vec))) (\<lambda>writePtr.
                                case encrypter of
                                  None \<Rightarrow> returnC (writePtr, dic, None)
                                | Some c \<Rightarrow> bindC (encrypt_entries (word_of_nat sizeHolderSize) vec dic c) (\<lambda>(dic, c).
                                              returnC (writePtr, dic, Some c)))) (\<lambda>(writePtr, dic, encrypter).
                  bindC (write_prepared (fst preparedData) writePtr encrypter) (\<lambda>(writePtr, encrypter) s.
                    let writtenSize = writePtr - curWritePointer (the (m_output s))
                    in if writtenSize + sizeHolderSize = snd preparedData
                       then bindC (move_output (seekOut writtenSize)) (\<lambda>_. returnC (dic, encrypter)) s
                       else (Inl MemoryFault, s)))) s))"

text \<open>\<open>memmoveDictionary\<close> of a plain store whose new file is to be encrypted: the offsets are not updated, the
  dictionary is not used afterwards. Without an encrypter it is the one of \<open>MMKV_IO\<close>.\<close>

definition memmoveDictionary_encrypting ::
  "environment \<Rightarrow> nat \<Rightarrow> AESCrypt option \<Rightarrow> (MMKV, AESCrypt option) cpp" where
  "memmoveDictionary_encrypting E totalSize encrypter s =
     (case m_output s of
        None \<Rightarrow> (Inl MemoryFault, s)
      | Some out \<Rightarrow>
          let originOutputPtr = curWritePointer out;
              writePtr = originOutputPtr + ItemSizeHolderSize;
              vec = sort_by_offset (iterate E (m_dic s))
          in bindC
               (if vec = [] then returnC writePtr
                else bindC (move_sections writePtr (dataSections (map snd vec))) (\<lambda>writePtr s.
                       (Inr writePtr,
                        if encrypter = None
                        then s\<lparr>m_dic := update_offsets (word_of_nat ItemSizeHolderSize) vec (m_dic s)\<rparr> else s)))
               (\<lambda>writePtr.
                  bindC (with_output (writeUInt32 (randomItemSizeHolder (rand_value E) ItemSizeHolderSize))) (\<lambda>_.
                    let writtenSize = writePtr - originOutputPtr
                    in bindC (encrypt_in_place originOutputPtr writtenSize encrypter) (\<lambda>encrypter.
                       if writtenSize = totalSize
                       then bindC (move_output (seekOut (writtenSize - ItemSizeHolderSize))) (\<lambda>_. returnC encrypter)
                       else throwC MemoryFault))) s)"

text \<open>The argument \<open>newCrypter\<close>: null, the value that stands for no encryption, or a cipher. A cipher is changed by the
  call: its new state is a part of the result, and of the store when it is that of the store.\<close>

datatype newCrypter = NullCrypter | InvalidCryptPtr | NewCrypter AESCrypt

definition encrypter_of :: "newCrypter \<Rightarrow> AESCrypt option \<Rightarrow> AESCrypt option" where
  "encrypter_of new crypter =
     (case new of InvalidCryptPtr \<Rightarrow> None | NewCrypter c \<Rightarrow> Some c | NullCrypter \<Rightarrow> crypter)"

definition write_back_data ::
  "crypt_environment \<Rightarrow> AESCrypt option \<Rightarrow> byte list \<times> nat \<Rightarrow> (CryptMMKV, AESCrypt option) cpp" where
  "write_back_data X encrypter prepared s =
     (case m_crypter s of
        Some decrypter \<Rightarrow>
          with_dicCrypt (\<lambda>dic s.
            bindC (on_store (memmoveDictionary_crypt (plain_env X) (iterateCrypt X dic) dic decrypter encrypter prepared))
              (\<lambda>(dic, encrypter) s. (Inr encrypter, s\<lparr>m_dicCrypt := Some dic\<rparr>)) s) s
      | None \<Rightarrow>
          if fst prepared \<noteq> []
          then bindC (on_store (fullWriteBackWholeData (plain_env X) (fst prepared) (snd prepared))) (\<lambda>_.
               on_store (encrypt_in_place 4 (snd prepared) encrypter)) s
          else with_dic (\<lambda>_. on_store (memmoveDictionary_encrypting (plain_env X) (snd prepared) encrypter)) s)"

definition doFullWriteBack_crypt ::
  "crypt_environment \<Rightarrow> byte list \<times> nat \<Rightarrow> newCrypter \<Rightarrow> bool \<Rightarrow> (CryptMMKV, bool \<times> AESCrypt option) cpp" where
  "doFullWriteBack_crypt X prepared new needSync s =
     (let newIV = fillRandomIV (rand_word X);
          encrypter = map_option (resetIV newIV) (encrypter_of new (m_crypter s))
      in bindC (write_back_data X encrypter prepared) (\<lambda>encrypter s.
           let s = s\<lparr>m_store := (m_store s)\<lparr>m_actualSize := snd prepared\<rparr>,
                     m_crypter := (if new = NullCrypter then encrypter else m_crypter s)\<rparr>
           in bindC (on_store (recalculateCRCDigestWithIV (plain_env X) (if encrypter = None then None else Some newIV))) (\<lambda>_ s.
              bindC (if needSync then on_store sync_store else returnC ()) (\<lambda>_. returnC (True, encrypter))
                (s\<lparr>m_store := (m_store s)\<lparr>m_hasFullWriteback := True\<rparr>\<rparr>)) s)
        (s\<lparr>m_store := new_output (m_store s)\<rparr>))"

definition empty_dictionary :: "crypt_environment \<Rightarrow> (CryptMMKV, bool) cpp" where
  "empty_dictionary X s =
     (if m_crypter s \<noteq> None then with_dicCrypt (\<lambda>dic. returnC (iterateCrypt X dic = [])) s
      else with_dic (\<lambda>dic. returnC (iterate (plain_env X) dic = [])) s)"

text \<open>\<open>prepareEncode\<close> of the dictionary in use.\<close>

definition prepareEncode_store :: "crypt_environment \<Rightarrow> (CryptMMKV, byte list \<times> nat) cpp" where
  "prepareEncode_store X s =
     (if m_crypter s \<noteq> None
      then with_dicCrypt (\<lambda>dic s. (prepareEncode_crypt (fresh_mem X) (iterateCrypt X dic), s)) s
      else with_dic (\<lambda>dic. returnC ([], prepareEncode (plain_env X) dic)) s)"

section \<open>Reading a value\<close>

text \<open>A value in the file is decrypted out of the mapping.\<close>

definition holder_value_crypt :: "KeyValueHolderCrypt \<Rightarrow> (CryptMMKV, byte list) cpp" where
  "holder_value_crypt kvHolder s =
     (case m_crypter s of
        None \<Rightarrow> (Inl MemoryFault, s)
      | Some c \<Rightarrow>
          let f = m_file (m_store s)
          in if kh_type kvHolder = Offset \<and>
                \<not> (f_ptr f \<and> 4 + unat (kh_offset kvHolder) + unat (crypt_size kvHolder) \<le> f_size f)
             then (Inl MemoryFault, s)
             else (toMMBuffer_crypt (drop 4 (f_memory f)) c kvHolder, s))"

definition getRawDataForKey_crypt :: "(CryptMMKV, unit) cpp \<Rightarrow> byte list \<Rightarrow> (CryptMMKV, byte list) cpp" where
  "getRawDataForKey_crypt check key =
     bindC check (\<lambda>_ s.
       if m_crypter s \<noteq> None
       then with_dicCrypt (\<lambda>dic. case dic key of None \<Rightarrow> returnC [] | Some kvHolder \<Rightarrow> holder_value_crypt kvHolder) s
       else with_dic (\<lambda>dic. case dic key of
              None \<Rightarrow> returnC []
            | Some kvHolder \<Rightarrow>
                on_store (memory_read (4 + (unat (offset kvHolder) + unat (computedKVSize kvHolder))) (unat (valueSize kvHolder)))) s)"

section \<open>Expired keys, clearing\<close>

primrec filter_expired_crypt ::
  "environment \<Rightarrow> (byte list \<times> KeyValueHolderCrypt) list \<Rightarrow> nat \<Rightarrow> (CryptMMKV, nat) cpp" where
  "filter_expired_crypt E [] n = returnC n"
| "filter_expired_crypt E (itr # itrs) n =
     (if unat (realValueSize (snd itr)) < 4 then filter_expired_crypt E itrs n
      else bindC (holder_value_crypt (snd itr)) (\<lambda>buffer.
             let time = le_value (mem_read buffer (length buffer - 4) 4)
             in if time \<noteq> ExpireNever \<and> time \<le> unat (time_now E)
                then (\<lambda>s. filter_expired_crypt E itrs (n + 1)
                            (s\<lparr>m_dicCrypt := map_option (\<lambda>dic. dic(fst itr := None)) (m_dicCrypt s)\<rparr>))
                else filter_expired_crypt E itrs n))"

definition filterExpiredKeys_crypt :: "crypt_environment \<Rightarrow> (CryptMMKV, nat) cpp" where
  "filterExpiredKeys_crypt X s =
     (if \<not> m_enableKeyExpire (m_store s) then (Inr 0, s)
      else bindC (empty_dictionary X) (\<lambda>isEmpty.
             if isEmpty then returnC 0
             else (\<lambda>s. if m_crypter s \<noteq> None
                       then with_dicCrypt (\<lambda>dic. filter_expired_crypt (plain_env X) (iterateCrypt X dic) 0) s
                       else on_store (filter_expired (plain_env X) (iterate (plain_env X) (m_dic (m_store s))) 0) s)) s)"

definition reset_vector :: "MMKVMetaInfo \<Rightarrow> AESCrypt \<Rightarrow> AESCrypt" where
  "reset_vector m c = (if MMKVVersionRandomIV \<le> mi_version m then resetIV (mi_vector m) c else resetIV [] c)"

definition clearMemoryCache_crypt :: "bool \<Rightarrow> CryptMMKV \<Rightarrow> CryptMMKV" where
  "clearMemoryCache_crypt keepSpace s =
     (if m_needLoadFromFile (m_store s) then s
      else s\<lparr>m_dicCrypt := map_option (\<lambda>_. Map.empty) (m_dicCrypt s),
             m_crypter := map_option (reset_vector (m_metaInfo (m_store s))) (m_crypter s),
             m_store := clearMemoryCache keepSpace (m_store s)\<rparr>)"

section \<open>Loading\<close>

definition decode_into_dicCrypt :: "crypt_environment \<Rightarrow> bool \<Rightarrow> nat \<Rightarrow> (CryptMMKV, unit) cpp" where
  "decode_into_dicCrypt X greedy pos s =
     (case m_crypter s of
        None \<Rightarrow> (Inl MemoryFault, s)
      | Some crypter \<Rightarrow>
          with_dicCrypt (\<lambda>dic.
            bindC (on_store (memory_read 4 (m_actualSize (m_store s)))) (\<lambda>inputBuffer s.
              case (if greedy then greedyDecodeMapCrypt else decodeMapCrypt) (fresh_mem X) dic inputBuffer crypter pos of
                None \<Rightarrow> (Inl MemoryFault, s)
              | Some (Inl e, c) \<Rightarrow> (Inl e, s\<lparr>m_crypter := Some c\<rparr>)
              | Some (Inr dic, c) \<Rightarrow> (Inr (), s\<lparr>m_dicCrypt := Some dic, m_crypter := Some c\<rparr>))) s)"

definition decode_store :: "crypt_environment \<Rightarrow> bool \<Rightarrow> nat \<Rightarrow> (CryptMMKV, unit) cpp" where
  "decode_store X greedy pos s =
     (if m_crypter s \<noteq> None then decode_into_dicCrypt X greedy pos s
      else with_dic (\<lambda>_. on_store (decode_into_dic (if greedy then greedyDecodeMap else decodeMap) pos)) s)"

text \<open>The vector of the data, and the mapping, if it is gone or has another size than the file.\<close>

definition remap_crypt :: "crypt_environment \<Rightarrow> (CryptMMKV, unit) cpp" where
  "remap_crypt X s =
     (let m = m_metaInfo (m_store s)
      in on_store (map_again (plain_env X))
           (s\<lparr>m_crypter := (if MMKVVersionRandomIV \<le> mi_version m then map_option (resetIV (mi_vector m)) (m_crypter s)
                            else m_crypter s)\<rparr>))"

definition load_data_crypt :: "crypt_environment \<Rightarrow> (CryptMMKV, bool) cpp \<Rightarrow> bool \<Rightarrow> (CryptMMKV, unit) cpp" where
  "load_data_crypt X full needFullWriteback s =
     bindC (decode_store X needFullWriteback 0) (\<lambda>_ s.
       bindC (on_store (\<lambda>t. move_output (seekOut (m_actualSize t)) (new_output t))) (\<lambda>_.
         if needFullWriteback \<and> \<not> m_readOnly (m_store s) then bindC full (\<lambda>_. returnC ()) else returnC ()) s)
       (if m_crypter s \<noteq> None then s\<lparr>m_dicCrypt := map_option (\<lambda>_. Map.empty) (m_dicCrypt s)\<rparr>
        else s\<lparr>m_store := (m_store s)\<lparr>m_dic := Map.empty\<rparr>\<rparr>)"

definition load_nothing :: "(MMKV, unit) cpp" where
  "load_nothing t =
     (let t = new_output t
      in if m_readOnly t then (Inr (), t)
         else if 0 < m_actualSize t
         then bindC (writeActualSize 0 0 None True) (\<lambda>_. sync_store) t
         else bindC (writeActualSize 0 0 None False) (\<lambda>_. returnC ()) t)"

definition loadFromFile_crypt_body :: "crypt_environment \<Rightarrow> (CryptMMKV, bool) cpp \<Rightarrow> (CryptMMKV, unit) cpp" where
  "loadFromFile_crypt_body X full s =
     bindC (on_store (loadMetaInfoAndCheck (plain_env X))) (\<lambda>_.
       bindC (remap_crypt X) (\<lambda>_.
         bindC
           (\<lambda>s. if \<not> isFileValid (m_file (m_store s)) then (Inr (), s)
                else bindC (on_store (checkDataValid (plain_env X))) (\<lambda>(loadFromFile, needFullWriteback) s.
                       if loadFromFile \<and> 0 < m_actualSize (m_store s) then load_data_crypt X full needFullWriteback s
                       else on_store load_nothing s) s)
           (\<lambda>_ s. (Inr (), s\<lparr>m_store := (m_store s)\<lparr>m_needLoadFromFile := False\<rparr>\<rparr>)))) s"

definition partialLoadFromFile_crypt_body :: "crypt_environment \<Rightarrow> (CryptMMKV, unit) cpp \<Rightarrow> (CryptMMKV, unit) cpp" where
  "partialLoadFromFile_crypt_body X load s =
     (if \<not> isFileValid (m_file (m_store s)) then (Inr (), s)
      else let s = s\<lparr>m_store := (m_store s)\<lparr>m_metaInfo := read_meta (m_store s)\<rparr>\<rparr>;
               oldActualSize = m_actualSize (m_store s);
               reload = (\<lambda>s. load (clearMemoryCache_crypt False s))
           in bindC (on_store readActualSize) (\<lambda>n s.
                let s = s\<lparr>m_store := (m_store s)\<lparr>m_actualSize := n\<rparr>\<rparr>
                in if 0 < n \<and> size_in_file n (getFileSize (m_file (m_store s))) \<and> oldActualSize < n
                   then let addedSize = n - oldActualSize
                        in bindC (on_store (memory_read (4 + oldActualSize) (unat (word_of_nat addedSize :: u32)))) (\<lambda>bs s.
                             let s = s\<lparr>m_store := (m_store s)\<lparr>m_crcDigest := crc32 (plain_env X) (m_crcDigest (m_store s)) bs\<rparr>\<rparr>
                             in if m_crcDigest (m_store s) = mi_crcDigest (m_metaInfo (m_store s))
                                then bindC (decode_store X True oldActualSize) (\<lambda>_.
                                     bindC (on_store (move_output (seekOut addedSize))) (\<lambda>_ s.
                                       (Inr (), s\<lparr>m_store := (m_store s)\<lparr>m_hasFullWriteback := False\<rparr>\<rparr>))) s
                                else reload s) s
                   else reload s) s)"

definition checkLoadData_crypt_body ::
  "(CryptMMKV, unit) cpp \<Rightarrow> (CryptMMKV, unit) cpp \<Rightarrow> (CryptMMKV, unit) cpp" where
  "checkLoadData_crypt_body load partial_load s =
     (let t = m_store s
      in if m_needLoadFromFile t then load (s\<lparr>m_store := t\<lparr>m_needLoadFromFile := False\<rparr>\<rparr>)
         else if \<not> m_multiProcess t then (Inr (), s)
         else if \<not> isFileValid (m_metaFile t) then (Inr (), s)
         else let metaInfo = read_meta t
              in if mi_sequence (m_metaInfo t) \<noteq> mi_sequence metaInfo then load (clearMemoryCache_crypt False s)
                 else if mi_crcDigest (m_metaInfo t) \<noteq> mi_crcDigest metaInfo \<or>
                         mi_actualSize (m_metaInfo t) \<noteq> mi_actualSize metaInfo
                 then partial_load s
                 else (Inr (), s))"

definition clearAll_crypt_body ::
  "crypt_environment \<Rightarrow> (CryptMMKV, unit) cpp \<Rightarrow> (CryptMMKV, unit) cpp \<Rightarrow> bool \<Rightarrow> (CryptMMKV, unit) cpp" where
  "clearAll_crypt_body X check load keepSpace s =
     (if m_readOnly (m_store s) then (Inr (), s)
      else bindC check (\<lambda>_ s.
        let t = m_store s
        in if \<not> isFileValid_store t then (Inr (), s)
           else if getFileSize (m_file t) = m_expectedCapacity t \<and> m_actualSize t = 0 then (Inr (), s)
           else let t = (if \<not> keepSpace
                         then t\<lparr>m_file := snd (truncate_file (page_size (plain_env X)) (m_expectedCapacity t) (m_file t))\<rparr> else t);
                    newIV = fillRandomIV (rand_word X);
                    s = s\<lparr>m_store := t, m_crypter := map_option (resetIV newIV) (m_crypter s)\<rparr>
                in bindC (on_store (writeActualSize 0 0 (Some newIV) True)) (\<lambda>_ s.
                     let t = m_store s; s = s\<lparr>m_store := t\<lparr>m_metaFile := snd (msync (m_metaFile t))\<rparr>\<rparr>
                     in load (clearMemoryCache_crypt keepSpace s)) s) s)"

definition fullWriteback_crypt_body ::
  "crypt_environment \<Rightarrow> (bool \<Rightarrow> (CryptMMKV, unit) cpp) \<Rightarrow> newCrypter \<Rightarrow> bool \<Rightarrow> (CryptMMKV, bool \<times> AESCrypt option) cpp" where
  "fullWriteback_crypt_body X clear new onlyWhileExpire s =
     (let t = m_store s; unchanged = encrypter_of new (m_crypter s)
      in if m_hasFullWriteback t then (Inr (True, unchanged), s)
         else if m_needLoadFromFile t then (Inr (True, unchanged), s)
         else if \<not> isFileValid_store t then (Inr (False, unchanged), s)
         else if m_readOnly t then (Inr (False, unchanged), s)
         else bindC (if m_enableKeyExpire t then filterExpiredKeys_crypt X else returnC 0) (\<lambda>expiredCount s.
                if m_enableKeyExpire (m_store s) \<and> onlyWhileExpire \<and> expiredCount = 0 then (Inr (True, unchanged), s)
                else bindC (empty_dictionary X) (\<lambda>isEmpty s.
                  if isEmpty then bindC (clear False) (\<lambda>_. returnC (True, unchanged)) s
                  else bindC (prepareEncode_store X) (\<lambda>prepared s.
                    if 0 < snd prepared
                    then if snd prepared + 4 \<le> getFileSize (m_file (m_store s)) then doFullWriteBack_crypt X prepared new True s
                         else (Inl MemoryFault, s)
                    else (Inr (False, unchanged), s)) s) s) s)"

text \<open>The nesting of these is bounded as in \<open>MMKV_IO\<close>.\<close>

fun loadFromFile_crypt :: "nat \<Rightarrow> crypt_environment \<Rightarrow> (CryptMMKV, unit) cpp" where
  "loadFromFile_crypt 0 X = throwC MemoryFault"
| "loadFromFile_crypt (Suc n) X =
     (let load = loadFromFile_crypt n X;
          check = checkLoadData_crypt_body load (partialLoadFromFile_crypt_body X load)
      in loadFromFile_crypt_body X
           (bindC (fullWriteback_crypt_body X (clearAll_crypt_body X check load) NullCrypter False) (\<lambda>r. returnC (fst r))))"

definition checkLoadData_crypt :: "crypt_environment \<Rightarrow> (CryptMMKV, unit) cpp" where
  "checkLoadData_crypt X =
     (let load = loadFromFile_crypt load_depth X in checkLoadData_crypt_body load (partialLoadFromFile_crypt_body X load))"

definition clearAll_crypt :: "crypt_environment \<Rightarrow> bool \<Rightarrow> (CryptMMKV, unit) cpp" where
  "clearAll_crypt X = clearAll_crypt_body X (checkLoadData_crypt X) (loadFromFile_crypt load_depth X)"

definition fullWriteback_crypt :: "crypt_environment \<Rightarrow> newCrypter \<Rightarrow> bool \<Rightarrow> (CryptMMKV, bool \<times> AESCrypt option) cpp" where
  "fullWriteback_crypt X = fullWriteback_crypt_body X (clearAll_crypt X)"

section \<open>Keys\<close>

text \<open>The key that the store reports: the local array of 32 bytes is not initialised, \<open>junk\<close> is what it holds.\<close>

definition cryptKey :: "(nat \<Rightarrow> byte) \<Rightarrow> CryptMMKV \<Rightarrow> byte list" where
  "cryptKey junk s =
     (case m_crypter s of
        None \<Rightarrow> []
      | Some c \<Rightarrow> takeWhile (\<lambda>b. b \<noteq> 0) (getKey (map junk [0..<32]) c))"

definition checkReSetCryptKey :: "crypt_environment \<Rightarrow> byte list option \<Rightarrow> bool \<Rightarrow> (CryptMMKV, unit) cpp" where
  "checkReSetCryptKey X key aes256 s =
     (let given = (case key of None \<Rightarrow> [] | Some k \<Rightarrow> k)
      in if m_crypter s \<noteq> None
         then if given \<noteq> []
              then if cryptKey (fresh_mem X) s \<noteq> given
                   then checkLoadData_crypt X (s\<lparr>m_crypter := Some (AESCrypt_new given [] aes256)\<rparr>)
                   else (Inr (), s)
              else checkLoadData_crypt X (s\<lparr>m_crypter := None\<rparr>)
         else if given \<noteq> [] then checkLoadData_crypt X (s\<lparr>m_crypter := Some (AESCrypt_new given [] aes256)\<rparr>)
         else (Inr (), s))"

definition reKey :: "crypt_environment \<Rightarrow> byte list \<Rightarrow> bool \<Rightarrow> (CryptMMKV, bool) cpp" where
  "reKey X key aes256 s =
     (if m_readOnly (m_store s) then (Inr False, s)
      else bindC (checkLoadData_crypt X) (\<lambda>_ s.
        if \<not> isFileValid_store (m_store s) then (Inr False, s)
        else let write = (\<lambda>new. \<lambda>s. fullWriteback_crypt X new False (s\<lparr>m_store := (m_store s)\<lparr>m_hasFullWriteback := False\<rparr>\<rparr>));
                 finish = (\<lambda>ret s. (Inr ret, if ret then clearMemoryCache_crypt False s else s))
             in if m_crypter s \<noteq> None
                then if key \<noteq> []
                     then if key = cryptKey (fresh_mem X) s then (Inr True, s)
                          else bindC (write (NewCrypter (AESCrypt_new key [] aes256))) (\<lambda>(ret, newCrypt) s.
                                 finish ret (if ret then s\<lparr>m_crypter := newCrypt\<rparr> else s)) s
                     else bindC (write InvalidCryptPtr) (\<lambda>(ret, _) s.
                            finish ret (if ret then s\<lparr>m_crypter := None, m_hasDic := True,
                                                    m_store := (if m_hasDic s then m_store s else (m_store s)\<lparr>m_dic := Map.empty\<rparr>)\<rparr>
                                        else s)) s
                else if key \<noteq> []
                     then bindC (write (NewCrypter (AESCrypt_new key [] aes256))) (\<lambda>(ret, newCrypt) s.
                            finish ret (if ret then s\<lparr>m_crypter := newCrypt,
                                                    m_dicCrypt := (case m_dicCrypt s of None \<Rightarrow> Some Map.empty | Some dic \<Rightarrow> Some dic)\<rparr>
                                        else s)) s
                     else (Inr True, s)) s)"

end
