(* ===== verification/CryptRewrite.thy ===== *)
theory CryptRewrite
  imports CryptStore
begin

text \<open>
  The write-back of an encrypted store in place (\<open>memmoveDictionary\<close> of \<open>MMKV_IO.cpp\<close> for \<open>MMKVMapCrypt\<close>): the
  dictionary of a decoded log, the log that the write-back leaves (\<open>new_log\<close>), the sections that are decrypted to the
  front of the file with copies of the old cipher, and the entries that are encrypted again one by one with the
  new one. The result: the file holds the code of the new log, and the updated holders are in the places of its entries.
\<close>

unbundle bit_operations_syntax

section \<open>The dictionary of an encrypted log\<close>

text \<open>The dictionary has a holder for each live entry of the log, and it has the place of the entry.\<close>

abbreviation live_place :: "nat \<Rightarrow> log_entry \<Rightarrow> nat \<times> log_entry" where
  "live_place p kv \<equiv> (p, kv)"

definition crypt_dic :: "view \<Rightarrow> nat \<Rightarrow> log_entry list \<Rightarrow> MMKVMapCrypt \<Rightarrow> bool" where
  "crypt_dic v pos es d \<longleftrightarrow>
     (\<forall>k. rel_option (\<lambda>(p, kv) h. placed v p kv h) (map_of (live_items live_place pos es) k) (d k))"

definition iterates_crypt :: "crypt_environment \<Rightarrow> bool" where
  "iterates_crypt X \<longleftrightarrow> (\<forall>d. finite (dom d) \<longrightarrow> distinct (map fst (iterateCrypt X d)) \<and> map_of (iterateCrypt X d) = d)"

lemma decode_crypt_dic:
  assumes "cipher_ok c" and "encrypt (hdr @ enc_log es) c = (Inr code, c')"
    and "reads readInt32 hdr w" and "\<forall>kv \<in> set es. valid_entry kv \<and> length (fst kv) < 2 ^ 16"
    and "length code < 2 ^ 32"
  shows "\<exists>d' e. decodeMapCrypt junk dic code c 0 = Some (Inr d', e) \<and> greedyDecodeMapCrypt junk Map.empty code c 0 = Some (Inr d', e) \<and>
    get_cfb e = get_cfb c' \<and> cipher_ok e \<and> m_key e = m_key c \<and> m_isAES256 e = m_isAES256 c \<and>
    crypt_dic (view_from c 0 code) (length hdr) es d'"
proof -
  let ?v = "view_from c 0 code"
  let ?P = "\<lambda>d m. \<forall>k. rel_option (\<lambda>(p, kv) h. placed ?v p kv h) (m k) (d k)"
  have step: "?P (d(fst kv := (if snd kv = [] then None else Some h))) (keep_last live_place p kv m)"
    if "?P d m" "placed ?v p kv h" for p kv h d m
    using that by (simp add: keep_last_def)
  have "?P Map.empty Map.empty" by simp
  from decode_header_invariant [where P = ?P and g = "keep_last live_place", OF assms this, of junk] step
  obtain d' e where "decodeMapCrypt_block 0 Map.empty (CodedInputDataCrypt junk code c) = Some (None, d', e)"
    "get_cfb e = get_cfb c'" "cipher_ok e" "m_key e = m_key c" "m_isAES256 e = m_isAES256 c"
    "?P d' (map_of (live_items live_place (length hdr) es))"
    unfolding run_steps_live_items by blast
  then show ?thesis
    by (auto simp: decodeMapCrypt_def greedyDecodeMapCrypt_def decodeOneMapCrypt_def catch_swap_def catch_greedy_def crypt_dic_def)
qed

definition holder_for :: "MMKVMapCrypt \<Rightarrow> nat \<Rightarrow> log_entry \<Rightarrow> KeyValueHolderCrypt" where
  "holder_for d p kv = the (d (fst kv))"

lemma distinct_live_items: "distinct (map fst (live_items f pos es))"
  using distinct_live_at [of pos es] by (simp add: live_items_def comp_def split_def)

lemma map_of_live_items: "(p, kv) \<in> set (live_at pos es) \<Longrightarrow> map_of (live_items f pos es) (fst kv) = Some (f p kv)"
  using distinct_live_items [of f pos es] by (intro map_of_is_SomeI) (force simp: live_items_def)+

lemma crypt_dic_items:
  assumes "crypt_dic v pos es d"
  shows "d = map_of (live_items (holder_for d) pos es)"
    and "(p, kv) \<in> set (live_at pos es) \<Longrightarrow> d (fst kv) = Some (holder_for d p kv) \<and> placed v p kv (holder_for d p kv)"
proof -
  have rel: "rel_option (\<lambda>(p, kv) h. placed v p kv h) (map_of (live_items live_place pos es) k) (d k)" for k
    using assms by (simp add: crypt_dic_def)
  have some: "d (fst kv) = Some (holder_for d p kv) \<and> placed v p kv (holder_for d p kv)" if "(p, kv) \<in> set (live_at pos es)" for p kv
    using rel [of "fst kv"] map_of_live_items [OF that, of live_place] by (auto simp: option_rel_Some1 holder_for_def)
  then show "(p, kv) \<in> set (live_at pos es) \<Longrightarrow> d (fst kv) = Some (holder_for d p kv) \<and> placed v p kv (holder_for d p kv)" .
  show "d = map_of (live_items (holder_for d) pos es)"
  proof
    fix k
    show "d k = map_of (live_items (holder_for d) pos es) k"
    proof (cases "\<exists>p kv. (p, kv) \<in> set (live_at pos es) \<and> fst kv = k")
      case True
      then obtain p kv where pk: "(p, kv) \<in> set (live_at pos es)" "fst kv = k" by blast
      show ?thesis using some [OF pk(1)] map_of_live_items [OF pk(1), of "holder_for d"] pk(2) by simp
    next
      case False
      have "map_of (live_items f pos es) k = None" for f :: "nat \<Rightarrow> log_entry \<Rightarrow> 'x"
        using False by (force simp: map_of_eq_None_iff live_items_def)
      then show ?thesis using rel [of k] by (metis option.rel_distinct(1) option.exhaust)
    qed
  qed
qed

lemma set_iterate_crypt:
  assumes "iterates_crypt X" and "crypt_dic v pos es d"
  shows "mset (iterateCrypt X d) = mset (live_items (holder_for d) pos es)" and "distinct (map fst (iterateCrypt X d))"
proof -
  let ?xs = "iterateCrypt X d" and ?ys = "live_items (holder_for d) pos es"
  have d: "map_of ?ys = d" using crypt_dic_items(1) [OF assms(2)] by simp
  then have "finite (dom d)" by (metis finite_dom_map_of)
  then have x: "distinct (map fst ?xs)" "map_of ?xs = d" using assms(1) by (simp_all add: iterates_crypt_def)
  then show "distinct (map fst ?xs)" by simp
  have y: "distinct (map fst ?ys)" by (rule distinct_live_items)
  have "set ?xs = set ?ys" using x y d by (auto simp: map_of_eq_Some_iff simp flip: map_of_eq_Some_iff)
  then show "mset ?xs = mset ?ys" using x(1) y by (metis distinct_map set_eq_iff_mset_eq_distinct)
qed

section \<open>The two parts of the dictionary\<close>

text \<open>Holders of the offset kind, in the order of the file, and values in memory, in the order of the dictionary.\<close>

definition file_part :: "MMKVMapCrypt \<Rightarrow> nat \<Rightarrow> log_entry list \<Rightarrow> (nat \<times> log_entry) list" where
  "file_part d pos es = filter (\<lambda>(p, kv). kh_type (holder_for d p kv) = Offset) (live_at pos es)"

definition file_items :: "MMKVMapCrypt \<Rightarrow> nat \<Rightarrow> log_entry list \<Rightarrow> (byte list \<times> KeyValueHolderCrypt) list" where
  "file_items d pos es = map (\<lambda>(p, kv). (fst kv, holder_for d p kv)) (file_part d pos es)"

definition memory_items :: "crypt_environment \<Rightarrow> MMKVMapCrypt \<Rightarrow> (byte list \<times> KeyValueHolderCrypt) list" where
  "memory_items X d = filter (\<lambda>itr. \<not> in_file_holder itr) (iterateCrypt X d)"

definition memory_entries :: "crypt_environment \<Rightarrow> MMKVMapCrypt \<Rightarrow> log_entry list \<Rightarrow> log_entry list" where
  "memory_entries X d es = map (\<lambda>itr. (fst itr, the (log_contents es (fst itr)))) (memory_items X d)"

definition file_entries :: "MMKVMapCrypt \<Rightarrow> nat \<Rightarrow> log_entry list \<Rightarrow> log_entry list" where
  "file_entries d pos es = map snd (file_part d pos es)"

text \<open>The log that the write-back leaves.\<close>

definition new_log :: "crypt_environment \<Rightarrow> MMKVMapCrypt \<Rightarrow> nat \<Rightarrow> log_entry list \<Rightarrow> log_entry list" where
  "new_log X d pos es = file_entries d pos es @ memory_entries X d es"

lemma file_part_live: "(p, kv) \<in> set (file_part d pos es) \<longleftrightarrow> (p, kv) \<in> set (live_at pos es) \<and> kh_type (holder_for d p kv) = Offset"
  by (simp add: file_part_def)

lemma live_at_contents: "(p, kv) \<in> set (live_at pos es) \<Longrightarrow> log_contents es (fst kv) = Some (snd kv)"
  using map_of_live_items [of p kv pos es "\<lambda>_. snd"] live_at_snd [of pos es]
  by (simp add: log_contents_live live_items_def map_of_map flip: live_at_snd [of pos es]) (simp add: comp_def split_def)

lemma image_mset_filter_commute: "(\<And>x. x \<in># M \<Longrightarrow> P (f x) = Q x) \<Longrightarrow> filter_mset P (image_mset f M) = image_mset f (filter_mset Q M)"
  by (induction M) auto

lemma mset_new_log:
  assumes "iterates_crypt X" and "crypt_dic v pos es d"
  shows "mset (new_log X d pos es) = mset (live es)"
proof -
  let ?L = "mset (live_at pos es)" and ?h = "\<lambda>(p, kv). (fst kv, holder_for d p kv)"
  let ?off = "\<lambda>(p, kv). kh_type (holder_for d p kv) = Offset"
  have "mset (memory_items X d) = filter_mset (\<lambda>itr. \<not> in_file_holder itr) (image_mset ?h ?L)"
    using set_iterate_crypt(1) [OF assms] by (simp add: memory_items_def live_items_def)
  also have "\<dots> = image_mset ?h (filter_mset (\<lambda>x. \<not> ?off x) ?L)"
    by (rule image_mset_filter_commute) (simp add: split_def)
  finally have "mset (memory_entries X d es) =
      image_mset (\<lambda>itr. (fst itr, the (log_contents es (fst itr)))) (image_mset ?h (filter_mset (\<lambda>x. \<not> ?off x) ?L))"
    by (simp add: memory_entries_def)
  also have "\<dots> = image_mset snd (filter_mset (\<lambda>x. \<not> ?off x) ?L)"
    unfolding multiset.map_comp
    by (rule image_mset_cong) (use live_at_contents in \<open>auto simp: comp_def\<close>)
  finally have m: "mset (memory_entries X d es) = image_mset snd (filter_mset (\<lambda>x. \<not> ?off x) ?L)" .
  have "mset (new_log X d pos es) = image_mset snd (filter_mset ?off ?L + filter_mset (\<lambda>x. \<not> ?off x) ?L)"
    unfolding image_mset_union m [symmetric] by (simp add: new_log_def file_entries_def file_part_def)
  also have "filter_mset ?off ?L + filter_mset (\<lambda>x. \<not> ?off x) ?L = ?L" by (rule multiset_partition [symmetric])
  finally show ?thesis using live_at_snd [of pos es] by (metis mset_map)
qed

lemma live_distinct:
  assumes "distinct (map fst xs)" and "\<forall>kv \<in> set xs. snd kv \<noteq> []"
  shows "live xs = xs"
  using assms
proof (induction xs)
  case (Cons kv xs)
  have "live (kv # xs) = (if snd kv = [] \<or> fst kv \<in> fst ` set xs then live xs else kv # live xs)"
    using live_at_snd by (simp add: live_def)
  then show ?case using Cons by auto
qed (simp add: live_def)

lemma log_contents_distinct:
  "distinct (map fst xs) \<Longrightarrow> \<forall>kv \<in> set xs. snd kv \<noteq> [] \<Longrightarrow> log_contents xs = map_of xs"
  by (simp add: log_contents_live live_distinct)

lemma distinct_live: "distinct (map fst (live es))"
  using distinct_live_at [of 0 es] by (simp add: live_def comp_def)

lemma new_log_contents:
  assumes "mset xs = mset (live es)"
  shows "log_contents xs = log_contents es" and "length (enc_log xs) = length (enc_log (live es))"
    and "distinct (map fst xs)" and "set xs = set (live es)"
proof -
  show s: "set xs = set (live es)" by (metis assms set_mset_mset)
  have "mset (map fst xs) = mset (map fst (live es))" using assms by simp
  then show d: "distinct (map fst xs)" using distinct_live [of es] mset_eq_imp_distinct_iff by blast
  have "map_of xs = map_of (live es)" by (rule map_of_inject_set [OF d distinct_live, THEN iffD2, OF s])
  then show "log_contents xs = log_contents es"
    using log_contents_distinct [OF d] s live_keys [of _ es] by (simp add: log_contents_live [of es])
  have "length (enc_log ys) = sum_mset (image_mset (\<lambda>kv. length (enc_entry kv)) (mset ys))" for ys
    by (simp add: enc_log_def enc_list_def length_concat sum_mset_sum_list comp_def flip: mset_map)
  then show "length (enc_log xs) = length (enc_log (live es))" using assms by simp
qed

lemma placed_offset:
  assumes "placed v p kv h" and "kh_type h = Offset" and "p + length (enc_entry kv) < 2 ^ 32"
  shows "unat (kh_offset h) = p" and "unat (crypt_size h) = length (enc_entry kv)"
    and "toTuple h = (kh_offset h, crypt_size h, status_of (v_status v p))"
proof -
  have pt: "unat (kh_offset h) = p" "unat (kh_pbKeyValueSize h) + unat (kh_keySize h) + length (snd kv) = length (enc_entry kv)"
    "unat (kh_valueSize h) = length (snd kv)" "kh_cryptStatus h = status_of (v_status v p)"
    using assms(1,2) by (simp_all add: placed_def points_to_def)
  show "unat (kh_offset h) = p" by fact
  show "toTuple h = (kh_offset h, crypt_size h, status_of (v_status v p))"
    using pt(4) by (simp add: toTuple_def crypt_size_def)
  have u: "unat (ucast (kh_pbKeyValueSize h) :: u32) = unat (kh_pbKeyValueSize h)" "unat (ucast (kh_keySize h) :: u32) = unat (kh_keySize h)"
    using unat_byte_less [of "kh_pbKeyValueSize h"] unat_u16_less [of "kh_keySize h"]
    by (simp_all add: unsigned_ucast_eq take_bit_nat_eq_self less_trans [OF unat_byte_less])
  show "unat (crypt_size h) = length (enc_entry kv)"
    using pt(2,3) u assms(3) by (simp add: crypt_size_def unat_word_ariths)
qed

lemma placed_in_range:
  assumes "crypt_dic v pos es d" and "in_range pos es" and "(p, kv) \<in> set (file_part d pos es)"
  shows "unat (kh_offset (holder_for d p kv)) = p" and "unat (crypt_size (holder_for d p kv)) = length (enc_entry kv)"
    and "toTuple (holder_for d p kv) = (kh_offset (holder_for d p kv), crypt_size (holder_for d p kv), status_of (v_status v p))"
    and "p + length (enc_entry kv) < 2 ^ 32" and "placed v p kv (holder_for d p kv)"
proof -
  have live: "(p, kv) \<in> set (live_at pos es)" "kh_type (holder_for d p kv) = Offset"
    using assms(3) by (simp_all add: file_part_live)
  show b: "p + length (enc_entry kv) < 2 ^ 32" by (rule in_range_entry(3) [OF assms(2) live(1)])
  show pl: "placed v p kv (holder_for d p kv)" using crypt_dic_items(2) [OF assms(1) live(1)] by simp
  show "unat (kh_offset (holder_for d p kv)) = p" "unat (crypt_size (holder_for d p kv)) = length (enc_entry kv)"
    "toTuple (holder_for d p kv) = (kh_offset (holder_for d p kv), crypt_size (holder_for d p kv), status_of (v_status v p))"
    by (rule placed_offset [OF pl live(2) b])+
qed

lemma live_at_sorted_pairs: "\<forall>kv \<in> set es. valid_entry kv \<Longrightarrow> sorted_wrt (<) (map fst (file_part d pos es))"
  using live_at_sorted [of es pos] by (simp add: file_part_def sorted_wrt_map sorted_wrt_filter)

lemma mset_file_items:
  assumes "iterates_crypt X" and "crypt_dic v pos es d"
  shows "mset (filter in_file_holder (iterateCrypt X d)) = mset (file_items d pos es)"
proof -
  let ?h = "\<lambda>(p, kv). (fst kv, holder_for d p kv)"
  have "mset (filter in_file_holder (iterateCrypt X d)) = filter_mset in_file_holder (image_mset ?h (mset (live_at pos es)))"
    using set_iterate_crypt(1) [OF assms(1,2)] by (simp add: live_items_def)
  also have "\<dots> = image_mset ?h (filter_mset (\<lambda>(p, kv). kh_type (holder_for d p kv) = Offset) (mset (live_at pos es)))"
    by (rule image_mset_filter_commute) (simp add: split_def)
  also have "\<dots> = mset (file_items d pos es)" by (simp add: file_items_def file_part_def)
  finally show ?thesis .
qed

lemma sort_crypt_items:
  assumes "iterates_crypt X" and dic: "crypt_dic v pos es d" and "in_range pos es"
  shows "sort_crypt (iterateCrypt X d) = file_items d pos es"
proof -
  let ?f = "\<lambda>itr :: byte list \<times> KeyValueHolderCrypt. unat (kh_offset (snd itr))"
  note m = mset_file_items [OF assms(1,2)]
  have f: "map ?f (file_items d pos es) = map fst (file_part d pos es)"
    using placed_in_range(1) [OF dic assms(3)] by (auto simp: file_items_def)
  have sorted: "sorted_wrt (<) (map ?f (file_items d pos es))"
    unfolding f by (rule live_at_sorted_pairs [OF in_range_valid [OF assms(3)]])
  then have s: "sorted (map ?f (file_items d pos es))" "distinct (map ?f (file_items d pos es))"
    by (simp_all add: strict_sorted_iff)
  have "set (filter in_file_holder (iterateCrypt X d)) = set (file_items d pos es)" by (metis m set_mset_mset)
  then have "inj_on ?f (set (filter in_file_holder (iterateCrypt X d)))" using s(2) by (simp only: distinct_map)
  then show ?thesis
    unfolding sort_crypt_def using m s(1) by (intro sort_key_inj_key_eq)
qed

section \<open>Preparing the values in memory\<close>

lemma locates_memory:
  assumes "locates v h x" and "kh_type h \<noteq> Offset"
  shows "toMMBuffer_crypt base c h = Inr x"
proof -
  let ?c = "(AESCrypt_new [] [] False)\<lparr>m_aesKey := Some (encrypt_key (v_key v) (v_aes256 v)), m_isAES256 := v_aes256 v\<rparr>"
  have "toMMBuffer_crypt (v_code v) ?c h = Inr x" using assms(1) by (simp add: locates_def)
  then show ?thesis using assms(2) by (cases "kh_type h") (simp_all add: toMMBuffer_crypt_def)
qed

lemma memory_values_run:
  assumes "\<forall>itr \<in> set items. toMMBuffer_crypt [] (AESCrypt_new [] [] False) (snd itr) = Inr (val itr)"
  shows "memory_values items = Inr (map (\<lambda>itr. (fst itr, val itr)) items)"
  using assms by (induction items) simp_all

lemma memory_items_values:
  assumes "iterates_crypt X" and "crypt_dic v pos es d"
  shows "memory_values (memory_items X d) = Inr (memory_entries X d es)"
    and "kv \<in> set (memory_entries X d es) \<Longrightarrow> kv \<in> set (live es)"
proof -
  have item: "\<exists>p x. (p, (fst itr, x)) \<in> set (live_at pos es) \<and> snd itr = holder_for d p (fst itr, x) \<and> kh_type (snd itr) \<noteq> Offset"
    if "itr \<in> set (memory_items X d)" for itr
  proof -
    have "itr \<in> set (live_items (holder_for d) pos es)"
      using that set_iterate_crypt(1) [OF assms] by (metis (no_types, lifting) memory_items_def mem_Collect_eq set_filter set_mset_mset)
    then show ?thesis using that by (force simp: live_items_def memory_items_def)
  qed
  have "toMMBuffer_crypt [] (AESCrypt_new [] [] False) (snd itr) = Inr (the (log_contents es (fst itr)))"
    if i: "itr \<in> set (memory_items X d)" for itr
  proof -
    obtain p x where x: "(p, (fst itr, x)) \<in> set (live_at pos es)" "snd itr = holder_for d p (fst itr, x)" "kh_type (snd itr) \<noteq> Offset"
      using item [OF i] by blast
    have "locates v (snd itr) x" using crypt_dic_items(2) [OF assms(2) x(1)] x(2) by (simp add: placed_def)
    then show ?thesis using locates_memory x(3) live_at_contents [OF x(1)] by simp
  qed
  then show "memory_values (memory_items X d) = Inr (memory_entries X d es)"
    unfolding memory_entries_def by (intro memory_values_run) blast
  show "kv \<in> set (live es)" if "kv \<in> set (memory_entries X d es)"
  proof -
    have "kv \<in># mset (new_log X d pos es)" using that by (simp add: new_log_def)
    then show ?thesis using mset_new_log [OF assms] by simp
  qed
qed

lemma holder_offsets:
  assumes "crypt_dic v pos es d" and "in_range pos es" and "itr \<in> set (file_items d pos es)"
  shows "unat (kh_offset (snd itr)) = pos \<or> pos + 3 \<le> unat (kh_offset (snd itr))"
proof -
  obtain p kv where itr: "itr = (fst kv, holder_for d p kv)" "(p, kv) \<in> set (file_part d pos es)"
    using assms(3) by (auto simp: file_items_def)
  then show ?thesis
    using placed_in_range(1) [OF assms(1,2) itr(2)] live_at_start [OF in_range_valid [OF assms(2)], of p kv pos]
    by (auto simp: file_part_live)
qed

lemma smallest_offset_header:
  assumes "iterates_crypt X" and "crypt_dic v 4 es d" and "in_range 4 es"
  shows "smallest_offset (iterateCrypt X d) = 4"
proof -
  let ?m = "\<lambda>m (itr :: byte list \<times> KeyValueHolderCrypt). min m (kh_offset (snd itr))"
  have "foldl ?m m xs \<in> {4, 6}" if "m \<in> {4, 6}" "\<forall>itr \<in> set xs. unat (kh_offset (snd itr)) = 4 \<or> 7 \<le> unat (kh_offset (snd itr))" for m xs
    using that
  proof (induction xs arbitrary: m)
    case (Cons itr xs)
    have "kh_offset (snd itr) = 4 \<or> 7 \<le> kh_offset (snd itr)"
      using Cons.prems(2) word_of_nat_unat [of "kh_offset (snd itr)" 4] by (auto simp: word_le_nat_alt)
    then have "min m (kh_offset (snd itr)) \<in> {4, 6}"
      using Cons.prems(1) by (auto simp: min_def word_le_nat_alt)
    then show ?case using Cons by simp
  qed simp
  moreover have "unat (kh_offset (snd itr)) = 4 \<or> 7 \<le> unat (kh_offset (snd itr))"
    if "itr \<in> set (filter in_file_holder (iterateCrypt X d))" for itr
  proof -
    have "itr \<in> set (file_items d 4 es)" using that mset_file_items [OF assms(1,2)] by (metis set_mset_mset)
    from holder_offsets [OF assms(2,3) this] show ?thesis by simp
  qed
  ultimately have "foldl ?m 6 (filter in_file_holder (iterateCrypt X d)) \<in> {4, 6}" by blast
  then show ?thesis by (auto simp: smallest_offset_def Let_def ItemSizeHolderSize_def word_less_nat_alt)
qed

lemma sum_file_items:
  assumes "crypt_dic v pos es d" and "in_range pos es"
  shows "sum_list (map (\<lambda>itr. unat (crypt_size (snd itr))) (file_items d pos es)) = length (enc_log (file_entries d pos es))"
proof -
  have "map (\<lambda>itr. unat (crypt_size (snd itr))) (file_items d pos es) = map (\<lambda>pkv. length (enc_entry (snd pkv))) (file_part d pos es)"
    using placed_in_range(2) [OF assms] by (auto simp: file_items_def)
  then show ?thesis by (simp add: file_entries_def enc_log_def enc_list_def length_concat comp_def)
qed

lemma length_enc_log_append [simp]: "length (enc_log (xs @ ys)) = length (enc_log xs) + length (enc_log ys)"
  by (simp add: enc_log_append)

definition prepared_bytes :: "log_entry list \<Rightarrow> byte list" where
  "prepared_bytes es = (if es = [] then [] else framed (enc_log es))"

lemma read_framed:
  "\<exists>s. readUInt32 (CodedInputData (framed bs) 0 (length (framed bs))) = (Inr (word_of_nat (length bs)), s)"
proof -
  have "remaining (CodedInputData (framed bs) 0 (length (framed bs))) = enc_uint32 (word_of_nat (length bs)) @ bs"
    unfolding remaining_new framed_def ..
  from readsD [OF reads_readUInt32 in_wf_new this] show ?thesis by blast
qed

lemma prepareEncode_crypt_run:
  assumes "iterates_crypt X" and "crypt_dic v 4 es d" and "in_range 4 es" and small: "length (enc_log (live es)) < 2 ^ 32 - 5"
  shows "prepareEncode_crypt (fresh_mem X) (iterateCrypt X d) =
    Inr (prepared_bytes (memory_entries X d es), 4 + length (enc_log (live es)))"
proof -
  let ?M = "memory_entries X d es" and ?F = "file_entries d 4 es"
  let ?f = "\<lambda>itr :: byte list \<times> KeyValueHolderCrypt. unat (crypt_size (snd itr))"
  have len: "length (enc_log (live es)) = length (enc_log ?F) + length (enc_log ?M)"
    using new_log_contents(2) [OF mset_new_log [OF assms(1,2)]] by (simp add: new_log_def)
  have "sum_list (map ?f (filter in_file_holder (iterateCrypt X d))) = sum_list (map ?f (file_items d 4 es))"
    using mset_file_items [OF assms(1,2)] by (simp only: sum_mset_sum_list [symmetric] mset_map)
  then have total: "sum_list (map ?f (filter in_file_holder (iterateCrypt X d))) = length (enc_log ?F)"
    using sum_file_items [OF assms(2,3)] by simp
  have vals: "memory_values (filter (\<lambda>itr. \<not> in_file_holder itr) (iterateCrypt X d)) = Inr ?M"
    using memory_items_values(1) [OF assms(1,2)] by (simp add: memory_items_def)
  have "\<forall>kv \<in> set ?M. fst kv \<noteq> []"
    using memory_items_values(2) [OF assms(1,2)] live_keys in_range_valid [OF assms(3)] by (fastforce simp: valid_entry_def)
  then have "filter (\<lambda>kv. fst kv \<noteq> []) ?M = ?M" by simp
  then have enc: "encodeDataWithObject_MMKVVector (fresh_mem X) ?M = Inr (framed (enc_log ?M))"
    using encode_result_small [of "enc_log ?M"] small len by (simp add: encodeDataWithObject_MMKVVector_eq)
  have w: "unat (word_of_nat (length (enc_log ?M)) :: u32) = length (enc_log ?M)"
    using small len by (intro unat_word_of_nat_u32) simp
  note read_framed [of "enc_log ?M"]
  then show ?thesis
    using total vals enc w len smallest_offset_header [OF assms(1-3)]
    by (auto simp: prepareEncode_crypt_def Let_def prepared_bytes_def)
qed

section \<open>The cipher on the data_mapped file\<close>

abbreviation data_mapped :: "MMKV \<Rightarrow> bool" where
  "data_mapped s \<equiv> f_ptr (m_file s) \<and> \<not> f_readOnly (m_file s) \<and> f_size (m_file s) \<le> length (f_disk (m_file s))"

lemma crypt_bytes_run:
  assumes "data_mapped s" and "src + n \<le> f_size (m_file s)" and "dst + n \<le> f_size (m_file s)" and "dst \<le> src"
    and "f (mem_read (f_disk (m_file s)) src n) c = (Inr out, c')" and "length out = n"
  shows "crypt_bytes f src dst n c s = (Inr c', set_disk (mem_write (f_disk (m_file s)) dst out) s)"
  using assms by (simp add: crypt_bytes_def memory_read_def memory_write_def bindC_def returnC_def)

abbreviation section_place :: "u32 \<times> u32 \<times> AESCryptStatus \<Rightarrow> nat \<times> nat" where
  "section_place sec \<equiv> (4 + unat (fst sec), unat (fst (snd sec)))"

text \<open>Decrypting the sections to the front: no section is overwritten before it is read.\<close>

lemma decrypt_sections_run:
  assumes "data_mapped s" and "sorted_wrt separated (map section_place secs)"
    and "secs \<noteq> [] \<Longrightarrow> w \<le> fst (section_place (hd secs))"
    and "\<forall>sec \<in> set secs. fst (section_place sec) + snd (section_place sec) \<le> f_size (m_file s)"
    and "w + sum_list (map (\<lambda>sec. unat (fst (snd sec))) secs) \<le> f_size (m_file s)"
    and "\<forall>sec \<in> set secs. length (plain sec) = snd (section_place sec) \<and>
      (\<exists>c. decrypt (mem_read (f_disk (m_file s)) (fst (section_place sec)) (snd (section_place sec)))
             (cloneWithStatus (snd (snd sec)) decrypter) = (Inr (plain sec), c))"
  shows "\<exists>d. decrypt_sections decrypter w secs s = (Inr (w + sum_list (map (\<lambda>sec. unat (fst (snd sec))) secs)), set_disk d s) \<and>
    length d = length (f_disk (m_file s)) \<and>
    mem_read d w (sum_list (map (\<lambda>sec. unat (fst (snd sec))) secs)) = concat (map plain secs) \<and>
    (\<forall>b n. b + n \<le> w \<longrightarrow> mem_read d b n = mem_read (f_disk (m_file s)) b n)"
  using assms
proof (induction secs arbitrary: w s)
  case (Cons sec secs)
  obtain off n st where sec: "sec = (off, n, st)" by (cases sec)
  let ?d = "f_disk (m_file s)" and ?sum = "sum_list (map (\<lambda>sec. unat (fst (snd sec))) secs)"
  let ?d' = "mem_write ?d w (plain sec)" and ?src = "4 + unat off"
  obtain c where c: "decrypt (mem_read ?d ?src (unat n)) (cloneWithStatus st decrypter) = (Inr (plain sec), c)"
    "length (plain sec) = unat n"
    using Cons.prems(6) by (auto simp: sec)
  have le: "w \<le> ?src" "?src + unat n \<le> f_size (m_file s)" "w + unat n + ?sum \<le> f_size (m_file s)"
    using Cons.prems(3-5) by (simp_all add: sec comp_def add.assoc)
  have dst: "w + unat n \<le> f_size (m_file s)" using le by linarith
  have run: "crypt_bytes decrypt ?src w (unat n) (cloneWithStatus st decrypter) s = (Inr c, set_disk ?d' s)"
    by (rule crypt_bytes_run [where f = decrypt and c = "cloneWithStatus st decrypter", OF Cons.prems(1) le(2) dst le(1) c(1) c(2)])
  have len: "length ?d' = length ?d" using c(2) le Cons.prems(1) by simp
  have later: "?src + unat n + 3 \<le> fst (section_place sc)" if "sc \<in> set secs" for sc
    using Cons.prems(2) that by (simp add: sec)
  have same: "mem_read ?d' (fst (section_place sc)) (snd (section_place sc)) = mem_read ?d (fst (section_place sc)) (snd (section_place sc))"
    if "sc \<in> set secs" for sc
    using later [OF that] le c(2) Cons.prems(1) bspec [OF Cons.prems(4), of sc] that
    by (intro mem_read_mem_write_disjoint) auto
  have hd: "secs \<noteq> [] \<Longrightarrow> w + unat n \<le> fst (section_place (hd secs))" using later [of "hd secs"] le(1) by simp
  have plain': "\<forall>sec \<in> set secs. length (plain sec) = snd (section_place sec) \<and>
      (\<exists>c. decrypt (mem_read (f_disk (m_file (set_disk ?d' s))) (fst (section_place sec)) (snd (section_place sec)))
             (cloneWithStatus (snd (snd sec)) decrypter) = (Inr (plain sec), c))"
    using Cons.prems(6) same by simp
  obtain d where d: "decrypt_sections decrypter (w + unat n) secs (set_disk ?d' s) =
      (Inr (w + unat n + ?sum), set_disk d (set_disk ?d' s))" "length d = length ?d'"
    "mem_read d (w + unat n) ?sum = concat (map plain secs)"
    "\<forall>b k. b + k \<le> w + unat n \<longrightarrow> mem_read d b k = mem_read ?d' b k"
    using Cons.IH [of "set_disk ?d' s" "w + unat n", OF _ _ hd _ _ plain'] Cons.prems(1,2,4) len le(3) by auto
  have "mem_read d w (unat n + ?sum) = mem_read d w (unat n) @ concat (map plain secs)"
    using d(3) by (simp add: mem_read_add)
  also have "mem_read d w (unat n) = plain sec"
    using d(4) c(2) le Cons.prems(1) by simp
  finally have all: "mem_read d w (unat n + ?sum) = plain sec @ concat (map plain secs)" .
  have below: "mem_read d b k = mem_read ?d b k" if "b + k \<le> w" for b k
  proof -
    have "mem_read d b k = mem_read ?d' b k" using d(4) that by simp
    also have "\<dots> = mem_read ?d b k" using that le c(2) Cons.prems(1) by (intro mem_read_mem_write_disjoint) auto
    finally show ?thesis .
  qed
  have "decrypt_sections decrypter w (sec # secs) s = (Inr (w + (unat n + ?sum)), set_disk d s)"
    using run d(1) by (simp add: sec bindC_Inr add.assoc)
  then show ?case using d(2) len all below by (auto simp: sec comp_def)
next
  case Nil
  then show ?case by (intro exI [of _ "f_disk (m_file s)"]) (simp add: returnC_def)
qed

section \<open>The sections of the code\<close>

lemma merge_sections_crypt:
  assumes "\<forall>h \<in> set (h0 # hs). toTuple h = (kh_offset h, crypt_size h, st (unat (kh_offset h)))"
  shows "map (\<lambda>(off, n, _). (off, n)) (foldl merge_section_crypt [toTuple h0] hs) =
      foldl merge_pair [(kh_offset h0, crypt_size h0)] (map (\<lambda>h. (kh_offset h, crypt_size h)) hs) \<and>
    (\<forall>sec \<in> set (foldl merge_section_crypt [toTuple h0] hs). snd (snd sec) = st (unat (fst sec))) \<and>
    foldl merge_section_crypt [toTuple h0] hs \<noteq> []"
  using assms
proof (induction hs rule: rev_induct)
  case (snoc h hs)
  obtain secs where secs: "secs = foldl merge_section_crypt [toTuple h0] hs" by blast
  have ih: "map (\<lambda>(off, n, _). (off, n)) secs = foldl merge_pair [(kh_offset h0, crypt_size h0)] (map (\<lambda>h. (kh_offset h, crypt_size h)) hs)"
    "\<forall>sec \<in> set secs. snd (snd sec) = st (unat (fst sec))" "secs \<noteq> []"
    using snoc by (simp_all add: secs)
  obtain b l where l: "secs = b @ [l]" using ih(3) by (cases secs rule: rev_cases) auto
  have "map (\<lambda>(off, n, _). (off, n)) (merge_section_crypt secs h) =
      merge_pair (map (\<lambda>(off, n, _). (off, n)) secs) (kh_offset h, crypt_size h)"
    using snoc.prems by (cases l) (simp add: merge_section_crypt_def merge_pair_def l)
  moreover have "\<forall>sec \<in> set (merge_section_crypt secs h). snd (snd sec) = st (unat (fst sec))"
    using ih(2) snoc.prems by (cases l) (auto simp: merge_section_crypt_def l)
  moreover have "merge_section_crypt secs h \<noteq> []" by (simp add: merge_section_crypt_def split_def Let_def)
  ultimately show ?case using ih(1) by (simp add: secs)
qed simp

definition file_pieces :: "MMKVMapCrypt \<Rightarrow> nat \<Rightarrow> log_entry list \<Rightarrow> (nat \<times> nat) list" where
  "file_pieces d pos es = map (\<lambda>(p, kv). (p, length (enc_entry kv))) (file_part d pos es)"

lemma file_sections:
  assumes dic: "crypt_dic v pos es d" and "in_range pos es" and ps: "file_pieces d pos es = p # ps"
  shows "map (\<lambda>sec. (unat (fst sec), unat (fst (snd sec)))) (dataSections_crypt (map snd (file_items d pos es))) = merged p ps"
    and "\<forall>sec \<in> set (dataSections_crypt (map snd (file_items d pos es))). snd (snd sec) = status_of (v_status v (unat (fst sec)))"
proof -
  let ?g = "\<lambda>h. (kh_offset h, crypt_size h)"
  have hs: "map (nats \<circ> ?g) (map snd (file_items d pos es)) = file_pieces d pos es"
    using placed_in_range(1,2) [OF assms(1,2)] by (auto simp: file_items_def file_pieces_def)
  then obtain h0 hs where h: "map snd (file_items d pos es) = h0 # hs" using ps by (cases "map snd (file_items d pos es)") auto
  then have p: "nats (?g h0) = p" "map nats (map ?g hs) = ps" using hs ps by auto
  have tuples: "toTuple h' = (kh_offset h', crypt_size h', status_of (v_status v (unat (kh_offset h'))))"
    and bound: "unat (kh_offset h') + unat (crypt_size h') < 2 ^ 32" if "h' \<in> set (h0 # hs)" for h'
  proof -
    have "h' \<in> set (map snd (file_items d pos es))" using that by (simp only: h)
    then obtain q kv where "(q, kv) \<in> set (file_part d pos es)" "h' = holder_for d q kv"
      by (force simp: file_items_def)
    then show "toTuple h' = (kh_offset h', crypt_size h', status_of (v_status v (unat (kh_offset h'))))"
      "unat (kh_offset h') + unat (crypt_size h') < 2 ^ 32"
      using placed_in_range(1-4) [OF assms(1,2)] by simp_all
  qed
  note m = merge_sections_crypt [of h0 hs "\<lambda>q. status_of (v_status v q)", OF ballI [OF tuples]]
  have secs: "dataSections_crypt (map snd (file_items d pos es)) = foldl merge_section_crypt [toTuple h0] hs"
    by (simp add: dataSections_crypt_def h)
  have "map nats (foldl merge_pair [?g h0] (map ?g hs)) = merged p ps"
    using pairs_pieces [of "?g h0" "map ?g hs"] bound p by simp
  then have "map nats (map (\<lambda>(off, n, _). (off, n)) (foldl merge_section_crypt [toTuple h0] hs)) = merged p ps"
    using conjunct1 [OF m] by simp
  then show "map (\<lambda>sec. (unat (fst sec), unat (fst (snd sec)))) (dataSections_crypt (map snd (file_items d pos es))) = merged p ps"
    unfolding secs by (simp add: comp_def split_def)
  show "\<forall>sec \<in> set (dataSections_crypt (map snd (file_items d pos es))). snd (snd sec) = status_of (v_status v (unat (fst sec)))"
    unfolding secs using m by blast
qed

lemma merged_bounds:
  assumes "successively chained (p # ps)" and "q \<in> set (merged p ps)"
  shows "fst p \<le> fst q" and "fst q + snd q \<le> fst (last (p # ps)) + snd (last (p # ps))"
proof -
  have sep: "successively separated (merged p ps)"
    and l: "fst (last (merged p ps)) + snd (last (merged p ps)) = fst (last (p # ps)) + snd (last (p # ps))"
    using merged_separated [OF assms(1)] by simp_all
  obtain b where b: "merged p ps = b @ [last (merged p ps)]"
    using append_butlast_last_id [OF merged_not_Nil, of p ps] by metis
  have "sorted_wrt separated (b @ [last (merged p ps)])" using separated_sorted [OF sep] b by simp
  moreover have "q \<in> set b \<or> q = last (merged p ps)" using assms(2) b by (metis Un_iff empty_iff insert_iff list.set set_append)
  ultimately show "fst q + snd q \<le> fst (last (p # ps)) + snd (last (p # ps))" using l by (auto simp: sorted_wrt_append)
  obtain c cs where c: "merged p ps = c # cs" by (cases "merged p ps") (use merged_not_Nil in auto)
  have "fst c = fst p" using fst_hd_merged [of p ps] by (simp add: c)
  moreover have "q = c \<or> separated c q" using separated_sorted [OF sep] assms(2) by (auto simp: c)
  ultimately show "fst p \<le> fst q" by auto
qed

lemma live_at_read:
  assumes "mem_read m pos (length (enc_log es)) = enc_log es" and "(p, kv) \<in> set (live_at pos es)"
  shows "mem_read m p (length (enc_entry kv)) = enc_entry kv"
  using assms
proof (induction es arbitrary: pos)
  case (Cons e es)
  have split: "mem_read m pos (length (enc_entry e)) @ mem_read m (pos + length (enc_entry e)) (length (enc_log es)) = enc_entry e @ enc_log es"
    using Cons.prems(1) by (simp add: mem_read_add)
  have "length (mem_read m pos (length (enc_entry e))) = length (enc_entry e)"
    using arg_cong [OF Cons.prems(1), of length] by (simp add: mem_read_def)
  with split have "mem_read m pos (length (enc_entry e)) = enc_entry e"
    "mem_read m (pos + length (enc_entry e)) (length (enc_log es)) = enc_log es" by simp_all
  then show ?case using Cons by (auto split: if_splits)
qed simp

lemma reads_of_file_pieces:
  assumes "mem_read m pos (length (enc_log es)) = enc_log es"
  shows "reads_of m (file_pieces d pos es) = enc_log (file_entries d pos es)"
proof -
  have "map (\<lambda>(q, n). mem_read m q n) (file_pieces d pos es) = map enc_entry (file_entries d pos es)"
    using live_at_read [OF assms] by (auto simp: file_pieces_def file_entries_def file_part_live)
  then show ?thesis by (simp add: reads_of_def enc_log_def enc_list_def)
qed

lemma file_pieces_chained:
  assumes "\<forall>kv \<in> set es. valid_entry kv"
  shows "successively chained (file_pieces d pos es)"
    and "ab \<in> set (file_pieces d pos es) \<Longrightarrow> pos \<le> fst ab \<and> fst ab + snd ab \<le> pos + length (enc_log es)"
proof -
  have e: "file_pieces d pos es = map (\<lambda>(p, kv). (p, length (enc_entry kv))) (file_part d pos es)" by (simp add: file_pieces_def)
  have "sorted_wrt chained (pieces pos es)" by (rule pieces_chained_wrt [OF assms])
  then have "sorted_wrt chained (file_pieces d pos es)"
    unfolding e pieces_def sorted_wrt_map by (simp add: file_part_def sorted_wrt_filter)
  then show "successively chained (file_pieces d pos es)" by (rule successively_if_sorted_wrt)
  show "pos \<le> fst ab \<and> fst ab + snd ab \<le> pos + length (enc_log es)" if "ab \<in> set (file_pieces d pos es)"
  proof -
    have "ab \<in> set (pieces pos es)" using that by (auto simp: e file_part_def pieces_def)
    from pieces_start [OF assms this] show ?thesis by auto
  qed
qed

lemma sum_file_pieces: "sum_list (map snd (file_pieces d pos es)) = length (enc_log (file_entries d pos es))"
  by (simp add: file_pieces_def file_entries_def enc_log_def enc_list_def length_concat comp_def split_def)

lemma length_file_entries: "length (enc_log (file_entries d pos es)) \<le> length (enc_log es)"
proof -
  have sub: "sum_list (map f (filter P xs)) \<le> sum_list (map f xs)" for f :: "'x \<Rightarrow> nat" and P xs
    by (induction xs) auto
  have "length (enc_log (map snd xs)) = sum_list (map (\<lambda>pkv. length (enc_entry (snd pkv))) xs)" for xs :: "(nat \<times> log_entry) list"
    by (simp add: enc_log_def enc_list_def length_concat comp_def)
  then have "length (enc_log (file_entries d pos es)) \<le> length (enc_log (map snd (live_at pos es)))"
    unfolding file_entries_def file_part_def by (simp add: sub)
  then show ?thesis using length_enc_log_live [of es] live_at_snd [of pos es] by simp
qed

text \<open>A copy of the cipher in the status of a section decrypts it.\<close>

lemma decrypt_at:
  assumes "view_ok v" and "m_aesKey c = Some (encrypt_key (v_key v) (v_aes256 v))" and "m_isAES256 c = v_aes256 v"
    and "v_base v \<le> p" and "p + n \<le> length (v_code v)"
  shows "\<exists>c'. decrypt (mem_read (v_code v) p n) (cloneWithStatus (status_of (v_status v p)) c) = (Inr (mem_read (v_plain v) p n), c')"
proof -
  have ok: "cfb_ok (v_status v p)" using assms(4,5) by (intro view_status_ok [OF assms(1)]) simp_all
  let ?c = "cloneWithStatus (status_of (v_status v p)) c"
  have ready: "cipher_ready (v_key v) ?c" using clone_status [OF ok, of c] assms(2,3) ok by (simp add: cipher_ready_def)
  have "crypt_run fb_dec (v_key v) (mem_read (v_code v) p n) ?c = (mem_read (v_plain v) p n, set_cfb (v_status v (p + n)) ?c)"
    using assms(3-5) clone_status [OF ok, of c] by (intro view_crypt_run [OF assms(1)]) simp_all
  then show ?thesis by (simp add: decrypt_run [OF ready])
qed

text \<open>The view of a whole file of which the header may already be overwritten.\<close>

lemma sections_decrypted:
  assumes dic: "crypt_dic v 4 es d" and "in_range 4 es" and "view_ok v" and "v_base v = 0"
    and plain: "v_plain v = hdr @ enc_log es" and "length hdr = 4" and "data_mapped s"
    and code: "mem_read (f_disk (m_file s)) 8 (length (enc_log es)) = drop 4 (v_code v)"
    and bound: "8 + length (enc_log es) \<le> f_size (m_file s)"
    and key: "m_aesKey dec = Some (encrypt_key (v_key v) (v_aes256 v))" "m_isAES256 dec = v_aes256 v"
    and ne: "file_part d 4 es \<noteq> []"
  shows "\<exists>disk. decrypt_sections dec 8 (dataSections_crypt (map snd (file_items d 4 es))) s =
      (Inr (8 + length (enc_log (file_entries d 4 es))), set_disk disk s) \<and> length disk = length (f_disk (m_file s)) \<and>
    mem_read disk 8 (length (enc_log (file_entries d 4 es))) = enc_log (file_entries d 4 es) \<and>
    (\<forall>b n. b + n \<le> 8 \<longrightarrow> mem_read disk b n = mem_read (f_disk (m_file s)) b n)"
proof -
  let ?secs = "dataSections_crypt (map snd (file_items d 4 es))" and ?F = "enc_log (file_entries d 4 es)"
  let ?nat = "\<lambda>sec :: u32 \<times> u32 \<times> AESCryptStatus. (unat (fst sec), unat (fst (snd sec)))"
  let ?plain = "\<lambda>sec. mem_read (v_plain v) (unat (fst sec)) (unat (fst (snd sec)))"
  have valid: "\<forall>kv \<in> set es. valid_entry kv" by (rule in_range_valid [OF assms(2)])
  obtain p ps where ps: "file_pieces d 4 es = p # ps" using ne by (cases "file_pieces d 4 es") (auto simp: file_pieces_def)
  note sec = file_sections [OF dic assms(2) ps]
  have ch: "successively chained (p # ps)" using file_pieces_chained(1) [OF valid, of d 4] by (simp only: ps)
  have in_pieces: "4 \<le> fst ab \<and> fst ab + snd ab \<le> 4 + length (enc_log es)" if "ab \<in> set (p # ps)" for ab
    using file_pieces_chained(2) [OF valid, of ab d 4] that by (simp only: ps)
  have bounds: "4 \<le> unat (fst sc)" "unat (fst sc) + unat (fst (snd sc)) \<le> 4 + length (enc_log es)" if "sc \<in> set ?secs" for sc
  proof -
    have "?nat sc \<in> set (merged p ps)" unfolding sec(1) [symmetric] using that by simp
    note mb = merged_bounds [OF ch this]
    show "4 \<le> unat (fst sc)" using mb(1) in_pieces [of p] by simp
    show "unat (fst sc) + unat (fst (snd sc)) \<le> 4 + length (enc_log es)"
      using mb(2) in_pieces [of "last (p # ps)"] last_in_set [of "p # ps"] by simp
  qed
  have lens: "length (v_code v) = 4 + length (enc_log es)" using view_length [OF assms(3)] plain assms(6) by simp
  have read: "mem_read (f_disk (m_file s)) (4 + unat (fst sc)) (unat (fst (snd sc))) = mem_read (v_code v) (unat (fst sc)) (unat (fst (snd sc)))"
    if sc: "sc \<in> set ?secs" for sc
  proof -
    obtain k where k: "unat (fst sc) = 4 + k" using le_Suc_ex [OF bounds(1) [OF sc]] by blast
    have "mem_read (f_disk (m_file s)) (8 + k) (unat (fst (snd sc))) = mem_read (drop 4 (v_code v)) k (unat (fst (snd sc)))"
      unfolding code [symmetric] using bounds(2) [OF sc] k by (simp add: mem_read_mem_read)
    then show ?thesis by (simp add: k mem_read_def add.commute)
  qed
  have dec: "length (?plain sc) = snd (section_place sc) \<and>
      (\<exists>c. decrypt (mem_read (f_disk (m_file s)) (fst (section_place sc)) (snd (section_place sc)))
             (cloneWithStatus (snd (snd sc)) dec) = (Inr (?plain sc), c))" if sc: "sc \<in> set ?secs" for sc
  proof -
    have b: "unat (fst sc) + unat (fst (snd sc)) \<le> length (v_code v)" using bounds(2) [OF sc] lens by simp
    have "length (?plain sc) = unat (fst (snd sc))" using b view_length [OF assms(3)] by simp
    moreover have "snd (snd sc) = status_of (v_status v (unat (fst sc)))" using sec(2) sc by blast
    ultimately show ?thesis using decrypt_at [OF assms(3) key _ b] read [OF sc] assms(4) by simp
  qed
  have "sorted_wrt separated (map ?nat ?secs)"
    unfolding sec(1) using separated_sorted merged_separated [OF ch] by blast
  then have sep: "sorted_wrt separated (map section_place ?secs)"
    unfolding sorted_wrt_map by (rule sorted_wrt_mono_rel [rotated]) simp
  have hd: "?secs \<noteq> [] \<Longrightarrow> 8 \<le> fst (section_place (hd ?secs))" using bounds(1) [OF hd_in_set] by simp
  have inside: "\<forall>sc \<in> set ?secs. fst (section_place sc) + snd (section_place sc) \<le> f_size (m_file s)"
    using bounds(2) bound by fastforce
  have "sum_list (map (\<lambda>sc. unat (fst (snd sc))) ?secs) = sum_list (map snd (map ?nat ?secs))" by (simp add: comp_def)
  also have "\<dots> = length ?F" unfolding sec(1) sum_merged using sum_file_pieces [of d 4 es] by (simp add: ps)
  finally have sum: "sum_list (map (\<lambda>sc. unat (fst (snd sc))) ?secs) = length ?F" .
  have fits: "8 + sum_list (map (\<lambda>sc. unat (fst (snd sc))) ?secs) \<le> f_size (m_file s)"
    unfolding sum using bound length_file_entries [of d 4 es] by linarith
  have "concat (map ?plain ?secs) = reads_of (v_plain v) (map ?nat ?secs)" by (simp add: reads_of_def comp_def)
  also have "\<dots> = reads_of (v_plain v) (file_pieces d 4 es)" unfolding sec(1) reads_of_merged ps by simp
  also have "\<dots> = ?F" by (rule reads_of_file_pieces) (simp add: plain assms(6) mem_read_def)
  finally have all: "concat (map ?plain ?secs) = ?F" .
  show ?thesis
    using decrypt_sections_run [where plain = ?plain and decrypter = dec, OF assms(7) sep hd inside fits] dec unfolding sum all by blast
qed

section \<open>Encrypting what was moved\<close>

lemma encrypt_step_inverts:
  "cfb_step fb_dec E s y = (x, t) \<Longrightarrow> cfb_step fb_enc E s x = (y, t)"
  by (auto simp: cfb_step_def Let_def fb_enc_def fb_dec_def xor.assoc [symmetric])

lemma run_encrypt_inverts:
  "run_bytes (cfb_step fb_dec E) ys s = (xs, t) \<Longrightarrow> run_bytes (cfb_step fb_enc E) xs s = (ys, t)"
  by (induction ys arbitrary: s xs)
    (auto simp: Let_def encrypt_step_inverts split: prod.splits)

text \<open>A cipher at a position of a view encrypts the plain bytes there to the code.\<close>

definition cipher_at :: "view \<Rightarrow> nat \<Rightarrow> AESCrypt \<Rightarrow> bool" where
  "cipher_at v p c \<longleftrightarrow> cipher_of v c \<and> get_cfb c = v_status v p"

lemma encrypt_at:
  assumes "view_ok v" and "cipher_at v p c" and "v_base v \<le> p" and "p + n \<le> length (v_code v)"
  shows "\<exists>c'. encrypt (mem_read (v_plain v) p n) c = (Inr (mem_read (v_code v) p n), c') \<and> cipher_at v (p + n) c'"
proof -
  have c: "cipher_of v c" "get_cfb c = v_status v p" using assms(2) by (simp_all add: cipher_at_def)
  then have ready: "cipher_ready (v_key v) c" "m_key c = v_key v" "m_isAES256 c = v_aes256 v"
    by (auto simp: cipher_of_def cipher_ok_def)
  have "run_bytes (cfb_step fb_dec (block_E (v_key v) (v_aes256 v))) (mem_read (v_code v) p (p + n - p)) (v_status v p) =
      (mem_read (v_plain v) p (p + n - p), v_status v (p + n))"
    using assms(1,3,4) unfolding view_ok_def by (metis le_add1)
  then have "run_bytes (cfb_step fb_enc (block_E (v_key v) (v_aes256 v))) (mem_read (v_plain v) p n) (v_status v p) =
      (mem_read (v_code v) p n, v_status v (p + n))"
    using run_encrypt_inverts by auto
  then have "crypt_run fb_enc (v_key v) (mem_read (v_plain v) p n) c = (mem_read (v_code v) p n, set_cfb (v_status v (p + n)) c)"
    using c(2) crypt_run_block [of fb_enc c] ready by simp
  moreover have "cfb_ok (v_status v (p + n))" using assms(3,4) by (intro view_status_ok [OF assms(1)]) simp_all
  then have "cipher_at v (p + n) (set_cfb (v_status v (p + n)) c)" using c(1) by (simp add: cipher_at_def)
  ultimately show ?thesis by (simp add: encrypt_run [OF ready(1)])
qed

lemma encrypt_place:
  assumes "view_ok v" and "cipher_at v p c" and "v_base v \<le> p" and "p + n \<le> length (v_code v)"
    and "data_mapped s" and "4 + p + n \<le> f_size (m_file s)"
    and "mem_read (f_disk (m_file s)) (4 + p) n = mem_read (v_plain v) p n"
  shows "\<exists>c'. crypt_bytes encrypt (4 + p) (4 + p) n c s =
      (Inr c', set_disk (mem_write (f_disk (m_file s)) (4 + p) (mem_read (v_code v) p n)) s) \<and> cipher_at v (p + n) c'"
proof -
  obtain c' where c': "encrypt (mem_read (v_plain v) p n) c = (Inr (mem_read (v_code v) p n), c')" "cipher_at v (p + n) c'"
    using encrypt_at [OF assms(1-4)] by blast
  have "crypt_bytes encrypt (4 + p) (4 + p) n c s =
      (Inr c', set_disk (mem_write (f_disk (m_file s)) (4 + p) (mem_read (v_code v) p n)) s)"
    by (rule crypt_bytes_run [where f = encrypt, OF assms(5,6,6)]) (use assms(4,7) c'(1) in simp_all)
  with c'(2) show ?thesis by blast
qed

definition relocated :: "view \<Rightarrow> KeyValueHolderCrypt \<Rightarrow> nat \<Rightarrow> KeyValueHolderCrypt" where
  "relocated v h q = h\<lparr>kh_offset := word_of_nat q, kh_cryptStatus := status_of (v_status v q)\<rparr>"

abbreviation relocate_step :: "view \<Rightarrow> MMKVMapCrypt \<Rightarrow> nat \<Rightarrow> log_entry \<Rightarrow> MMKVMapCrypt \<Rightarrow> MMKVMapCrypt" where
  "relocate_step v d \<equiv> keep_last (\<lambda>q kv. relocated v (holder_for d q kv) q)"

lemma mem_write_read_append:
  assumes "a + n + k \<le> length m" and "length xs = n" and "length ys = k"
  shows "mem_write (mem_write m a xs) (a + n) ys = mem_write m a (xs @ ys)"
  using mem_write_mem_write_append [of a xs ys m] assms by simp

lemma encrypt_entries_run:
  assumes "view_ok v" and "v_base v = 0" and "data_mapped s" and "cipher_at v (unat off) c"
    and "\<forall>(p, kv) \<in> set part. snd kv \<noteq> [] \<and> unat (crypt_size (holder_for d p kv)) = length (enc_entry kv)"
    and "unat off + length (enc_log (map snd part)) \<le> length (v_code v)" and "length (v_code v) < 2 ^ 32"
    and "4 + unat off + length (enc_log (map snd part)) \<le> f_size (m_file s)"
    and "mem_read (v_plain v) (unat off) (length (enc_log (map snd part))) = enc_log (map snd part)"
    and "mem_read (f_disk (m_file s)) (4 + unat off) (length (enc_log (map snd part))) = enc_log (map snd part)"
  shows "\<exists>c'. encrypt_entries off (map (\<lambda>(p, kv). (fst kv, holder_for d p kv)) part) dic c s =
      (Inr (run_steps enc_entry (relocate_step v d) (unat off) (map snd part) dic, c'),
       set_disk (mem_write (f_disk (m_file s)) (4 + unat off) (mem_read (v_code v) (unat off) (length (enc_log (map snd part))))) s) \<and>
    cipher_at v (unat off + length (enc_log (map snd part))) c'"
  using assms(3-6,8-)
proof (induction part arbitrary: off s c dic)
  case (Cons pkv part)
  obtain p kv where pkv: "pkv = (p, kv)" by (cases pkv)
  let ?n = "length (enc_entry kv)" and ?L = "enc_log (map snd part)" and ?q = "unat off" and ?disk = "f_disk (m_file s)"
  let ?h = "holder_for d p kv" and ?code = "mem_read (v_code v) (unat off) (length (enc_entry kv))"
  have size: "unat (crypt_size ?h) = ?n" "snd kv \<noteq> []" using Cons.prems(3) by (simp_all add: pkv)
  have len: "?q + ?n + length ?L \<le> length (v_code v)" "4 + ?q + ?n + length ?L \<le> f_size (m_file s)"
    using Cons.prems(4,5) by (simp_all add: pkv)
  have lplain: "length (v_plain v) = length (v_code v)" by (rule view_length [OF assms(1)])
  have "mem_read (v_plain v) ?q ?n @ mem_read (v_plain v) (?q + ?n) (length ?L) = enc_entry kv @ ?L"
    using Cons.prems(6) by (simp add: pkv mem_read_add)
  then have pl: "mem_read (v_plain v) ?q ?n = enc_entry kv" "mem_read (v_plain v) (?q + ?n) (length ?L) = ?L"
    using len lplain by (simp_all add: append_eq_append_conv)
  have "mem_read ?disk (4 + ?q) ?n @ mem_read ?disk (4 + ?q + ?n) (length ?L) = enc_entry kv @ ?L"
    using Cons.prems(7) by (simp add: pkv mem_read_add)
  then have dk: "mem_read ?disk (4 + ?q) ?n = enc_entry kv" "mem_read ?disk (4 + ?q + ?n) (length ?L) = ?L"
    using len Cons.prems(1) by (simp_all add: append_eq_append_conv)
  have n1: "?q + ?n \<le> length (v_code v)" "4 + ?q + ?n \<le> f_size (m_file s)" using len by linarith+
  obtain c1 where c1: "crypt_bytes encrypt (4 + ?q) (4 + ?q) ?n c s = (Inr c1, set_disk (mem_write ?disk (4 + ?q) ?code) s)"
    "cipher_at v (?q + ?n) c1"
    using encrypt_place [OF assms(1) Cons.prems(2) _ n1(1) Cons.prems(1) n1(2)] assms(2) pl(1) dk(1) by auto
  have lc: "length ?code = ?n" using n1(1) by simp
  let ?s = "set_disk (mem_write ?disk (4 + ?q) ?code) s"
  have q: "unat (off + crypt_size ?h) = ?q + ?n"
    using size(1) n1(1) assms(7) by (simp add: unat_add_u32)
  have ld: "length (mem_write ?disk (4 + ?q) ?code) = length ?disk" using n1 Cons.prems(1) lc by simp
  have rest: "mem_read (mem_write ?disk (4 + ?q) ?code) (4 + (?q + ?n)) (length ?L) = ?L"
    using dk(2) lc len Cons.prems(1) by (subst mem_read_mem_write_disjoint) (simp_all add: add.assoc)
  let ?dic = "dic(fst kv \<mapsto> relocated v ?h ?q)"
  have m1: "data_mapped ?s" using Cons.prems(1) ld by simp
  have c1': "cipher_at v (unat (off + crypt_size ?h)) c1" using c1(2) by (simp only: q)
  have parts: "\<forall>(p, kv) \<in> set part. snd kv \<noteq> [] \<and> unat (crypt_size (holder_for d p kv)) = length (enc_entry kv)"
    using Cons.prems(3) by simp
  have b1: "unat (off + crypt_size ?h) + length ?L \<le> length (v_code v)" using len by (simp only: q)
  have b2: "4 + unat (off + crypt_size ?h) + length ?L \<le> f_size (m_file ?s)" using len by (simp add: q)
  have rp: "mem_read (v_plain v) (unat (off + crypt_size ?h)) (length ?L) = ?L" using pl(2) by (simp only: q)
  have rd: "mem_read (f_disk (m_file ?s)) (4 + unat (off + crypt_size ?h)) (length ?L) = ?L" using rest by (simp add: q)
  obtain c2 where c2: "encrypt_entries (off + crypt_size ?h) (map (\<lambda>(p, kv). (fst kv, holder_for d p kv)) part) ?dic c1 ?s =
      (Inr (run_steps enc_entry (relocate_step v d) (?q + ?n) (map snd part) ?dic, c2),
       set_disk (mem_write (mem_write ?disk (4 + ?q) ?code) (4 + (?q + ?n)) (mem_read (v_code v) (?q + ?n) (length ?L))) ?s)"
    "cipher_at v (?q + ?n + length ?L) c2"
    using Cons.IH [OF m1 c1' parts b1 b2 rp rd, of ?dic] by (auto simp: q simp del: fun_upd_apply)
  have st: "getCurStatus c = status_of (v_status v ?q)"
    using Cons.prems(2) by (auto simp: cipher_at_def cipher_of_def cipher_ok_def cipher_ready_def getCurStatus_cfb)
  have off: "off = word_of_nat ?q" by simp
  have hq: "holder_for d ?q kv = ?h" by (simp add: holder_for_def)
  have step: "keep_last (\<lambda>q kv. relocated v (holder_for d q kv) q) ?q kv dic = ?dic"
    using size(2) by (simp add: keep_last_def hq)
  have first: "?h\<lparr>kh_offset := off, kh_cryptStatus := getCurStatus c\<rparr> = relocated v ?h ?q"
    using st by (simp add: relocated_def)
  have run: "encrypt_entries off (map (\<lambda>(p, kv). (fst kv, holder_for d p kv)) (pkv # part)) dic c s =
      encrypt_entries (off + crypt_size ?h) (map (\<lambda>(p, kv). (fst kv, holder_for d p kv)) part) ?dic c1 ?s"
    using c1(1) first size(1) by (simp add: pkv bindC_Inr)
  have code: "mem_write (mem_write ?disk (4 + ?q) ?code) (4 + (?q + ?n)) (mem_read (v_code v) (?q + ?n) (length ?L)) =
      mem_write ?disk (4 + ?q) (mem_read (v_code v) ?q (?n + length ?L))"
    using mem_write_read_append [of "4 + ?q" ?n "length ?L" ?disk ?code "mem_read (v_code v) (?q + ?n) (length ?L)"]
      len lc Cons.prems(1) by (simp add: mem_read_add add.assoc)
  show ?case
    using c2 run code step by (intro exI [of _ c2]) (simp add: pkv add.assoc)
qed (simp add: returnC_def)

section \<open>The dictionary of the new file\<close>

lemma relocated_placed:
  assumes "view_ok v'" and "v_base v' = 0" and "length (v_code v') < 2 ^ 32"
    and h: "placed v p kv h" "kh_type h = Offset" and "valid_entry kv"
    and q: "q + length (enc_entry kv) \<le> length (v_code v')" "mem_read (v_plain v') q (length (enc_entry kv)) = enc_entry kv"
  shows "placed v' q kv (relocated v' h q)"
proof -
  let ?m = "unat (kh_pbKeyValueSize h) + unat (kh_keySize h)"
  have pt: "?m + length (snd kv) = length (enc_entry kv)" "unat (kh_valueSize h) = length (snd kv)"
    using h by (simp_all add: placed_def points_to_def)
  have off: "unat (word_of_nat q :: u32) = q" using q(1) assms(3) by (intro unat_word_of_nat_u32) simp
  have e: "enc_entry kv = (enc_data (fst kv) @ varint (length (snd kv))) @ snd kv"
    using assms(6) by (simp add: enc_entry_def valid_entry_def enc_data_short)
  have "?m = length (enc_data (fst kv) @ varint (length (snd kv)))" using pt(1) arg_cong [OF e, of length] by simp
  then have "drop ?m (enc_entry kv) = snd kv" using e by simp
  moreover have "mem_read (v_plain v') (q + ?m) (length (snd kv)) = drop ?m (mem_read (v_plain v') q (?m + length (snd kv)))"
    by (simp add: mem_read_def drop_take add.commute)
  ultimately have "mem_read (v_plain v') (q + ?m) (length (snd kv)) = snd kv" using q(2) pt(1) by simp
  then have "locates v' (relocated v' h q) (snd kv)"
    using assms(1-3) h(2) pt q(1) off
    by (intro locates_offset [where k = q and m = ?m]) (simp_all add: relocated_def)
  then show ?thesis using h(2) pt off by (simp add: placed_def points_to_def relocated_def)
qed

lemma live_items_eq: "map_of (live_items f pos es) k = map_option (\<lambda>(p, kv). f p kv) (map_of (live_items live_place pos es) k)"
proof -
  have "live_items f pos es = map (\<lambda>(k, x). (k, case x of (p, kv) \<Rightarrow> f p kv)) (live_items live_place pos es)"
    by (simp add: live_items_def comp_def split_def)
  then show ?thesis by (simp only: map_of_map comp_def)
qed

lemma new_crypt_dic:
  assumes "iterates_crypt X" and dic: "crypt_dic v 4 es d" and "in_range 4 es"
    and "view_ok v'" and "v_base v' = 0" and plain: "v_plain v' = hdr' @ enc_log (new_log X d 4 es)" and "length hdr' = 4"
    and "length (v_code v') < 2 ^ 32"
  shows "crypt_dic v' 4 (new_log X d 4 es) (run_steps enc_entry (relocate_step v' d) 4 (file_entries d 4 es) d)"
proof -
  let ?F = "file_entries d 4 es" and ?M = "memory_entries X d es"
  let ?f = "\<lambda>q kv. relocated v' (holder_for d q kv) q" and ?q = "4 + length (enc_log (file_entries d 4 es))"
  note ms = new_log_contents [OF mset_new_log [OF assms(1,2)]]
  have code: "length (v_code v') = 4 + length (enc_log ?F) + length (enc_log ?M)"
    using view_length [OF assms(4)] plain assms(7) by (simp add: new_log_def)
  have keys: "fst ` set ?F \<inter> fst ` set ?M = {}" "distinct (map fst ?M)" using ms(3) by (auto simp: new_log_def)
  have valid: "valid_entry kv" "snd kv \<noteq> []" if "kv \<in> set ?F \<or> kv \<in> set ?M" for kv
  proof -
    have "kv \<in> set (live es)" using that ms(4) by (auto simp: new_log_def)
    from live_keys [OF this] show "valid_entry kv" "snd kv \<noteq> []" using in_range_valid [OF assms(3)] by simp_all
  qed
  have fileP: "placed v' q kv (?f q kv)" if q: "(q, kv) \<in> set (live_at 4 ?F)" for q kv
  proof -
    have kv: "kv \<in> set ?F" using live_at_keys [OF q] by simp
    then obtain p where "(p, kv) \<in> set (file_part d 4 es)" by (auto simp: file_entries_def)
    then have h: "placed v p kv (holder_for d p kv)" "kh_type (holder_for d p kv) = Offset"
      using placed_in_range(5) [OF dic assms(3)] by (simp_all add: file_part_live)
    have "holder_for d p kv = holder_for d q kv" by (simp add: holder_for_def)
    moreover have "q + length (enc_entry kv) \<le> length (v_code v')"
      using live_at_start [OF _ q] valid code by fastforce
    moreover have "mem_read (v_plain v') q (length (enc_entry kv)) = enc_entry kv"
      by (rule live_at_read [OF _ q]) (simp add: plain assms(7) mem_read_def new_log_def enc_log_append)
    ultimately show ?thesis using relocated_placed [OF assms(4,5,8), of v p kv "holder_for d p kv" q] h valid(1) [of kv] kv by simp
  qed
  have mem: "\<exists>h. d (fst kv) = Some h \<and> placed v' q kv h" if "kv \<in> set ?M" for q kv
  proof -
    obtain itr where itr: "itr \<in> set (memory_items X d)" "fst itr = fst kv" using \<open>kv \<in> set ?M\<close> by (auto simp: memory_entries_def)
    have "kv \<in> set (live es)" by (rule memory_items_values(2) [OF assms(1,2) that])
    then obtain p where p: "(p, kv) \<in> set (live_at 4 es)" using live_at_snd [of 4 es] by (metis (no_types, lifting) imageE list.set_map prod.collapse)
    note h = crypt_dic_items(2) [OF dic p]
    have "itr \<in> set (live_items (holder_for d) 4 es)"
      using itr(1) set_iterate_crypt(1) [OF assms(1,2)] by (metis (no_types, lifting) memory_items_def mem_Collect_eq set_filter set_mset_mset)
    then have "snd itr = holder_for d p kv"
      using itr(2) by (auto simp: live_items_def holder_for_def)
    then have "kh_type (holder_for d p kv) \<noteq> Offset" using itr(1) by (simp add: memory_items_def)
    moreover from h have "locates v (holder_for d p kv) (snd kv)" by (simp add: placed_def)
    ultimately have "placed v' q kv (holder_for d p kv)"
      using locates_memory [of v "holder_for d p kv" "snd kv"] by (simp add: placed_def locates_def)
    with h show ?thesis by blast
  qed
  have "rel_option (\<lambda>(p, kv) h. placed v' p kv h) (map_of (live_items live_place 4 (?F @ ?M)) k)
      (run_steps enc_entry (relocate_step v' d) 4 ?F d k)" for k
  proof -
    have steps: "run_steps enc g pos (xs @ ys) m = run_steps enc g (pos + length (concat (map enc xs))) ys (run_steps enc g pos xs m)"
      for enc :: "log_entry \<Rightarrow> byte list" and g :: "nat \<Rightarrow> log_entry \<Rightarrow> (byte list \<rightharpoonup> nat \<times> log_entry) \<Rightarrow> byte list \<rightharpoonup> nat \<times> log_entry" and pos xs ys m
      by (induction xs arbitrary: pos m) (simp_all add: add.assoc)
    have l: "map_of (live_items live_place 4 (?F @ ?M)) k =
        (if k \<in> fst ` set ?M then map_of (live_items live_place ?q ?M) k else map_of (live_items live_place 4 ?F) k)"
      unfolding run_steps_live_items [symmetric] steps by (simp add: run_steps_keep_last enc_log_def enc_list_def)
    have r: "run_steps enc_entry (relocate_step v' d) 4 ?F d k = (if k \<in> fst ` set ?F then map_of (live_items ?f 4 ?F) k else d k)"
      by (rule run_steps_keep_last)
    consider (m) "k \<in> fst ` set ?M" "k \<notin> fst ` set ?F" | (f) "k \<in> fst ` set ?F" "k \<notin> fst ` set ?M" | (n) "k \<notin> fst ` set ?M" "k \<notin> fst ` set ?F"
      using keys(1) by blast
    then show ?thesis
    proof cases
      case m
      then obtain kv where kv: "kv \<in> set ?M" "fst kv = k" by auto
      have "log_contents ?M k = Some (snd kv)"
        using log_contents_distinct [OF keys(2)] valid(2) kv keys(2) by (auto simp: map_of_eq_Some_iff)
      then have "map_of (live ?M) k \<noteq> None" by (simp add: log_contents_live)
      then have "k \<in> fst ` set (live ?M)" by (simp add: map_of_eq_None_iff)
      then obtain q kv' where q: "(q, kv') \<in> set (live_at ?q ?M)" "fst kv' = k"
        using live_at_snd [of ?q ?M] by (metis (no_types, lifting) imageE list.set_map prod.collapse)
      have "kv' \<in> set ?M" using live_at_keys [OF q(1)] by simp
      then show ?thesis using mem [of kv' q] q map_of_live_items [OF q(1), of live_place] m unfolding l r by auto
    next
      case f
      then show ?thesis
        unfolding l r live_items_eq [of ?f]
        using fileP map_of_SomeD [of "live_items live_place 4 ?F" k]
        by (auto simp: option.rel_map live_items_def split: option.splits intro!: option.rel_refl_strong)
    next
      case n
      have "d k = None"
      proof (rule ccontr)
        assume "d k \<noteq> None"
        then obtain h where "d k = Some h" by blast
        then have "(k, h) \<in> set (live_items (holder_for d) 4 es)" using crypt_dic_items(1) [OF dic] map_of_SomeD by metis
        then obtain p kv where "(p, kv) \<in> set (live_at 4 es)" "fst kv = k" by (auto simp: live_items_def)
        then have "kv \<in> set (live es)" using live_at_snd [of 4 es] by (metis (no_types, lifting) image_eqI list.set_map snd_conv)
        then show False using ms(4) n \<open>fst kv = k\<close> by (auto simp: new_log_def)
      qed
      then show ?thesis unfolding l r using n live_items_None [of k ?F live_place 4] by simp
    qed
  qed
  then show ?thesis by (simp add: crypt_dic_def new_log_def)
qed

section \<open>The write-back of an encrypted store\<close>

lemma enc_log_Nil_iff: "\<forall>kv \<in> set es. valid_entry kv \<Longrightarrow> enc_log es = [] \<longleftrightarrow> es = []"
  by (cases es) (auto simp: enc_entry_def enc_data_def valid_entry_def)

lemma size_holder_header:
  assumes "crypt_dic v 4 es d" and "in_range 4 es"
  shows "size_holder_crypt E (file_items d 4 es) = Some (4, randomItemSizeHolder (rand_value E) ItemSizeHolderSize)"
proof (cases "file_items d 4 es")
  case Nil
  then show ?thesis by (simp add: size_holder_crypt_def ItemSizeHolderSize_def)
next
  case (Cons itr itrs)
  have "unat (kh_offset (snd itr)) = 4 \<or> 7 \<le> unat (kh_offset (snd itr))"
    using holder_offsets [OF assms, of itr] Cons by auto
  then have "kh_offset (snd itr) = 4 \<or> \<not> kh_offset (snd itr) \<le> 5"
    using word_of_nat_unat [of "kh_offset (snd itr)" 4] by (auto simp: word_le_nat_alt)
  then show ?thesis by (auto simp: size_holder_crypt_def Cons ItemSizeHolderSize_def)
qed

lemma header_written:
  assumes w: "writable 0 s" and "8 \<le> f_size (m_file s)"
  shows "\<exists>out. with_output (writeRawVarint32 (randomItemSizeHolder (rand_value E) ItemSizeHolderSize)) s =
      (Inr (), set_mem (mem_write (f_disk (m_file s)) 4 (holder_bytes E)) out s) \<and>
    writable 4 (set_mem (mem_write (f_disk (m_file s)) 4 (holder_bytes E)) out s) \<and> curWritePointer out = 8"
proof -
  obtain out where o: "with_output (writeRawVarint32 (randomItemSizeHolder (rand_value E) ItemSizeHolderSize)) s =
      (Inr (), set_mem (mem_write (f_disk (m_file s)) 4 (holder_bytes E)) out s)"
    "writable 4 (set_mem (mem_write (f_disk (m_file s)) 4 (holder_bytes E)) out s)"
    using with_output_writes [OF w writes_bytes_ops(2), of "randomItemSizeHolder (rand_value E) ItemSizeHolderSize"] assms(2)
    by (auto simp flip: holder_bytes_def)
  then have "curWritePointer out = 8" by (auto simp: writable_def curWritePointer_def)
  with o show ?thesis by blast
qed

lemma write_prepared_encrypted:
  assumes "view_ok v" and "v_base v = 0" and "data_mapped s" and "cipher_at v q c" and "q + length (enc_log M) = length (v_code v)"
    and "4 + q + length (enc_log M) \<le> f_size (m_file s)" and "mem_read (v_plain v) q (length (enc_log M)) = enc_log M"
    and "length (enc_log M) < 2 ^ 32" and "\<forall>kv \<in> set M. valid_entry kv"
  shows "\<exists>c'. write_prepared (prepared_bytes M) (4 + q) (Some c) s = (Inr (4 + length (v_code v), Some c'),
      set_disk (mem_write (f_disk (m_file s)) (4 + q) (mem_read (v_code v) q (length (enc_log M)))) s) \<and>
    cipher_at v (length (v_code v)) c'"
proof (cases "M = []")
  case True
  then show ?thesis using assms(4,5) by (simp add: write_prepared_def prepared_bytes_def returnC_def mem_read_def)
next
  case False
  then have ne: "enc_log M \<noteq> []" using enc_log_Nil_iff [OF assms(9)] by simp
  let ?n = "length (enc_log M)"
  let ?w = "word_of_nat ?n :: u32"
  have w: "unat ?w = ?n" using assms(8) by (rule unat_word_of_nat_u32)
  obtain r where r: "readUInt32 (CodedInputData (framed (enc_log M)) 0 (length (framed (enc_log M)))) = (Inr ?w, r)"
    using read_framed [of "enc_log M"] by blast
  have pos: "0 < ?w" "0 < length (framed (enc_log M))" using ne w by (simp_all add: word_less_nat_alt framed_def)
  have lv: "unat (pbRawVarint32Size ?w) = length (enc_uint32 ?w)" by (simp add: enc_uint32_def unat_pbRawVarint32Size)
  have data: "mem_read (framed (enc_log M)) (unat (pbRawVarint32Size ?w)) (unat ?w) = enc_log M"
    "unat (pbRawVarint32Size ?w) + unat ?w \<le> length (framed (enc_log M))"
    by (simp_all add: framed_def lv w mem_read_def)
  obtain c' where c': "encrypt (enc_log M) c = (Inr (mem_read (v_code v) q ?n), c')" "cipher_at v (q + ?n) c'"
    using encrypt_at [OF assms(1,4), of ?n] assms(2,5,7) by auto
  have "length (mem_read (v_code v) q ?n) = ?n" using assms(5) by simp
  then have "memory_write (4 + q) (mem_read (v_code v) q ?n) s =
      (Inr (), set_disk (mem_write (f_disk (m_file s)) (4 + q) (mem_read (v_code v) q ?n)) s)"
    using assms(3,6) by (simp add: memory_write_def)
  then have "write_prepared (prepared_bytes M) (4 + q) (Some c) s = (Inr (4 + (q + ?n), Some c'),
      set_disk (mem_write (f_disk (m_file s)) (4 + q) (mem_read (v_code v) q ?n)) s)"
    using False r pos data c'(1) by (simp add: write_prepared_def prepared_bytes_def w bindC_Inr returnC_def Let_def)
  then show ?thesis using c'(2) assms(5) by auto
qed

lemma bindC_step: "m s = (Inr x, t) \<Longrightarrow> f x t = r \<Longrightarrow> bindC m f s = r"
  by (simp add: bindC_Inr)

lemma entries_recrypted:
  assumes dic: "crypt_dic v 4 es d" and r: "in_range 4 es" and v: "view_ok v" "v_base v = 0"
    and plain: "v_plain v = hdr @ enc_log es" "length hdr = 4"
    and m: "data_mapped s" and tail: "mem_read (f_disk (m_file s)) 8 (length (enc_log es)) = drop 4 (v_code v)"
    and bound: "8 + length (enc_log es) \<le> f_size (m_file s)"
    and key: "m_aesKey dec = Some (encrypt_key (v_key v) (v_aes256 v))" "m_isAES256 dec = v_aes256 v"
    and w: "view_ok w" "v_base w = 0" "cipher_at w 4 c" "length (v_code w) < 2 ^ 32"
    and F: "F = enc_log (file_entries d 4 es)" "4 + length F \<le> length (v_code w)" "mem_read (v_plain w) 4 (length F) = F"
      "8 + length F \<le> f_size (m_file s)"
    and head: "mem_read (f_disk (m_file s)) 4 4 = mem_read (v_code w) 0 4"
  shows "\<exists>disk c'. (if file_items d 4 es = [] then returnC (8, d, Some c)
         else bindC (decrypt_sections dec 8 (dataSections_crypt (map snd (file_items d 4 es)))) (\<lambda>writePtr.
                bindC (encrypt_entries (word_of_nat 4) (file_items d 4 es) d c) (\<lambda>(dic, c).
                  returnC (writePtr, dic, Some c)))) s =
      (Inr (8 + length F, run_steps enc_entry (relocate_step w d) 4 (file_entries d 4 es) d, Some c'), set_disk disk s) \<and>
    length disk = length (f_disk (m_file s)) \<and> mem_read disk 4 (4 + length F) = mem_read (v_code w) 0 (4 + length F) \<and>
    cipher_at w (4 + length F) c'"
proof (cases "file_part d 4 es = []")
  case True
  then show ?thesis
    using head w(3) F(1) by (intro exI [of _ "f_disk (m_file s)"] exI [of _ c]) (simp add: file_items_def file_entries_def returnC_def)
next
  case False
  let ?code = "v_code w"
  have parts: "\<forall>(p, kv) \<in> set (file_part d 4 es). snd kv \<noteq> [] \<and> unat (crypt_size (holder_for d p kv)) = length (enc_entry kv)"
  proof -
    have "snd kv \<noteq> [] \<and> unat (crypt_size (holder_for d p kv)) = length (enc_entry kv)" if "(p, kv) \<in> set (file_part d 4 es)" for p kv
      using placed_in_range(2) [OF dic r that] live_at_keys [of p kv 4 es] that by (simp add: file_part_live)
    then show ?thesis by blast
  qed
  obtain d3 where d3: "decrypt_sections dec 8 (dataSections_crypt (map snd (file_items d 4 es))) s = (Inr (8 + length F), set_disk d3 s)"
    "length d3 = length (f_disk (m_file s))" "mem_read d3 8 (length F) = F"
    "\<forall>b n. b + n \<le> 8 \<longrightarrow> mem_read d3 b n = mem_read (f_disk (m_file s)) b n"
    using sections_decrypted [OF dic r v plain m tail bound key False] F(1) by auto
  have m3: "data_mapped (set_disk d3 s)" using m d3(2) by simp
  have fe: "map snd (file_part d 4 es) = file_entries d 4 es" by (simp add: file_entries_def)
  obtain c' where c': "encrypt_entries (word_of_nat 4) (file_items d 4 es) d c (set_disk d3 s) =
      (Inr (run_steps enc_entry (relocate_step w d) 4 (file_entries d 4 es) d, c'),
       set_disk (mem_write d3 8 (mem_read ?code 4 (length F))) (set_disk d3 s))" "cipher_at w (4 + length F) c'"
    using encrypt_entries_run [OF w(1,2) m3, of "word_of_nat 4" c "file_part d 4 es" d d] w(3,4) parts F d3(3)
    by (auto simp: fe file_items_def)
  let ?d4 = "mem_write d3 8 (mem_read ?code 4 (length F))"
  have lF: "length (mem_read ?code 4 (length F)) = length F" using F(2) by simp
  have "mem_read ?d4 4 (4 + length F) = mem_read ?d4 4 4 @ mem_read ?d4 8 (length F)" by (simp add: mem_read_add)
  also have "mem_read ?d4 4 4 = mem_read ?code 0 4"
    using d3(2,4) head lF F(4) m by (simp add: mem_read_mem_write_disjoint)
  also have "mem_read ?d4 8 (length F) = mem_read ?code 4 (length F)"
    using d3(2) lF F(4) m mem_read_mem_write_same [of 8 "mem_read ?code 4 (length F)" d3] by simp
  also have "mem_read ?code 0 4 @ mem_read ?code 4 (length F) = mem_read ?code 0 (4 + length F)" by (simp add: mem_read_add)
  finally have "mem_read ?d4 4 (4 + length F) = mem_read ?code 0 (4 + length F)" .
  moreover have "length ?d4 = length (f_disk (m_file s))" using d3(2) lF F(4) m by simp
  moreover have "set_disk ?d4 (set_disk d3 s) = set_disk ?d4 s" by simp
  moreover have "file_items d 4 es \<noteq> []" using False by (simp add: file_items_def)
  ultimately show ?thesis
    using c' d3(1) by (intro exI [of _ ?d4] exI [of _ c']) (simp add: bindC_Inr returnC_def)
qed

lemma code_completed:
  assumes "mem_read disk 4 (4 + f) = mem_read code 0 (4 + f)" and "length code = 4 + f + n" and "8 + f + n \<le> length disk"
  shows "mem_read (mem_write disk (8 + f) (mem_read code (4 + f) n)) 4 (length code) = code"
    and "length (mem_write disk (8 + f) (mem_read code (4 + f) n)) = length disk"
proof -
  let ?e = "mem_write disk (8 + f) (mem_read code (4 + f) n)"
  have l: "length (mem_read code (4 + f) n) = n" using assms(2) by simp
  have "mem_read ?e 4 (length code) = mem_read ?e 4 (4 + f) @ mem_read ?e (8 + f) n"
    unfolding assms(2) by (simp add: mem_read_add)
  also have "mem_read ?e 4 (4 + f) = mem_read code 0 (4 + f)"
    using assms(1,3) l by (simp add: mem_read_mem_write_disjoint)
  also have "mem_read ?e (8 + f) n = mem_read code (4 + f) n"
    using l assms(3) mem_read_mem_write_same [of "8 + f" "mem_read code (4 + f) n" disk] by simp
  also have "mem_read code 0 (4 + f) @ mem_read code (4 + f) n = code" using assms(2) by (simp add: mem_read_def)
  finally show "mem_read ?e 4 (length code) = code" .
  show "length ?e = length disk" using l assms(3) by simp
qed

lemma memmoveDictionary_crypt_run:
  assumes it: "iterates_crypt X" and dic: "crypt_dic v 4 es d" and r: "in_range 4 es" and v: "view_ok v" "v_base v = 0"
    and plain: "v_plain v = hdr @ enc_log es" "length hdr = 4"
    and s: "writable 0 s" "mem_read (f_disk (m_file s)) 4 (length (v_code v)) = v_code v" "8 + length (enc_log es) \<le> f_size (m_file s)"
    and key: "m_aesKey dec = Some (encrypt_key (v_key v) (v_aes256 v))" "m_isAES256 dec = v_aes256 v"
    and c: "cipher_ok c" "encrypt (holder_bytes E @ enc_log (new_log X d 4 es)) c = (Inr code, cend)"
  shows "\<exists>disk out c'. memmoveDictionary_crypt E (iterateCrypt X d) d dec (Some c)
        (prepared_bytes (memory_entries X d es), 4 + length (enc_log (live es))) s =
      (Inr (run_steps enc_entry (relocate_step (view_from c 0 code) d) 4 (file_entries d 4 es) d, Some c'), set_mem disk out s) \<and>
    writable (length code) (set_mem disk out s) \<and> length disk = length (f_disk (m_file s)) \<and>
    mem_read disk 4 (length code) = code \<and> cipher_at (view_from c 0 code) (length code) c' \<and>
    length code = 4 + length (enc_log (live es))"
proof -
  let ?v = "view_from c 0 code" and ?D = "f_disk (m_file s)"
  let ?F = "enc_log (file_entries d 4 es)" and ?M = "enc_log (memory_entries X d es)"
  let ?total = "4 + length (enc_log (live es))"
  note ms = new_log_contents [OF mset_new_log [OF it dic]]
  have L: "length ?F + length ?M = length (enc_log (live es))" using ms(2) by (simp add: new_log_def)
  have lens: "length (v_code v) = 4 + length (enc_log es)" using view_length [OF v(1)] plain by simp
  have le: "length (enc_log (live es)) \<le> length (enc_log es)" by (rule length_enc_log_live)
  have small: "length (enc_log es) < 2 ^ 32 - 4" using r by (auto simp: in_range_def)
  note ve = view_from_encrypt(1) [OF c, of "[]"] view_from_encrypt(3) [OF c]
  have v': "view_ok ?v" "v_base ?v = 0" "v_code ?v = code" "cipher_at ?v 0 c"
    using view_from_ok [OF c(1), of 0 code] by (simp_all add: view_from_def Let_def cipher_at_def)
  have plain': "v_plain ?v = holder_bytes E @ ?F @ ?M" using ve(1) by (simp add: new_log_def enc_log_append)
  have code: "length code = ?total" using ve(2) L by (simp add: new_log_def enc_log_append)
  have fits: "4 + ?total \<le> f_size (m_file s)" using s(3) le by linarith
  have m: "data_mapped s" using s(1) by (auto simp: writable_def)
  have sorted: "sort_crypt (iterateCrypt X d) = file_items d 4 es" by (rule sort_crypt_items [OF it dic r])
  obtain out where o: "with_output (writeRawVarint32 (randomItemSizeHolder (rand_value E) ItemSizeHolderSize)) s =
      (Inr (), set_mem (mem_write ?D 4 (holder_bytes E)) out s)" "writable 4 (set_mem (mem_write ?D 4 (holder_bytes E)) out s)"
    "curWritePointer out = 8"
    using header_written [OF s(1)] fits by fastforce
  let ?s1 = "set_mem (mem_write ?D 4 (holder_bytes E)) out s"
  have len1: "length (mem_write ?D 4 (holder_bytes E)) = length ?D" using fits m by simp
  have m1: "data_mapped ?s1" using m len1 by simp
  have pl: "mem_read (v_plain ?v) 0 4 = holder_bytes E" "mem_read (v_plain ?v) 4 (length ?F) = ?F"
    "mem_read (v_plain ?v) (4 + length ?F) (length ?M) = ?M"
    by (simp_all add: plain' mem_read_def)
  obtain c1 where c1: "crypt_bytes encrypt 4 4 4 c ?s1 =
      (Inr c1, set_disk (mem_write (f_disk (m_file ?s1)) 4 (mem_read code 0 4)) ?s1)" "cipher_at ?v 4 c1"
    using encrypt_place [OF v'(1,4) _ _ m1, of 4] v'(2,3) code fits m pl(1) by auto
  let ?d2 = "mem_write (mem_write ?D 4 (holder_bytes E)) 4 (mem_read code 0 4)"
  let ?s2 = "set_mem ?d2 out s"
  have l4: "length (mem_read code 0 4) = 4" using code by simp
  have s2: "set_disk (mem_write (f_disk (m_file ?s1)) 4 (mem_read code 0 4)) ?s1 = ?s2" by (simp add: set_mem_def)
  have len2: "length ?d2 = length ?D" using len1 l4 fits m by simp
  have m2: "data_mapped ?s2" using m len2 by simp
  have head2: "mem_read ?d2 4 4 = mem_read code 0 4" using l4 len1 fits m by simp
  have tail2: "mem_read (f_disk (m_file ?s2)) 8 (length (enc_log es)) = drop 4 (v_code v)"
  proof -
    have "mem_read ?d2 8 (length (enc_log es)) = mem_read ?D 8 (length (enc_log es))"
      using l4 len1 s(3) m by (simp add: mem_read_mem_write_disjoint)
    also have "\<dots> = drop 4 (mem_read ?D 4 (4 + length (enc_log es)))" by (simp add: mem_read_def drop_take)
    finally show ?thesis using s(2) lens by simp
  qed
  let ?dic = "run_steps enc_entry (relocate_step ?v d) 4 (file_entries d 4 es) d"
  have sd: "set_disk disk ?s2 = set_mem disk out s" for disk by (simp add: set_mem_def)
  have bound: "8 + length (enc_log es) \<le> f_size (m_file ?s2)" "8 + length ?F \<le> f_size (m_file ?s2)" "length (v_code ?v) < 2 ^ 32"
    "4 + length ?F \<le> length (v_code ?v)" "mem_read (f_disk (m_file ?s2)) 4 4 = mem_read (v_code ?v) 0 4"
    using s(3) fits L le code small head2 v'(3) by simp_all
  from entries_recrypted [OF dic r v plain m2 tail2 bound(1) key v'(1,2) c1(2) bound(3) refl bound(4) pl(2) bound(2,5)]
  obtain d4 c2 where d4: "(if file_items d 4 es = [] then returnC (8, d, Some c1)
         else bindC (decrypt_sections dec 8 (dataSections_crypt (map snd (file_items d 4 es)))) (\<lambda>writePtr.
                bindC (encrypt_entries (word_of_nat 4) (file_items d 4 es) d c1) (\<lambda>(dic, c).
                  returnC (writePtr, dic, Some c)))) ?s2 = (Inr (8 + length ?F, ?dic, Some c2), set_mem d4 out s)"
    "length d4 = length ?D" "mem_read d4 4 (4 + length ?F) = mem_read code 0 (4 + length ?F)" "cipher_at ?v (4 + length ?F) c2" unfolding sd v'(3) using len2 by auto
  have m4: "data_mapped (set_mem d4 out s)" using m d4(2) by simp
  have Mv: "\<forall>kv \<in> set (memory_entries X d es). valid_entry kv"
    using memory_items_values(2) [OF it dic] live_keys in_range_valid [OF r] by blast
  have q: "4 + length ?F + length ?M = length (v_code ?v)" "4 + (4 + length ?F) + length ?M \<le> f_size (m_file (set_mem d4 out s))"
    "length ?M < 2 ^ 32" using code L fits small le v'(3) by simp_all
  obtain c3 where c3: "write_prepared (prepared_bytes (memory_entries X d es)) (8 + length ?F) (Some c2) (set_mem d4 out s) =
      (Inr (4 + length code, Some c3), set_disk (mem_write d4 (8 + length ?F) (mem_read code (4 + length ?F) (length ?M))) (set_mem d4 out s))"
    "cipher_at ?v (length code) c3"
    using write_prepared_encrypted [OF v'(1,2) m4 d4(4) q(1,2) pl(3) q(3) Mv] v'(3) by auto
  let ?d5 = "mem_write d4 (8 + length ?F) (mem_read code (4 + length ?F) (length ?M))"
  let ?out = "out\<lparr>out_position := length code\<rparr>"
  have "length code = 4 + length ?F + length ?M" "8 + length ?F + length ?M \<le> length d4" using code d4(2) m fits L by simp_all
  note fin = code_completed [OF d4(3) this]
  have len5: "length ?d5 = length ?D" and final: "mem_read ?d5 4 (length code) = code" using fin d4(2) by simp_all
  have out: "out_ptr out = 4" "out_size out + 4 = f_size (m_file s)" "out_position out = 4"
    using o(2) by (auto simp: writable_def)
  have mv: "move_output (seekOut (length code - 4)) (set_mem ?d5 out s) = (Inr (), set_mem ?d5 ?out s)"
    using out code fits by (simp add: move_output_def seekOut_def Let_def) (simp add: set_mem_def)
  have w: "writable (length code) (set_mem ?d5 ?out s)" using out len5 m code fits by (simp add: writable_def)
  have s5: "set_disk ?d5 (set_mem d4 out s) = set_mem ?d5 out s" by (simp add: set_mem_def)
  have "memmoveDictionary_crypt E (iterateCrypt X d) d dec (Some c) (prepared_bytes (memory_entries X d es), ?total) s =
      (Inr (?dic, Some c3), set_mem ?d5 ?out s)"
  proof -
    have bp: "curWritePointer (the (m_output ?s1)) = 8" using o(3) by (simp add: set_mem_def)
    have bp': "curWritePointer (the (m_output (set_mem ?d5 out s))) = 8" "curWritePointer (the (m_output (set_mem d4 out s))) = 8"
      using o(3) by (simp_all add: set_mem_def)
    have w8: "4 + length code - 8 = length code - 4" "(length code - 4 + 4 = 4 + length (enc_log (live es))) = True"
      using code by simp_all
    have enc: "encrypt_in_place (8 - 4) 4 (Some c) ?s1 = (Inr (Some c1), ?s2)"
      using c1(1) s2 by (simp add: encrypt_in_place_def bindC_Inr returnC_def)
    show ?thesis
      unfolding memmoveDictionary_crypt_def sorted size_holder_header [OF dic r] Let_def option.case prod.case
      apply (rule bindC_step, rule o(1))
      apply (unfold bp, rule bindC_step, rule enc)
      apply (unfold option.case, rule bindC_step, rule d4(1))
      apply (unfold prod.case fst_conv, rule bindC_step, rule c3(1))
      apply (unfold prod.case snd_conv s5 bp' w8 if_True, rule bindC_step, rule mv)
      by (simp add: returnC_def)
  qed
  then show ?thesis using w len5 final c3(2) code by blast
qed

end

