(* ===== verification/CryptLoad.thy ===== *)
theory CryptLoad
  imports CryptRewrite MMKV_Shared
begin

text \<open>
  Loading encrypted stores and reading their values (\<open>loadFromFile\<close> of \<open>MMKV_IO.cpp\<close> with a cipher): \<open>code_of\<close> is
  what the file holds of a log under a key and the vector of the meta file, \<open>crypt_ok\<close> the invariant of a loaded
  encrypted store, and \<open>keyed_files\<close> what the files of a store with a key hold. A store that is opened on such files
  satisfies the invariant, and answers each key with the value of the log.
\<close>

unbundle bit_operations_syntax

section \<open>What the file of an encrypted store holds\<close>

text \<open>The code of the data under a key, with the vector that the meta file keeps.\<close>

definition code_of :: "byte list \<Rightarrow> bool \<Rightarrow> byte list \<Rightarrow> byte list \<Rightarrow> byte list" where
  "code_of key aes256 iv bs = (case encrypt bs (AESCrypt_new key iv aes256) of (Inr code, _) \<Rightarrow> code | (Inl _, _) \<Rightarrow> [])"

definition data_view :: "byte list \<Rightarrow> bool \<Rightarrow> byte list \<Rightarrow> byte list \<Rightarrow> view" where
  "data_view key aes256 iv bs = view_from (AESCrypt_new key iv aes256) 0 (code_of key aes256 iv bs)"

lemma encrypt_code_of:
  assumes "key \<noteq> []"
  shows "\<exists>c. encrypt bs (AESCrypt_new key iv aes256) = (Inr (code_of key aes256 iv bs), c) \<and>
      get_cfb c = v_status (data_view key aes256 iv bs) (length bs)"
    and "length (code_of key aes256 iv bs) = length bs"
proof -
  let ?c = "AESCrypt_new key iv aes256"
  have ok: "cipher_ok ?c" by (rule AESCrypt_new_ok [OF assms])
  then have "cipher_ready (m_key ?c) ?c" by (simp add: cipher_ok_def)
  then obtain c where c: "encrypt bs ?c = (Inr (code_of key aes256 iv bs), c)"
    by (cases "crypt_run fb_enc (m_key ?c) bs ?c") (auto simp: code_of_def encrypt_run)
  then show l: "length (code_of key aes256 iv bs) = length bs" by (rule view_from_encrypt(3) [OF ok])
  show "\<exists>c. encrypt bs ?c = (Inr (code_of key aes256 iv bs), c) \<and> get_cfb c = v_status (data_view key aes256 iv bs) (length bs)"
    using c l view_from_encrypt(2) [OF ok c, of "[]"] by (auto simp: data_view_def)
qed

lemma data_view:
  assumes "key \<noteq> []"
  shows "view_ok (data_view key aes256 iv bs)" and "v_base (data_view key aes256 iv bs) = 0"
    and "v_code (data_view key aes256 iv bs) = code_of key aes256 iv bs" and "v_plain (data_view key aes256 iv bs) = bs"
    and "v_key (data_view key aes256 iv bs) = m_key (AESCrypt_new key iv aes256)" and "v_aes256 (data_view key aes256 iv bs) = aes256"
    and "cipher_at (data_view key aes256 iv bs) 0 (AESCrypt_new key iv aes256)"
proof -
  let ?c = "AESCrypt_new key iv aes256"
  have ok: "cipher_ok ?c" by (rule AESCrypt_new_ok [OF assms])
  have a: "m_isAES256 ?c = aes256" using assms by (simp add: AESCrypt_new_def Let_def resetIV_def)
  note v = view_from_ok [OF ok, of 0 "code_of key aes256 iv bs"]
  show "view_ok (data_view key aes256 iv bs)" using v(1) by (simp add: data_view_def)
  show "v_base (data_view key aes256 iv bs) = 0" "v_code (data_view key aes256 iv bs) = code_of key aes256 iv bs"
    "v_key (data_view key aes256 iv bs) = m_key ?c" "v_aes256 (data_view key aes256 iv bs) = aes256"
    using a by (simp_all add: data_view_def view_from_def Let_def)
  show "v_plain (data_view key aes256 iv bs) = bs"
    using encrypt_code_of(1) [OF assms, of bs iv aes256] view_from_encrypt(1) [OF ok, of bs _ _ "[]"] by (auto simp: data_view_def)
  show "cipher_at (data_view key aes256 iv bs) 0 ?c" using v(2,3) by (simp add: data_view_def cipher_at_def)
qed

text \<open>A cipher with a key, whatever its stream has come to.\<close>

definition has_key :: "byte list \<Rightarrow> bool \<Rightarrow> AESCrypt \<Rightarrow> bool" where
  "has_key key aes256 c \<longleftrightarrow> cipher_ok c \<and> m_key c = m_key (AESCrypt_new key [] aes256) \<and> m_isAES256 c = aes256"

lemma m_key_new: "m_key (AESCrypt_new key iv aes256) = m_key (AESCrypt_new key [] aes256)"
  by (simp add: AESCrypt_new_def Let_def resetIV_def)

lemma new_has_key: "key \<noteq> [] \<Longrightarrow> has_key key aes256 (AESCrypt_new key iv aes256)"
  using AESCrypt_new_ok [of key] m_key_new
  by (auto simp: has_key_def) (auto simp: AESCrypt_new_def Let_def resetIV_def)

lemma has_key_reset: "has_key key aes256 c \<Longrightarrow> has_key key aes256 (resetIV iv c)"
  using resetIV_ok [of c iv] by (simp add: has_key_def) (simp add: resetIV_def)

lemma cipher_at_data_view:
  "key \<noteq> [] \<Longrightarrow> cipher_at (data_view key aes256 iv bs) p c \<longleftrightarrow>
     has_key key aes256 c \<and> get_cfb c = v_status (data_view key aes256 iv bs) p"
  using m_key_new [of key iv aes256] data_view(5,6) [of key aes256 iv bs] by (auto simp: cipher_at_def cipher_of_def has_key_def)

text \<open>With the vector of the data it is at the start of the stream.\<close>

lemma reset_stream:
  assumes "key \<noteq> []" and c: "has_key key aes256 c" and iv: "length iv = 16"
  shows "get_cfb (resetIV iv c) = get_cfb (AESCrypt_new key iv aes256)"
    and "view_from (resetIV iv c) 0 code = view_from (AESCrypt_new key iv aes256) 0 code"
    and "\<exists>c'. encrypt bs (resetIV iv c) = (Inr (code_of key aes256 iv bs), c')"
proof -
  let ?n = "AESCrypt_new key iv aes256" and ?r = "resetIV iv c"
  have v: "length (m_vector c) = 16" using c by (simp add: has_key_def cipher_ok_def cipher_ready_def cfb_ok_def get_cfb_def)
  have w: "mem_write xs 0 iv = iv" if "length xs = 16" for xs :: "byte list" using that iv by (simp add: mem_write_def)
  have n: "has_key key aes256 ?n" by (rule new_has_key [OF assms(1)])
  show g: "get_cfb ?r = get_cfb ?n"
    using assms(1) v iv w by (auto simp: get_cfb_def resetIV_def AESCrypt_new_def Let_def)
  have r: "has_key key aes256 ?r" by (rule has_key_reset [OF c])
  have k: "m_key ?r = m_key ?n" "m_isAES256 ?r = m_isAES256 ?n" using r n by (simp_all add: has_key_def)
  show "view_from ?r 0 code = view_from ?n 0 code" using g k by (simp add: view_from_def)
  have ready: "cipher_ready (m_key ?n) ?r" "cipher_ready (m_key ?n) ?n" using r n k(1) unfolding has_key_def cipher_ok_def by metis+
  show "\<exists>c'. encrypt bs ?r = (Inr (code_of key aes256 iv bs), c')"
    using encrypt_code_of(1) [OF assms(1), of bs iv aes256] g k
    by (auto simp: encrypt_run [OF ready(1)] encrypt_run [OF ready(2)] crypt_run_def split: prod.splits)
qed

section \<open>Loading\<close>

text \<open>A loaded store whose file holds the bytes.\<close>

definition holds_bytes :: "environment \<Rightarrow> MMKV \<Rightarrow> byte list \<Rightarrow> bool" where
  "holds_bytes E s bs \<longleftrightarrow> isFileValid (m_file s) \<and> \<not> m_readOnly s \<and> \<not> m_needLoadFromFile s \<and> data_mapped s \<and>
     4 + length bs \<le> f_size (m_file s) \<and> length bs < 2 ^ 32 \<and> mem_read (f_disk (m_file s)) 4 (length bs) = bs \<and>
     m_actualSize s = length bs \<and> writable (length bs) s \<and> meta_current E s bs"

text \<open>Its files can be mapped again as they are.\<close>

definition settled :: "environment \<Rightarrow> MMKV \<Rightarrow> bool" where
  "settled E s \<longleftrightarrow> f_io (m_file s) = [] \<and> f_io (m_metaFile s) = [] \<and> m_isSecondLoad s \<and> f_size (m_file s) = length (f_disk (m_file s)) \<and>
     max (page_size E) (roundUp (m_expectedCapacity s) (page_size E)) \<le> length (f_disk (m_file s)) \<and>
     length (f_disk (m_file s)) mod page_size E = 0"

text \<open>The files of a store to be loaded hold the bytes, and the meta file describes them.\<close>

definition files_hold_bytes :: "environment \<Rightarrow> MMKV \<Rightarrow> byte list \<Rightarrow> bool" where
  "files_hold_bytes E s bs \<longleftrightarrow> 4 + length bs \<le> length (f_disk (m_file s)) \<and> length bs < 2 ^ 32 \<and> bs \<noteq> [] \<and>
     mem_read (f_disk (m_file s)) 4 (length bs) = bs \<and>
     mi_crcDigest (read_meta s) = crc32 E 0 bs \<and> mi_actualSize (read_meta s) = word_of_nat (length bs)"

text \<open>The store when the decoder starts.\<close>

definition load_start :: "environment \<Rightarrow> CryptMMKV \<Rightarrow> byte list \<Rightarrow> MemoryFile \<Rightarrow> MemoryFile \<Rightarrow> CryptMMKV" where
  "load_start E s bs f g =
     (let t = (with_files (m_store s) f g)\<lparr>m_actualSize := length bs, m_crcDigest := crc32 E 0 bs\<rparr>
      in s\<lparr>m_store := (if m_crypter s = None then t\<lparr>m_dic := Map.empty\<rparr> else t),
           m_crypter := map_option (resetIV (mi_vector (read_meta (m_store s)))) (m_crypter s),
           m_dicCrypt := (if m_crypter s = None then m_dicCrypt s else map_option (\<lambda>_. Map.empty) (m_dicCrypt s))\<rparr>)"

lemma with_files_sel [simp]:
  "m_file (with_files s f g) = f" "m_metaFile (with_files s f g) = g" "m_metaInfo (with_files s f g) = read_meta s"
  "m_readOnly (with_files s f g) = m_readOnly s" "m_multiProcess (with_files s f g) = m_multiProcess s"
  "m_expectedCapacity (with_files s f g) = m_expectedCapacity s" "m_isSecondLoad (with_files s f g)"
  "m_itemSizeLimit (with_files s f g) = m_itemSizeLimit s" "m_dic (with_files s f g) = m_dic s"
  "m_expiredInSeconds (with_files s f g) = m_expiredInSeconds s"
  by (simp_all add: with_files_def)

lemma load_bytes:
  assumes "0 < page_size E" and E: "E = plain_env X" and u: "unloaded E (m_store s)" and b: "files_hold_bytes E (m_store s) bs"
    and dec: "\<And>f g. f_ptr f \<Longrightarrow> f_size f = length (f_disk f) \<Longrightarrow> f_disk f = f_disk (m_file (m_store s)) \<Longrightarrow>
      decode_store X False 0 (load_start E s bs f g) =
        (Inr (), (load_start E s bs f g)\<lparr>m_store := (m_store (load_start E s bs f g))\<lparr>m_dic := M\<rparr>, m_dicCrypt := D, m_crypter := C\<rparr>)"
  shows "\<exists>t. loadFromFile_crypt (Suc n) X s = (Inr (), s\<lparr>m_store := t, m_dicCrypt := D, m_crypter := C\<rparr>) \<and> holds_bytes E t bs \<and>
    m_dic t = M \<and> m_metaInfo t = read_meta (m_store s) \<and> loaded_settings (m_store s) t \<and> settled E t"
proof -
  from load_prepares [OF assms(1) u] obtain f f' g where m: "loadMetaInfoAndCheck E (m_store s) = (Inr (), with_files (m_store s) f g)"
    and re: "map_again E (with_files (m_store s) f g) = (Inr (), with_files (m_store s) f' g)"
    and v: "same_valid_file (m_metaFile (m_store s)) g" "isFileValid f'" "f_io f' = []" "\<not> f_readOnly f'" "f_size f' = length (f_disk f')"
      "f_disk f' = f_disk (m_file (m_store s))" "meta_ready (with_files (m_store s) f' g)" by blast
  note gs = same_valid_fileD [OF v(1)]
  have ptr: "f_ptr f'" using v(2) by (simp add: isFileValid_def)
  have ro: "\<not> m_readOnly (m_store s)" using u by (simp add: unloaded_def)
  have bs: "4 + length bs \<le> length (f_disk f')" "length bs < 2 ^ 32" "bs \<noteq> []" "mem_read (f_disk f') 4 (length bs) = bs"
    "mi_crcDigest (read_meta (m_store s)) = crc32 E 0 bs" "mi_actualSize (read_meta (m_store s)) = word_of_nat (length bs)"
    using b v(6) by (simp_all add: files_hold_bytes_def)
  have ver: "MMKVVersionFlag \<le> mi_version (read_meta (m_store s))" "MMKVVersionRandomIV \<le> mi_version (read_meta (m_store s))"
    using v(7) order.trans [of MMKVVersionRandomIV MMKVVersionFlag] by (simp_all add: meta_ready_def version_defs)
  let ?w = "with_files (m_store s) f' g"
  have chk: "checkDataValid E ?w = (Inr (True, False), ?w\<lparr>m_actualSize := length bs, m_crcDigest := crc32 E 0 bs\<rparr>)"
    by (rule checkDataValid_bytes) (use v bs ver in simp_all)
  let ?l = "load_start E s bs f' g"
  let ?d = "?l\<lparr>m_store := (m_store ?l)\<lparr>m_dic := M\<rparr>, m_dicCrypt := D, m_crypter := C\<rparr>"
  note d = dec [OF ptr v(5,6), of g]
  let ?out = "setPosition (length bs) (CodedOutputData [] 4 (payload_size (f_size f')))"
  let ?t = "(m_store ?d)\<lparr>m_output := Some ?out, m_needLoadFromFile := False\<rparr>"
  have pay: "payload_size (f_size f') = f_size f' - 4" using bs(1) v(5) by (simp add: payload_size_def)
  note pay' = pay [unfolded v(5)]
  have seek: "move_output (seekOut (length bs)) (new_output (m_store ?d)) = (Inr (), (m_store ?d)\<lparr>m_output := Some ?out\<rparr>)"
    using bs(1) v(5)
    by (auto simp: move_output_def new_output_def seekOut_def pay' CodedOutputData_def setPosition_def getFileSize_def Let_def load_start_def)
  have run: "loadFromFile_crypt (Suc n) X s = (Inr (), s\<lparr>m_store := ?t, m_dicCrypt := D, m_crypter := C\<rparr>)"
  proof -
    let ?a = "with_files (m_store s) f g"
    let ?r = "s\<lparr>m_crypter := map_option (resetIV (mi_vector (read_meta (m_store s)))) (m_crypter s), m_store := ?w\<rparr>"
    let ?full = "bindC (fullWriteback_crypt_body X (clearAll_crypt_body X
        (checkLoadData_crypt_body (loadFromFile_crypt n X) (partialLoadFromFile_crypt_body X (loadFromFile_crypt n X)))
        (loadFromFile_crypt n X)) NullCrypter False) (\<lambda>r. returnC (fst r))"
    let ?c = "?r\<lparr>m_store := ?w\<lparr>m_actualSize := length bs, m_crcDigest := crc32 E 0 bs\<rparr>\<rparr>"
    have 1: "on_store (loadMetaInfoAndCheck (plain_env X)) s = (Inr (), s\<lparr>m_store := ?a\<rparr>)"
      using m by (simp add: on_store_def E)
    have r: "remap_crypt X (s\<lparr>m_store := ?a\<rparr>) = (Inr (), ?r)"
      using ver(2) re by (simp add: remap_crypt_def on_store_def Let_def E)
    have 2: "on_store (checkDataValid (plain_env X)) ?r = (Inr (True, False), ?c)"
      using chk by (simp add: on_store_def E)
    have 3: "(if m_crypter ?c \<noteq> None then ?c\<lparr>m_dicCrypt := map_option (\<lambda>_. Map.empty) (m_dicCrypt ?c)\<rparr>
           else ?c\<lparr>m_store := (m_store ?c)\<lparr>m_dic := Map.empty\<rparr>\<rparr>) = ?l"
      by (cases "m_crypter s") (simp_all add: load_start_def Let_def)
    have act: "m_actualSize (m_store ?d) = length bs" by (simp add: load_start_def Let_def)
    have 4: "on_store (\<lambda>t. move_output (seekOut (m_actualSize t)) (new_output t)) ?d =
        (Inr (), ?d\<lparr>m_store := (m_store ?d)\<lparr>m_output := Some ?out\<rparr>\<rparr>)"
      unfolding on_store_def act seek prod.case ..
    have 5: "load_data_crypt X ?full False ?c = (Inr (), ?d\<lparr>m_store := (m_store ?d)\<lparr>m_output := Some ?out\<rparr>\<rparr>)"
      unfolding load_data_crypt_def 3 by (rule bindC_step, rule d, rule bindC_step, rule 4) (simp add: returnC_def)
    have 6: "bindC (on_store (checkDataValid (plain_env X))) (\<lambda>(loadFromFile, needFullWriteback) s.
        if loadFromFile \<and> 0 < m_actualSize (m_store s) then load_data_crypt X ?full needFullWriteback s
        else on_store load_nothing s) ?r = (Inr (), ?d\<lparr>m_store := (m_store ?d)\<lparr>m_output := Some ?out\<rparr>\<rparr>)"
      using 5 bs(3) by (intro bindC_step [where m = "on_store (checkDataValid (plain_env X))", OF 2]) simp
    have "loadFromFile_crypt (Suc n) X s = (Inr (), (?d\<lparr>m_store := (m_store ?d)\<lparr>m_output := Some ?out\<rparr>\<rparr>)
        \<lparr>m_store := (m_store (?d\<lparr>m_store := (m_store ?d)\<lparr>m_output := Some ?out\<rparr>\<rparr>))\<lparr>m_needLoadFromFile := False\<rparr>\<rparr>)"
      unfolding loadFromFile_crypt.simps Let_def loadFromFile_crypt_body_def
      by (rule bindC_step, rule 1, rule bindC_step, rule r, rule bindC_step [where t = "?d\<lparr>m_store := (m_store ?d)\<lparr>m_output := Some ?out\<rparr>\<rparr>"])
        (use v(2) 6 in simp_all)
    then show ?thesis by (simp add: load_start_def Let_def)
  qed
  have "holds_bytes E ?t bs"
    using v(2,4,5,7) ptr bs ro
    by (simp add: holds_bytes_def load_start_def Let_def writable_def setPosition_def CodedOutputData_def pay pay' meta_current_def meta_ready_def read_meta_def)
  moreover have "loaded_settings (m_store s) ?t" 
    using v gs by (simp add: loaded_settings_def load_start_def Let_def) (simp add: with_files_def)
  moreover have "settled E ?t"
    using v gs u by (simp add: settled_def load_start_def Let_def unloaded_def)
  ultimately show ?thesis using run by (intro exI [of _ ?t]) (simp add: load_start_def Let_def)
qed

section \<open>A loaded encrypted store\<close>

text \<open>The file holds the code of a log; the cipher stands at its end, and the dictionary has the places of its live entries.\<close>

definition crypt_log :: "byte list \<Rightarrow> log_entry list \<Rightarrow> bool" where
  "crypt_log hdr es \<longleftrightarrow> (\<exists>w. reads readInt32 hdr w) \<and> in_range (length hdr) es"

definition crypt_ok ::
  "crypt_environment \<Rightarrow> CryptMMKV \<Rightarrow> byte list \<Rightarrow> bool \<Rightarrow> byte list \<Rightarrow> log_entry list \<Rightarrow> bool" where
  "crypt_ok X s key aes256 hdr es \<longleftrightarrow> key \<noteq> [] \<and> crypt_log hdr es \<and>
     (let iv = mi_vector (m_metaInfo (m_store s)); bs = hdr @ enc_log es; v = data_view key aes256 iv bs
      in holds_bytes (plain_env X) (m_store s) (code_of key aes256 iv bs) \<and>
         (\<exists>c d. m_crypter s = Some c \<and> has_key key aes256 c \<and> get_cfb c = v_status v (length bs) \<and>
            m_dicCrypt s = Some d \<and> crypt_dic v (length hdr) es d))"

lemma in_range_keys: "in_range pos es \<Longrightarrow> \<forall>kv \<in> set es. valid_entry kv \<and> length (fst kv) < 2 ^ 16"
  by (auto simp: in_range_def)

lemma load_crypt:
  assumes "0 < page_size (plain_env X)" and u: "unloaded (plain_env X) (m_store s)" and "key \<noteq> []" and log: "crypt_log hdr es"
    and iv: "iv = mi_vector (read_meta (m_store s))"
    and b: "files_hold_bytes (plain_env X) (m_store s) (code_of key aes256 iv (hdr @ enc_log es))"
    and c: "m_crypter s = Some c" "has_key key aes256 c" and "m_dicCrypt s \<noteq> None"
  shows "\<exists>t. loadFromFile_crypt (Suc n) X s = (Inr (), t) \<and> crypt_ok X t key aes256 hdr es \<and> settled (plain_env X) (m_store t) \<and>
    loaded_settings (m_store s) (m_store t) \<and> m_hasDic t = m_hasDic s"
proof -
  let ?E = "plain_env X" and ?bs = "hdr @ enc_log es"
  let ?code = "code_of key aes256 iv ?bs" and ?v = "data_view key aes256 iv ?bs" and ?r = "resetIV iv c"
  obtain w where w: "reads readInt32 hdr w" and r: "in_range (length hdr) es" using log by (auto simp: crypt_log_def)
  have iv16: "length iv = 16" using u by (simp add: unloaded_def meta_ok_def iv)
  have small: "length ?code < 2 ^ 32" using b by (simp add: files_hold_bytes_def)
  note rs = reset_stream [OF assms(3) c(2) iv16]
  have ok: "cipher_ok ?r" using has_key_reset [OF c(2)] by (simp add: has_key_def)
  obtain c' where c': "encrypt ?bs ?r = (Inr ?code, c')" using rs(3) by blast
  have view: "view_from ?r 0 ?code = ?v" by (simp add: rs(2) data_view_def)
  obtain d e where d: "decodeMapCrypt (fresh_mem X) Map.empty ?code ?r 0 = Some (Inr d, e)"
    "get_cfb e = get_cfb c'" "cipher_ok e" "m_key e = m_key ?r" "m_isAES256 e = m_isAES256 ?r" "crypt_dic ?v (length hdr) es d"
    using decode_crypt_dic [OF ok c' w in_range_keys [OF r] small, of "fresh_mem X" Map.empty] unfolding view by blast
  have k: "has_key key aes256 e" using has_key_reset [OF c(2), of iv] d(3-5) by (simp add: has_key_def)
  have st: "get_cfb e = v_status ?v (length ?bs)"
    using view_from_encrypt(2) [OF ok c', of "[]"] view_from_encrypt(3) [OF ok c'] d(2) by (simp add: view)
  obtain D where D: "m_dicCrypt s = Some D" using assms(9) by blast
  have dec: "decode_store X False 0 (load_start ?E s ?code f g) = (Inr (), (load_start ?E s ?code f g)
      \<lparr>m_store := (m_store (load_start ?E s ?code f g))\<lparr>m_dic := m_dic (m_store s)\<rparr>, m_dicCrypt := Some d, m_crypter := Some e\<rparr>)"
    if f: "f_ptr f" "f_size f = length (f_disk f)" "f_disk f = f_disk (m_file (m_store s))" for f g
  proof -
    let ?l = "load_start ?E s ?code f g"
    have l: "m_crypter ?l = Some ?r" "m_dicCrypt ?l = Some Map.empty" "m_file (m_store ?l) = f" "m_actualSize (m_store ?l) = length ?code"
      "?l\<lparr>m_store := (m_store ?l)\<lparr>m_dic := m_dic (m_store s)\<rparr>, m_dicCrypt := Some d, m_crypter := Some e\<rparr> =
       ?l\<lparr>m_dicCrypt := Some d, m_crypter := Some e\<rparr>"
      by (simp_all add: load_start_def Let_def c D iv with_files_def)
    have "memory_read 4 (length ?code) (m_store ?l) = (Inr ?code, m_store ?l)"
      using memory_read_run [of "m_store ?l" 4 "length ?code"] b f unfolding l(3) by (simp add: files_hold_bytes_def)
    then have "on_store (memory_read 4 (m_actualSize (m_store ?l))) ?l = (Inr ?code, ?l)"
      unfolding l(4) by (simp add: on_store_def)
    then have "decode_store X False 0 ?l = (Inr (), ?l\<lparr>m_dicCrypt := Some d, m_crypter := Some e\<rparr>)"
      using l(1,2) d(1) by (simp add: decode_store_def decode_into_dicCrypt_def with_dicCrypt_def bindC_Inr)
    then show ?thesis unfolding l(5) .
  qed
  obtain t where t: "loadFromFile_crypt (Suc n) X s = (Inr (), s\<lparr>m_store := t, m_dicCrypt := Some d, m_crypter := Some e\<rparr>)"
    "holds_bytes ?E t ?code" "m_metaInfo t = read_meta (m_store s)" "loaded_settings (m_store s) t" "settled ?E t"
  proof -
    have "\<exists>t. loadFromFile_crypt (Suc n) X s = (Inr (), s\<lparr>m_store := t, m_dicCrypt := Some d, m_crypter := Some e\<rparr>) \<and>
        holds_bytes ?E t ?code \<and> m_dic t = m_dic (m_store s) \<and> m_metaInfo t = read_meta (m_store s) \<and>
        loaded_settings (m_store s) t \<and> settled ?E t"
      by (rule load_bytes [OF assms(1) refl u b]) (rule dec)
    then show thesis using that by blast
  qed
  then show ?thesis
    using log k st d(6) assms(3) iv by (intro exI [of _ "s\<lparr>m_store := t, m_dicCrypt := Some d, m_crypter := Some e\<rparr>"])
      (simp add: crypt_ok_def Let_def del: loadFromFile_crypt.simps)
qed

text \<open>A loaded plain store.\<close>

definition plain_ok :: "crypt_environment \<Rightarrow> CryptMMKV \<Rightarrow> byte list \<Rightarrow> log_entry list \<Rightarrow> bool" where
  "plain_ok X s hdr es \<longleftrightarrow> store_ok (plain_env X) (m_store s) hdr es \<and> m_crypter s = None \<and> m_hasDic s"

lemma load_plain:
  assumes page: "0 < page_size (plain_env X)" and u: "unloaded (plain_env X) (m_store s)" and log: "crypt_log hdr es"
    and b: "files_hold_bytes (plain_env X) (m_store s) (hdr @ enc_log es)" and "1 \<le> length hdr" and "length hdr \<le> 10"
    and c: "m_crypter s = None" "m_hasDic s"
  shows "\<exists>t. loadFromFile_crypt (Suc n) X s = (Inr (), t) \<and> plain_ok X t hdr es \<and> settled (plain_env X) (m_store t) \<and>
    loaded_settings (m_store s) (m_store t)"
proof -
  let ?E = "plain_env X" and ?bs = "hdr @ enc_log es"
  obtain w where w: "reads readInt32 hdr w" and r: "in_range (length hdr) es" using log by (auto simp: crypt_log_def)
  have dec: "decode_store X False 0 (load_start ?E s ?bs f g) = (Inr (), (load_start ?E s ?bs f g)
      \<lparr>m_store := (m_store (load_start ?E s ?bs f g))\<lparr>m_dic := dic_of (length hdr) es\<rparr>, m_dicCrypt := m_dicCrypt s, m_crypter := None\<rparr>)"
    if f: "f_ptr f" "f_size f = length (f_disk f)" "f_disk f = f_disk (m_file (m_store s))" for f g
  proof -
    let ?l = "load_start ?E s ?bs f g"
    have l: "m_crypter ?l = None" "m_hasDic ?l" "m_file (m_store ?l) = f" "m_actualSize (m_store ?l) = length ?bs"
      using c by (simp_all add: load_start_def Let_def)
    have "memory_read 4 (length ?bs) (m_store ?l) = (Inr ?bs, m_store ?l)"
      using memory_read_run [of "m_store ?l" 4 "length ?bs"] b f unfolding l(3) by (simp add: files_hold_bytes_def)
    then have "decode_into_dic decodeMap 0 (m_store ?l) = (Inr (), (m_store ?l)\<lparr>m_dic := dic_of (length hdr) es\<rparr>)"
      using decode_log [OF w r] l(4) by (simp add: decode_into_dic_def bindC_def)
    then have "decode_store X False 0 ?l = (Inr (), ?l\<lparr>m_store := (m_store ?l)\<lparr>m_dic := dic_of (length hdr) es\<rparr>\<rparr>)"
      using l(1,2) by (simp add: decode_store_def with_dic_def on_store_def)
    moreover have "?l\<lparr>m_store := (m_store ?l)\<lparr>m_dic := dic_of (length hdr) es\<rparr>, m_dicCrypt := m_dicCrypt s, m_crypter := None\<rparr> =
        ?l\<lparr>m_store := (m_store ?l)\<lparr>m_dic := dic_of (length hdr) es\<rparr>\<rparr>"
      using c by (simp add: load_start_def Let_def)
    ultimately show ?thesis by simp
  qed
  have "\<exists>t. loadFromFile_crypt (Suc n) X s = (Inr (), s\<lparr>m_store := t, m_dicCrypt := m_dicCrypt s, m_crypter := None\<rparr>) \<and>
      holds_bytes ?E t ?bs \<and> m_dic t = dic_of (length hdr) es \<and> m_metaInfo t = read_meta (m_store s) \<and>
      loaded_settings (m_store s) t \<and> settled ?E t"
    by (rule load_bytes [OF page refl u b]) (rule dec)
  then obtain t where t: "loadFromFile_crypt (Suc n) X s = (Inr (), s\<lparr>m_store := t, m_dicCrypt := m_dicCrypt s, m_crypter := None\<rparr>)"
    "holds_bytes ?E t ?bs" "m_dic t = dic_of (length hdr) es" "loaded_settings (m_store s) t" "settled ?E t" by blast
  have "store_ok ?E t hdr es"
    using t(2,3) r w assms(5,6)
    by (auto simp: store_ok_def log_ok_def file_log_def holds_bytes_def header_def)
  then show ?thesis using t(1,4,5) c by (auto simp: plain_ok_def simp del: loadFromFile_crypt.simps)
qed

section \<open>Reading a value\<close>

lemma check_crypt_loaded:
  assumes "\<not> m_needLoadFromFile (m_store s)" and "meta_ready (m_store s)"
  shows "checkLoadData_crypt X s = (Inr (), s)"
  using assms by (simp add: checkLoadData_crypt_def checkLoadData_crypt_body_def Let_def meta_ready_def)

lemma check_load: "m_needLoadFromFile (m_store s) \<Longrightarrow>
    checkLoadData_crypt X s = loadFromFile_crypt (Suc 3) X (s\<lparr>m_store := (m_store s)\<lparr>m_needLoadFromFile := False\<rparr>\<rparr>)"
  by (simp add: checkLoadData_crypt_def checkLoadData_crypt_body_def Let_def load_depth_def del: loadFromFile_crypt.simps)

lemma crypt_ok_check: "crypt_ok X s key aes256 hdr es \<Longrightarrow> checkLoadData_crypt X s = (Inr (), s)"
  by (rule check_crypt_loaded) (simp_all add: crypt_ok_def holds_bytes_def meta_current_def Let_def)

lemma toMMBuffer_base:
  assumes "kh_type h = Offset \<Longrightarrow>
    mem_read base (unat (kh_offset h)) (unat (crypt_size h)) = mem_read base' (unat (kh_offset h)) (unat (crypt_size h))"
  shows "toMMBuffer_crypt base c h = toMMBuffer_crypt base' c h"
  using assms by (cases "kh_type h") (simp_all add: toMMBuffer_crypt_def crypt_size_def Let_def)

lemma crypt_dic_contents:
  assumes "crypt_dic v pos es d"
  shows "log_contents es k = None \<Longrightarrow> d k = None"
    and "log_contents es k = Some x \<Longrightarrow> \<exists>p h. d k = Some h \<and> (p, (k, x)) \<in> set (live_at pos es) \<and> placed v p (k, x) h"
proof -
  have e: "log_contents es k = map_of (live_items (\<lambda>_. snd) pos es) k"
    using live_at_snd [of pos es] by (simp add: log_contents_live live_items_def split_def flip: live_at_snd [of pos es])
  show "log_contents es k = None \<Longrightarrow> d k = None"
    using crypt_dic_items(1) [OF assms] live_items_eq [of "\<lambda>_. snd" pos es k] live_items_eq [of "holder_for d" pos es k] e
    by (metis option.map_disc_iff)
  assume "log_contents es k = Some x"
  then have "(k, x) \<in> set (live_items (\<lambda>_. snd) pos es)" unfolding e by (rule map_of_SomeD)
  then obtain p where p: "(p, (k, x)) \<in> set (live_at pos es)" by (auto simp: live_items_def)
  then show "\<exists>p h. d k = Some h \<and> (p, (k, x)) \<in> set (live_at pos es) \<and> placed v p (k, x) h"
    using crypt_dic_items(2) [OF assms p] by auto
qed

lemma crypt_get:
  assumes s: "crypt_ok X s key aes256 hdr es"
  shows "getRawDataForKey_crypt (checkLoadData_crypt X) k s =
    (Inr (case log_contents es k of None \<Rightarrow> [] | Some x \<Rightarrow> x), s)"
proof -
  let ?t = "m_store s"
  obtain iv bs code v where iv: "iv = mi_vector (m_metaInfo ?t)" "bs = hdr @ enc_log es" "code = code_of key aes256 iv bs"
    "v = data_view key aes256 iv bs" by blast
  have key: "key \<noteq> []" and r: "in_range (length hdr) es" and hb: "holds_bytes (plain_env X) ?t code"
    using s by (simp_all add: crypt_ok_def crypt_log_def Let_def iv)
  obtain c d where c: "m_crypter s = Some c" "has_key key aes256 c" and d: "m_dicCrypt s = Some d" "crypt_dic v (length hdr) es d"
    using s by (auto simp: crypt_ok_def Let_def iv)
  note vw = data_view [OF key, of aes256 iv bs, folded iv(3,4)]
  have dk: "m_aesKey c = Some (encrypt_key (v_key v) (v_aes256 v))" "m_isAES256 c = v_aes256 v"
    using c(2) m_key_new [of key iv aes256] vw(5,6) by (auto simp: has_key_def cipher_ok_def cipher_ready_def)
  have len: "length code = length hdr + length (enc_log es)" using encrypt_code_of(2) [OF key, of aes256 iv bs] by (simp add: iv)
  note pre = crypt_ok_check [OF s]
  show ?thesis
  proof (cases "log_contents es k")
    case None
    then show ?thesis
      using crypt_dic_contents(1) [OF d(2) None] c(1) d(1)
      by (simp add: getRawDataForKey_crypt_def bindC_def pre with_dicCrypt_def returnC_def)
  next
    case (Some x)
    obtain p h where h: "d k = Some h" "(p, (k, x)) \<in> set (live_at (length hdr) es)" "placed v p (k, x) h"
      using crypt_dic_contents(2) [OF d(2) Some] by blast
    have f: "data_mapped ?t" "4 + length code \<le> f_size (m_file ?t)" "mem_read (f_disk (m_file ?t)) 4 (length code) = code"
      using hb by (simp_all add: holds_bytes_def)
    have base: "mem_read (drop 4 (f_memory (m_file ?t))) a n = mem_read code a n" if "a + n \<le> length code" for a n
    proof -
      have "mem_read (drop 4 (f_memory (m_file ?t))) a n = mem_read (mem_read (f_disk (m_file ?t)) 4 (length code)) a n"
        using that f(1,2) by (simp add: f_memory_def mem_read_def drop_take min_absorb1)
      then show ?thesis using f(3) by simp
    qed
    have place: "unat (kh_offset h) = p \<and> unat (crypt_size h) = length (enc_entry (k, x)) \<and> p + length (enc_entry (k, x)) \<le> length code"
      if "kh_type h = Offset"
      using placed_offset(1,2) [OF h(3) that] in_range_entry(3) [OF r h(2)]
        live_at_start [OF in_range_valid [OF r] h(2)] len by simp
    have "toMMBuffer_crypt (drop 4 (f_memory (m_file ?t))) c h = toMMBuffer_crypt code c h"
      by (rule toMMBuffer_base) (use base place in auto)
    also have "\<dots> = Inr x" using h(3) dk vw(3) by (simp add: placed_def locates_def)
    finally have val: "toMMBuffer_crypt (drop 4 (f_memory (m_file ?t))) c h = Inr x" .
    have "holder_value_crypt h s = (Inr x, s)"
      using c(1) val place f(1,2) by (auto simp: holder_value_crypt_def Let_def)
    then show ?thesis
      using h(1) c(1) d(1) Some
      by (simp add: getRawDataForKey_crypt_def bindC_def pre with_dicCrypt_def)
  qed
qed

section \<open>Opening encrypted files\<close>

text \<open>The object on files with the given contents: with a key it has the dictionary of encrypted stores and a cipher.\<close>

definition crypt_object ::
  "environment \<Rightarrow> MMKVConfig \<Rightarrow> byte list \<Rightarrow> bool \<Rightarrow> byte list \<Rightarrow> byte list \<Rightarrow> bool list \<Rightarrow> bool list \<Rightarrow> CryptMMKV" where
  "crypt_object E config key aes256 disk metaDisk io metaIo =
     (if key \<noteq> []
      then \<lparr>m_store = MMKV_object E config disk metaDisk io metaIo, m_hasDic = False, m_dicCrypt = Some Map.empty,
            m_crypter = Some (AESCrypt_new key [] aes256)\<rparr>
      else \<lparr>m_store = MMKV_object E config disk metaDisk io metaIo, m_hasDic = True, m_dicCrypt = None, m_crypter = None\<rparr>)"

text \<open>The files hold a log: its code under a key, or the log itself.\<close>

definition keyed_files ::
  "environment \<Rightarrow> byte list \<Rightarrow> bool \<Rightarrow> byte list \<Rightarrow> byte list \<Rightarrow> byte list \<Rightarrow> log_entry list \<Rightarrow> bool" where
  "keyed_files E key aes256 disk metaDisk hdr es \<longleftrightarrow> hdr \<noteq> [] \<and> length hdr \<le> 10 \<and> crypt_log hdr es \<and> 112 \<le> length metaDisk \<and>
     (let mi = meta_read metaDisk; bs = hdr @ enc_log es;
          code = (if key = [] then bs else code_of key aes256 (mi_vector mi) bs)
      in 4 + length code \<le> length disk \<and> length code < 2 ^ 32 \<and> mem_read disk 4 (length code) = code \<and>
         meta_ok mi \<and> MMKVVersionFlag \<le> mi_version mi \<and> mi_version mi < MMKVVersionHolder \<and>
         mi_crcDigest mi = crc32 E 0 code \<and> mi_actualSize mi = word_of_nat (length code))"

text \<open>The object that is constructed on files, before it is loaded.\<close>

lemma object_unloaded:
  assumes E: "env_files E" and ro: "\<not> isReadOnly config" and "112 \<le> length metaDisk"
    and mi: "meta_ok (meta_read metaDisk)" "MMKVVersionFlag \<le> mi_version (meta_read metaDisk)" "mi_version (meta_read metaDisk) < MMKVVersionHolder"
    and s: "s = (MMKV_object E config disk metaDisk [] [])\<lparr>m_needLoadFromFile := False\<rparr>"
  shows "unloaded E s" and "read_meta s = meta_read metaDisk"
    and "n \<le> length disk \<Longrightarrow> take n (f_disk (m_file s)) = take n disk" and "length disk \<le> length (f_disk (m_file s))"
proof -
  let ?o = "MMKV_object E config disk metaDisk [] []"
  have page: "0 < page_size E" using page_sizes [OF E] by simp
  note fe = MMKV_object_files(1) [OF ro refl, of E disk metaDisk] and ge = MMKV_object_files(2) [OF ro refl, of E disk metaDisk]
  note fo = MemoryFile_new_ok [OF page fe] and go = MemoryFile_new_ok [OF page ge]
  note fz = MemoryFile_new_size [OF page fe]
  have cap: "m_expectedCapacity ?o = mapped_size E (expectedCapacity config)"
    by (simp add: MMKV_object_def Let_def mapped_size_def)
  have mem: "f_memory (m_metaFile ?o) = f_disk (m_metaFile ?o)" using go(4) by (simp add: f_memory_def)
  show rm: "read_meta s = meta_read metaDisk"
    using mem meta_read_take [OF assms(3), of "f_disk (m_metaFile ?o)"] go(7) by (simp add: s read_meta_def)
  have big: "112 \<le> f_size (m_metaFile ?o)" using assms(3) go(4,6) by linarith
  show "unloaded E s"
    unfolding unloaded_def rm using fo go fz cap ro mi big by (simp add: s mapped_size_def)
  show "length disk \<le> length (f_disk (m_file s))" using fo(6) by (simp add: s)
  show "take n (f_disk (m_file s)) = take n disk" if "n \<le> length disk"
    using arg_cong [OF fo(7), of "take n"] that by (simp add: s min_absorb1)
qed

lemma files_hold_object:
  assumes "keyed_files E key aes256 disk metaDisk hdr es" and E: "env_files E" and ro: "\<not> isReadOnly config"
    and s: "s = (MMKV_object E config disk metaDisk [] [])\<lparr>m_needLoadFromFile := False\<rparr>"
    and code: "code = (if key = [] then hdr @ enc_log es else code_of key aes256 (mi_vector (meta_read metaDisk)) (hdr @ enc_log es))"
  shows "unloaded E s" and "read_meta s = meta_read metaDisk" and "files_hold_bytes E s code"
proof -
  have h: "hdr \<noteq> []" "112 \<le> length metaDisk" "meta_ok (meta_read metaDisk)" "MMKVVersionFlag \<le> mi_version (meta_read metaDisk)"
    "mi_version (meta_read metaDisk) < MMKVVersionHolder" "4 + length code \<le> length disk" "length code < 2 ^ 32"
    "mem_read disk 4 (length code) = code" "mi_crcDigest (meta_read metaDisk) = crc32 E 0 code"
    "mi_actualSize (meta_read metaDisk) = word_of_nat (length code)"
    using assms(1) by (simp_all add: keyed_files_def Let_def code)
  note o = object_unloaded [OF E ro h(2-5) s]
  show "unloaded E s" "read_meta s = meta_read metaDisk" by (fact o)+
  have "mem_read (f_disk (m_file s)) 4 (length code) = mem_read (take (4 + length code) (f_disk (m_file s))) 4 (length code)"
    by (simp add: mem_read_take)
  also have "\<dots> = code" using o(3) [OF h(6)] h(8) by (simp add: mem_read_take)
  finally have r: "mem_read (f_disk (m_file s)) 4 (length code) = code" .
  have "length code = length (hdr @ enc_log es)" using encrypt_code_of(2) [of key aes256] by (simp add: code)
  then have "code \<noteq> []" using h(1) by auto
  then show "files_hold_bytes E s code" unfolding files_hold_bytes_def o(2) using h r o(4) by simp
qed

lemma open_keyed:
  assumes E: "env_files (plain_env X)" and ro: "\<not> isReadOnly config"
    and f: "keyed_files (plain_env X) key aes256 disk metaDisk hdr es"
  shows "\<exists>u. checkLoadData_crypt X (crypt_object (plain_env X) config key aes256 disk metaDisk [] []) = (Inr (), u) \<and>
    (if key = [] then plain_ok X u hdr es else crypt_ok X u key aes256 hdr es) \<and> settled (plain_env X) (m_store u) \<and>
    m_enableKeyExpire (m_store u) = hasFlag EnableKeyExipre (meta_read metaDisk)"
proof -
  let ?E = "plain_env X"
  let ?c = "crypt_object ?E config key aes256 disk metaDisk [] []" and ?o = "(MMKV_object ?E config disk metaDisk [] [])\<lparr>m_needLoadFromFile := False\<rparr>"
  have page: "0 < page_size ?E" using page_sizes [OF E] by simp
  have log: "crypt_log hdr es" "1 \<le> length hdr" "length hdr \<le> 10" using f by (auto simp: keyed_files_def Suc_le_eq)
  have run: "checkLoadData_crypt X ?c = loadFromFile_crypt (Suc 3) X (?c\<lparr>m_store := ?o\<rparr>)"
    by (subst check_load) (simp_all add: crypt_object_def del: loadFromFile_crypt.simps)
  note o = files_hold_object [OF f E ro refl refl]
  have "\<exists>u. loadFromFile_crypt (Suc 3) X (?c\<lparr>m_store := ?o\<rparr>) = (Inr (), u) \<and>
      (if key = [] then plain_ok X u hdr es else crypt_ok X u key aes256 hdr es) \<and>
      settled ?E (m_store u) \<and> loaded_settings (m_store (?c\<lparr>m_store := ?o\<rparr>)) (m_store u)"
  proof (cases "key = []")
    case True
    have "\<exists>u. loadFromFile_crypt (Suc 3) X (?c\<lparr>m_store := ?o\<rparr>) = (Inr (), u) \<and> plain_ok X u hdr es \<and>
        settled ?E (m_store u) \<and> loaded_settings (m_store (?c\<lparr>m_store := ?o\<rparr>)) (m_store u)"
      by (rule load_plain [OF page _ log(1) _ log(2,3)]) (use o True in \<open>simp_all add: crypt_object_def\<close>)
    then show ?thesis using True by simp
  next
    case False
    have "\<exists>u. loadFromFile_crypt (Suc 3) X (?c\<lparr>m_store := ?o\<rparr>) = (Inr (), u) \<and> crypt_ok X u key aes256 hdr es \<and>
        settled ?E (m_store u) \<and> loaded_settings (m_store (?c\<lparr>m_store := ?o\<rparr>)) (m_store u) \<and> m_hasDic u = m_hasDic (?c\<lparr>m_store := ?o\<rparr>)"
      by (rule load_crypt [OF page _ False log(1), where iv = "mi_vector (meta_read metaDisk)" and c = "AESCrypt_new key [] aes256"])
        (use o False new_has_key [OF False] in \<open>simp_all add: crypt_object_def\<close>)
    then show ?thesis using False by auto
  qed
  then show ?thesis using run o(2) by (auto simp: loaded_settings_def simp del: loadFromFile_crypt.simps)
qed

end
