(* ===== verification/CryptRekey.thy ===== *)
theory CryptRekey
  imports CryptLoad
begin

text \<open>
  Changing the key of a store (\<open>reKey\<close> of \<open>MMKV_IO.cpp\<close>): the write-back to a file without encryption, from a plain
  file to an encrypted one, and from one key to another, with the vector, the checksum and the sizes in the meta
  file; then the clearing and the load that the next access finds. \<open>key_state\<close> is kept by any number of changes.
\<close>

unbundle bit_operations_syntax

section \<open>Writing back without encryption\<close>

lemma write_prepared_plain:
  assumes "data_mapped s" and "q + length (enc_log M) \<le> f_size (m_file s)" and "length (enc_log M) < 2 ^ 32"
    and "\<forall>kv \<in> set M. valid_entry kv"
  shows "write_prepared (prepared_bytes M) q None s =
    (Inr (q + length (enc_log M), None), set_disk (mem_write (f_disk (m_file s)) q (enc_log M)) s)"
proof (cases "M = []")
  case True
  then show ?thesis by (simp add: write_prepared_def prepared_bytes_def returnC_def)
next
  case False
  then have ne: "enc_log M \<noteq> []" using enc_log_Nil_iff [OF assms(4)] by simp
  let ?n = "length (enc_log M)"
  let ?w = "word_of_nat ?n :: u32"
  have w: "unat ?w = ?n" using assms(3) by (rule unat_word_of_nat_u32)
  obtain r where r: "readUInt32 (CodedInputData (framed (enc_log M)) 0 (length (framed (enc_log M)))) = (Inr ?w, r)"
    using read_framed [of "enc_log M"] by blast
  have pos: "0 < ?w" "0 < length (framed (enc_log M))" using ne w by (simp_all add: word_less_nat_alt framed_def)
  have lv: "unat (pbRawVarint32Size ?w) = length (enc_uint32 ?w)" by (simp add: enc_uint32_def unat_pbRawVarint32Size)
  have data: "mem_read (framed (enc_log M)) (unat (pbRawVarint32Size ?w)) (unat ?w) = enc_log M"
    "unat (pbRawVarint32Size ?w) + unat ?w \<le> length (framed (enc_log M))"
    by (simp_all add: framed_def lv w mem_read_def)
  have "memory_write q (enc_log M) s = (Inr (), set_disk (mem_write (f_disk (m_file s)) q (enc_log M)) s)"
    using assms(1,2) by (simp add: memory_write_def)
  then show ?thesis
    using False r pos data by (simp add: write_prepared_def prepared_bytes_def w bindC_Inr returnC_def Let_def)
qed

text \<open>The sections of the file are decrypted to the place behind the header.\<close>

lemma file_part_decrypted:
  assumes dic: "crypt_dic v 4 es d" and r: "in_range 4 es" and v: "view_ok v" "v_base v = 0"
    and plain: "v_plain v = hdr @ enc_log es" "length hdr = 4" and m: "data_mapped s"
    and code: "mem_read (f_disk (m_file s)) 8 (length (enc_log es)) = drop 4 (v_code v)"
    and bound: "8 + length (enc_log es) \<le> f_size (m_file s)"
    and key: "m_aesKey dec = Some (encrypt_key (v_key v) (v_aes256 v))" "m_isAES256 dec = v_aes256 v"
  shows "\<exists>disk. (if file_items d 4 es = [] then returnC (8, d, None :: AESCrypt option)
       else bindC (decrypt_sections dec 8 (dataSections_crypt (map snd (file_items d 4 es)))) (\<lambda>writePtr. returnC (writePtr, d, None))) s =
      (Inr (8 + length (enc_log (file_entries d 4 es)), d, None), set_disk disk s) \<and> length disk = length (f_disk (m_file s)) \<and>
    mem_read disk 8 (length (enc_log (file_entries d 4 es))) = enc_log (file_entries d 4 es) \<and>
    (\<forall>b n. b + n \<le> 8 \<longrightarrow> mem_read disk b n = mem_read (f_disk (m_file s)) b n)"
proof (cases "file_part d 4 es = []")
  case True
  then show ?thesis
    by (intro exI [of _ "f_disk (m_file s)"]) (simp add: file_items_def file_entries_def returnC_def)
next
  case False
  from sections_decrypted [OF dic r v plain m code bound key this] False show ?thesis
    by (auto simp: file_items_def bindC_Inr returnC_def)
qed

lemma memmoveDictionary_decrypting_run:
  assumes it: "iterates_crypt X" and dic: "crypt_dic v 4 es d" and r: "in_range 4 es" and v: "view_ok v" "v_base v = 0"
    and plain: "v_plain v = hdr @ enc_log es" "length hdr = 4"
    and s: "writable 0 s" "mem_read (f_disk (m_file s)) 4 (length (v_code v)) = v_code v" "8 + length (enc_log es) \<le> f_size (m_file s)"
    and key: "m_aesKey dec = Some (encrypt_key (v_key v) (v_aes256 v))" "m_isAES256 dec = v_aes256 v"
  shows "\<exists>disk out. memmoveDictionary_crypt E (iterateCrypt X d) d dec None
        (prepared_bytes (memory_entries X d es), 4 + length (enc_log (live es))) s = (Inr (d, None), set_mem disk out s) \<and>
    writable (4 + length (enc_log (live es))) (set_mem disk out s) \<and> length disk = length (f_disk (m_file s)) \<and>
    mem_read disk 4 (4 + length (enc_log (live es))) = holder_bytes E @ enc_log (new_log X d 4 es)"
proof -
  let ?D = "f_disk (m_file s)" and ?F = "enc_log (file_entries d 4 es)" and ?M = "enc_log (memory_entries X d es)"
  let ?n = "length (enc_log (live es))"
  note ms = new_log_contents [OF mset_new_log [OF it dic]]
  have L: "length ?F + length ?M = ?n" using ms(2) by (simp add: new_log_def)
  have lens: "length (v_code v) = 4 + length (enc_log es)" using view_length [OF v(1)] plain by simp
  have le: "?n \<le> length (enc_log es)" by (rule length_enc_log_live)
  have small: "length (enc_log es) < 2 ^ 32 - 4" using r by (auto simp: in_range_def)
  have fits: "8 + ?n \<le> f_size (m_file s)" using s(3) le by linarith
  have m: "data_mapped s" using s(1) by (auto simp: writable_def)
  have sorted: "sort_crypt (iterateCrypt X d) = file_items d 4 es" by (rule sort_crypt_items [OF it dic r])
  obtain out where o: "with_output (writeRawVarint32 (randomItemSizeHolder (rand_value E) ItemSizeHolderSize)) s =
      (Inr (), set_mem (mem_write ?D 4 (holder_bytes E)) out s)" "writable 4 (set_mem (mem_write ?D 4 (holder_bytes E)) out s)"
    "curWritePointer out = 8"
    using header_written [OF s(1)] fits by fastforce
  let ?s1 = "set_mem (mem_write ?D 4 (holder_bytes E)) out s"
  have len1: "length (mem_write ?D 4 (holder_bytes E)) = length ?D" using fits m by simp
  have m1: "data_mapped ?s1" using m len1 by simp
  have tail1: "mem_read (f_disk (m_file ?s1)) 8 (length (enc_log es)) = drop 4 (v_code v)"
  proof -
    have "mem_read (f_disk (m_file ?s1)) 8 (length (enc_log es)) = mem_read ?D 8 (length (enc_log es))"
      using s(3) m by (simp add: mem_read_mem_write_disjoint)
    also have "\<dots> = drop 4 (mem_read ?D 4 (4 + length (enc_log es)))" by (simp add: mem_read_def drop_take)
    finally show ?thesis using s(2) lens by simp
  qed
  have bound: "8 + length (enc_log es) \<le> f_size (m_file ?s1)" using s(3) by simp
  obtain d3 where d3: "(if file_items d 4 es = [] then returnC (8, d, None :: AESCrypt option)
       else bindC (decrypt_sections dec 8 (dataSections_crypt (map snd (file_items d 4 es)))) (\<lambda>writePtr. returnC (writePtr, d, None))) ?s1 =
      (Inr (8 + length ?F, d, None), set_disk d3 ?s1)" "length d3 = length ?D" "mem_read d3 8 (length ?F) = ?F"
      "\<forall>b n. b + n \<le> 8 \<longrightarrow> mem_read d3 b n = mem_read (f_disk (m_file ?s1)) b n"
    using file_part_decrypted [OF dic r v plain m1 tail1 bound key] len1 by auto
  have m3: "data_mapped (set_disk d3 ?s1)" using m d3(2) by simp
  have Mv: "\<forall>kv \<in> set (memory_entries X d es). valid_entry kv"
    using memory_items_values(2) [OF it dic] live_keys in_range_valid [OF r] by blast
  have q: "8 + length ?F + length ?M \<le> f_size (m_file (set_disk d3 ?s1))" "length ?M < 2 ^ 32"
    using L fits small le by simp_all
  note wp = write_prepared_plain [OF m3 q Mv]
  let ?d5 = "mem_write d3 (8 + length ?F) ?M"
  let ?out = "out\<lparr>out_position := 4 + ?n\<rparr>"
  have inb: "8 + length ?F + length ?M \<le> length d3" using d3(2) m fits L by simp
  have len5: "length ?d5 = length ?D" using inb d3(2) by simp
  have "mem_read ?d5 4 (4 + ?n) = mem_read ?d5 4 4 @ mem_read ?d5 8 (length ?F) @ mem_read ?d5 (8 + length ?F) (length ?M)"
    unfolding L [symmetric] by (simp add: mem_read_add add.assoc [symmetric])
  also have "mem_read ?d5 4 4 = holder_bytes E"
    using d3(2,4) inb m fits by (simp add: mem_read_mem_write_disjoint)
  also have "mem_read ?d5 8 (length ?F) = ?F"
    using d3(3) inb by (simp add: mem_read_mem_write_disjoint)
  also have "mem_read ?d5 (8 + length ?F) (length ?M) = ?M" using inb by simp
  finally have final: "mem_read ?d5 4 (4 + ?n) = holder_bytes E @ enc_log (new_log X d 4 es)"
    by (simp add: new_log_def enc_log_append)
  have out: "out_ptr out = 4" "out_size out + 4 = f_size (m_file s)" "out_position out = 4"
    using o(2) by (auto simp: writable_def)
  have mv: "move_output (seekOut ?n) (set_mem ?d5 out s) = (Inr (), set_mem ?d5 ?out s)"
    using out fits by (simp add: move_output_def seekOut_def Let_def) (simp add: set_mem_def)
  have w: "writable (4 + ?n) (set_mem ?d5 ?out s)" using out len5 m fits by (simp add: writable_def)
  have s5: "set_disk (mem_write (f_disk (m_file (set_disk d3 ?s1))) (8 + length ?F) ?M) (set_disk d3 ?s1) = set_mem ?d5 out s"
    by (simp add: set_mem_def)
  have "memmoveDictionary_crypt E (iterateCrypt X d) d dec None (prepared_bytes (memory_entries X d es), 4 + ?n) s =
      (Inr (d, None), set_mem ?d5 ?out s)"
  proof -
    have bp: "curWritePointer (the (m_output ?s1)) = 8" "curWritePointer (the (m_output (set_mem ?d5 out s))) = 8"
      using o(3) by (simp_all add: set_mem_def)
    have n8: "8 + length ?F + length ?M - 8 = ?n" "(?n + 4 = 4 + ?n) = True" using L by simp_all
    show ?thesis
      unfolding memmoveDictionary_crypt_def sorted size_holder_header [OF dic r] Let_def option.case prod.case
      apply (rule bindC_step, rule o(1))
      apply (unfold bp, rule bindC_step, simp add: encrypt_in_place_def returnC_def)
      apply (unfold option.case, rule bindC_step, rule d3(1))
      apply (unfold prod.case fst_conv, rule bindC_step, rule wp)
      apply (unfold prod.case snd_conv s5 bp n8 if_True, rule bindC_step, rule mv)
      by (simp add: returnC_def)
  qed
  then show ?thesis using w len5 final by blast
qed

section \<open>Encrypting a plain store\<close>

lemma memmoveDictionary_encrypting_run:
  assumes "iterates E" and w: "writable 0 s" and dic: "m_dic s = dic_of pos es" and r: "in_range pos es" and "1 \<le> pos" and "live es \<noteq> []"
    and log: "mem_read (f_disk (m_file s)) (4 + pos) (length (enc_log es)) = enc_log es"
    and bound: "4 + pos + length (enc_log es) \<le> f_size (m_file s)" and room: "8 + length (enc_log (live es)) \<le> f_size (m_file s)"
    and v: "view_ok v" "v_base v = 0" "v_plain v = holder_bytes E @ enc_log (live es)" "cipher_at v 0 c"
  shows "\<exists>d out c'. memmoveDictionary_encrypting E (4 + length (enc_log (live es))) (Some c) s = (Inr (Some c'), set_mem d out s) \<and>
    writable (4 + length (enc_log (live es))) (set_mem d out s) \<and> length d = length (f_disk (m_file s)) \<and>
    mem_read d 4 (4 + length (enc_log (live es))) = v_code v \<and> cipher_at v (4 + length (enc_log (live es))) c'"
proof -
  let ?d = "f_disk (m_file s)" and ?n = "length (enc_log (live es))" and ?vec = "live_holders pos es"
  from w obtain out where out: "m_output s = Some out" "out_ptr out = 4" "out_size out + 4 = f_size (m_file s)"
    "out_position out = 0" "f_ptr (m_file s)" "\<not> f_readOnly (m_file s)" "f_size (m_file s) \<le> length ?d"
    by (rule writableE)
  have vec: "sort_by_offset (iterate E (m_dic s)) = ?vec" unfolding dic by (rule sort_live [OF assms(1) r])
  have ne: "?vec \<noteq> []" using assms(6) live_at_snd [of pos es] by (auto simp: live_holders_def)
  obtain d where d: "move_sections 8 (dataSections (map snd ?vec)) s = (Inr (8 + ?n), set_disk d s)" "length d = length ?d"
    "mem_read d 8 ?n = enc_log (live es)"
    using live_sections_moved [OF out(5-7) r assms(5) ne log bound room] by blast
  have w': "writable 0 (set_disk d s)" using out d(2) by (simp add: writable_def)
  obtain out' where o': "with_output (writeUInt32 (randomItemSizeHolder (rand_value E) ItemSizeHolderSize)) (set_disk d s) =
      (Inr (), set_mem (mem_write d 4 (holder_bytes E)) out' (set_disk d s))" "writable 4 (set_mem (mem_write d 4 (holder_bytes E)) out' (set_disk d s))"
    using with_output_writes [OF w' writes_bytes_ops(1), of "randomItemSizeHolder (rand_value E) ItemSizeHolderSize"] room
    by (auto simp flip: holder_bytes_def)
  let ?d1 = "mem_write d 4 (holder_bytes E)"
  let ?s1 = "set_mem ?d1 out' s"
  have s1: "set_mem ?d1 out' (set_disk d s) = ?s1" by (simp add: set_mem_def)
  have out': "out_ptr out' = 4" "out_size out' + 4 = f_size (m_file s)" "out_position out' = 4"
    using o'(2) by (auto simp: writable_def)
  have len1: "length ?d1 = length ?d" using d(2) out(7) room by simp
  have code: "length (v_code v) = 4 + ?n" using view_length [OF v(1)] v(3) by simp
  have at1: "mem_read (f_disk (m_file ?s1)) (4 + 0) (4 + ?n) = mem_read (v_plain v) 0 (4 + ?n)"
    using d(2,3) out(7) room v(3) by (simp add: mem_read_add mem_read_mem_write_disjoint) (simp add: mem_read_def)
  have m1: "data_mapped ?s1" using out(5-7) len1 by simp
  obtain c' where c': "crypt_bytes encrypt 4 4 (4 + ?n) c ?s1 = (Inr c', set_disk (mem_write ?d1 4 (v_code v)) ?s1)"
    "cipher_at v (4 + ?n) c'"
    using encrypt_place [OF v(1,4) _ _ m1 _ at1] v(2) code room by (auto simp: mem_read_def)
  let ?d2 = "mem_write ?d1 4 (v_code v)" and ?out = "out'\<lparr>out_position := 4 + ?n\<rparr>"
  have len2: "length ?d2 = length ?d" using len1 code room out(7) by simp
  have s2: "set_disk ?d2 ?s1 = set_mem ?d2 out' s" by (simp add: set_mem_def)
  have mv: "move_output (seekOut ?n) (set_mem ?d2 out' s) = (Inr (), set_mem ?d2 ?out s)"
    using out' room by (simp add: move_output_def seekOut_def Let_def) (simp add: set_mem_def)
  have "memmoveDictionary_encrypting E (4 + ?n) (Some c) s = (Inr (Some c'), set_mem ?d2 ?out s)"
  proof -
    have "bindC (move_sections 8 (dataSections (map snd ?vec))) (\<lambda>writePtr s. (Inr writePtr, s)) s = (Inr (8 + ?n), set_disk d s)"
      using d(1) by (simp add: bindC_Inr)
    moreover have "encrypt_in_place 4 (4 + ?n) (Some c) ?s1 = (Inr (Some c'), set_mem ?d2 out' s)"
      using c'(1) by (simp add: encrypt_in_place_def bindC_Inr returnC_def) (simp add: set_mem_def)
    ultimately show ?thesis
      using out(1,2,4) ne o'(1) mv unfolding memmoveDictionary_encrypting_def vec
      by (simp add: Let_def curWritePointer_def bindC_Inr s1 returnC_def ItemSizeHolderSize_def)
  qed
  moreover have "writable (4 + ?n) (set_mem ?d2 ?out s)" using out out' len2 room by (simp add: writable_def)
  moreover have "mem_read ?d2 4 (4 + ?n) = v_code v"
    using mem_read_mem_write_same [of 4 "v_code v" ?d1] len1 code room out(7) by simp
  ultimately show ?thesis using len2 c'(2) by blast
qed

section \<open>The end of a write-back\<close>

lemma length_fillRandomIV [simp]: "length (fillRandomIV rand) = 16"
  by (simp add: fillRandomIV_def length_concat comp_def sum_list_triv)

lemma update_meta_vector: "mi_vector (fst (update_meta n crc (Some v) b m)) = v"
  by (simp add: update_meta_def Let_def)

text \<open>What a write-back keeps of the settings.\<close>

definition settings_kept :: "environment \<Rightarrow> MMKV \<Rightarrow> MMKV \<Rightarrow> bool" where
  "settings_kept E s t \<longleftrightarrow> (settled E s \<longrightarrow> settled E t) \<and> m_enableKeyExpire t = m_enableKeyExpire s"

lemma finish_write_back:
  assumes E: "E = plain_env X" and iv: "iv = fillRandomIV (rand_word X)"
    and wb: "write_back_data X (map_option (resetIV iv) (encrypter_of new (m_crypter s))) prepared
      (s\<lparr>m_store := new_output (m_store s)\<rparr>) = (Inr enc, s1)"
    and n: "snd prepared = length bs" and st: "writable (length bs) (m_store s1)" "isFileValid (m_file (m_store s1))"
      "\<not> m_readOnly (m_store s1)" "\<not> m_needLoadFromFile (m_store s1)" "meta_ready (m_store s1)"
    and bs: "4 + length bs \<le> f_size (m_file (m_store s1))" "length bs < 2 ^ 32" "mem_read (f_disk (m_file (m_store s1))) 4 (length bs) = bs"
  shows "\<exists>t. doFullWriteBack_crypt X prepared new True s =
      (Inr (True, enc), s1\<lparr>m_store := t, m_crypter := (if new = NullCrypter then enc else m_crypter s1)\<rparr>) \<and>
    holds_bytes E t bs \<and> (enc \<noteq> None \<longrightarrow> mi_vector (m_metaInfo t) = iv) \<and> m_dic t = m_dic (m_store s1) \<and> settings_kept E (m_store s1) t"
proof -
  let ?t = "(m_store s1)\<lparr>m_actualSize := length bs\<rparr>" and ?iv = "if enc = None then None else Some iv"
  let ?s2 = "s1\<lparr>m_store := ?t, m_crypter := (if new = NullCrypter then enc else m_crypter s1)\<rparr>"
  have t: "f_ptr (m_file ?t)" "m_actualSize ?t < 2 ^ 32" "4 + m_actualSize ?t \<le> f_size (m_file ?t)" "\<not> m_readOnly ?t"
    "mem_read (f_disk (m_file ?t)) 4 (m_actualSize ?t) = bs" "meta_ready ?t"
    using st bs by (simp_all add: writable_def meta_ready_def read_meta_def)
  have iv16: "\<And>v. ?iv = Some v \<Longrightarrow> length v = 16" by (auto simp: iv split: if_splits)
  obtain m where m: "m = fst (update_meta (m_actualSize ?t) (crc32 E 0 bs) ?iv True (m_metaInfo ?t))" by blast
  obtain d where d: "recalculateCRCDigestWithIV E ?iv ?t = (Inr (), set_meta (m_actualSize ?t) (crc32 E 0 bs) m d ?t)"
    "meta_ready (set_meta (m_actualSize ?t) (crc32 E 0 bs) m d ?t)" "length d = length (f_disk (m_metaFile ?t))"
    using recalculate_bytes [OF t iv16 m] by blast
  let ?u = "(set_meta (m_actualSize ?t) (crc32 E 0 bs) m d ?t)\<lparr>m_hasFullWriteback := True\<rparr>"
  let ?v = "?u\<lparr>m_file := snd (msync (m_file ?u)), m_metaFile := snd (msync (m_metaFile ?u))\<rparr>"
  have sync: "sync_store ?u = (Inr (), ?v)" by (rule sync_store_run) (use st in \<open>simp_all add: isFileValid_def\<close>)
  have run: "doFullWriteBack_crypt X prepared new True s = (Inr (True, enc), ?s2\<lparr>m_store := ?v\<rparr>)"
  proof -
    have 1: "on_store (recalculateCRCDigestWithIV (plain_env X) ?iv) ?s2 =
        (Inr (), ?s2\<lparr>m_store := set_meta (m_actualSize ?t) (crc32 E 0 bs) m d ?t\<rparr>)"
      using d(1) by (simp add: on_store_def E)
    have 2: "on_store sync_store (?s2\<lparr>m_store := ?u\<rparr>) = (Inr (), ?s2\<lparr>m_store := ?v\<rparr>)"
      using sync by (simp add: on_store_def)
    show ?thesis
      unfolding doFullWriteBack_crypt_def Let_def iv [symmetric]
      apply (rule bindC_step, rule wb)
      apply (unfold n, rule bindC_step, rule 1)
      using 2 by (simp add: bindC_def returnC_def)
  qed
  have cur: "meta_current E ?u bs"
    using d(2) update_meta_sel [of "m_actualSize ?t" "crc32 E 0 bs" ?iv True "m_metaInfo ?t", folded m]
    by (simp add: meta_current_def meta_ready_def read_meta_def)
  have "holds_bytes E ?v bs"
    using cur st bs
    by (simp add: holds_bytes_def writable_def meta_current_def meta_ready_def read_meta_def f_memory_def file_ok_def)
  moreover have "enc \<noteq> None \<longrightarrow> mi_vector (m_metaInfo ?v) = iv" using m update_meta_vector by auto
  moreover have "settings_kept E (m_store s1) ?v"
    using d(3) by (simp add: settings_kept_def settled_def msync_io)
  ultimately show ?thesis using run by (intro exI [of _ ?v]) simp
qed

section \<open>Clearing and loading again\<close>

lemma cleared_unloaded:
  assumes "holds_bytes E s bs" and "settled E s" and "bs \<noteq> []"
  shows "unloaded E ((clearMemoryCache False s)\<lparr>m_needLoadFromFile := False\<rparr>)"
    and "files_hold_bytes E ((clearMemoryCache False s)\<lparr>m_needLoadFromFile := False\<rparr>) bs"
    and "read_meta ((clearMemoryCache False s)\<lparr>m_needLoadFromFile := False\<rparr>) = m_metaInfo s"
    and "m_needLoadFromFile (clearMemoryCache False s)"
    and "m_enableKeyExpire ((clearMemoryCache False s)\<lparr>m_needLoadFromFile := False\<rparr>) = m_enableKeyExpire s"
    and "m_enableKeyExpire s = hasFlag EnableKeyExipre (m_metaInfo s)"
proof -
  have h: "isFileValid (m_file s)" "\<not> m_readOnly s" "\<not> m_needLoadFromFile s" "data_mapped s" "4 + length bs \<le> f_size (m_file s)"
    "length bs < 2 ^ 32" "mem_read (f_disk (m_file s)) 4 (length bs) = bs" "m_actualSize s = length bs" "meta_current E s bs"
    using assms(1) by (simp_all add: holds_bytes_def)
  let ?c = "clearMemoryCache False s"
  note c = clear_attached [OF h(3)]
  have f: "f_disk (doCleanMemoryCache (m_file s)) = f_disk (m_file s)" "\<not> isFileValid (doCleanMemoryCache (m_file s))"
    "f_io (doCleanMemoryCache (m_file s)) = []" "f_readOnly (doCleanMemoryCache (m_file s)) = f_readOnly (m_file s)"
    using assms(2) by (auto simp: doCleanMemoryCache_def File_close_def answer_def isFileValid_def settled_def)
  have rm: "read_meta (?c\<lparr>m_needLoadFromFile := False\<rparr>) = m_metaInfo s"
    using h(9) by (simp add: c read_meta_def meta_current_def meta_ready_def)
  then show "read_meta (?c\<lparr>m_needLoadFromFile := False\<rparr>) = m_metaInfo s" .
  show "m_needLoadFromFile ?c" by (simp add: c)
  show "unloaded E (?c\<lparr>m_needLoadFromFile := False\<rparr>)"
    unfolding unloaded_def rm using h assms(2) f
    by (simp add: c meta_current_def meta_ready_def settled_def)
  show "files_hold_bytes E (?c\<lparr>m_needLoadFromFile := False\<rparr>) bs"
    unfolding files_hold_bytes_def rm using h assms(2,3) f
    by (simp add: c meta_current_def settled_def)
  show "m_enableKeyExpire (?c\<lparr>m_needLoadFromFile := False\<rparr>) = m_enableKeyExpire s" by (simp add: c)
  show "m_enableKeyExpire s = hasFlag EnableKeyExipre (m_metaInfo s)" using h(9) by (simp add: meta_current_def meta_ready_def)
qed

lemma loaded_no_expire:
  assumes "loaded_settings s t" and "\<not> hasFlag EnableKeyExipre (read_meta s)"
  shows "\<not> m_enableKeyExpire t"
  using assms by (simp add: loaded_settings_def)

text \<open>An encrypted store that was cleared is loaded with its key.\<close>

lemma load_cleared_crypt:
  assumes page: "0 < page_size (plain_env X)" and key: "key \<noteq> []" and log: "crypt_log hdr es"
    and hb: "holds_bytes (plain_env X) (m_store s) (code_of key aes256 (mi_vector (m_metaInfo (m_store s))) (hdr @ enc_log es))"
    and st: "settled (plain_env X) (m_store s)" "\<not> m_enableKeyExpire (m_store s)" and "hdr \<noteq> []"
    and c: "m_crypter s = Some c" "has_key key aes256 c" and "m_dicCrypt s \<noteq> None"
  shows "\<exists>u. checkLoadData_crypt X (clearMemoryCache_crypt False s) = (Inr (), u) \<and> crypt_ok X u key aes256 hdr es \<and>
    settled (plain_env X) (m_store u) \<and> \<not> m_enableKeyExpire (m_store u)"
proof -
  let ?E = "plain_env X" and ?code = "code_of key aes256 (mi_vector (m_metaInfo (m_store s))) (hdr @ enc_log es)"
  have ne: "?code \<noteq> []" using encrypt_code_of(2) [OF key] assms(7) by (metis append_is_Nil_conv length_0_conv)
  note cl = cleared_unloaded [OF hb st(1) ne]
  have nl: "\<not> m_needLoadFromFile (m_store s)" using hb by (simp add: holds_bytes_def)
  let ?s = "(clearMemoryCache_crypt False s)\<lparr>m_store := (clearMemoryCache False (m_store s))\<lparr>m_needLoadFromFile := False\<rparr>\<rparr>"
  have c': "m_crypter ?s = Some (reset_vector (m_metaInfo (m_store s)) c)" "m_dicCrypt ?s \<noteq> None"
    "has_key key aes256 (reset_vector (m_metaInfo (m_store s)) c)"
    using c assms(10) nl has_key_reset [OF c(2)] by (simp_all add: clearMemoryCache_crypt_def reset_vector_def)
  have "checkLoadData_crypt X (clearMemoryCache_crypt False s) = loadFromFile_crypt (Suc 3) X ?s"
    using nl cl(4) by (subst check_load) (simp_all add: clearMemoryCache_crypt_def del: loadFromFile_crypt.simps)
  moreover obtain u where u: "loadFromFile_crypt (Suc 3) X ?s = (Inr (), u)" "crypt_ok X u key aes256 hdr es"
    "settled ?E (m_store u)" "loaded_settings (m_store ?s) (m_store u)"
    using load_crypt [OF page, of ?s key hdr es "mi_vector (m_metaInfo (m_store s))" aes256 _ 3] cl(1-3) key log c'
    by (auto simp del: loadFromFile_crypt.simps)
  moreover have "\<not> m_enableKeyExpire (m_store u)"
    using loaded_no_expire [OF u(4)] cl(3,6) st(2) by simp
  ultimately show ?thesis by (auto simp del: loadFromFile_crypt.simps)
qed

lemma load_cleared_plain:
  assumes page: "0 < page_size (plain_env X)" and log: "crypt_log hdr es"
    and hb: "holds_bytes (plain_env X) (m_store s) (hdr @ enc_log es)" and "1 \<le> length hdr" and "length hdr \<le> 10"
    and st: "settled (plain_env X) (m_store s)" "\<not> m_enableKeyExpire (m_store s)"
    and c: "m_crypter s = None" "m_hasDic s"
  shows "\<exists>u. checkLoadData_crypt X (clearMemoryCache_crypt False s) = (Inr (), u) \<and> plain_ok X u hdr es \<and>
    settled (plain_env X) (m_store u) \<and> \<not> m_enableKeyExpire (m_store u)"
proof -
  let ?E = "plain_env X" and ?bs = "hdr @ enc_log es"
  have hdr: "hdr \<noteq> []" using assms(4) by auto
  then have ne: "?bs \<noteq> []" by simp
  note cl = cleared_unloaded [OF hb st(1) ne]
  have nl: "\<not> m_needLoadFromFile (m_store s)" using hb by (simp add: holds_bytes_def)
  let ?s = "(clearMemoryCache_crypt False s)\<lparr>m_store := (clearMemoryCache False (m_store s))\<lparr>m_needLoadFromFile := False\<rparr>\<rparr>"
  have c': "m_crypter ?s = None" "m_hasDic ?s" using c nl by (simp_all add: clearMemoryCache_crypt_def)
  have run: "checkLoadData_crypt X (clearMemoryCache_crypt False s) = loadFromFile_crypt (Suc 3) X ?s"
    using nl cl(4) by (subst check_load) (simp_all add: clearMemoryCache_crypt_def del: loadFromFile_crypt.simps)
  have u: "unloaded ?E (m_store ?s)" "files_hold_bytes ?E (m_store ?s) ?bs" using cl(1,2) by simp_all
  then obtain u where u: "loadFromFile_crypt (Suc 3) X ?s = (Inr (), u)" "plain_ok X u hdr es"
    "settled ?E (m_store u)" "loaded_settings (m_store ?s) (m_store u)"
    using load_plain [OF page _ log, of ?s 3] assms(4,5) c' by (auto simp del: loadFromFile_crypt.simps)
  moreover have "\<not> m_enableKeyExpire (m_store u)"
    using loaded_no_expire [OF u(4)] cl(3,6) st(2) by simp
  ultimately show ?thesis using run by (auto simp del: loadFromFile_crypt.simps)
qed

section \<open>Changing the key of an encrypted store\<close>

text \<open>A store before the write-back of \<open>reKey\<close>.\<close>

abbreviation to_write :: "CryptMMKV \<Rightarrow> CryptMMKV" where
  "to_write s \<equiv> s\<lparr>m_store := (m_store s)\<lparr>m_hasFullWriteback := False\<rparr>\<rparr>"

text \<open>The full write-back reaches the writing.\<close>

lemma fullWriteback_crypt_reaches:
  assumes "\<not> m_hasFullWriteback (m_store s)" and "\<not> m_needLoadFromFile (m_store s)" and "isFileValid (m_file (m_store s))"
    and "\<not> m_readOnly (m_store s)" and "\<not> m_enableKeyExpire (m_store s)" and "empty_dictionary X s = (Inr False, s)"
    and "prepareEncode_store X s = (Inr (bs, n), s)" and "0 < n" and "n + 4 \<le> f_size (m_file (m_store s))"
  shows "fullWriteback_crypt X new False s = doFullWriteBack_crypt X (bs, n) new True s"
  using assms by (simp add: fullWriteback_crypt_def fullWriteback_crypt_body_def Let_def isFileValid_store_def bindC_def returnC_def getFileSize_def)

text \<open>What an encrypted store has.\<close>

lemma crypt_okE:
  assumes "crypt_ok X s key aes256 hdr es"
  obtains iv v c d where "iv = mi_vector (m_metaInfo (m_store s))" and "v = data_view key aes256 iv (hdr @ enc_log es)"
    and "key \<noteq> []" and "in_range (length hdr) es" and "m_crypter s = Some c" and "has_key key aes256 c"
    and "m_dicCrypt s = Some d" and "crypt_dic v (length hdr) es d" and "holds_bytes (plain_env X) (m_store s) (v_code v)"
    and "view_ok v" and "v_base v = 0" and "v_plain v = hdr @ enc_log es" and "length (v_code v) = length hdr + length (enc_log es)"
    and "m_aesKey c = Some (encrypt_key (v_key v) (v_aes256 v))" and "m_isAES256 c = v_aes256 v"
proof -
  obtain iv where iv: "iv = mi_vector (m_metaInfo (m_store s))" by blast
  have key: "key \<noteq> []" and log: "in_range (length hdr) es" using assms by (simp_all add: crypt_ok_def crypt_log_def)
  obtain v where v: "v = data_view key aes256 iv (hdr @ enc_log es)" by blast
  note vw = data_view [OF key, of aes256 iv "hdr @ enc_log es", folded v]
  obtain c d where c: "m_crypter s = Some c" "has_key key aes256 c" "m_dicCrypt s = Some d" "crypt_dic v (length hdr) es d"
    "holds_bytes (plain_env X) (m_store s) (v_code v)"
    using assms vw(3) by (auto simp: crypt_ok_def Let_def iv v)
  have "m_aesKey c = Some (encrypt_key (v_key v) (v_aes256 v))" "m_isAES256 c = v_aes256 v"
    using c(2) m_key_new [of key iv aes256] vw(5,6) by (auto simp: has_key_def cipher_ok_def cipher_ready_def)
  moreover have "length (v_code v) = length hdr + length (enc_log es)"
    using encrypt_code_of(2) [OF key, of aes256 iv "hdr @ enc_log es"] vw(3) by simp
  ultimately show ?thesis by (intro that [OF iv v key log c vw(1,2,4)])
qed

text \<open>Writing back an encrypted store, with the vector and the cipher of the new key or without one.\<close>

lemma rewrite_crypt:
  assumes it: "iterates_crypt X" and s: "crypt_ok X s key aes256 hdr es" and "length hdr = 4" and ne: "log_contents es \<noteq> Map.empty"
    and x: "\<not> m_enableKeyExpire (m_store s)" and small: "length (enc_log (live es)) < 2 ^ 32 - 5"
    and new: "new = NewCrypter (AESCrypt_new key' [] aes256') \<and> key' \<noteq> [] \<or> new = InvalidCryptPtr \<and> key' = []"
  shows "\<exists>es' t D enc. fullWriteback_crypt X new False (to_write s) = (Inr (True, enc), s\<lparr>m_store := t, m_dicCrypt := Some D\<rparr>) \<and>
    mset es' = mset (live es) \<and> in_range 4 es' \<and> settings_kept (plain_env X) (m_store s) t \<and>
    (if key' = [] then enc = None \<and> holds_bytes (plain_env X) t (holder_bytes (plain_env X) @ enc_log es')
     else (\<exists>c. enc = Some c \<and> has_key key' aes256' c) \<and>
       holds_bytes (plain_env X) t (code_of key' aes256' (mi_vector (m_metaInfo t)) (holder_bytes (plain_env X) @ enc_log es')))"
proof -
  let ?E = "plain_env X"
  from s obtain v c d where key: "key \<noteq> []" and r: "in_range 4 es" and c: "m_crypter s = Some c"
    and d: "m_dicCrypt s = Some d" "crypt_dic v 4 es d" and hb: "holds_bytes ?E (m_store s) (v_code v)"
    and v: "view_ok v" "v_base v = 0" "v_plain v = hdr @ enc_log es" "length (v_code v) = 4 + length (enc_log es)"
    and dk: "m_aesKey c = Some (encrypt_key (v_key v) (v_aes256 v))" "m_isAES256 c = v_aes256 v"
    by (rule crypt_okE) (simp add: assms(3))
  let ?M = "memory_entries X d es" and ?n = "4 + length (enc_log (live es))" and ?new = "new_log X d 4 es"
  note ms = new_log_contents [OF mset_new_log [OF it d(2)]]
  have le: "length (enc_log (live es)) \<le> length (enc_log es)" by (rule length_enc_log_live)
  have h: "isFileValid (m_file (m_store s))" "\<not> m_readOnly (m_store s)" "\<not> m_needLoadFromFile (m_store s)" "data_mapped (m_store s)"
    "8 + length (enc_log es) \<le> f_size (m_file (m_store s))" "meta_ready (m_store s)"
    "mem_read (f_disk (m_file (m_store s))) 4 (length (v_code v)) = v_code v" "length (v_code v) < 2 ^ 32"
    using hb v(4) by (simp_all add: holds_bytes_def meta_current_def)
  have rn: "in_range 4 ?new"
    using r le ms(2,4) live_keys by (fastforce simp: in_range_def)
  have "d \<noteq> Map.empty" using ne crypt_dic_contents(2) [OF d(2)] by (metis (no_types, lifting) option.exhaust option.distinct(1) ext)
  moreover have "finite (dom d)" using crypt_dic_items(1) [OF d(2)] by (metis finite_dom_map_of)
  ultimately have iter: "iterateCrypt X d \<noteq> []" using it by (metis iterates_crypt_def map_of.simps(1))
  let ?w = "to_write s"
  have reach: "fullWriteback_crypt X new False ?w = doFullWriteBack_crypt X (prepared_bytes ?M, ?n) new True ?w"
  proof (rule fullWriteback_crypt_reaches)
    show "empty_dictionary X ?w = (Inr False, ?w)" using c d(1) iter by (simp add: empty_dictionary_def with_dicCrypt_def returnC_def)
    show "prepareEncode_store X ?w = (Inr (prepared_bytes ?M, ?n), ?w)"
      using c d(1) prepareEncode_crypt_run [OF it d(2) r small] by (simp add: prepareEncode_store_def with_dicCrypt_def)
  qed (use h le x in simp_all)
  let ?o = "?w\<lparr>m_store := new_output (m_store ?w)\<rparr>"
  have wr: "writable 0 (new_output (m_store ?w))" using h(4,5) by (intro writable_new_output) simp_all
  have o: "m_file (new_output (m_store ?w)) = m_file (m_store s)" by (simp add: new_output_def)
  obtain iv where iv: "iv = fillRandomIV (rand_word X)" by blast
  have pre: "mem_read (f_disk (m_file (new_output (m_store ?w)))) 4 (length (v_code v)) = v_code v"
    "8 + length (enc_log es) \<le> f_size (m_file (new_output (m_store ?w)))" using h(5,7) o by simp_all
  have setm: "set_mem disk out (new_output (m_store ?w)) = set_mem disk out (m_store ?w)" for disk out
    by (simp add: set_mem_def new_output_def)
  show ?thesis
  proof (cases "key' = []")
    case True
    then have new: "new = InvalidCryptPtr" using new by simp
    obtain disk out where m: "memmoveDictionary_crypt ?E (iterateCrypt X d) d c None (prepared_bytes ?M, ?n) (new_output (m_store ?w)) =
        (Inr (d, None), set_mem disk out (m_store ?w))" "writable ?n (set_mem disk out (m_store ?w))"
      "length disk = length (f_disk (m_file (m_store s)))" "mem_read disk 4 ?n = holder_bytes ?E @ enc_log ?new"
      using memmoveDictionary_decrypting_run [OF it d(2) r v(1-3) assms(3) wr pre dk] unfolding setm o by blast
    let ?s1 = "?w\<lparr>m_store := set_mem disk out (m_store ?w), m_dicCrypt := Some d\<rparr>"
    have wb: "write_back_data X (map_option (resetIV iv) (encrypter_of new (m_crypter ?w))) (prepared_bytes ?M, ?n) ?o = (Inr None, ?s1)"
      using c d(1) m(1) by (simp add: write_back_data_def new encrypter_of_def with_dicCrypt_def on_store_def bindC_def)
    have len: "length (holder_bytes ?E @ enc_log ?new) = ?n" using ms(2) by simp
    obtain t where t: "doFullWriteBack_crypt X (prepared_bytes ?M, ?n) new True ?w =
        (Inr (True, None), ?s1\<lparr>m_store := t, m_crypter := (if new = NullCrypter then None else m_crypter ?s1)\<rparr>)"
      "holds_bytes ?E t (holder_bytes ?E @ enc_log ?new)" "settings_kept ?E (m_store ?s1) t"
    proof -
      have "\<exists>t. doFullWriteBack_crypt X (prepared_bytes ?M, ?n) new True ?w =
          (Inr (True, None), ?s1\<lparr>m_store := t, m_crypter := (if new = NullCrypter then None else m_crypter ?s1)\<rparr>) \<and>
          holds_bytes ?E t (holder_bytes ?E @ enc_log ?new) \<and> (None \<noteq> (None :: AESCrypt option) \<longrightarrow> mi_vector (m_metaInfo t) = iv) \<and>
          m_dic t = m_dic (m_store ?s1) \<and> settings_kept ?E (m_store ?s1) t"
        by (rule finish_write_back [OF refl iv wb])
          (use m h le len v(4) in \<open>simp_all add: isFileValid_def meta_ready_def read_meta_def\<close>)
      then show thesis using that by blast
    qed
    have "settings_kept ?E (m_store s) t" using t(3) m(3) by (simp add: settings_kept_def settled_def)
    then show ?thesis
      using reach t(1,2) mset_new_log [OF it d(2)] rn True c by (intro exI [of _ ?new] exI [of _ t] exI [of _ d] exI [of _ None]) (simp add: new)
  next
    case False
    then have new: "new = NewCrypter (AESCrypt_new key' [] aes256')" using new by simp
    let ?c0 = "resetIV iv (AESCrypt_new key' [] aes256')" and ?bs = "holder_bytes ?E @ enc_log ?new"
    let ?code = "code_of key' aes256' iv ?bs"
    have k0: "has_key key' aes256' ?c0" by (intro has_key_reset new_has_key False)
    have iv16: "length iv = 16" by (simp add: iv)
    note rs = reset_stream [OF False new_has_key [OF False] iv16]
    obtain cend where cend: "encrypt ?bs ?c0 = (Inr ?code, cend)" using rs(3) by blast
    have ok0: "cipher_ok ?c0" using k0 by (simp add: has_key_def)
    obtain D disk out c' where m: "memmoveDictionary_crypt ?E (iterateCrypt X d) d c (Some ?c0) (prepared_bytes ?M, ?n) (new_output (m_store ?w)) =
        (Inr (D, Some c'), set_mem disk out (m_store ?w))" "writable (length ?code) (set_mem disk out (m_store ?w))"
      "length disk = length (f_disk (m_file (m_store s)))" "mem_read disk 4 (length ?code) = ?code"
      "cipher_at (view_from ?c0 0 ?code) (length ?code) c'" "length ?code = ?n"
      using memmoveDictionary_crypt_run [OF it d(2) r v(1-3) assms(3) wr pre dk ok0 cend] unfolding setm o by blast
    let ?s1 = "?w\<lparr>m_store := set_mem disk out (m_store ?w), m_dicCrypt := Some D\<rparr>"
    have wb: "write_back_data X (map_option (resetIV iv) (encrypter_of new (m_crypter ?w))) (prepared_bytes ?M, ?n) ?o = (Inr (Some c'), ?s1)"
      using c d(1) m(1) by (simp add: write_back_data_def new encrypter_of_def with_dicCrypt_def on_store_def bindC_def)
    obtain t where t: "doFullWriteBack_crypt X (prepared_bytes ?M, ?n) new True ?w =
        (Inr (True, Some c'), ?s1\<lparr>m_store := t, m_crypter := (if new = NullCrypter then Some c' else m_crypter ?s1)\<rparr>)"
      "holds_bytes ?E t ?code" "mi_vector (m_metaInfo t) = iv" "settings_kept ?E (m_store ?s1) t"
    proof -
      have "\<exists>t. doFullWriteBack_crypt X (prepared_bytes ?M, ?n) new True ?w =
          (Inr (True, Some c'), ?s1\<lparr>m_store := t, m_crypter := (if new = NullCrypter then Some c' else m_crypter ?s1)\<rparr>) \<and>
          holds_bytes ?E t ?code \<and> (Some c' \<noteq> None \<longrightarrow> mi_vector (m_metaInfo t) = iv) \<and>
          m_dic t = m_dic (m_store ?s1) \<and> settings_kept ?E (m_store ?s1) t"
        by (rule finish_write_back [OF refl iv wb])
          (use m h le v(4) in \<open>simp_all add: isFileValid_def meta_ready_def read_meta_def\<close>)
      then show thesis using that by blast
    qed
    have "view_from ?c0 0 ?code = data_view key' aes256' iv ?bs" using rs(2) by (simp add: data_view_def)
    then have "has_key key' aes256' c'" using m(5) cipher_at_data_view [OF False] by simp
    moreover have "settings_kept ?E (m_store s) t" using t(4) m(3) by (simp add: settings_kept_def settled_def)
    ultimately show ?thesis
      using reach t(1-3) mset_new_log [OF it d(2)] rn False c by (intro exI [of _ ?new] exI [of _ t] exI [of _ D] exI [of _ "Some c'"]) (simp add: new)
  qed
qed

section \<open>Giving a plain store a key\<close>

lemma rewrite_plain:
  assumes it: "iterates (plain_env X)" and s: "plain_ok X s hdr es" and ne: "log_contents es \<noteq> Map.empty"
    and x: "\<not> m_enableKeyExpire (m_store s)" and small: "length (enc_log (live es)) < 2 ^ 32 - 5"
    and room: "8 + length (enc_log (live es)) \<le> f_size (m_file (m_store s))" and "key' \<noteq> []"
  shows "\<exists>t c. fullWriteback_crypt X (NewCrypter (AESCrypt_new key' [] aes256')) False (to_write s) =
      (Inr (True, Some c), s\<lparr>m_store := t\<rparr>) \<and> has_key key' aes256' c \<and> in_range 4 (live es) \<and> settings_kept (plain_env X) (m_store s) t \<and>
    holds_bytes (plain_env X) t (code_of key' aes256' (mi_vector (m_metaInfo t)) (holder_bytes (plain_env X) @ enc_log (live es)))"
proof -
  let ?E = "plain_env X" and ?new = "NewCrypter (AESCrypt_new key' [] aes256')" and ?n = "4 + length (enc_log (live es))"
  let ?w = "to_write s"
  have ok: "store_ok ?E (m_store s) hdr es" and c: "m_crypter s = None" "m_hasDic s" using s by (simp_all add: plain_ok_def)
  have h: "isFileValid (m_file (m_store s))" "\<not> m_readOnly (m_store s)" "\<not> m_needLoadFromFile (m_store s)" "data_mapped (m_store s)"
    "4 + length hdr + length (enc_log es) \<le> f_size (m_file (m_store s))" "meta_ready (m_store s)" "in_range (length hdr) es"
    "header hdr es" "m_dic (m_store s) = dic_of (length hdr) es"
    "mem_read (f_disk (m_file (m_store s))) 4 (length hdr + length (enc_log es)) = hdr @ enc_log es"
    using ok by (simp_all add: store_ok_def log_ok_def meta_current_def file_log_def)
  have dic: "dic_of (length hdr) es \<noteq> Map.empty" using ne by (simp add: dic_of_empty)
  have iter: "iterate ?E (dic_of (length hdr) es) \<noteq> []" using dic iterate_empty [OF it finite_dic_of] by blast
  have live: "live es \<noteq> []" using ne by (auto simp: log_contents_live)
  then have "es \<noteq> []" by (auto simp: live_def)
  then have pos: "1 \<le> length hdr" using h(8) by (auto simp: header_def)
  have rl: "in_range 4 (live es)" using in_range_live [OF h(7), of 4] small by simp
  have reach: "fullWriteback_crypt X ?new False ?w = doFullWriteBack_crypt X ([], ?n) ?new True ?w"
  proof (rule fullWriteback_crypt_reaches)
    show "empty_dictionary X ?w = (Inr False, ?w)" using c h(9) iter by (simp add: empty_dictionary_def with_dic_def returnC_def)
    show "prepareEncode_store X ?w = (Inr ([], ?n), ?w)"
      using c h(9) sum_list_live [OF it h(7)] by (simp add: prepareEncode_store_def with_dic_def returnC_def)
  qed (use h x room in simp_all)
  obtain iv where iv: "iv = fillRandomIV (rand_word X)" by blast
  let ?c0 = "resetIV iv (AESCrypt_new key' [] aes256')" and ?bs = "holder_bytes ?E @ enc_log (live es)"
  let ?v = "data_view key' aes256' iv ?bs"
  let ?o = "?w\<lparr>m_store := new_output (m_store ?w)\<rparr>"
  have setm: "set_mem disk out (new_output (m_store ?w)) = set_mem disk out (m_store ?w)" for disk out
    by (simp add: set_mem_def new_output_def)
  have wr: "writable 0 (new_output (m_store ?w))" using h(4) room by (intro writable_new_output) simp_all
  have o: "m_file (new_output (m_store ?w)) = m_file (m_store s)" "m_dic (new_output (m_store ?w)) = dic_of (length hdr) es"
    using h(9) by (simp_all add: new_output_def)
  have k0: "has_key key' aes256' ?c0" by (intro has_key_reset new_has_key assms(7))
  have iv16: "length iv = 16" by (simp add: iv)
  note rs = reset_stream [OF assms(7) new_has_key [OF assms(7)] iv16]
  note vw = data_view [OF assms(7), of aes256' iv ?bs]
  have at: "cipher_at ?v 0 ?c0"
    using cipher_at_data_view [OF assms(7)] k0 rs(1) vw(7) by (auto simp: cipher_at_data_view [OF assms(7)])
  have log: "mem_read (f_disk (m_file (new_output (m_store ?w)))) (4 + length hdr) (length (enc_log es)) = enc_log es"
  proof -
    have "mem_read (f_disk (m_file (m_store s))) 4 (length hdr) @ mem_read (f_disk (m_file (m_store s))) (4 + length hdr) (length (enc_log es)) =
        hdr @ enc_log es" using h(10) by (simp add: mem_read_add)
    moreover have "length (mem_read (f_disk (m_file (m_store s))) 4 (length hdr)) = length hdr" using h(4,5) by simp
    ultimately show ?thesis unfolding o by simp
  qed
  have fit: "4 + length hdr + length (enc_log es) \<le> f_size (m_file (new_output (m_store ?w)))"
    "8 + length (enc_log (live es)) \<le> f_size (m_file (new_output (m_store ?w)))" using h(5) room o by simp_all
  obtain disk out c' where m: "memmoveDictionary_encrypting ?E ?n (Some ?c0) (new_output (m_store ?w)) =
      (Inr (Some c'), set_mem disk out (m_store ?w))" "writable ?n (set_mem disk out (m_store ?w))"
    "length disk = length (f_disk (m_file (m_store s)))" "mem_read disk 4 ?n = v_code ?v" "cipher_at ?v ?n c'"
    using memmoveDictionary_encrypting_run [OF it wr o(2) h(7) pos live log fit vw(1,2,4) at] unfolding setm o by blast
  let ?s1 = "?w\<lparr>m_store := set_mem disk out (m_store ?w)\<rparr>"
  have wb: "write_back_data X (map_option (resetIV iv) (encrypter_of ?new (m_crypter ?w))) ([], ?n) ?o = (Inr (Some c'), ?s1)"
    using c m(1) by (simp add: write_back_data_def encrypter_of_def with_dic_def on_store_def)
  have len: "length (v_code ?v) = ?n" using view_length [OF vw(1)] vw(4) by simp
  have "\<exists>t. doFullWriteBack_crypt X ([], ?n) ?new True ?w =
      (Inr (True, Some c'), ?s1\<lparr>m_store := t, m_crypter := (if ?new = NullCrypter then Some c' else m_crypter ?s1)\<rparr>) \<and>
      holds_bytes ?E t (v_code ?v) \<and> (Some c' \<noteq> None \<longrightarrow> mi_vector (m_metaInfo t) = iv) \<and>
      m_dic t = m_dic (m_store ?s1) \<and> settings_kept ?E (m_store ?s1) t"
    by (rule finish_write_back [OF refl iv wb])
      (use m h room len small in \<open>simp_all add: isFileValid_def meta_ready_def read_meta_def\<close>)
  then obtain t where t: "doFullWriteBack_crypt X ([], ?n) ?new True ?w = (Inr (True, Some c'), ?s1\<lparr>m_store := t, m_crypter := m_crypter ?s1\<rparr>)"
    "holds_bytes ?E t (v_code ?v)" "mi_vector (m_metaInfo t) = iv" "settings_kept ?E (m_store ?s1) t" by auto
  moreover have "settings_kept ?E (m_store s) t" using t(4) m(3) by (simp add: settings_kept_def settled_def)
  moreover have "has_key key' aes256' c'" using m(5) cipher_at_data_view [OF assms(7)] by simp
  ultimately show ?thesis
    using reach rl c vw(3) by (intro exI [of _ t] exI [of _ c']) simp
qed

section \<open>Changing the key\<close>

text \<open>A loaded store with a key, of which the empty one stands for no encryption.\<close>

definition keyed ::
  "crypt_environment \<Rightarrow> CryptMMKV \<Rightarrow> byte list \<Rightarrow> bool \<Rightarrow> byte list \<Rightarrow> log_entry list \<Rightarrow> bool" where
  "keyed X s key aes256 hdr es \<longleftrightarrow>
     (if key = [] then plain_ok X s hdr es else crypt_ok X s key aes256 hdr es \<and> length hdr = 4)"

text \<open>A store, loaded or not, whose files hold the values of a log under a key; loading it finds them.\<close>

definition key_state :: "crypt_environment \<Rightarrow> CryptMMKV \<Rightarrow> byte list \<Rightarrow> bool \<Rightarrow> log_entry list \<Rightarrow> bool" where
  "key_state X t key aes256 es \<longleftrightarrow> \<not> m_readOnly (m_store t) \<and>
     (\<exists>u hdr es'. checkLoadData_crypt X t = (Inr (), u) \<and> keyed X u key aes256 hdr es' \<and> mset (live es') = mset (live es) \<and>
        8 + length (enc_log (live es)) \<le> f_size (m_file (m_store u)) \<and> settled (plain_env X) (m_store u) \<and>
        \<not> m_enableKeyExpire (m_store u) \<and>
        keyed_files (plain_env X) key aes256 (f_disk (m_file (m_store t))) (f_disk (m_metaFile (m_store t))) hdr es')"

text \<open>The key that the store reports.\<close>

definition reported_key :: "(nat \<Rightarrow> byte) \<Rightarrow> byte list \<Rightarrow> bool \<Rightarrow> byte list" where
  "reported_key junk key aes256 =
     (if key = [] then [] else takeWhile (\<lambda>b. b \<noteq> 0) (getKey (map junk [0..<32]) (AESCrypt_new key [] aes256)))"

lemma holder_log: "in_range 4 es \<Longrightarrow> crypt_log (holder_bytes E) es"
  using reads_readInt32_uint32 [of "randomItemSizeHolder (rand_value E) ItemSizeHolderSize"]
  unfolding crypt_log_def enc_uint32_def holder_bytes_def [symmetric] by auto

lemma holder_not_Nil: "holder_bytes E \<noteq> []"
  by (metis length_holder_bytes list.size(3) zero_neq_numeral)

lemma mset_live:
  assumes "mset es = mset (live es')"
  shows "mset (live es) = mset (live es')" and "log_contents es = log_contents es'"
    and "length (enc_log (live es)) = length (enc_log (live es'))"
proof -
  note n = new_log_contents [OF assms]
  have "\<forall>kv \<in> set es. snd kv \<noteq> []" using n(4) live_keys by blast
  then have "live es = es" using n(3) live_distinct by blast
  then show "mset (live es) = mset (live es')" using assms by simp
  show "log_contents es = log_contents es'" by (fact n(1))
  show "length (enc_log (live es)) = length (enc_log (live es'))" using n(2) \<open>live es = es\<close> by simp
qed

lemma mset_live_same:
  assumes "mset (live es) = mset (live es')"
  shows "log_contents es = log_contents es'" and "length (enc_log (live es)) = length (enc_log (live es'))"
  using new_log_contents(1,2) [OF assms] log_contents_live_log by simp_all

lemma holds_files:
  assumes hb: "holds_bytes E s code" and "hdr \<noteq> []" and "length hdr \<le> 10" and "crypt_log hdr es"
    and "code = (if key = [] then hdr @ enc_log es else code_of key aes256 (mi_vector (m_metaInfo s)) (hdr @ enc_log es))"
  shows "keyed_files E key aes256 (f_disk (m_file s)) (f_disk (m_metaFile s)) hdr es"
proof -
  have h: "4 + length code \<le> length (f_disk (m_file s))" "length code < 2 ^ 32" "mem_read (f_disk (m_file s)) 4 (length code) = code"
    "m_actualSize s = length code" "meta_current E s code" "112 \<le> f_size (m_metaFile s)" "f_size (m_metaFile s) \<le> length (f_disk (m_metaFile s))"
    using hb by (auto simp: holds_bytes_def meta_current_def meta_ready_def file_ok_def isFileValid_def)
  have "meta_read (f_disk (m_metaFile s)) = m_metaInfo s"
    using h(5) read_meta_disk [OF h(6)] by (simp add: meta_current_def meta_ready_def)
  then show ?thesis
    using h assms(2-5) unfolding keyed_files_def Let_def
    by (cases "key = []") (simp_all add: meta_current_def meta_ready_def)
qed

lemma clear_files:
  "f_disk (m_file (clearMemoryCache False s)) = f_disk (m_file s)" "m_metaFile (clearMemoryCache False s) = m_metaFile s"
  "m_readOnly (clearMemoryCache False s) = m_readOnly s"
  by (simp_all add: clearMemoryCache_def Let_def doCleanMemoryCache_def File_close_def answer_def)

lemma keyed_files_loaded:
  assumes "keyed X u key aes256 hdr es" and "log_contents es \<noteq> Map.empty"
  shows "keyed_files (plain_env X) key aes256 (f_disk (m_file (m_store u))) (f_disk (m_metaFile (m_store u))) hdr es"
    and "checkLoadData_crypt X u = (Inr (), u)" and "\<not> m_readOnly (m_store u)"
proof -
  have "es \<noteq> []" using assms(2) by (auto simp: log_contents_def)
  show "keyed_files (plain_env X) key aes256 (f_disk (m_file (m_store u))) (f_disk (m_metaFile (m_store u))) hdr es"
  proof (cases "key = []")
    case True
    then have ok: "store_ok (plain_env X) (m_store u) hdr es" using assms(1) by (simp add: keyed_def plain_ok_def)
    then have h: "header hdr es" "holds_bytes (plain_env X) (m_store u) (hdr @ enc_log es)" "in_range (length hdr) es"
      by (auto simp: store_ok_def log_ok_def file_log_def holds_bytes_def in_range_def)
    with \<open>es \<noteq> []\<close> show ?thesis
      using True by (intro holds_files [OF h(2)]) (auto simp: header_def crypt_log_def)
  next
    case False
    then have "crypt_ok X u key aes256 hdr es" "length hdr = 4" using assms(1) by (simp_all add: keyed_def)
    then show ?thesis
      using False by (intro holds_files [where code = "code_of key aes256 (mi_vector (m_metaInfo (m_store u))) (hdr @ enc_log es)"])
        (auto simp: crypt_ok_def Let_def)
  qed
  show "checkLoadData_crypt X u = (Inr (), u)"
    by (rule check_crypt_loaded)
      (use assms(1) in \<open>auto simp: keyed_def plain_ok_def store_ok_def log_ok_def crypt_ok_def holds_bytes_def meta_current_def Let_def split: if_splits\<close>)
  show "\<not> m_readOnly (m_store u)"
    using assms(1) by (auto simp: keyed_def plain_ok_def store_ok_def log_ok_def crypt_ok_def holds_bytes_def Let_def split: if_splits)
qed

lemma rekeyed_crypt:
  assumes "0 < page_size (plain_env X)" and key: "key \<noteq> []" and r: "in_range 4 es" and m: "mset es = mset (live es0)"
    and hb: "holds_bytes (plain_env X) (m_store s) (code_of key aes256 (mi_vector (m_metaInfo (m_store s))) (holder_bytes (plain_env X) @ enc_log es))"
    and "settled (plain_env X) (m_store s)" and "\<not> m_enableKeyExpire (m_store s)"
    and "m_crypter s = Some c" and "has_key key aes256 c" and "m_dicCrypt s \<noteq> None"
  shows "key_state X (clearMemoryCache_crypt False s) key aes256 es0"
proof -
  obtain u where u: "checkLoadData_crypt X (clearMemoryCache_crypt False s) = (Inr (), u)"
    "crypt_ok X u key aes256 (holder_bytes (plain_env X)) es" "settled (plain_env X) (m_store u)" "\<not> m_enableKeyExpire (m_store u)"
    using load_cleared_crypt [OF assms(1) key holder_log [OF r] hb assms(6,7) holder_not_Nil assms(8-10)] by blast
  have fit: "8 + length (enc_log es) \<le> f_size (m_file (m_store u))"
    using u(2) encrypt_code_of(2) [OF key] by (simp add: crypt_ok_def holds_bytes_def Let_def)
  have "m_store (clearMemoryCache_crypt False s) = clearMemoryCache False (m_store s)" "\<not> m_readOnly (m_store s)"
    using hb by (simp_all add: clearMemoryCache_crypt_def holds_bytes_def)
  then show ?thesis
    using u key mset_live [OF m] fit length_enc_log_live [of es]
      holds_files [OF hb holder_not_Nil _ holder_log [OF r], where key = key]
    by (fastforce simp: key_state_def keyed_def clear_files)
qed

lemma rekeyed_plain:
  assumes "0 < page_size (plain_env X)" and r: "in_range 4 es" and m: "mset es = mset (live es0)"
    and hb: "holds_bytes (plain_env X) (m_store s) (holder_bytes (plain_env X) @ enc_log es)"
    and "settled (plain_env X) (m_store s)" and "\<not> m_enableKeyExpire (m_store s)"
    and "m_crypter s = None" and "m_hasDic s"
  shows "key_state X (clearMemoryCache_crypt False s) [] aes256 es0"
proof -
  obtain u where u: "checkLoadData_crypt X (clearMemoryCache_crypt False s) = (Inr (), u)"
    "plain_ok X u (holder_bytes (plain_env X)) es" "settled (plain_env X) (m_store u)" "\<not> m_enableKeyExpire (m_store u)"
    using load_cleared_plain [OF assms(1) holder_log [OF r] hb _ _ assms(5-8)] by auto
  have fit: "8 + length (enc_log es) \<le> f_size (m_file (m_store u))"
    using u(2) by (simp add: plain_ok_def store_ok_def log_ok_def file_log_def)
  have "m_store (clearMemoryCache_crypt False s) = clearMemoryCache False (m_store s)" "\<not> m_readOnly (m_store s)"
    using hb by (simp_all add: clearMemoryCache_crypt_def holds_bytes_def)
  then show ?thesis
    using u mset_live [OF m] fit length_enc_log_live [of es]
      holds_files [OF hb holder_not_Nil _ holder_log [OF r], where key = "[]"]
    by (fastforce simp: key_state_def keyed_def clear_files)
qed

lemma cryptKey_keyed: "keyed X u key aes256 hdr es \<Longrightarrow> cryptKey junk u = reported_key junk key aes256"
proof (cases "key = []")
  case True
  assume "keyed X u key aes256 hdr es"
  then show ?thesis using True by (simp add: keyed_def plain_ok_def cryptKey_def reported_key_def)
next
  case False
  assume "keyed X u key aes256 hdr es"
  then obtain c where c: "m_crypter u = Some c" "has_key key aes256 c" using False by (auto simp: keyed_def crypt_ok_def Let_def)
  have "m_isAES256 (AESCrypt_new key [] aes256) = aes256" using new_has_key [OF False] by (simp add: has_key_def)
  then show ?thesis using c False by (simp add: cryptKey_def reported_key_def getKey_def getMaxKeyLength_def has_key_def)
qed

text \<open>Changing the key of a loaded store.\<close>

lemma reKey_loaded:
  assumes it: "iterates_crypt X" "iterates (plain_env X)" and page: "0 < page_size (plain_env X)" and s: "keyed X s key aes256 hdr es"
    and st: "settled (plain_env X) (m_store s)" "\<not> m_enableKeyExpire (m_store s)" and ne: "log_contents es \<noteq> Map.empty"
    and small: "length (enc_log (live es)) < 2 ^ 32 - 5" and room: "8 + length (enc_log (live es)) \<le> f_size (m_file (m_store s))"
    and new: "\<not> (key' = cryptKey (fresh_mem X) s \<and> (key = [] \<or> key' \<noteq> []))" and m: "mset (live es) = mset (live es0)"
  shows "\<exists>t. reKey X key' aes256' s = (Inr True, t) \<and> key_state X t key' aes256' es0"
proof -
  note chk = keyed_files_loaded(2) [OF s ne]
  have nl: "\<not> m_readOnly (m_store s)" "isFileValid (m_file (m_store s))"
    using s by (auto simp: keyed_def plain_ok_def store_ok_def log_ok_def crypt_ok_def holds_bytes_def Let_def split: if_splits)
  show ?thesis
  proof (cases "key = []")
    case True
    then have p: "plain_ok X s hdr es" using s by (simp add: keyed_def)
    then have c: "m_crypter s = None" by (simp add: plain_ok_def)
    have key': "key' \<noteq> []" using new c True by (simp add: cryptKey_def)
    obtain t c' where t: "fullWriteback_crypt X (NewCrypter (AESCrypt_new key' [] aes256')) False (to_write s) = (Inr (True, Some c'), s\<lparr>m_store := t\<rparr>)"
      "has_key key' aes256' c'" "in_range 4 (live es)" "settings_kept (plain_env X) (m_store s) t"
      "holds_bytes (plain_env X) t (code_of key' aes256' (mi_vector (m_metaInfo t)) (holder_bytes (plain_env X) @ enc_log (live es)))"
      using rewrite_plain [OF it(2) p ne st(2) small room key'] by blast
    let ?u = "s\<lparr>m_store := t, m_crypter := Some c', m_dicCrypt := Some (case m_dicCrypt s of None \<Rightarrow> Map.empty | Some d \<Rightarrow> d)\<rparr>"
    have "reKey X key' aes256' s = (Inr True, clearMemoryCache_crypt False ?u)"
      using nl c key' chk t(1)
      by (cases "m_dicCrypt s") (simp_all add: reKey_def bindC_def isFileValid_store_def Let_def)
    moreover have "key_state X (clearMemoryCache_crypt False ?u) key' aes256' es0"
      by (rule rekeyed_crypt [OF page key' t(3) m]) (use t st in \<open>simp_all add: settings_kept_def\<close>)
    ultimately show ?thesis by blast
  next
    case False
    then have c: "crypt_ok X s key aes256 hdr es" and hdr: "length hdr = 4" using s by (simp_all add: keyed_def)
    then have h: "m_crypter s \<noteq> None" by (auto simp: crypt_ok_def Let_def)
    show ?thesis
    proof (cases "key' = []")
      case True
      obtain es' t D where t: "fullWriteback_crypt X InvalidCryptPtr False (to_write s) = (Inr (True, None), s\<lparr>m_store := t, m_dicCrypt := Some D\<rparr>)"
        "mset es' = mset (live es)" "in_range 4 es'" "settings_kept (plain_env X) (m_store s) t"
        "holds_bytes (plain_env X) t (holder_bytes (plain_env X) @ enc_log es')"
        using rewrite_crypt [OF it(1) c hdr ne st(2) small, of InvalidCryptPtr key'] True by auto
      let ?u = "s\<lparr>m_dicCrypt := Some D, m_crypter := None, m_hasDic := True, m_store := (if m_hasDic s then t else t\<lparr>m_dic := Map.empty\<rparr>)\<rparr>"
      have "reKey X key' aes256' s = (Inr True, clearMemoryCache_crypt False ?u)"
        using h nl True chk t(1) by (simp add: reKey_def bindC_def isFileValid_store_def Let_def)
      moreover have "key_state X (clearMemoryCache_crypt False ?u) [] aes256' es0"
        by (rule rekeyed_plain [OF page t(3) trans [OF t(2) m]])
          (use t st in \<open>simp_all add: settings_kept_def settled_def holds_bytes_def meta_current_def meta_ready_def read_meta_def writable_def\<close>)
      ultimately show ?thesis using True by simp
    next
      case False
      obtain es' t D c' where t: "fullWriteback_crypt X (NewCrypter (AESCrypt_new key' [] aes256')) False (to_write s) =
          (Inr (True, Some c'), s\<lparr>m_store := t, m_dicCrypt := Some D\<rparr>)"
        "mset es' = mset (live es)" "in_range 4 es'" "settings_kept (plain_env X) (m_store s) t" "has_key key' aes256' c'"
        "holds_bytes (plain_env X) t (code_of key' aes256' (mi_vector (m_metaInfo t)) (holder_bytes (plain_env X) @ enc_log es'))"
        using rewrite_crypt [OF it(1) c hdr ne st(2) small, of "NewCrypter (AESCrypt_new key' [] aes256')" key' aes256'] False by auto
      let ?u = "s\<lparr>m_store := t, m_dicCrypt := Some D, m_crypter := Some c'\<rparr>"
      have "reKey X key' aes256' s = (Inr True, clearMemoryCache_crypt False ?u)"
        using h nl False new chk t(1) by (simp add: reKey_def bindC_def isFileValid_store_def Let_def)
      moreover have "key_state X (clearMemoryCache_crypt False ?u) key' aes256' es0"
        by (rule rekeyed_crypt [OF page False t(3) trans [OF t(2) m]]) (use t st in \<open>simp_all add: settings_kept_def\<close>)
      ultimately show ?thesis by blast
    qed
  qed
qed

text \<open>The same of a store in any state; a key that is taken for the present one changes nothing.\<close>

lemma reKey_state:
  assumes it: "iterates_crypt X" "iterates (plain_env X)" and page: "0 < page_size (plain_env X)" and s: "key_state X s key aes256 es"
    and ne: "log_contents es \<noteq> Map.empty" and small: "length (enc_log (live es)) < 2 ^ 32 - 5"
  shows "\<exists>t. reKey X key' aes256' s = (Inr True, t) \<and>
    (if key' = reported_key (fresh_mem X) key aes256 \<and> (key = [] \<or> key' \<noteq> []) then key_state X t key aes256 es else key_state X t key' aes256' es)"
proof -
  from s obtain u hdr es' where u: "checkLoadData_crypt X s = (Inr (), u)" "keyed X u key aes256 hdr es'" "mset (live es') = mset (live es)"
    "8 + length (enc_log (live es)) \<le> f_size (m_file (m_store u))" "settled (plain_env X) (m_store u)" "\<not> m_enableKeyExpire (m_store u)"
    and ro: "\<not> m_readOnly (m_store s)"
    by (auto simp: key_state_def)
  note same = mset_live_same [OF u(3)]
  have ne': "log_contents es' \<noteq> Map.empty" using ne same by simp
  note l = keyed_files_loaded [OF u(2) ne']
  have v: "isFileValid (m_file (m_store u))"
    using u(2) by (auto simp: keyed_def plain_ok_def store_ok_def log_ok_def crypt_ok_def holds_bytes_def Let_def split: if_splits)
  have eq: "reKey X key' aes256' s = reKey X key' aes256' u"
    using ro l(2,3) u(1) by (simp add: reKey_def bindC_def)
  show ?thesis
  proof (cases "key' = reported_key (fresh_mem X) key aes256 \<and> (key = [] \<or> key' \<noteq> [])")
    case True
    have "m_crypter u = None \<longleftrightarrow> key = []"
      using u(2) by (auto simp: keyed_def plain_ok_def crypt_ok_def Let_def split: if_splits)
    moreover have "key' = []" if "key = []" using that True by (simp add: reported_key_def)
    ultimately have "reKey X key' aes256' u = (Inr True, u)"
      using True l(2,3) v cryptKey_keyed [OF u(2), of "fresh_mem X"]
      by (auto simp: reKey_def bindC_def isFileValid_store_def Let_def)
    moreover have "key_state X u key aes256 es" using u l same by (auto simp: key_state_def)
    ultimately show ?thesis unfolding if_P [OF True] eq by blast
  next
    case False
    then have "\<not> (key' = cryptKey (fresh_mem X) u \<and> (key = [] \<or> key' \<noteq> []))" using cryptKey_keyed [OF u(2)] by simp
    then show ?thesis
      unfolding if_not_P [OF False] eq using small u(4) same(2)
      by (intro reKey_loaded [OF it page u(2,5,6) ne' _ _ _ u(3)]) simp_all
  qed
qed

text \<open>Any number of changes.\<close>

primrec rekeys :: "crypt_environment \<Rightarrow> (byte list \<times> bool) list \<Rightarrow> (CryptMMKV, unit) cpp" where
  "rekeys X [] = returnC ()"
| "rekeys X (k # ks) = bindC (reKey X (fst k) (snd k)) (\<lambda>_. rekeys X ks)"

section \<open>What a store answers\<close>

lemma plain_get:
  assumes s: "plain_ok X s hdr es"
  shows "getRawDataForKey_crypt (checkLoadData_crypt X) k s = (Inr (value_of es k), s)"
proof -
  let ?t = "m_store s"
  have ok: "store_ok (plain_env X) ?t hdr es" and c: "m_crypter s = None" "m_hasDic s" using s by (simp_all add: plain_ok_def)
  have chk: "checkLoadData_crypt X s = (Inr (), s)"
    by (rule check_crypt_loaded) (use ok in \<open>simp_all add: store_ok_def log_ok_def meta_current_def\<close>)
  have "getRawDataForKey (plain_env X) [] k ?t = (Inr (value_of es k), ?t)" by (rule getRawDataForKey_run [OF ok])
  then show ?thesis
    using c chk by (cases "m_dic ?t k")
      (simp_all add: getRawDataForKey_def getRawDataForKey_crypt_def bindC_def checkLoadData_loaded [OF ok] with_dic_def on_store_def returnC_def)
qed

lemma get_after_check:
  assumes "checkLoadData_crypt X s = (Inr (), u)" and "checkLoadData_crypt X u = (Inr (), u)"
  shows "getRawDataForKey_crypt (checkLoadData_crypt X) k s = getRawDataForKey_crypt (checkLoadData_crypt X) k u"
  using assms by (simp add: getRawDataForKey_crypt_def bindC_def)

lemma key_state_get:
  assumes "key_state X s key aes256 es"
  shows "fst (getRawDataForKey_crypt (checkLoadData_crypt X) k s) = Inr (value_of es k)"
proof -
  from assms obtain u hdr es' where u: "checkLoadData_crypt X s = (Inr (), u)" "keyed X u key aes256 hdr es'" "mset (live es') = mset (live es)"
    by (auto simp: key_state_def)
  have v: "value_of es' k = value_of es k" using mset_live_same(1) [OF u(3)] by (simp add: value_of_def)
  show ?thesis
  proof (cases "key = []")
    case True
    then have p: "plain_ok X u hdr es'" using u(2) by (simp add: keyed_def)
    have "checkLoadData_crypt X u = (Inr (), u)"
      by (rule check_crypt_loaded) (use p in \<open>simp_all add: plain_ok_def store_ok_def log_ok_def meta_current_def\<close>)
    then show ?thesis using get_after_check [OF u(1)] plain_get [OF p] v by simp
  next
    case False
    then have c: "crypt_ok X u key aes256 hdr es'" using u(2) by (simp add: keyed_def)
    show ?thesis using get_after_check [OF u(1) crypt_ok_check [OF c]] crypt_get [OF c] v by (simp add: value_of_def)
  qed
qed

lemma opened_get:
  assumes E: "env_files (plain_env X)" and ro: "\<not> isReadOnly config"
    and f: "keyed_files (plain_env X) key aes256 disk metaDisk hdr es"
  shows "fst (getRawDataForKey_crypt (checkLoadData_crypt X) k (crypt_object (plain_env X) config key aes256 disk metaDisk [] [])) =
    Inr (value_of es k)"
proof -
  let ?c = "crypt_object (plain_env X) config key aes256 disk metaDisk [] []"
  obtain u where u: "checkLoadData_crypt X ?c = (Inr (), u)" "if key = [] then plain_ok X u hdr es else crypt_ok X u key aes256 hdr es"
    using open_keyed [OF E ro f] by blast
  show ?thesis
  proof (cases "key = []")
    case True
    then have p: "plain_ok X u hdr es" using u(2) by simp
    have "checkLoadData_crypt X u = (Inr (), u)"
      by (rule check_crypt_loaded) (use p in \<open>simp_all add: plain_ok_def store_ok_def log_ok_def meta_current_def\<close>)
    then show ?thesis using get_after_check [OF u(1)] plain_get [OF p] by simp
  next
    case False
    then have c: "crypt_ok X u key aes256 hdr es" using u(2) by simp
    show ?thesis using get_after_check [OF u(1) crypt_ok_check [OF c]] crypt_get [OF c] by (simp add: value_of_def)
  qed
qed

section \<open>From files to files\<close>

lemma keyed_files_extends:
  assumes f: "keyed_files E key aes256 disk metaDisk hdr es" and "take (length disk) d = disk" and "take (length metaDisk) m = metaDisk"
    and "length disk \<le> length d" and "length metaDisk \<le> length m"
  shows "keyed_files E key aes256 d m hdr es"
proof -
  have meta: "meta_read m = meta_read metaDisk"
    using meta_read_take [of "length metaDisk" m] assms(3) f by (simp add: keyed_files_def)
  have "mem_read d 4 n = mem_read disk 4 n" if "4 + n \<le> length disk" for n
    using mem_read_take [OF that, of d] assms(2) by simp
  then show ?thesis using f assms(4,5) unfolding keyed_files_def meta Let_def by auto
qed

lemma opened_state:
  assumes E: "env_files (plain_env X)" and ro: "\<not> isReadOnly config"
    and f: "keyed_files (plain_env X) key aes256 disk metaDisk hdr es" and "length hdr = 4"
    and "\<not> hasFlag EnableKeyExipre (meta_read metaDisk)"
  shows "key_state X (crypt_object (plain_env X) config key aes256 disk metaDisk [] []) key aes256 es"
proof -
  let ?E = "plain_env X" and ?c = "crypt_object (plain_env X) config key aes256 disk metaDisk [] []"
  have page: "0 < page_size ?E" using page_sizes [OF E] by simp
  obtain u where u: "checkLoadData_crypt X ?c = (Inr (), u)" "keyed X u key aes256 hdr es" "settled ?E (m_store u)"
    "\<not> m_enableKeyExpire (m_store u)"
    using open_keyed [OF E ro f] assms(4,5) by (auto simp: keyed_def split: if_splits)
  have c: "m_store ?c = MMKV_object ?E config disk metaDisk [] []" by (simp add: crypt_object_def)
  note fe = MMKV_object_files(1) [OF ro refl, of ?E disk metaDisk] and ge = MMKV_object_files(2) [OF ro refl, of ?E disk metaDisk]
  have "keyed_files ?E key aes256 (f_disk (m_file (m_store ?c))) (f_disk (m_metaFile (m_store ?c))) hdr es"
    unfolding c by (rule keyed_files_extends [OF f])
      (use MemoryFile_new_ok(6,7) [OF page fe] MemoryFile_new_ok(6,7) [OF page ge] in simp_all)
  moreover have "8 + length (enc_log (live es)) \<le> f_size (m_file (m_store u))"
    using u(2) assms(4) length_enc_log_live [of es] encrypt_code_of(2) [of key aes256]
    by (fastforce simp: keyed_def plain_ok_def crypt_ok_def store_ok_def log_ok_def file_log_def holds_bytes_def Let_def split: if_splits)
  ultimately show ?thesis using u ro by (auto simp: key_state_def c)
qed

text \<open>The key after a number of changes.\<close>

primrec final_key :: "(nat \<Rightarrow> byte) \<Rightarrow> byte list \<times> bool \<Rightarrow> (byte list \<times> bool) list \<Rightarrow> byte list \<times> bool" where
  "final_key junk k [] = k"
| "final_key junk k (k' # ks) =
     final_key junk (if fst k' = reported_key junk (fst k) (snd k) \<and> (fst k = [] \<or> fst k' \<noteq> []) then k else k') ks"

lemma rekeys_final:
  assumes it: "iterates_crypt X" "iterates (plain_env X)" and page: "0 < page_size (plain_env X)"
    and ne: "log_contents es \<noteq> Map.empty" and small: "length (enc_log (live es)) < 2 ^ 32 - 5" and "key_state X s (fst k) (snd k) es"
  shows "\<exists>t. rekeys X ks s = (Inr (), t) \<and> key_state X t (fst (final_key (fresh_mem X) k ks)) (snd (final_key (fresh_mem X) k ks)) es"
  using assms(6)
proof (induction ks arbitrary: s k)
  case Nil
  then show ?case by (auto simp: returnC_def)
next
  case (Cons k' ks)
  let ?k = "if fst k' = reported_key (fresh_mem X) (fst k) (snd k) \<and> (fst k = [] \<or> fst k' \<noteq> []) then k else k'"
  obtain t where t: "reKey X (fst k') (snd k') s = (Inr True, t)" "key_state X t (fst ?k) (snd ?k) es"
    using reKey_state [OF it page Cons.prems ne small, of "fst k'" "snd k'"] by (auto split: if_splits)
  show ?case using Cons.IH [OF t(2)] t(1) by (simp add: bindC_Inr)
qed

lemma key_state_reopens:
  assumes E: "env_files (plain_env X)" and ro: "\<not> isReadOnly config" and s: "key_state X s key aes256 es"
  shows "fst (getRawDataForKey_crypt (checkLoadData_crypt X) k (crypt_object (plain_env X) config key aes256
    (f_disk (m_file (m_store s))) (f_disk (m_metaFile (m_store s))) [] [])) = Inr (value_of es k)"
proof -
  obtain hdr es' where f: "keyed_files (plain_env X) key aes256 (f_disk (m_file (m_store s))) (f_disk (m_metaFile (m_store s))) hdr es'"
    and m: "mset (live es') = mset (live es)"
    using s by (auto simp: key_state_def)
  have "value_of es' k = value_of es k" using mset_live_same(1) [OF m] by (simp add: value_of_def)
  then show ?thesis using opened_get [OF E ro f] by simp
qed

text \<open>The key that a store reports: up to the first zero byte of the key, which fills the array of the cipher's length, and
  of what follows in the uninitialised rest of the array.\<close>

lemma m_key_AESCrypt_new: "key \<noteq> [] \<Longrightarrow> m_key (AESCrypt_new key iv aes256) =
    take (if aes256 then 32 else 16) key @ replicate (32 - min (length key) (if aes256 then 32 else 16)) 0"
  by (simp add: AESCrypt_new_def Let_def resetIV_def getMaxKeyLength_def mem_write_def min.commute)

lemma reported_key_bytes:
  assumes "key \<noteq> []"
  shows "reported_key junk key aes256 = (let n = if aes256 then 32 else 16
    in takeWhile (\<lambda>b. b \<noteq> 0) (take n key @ replicate (n - length key) 0 @ map junk [n..<32]))"
proof -
  have a: "m_isAES256 (AESCrypt_new key [] aes256) = aes256" using new_has_key [OF assms] by (simp add: has_key_def)
  have d: "drop n (map junk [0..<32]) = map junk [n..<32]" for n by (simp add: drop_map)
  have "n - min (length key) n = n - length key" "min (length key) n + (n - length key) = n" for n :: nat by simp_all
  then show ?thesis
    using assms a d by (auto simp: reported_key_def getKey_def getMaxKeyLength_def m_key_AESCrypt_new mem_write_def Let_def)
qed

lemma reported_key_short:
  assumes "key \<noteq> []" and "length key < (if aes256 then 32 else 16)" and "0 \<notin> set key"
  shows "reported_key junk key aes256 = key"
proof -
  let ?n = "if aes256 then 32 else 16 :: nat"
  have "replicate (?n - length key) (0 :: byte) = 0 # replicate (?n - length key - 1) 0"
    using assms(2) by (cases "?n - length key") auto
  then have "takeWhile (\<lambda>b. b \<noteq> 0) (key @ replicate (?n - length key) 0 @ map junk [?n..<32]) = key"
    using assms(3) by (subst takeWhile_append2) auto
  then show ?thesis using assms(2) by (simp only: reported_key_bytes [OF assms(1)] Let_def) simp
qed

lemma reported_key_full:
  assumes "length key = 16" and "0 \<notin> set key"
  shows "reported_key junk key False = key \<longleftrightarrow> junk 16 = 0"
proof -
  have k: "key \<noteq> []" using assms(1) by auto
  have "takeWhile (\<lambda>b. b \<noteq> 0) (key @ map junk [16..<32]) = key @ takeWhile (\<lambda>b. b \<noteq> 0) (map junk [16..<32])"
    using assms(2) by (intro takeWhile_append2) auto
  moreover have "map junk [16..<32] = junk 16 # map junk [17..<32]" by (subst upt_conv_Cons) simp_all
  ultimately show ?thesis using assms(1) by (auto simp: reported_key_bytes [OF k] Let_def)
qed

text \<open>A store with a full AES-128 key that is given the same key again.\<close>

lemma checkReSet_same_key:
  assumes s: "crypt_ok X s key False hdr es" and "length key = 16" and "0 \<notin> set key"
  shows "checkReSetCryptKey X (Some key) False s =
    (Inr (), if fresh_mem X 16 = 0 then s else s\<lparr>m_crypter := Some (AESCrypt_new key [] False)\<rparr>)"
proof -
  obtain c where c: "m_crypter s = Some c" "has_key key False c" and k: "key \<noteq> []"
    using s by (auto simp: crypt_ok_def Let_def)
  have "m_isAES256 (AESCrypt_new key [] False) = False" using new_has_key [OF k] by (simp add: has_key_def)
  then have rk: "cryptKey (fresh_mem X) s = reported_key (fresh_mem X) key False"
    using c k by (simp add: cryptKey_def reported_key_def getKey_def getMaxKeyLength_def has_key_def)
  have m: "\<not> m_needLoadFromFile (m_store s)" "meta_ready (m_store s)"
    using s by (simp_all add: crypt_ok_def holds_bytes_def meta_current_def Let_def)
  show ?thesis
    using c k rk reported_key_full [OF assms(2,3), of "fresh_mem X"] check_crypt_loaded [of "s\<lparr>m_crypter := Some (AESCrypt_new key [] False)\<rparr>" X] m
    by (simp add: checkReSetCryptKey_def Let_def)
qed

text \<open>A plain store that is given a key has no dictionary for encrypted values.\<close>

lemma checkReSet_plain:
  assumes s: "plain_ok X s hdr es" and "m_dicCrypt s = None" and "key \<noteq> []"
  shows "\<exists>t. checkReSetCryptKey X (Some key) aes256 s = (Inr (), t) \<and>
    fst (getRawDataForKey_crypt (checkLoadData_crypt X) k t) = Inl MemoryFault"
proof -
  let ?t = "s\<lparr>m_crypter := Some (AESCrypt_new key [] aes256)\<rparr>"
  have m: "\<not> m_needLoadFromFile (m_store s)" "meta_ready (m_store s)" "m_crypter s = None"
    using s by (simp_all add: plain_ok_def store_ok_def log_ok_def meta_current_def)
  have chk: "checkLoadData_crypt X ?t = (Inr (), ?t)" by (rule check_crypt_loaded) (use m in simp_all)
  then have "checkReSetCryptKey X (Some key) aes256 s = (Inr (), ?t)"
    using assms(3) m(3) by (simp add: checkReSetCryptKey_def Let_def)
  moreover have "getRawDataForKey_crypt (checkLoadData_crypt X) k ?t = (Inl MemoryFault, ?t)"
    using chk assms(2) by (simp add: getRawDataForKey_crypt_def bindC_def with_dicCrypt_def)
  ultimately show ?thesis by auto
qed

section \<open>The assertion on the placeholder\<close>

text \<open>Entries behind a header of four bytes, or of more than five, pass; behind another one, only one value does.\<close>

lemma size_holder_assertion:
  assumes "vec \<noteq> []" and "unat (kh_offset (snd (hd vec))) = n" and "1 \<le> n" and "n \<le> 5" and "n \<noteq> 4"
  shows "size_holder_crypt E vec = (if randomItemSizeHolder (rand_value E) n = ItemSizeHolderBounds ! n
    then Some (n, ItemSizeHolderBounds ! n) else None)"
proof -
  have o: "kh_offset (snd (hd vec)) = word_of_nat n" using assms(2) by auto
  have "word_of_nat n \<noteq> (4 :: u32)" using assms(2,5) o by (auto)
  moreover have "word_of_nat n \<le> (5 :: u32)" using assms(2,4) o by (simp add: word_le_nat_alt)
  ultimately show ?thesis
    using assms(1,2,3) o by (auto simp: size_holder_crypt_def Let_def ItemSizeHolderSize_def)
qed

lemma new_key_stream: "length key = 16 \<Longrightarrow> get_cfb (AESCrypt_new key [] False) = \<lparr>ivec = key, num = 0\<rparr>"
  by (auto simp: AESCrypt_new_def Let_def resetIV_def getMaxKeyLength_def get_cfb_def mem_write_def)

end
