(* ===== verification/Spec2Isabelle.thy ===== *)
theory Spec2Isabelle
  imports PBMap AESCrypt CryptMap InterProcessLock SampleStore MMKV_Typed MMKV_Shared CryptRekey
begin

text \<open>
  A model of MMKV's core (\<open>src/ios/Pods/MMKVCore/Core\<close>), the storage engine of the application: the
  C++ that the repository compiles into the app to keep the user's data.

  \<^bold>\<open>The program.\<close> A store is a file: four bytes of size, then a log of key-value pairs in the
  protobuf wire format, behind a header. Setting a value appends a pair; loading the store reads the
  whole log into a dictionary from keys to holders that locate the values in the file.

  \<^item> \<^bold>\<open>Prelude\<close>: exceptions, the state-and-exception computations of the C++ members, memory regions.
  \<^item> \<^bold>\<open>PBUtility\<close> (\<open>PBUtility.h\<close>, \<open>PBUtility.cpp\<close>): conversions and encoded sizes; \<open>varint\<close>, the wire
    format of unsigned numbers, and the proof that the size functions give its length.
  \<^item> \<^bold>\<open>CodedOutput\<close> (\<open>CodedOutputData.cpp\<close>): the writer. Every operation is shown to be one bytewise
    write of an encoding: what it does when the bytes fit the window and when they do not.
  \<^item> \<^bold>\<open>CodedInput\<close> (\<open>CodedInputData.cpp\<close>, \<open>CodedInputData_OSX.cpp\<close>): the reader. Each read gives back
    what the writer of its type wrote; on any bytes it stays inside the region and consumes input.
  \<^item> \<^bold>\<open>Codec\<close>: the interfaces of the loops that encode and decode (locales \<open>loop_reader\<close>,
    \<open>wire_reader\<close>, \<open>wire_writer\<close>, \<open>codec\<close>), interpreted for every element type.
  \<^item> \<^bold>\<open>MiniPBCoder\<close> (\<open>PBEncodeItem.hpp\<close>, \<open>MiniPBCoder.cpp\<close>, \<open>MiniPBCoder_OSX.cpp\<close>): the two-pass encoder
    and the vector decoders.
  \<^item> \<^bold>\<open>PBMap\<close> (\<open>decodeOneMap\<close> of both files, \<open>KeyValueHolder.cpp\<close>): logs, their meaning as a finite
    map, the decoded dictionary, torn logs; \<open>map_typed\<close>, which every decoded dictionary is.
  \<^item> \<^bold>\<open>AESTables\<close>, \<^bold>\<open>AES\<close> (\<open>aes/openssl/openssl_aes_core.cpp\<close>): the lookup tables and AES over them;
    decryption inverts encryption for every block and key.
  \<^item> \<^bold>\<open>CFB\<close> (\<open>aes/openssl/openssl_cfb128.cpp\<close>, \<open>Rollback_cfb_decrypt\<close>): cipher feedback over a block
    cipher; the loops over words and blocks are a bytewise step repeated, which is inverted by the
    step of the other direction and undone by the step back.
  \<^item> \<^bold>\<open>AESCrypt\<close> (\<open>aes/AESCrypt.cpp\<close>): the cipher object (locales \<open>block_cipher\<close>, \<open>stream\<close>).
  \<^item> \<^bold>\<open>KeyValueHolderCrypt\<close> (\<open>KeyValueHolder.h\<close>, \<open>KeyValueHolder.cpp\<close>): the holder of an encrypted store:
    small values inline, medium ones in memory, large ones in the file behind a saved cipher status.
  \<^item> \<^bold>\<open>CryptInput\<close> (\<open>CodedInputDataCrypt.cpp\<close>, \<open>decodeOneMap\<close> for encrypted maps): the reader that decrypts
    ahead into a buffer which it moves, grows and discards.
  \<^item> \<^bold>\<open>CryptView\<close>, \<^bold>\<open>CryptMap\<close>: the simulation of that reader by the plain reader on the decrypted bytes, and
    what decoding an encrypted log gives.
  \<^item> \<^bold>\<open>InterProcessLock\<close> (\<open>InterProcessLock.cpp\<close>, \<open>InterProcessLock_Android.cpp\<close>, \<open>ScopedLock.hpp\<close>): the
    recursive file lock. Its operations are programs of system calls, which processes interleave; the
    kernel is a parameter, of which \<open>lock_service\<close> states what \<open>flock\<close> and \<open>fcntl\<close> promise. Any call may fail, also
    by a signal; \<open>releasing K\<close> are the runs in which no release does, \<open>recovering K\<close> those in which in addition no request
    for a shared lock that may wait does. Outside of the latter a counter can be wrong (\<open>failed_recovery_miscounts\<close>).
  \<^item> \<^bold>\<open>MMKVMetaInfo\<close> (\<open>MMKVMetaInfo.hpp\<close>): the meta information kept in a second file, and its layout.
  \<^item> \<^bold>\<open>MemoryFile\<close> (\<open>MemoryFile.cpp\<close>): a mapped file, resized by pages. The operating system answers its
    calls from a list in the state, so every failure of a call is covered.
    \<open>reload_asserts\<close> is the assertion at the beginning of \<open>reloadFromFile\<close>, which \<open>map_again\<close> of \<open>MMKV_IO\<close> evaluates.
  \<^item> \<^bold>\<open>MMKV_IO\<close> (\<open>MMKV_IO.cpp\<close>, \<open>MMKV.cpp\<close>): the storage engine of stores without encryption. Sizes are
    natural numbers where the lengths of files and buffers bound them; the sums, products and doublings of
    \<open>expandAndWriteBack\<close>, which they do not bound, wrap around (\<open>wrap64\<close>, \<open>size_t\<close> of 64 bits). Requests below \<open>2 ^ 59\<close>
    bytes do not reach the wrap-around; the doubling ends for sizes below \<open>2 ^ 63\<close>. \<open>debug_build\<close> of the environment
    tells whether a failed assertion ends the program (\<open>MMKV_DEBUG\<close>) or is ignored where a file is mapped again.
  \<^item> \<^bold>\<open>LiveLog\<close>: the entries of a log that a full write-back keeps. \<^bold>\<open>MMKV_Rewrite\<close>: \<open>memmoveDictionary\<close> moves
    exactly these to the front of the file, in place. \<^bold>\<open>MMKV_Store\<close>: the invariant of a loaded store,
    which \<open>doFullWriteBack\<close>, \<open>expandAndWriteBack\<close> and \<open>ensureMemorySize\<close> keep; when they fail for want of
    space, the store is as before or its file is no longer mapped. \<^bold>\<open>MMKV_Append\<close>, \<^bold>\<open>MMKV_Keys\<close>: appending,
    overriding, setting, removing and getting. \<^bold>\<open>MMKV_Requests\<close>: sequences of requests (locale \<open>server\<close>)
    against a finite map, on one store and across restarts. \<^bold>\<open>SampleStore\<close>: concrete stores for the examples.
  \<^item> \<^bold>\<open>MMKV_Expire\<close> (\<open>MMKV_IO.cpp\<close>): values that end in the time they expire, switching expiration on and off.
    \<^bold>\<open>MMKV_API\<close> (\<open>MMKV.cpp\<close>, \<open>MMKV.h\<close>): the constructor, typed sets and gets, enumeration, import.
    \<^bold>\<open>MMKV_Load\<close>: constructing a store on files and loading it, from files a store has left and from new
    ones. \<^bold>\<open>MMKV_Shared\<close>: several processes on the same files; a process notices what the others wrote, and
    any interleaving of requests is answered by one map in a release build; in a debug build a process that has not loaded
    the store aborts when another one has enlarged the file (\<open>enlarged_file_asserts\<close>). \<^bold>\<open>MMKV_Typed\<close>: typed sets and gets on a store in a good state.
  \<^item> \<^bold>\<open>CryptStore\<close> (\<open>MMKV_IO.cpp\<close>, \<open>MMKV.cpp\<close>): the branches of the storage engine where \<open>m_crypter\<close> is not null:
    loading, reading, \<open>memmoveDictionary\<close> with decryption and encryption in place, \<open>doFullWriteBack\<close>, \<open>reKey\<close>,
    \<open>checkReSetCryptKey\<close>, clearing. The nesting of loading and clearing is bounded by \<open>load_depth\<close>; a load of files
    in order needs no nesting, which the lemmas of loading show for every bound.
    \<^bold>\<open>CryptLoad\<close>: \<open>crypt_ok\<close>, the invariant of a loaded encrypted store; loading and opening files reach it, a get
    under it gives the value of the log. \<^bold>\<open>CryptRewrite\<close>: the write-back moves the decrypted entries to the front and
    encrypts them again. \<^bold>\<open>CryptRekey\<close>: changing the key, from and to stores without one.

  \<^bold>\<open>Not modelled.\<close> Setting and removing in an encrypted store, importing there and switching its expiration; the
  registry of instances, name spaces, backup, restore and callbacks (\<open>MMKV.cpp\<close>, \<open>MMKV_OSX.cpp\<close>, \<open>MMKV_Android.cpp\<close>),
  which are file system calls and glue; \<open>MMBuffer\<close> (a buffer is the list of its bytes), logging, mutexes (a request is
  one step) and the Windows variants. zlib's \<open>crc32\<close> and the \<open>rand()\<close>, clock and handler of the host are parameters. The
  other C++ of the repository is vendored (boost, folly, glog, fmt, hermes) or generated by React Native's build.
\<close>

unbundle bit_operations_syntax

section \<open>Encoding and decoding\<close>

lemma encode_strings_eq: "encodeDataWithObject_strings junk v = encode_result (enc_list enc_data v)"
proof -
  have "items_bytes (map string_item v) = enc_list enc_data v"
    by (simp add: items_bytes_def enc_list_def comp_def)
  then show ?thesis
    by (simp add: encodeDataWithObject_strings_def prepare_strings_packed encode_packed)
qed

text \<open>C20. A vector of 32-bit or 64-bit integers, signed or unsigned, that is encoded and decoded
  again is the same vector, and the encoder writes every byte of the buffer it allocates: the
  result does not depend on what the fresh memory held.\<close>

theorem int_vectors_roundtrip:
  assumes "10 * length a < 2 ^ 32 - 5" and "10 * length b < 2 ^ 32 - 5"
    and "10 * length c < 2 ^ 32 - 5" and "10 * length d < 2 ^ 32 - 5"
  shows
    "(\<exists>bs. (\<forall>junk. encodeDataWithObject_int32s junk a = Inr bs) \<and>
       decodeVector (decodeOneVector_int32s []) bs = Some (Inr (True, a))) \<and>
     (\<exists>bs. (\<forall>junk. encodeDataWithObject_uint32s junk b = Inr bs) \<and>
       decodeVector (decodeOneVector_uint32s []) bs = Some (Inr (True, b))) \<and>
     (\<exists>bs. (\<forall>junk. encodeDataWithObject_int64s junk c = Inr bs) \<and>
       decodeVector (decodeOneVector_int64s []) bs = Some (Inr (True, c))) \<and>
     (\<exists>bs. (\<forall>junk. encodeDataWithObject_uint64s junk d = Inr bs) \<and>
       decodeVector (decodeOneVector_uint64s []) bs = Some (Inr (True, d)))"
proof -
  note l = length_enc_ints(1) [of a] length_enc_ints(2) [of b] length_enc_ints(3) [of c]
    length_enc_ints(4) [of d]
  have "encode_result (enc_list enc_int32 a) = Inr (framed (enc_list enc_int32 a))"
    "encode_result (enc_list enc_uint32 b) = Inr (framed (enc_list enc_uint32 b))"
    "encode_result (enc_list enc_int64 c) = Inr (framed (enc_list enc_int64 c))"
    "encode_result (enc_list enc_int64 d) = Inr (framed (enc_list enc_int64 d))"
    using assms l by (auto intro!: encode_result_small)
  then show ?thesis
    by (simp add: encode_ints_eq decode_ints_framed)
qed

lemma int_vectors_roundtrip_witness:
  "\<exists>bs. (\<forall>junk. encodeDataWithObject_int32s junk [- 1, 300] = Inr bs) \<and>
     decodeVector (decodeOneVector_int32s []) bs = Some (Inr (True, [- 1, 300]))"
  by (rule int_vectors_roundtrip [of "[- 1, 300]" "[]" "[]" "[]", THEN conjunct1]) simp_all

text \<open>C21. A vector of booleans, floats or doubles that is encoded and decoded again is the same
  vector, bit pattern for bit pattern, and the encoder fills its buffer exactly.\<close>

theorem fixed_vectors_roundtrip:
  assumes "length a < 2 ^ 32 - 5" and "4 * length b < 2 ^ 32 - 5" and "8 * length c < 2 ^ 32 - 5"
  shows
    "(\<exists>bs. (\<forall>junk. getEncodeData_bools junk a = Inr bs) \<and>
       decodeVector (decodeOneVector_bools []) bs = Some (Inr (True, a))) \<and>
     (\<exists>bs. (\<forall>junk. getEncodeData_floats junk b = Inr bs) \<and>
       decodeVector (decodeOneVector_floats []) bs = Some (Inr (True, b))) \<and>
     (\<exists>bs. (\<forall>junk. getEncodeData_doubles junk c = Inr bs) \<and>
       decodeVector (decodeOneVector_doubles []) bs = Some (Inr (True, c)))"
proof -
  have l: "length (enc_list enc_bool a) \<le> 1 * length a" "length (enc_list enc_float b) \<le> 4 * length b"
    "length (enc_list enc_double c) \<le> 8 * length c"
    unfolding enc_list_def by (rule length_concat_map_le; simp)+
  have f: "length (framed (enc_list enc_bool a)) < 2 ^ 32" "length (framed (enc_list enc_float b)) < 2 ^ 32"
    "length (framed (enc_list enc_double c)) < 2 ^ 32"
    using assms l length_framed [of "enc_list enc_bool a"] length_framed [of "enc_list enc_float b"]
      length_framed [of "enc_list enc_double c"] by simp_all
  have "getEncodeData_bools junk a = Inr (framed (enc_list enc_bool a))"
    "getEncodeData_floats junk b = Inr (framed (enc_list enc_float b))"
    "getEncodeData_doubles junk c = Inr (framed (enc_list enc_double c))" for junk
    unfolding getEncodeData_bools_def getEncodeData_floats_def getEncodeData_doubles_def
    by (rule bool.encode_fixed float.encode_fixed double.encode_fixed; simp add: f [simplified])+
  moreover have "decodeVector (decodeOneVector_bools []) (framed (enc_list enc_bool a)) = Some (Inr (True, a))"
    "decodeVector (decodeOneVector_floats []) (framed (enc_list enc_float b)) = Some (Inr (True, b))"
    "decodeVector (decodeOneVector_doubles []) (framed (enc_list enc_double c)) = Some (Inr (True, c))"
    unfolding decodeOneVector_bools_def decodeOneVector_floats_def decodeOneVector_doubles_def
    by (rule bool.decode_framed float.decode_framed double.decode_framed, rule reads_readUInt32, simp)+
  ultimately show ?thesis by blast
qed

lemma fixed_vectors_roundtrip_witness:
  "\<exists>bs. (\<forall>junk. getEncodeData_bools junk [True, False] = Inr bs) \<and>
     decodeVector (decodeOneVector_bools []) bs = Some (Inr (True, [True, False]))"
  by (rule fixed_vectors_roundtrip [of "[True, False]" "[]" "[]", THEN conjunct1]) simp_all

text \<open>C22. A vector of strings, each shorter than 2 GB and together shorter than 4 GB, that is encoded
  and decoded again is the same vector; empty strings and strings with any bytes included.\<close>

theorem string_vector_roundtrip:
  assumes "\<forall>str \<in> set v. length str < 2 ^ 31" and "length (enc_list enc_data v) < 2 ^ 32 - 5"
  shows "\<exists>bs. (\<forall>junk. encodeDataWithObject_strings junk v = Inr bs) \<and>
    decodeVector decodeOneVector_strings bs = Some (Inr v)"
proof -
  have s: "\<forall>str \<in> set v. short str" using assms(1) by (simp add: short_def)
  let ?b = "enc_list enc_data v" and ?h = "enc_uint32 (word_of_nat (length (enc_list enc_data v)))"
  let ?s = "CodedInputData (framed ?b) 0 (length (framed ?b))"
  have r: "remaining ?s = ?h @ ?b" by (simp only: remaining_new) (simp add: framed_def)
  have h: "readInt32 ?s = (Inr (word_of_nat (length ?b)), advance (length ?h) ?s)"
    by (rule readsD [OF reads_readInt32_uint32 in_wf_new r])
  have "in_wf (advance (length ?h) ?s)" by (rule in_wf_advance [OF in_wf_new]) (simp add: r)
  moreover have "remaining (advance (length ?h) ?s) = ?b" by (simp add: remaining_advance r)
  ultimately have "while_not_at_end isAtEnd (push_back readString) [] (advance (length ?h) ?s) =
      Some (None, v, advance (length ?b) (advance (length ?h) ?s))"
    using str.loop.decode_all [of _ v "[]"] s by (simp add: run_steps_append)
  with h have "decodeVector decodeOneVector_strings (framed ?b) = Some (Inr v)"
    by (simp add: decodeVector_def decodeOneVector_strings_def)
  with assms(2) show ?thesis by (simp add: encode_strings_eq encode_result_small)
qed

lemma string_vector_roundtrip_witness:
  "\<exists>bs. (\<forall>junk. encodeDataWithObject_strings junk [[], [104, 105]] = Inr bs) \<and>
     decodeVector decodeOneVector_strings bs = Some (Inr [[], [104, 105]])"
  by (rule string_vector_roundtrip) (simp_all add: enc_data_def)

text \<open>C23. Decoding any bytes whatever as a vector of any element type ends, never reads outside the
  buffer, and answers \<open>true\<close> or \<open>false\<close> (for strings: a vector or a thrown exception).\<close>

theorem decode_vectors_total:
  "(\<exists>ok r. decodeVector (decodeOneVector_int32s r0) oData = Some (Inr (ok, r))) \<and>
   (\<exists>ok r. decodeVector (decodeOneVector_uint32s r1) oData = Some (Inr (ok, r))) \<and>
   (\<exists>ok r. decodeVector (decodeOneVector_int64s r2) oData = Some (Inr (ok, r))) \<and>
   (\<exists>ok r. decodeVector (decodeOneVector_uint64s r3) oData = Some (Inr (ok, r))) \<and>
   (\<exists>ok r. decodeVector (decodeOneVector_bools r4) oData = Some (Inr (ok, r))) \<and>
   (\<exists>ok r. decodeVector (decodeOneVector_floats r5) oData = Some (Inr (ok, r))) \<and>
   (\<exists>ok r. decodeVector (decodeOneVector_doubles r6) oData = Some (Inr (ok, r))) \<and>
   (\<exists>r. decodeVector decodeOneVector_strings oData = Some r \<and> r \<noteq> Inl MemoryFault)"
proof -
  note c = consumes_imp_safe [OF consumes_varint32(1)] consumes_imp_safe [OF consumes_more(1)]
  have "\<exists>ok r. decodeVector (decodeOneVector_int32s r0) oData = Some (Inr (ok, r))"
    "\<exists>ok r. decodeVector (decodeOneVector_uint32s r1) oData = Some (Inr (ok, r))"
    "\<exists>ok r. decodeVector (decodeOneVector_int64s r2) oData = Some (Inr (ok, r))"
    "\<exists>ok r. decodeVector (decodeOneVector_uint64s r3) oData = Some (Inr (ok, r))"
    "\<exists>ok r. decodeVector (decodeOneVector_bools r4) oData = Some (Inr (ok, r))"
    "\<exists>ok r. decodeVector (decodeOneVector_floats r5) oData = Some (Inr (ok, r))"
    "\<exists>ok r. decodeVector (decodeOneVector_doubles r6) oData = Some (Inr (ok, r))"
    unfolding decodeOneVector_int32s_def decodeOneVector_uint32s_def decodeOneVector_int64s_def
      decodeOneVector_uint64s_def decodeOneVector_bools_def decodeOneVector_floats_def
      decodeOneVector_doubles_def
    by (rule int32.decode_total uint32.decode_total int64.decode_total uint64.decode_total
        bool.decode_total float.decode_total double.decode_total, rule c)+
  moreover obtain h t where h: "readInt32 (CodedInputData oData 0 (length oData)) = (h, t)" by fastforce
  note f = safe_readD [OF c(1) in_wf_new h]
  obtain e d' s' where "while_not_at_end isAtEnd (push_back readString) [] t = Some (e, d', s')"
    "e \<noteq> Some MemoryFault"
    using str.loop.decode_ends [OF f(2), of "[]"] by blast
  with h f(1) have "\<exists>r. decodeVector decodeOneVector_strings oData = Some r \<and> r \<noteq> Inl MemoryFault"
    by (cases h; cases e) (auto simp: decodeVector_def decodeOneVector_strings_def)
  ultimately show ?thesis by blast
qed

section \<open>The key-value map of a store\<close>

text \<open>C24. Encoding a list of key-value pairs and decoding the bytes as a map gives, for every key, a
  holder through which the last value stored under that key is found; a key whose last value is
  empty is absent, and pairs with the empty key are left out by the encoder.\<close>

theorem map_roundtrip:
  assumes "\<forall>kv \<in> set vec. length (fst kv) < 65526 \<and> length (snd kv) < 2 ^ 31"
    and "length (enc_log vec) < 2 ^ 32 - 10"
  shows "\<exists>bs m. (\<forall>junk. encodeDataWithObject_MMKVVector junk vec = Inr bs) \<and>
    (\<forall>dic. decodeMap dic bs 0 = Some (Inr m)) \<and>
    contents bs m = log_contents (filter (\<lambda>kv. fst kv \<noteq> []) vec)"
proof -
  let ?es = "filter (\<lambda>kv. fst kv \<noteq> []) vec"
  let ?bs = "framed (enc_log ?es)" and ?h = "enc_uint32 (word_of_nat (length (enc_log ?es)))"
  have le: "length (enc_log ?es) \<le> length (enc_log vec)" by (induction vec) auto
  have v: "\<forall>kv \<in> set ?es. valid_entry kv \<and> length (fst kv) < 65526"
    using assms(1) by (auto simp: valid_entry_def short_def)
  have h: "length ?h \<le> 5" using length_varint_u32 by (simp add: enc_uint32_def)
  have a: "addressable_log (length ?h) ?es"
    using v le h assms(2) by (intro addressable_logI) auto
  have "decodeMap_block decodeMap_entry 0 d (CodedInputData ?bs 0 (length ?bs)) =
      Some (None, run_steps enc_entry holder_step (length ?h) ?es d)" for d
    unfolding framed_def using v by (intro decodeMap_block_header [OF reads_readInt32_uint32]) auto
  then have "decodeMap dic ?bs 0 = Some (Inr (run_steps enc_entry holder_step (length ?h) ?es Map.empty))"
    for dic by (simp add: decodeMap_def decodeOneMap_def catch_swap_def)
  moreover have "contents ?bs (run_steps enc_entry holder_step (length ?h) ?es Map.empty) = log_contents ?es"
    using contents_run_steps [of ?es "length ?h" ?bs Map.empty] v a mem_read_append [of ?h "enc_log ?es"]
    by (simp add: framed_def log_contents_def)
  moreover have "encodeDataWithObject_MMKVVector junk vec = Inr ?bs" for junk
    using le assms(2) by (simp add: encodeDataWithObject_MMKVVector_eq encode_result_small)
  ultimately show ?thesis by blast
qed

lemma map_roundtrip_witness:
  "\<exists>bs m. (\<forall>junk. encodeDataWithObject_MMKVVector junk [([107], [1]), ([], [7]), ([107], [2]), ([108], [])] = Inr bs) \<and>
    (\<forall>dic. decodeMap dic bs 0 = Some (Inr m)) \<and>
    contents bs m = log_contents (filter (\<lambda>kv. fst kv \<noteq> []) [([107], [1]), ([], [7]), ([107], [2]), ([108], [])])"
  by (rule map_roundtrip) (simp_all add: enc_entry_def enc_data_def)

text \<open>C25. A store whose last append was cut short (a torn write): the greedy decoder returns exactly
  what the complete entries say, and the strict one leaves the caller's dictionary as it was. (The comment in
  \<open>MiniPBCoder.h\<close> promises an empty result instead, which it is only if the dictionary was empty; the callers of the
  engine clear it first.)\<close>

theorem torn_log_recovery:
  assumes "\<forall>kv \<in> set es. valid_entry kv \<and> length (fst kv) < 65526" and "valid_entry kv"
    and "0 < n" and "n < length (enc_entry kv)" and "reads readInt32 h x"
    and "length h + length (enc_log es) < 2 ^ 32"
  defines "oData \<equiv> h @ enc_log es @ take n (enc_entry kv)"
  shows "(\<exists>m. greedyDecodeMap Map.empty oData 0 = Some (Inr m) \<and> contents oData m = log_contents es) \<and>
    decodeMap dic oData 0 = Some (Inr dic)"
proof -
  obtain e where e: "e \<noteq> MemoryFault"
    "decodeMap_block decodeMap_entry 0 Map.empty (CodedInputData oData 0 (length oData)) =
      Some (Some e, run_steps enc_entry holder_step (length h) es Map.empty)"
    using decodeMap_block_torn [OF assms(5) _ assms(2-4), of es Map.empty] assms(1)
    unfolding oData_def by blast
  then have "decodeMap dic oData 0 = Some (Inr dic)"
    by (simp add: decodeMap_def decodeOneMap_def catch_swap_def)
  moreover have "mem_read oData (length h) (length (enc_log es)) = enc_log es"
    by (simp add: oData_def mem_read_def)
  then have "contents oData (run_steps enc_entry holder_step (length h) es Map.empty) = log_contents es"
    using contents_run_steps [of es "length h" oData Map.empty] addressable_logI [of es "length h"] assms(1,6)
    by (simp add: log_contents_def)
  with e have "\<exists>m. greedyDecodeMap Map.empty oData 0 = Some (Inr m) \<and> contents oData m = log_contents es"
    by (simp add: greedyDecodeMap_def decodeOneMap_def catch_greedy_def)
  ultimately show ?thesis by blast
qed

lemma torn_log_recovery_witness:
  "\<exists>m. greedyDecodeMap Map.empty (enc_uint32 0 @ enc_log [([107], [1])] @ take 3 (enc_entry ([107], [2]))) 0 =
      Some (Inr m) \<and>
    contents (enc_uint32 0 @ enc_log [([107], [1])] @ take 3 (enc_entry ([107], [2]))) m =
      log_contents [([107], [1])]"
  by (rule torn_log_recovery [OF _ _ _ _ reads_readInt32_uint32, THEN conjunct1])
    (simp_all add: valid_entry_def short_def enc_entry_def enc_data_def enc_uint32_def)

text \<open>C26. Decoding any bytes whatever as a map, from any position, greedily or not, ends and never
  reads outside the buffer.\<close>

theorem decode_map_total:
  "(\<exists>m. decodeMap dic oData pos = Some (Inr m)) \<and>
   (\<exists>m. greedyDecodeMap dic oData pos = Some (Inr m))"
proof -
  let ?s = "CodedInputData oData 0 (length oData)"
  have "safe_read (seekIn pos)"
    by (auto simp: safe_read_def seekIn_def in_wf_def in_frame_def)
  then have p: "safe_read (if pos \<noteq> 0 then seekIn pos else bindC readInt32 (\<lambda>_. returnC ()))"
    by (auto intro!: safe_intros consumes_imp_safe [OF consumes_varint32(1)])
  have b: "\<exists>e m. decodeMap_block decodeMap_entry pos d ?s = Some (e, m) \<and> e \<noteq> Some MemoryFault" for d
  proof -
    obtain r t where r: "(if pos \<noteq> 0 then seekIn pos else bindC readInt32 (\<lambda>_. returnC ())) ?s = (r, t)"
      by fastforce
    note f = safe_readD [OF p in_wf_new r]
    from posix.decode_ends [OF f(2), of d] show ?thesis
      using f(1) r by (cases r) (auto simp: decodeMap_block_def)
  qed
  have "\<exists>m. decodeMap dic oData pos = Some (Inr m)"
  proof -
    obtain e m where "decodeMap_block decodeMap_entry pos Map.empty ?s = Some (e, m)" "e \<noteq> Some MemoryFault"
      using b [of Map.empty] by blast
    then show ?thesis by (cases e) (simp_all add: decodeMap_def decodeOneMap_def catch_swap_def)
  qed
  moreover have "\<exists>m. greedyDecodeMap dic oData pos = Some (Inr m)"
    using b [of dic] by (auto simp: greedyDecodeMap_def decodeOneMap_def catch_greedy_def)
  ultimately show ?thesis ..
qed

text \<open>C27. Decoding gives a well-typed dictionary, whatever the bytes are: no key is empty, every holder stands for at least one
  byte and lies inside the buffer, so that reading its value gives as many bytes as the holder says. A dictionary that was
  well-typed stays so when more of the buffer is decoded into it.\<close>

theorem decoded_map_typed:
  assumes "map_typed (length oData) dic"
  shows "(\<exists>m. decodeMap dic oData pos = Some (Inr m) \<and> map_typed (length oData) m \<and>
      (\<forall>key h. m key = Some h \<longrightarrow> length (toMMBuffer oData h) = unat (valueSize h))) \<and>
    (\<exists>m. greedyDecodeMap dic oData pos = Some (Inr m) \<and> map_typed (length oData) m \<and>
      (\<forall>key h. m key = Some h \<longrightarrow> length (toMMBuffer oData h) = unat (valueSize h)))"
proof -
  have len: "length (toMMBuffer oData h) = unat (valueSize h)" if "map_typed (length oData) m" and "m key = Some h" for m key h
  proof -
    have "unat (offset h) + unat (computedKVSize h) + unat (valueSize h) \<le> length oData"
      using that by (simp add: map_typed_def holder_in_def)
    then show ?thesis by (simp only: toMMBuffer_def mem_read_def length_take length_drop)
  qed
  obtain e m where d: "decodeMap_block decodeMap_entry pos Map.empty (CodedInputData oData 0 (length oData)) = Some (e, m)"
    "e \<noteq> Some MemoryFault" "map_typed (length oData) m"
    using decodeMap_block_typed [OF map_typed_empty [of "length oData"], of pos] by blast
  obtain e' m' where g: "decodeMap_block decodeMap_entry pos dic (CodedInputData oData 0 (length oData)) = Some (e', m')"
    "e' \<noteq> Some MemoryFault" "map_typed (length oData) m'"
    using decodeMap_block_typed [OF assms, of pos] by blast
  have "decodeMap dic oData pos = Some (Inr (if e = None then m else dic))"
    using d(1,2) by (auto simp: decodeMap_def decodeOneMap_def catch_swap_def)
  moreover have "map_typed (length oData) (if e = None then m else dic)" using d(3) assms by simp
  moreover have "greedyDecodeMap dic oData pos = Some (Inr m')"
    using g(1,2) by (simp add: greedyDecodeMap_def decodeOneMap_def catch_greedy_def)
  ultimately show ?thesis using len g(3) by blast
qed

lemma decoded_map_typed_witness:
  "\<exists>m. greedyDecodeMap Map.empty [255, 1, 107, 1, 9, 200] 1 = Some (Inr m) \<and> map_typed 6 m"
proof -
  have l: "length [255, 1, 107, 1, 9, 200 :: byte] = 6" by simp
  have "map_typed (length [255, 1, 107, 1, 9, 200 :: byte]) Map.empty" by (rule map_typed_empty)
  from decoded_map_typed [OF this, of 1] show ?thesis unfolding l by blast
qed

text \<open>C28. A holder's distance from the start of its entry to the value has 16 bits. With a key of
  65532 bytes the distance wraps to zero: decoding the very bytes the encoder wrote gives a holder
  that reads the value from the start of the entry.\<close>

theorem holder_distance_wraps:
  assumes "length key = 65532" and "length value = 3" and "in_wf s"
    and "remaining s = enc_entry (key, value) @ rest"
  shows "fst (decodeMap_entry Map.empty s) = Inr [key \<mapsto>
      \<lparr>computedKVSize = 0, keySize = 65532, valueSize = 3, offset = word_of_nat (in_position s)\<rparr>]"
proof -
  have v: "valid_entry (key, value)" using assms(1,2) by (auto simp: valid_entry_def short_def)
  have "length (varint 65532) = 3"
    by (simp add: varint.simps)
  then have l: "length (enc_data key) = 65535"
    using assms(1) by (simp add: enc_data_def)
  have wrap: "(65536 :: u16) = 0" by simp
  have "value \<noteq> []" using assms(2) by auto
  then show ?thesis
    using decodeMap_entry_step [OF v assms(3,4), of Map.empty] l assms(1,2)
    by (simp add: holder_step_def entry_holder_def wrap)
qed

lemma holder_distance_wraps_witness:
  "fst (decodeMap_entry Map.empty (CodedInputData (enc_entry (replicate 65532 107, [1, 2, 3])) 0
       (length (enc_entry (replicate 65532 107, [1, 2, 3]))))) =
   Inr [replicate 65532 107 \<mapsto> \<lparr>computedKVSize = 0, keySize = 65532, valueSize = 3, offset = 0\<rparr>]"
proof -
  let ?e = "enc_entry (replicate 65532 107, [1, 2, 3])"
  have "remaining (CodedInputData ?e 0 (length ?e)) = ?e @ []"
    unfolding remaining_new by simp
  from holder_distance_wraps [OF _ _ in_wf_new this] show ?thesis
    by (simp add: CodedInputData_def)
qed

section \<open>Encryption\<close>

text \<open>C29. AES decryption with the inverse key schedule inverts AES encryption with the key schedule, for
  every block, key and key length, whatever the schedule's memory held before.\<close>

theorem aes_block_inverts:
  assumes "bits = 128 \<or> bits = 192 \<or> bits = 256" and "60 \<le> length (rd_key sched)" and "length block = 16"
  shows "AES_decrypt (AES_encrypt block (snd (AES_set_encrypt_key userKey bits sched)))
      (snd (AES_set_decrypt_key userKey bits sched)) = block \<and>
    fst (AES_set_encrypt_key userKey bits sched) = 0"
  using AES_decrypt_encrypt [OF assms] AES_set_encrypt_key_ok(1) [OF assms(1)] by blast

lemma aes_block_inverts_witness:
  "AES_decrypt (AES_encrypt (replicate 16 7) (snd (AES_set_encrypt_key (replicate 16 1) 128 zero_AES_KEY)))
    (snd (AES_set_decrypt_key (replicate 16 1) 128 zero_AES_KEY)) = replicate 16 7"
  using aes_block_inverts [of 128 zero_AES_KEY "replicate 16 7" "replicate 16 1"]
  by (simp add: zero_AES_KEY_def)

text \<open>C30. The cipher is a stream: text encrypted by successive calls, in pieces of any sizes, is given
  back by decrypting in pieces of any other sizes, starting from the same status, and both ends reach
  the same status. No call fails.\<close>

theorem cipher_stream_inverts:
  assumes "cipher_ok c"
  shows "\<exists>code d. in_pieces encrypt plain c = (Inr code, d) \<and> cipher_ok d \<and>
    length code = length (concat plain) \<and>
    (\<forall>pieces. concat pieces = code \<longrightarrow> in_pieces decrypt pieces c = (Inr (concat plain), d))"
proof -
  let ?key = "m_key c"
  have r: "cipher_ready ?key c" using assms by (simp add: cipher_ok_def)
  obtain code d where run: "crypt_run fb_enc ?key (concat plain) c = (code, d)" by fastforce
  have "in_pieces encrypt plain c = (Inr code, d)"
    using enc_stream.in_pieces [OF r] run by (simp add: encrypt_run [OF r])
  moreover have "in_pieces decrypt pieces c = (Inr (concat plain), d)" if "concat pieces = code" for pieces
    using dec_stream.in_pieces [OF r] crypt_run_inverts [OF r run] that by (simp add: decrypt_run [OF r])
  ultimately show ?thesis
    using crypt_run_ok [OF assms run] crypt_run_ready(2) [OF r run] by blast
qed

lemma cipher_stream_inverts_witness:
  "\<exists>code d. in_pieces encrypt [[1, 2, 3], [], [4]] (AESCrypt_new [9] [] True) = (Inr code, d) \<and>
    in_pieces decrypt [take 2 code, drop 2 code] (AESCrypt_new [9] [] True) = (Inr [1, 2, 3, 4], d)"
proof -
  have "cipher_ok (AESCrypt_new [9] [] True)" by (rule AESCrypt_new_ok) simp
  from cipher_stream_inverts [OF this, of "[[1, 2, 3], [], [4]]"] obtain code d where
    "in_pieces encrypt [[1, 2, 3], [], [4]] (AESCrypt_new [9] [] True) = (Inr code, d)"
    "\<forall>pieces. concat pieces = code \<longrightarrow> in_pieces decrypt pieces (AESCrypt_new [9] [] True) =
      (Inr (concat [[1, 2, 3], [], [4]]), d)"
    by blast
  moreover have "concat [take 2 code, drop 2 code] = code" by simp
  ultimately show ?thesis by fastforce
qed

text \<open>C31. \<open>statusBeforeDecrypt\<close> undoes: given the bytes a call decrypted and what they became, it
  returns the status from before the call, so that a clone with that status decrypts them again; the
  object itself goes on decrypting where it was.\<close>

theorem status_before_decrypt:
  assumes "cipher_ok c" and "decrypt code c = (Inr plain, d)" and "code \<noteq> []"
  shows "\<exists>d'. statusBeforeDecrypt code plain st d = (getCurStatus c, d') \<and> cipher_ok d' \<and>
    getCurStatus d' = getCurStatus d \<and>
    fst (decrypt code (cloneWithStatus (getCurStatus c) d')) = Inr plain"
proof -
  let ?key = "m_key c"
  have r: "cipher_ready ?key c" using assms(1) by (simp add: cipher_ok_def)
  have run: "crypt_run fb_dec ?key code c = (plain, d)"
    using assms(2) decrypt_run [OF r, of code] by (simp split: prod.splits)
  have d: "m_aesKey d = m_aesKey c" "m_isAES256 d = m_isAES256 c"
    using run by (auto simp: crypt_run_def split: prod.splits)
  note s = statusBeforeDecrypt_decrypt [OF assms(1) run assms(3), of st]
  obtain r' where r': "snd (statusBeforeDecrypt code plain st d) = d\<lparr>m_aesRollbackKey := r'\<rparr>" using s(2) by blast
  have "cipher_ready ?key (cloneWithStatus (getCurStatus c) (d\<lparr>m_aesRollbackKey := r'\<rparr>))"
    by (rule clone_ready [OF r]) (simp_all add: d)
  then have "fst (decrypt code (cloneWithStatus (getCurStatus c) (d\<lparr>m_aesRollbackKey := r'\<rparr>))) = Inr plain"
    using clone_run [OF r, of "d\<lparr>m_aesRollbackKey := r'\<rparr>" fb_dec code] run d
    by (simp add: decrypt_run case_prod_beta)
  with s r' show ?thesis
    by (intro exI [of _ "d\<lparr>m_aesRollbackKey := r'\<rparr>"]) (simp add: prod_eq_iff getCurStatus_def)
qed

lemma status_before_decrypt_witness:
  "\<exists>plain d d'. decrypt [1, 2, 3] (AESCrypt_new [9] [] False) = (Inr plain, d) \<and>
    statusBeforeDecrypt [1, 2, 3] plain \<lparr>st_number = 0, st_vector = []\<rparr> d = (\<lparr>st_number = 0, st_vector = 9 # replicate 15 0\<rparr>, d')"
proof -
  let ?c = "AESCrypt_new [9] [] False"
  have c: "cipher_ok ?c" by (rule AESCrypt_new_ok) simp
  have "getCurStatus ?c = \<lparr>st_number = 0, st_vector = 9 # replicate 15 0\<rparr>"
    by (simp add: AESCrypt_new_def getCurStatus_def resetIV_def getMaxKeyLength_def mem_write_def Let_def)
  moreover obtain plain d where "decrypt [1, 2, 3] ?c = (Inr plain, d)"
    using decrypt_run [of "m_key ?c" ?c "[1, 2, 3]"] c by (auto simp: cipher_ok_def split: prod.splits)
  ultimately show ?thesis
    using status_before_decrypt [OF c, of "[1, 2, 3]" plain d "\<lparr>st_number = 0, st_vector = []\<rparr>"] by auto
qed

text \<open>C32. The random number that is written in front of the log as its encoded size takes exactly as
  many bytes as were asked for, whatever \<open>rand\<close> returns.\<close>

theorem size_holder_fits:
  assumes "1 \<le> n" and "n \<le> 5"
  shows "unat (pbRawVarint32Size (randomItemSizeHolder rand n)) = n \<and>
    length (enc_uint32 (randomItemSizeHolder rand n)) = n"
  using randomItemSizeHolder_size [of n rand] assms
  by (simp add: enc_uint32_def unat_pbRawVarint32Size)

lemma size_holder_fits_witness:
  "length (enc_uint32 (randomItemSizeHolder 1234567890 4)) = 4"
  using size_holder_fits [of 4 1234567890] by simp

text \<open>C33. Decoding an encrypted store: if a header and a log were encrypted from some status of the
  cipher, the decrypting decoder, started with a cipher in that status, gives a dictionary through
  which every key is found with exactly the value the log gives it, however the values are held (in
  the holder, in memory, or in the file behind a saved status), and it leaves the cipher in the status
  in which the log was written, ready for the next append. What fresh memory holds does not matter.\<close>

theorem encrypted_map_roundtrip:
  assumes "cipher_ok c" and "encrypt (enc_uint32 w @ enc_log es) c = (Inr code, c')"
    and "\<forall>kv \<in> set es. valid_entry kv \<and> length (fst kv) < 2 ^ 16" and "length code < 2 ^ 32"
  shows "\<exists>d e. decodeMapCrypt junk dic code c 0 = Some (Inr d, e) \<and> getCurStatus e = getCurStatus c' \<and>
    (\<forall>key. map_option (toMMBuffer_crypt code e) (d key) = map_option Inr (log_contents es key))"
proof -
  from decodeMapCrypt_block_header [OF assms(1,2) reads_readInt32_uint32 assms(3,4), of Map.empty Map.empty junk]
  show ?thesis
    by (auto simp: decodeMapCrypt_def decodeOneMapCrypt_def catch_swap_def shows_values_def log_contents_def)
qed

lemma encrypted_map_roundtrip_witness:
  "\<exists>code c' d e. encrypt (enc_uint32 5 @ enc_log [([107], [1, 2]), ([108], replicate 300 7)]) (AESCrypt_new [9] [] False) =
      (Inr code, c') \<and>
    decodeMapCrypt (\<lambda>_. 0) Map.empty code (AESCrypt_new [9] [] False) 0 = Some (Inr d, e) \<and>
    map_option (toMMBuffer_crypt code e) (d [108]) = Some (Inr (replicate 300 7))"
proof -
  let ?c = "AESCrypt_new [9] [] False" and ?es = "[([107], [1, 2]), ([108 :: byte], replicate 300 (7 :: byte))]"
  have c: "cipher_ok ?c" by (rule AESCrypt_new_ok) simp
  obtain code c' where e: "encrypt (enc_uint32 5 @ enc_log ?es) ?c = (Inr code, c')"
    by (rule encrypt_returns [OF c])
  have "length (varint 300) = 2" by (simp add: varint.simps)
  then have "length code < 2 ^ 32"
    using view_from_encrypt(3) [OF c e] by (simp add: enc_uint32_def enc_entry_def enc_data_def)
  moreover have "\<forall>kv \<in> set ?es. valid_entry kv \<and> length (fst kv) < 2 ^ 16"
    by (simp add: valid_entry_def short_def)
  ultimately obtain d f where "decodeMapCrypt (\<lambda>_. 0) Map.empty code ?c 0 = Some (Inr d, f)"
    "\<forall>key. map_option (toMMBuffer_crypt code f) (d key) = map_option Inr (log_contents ?es key)"
    using encrypted_map_roundtrip [OF c e, of "\<lambda>_. 0" Map.empty] by blast
  moreover have "log_contents ?es [108] = Some (replicate 300 7)"
    by (simp add: log_contents_def log_step_def)
  ultimately show ?thesis using e by (metis option.simps(9))
qed

text \<open>C34. Reading on: if more pairs were appended to the encrypted file behind the bytes that a store
  has decoded already, decoding from there adds them to its dictionary; the holders it had still find
  their values.\<close>

theorem encrypted_log_continues:
  assumes "cipher_ok c" and "encrypt (enc_log es) c = (Inr code, c')" and "0 < length pre"
    and "unat (m_number c) = length pre mod 16"
    and "\<forall>kv \<in> set es. valid_entry kv \<and> length (fst kv) < 2 ^ 16" and "length (pre @ code) < 2 ^ 32"
    and "\<forall>key. map_option (toMMBuffer_crypt (pre @ code) c) (dic key) = map_option Inr (m key)"
  shows "\<exists>d e. greedyDecodeMapCrypt junk dic (pre @ code) c (length pre) = Some (Inr d, e) \<and>
    getCurStatus e = getCurStatus c' \<and>
    (\<forall>key. map_option (toMMBuffer_crypt (pre @ code) e) (d key) = map_option Inr (fold log_step es m key))"
proof -
  have "shows_values (pre @ code) c dic m" using assms(7) by (simp add: shows_values_def)
  from decodeMapCrypt_block_seek [OF assms(1-6) this, of junk] show ?thesis
    by (auto simp: greedyDecodeMapCrypt_def decodeOneMapCrypt_def catch_greedy_def shows_values_def)
qed

lemma encrypted_log_continues_witness:
  "\<exists>code c' d e. encrypt (enc_log [([107], [1, 2])]) (AESCrypt_new [9] [] True) = (Inr code, c') \<and>
    greedyDecodeMapCrypt (\<lambda>_. 0) Map.empty (replicate 16 0 @ code) (AESCrypt_new [9] [] True) 16 = Some (Inr d, e) \<and>
    map_option (toMMBuffer_crypt (replicate 16 0 @ code) e) (d [107]) = Some (Inr [1, 2])"
proof -
  let ?c = "AESCrypt_new [9] [] True" and ?es = "[([107 :: byte], [1, 2 :: byte])]" and ?pre = "replicate 16 (0 :: byte)"
  have c: "cipher_ok ?c" by (rule AESCrypt_new_ok) simp
  obtain code c' where e: "encrypt (enc_log ?es) ?c = (Inr code, c')"
    by (rule encrypt_returns [OF c])
  have "length (?pre @ code) < 2 ^ 32"
    using view_from_encrypt(3) [OF c e] by (simp add: enc_entry_def enc_data_def)
  moreover have "\<forall>kv \<in> set ?es. valid_entry kv \<and> length (fst kv) < 2 ^ 16"
    by (simp add: valid_entry_def short_def)
  moreover have "unat (m_number ?c) = length ?pre mod 16"
    by (simp add: AESCrypt_new_def resetIV_def Let_def)
  ultimately obtain d f where "greedyDecodeMapCrypt (\<lambda>_. 0) Map.empty (?pre @ code) ?c (length ?pre) = Some (Inr d, f)"
    "\<forall>key. map_option (toMMBuffer_crypt (?pre @ code) f) (d key) = map_option Inr (fold log_step ?es Map.empty key)"
    using encrypted_log_continues [OF c e, of ?pre Map.empty Map.empty "\<lambda>_. 0"] by auto
  moreover have "fold log_step ?es Map.empty [107] = Some [1, 2]" by (simp add: log_step_def)
  ultimately show ?thesis using e by (metis option.simps(9) length_replicate)
qed

text \<open>C35. The exclusive lock excludes. In every state that any number of processes reach by locking,
  trying, unlocking and destroying in any interleaving of their system calls: while a process counts an
  exclusive lock, the kernel has given it the exclusive lock, no other process holds anything, and no
  other process counts an exclusive lock. Requests may fail at any time, and a failing request may even
  lose the lock held before; only releases (giving up, or weakening to the shared lock) succeed.\<close>

theorem exclusive_lock_excludes:
  assumes "lock_service K" and "releases_succeed K" and "\<And>p. fresh (ls p)"
    and "reachable K ls (h, ps)"
    and "p \<noteq> q" and "ps p = Idle l" and "0 < m_exclusiveLockCount l"
  shows "h p = Exclusive \<and> h q = Unlocked \<and> (\<forall>l'. ps q = Idle l' \<longrightarrow> m_exclusiveLockCount l' = 0)"
proof -
  note inv = reachable_nominal [OF assms(4,1-3)]
  from inv(2) [of p] have p: "h p = Exclusive"
    using assms(6,7) by (auto simp: process_ok_def nominal_def counted_mode_def)
  then have q: "h q = Unlocked"
    using inv(1) assms(5) by (auto simp: table_ok_def)
  show ?thesis
    using p q inv(2) [of q] by (auto simp: process_ok_def nominal_def counted_mode_def split: if_splits)
qed

theorem exclusive_lock_excludes_witness:
  "\<exists>h ps l. reachable plain_kernel (\<lambda>_. FileLock_new 3 False False) (h, ps) \<and>
     ps True = Idle l \<and> 0 < m_exclusiveLockCount l \<and> h True = Exclusive \<and> h False = Unlocked"
proof -
  have ex: "\<exists>h ps l. perform_all two_locks (initial (\<lambda>_. FileLock_new 3 False False)) = Some (h, ps) \<and>
      ps True = Idle l \<and> 0 < m_exclusiveLockCount l"
    by (simp add: two_locks_def initial_def FileLock_new_def request_program_def lock_program_defs isFileLockValid_def
        target_def blocking_def releases_def grantable_def all_bool_eq ex_bool_eq)
  then obtain h ps l where r: "perform_all two_locks (initial (\<lambda>_. FileLock_new 3 False False)) = Some (h, ps)"
    and l: "ps True = Idle l" "0 < m_exclusiveLockCount l" by blast
  have "h True = Exclusive \<and> h False = Unlocked \<and> (\<forall>l'. ps False = Idle l' \<longrightarrow> m_exclusiveLockCount l' = 0)"
    by (rule exclusive_lock_excludes [OF lock_service_plain_kernel releases_succeed_plain_kernel _
          perform_reachable [OF r] _ l]) (simp_all add: fresh_def FileLock_new_def)
  then show ?thesis using perform_reachable [OF r] l by blast
qed

text \<open>C36. What the counters tell, for locks made with \<open>flock\<close>. In every run in which no release of a lock fails, the
  kernel has given a process, between two operations, the lock its counters stand for (exclusive, else shared, else
  none), or it counts a shared lock that it has lost: \<open>flock\<close> may fail to get it back after a refused
  upgrade, for example when a signal interrupts it (lemma \<open>failed_recovery_miscounts\<close>). In every run in which also no
  request for the shared lock that may wait fails, the two are the same, so that readers and a writer exclude each
  other also by their counters. Of the kernel it is only assumed that its lock table is right.\<close>

theorem counters_agree:
  assumes "lock_service K" and "\<And>p. fresh (ls p)" and "\<And>p. \<not> m_useFcntlLock (ls p)"
    and "reachable (releasing K) ls (h, ps)" and "ps p = Idle l"
  shows "(h p = counted_mode l \<or> (counted_mode l = Shared \<and> h p = Unlocked)) \<and>
    (reachable (recovering K) ls (h, ps) \<longrightarrow> h p = counted_mode l \<and>
      (0 < m_exclusiveLockCount l \<longrightarrow>
         (\<forall>q l'. q \<noteq> p \<and> ps q = Idle l' \<longrightarrow> m_sharedLockCount l' = 0 \<and> m_exclusiveLockCount l' = 0)))"
proof (intro conjI impI allI)
  show "h p = counted_mode l \<or> (counted_mode l = Shared \<and> h p = Unlocked)"
    using reachable_nominal(2) [OF assms(4) releasing_ok(1) [OF assms(1)] releasing_ok(2) assms(2), of p] assms(5)
    by (simp add: process_ok_def nominal_def)
  assume r: "reachable (recovering K) ls (h, ps)"
  note ok = recovering_ok(1) [OF assms(1)] recovering_ok(2,3)
  note agrees = reachable_agrees [OF r ok assms(2,3)]
  show p: "h p = counted_mode l"
    using agrees [of p] assms(5) by (simp add: process_ok_def)
  fix q l' assume x: "0 < m_exclusiveLockCount l" and q: "q \<noteq> p \<and> ps q = Idle l'"
  have "h q = Unlocked"
    using reachable_nominal(1) [OF r ok(1,2) assms(2)] p x q by (simp add: table_ok_def counted_mode_def) metis
  then show "m_sharedLockCount l' = 0" "m_exclusiveLockCount l' = 0"
    using agrees [of q] q by (auto simp: process_ok_def counted_mode_def split: if_splits)
qed

theorem counters_agree_witness:
  "\<exists>h ps l. reachable plain_kernel (\<lambda>_. FileLock_new 3 False False) (h, ps) \<and>
     ps True = Idle l \<and> 0 < m_exclusiveLockCount l \<and> h True = counted_mode l"
proof -
  have ex: "\<exists>h ps l. perform_all upgrade_schedule (initial (\<lambda>_. FileLock_new 3 False False)) = Some (h, ps) \<and>
      ps True = Idle l \<and> 0 < m_exclusiveLockCount l"
    by (simp add: upgrade_schedule_def initial_def FileLock_new_def request_program_def lock_program_defs isFileLockValid_def
        target_def blocking_def releases_def grantable_def all_bool_eq ex_bool_eq)
  then obtain h ps l where r: "perform_all upgrade_schedule (initial (\<lambda>_. FileLock_new 3 False False)) = Some (h, ps)"
    and l: "ps True = Idle l" "0 < m_exclusiveLockCount l" by blast
  note reach = perform_reachable [OF r]
  have "h True = counted_mode l"
    using counters_agree [OF lock_service_plain_kernel, of "\<lambda>_. FileLock_new 3 False False" h ps True l] reach l(1)
    by (simp add: releasing_plain_kernel recovering_plain_kernel fresh_def FileLock_new_def)
  then show ?thesis using reach l by blast
qed

text \<open>C37. With locks made with \<open>fcntl\<close> the counters need not agree: an upgrade that may not wait gives up
  the shared lock, and gets it back only if that does not wait either. Here both processes hold the
  shared lock, the second tries to upgrade, and the first upgrades in between: at the end the first has
  the exclusive lock and the second, which holds nothing, still counts a shared lock.\<close>

theorem shared_lock_not_recovered:
  "\<exists>h ps l l'. reachable plain_kernel (\<lambda>_ :: bool. FileLock_new 3 True False) (h, ps) \<and>
     ps True = Idle l \<and> m_exclusiveLockCount l = 1 \<and> h True = Exclusive \<and>
     ps False = Idle l' \<and> m_sharedLockCount l' = 1 \<and> m_exclusiveLockCount l' = 0 \<and> h False = Unlocked"
proof -
  have "\<exists>h ps l l'. perform_all lost_shared_schedule (initial (\<lambda>_. FileLock_new 3 True False)) = Some (h, ps) \<and>
     ps True = Idle l \<and> m_exclusiveLockCount l = 1 \<and> h True = Exclusive \<and>
     ps False = Idle l' \<and> m_sharedLockCount l' = 1 \<and> m_exclusiveLockCount l' = 0 \<and> h False = Unlocked"
    by (simp add: lost_shared_schedule_def initial_def FileLock_new_def request_program_def lock_program_defs
        isFileLockValid_def target_def blocking_def releases_def grantable_def all_bool_eq ex_bool_eq)
  then show ?thesis using perform_reachable by blast
qed

text \<open>C38. Upgrading does not deadlock. In every reachable state in which each process either holds
  nothing between operations or is in a call that may wait, and some process is in such a call, the
  kernel can grant one of the calls: a process that waits holds nothing, or asks to weaken its
  exclusive lock.\<close>

theorem upgrade_no_deadlock:
  assumes "lock_service K" and "releases_succeed K" and "\<And>p. fresh (ls p)"
    and "reachable K ls (h, ps)"
    and "\<And>p. (\<exists>l. ps p = Idle l \<and> counted_mode l = Unlocked) \<or> (\<exists>c k. ps p = Busy (Call c k) \<and> blocking c)"
    and "ps p = Busy (Call c k)"
  shows "\<exists>q c k. ps q = Busy (Call c k) \<and> grantable h q (target c)"
proof (cases "\<exists>q c k. ps q = Busy (Call c k) \<and> releases c (h q)")
  case True
  then obtain q c k where q: "ps q = Busy (Call c k)" "releases c (h q)" by blast
  have "table_ok h" using reachable_nominal(1) [OF assms(4,1-3)] by simp
  with q(2) have "grantable h q (target c)"
    by (auto simp: releases_def grantable_def table_ok_def split: lock_mode.splits)
  with q(1) show ?thesis by blast
next
  case False
  have "h q = Unlocked" for q
    using reachable_nominal(2) [OF assms(4,1-3), of q] assms(5) [of q] False
    by (fastforce simp: process_ok_def nominal_def waits_empty_handed_def)
  then have "grantable h p (target c)"
    by (auto simp: grantable_def split: lock_mode.splits)
  with assms(6) show ?thesis by blast
qed

theorem upgrade_no_deadlock_witness:
  "\<exists>h ps. reachable plain_kernel (\<lambda>_ :: bool. FileLock_new 3 False False) (h, ps) \<and>
     (\<exists>c k. ps True = Busy (Call c k)) \<and> (\<exists>c k. ps False = Busy (Call c k)) \<and>
     (\<exists>q c k. ps q = Busy (Call c k) \<and> grantable h q (target c))"
proof -
  have "\<exists>h ps. perform_all both_upgrade_schedule (initial (\<lambda>_. FileLock_new 3 False False)) = Some (h, ps) \<and>
     (\<exists>c k. ps True = Busy (Call c k) \<and> blocking c) \<and> (\<exists>c k. ps False = Busy (Call c k) \<and> blocking c)"
    by (simp add: both_upgrade_schedule_def initial_def FileLock_new_def request_program_def lock_program_defs
        isFileLockValid_def target_def blocking_def releases_def grantable_def all_bool_eq ex_bool_eq)
  then obtain h ps c k c' k' where r: "perform_all both_upgrade_schedule (initial (\<lambda>_. FileLock_new 3 False False)) = Some (h, ps)"
    and t: "ps True = Busy (Call c k)" "blocking c" and f: "ps False = Busy (Call c' k')" "blocking c'" by blast
  have "\<exists>q c k. ps q = Busy (Call c k) \<and> grantable h q (target c)"
    by (rule upgrade_no_deadlock [OF lock_service_plain_kernel releases_succeed_plain_kernel _
          perform_reachable [OF r] _ t(1)]) (simp add: fresh_def FileLock_new_def, metis t f)
  then show ?thesis using perform_reachable [OF r] t f by blast
qed

text \<open>C39. A request that returns true has counted one lock of its kind, and one that returns false has
  counted none and had no lock of that kind before, whatever the kernel answers.\<close>

theorem lock_counts:
  assumes "nominal l m"
  shows "wp released (\<lambda>_ _. True) (doLock t wait b l)
    (\<lambda>(ret, _, l') m'. nominal l' m' \<and>
       (if ret then isFileLockValid l \<and> taken t l l'
        else same_counts l l' \<and> (isFileLockValid l \<longrightarrow> lock_count t l = 0))) m"
  by (rule wp_mono [OF doLock_counts [OF assms]]) auto

theorem lock_counts_witness:
  "wp released (\<lambda>_ _. True) (doLock ExclusiveLockType False (Some False) ((FileLock_new 3 False False)\<lparr>m_sharedLockCount := 2\<rparr>))
    (\<lambda>(ret, _, l') m'. ret \<longrightarrow> m_sharedLockCount l' = 2 \<and> m_exclusiveLockCount l' = 1) Shared"
proof -
  have "nominal ((FileLock_new 3 False False)\<lparr>m_sharedLockCount := 2\<rparr>) Shared"
    by (simp add: nominal_def counted_mode_def FileLock_new_def)
  from lock_counts [OF this, of ExclusiveLockType False "Some False"] show ?thesis
    by (rule wp_mono) (auto simp: taken_def FileLock_new_def)
qed

text \<open>C40. Scopes are balanced: a block under any nesting of scoped locks ends with the counters it started
  with, also when some of the locks could not be taken, whose scopes unlock all the same.\<close>

theorem scopes_balanced:
  assumes "nominal l m"
  shows "wp released (\<lambda>_ _. True) (nested_scopes locks l) (\<lambda>l' m'. nominal l' m' \<and> same_counts l l') m"
  by (rule wp_mono [OF nested_scopes_counts [OF assms]]) auto

theorem scopes_balanced_witness:
  "wp released (\<lambda>_ _. True)
     (nested_scopes [InterProcessLock_new SharedLockType, InterProcessLock_new ExclusiveLockType] (FileLock_new 3 True False))
     (\<lambda>l' m'. m_sharedLockCount l' = 0 \<and> m_exclusiveLockCount l' = 0) Unlocked"
proof -
  have "nominal (FileLock_new 3 True False) Unlocked"
    by (simp add: nominal_def counted_mode_def FileLock_new_def)
  from scopes_balanced [OF this] show ?thesis
    by (rule wp_mono) (auto simp: same_counts_def FileLock_new_def)
qed


text \<open>C9. Setting a value updates the map. On a loaded store that holds a log, a set either returns true and
  the store then holds a log whose contents are the old ones with the key updated; or it returns false,
  which it only does if there is a size limit or the operating system refuses something, and then as long
  as the file is still mapped the store holds what it held. All on the bytes of the file: the invariant
  \<open>store_ok\<close> says that header and log are in the file, that the dictionary locates their values, and that
  the size and the checksum in the meta file are those of the log.\<close>

theorem set_updates_map:
  assumes "env_ok E" and "store_ok E s hdr es" and "\<not> m_enableKeyExpire s" and "\<not> m_enableCompareBeforeSet s"
    and "valid_set key data isDataHolder" and "below_4GB es (key, stored_value data isDataHolder)"
    and "isDataHolder \<or> data \<noteq> []" and "copies_apart s key"
  shows "\<exists>b s'. setDataForKey E iv data key isDataHolder s = (Inr b, s') \<and> same_settings s s' \<and>
    (b \<longrightarrow> (\<exists>hdr' es'. store_ok E s' hdr' es' \<and>
       log_contents es' = (log_contents es)(key \<mapsto> stored_value data isDataHolder))) \<and>
    (\<not> b \<longrightarrow> (m_itemSizeLimit s \<noteq> 0 \<or> f_io (m_file s) \<noteq> []) \<and>
       (isFileValid (m_file s') \<longrightarrow> (\<exists>hdr' es'. store_ok E s' hdr' es' \<and> log_contents es' = log_contents es)))"
  using setDataForKey_run [OF assms, of iv] unfolding set_outcome_def is_set_def unchanged_def
  by (elim disjE exE conjE) (auto 4 4)

lemma set_updates_map_witness:
  "\<exists>s' hdr' es'. setDataForKey sample_env (replicate 16 0) [7, 8] [108] False (small_store False 100) = (Inr True, s') \<and>
    store_ok sample_env s' hdr' es' \<and> log_contents es' = [[107] \<mapsto> [4], [108] \<mapsto> [7, 8]]"
proof -
  let ?s = "small_store False 100"
  have v: "valid_set [108] [7, 8] False" by (simp add: valid_set_def stored_value_def short_def)
  have below: "below_4GB small_log ([108], stored_value [7, 8] False)"
    by (rule small_log_below) (simp add: enc_entry_def enc_data_def stored_value_def)
  have "m_dic ?s [107] \<noteq> None" using dic_of_None [of small_log "[107]"] by (simp add: small_log_contents)
  moreover have "[[108] \<mapsto> h] [107 :: byte] = None" for h :: KeyValueHolder by simp
  moreover have n: "\<not> m_enableKeyExpire ?s" "\<not> m_enableCompareBeforeSet ?s" "False \<or> [7, 8 :: byte] \<noteq> []" by simp_all
  ultimately have "copies_apart ?s [108]" unfolding copies_apart_def by metis
  from set_updates_map [OF sample_env_ok small_store_ok n(1,2) v below n(3) this, of "replicate 16 0"]
  obtain b s' where r: "setDataForKey sample_env (replicate 16 0) [7, 8] [108] False ?s = (Inr b, s')"
    "b \<longrightarrow> (\<exists>hdr' es'. store_ok sample_env s' hdr' es' \<and>
       log_contents es' = (log_contents small_log)([108] \<mapsto> stored_value [7, 8] False))"
    "\<not> b \<longrightarrow> m_itemSizeLimit ?s \<noteq> 0 \<or> f_io (m_file ?s) \<noteq> []" by blast
  have "(log_contents small_log)([108] \<mapsto> stored_value [7, 8] False) = [[107] \<mapsto> [4], [108] \<mapsto> [7, 8]]"
    unfolding small_log_contents by (simp add: stored_value_def fun_eq_iff)
  moreover from r(3) have b by simp
  ultimately show ?thesis using r(1,2) by metis
qed

text \<open>C10. Removing a key deletes it from the map: the call returns whether the key was there, and the store
  then holds a log without it; or it returns false and the store holds what it held.\<close>

theorem remove_deletes:
  assumes "env_ok E" and "store_ok E s hdr es" and "\<not> m_enableKeyExpire s"
    and "valid_set key [] False" and "below_4GB es (key, [])"
  shows "\<exists>b s'. removeValueForKey E iv key s = (Inr b, s') \<and> same_settings s s' \<and>
    ((b = (log_contents es key \<noteq> None) \<and>
       (\<exists>hdr' es'. store_ok E s' hdr' es' \<and> log_contents es' = (log_contents es)(key := None))) \<or>
     (\<not> b \<and> (m_itemSizeLimit s \<noteq> 0 \<or> f_io (m_file s) \<noteq> []) \<and>
       (isFileValid (m_file s') \<longrightarrow> (\<exists>hdr' es'. store_ok E s' hdr' es' \<and> log_contents es' = log_contents es))))"
  by (rule removeValueForKey_run [OF assms, of iv]) (auto simp: unchanged_def)

lemma remove_deletes_witness:
  "\<exists>s' hdr' es'. removeValueForKey sample_env (replicate 16 0) [107] (small_store False 100) = (Inr True, s') \<and>
    store_ok sample_env s' hdr' es' \<and> log_contents es' = [[108] \<mapsto> [3]]"
proof -
  have v: "valid_set [107] [] False" by (simp add: valid_set_def stored_value_def short_def)
  have below: "below_4GB small_log ([107], [])"
    by (rule small_log_below) (simp add: enc_entry_def enc_data_def)
  have del: "[[108 :: byte] \<mapsto> [3 :: byte], [107] \<mapsto> [4]]([107] := None) = [[108] \<mapsto> [3]]" by (simp add: fun_eq_iff)
  from remove_deletes [OF sample_env_ok small_store_ok _ v below, of False 100 "replicate 16 0"]
  obtain b s' hdr' es' where r: "removeValueForKey sample_env (replicate 16 0) [107] (small_store False 100) = (Inr b, s')"
    and b: "b = (log_contents small_log [107] \<noteq> None)" "store_ok sample_env s' hdr' es'"
      "log_contents es' = (log_contents small_log)([107] := None)" by auto
  have "b = True" by (simp add: b(1) small_log_contents)
  then show ?thesis using r b(2,3) unfolding small_log_contents del by blast
qed

text \<open>C5. A store refines a finite map: whatever sequence of sets, removals and gets is asked of a store that
  processes share, on an operating system that refuses nothing, every reply is that of the map, and in
  the end the store holds the map's contents. The only bound is that all that is appended stays below
  4 GB.\<close>

theorem requests_refine_map:
  assumes "env_ok E" and "plain_settings s" and "store_ok E s hdr es"
    and "\<forall>q \<in> set qs. valid_request q"
    and "length (enc_log es) + sum_list (map entry_weight qs) < 2 ^ 32 - 10"
  shows "\<exists>s' u hdr' es'. serve_all (serve E iv) qs s = (Inr (fst (spec_all map_spec qs (log_contents es))), s') \<and>
    checkLoadData E iv s' = (Inr (), u) \<and> store_ok E u hdr' es' \<and> log_contents es' = snd (spec_all map_spec qs (log_contents es))"
proof -
  have "holds E iv s (log_contents es) (length (enc_log es))" by (rule holdsI) (use assms in auto)
  from plain.served_all [OF this assms(4,5)] show ?thesis unfolding holds_def by blast
qed

lemma requests_refine_map_witness:
  "\<exists>s'. serve_all (serve sample_env (replicate 16 0))
      [GetData [107], SetData [109] [9] False, RemoveKey [107], GetData [107], GetData [109]] (small_store True 100) =
    (Inr [Value [4], Done True, Done True, Value [], Value [9]], s')"
proof -
  let ?qs = "[GetData [107], SetData [109] [9] False, RemoveKey [107], GetData [107], GetData [109 :: byte]]"
  have s: "plain_settings (small_store True 100)" by (simp add: plain_settings_def)
  have v: "\<forall>q \<in> set ?qs. valid_request q" by (simp add: valid_set_def stored_value_def short_def)
  have "length (enc_log small_log) + sum_list (map entry_weight ?qs) < 2 ^ 32 - 10"
    by (simp add: enc_entry_def enc_data_def stored_value_def)
  from requests_refine_map [OF sample_env_ok s small_store_ok v this, of "replicate 16 0"] show ?thesis
    by (auto simp: small_log_contents stored_value_def Let_def)
qed

text \<open>C12. Making room: if \<open>ensureMemorySize\<close> returns true, there are more free bytes behind the log than were
  asked for, and the log is the one from before or its live entries behind a new header, so its contents
  are the same. It returns false only if the operating system refuses to grow the file, and then the
  store is as it was, unless the file is no longer mapped. The bound on the request keeps the sums and products of
  \<open>expandAndWriteBack\<close> and the doubled size inside \<open>size_t\<close>; the engine asks for 32-bit sizes.\<close>

theorem memory_ensured:
  assumes "iterates E" and "0 < page_size E" and "store_ok E s hdr es" and "\<not> m_enableKeyExpire s"
    and "4 + length (enc_log (live es)) < 2 ^ 32" and "n < 2 ^ 59"
  shows "\<exists>b s'. ensureMemorySize E n s = (Inr b, s') \<and>
    (b \<longrightarrow> (\<exists>hdr' es'. store_ok E s' hdr' es' \<and> log_contents es' = log_contents es \<and>
       length (enc_log es') \<le> length (enc_log es) \<and>
       4 + length hdr' + length (enc_log es') + n < getFileSize (m_file s'))) \<and>
    (\<not> b \<longrightarrow> f_io (m_file s) \<noteq> [] \<and> (isFileValid (m_file s') \<longrightarrow> store_ok E s' hdr es))"
proof (rule ensureMemorySize_run [OF assms])
  fix s' hdr' es' assume t: "ensureMemorySize E n s = (Inr True, s')" "same_log E hdr es hdr' es'" "has_room E n s' hdr' es'"
  then show ?thesis
    using same_log_contents [OF t(2)] same_log_length [OF t(2)] by (auto simp: has_room_def getFileSize_def add_ac)
next
  fix s' assume t: "ensureMemorySize E n s = (Inr False, s')" "no_space s s'"
  then show ?thesis using no_space_store_ok [OF assms(3) t(2)] by (auto simp: no_space_def)
qed

lemma memory_ensured_witness:
  "\<exists>s' hdr' es'. ensureMemorySize sample_env 100000 (small_store False 0) = (Inr True, s') \<and>
    store_ok sample_env s' hdr' es' \<and> log_contents es' = [[108] \<mapsto> [3], [107] \<mapsto> [4]] \<and>
    100000 < getFileSize (m_file s')"
proof -
  have "iterates sample_env" "0 < page_size sample_env" using sample_env_ok env_okD by auto
  moreover have "4 + length (enc_log (live small_log)) < 2 ^ 32"
    using length_enc_log_live [of small_log] by (simp add: enc_entry_def enc_data_def)
  ultimately show ?thesis
    using memory_ensured [of sample_env "small_store False 0" small_header small_log 100000] small_store_ok [of False 0]
    by (auto simp: small_log_contents) (metis add_lessD1 trans_less_add2 less_trans not_less_iff_gr_or_eq)
qed

text \<open>C11. The full write-back compacts the log in place. \<open>doFullWriteBack\<close> on a dictionary, which moves the
  located entries to the front of the file section by section, leaves exactly the live entries of the log
  behind a new header of four bytes: the entries with a value that no later entry of their key replaces, in
  their order. The contents are the same and the file keeps its size.\<close>

theorem write_back_keeps_live:
  assumes "iterates E" and "store_ok E s hdr es"
    and "8 + length (enc_log (live es)) \<le> f_size (m_file s)" and "4 + length (enc_log (live es)) < 2 ^ 32"
  shows "\<exists>s'. doFullWriteBack E [] (prepareEncode E (m_dic s)) needSync s = (Inr True, s') \<and>
    store_ok E s' (holder_bytes E) (live es) \<and> f_size (m_file s') = f_size (m_file s) \<and>
    log_contents (live es) = log_contents es \<and> distinct (map fst (live es))"
proof -
  have d: "m_dic s = dic_of (length hdr) es" "in_range (length hdr) es"
    using assms(2) by (auto simp: store_ok_def log_ok_def file_log_def)
  have size: "prepareEncode E (m_dic s) = 4 + length (enc_log (live es))"
    unfolding d(1) by (rule sum_list_live [OF assms(1) d(2)])
  show ?thesis
    using doFullWriteBack_run [OF assms(1) store_ok_rewritable [OF assms(2)] assms(3,4), of needSync]
      log_contents_live_log [of es] distinct_live_at [of 0 es] unfolding size live_def by (simp add: comp_def) blast
qed

lemma write_back_keeps_live_witness:
  "\<exists>s'. doFullWriteBack sample_env [] (prepareEncode sample_env (m_dic (small_store False 100))) True (small_store False 100) =
      (Inr True, s') \<and>
    store_ok sample_env s' (holder_bytes sample_env) [([108], [3]), ([107], [4])]"
proof -
  have l: "live small_log = [([108], [3]), ([107], [4])]" by (simp add: live_def)
  have "8 + length (enc_log (live small_log)) \<le> f_size (m_file (small_store False 100))"
    unfolding l by (simp add: sample_store_def Let_def enc_entry_def enc_data_def)
  moreover have "4 + length (enc_log (live small_log)) < 2 ^ 32"
    unfolding l by (simp add: enc_entry_def enc_data_def)
  ultimately show ?thesis
    using write_back_keeps_live [OF env_okD(1) [OF sample_env_ok] small_store_ok [of False 100], of True] unfolding l by blast
qed

text \<open>C19. The loop that doubles the file size, in 64-bit arithmetic. For every file that is not empty it ends with a size
  that meets the need and is at most twice the larger of the need and the old size, if both are below \<open>2 ^ 63\<close>. On an
  empty file it does not end (its size stays 0), which \<open>ensureMemorySize\<close> excludes by its check that the file is
  valid. For a need of \<open>2 ^ 63\<close> or more it does not end on a size that is a power of two, as the default
  sizes of files are: the doubled size wraps to 0 before it meets the need.\<close>

theorem expand_size_terminates:
  "(0 < fileSize \<and> fileSize < 2 ^ 63 \<and> need < 2 ^ 63 \<longrightarrow>
     (\<exists>n. expand_size need fileSize = Some n \<and> need < n \<and> fileSize < n \<and> n \<le> 2 * max need fileSize)) \<and>
   expand_size need 0 = None \<and>
   (2 ^ 63 \<le> need \<and> k < 64 \<longrightarrow> expand_size need (2 ^ k) = None)"
  using expand_size_Some [of fileSize need] expand_size_zero [of need] expand_size_wraps [of need "2 ^ k"]
  unfolding wraps_def by blast

lemma expand_size_terminates_witness:
  "(\<exists>n. expand_size 100000 4096 = Some n \<and> 100000 < n \<and> n \<le> 200000) \<and> expand_size (2 ^ 63) (2 ^ 12) = None"
  using expand_size_terminates [of 4096 100000 12] expand_size_terminates [of 4096 "2 ^ 63" 12] by auto

text \<open>C18. The meta information is read back as it was written, wherever the file had other bytes; and the
  short form of the write, which only stores the checksum and the size, changes nothing else.\<close>

theorem meta_roundtrip:
  assumes "meta_ok m" and "meta_ok m'" and "112 \<le> length mem"
  shows "meta_read (meta_write m mem) = m \<and> length (meta_write m mem) = length mem \<and>
    meta_read (writeCRCAndActualSizeOnly m' (meta_write m mem)) =
      m\<lparr>mi_crcDigest := mi_crcDigest m', mi_actualSize := mi_actualSize m'\<rparr>"
  using assms by (simp add: meta_read_write length_meta_write meta_read_writeCRC)

lemma meta_roundtrip_witness:
  "meta_read (writeCRCAndActualSizeOnly (sample_meta False [1, 2]) (meta_write (sample_meta False [1]) (replicate 200 7))) =
   (sample_meta False [1])\<lparr>mi_crcDigest := zlib_crc32 0 [1, 2], mi_actualSize := 2\<rparr>"
  using meta_roundtrip [OF sample_meta_ok [of False "[1]"] sample_meta_ok [of False "[1, 2]"], of "replicate 200 7"]
  by (simp add: sample_meta_def)

text \<open>C17. Resizing a mapped file, whatever calls of the operating system fail on the way. If it reports
  success, the file is mapped with the requested size rounded up to pages, its old content is kept and
  what is new is zero (or the size was as requested and nothing changed). If it reports failure, the file is no longer
  mapped, or it is mapped as before with its content.\<close>

theorem truncate_contract:
  assumes "file_ok f" and "f_ptr f" and "truncate_file page n f = (b, g)"
  shows "(b \<longrightarrow> (n = f_size f \<and> f_size g = f_size f \<and> f_disk g = f_disk f \<and> f_ptr g) \<or>
      (f_ptr g \<and> f_size g = round_to_pages page n \<and> length (f_disk g) = f_size g \<and>
       take (min (f_size g) (f_size f)) (f_disk g) = take (min (f_size g) (f_size f)) (f_disk f) \<and>
       (\<forall>i. f_size f \<le> i \<and> i < f_size g \<longrightarrow> f_disk g ! i = 0))) \<and>
    (\<not> b \<longrightarrow> \<not> f_ptr g \<or> (f_size g = f_size f \<and> f_size f \<le> length (f_disk g) \<and>
       take (f_size f) (f_disk g) = take (f_size f) (f_disk f))) \<and>
    f_readOnly g = f_readOnly f"
proof -
  have len: "f_size f \<le> length (f_disk f)" using assms(1,2) by (simp add: file_ok_def)
  have bg: "b = fst (truncate_file page n f)" "g = snd (truncate_file page n f)" by (simp_all add: assms(3))
  from truncate_cases [OF len, of page n] assms(2) show ?thesis
    unfolding bg by (auto simp: resized_def not_resized_def same_file_def)
qed

lemma truncate_contract_witness:
  "f_disk (snd (truncate_file 4 7 ((mapped [1, 2, 3, 4])\<lparr>f_io := [True, True, True]\<rparr>))) = [1, 2, 3, 4, 0, 0, 0, 0] \<and>
   \<not> f_ptr (snd (truncate_file 4 7 ((mapped [1, 2, 3, 4])\<lparr>f_io := [True, True, False]\<rparr>))) \<and>
   take 4 (f_disk (snd (truncate_file 4 7 ((mapped [1, 2, 3, 4])\<lparr>f_io := [True, False]\<rparr>)))) = [1, 2, 3, 4]"
proof -
  let ?f = "(mapped [1, 2, 3, 4])\<lparr>f_io := [True, False]\<rparr>"
  obtain b g where g: "truncate_file 4 7 ?f = (b, g)" by (cases "truncate_file 4 7 ?f") blast
  note defs = truncate_file_def truncate_fill_def zeroFillFile_def mmapOrCleanup_def answer_def
      cleanMayflyFD_def File_close_def doCleanMemoryCache_def openIfNeeded_def File_open_def round_to_pages_def
      ftruncate_disk_def mem_write_def Let_def
  have r: "replicate 4 0 = [0, 0, 0, 0 :: byte]" by (simp add: numeral_eq_Suc)
  have "\<not> b \<and> f_ptr g" using g by (auto simp: mapped_def defs)
  then have "take (f_size ?f) (f_disk g) = take (f_size ?f) (f_disk ?f)"
    using truncate_contract [of ?f 4 7 b g] g by (simp add: mapped_def file_ok_def)
  moreover have "f_size ?f = 4" "take 4 (f_disk ?f) = [1, 2, 3, 4]" by (simp_all add: mapped_def)
  ultimately have "take 4 (f_disk g) = [1, 2, 3, 4]" by simp
  then have c: "take 4 (f_disk (snd (truncate_file 4 7 ?f))) = [1, 2, 3, 4]" using g by simp
  have "f_disk (snd (truncate_file 4 7 ((mapped [1, 2, 3, 4])\<lparr>f_io := [True, True, True]\<rparr>))) = [1, 2, 3, 4, 0, 0, 0, 0]"
    "\<not> f_ptr (snd (truncate_file 4 7 ((mapped [1, 2, 3, 4])\<lparr>f_io := [True, True, False]\<rparr>)))"
    by (simp_all add: mapped_def defs r)
  with c show ?thesis by blast
qed

text \<open>C13. Overriding the only key of a store copies the key from its old place in the file to the front with
  \<open>memcpy\<close>, without looking whether the two places overlap. They do when the key lies less than its own
  length behind the front, as after a shorter entry was removed: then the call has undefined behaviour,
  on a store that satisfies the invariant and with a value that fits.\<close>

theorem override_copies_overlapping:
  assumes "env_ok E" and "store_ok E s hdr es" and "\<not> m_enableKeyExpire s" and "\<not> m_enableCompareBeforeSet s"
    and "\<not> m_multiProcess s" and "m_dic s = [key \<mapsto> h]"
    and "4 < unat (offset h)" and "unat (offset h) < 4 + length (enc_data key)"
    and "valid_set key data False" and "data \<noteq> []" and "m_itemSizeLimit s = 0"
    and "checkSizeForOverride (length (enc_entry (key, data))) s"
  shows "fst (setDataForKey E iv data key False s) = Inl MemoryFault"
  by (rule override_fault [OF assms])

lemma override_copies_overlapping_witness:
  "\<exists>s hdr. store_ok sample_env s hdr [([97], [1]), (replicate 20 107, [2]), ([97], [])] \<and>
     fst (setDataForKey sample_env (replicate 16 0) [3] (replicate 20 107) False s) = Inl MemoryFault"
proof -
  let ?es = "[([97 :: byte], [1 :: byte]), (replicate 20 107, [2]), ([97], [])]" and ?hdr = "holder_bytes sample_env"
  let ?s = "sample_store False ?hdr ?es 100" and ?h = "entry_holder 8 (replicate 20 107, [2 :: byte])"
  have "length (enc_log ?es) < 100" by (simp add: enc_entry_def enc_data_def)
  then have "in_range (length ?hdr) ?es"
    by (simp add: in_range_def valid_entry_def short_def)
  from sample_store_ok [OF header_holder_bytes this] have s: "store_ok sample_env ?s ?hdr ?es" .
  have ne: "replicate 20 (107 :: byte) \<noteq> [97]" by (simp add: numeral_eq_Suc)
  have "length (enc_entry ([97], [1])) = 4" by (simp add: enc_entry_def enc_data_def)
  then have d: "m_dic ?s = [replicate 20 107 \<mapsto> ?h]"
    using ne by (intro ext) (simp add: holder_step_def)
  have o: "offset ?h = 8" by (simp add: entry_holder_def KeyValueHolder_new_def)
  have v: "valid_set (replicate 20 107) [3] False" by (simp add: valid_set_def short_def stored_value_def)
  have f: "checkSizeForOverride (length (enc_entry (replicate 20 107, [3]))) ?s"
    by (simp add: checkSizeForOverride_def isFileValid_store_def getFileSize_def ItemSizeHolderSize_def Let_def
        sample_store_def enc_entry_def enc_data_def)
  have "fst (setDataForKey sample_env (replicate 16 0) [3] (replicate 20 107) False ?s) = Inl MemoryFault"
    by (rule override_copies_overlapping [OF sample_env_ok s _ _ _ d _ _ v _ _ f]) (simp_all add: o enc_data_def)
  then show ?thesis using s by blast
qed

text \<open>C2. What was stored is there, across restarts. Whatever sessions of sets, removals and gets run one after the
  other on new files, each on a store newly constructed on the files that the last one left: no operation
  fails, and every reply of every session is that of one finite map from keys to byte strings that lives
  through all of them. The bounds: the store is shared by processes (the mode without the override),
  without expiration, without comparison and without size limit, the operating system refuses nothing, and all that is appended stays
  below 4 GB. The constructor, the load with its checks of size and checksum, and every operation work on the bytes of
  the two files.\<close>

theorem sessions_refine_map:
  assumes "env_ok E" and "env_files E"
    and "\<not> isReadOnly config" and "isMultiProcess config" and "enableKeyExpire config = None"
    and "\<not> compareBeforeSet config" and "itemSizeLimit config = 0"
    and "\<forall>qs \<in> set qss. \<forall>q \<in> set qs. valid_request q"
    and "sum_list (map (\<lambda>qs. sum_list (map entry_weight qs)) qss) < 2 ^ 32 - 10"
  shows "sessions E iv junk config qss ([], []) = Inr (spec_sessions qss Map.empty)"
proof -
  have d: "disk_state E [] [] [] []" by (simp add: disk_state_def)
  have f: "\<not> hasFlag EnableKeyExipre (meta_read [])" using no_flag_zero [of EnableKeyExipre 0] by simp
  have n: "length (enc_log []) \<le> 0" by simp
  have w: "0 + sum_list (map (\<lambda>qs. sum_list (map entry_weight qs)) qss) < 2 ^ 32 - 10" using assms(9) by simp
  from sessions_run [OF assms(1-7) d f assms(8) n w] show ?thesis by (simp add: log_contents_def)
qed

abbreviation shared_config :: MMKVConfig where
  "shared_config \<equiv> \<lparr>mode = MMKV_MULTI_PROCESS, expectedCapacity = 0, enableKeyExpire = None, expiredInSeconds = 0,
     compareBeforeSet = False, recover = None, itemSizeLimit = 0\<rparr>"

lemma sample_env_files: "env_files sample_env"
  by (simp add: env_files_def sample_env_def zlib_crc32_Nil)

lemma shared_config_ok: "\<not> isReadOnly shared_config" "isMultiProcess shared_config"
  by (simp_all add: isReadOnly_def isMultiProcess_def MMKV_MULTI_PROCESS_def MMKV_READ_ONLY_def)

lemma sessions_refine_map_witness:
  "sessions sample_env (replicate 16 0) (\<lambda>_. 7) shared_config
     [[SetData [107] [1, 2] False, GetData [107]], [GetData [107], RemoveKey [107]], [], [GetData [107]]] ([], []) =
   Inr [[Done True, Value [1, 2]], [Value [1, 2], Done True], [], [Value []]]"
proof -
  let ?qss = "[[SetData [107] [1, 2] False, GetData [107]], [GetData [107], RemoveKey [107]], [], [GetData [107 :: byte]]]"
  have v: "\<forall>qs \<in> set ?qss. \<forall>q \<in> set qs. valid_request q" by (simp add: valid_set_def stored_value_def short_def)
  have w: "sum_list (map (\<lambda>qs. sum_list (map entry_weight qs)) ?qss) < 2 ^ 32 - 10"
    by (simp add: enc_entry_def enc_data_def stored_value_def)
  have c: "enableKeyExpire shared_config = None" "\<not> compareBeforeSet shared_config" "itemSizeLimit shared_config = 0" by simp_all
  have spec: "spec_sessions ?qss Map.empty = [[Done True, Value [1, 2]], [Value [1, 2], Done True], [], [Value []]]"
    by (simp add: stored_value_def Let_def)
  show ?thesis
    using sessions_refine_map [OF sample_env_ok sample_env_files shared_config_ok c v w, of "replicate 16 0" "\<lambda>_. 7"]
    unfolding spec by simp
qed

text \<open>C6. A store that dies while it appends loses nothing but that append. If the file of a store differs from the
  file of a store in a good state only behind the end of the log, as after any part of the writes of an
  append whose size was not confirmed, then constructing a store on the files and loading it succeeds, in
  every mode of a store that may write, and gives the same log, header and contents.\<close>

theorem torn_append_recovers:
  assumes "env_files E" and "store_ok E s hdr es"
    and "take (4 + m_actualSize s) disk = take (4 + m_actualSize s) (f_disk (m_file s))" and "4 + m_actualSize s \<le> length disk"
    and "\<not> isReadOnly config" and "enableKeyExpire config = None"
  shows "\<exists>t u. MMKV_new E iv junk config disk (f_disk (m_metaFile s)) [] [] = (Inr (), t) \<and>
    checkLoadData E iv t = (Inr (), u) \<and> store_ok E u hdr es \<and> m_enableKeyExpire u = m_enableKeyExpire s \<and>
    getRawDataForKey E iv key u = (Inr (value_of es key), u)"
proof -
  have d: "disk_state E disk (f_disk (m_metaFile s)) hdr es"
    using store_disk_holds [OF assms(2-4)] by (simp add: disk_state_def)
  have m: "m_enableKeyExpire s = hasFlag EnableKeyExipre (meta_read (f_disk (m_metaFile s)))"
    using assms(2) meta_read_take [of "f_size (m_metaFile s)" "f_disk (m_metaFile s)"]
    by (simp add: store_ok_def meta_current_def meta_ready_def read_meta_def f_memory_def)
  show ?thesis
    using open_run [OF assms(1,5,6) d, of iv junk] getRawDataForKey_run unfolding opened_def m by blast
qed

lemma torn_append_recovers_witness:
  "\<exists>t u. MMKV_new sample_env (replicate 16 0) (\<lambda>_. 7) shared_config
      (take 20 (f_disk (m_file (small_store False 0))) @ replicate 50 99) (f_disk (m_metaFile (small_store False 0))) [] [] = (Inr (), t) \<and>
    checkLoadData sample_env (replicate 16 0) t = (Inr (), u) \<and>
    getRawDataForKey sample_env (replicate 16 0) [107] u = (Inr [4], u)"
proof -
  let ?s = "small_store False 0"
  have n: "4 + m_actualSize ?s \<le> 20" "4 + m_actualSize ?s = length (f_disk (m_file ?s))"
    by (simp_all add: sample_store_def Let_def enc_entry_def enc_data_def enc_uint32_def)
  let ?d = "take 20 (f_disk (m_file ?s)) @ replicate 50 99"
  have t: "take (4 + m_actualSize ?s) ?d = take (4 + m_actualSize ?s) (f_disk (m_file ?s))" "4 + m_actualSize ?s \<le> length ?d"
    using n by simp_all
  have c: "enableKeyExpire shared_config = None" by simp
  have "value_of small_log [107] = [4]" by (simp add: value_of_def small_log_contents)
  then show ?thesis
    using torn_append_recovers [OF sample_env_files small_store_ok t shared_config_ok(1) c, of "replicate 16 0" "\<lambda>_. 7" "[107]"]
    by auto
qed

text \<open>C7. Typed values survive: a bool, a signed or unsigned integer of 32 or 64 bits, a float, a double, a string or a
  buffer that a set accepts is what the get of its type returns, with \<open>hasValue\<close>, whatever default it is given and
  whatever fresh memory held. A set is only refused because of the size limit or the operating system.\<close>

theorem typed_roundtrip:
  assumes "env_ok E" and "store_ok E s hdr es" and "\<not> m_enableKeyExpire s" and "\<not> m_enableCompareBeforeSet s"
    and "short (wire_bytes v)" and "valid_set key [] False" and "below_4GB es (key, wire_bytes v)" and "copies_apart s key"
    and "same_type v def"
  shows "\<exists>b t. set_typed E iv junk v key 0 s = (Inr b, t) \<and>
    (b \<longrightarrow> get_typed E iv key def t = (Inr (v, True), t)) \<and>
    (\<not> b \<longrightarrow> m_itemSizeLimit s \<noteq> 0 \<or> f_io (m_file s) \<noteq> [])"
  using set_typed_outcome [OF assms(1-8), of iv junk] unfolding set_outcome_def
proof (elim disjE exE conjE)
  fix t assume t: "set_typed E iv junk v key 0 s = (Inr True, t)" "is_set E s hdr es (key, wire_bytes v) t"
  have key: "key \<noteq> []" using assms(6) by (simp add: valid_set_def)
  obtain hdr' es' where "store_ok E t hdr' es'" "log_contents es' = (log_contents es)(key \<mapsto> wire_bytes v)" "same_settings s t"
    using t(2) by (auto simp: is_set_def)
  then have "get_typed E iv key def t = (Inr (v, True), t)"
    using assms(3) get_typed_run [of E t hdr' es' key v def iv] assms(5,9) key by (simp add: same_settings_def)
  then show ?thesis using t(1) by blast
qed (auto simp: unchanged_def)

lemma typed_roundtrip_witness:
  "\<exists>t. set_typed sample_env (replicate 16 0) (\<lambda>_. 7) (Int32 (- 5)) [107] 0 (small_store True 100) = (Inr True, t) \<and>
     get_typed sample_env (replicate 16 0) [107] (Int32 0) t = (Inr (Int32 (- 5), True), t)"
proof -
  have n: "\<not> m_enableKeyExpire (small_store True 100)" "\<not> m_enableCompareBeforeSet (small_store True 100)" by simp_all
  have len: "length (wire_bytes (Int32 (- 5))) \<le> 10"
    using length_varint_u64 [of "scast (- 5 :: int32)"] by (simp add: enc_int32_def)
  then have s: "short (wire_bytes (Int32 (- 5)))" by (simp add: short_def)
  have "length (enc_entry ([107], wire_bytes (Int32 (- 5)))) < 1000"
    using len length_enc_data_le [of "wire_bytes (Int32 (- 5))"] length_enc_data_le [of "[107]"]
    by (simp add: enc_entry_def del: wire_bytes.simps)
  note b = small_log_below [OF this]
  have v: "valid_set [107] [] False" by (simp add: valid_set_def short_def stored_value_def)
  have c: "copies_apart (small_store True 100) [107]" by (simp add: copies_apart_def)
  have t: "same_type (Int32 (- 5)) (Int32 0)" by (simp add: same_type_def)
  from typed_roundtrip [OF sample_env_ok small_store_ok n s v b c t, of "replicate 16 0" "\<lambda>_. 7"] show ?thesis by auto
qed

text \<open>C8. Expiration: in a store whose values carry a time, a get of a value of any type gives the value as long as its
  time is 0 or in the future; from then on it gives the default and no value, and removes the key.\<close>

theorem expired_value_removed:
  assumes "env_ok E" and "store_ok E s hdr es" and "m_enableKeyExpire s"
    and "log_contents es key = Some (wire_bytes v @ word_bytes 4 time)" and "short (wire_bytes v)" and "same_type v def"
    and "valid_set key [] False" and "has_room E (length (enc_entry (key, []))) s hdr es" and "below_4GB es (key, [])"
    and "m_itemSizeLimit s = 0"
  shows "if time \<noteq> 0 \<and> time \<le> time_now E
    then \<exists>t. get_typed E iv key def s = (Inr (def, False), t) \<and> store_ok E t hdr (es @ [(key, [])]) \<and>
           log_contents (es @ [(key, [])]) = (log_contents es)(key := None)
    else get_typed E iv key def s = (Inr (v, True), s)"
proof (cases "expired E time")
  case True
  from get_expired [OF assms(1-4) True assms(7-10), of iv]
  obtain t where t: "getDataForKey E iv key s = (Inr [], t)" "store_ok E t hdr (es @ [(key, [])])" by blast
  then show ?thesis
    using True assms(7) get_typed_none [OF t(1), of def] log_contents_append [of es "(key, [])"]
    by (auto simp: expired_def log_step_def valid_set_def)
next
  case False
  have "key \<noteq> []" using assms(7) by (simp add: valid_set_def)
  from get_typed_eq [OF assms(6) short_wire_bytes [OF assms(5)] this get_not_expired [OF assms(2-4) False]]
  show ?thesis using False by (auto simp: expired_def)
qed

lemma expired_value_removed_witness:
  "\<exists>s t. store_ok sample_env s (holder_bytes sample_env) [([107], enc_int32 5 @ word_bytes 4 (999 :: u32))] \<and>
     get_typed sample_env (replicate 16 0) [107] (Int32 3) s = (Inr (Int32 3, False), t) \<and>
     store_ok sample_env t (holder_bytes sample_env) [([107], enc_int32 5 @ word_bytes 4 (999 :: u32)), ([107], [])]"
proof -
  let ?v = "enc_int32 5 @ word_bytes 4 (999 :: u32)" and ?hdr = "holder_bytes sample_env"
  let ?es = "[([107], ?v)]" and ?k = "([107 :: byte], [] :: byte list)"
  have five: "enc_int32 5 = [5]" by (simp add: enc_int32_def)
  have l: "length ?v = 5" by (simp add: five)
  have sv: "short ?v" using l by (simp only: short_def) simp
  have le: "length (enc_log ?es) = 8" "length (enc_entry ?k) = 3"
    using l by (simp_all add: enc_entry_def enc_data_def)
  have r: "in_range (length ?hdr) ?es"
    using le(1) sv by (simp add: in_range_def valid_entry_def short_def)
  have h: "header ?hdr ?es" by (rule header_holder_bytes)
  have s: "store_ok sample_env (sample_store_with True False ?hdr ?es 100) ?hdr ?es" (is "store_ok _ ?s _ _")
    by (rule sample_store_ok [OF h r])
  have x: "m_enableKeyExpire ?s" "m_itemSizeLimit ?s = 0" by simp_all
  have c: "log_contents ?es [107] = Some (wire_bytes (Int32 5) @ word_bytes 4 (999 :: u32))"
    by (simp add: log_contents_def log_step_def five)
  have w: "short (wire_bytes (Int32 5))" by (simp add: five short_def)
  have t: "same_type (Int32 5) (Int32 3)" by (simp add: same_type_def)
  have v: "valid_set [107] [] False" by (simp add: valid_set_def short_def stored_value_def)
  have ne: "?hdr \<noteq> []" using length_holder_bytes [of sample_env] by fastforce
  have "f_size (m_file ?s) = 4 + (length ?hdr + length (enc_log ?es) + 100)"
    by (simp add: sample_store_def Let_def)
  then have room: "has_room sample_env (length (enc_entry ?k)) ?s ?hdr ?es"
    using s ne le by (simp add: has_room_def)
  have b: "below_4GB ?es ?k" using le by (simp add: below_4GB_def)
  from expired_value_removed [OF sample_env_ok s x(1) c w t v room b x(2), of "replicate 16 0"]
  show ?thesis using s by (auto simp: sample_env_def)
qed

text \<open>C14. A double that is set before a store with expiration has loaded is lost. The typed sets ask \<open>m_enableKeyExpire\<close>
  before the load that sets it from the meta file, so the first set of a newly constructed store writes its eight bytes
  without a time; a get takes the last four of them for one. Whatever the double, the set returns true and
  the get finds no value.\<close>

theorem first_set_loses_double:
  assumes "env_ok E" and "checkLoadData E iv s = (Inr (), u)" and "\<not> m_enableKeyExpire s"
    and "store_ok E u hdr es" and "m_enableKeyExpire u" and "m_multiProcess u" and "m_itemSizeLimit u = 0"
    and "valid_set key [] False"
    and "has_room E (length (enc_entry (key, enc_double v)) + length (enc_entry (key, []))) u hdr es"
    and "below_4GB (es @ [(key, enc_double v)]) (key, [])" and "log_contents es \<noteq> Map.empty"
  shows "\<exists>t t'. set_double E iv junk v key 0 s = (Inr True, t) \<and> m_enableKeyExpire t \<and>
    getDouble E iv key def t = (Inr (def, False), t')"
  by (rule first_double_lost [OF assms])

lemma first_set_loses_double_witness:
  "\<exists>disk metaDisk s u t t'. MMKV_new sample_env (replicate 16 0) (\<lambda>_. 7) shared_config disk metaDisk [] [] = (Inr (), s) \<and>
     checkLoadData sample_env (replicate 16 0) s = (Inr (), u) \<and> m_enableKeyExpire u \<and>
     set_double sample_env (replicate 16 0) (\<lambda>_. 7) (Float64 0x4045000000000000) [107] 0 s = (Inr True, t) \<and>
     getDouble sample_env (replicate 16 0) [107] (Float64 0) t = (Inr (Float64 0, False), t')"
proof -
  let ?es = "[([108 :: byte], [1 :: byte, 0, 0, 0, 0])]" and ?hdr = "holder_bytes sample_env" and ?d = "Float64 0x4045000000000000"
  let ?s = "sample_store_with True True ?hdr ?es 100"
  have le: "length (enc_log ?es) = 8" by (simp add: enc_entry_def enc_data_def)
  have r: "in_range (length ?hdr) ?es" by (simp add: in_range_def valid_entry_def short_def enc_entry_def enc_data_def)
  have ok: "store_ok sample_env ?s ?hdr ?es" by (rule sample_store_ok [OF header_holder_bytes r])
  have sz: "f_size (m_file ?s) = 4 + (length ?hdr + length (enc_log ?es) + 100)" "length (f_disk (m_file ?s)) = 116"
    "m_actualSize ?s = 12"
    using le by (simp_all add: sample_store_def Let_def)
  have n: "4 + m_actualSize ?s \<le> length (f_disk (m_file ?s))" using sz by simp
  have ds: "disk_state sample_env (f_disk (m_file ?s)) (f_disk (m_metaFile ?s)) ?hdr ?es"
    using store_disk_holds [OF ok refl n] by (simp add: disk_state_def)
  have c: "enableKeyExpire shared_config = None" by simp
  obtain s u where su: "MMKV_new sample_env (replicate 16 0) (\<lambda>_. 7) shared_config (f_disk (m_file ?s)) (f_disk (m_metaFile ?s)) [] [] = (Inr (), s)"
    "checkLoadData sample_env (replicate 16 0) s = (Inr (), u)" "store_ok sample_env u ?hdr ?es"
    "opened sample_env shared_config (f_disk (m_metaFile ?s)) u" "\<not> m_enableKeyExpire s"
    "disk_state sample_env (f_disk (m_file s)) (f_disk (m_metaFile s)) ?hdr ?es"
    using open_run [OF sample_env_files shared_config_ok(1) c ds, of "replicate 16 0" "\<lambda>_. 7"] by blast
  have flag: "hasFlag EnableKeyExipre (meta_read (f_disk (m_metaFile ?s)))"
    using sample_meta_ok by (simp add: sample_store_def Let_def meta_read_write)
      (simp add: sample_meta_def hasFlag_def EnableKeyExipre_def)
  have x: "m_enableKeyExpire u" "m_multiProcess u" "m_itemSizeLimit u = 0"
    using su(4) flag shared_config_ok(2) by (simp_all add: opened_def)
  have "4096 \<le> f_size (m_file u)" using su(4) by (simp add: opened_def sample_env_def)
  moreover have "?hdr \<noteq> []" using length_holder_bytes [of sample_env] by fastforce
  moreover have "length (enc_entry ([107], enc_double ?d)) = 11" "length (enc_entry ([107], [])) = 3"
    by (simp_all add: enc_entry_def enc_data_def)
  ultimately have room: "has_room sample_env (length (enc_entry ([107], enc_double ?d)) + length (enc_entry ([107], []))) u ?hdr ?es"
    using su(3) le by (simp add: has_room_def)
  have b: "below_4GB (?es @ [([107], enc_double ?d)]) ([107], [])" by (simp add: below_4GB_def enc_entry_def enc_data_def)
  have v: "valid_set [107] [] False" by (simp add: valid_set_def short_def stored_value_def)
  have ne: "log_contents ?es \<noteq> Map.empty" by (simp add: log_contents_def log_step_def)
  show ?thesis
    using first_set_loses_double [OF sample_env_ok su(2,5,3) x v room b ne, of "\<lambda>_. 7" "Float64 0"] su(1,2) x(1) by blast
qed

text \<open>C1. Processes share a store. Any number of processes work on the same two files, initially empty: they open the store
  whenever they like, end whenever they like, and serve requests in any interleaving, each with its own mapping,
  dictionary, size and copy of the meta information, which the others do not update. In a release build no request fails, and every reply is
  that of one finite map that all processes share: before each request a process notices what the others appended,
  rewrote or enlarged. The bounds: requests are atomic (a process holds the lock on the files during a request, see the
  properties of the lock), the stores have the mode of several processes, without expiration, comparison and size
  limit, the operating system refuses nothing, all that is appended stays below 4 GB, and the 32-bit sequence number of the
  file does not wrap. A debug build (\<open>MMKV_DEBUG\<close>) is excluded because of an assertion: a process that has constructed its
  store, but not loaded it when another process enlarges the file, aborts (lemma \<open>enlarged_file_asserts\<close>).\<close>

theorem interleavings_refine_map:
  assumes "env_ok E" and "env_files E" and "multi_process_config config"
    and "\<forall>q \<in> set (requests_of evs). valid_request q"
    and "sum_list (map entry_weight (requests_of evs)) < 2 ^ 32 - 10" and "length (requests_of evs) < 2 ^ 32"
    and "\<not> debug_build E"
  shows "interleaved E iv junk config evs ([], []) Map.empty = Inr (fst (spec_all map_spec (requests_of evs) Map.empty))"
proof -
  have "\<not> hasFlag EnableKeyExipre (meta_read [])" using no_flag_zero [of EnableKeyExipre 0] by simp
  then have w: "world_ok E config ([], []) Map.empty [] []" by (simp add: world_ok_def files_ok_def disk_state_def)
  have z: "sequence_of ([], []) = 0" using zero_sequence [of 0] by simp
  have "length (enc_log []) \<le> 0" "0 + sum_list (map entry_weight (requests_of evs)) < 2 ^ 32 - 10"
    "sequence_of ([], []) + length (requests_of evs) < 2 ^ 32" using assms(5,6) z by simp_all
  from interleaved_run [OF assms(1-3) w assms(4) this assms(7), of iv junk] show ?thesis by (simp add: log_contents_def)
qed

lemma interleavings_refine_map_witness:
  "interleaved sample_env (replicate 16 0) (\<lambda>_. 7) shared_config
     [Serve 0 (SetData [107] [1, 2] False), Serve 1 (GetData [107]), Serve 1 (SetData [107] [3] False), Serve 0 (GetData [107]),
      Quit 1, Serve 0 (RemoveKey [107]), Serve 1 (GetData [107])] ([], []) Map.empty =
   Inr [Done True, Value [1, 2], Done True, Value [3], Done True, Value []]"
proof -
  let ?evs = "[Serve 0 (SetData [107] [1, 2] False), Serve 1 (GetData [107]), Serve 1 (SetData [107] [3] False), Serve 0 (GetData [107]),
      Quit 1, Serve 0 (RemoveKey [107]), Serve 1 (GetData [107 :: byte])]"
  have v: "\<forall>q \<in> set (requests_of ?evs). valid_request q" by (simp add: valid_set_def stored_value_def short_def)
  have w: "sum_list (map entry_weight (requests_of ?evs)) < 2 ^ 32 - 10" "length (requests_of ?evs) < 2 ^ 32"
    by (simp_all add: enc_entry_def enc_data_def stored_value_def)
  have release: "\<not> debug_build sample_env" by (simp add: sample_env_def)
  have c: "multi_process_config shared_config" using shared_config_ok by (simp add: multi_process_config_def)
  have spec: "fst (spec_all map_spec (requests_of ?evs) Map.empty) = [Done True, Value [1, 2], Done True, Value [3], Done True, Value []]"
    by (simp add: stored_value_def Let_def)
  show ?thesis
    using interleavings_refine_map [OF sample_env_ok sample_env_files c v w release, of "replicate 16 0" "\<lambda>_. 7"] unfolding spec .
qed

section \<open>Encrypted stores\<close>

definition sample_crypt_env :: crypt_environment where
  "sample_crypt_env = \<lparr>plain_env = sample_env, iterateCrypt = \<lambda>d. map (\<lambda>k. (k, the (d k))) (sorted_list_of_set (dom d)),
     fresh_mem = \<lambda>_. 7, rand_word = \<lambda>_. 0x01020304\<rparr>"

lemma sample_crypt_sel [simp]: "plain_env sample_crypt_env = sample_env" "fresh_mem sample_crypt_env = (\<lambda>_. 7)"
  by (simp_all add: sample_crypt_env_def)

lemma sample_crypt_iterates: "iterates_crypt sample_crypt_env" "iterates (plain_env sample_crypt_env)"
proof -
  have "map_of (map (\<lambda>k. (k, the (d k))) (sorted_list_of_set (dom d))) = d" if "finite (dom d)" for d :: MMKVMapCrypt
  proof
    fix k
    show "map_of (map (\<lambda>k. (k, the (d k))) (sorted_list_of_set (dom d))) k = d k"
      using that by (cases "d k") (auto simp: map_of_eq_None_iff image_iff intro!: map_of_is_SomeI simp: comp_def)
  qed
  then show "iterates_crypt sample_crypt_env"
    by (simp add: iterates_crypt_def sample_crypt_env_def comp_def)
  show "iterates (plain_env sample_crypt_env)" using sample_env_ok by (simp add: env_ok_def)
qed

text \<open>Files of an encrypted store: the code of the log of the small store, with a vector in the meta file.\<close>

abbreviation sample_vector :: "byte list" where
  "sample_vector \<equiv> map word_of_nat [1..<17]"

abbreviation sample_header :: "byte list" where
  "sample_header \<equiv> holder_bytes sample_env"

definition sample_code :: "byte list \<Rightarrow> byte list" where
  "sample_code key = code_of key False sample_vector (sample_header @ enc_log small_log)"

abbreviation sample_disk :: "byte list \<Rightarrow> byte list" where
  "sample_disk key \<equiv> replicate 4 0 @ sample_code key @ replicate 40 0"

definition sample_crypt_meta :: "byte list \<Rightarrow> byte list" where
  "sample_crypt_meta key = meta_write ((sample_meta False (sample_code key))\<lparr>mi_vector := sample_vector\<rparr>) (replicate 4096 0)"

lemma length_sample_code: "key \<noteq> [] \<Longrightarrow> length (sample_code key) = 17"
  using encrypt_code_of(2) [of key False sample_vector "sample_header @ enc_log small_log"]
  by (simp add: sample_code_def enc_entry_def enc_data_def)

lemma sample_crypt_meta: "meta_read (sample_crypt_meta key) = (sample_meta False (sample_code key))\<lparr>mi_vector := sample_vector\<rparr>"
  "length (sample_crypt_meta key) = 4096"
proof -
  have ok: "meta_ok ((sample_meta False (sample_code key))\<lparr>mi_vector := sample_vector\<rparr>)"
    using sample_meta_ok [of False "sample_code key"] by (simp add: meta_ok_def)
  show "meta_read (sample_crypt_meta key) = (sample_meta False (sample_code key))\<lparr>mi_vector := sample_vector\<rparr>"
    unfolding sample_crypt_meta_def by (rule meta_read_write [OF ok])
  show "length (sample_crypt_meta key) = 4096"
    unfolding sample_crypt_meta_def using length_meta_write [OF ok, of "replicate 4096 0"] by simp
qed

lemma sample_keyed_files:
  assumes key: "key \<noteq> []"
  shows "keyed_files sample_env key False (sample_disk key) (sample_crypt_meta key) sample_header small_log"
proof -
  have r: "in_range 4 small_log"
    by (simp add: in_range_def valid_entry_def short_def enc_entry_def enc_data_def)
  have read: "mem_read (sample_disk key) 4 (length (sample_code key)) = (sample_code key)" by (simp add: mem_read_def)
  have code: "code_of key False (mi_vector (meta_read (sample_crypt_meta key))) (sample_header @ enc_log small_log) = (sample_code key)"
    unfolding sample_crypt_meta sample_code_def by simp
  have mi: "meta_ok (meta_read (sample_crypt_meta key))" "MMKVVersionFlag \<le> mi_version (meta_read (sample_crypt_meta key))"
    "mi_version (meta_read (sample_crypt_meta key)) < MMKVVersionHolder"
    "mi_crcDigest (meta_read (sample_crypt_meta key)) = crc32 sample_env 0 (sample_code key)"
    "mi_actualSize (meta_read (sample_crypt_meta key)) = word_of_nat (length (sample_code key))"
    using sample_meta_ok [of False "sample_code key"] version_order unfolding sample_crypt_meta
    by (simp_all add: sample_meta_def MMKVMetaInfo_new_def meta_ok_def sample_env_def)
  show ?thesis
    using holder_not_Nil [of sample_env] holder_log [OF r, of sample_env] read mi
    unfolding keyed_files_def Let_def code if_not_P [OF key] by (simp add: length_sample_code [OF key] sample_crypt_meta(2))
qed

lemma sample_no_expire: "\<not> hasFlag EnableKeyExipre (meta_read (sample_crypt_meta key))"
  by (simp add: sample_crypt_meta sample_meta_def hasFlag_def)

text \<open>C4. An encrypted store is read back. When the data file holds the code of a log, encrypted with AES in cipher feedback
  mode under a key and the vector that the meta file keeps, then a store that is constructed with the key loads the log, and
  every get returns the value that the log gives the key. The values that were left in the file are decrypted from the
  cipher status that the decoder noted for them.\<close>

theorem encrypted_files_open:
  assumes "env_files (plain_env X)" and "\<not> isReadOnly config" and "key \<noteq> []"
    and "keyed_files (plain_env X) key aes256 disk metaDisk hdr es"
  shows "fst (getRawDataForKey_crypt (checkLoadData_crypt X) k (crypt_object (plain_env X) config key aes256 disk metaDisk [] [])) =
    Inr (value_of es k)"
  by (rule opened_get [OF assms(1,2,4)])

lemma encrypted_files_open_witness:
  "fst (getRawDataForKey_crypt (checkLoadData_crypt sample_crypt_env) [107]
     (crypt_object sample_env shared_config [3, 4] False (sample_disk [3, 4]) (sample_crypt_meta [3, 4]) [] [])) = Inr [4]"
proof -
  have "value_of small_log [107] = [4]" by (simp add: value_of_def small_log_contents)
  then show ?thesis
    using encrypted_files_open [of sample_crypt_env shared_config "[3, 4]" False "sample_disk [3, 4]" "sample_crypt_meta [3, 4]" sample_header small_log "[107]"]
      sample_env_files shared_config_ok(1) sample_keyed_files by simp
qed

text \<open>C3. Changing the key keeps the contents. A store is opened with its key, or without one, and the key is changed any
  number of times: to another key of either length, to none, or from none to one. Every change returns true, after them
  each get returns the value it had before, and so it does in a store that is constructed with the last key on the files
  that the changes left. The key that is given counts unless it is the one that the store reports; that report ends at the
  first zero byte and may go on behind the key (see the property on the key that is not recognised). The bounds: the
  store is not empty, has no expiration, a header of four bytes as the code writes it, and its live entries take less
  than 4 GB.\<close>

theorem rekeyed_files_keep_contents:
  assumes "iterates_crypt X" and "iterates (plain_env X)" and "env_files (plain_env X)" and "\<not> isReadOnly config"
    and "keyed_files (plain_env X) key aes256 disk metaDisk hdr es" and "length hdr = 4"
    and "\<not> hasFlag EnableKeyExipre (meta_read metaDisk)" and "log_contents es \<noteq> Map.empty"
    and "length (enc_log (live es)) < 2 ^ 32 - 5"
  shows "\<exists>t. rekeys X ks (crypt_object (plain_env X) config key aes256 disk metaDisk [] []) = (Inr (), t) \<and>
    (\<forall>k. fst (getRawDataForKey_crypt (checkLoadData_crypt X) k t) = Inr (value_of es k)) \<and>
    (\<forall>k. fst (getRawDataForKey_crypt (checkLoadData_crypt X) k (crypt_object (plain_env X) config
       (fst (final_key (fresh_mem X) (key, aes256) ks)) (snd (final_key (fresh_mem X) (key, aes256) ks))
       (f_disk (m_file (m_store t))) (f_disk (m_metaFile (m_store t))) [] [])) = Inr (value_of es k))"
proof -
  have page: "0 < page_size (plain_env X)" using page_sizes [OF assms(3)] by simp
  have "key_state X (crypt_object (plain_env X) config key aes256 disk metaDisk [] []) (fst (key, aes256)) (snd (key, aes256)) es"
    using opened_state [OF assms(3-7)] by simp
  from rekeys_final [OF assms(1,2) page assms(8,9) this, of ks] obtain t where
    t: "rekeys X ks (crypt_object (plain_env X) config key aes256 disk metaDisk [] []) = (Inr (), t)"
    "key_state X t (fst (final_key (fresh_mem X) (key, aes256) ks)) (snd (final_key (fresh_mem X) (key, aes256) ks)) es" by blast
  show ?thesis
    using t(1) key_state_get [OF t(2)] key_state_reopens [OF assms(3,4) t(2)] by blast
qed

lemma rekeyed_files_keep_contents_witness:
  "\<exists>t. rekeys sample_crypt_env [([9], True), ([], False), ([5, 6], False)]
      (crypt_object sample_env shared_config [3, 4] False (sample_disk [3, 4]) (sample_crypt_meta [3, 4]) [] []) = (Inr (), t) \<and>
    fst (getRawDataForKey_crypt (checkLoadData_crypt sample_crypt_env) [107] t) = Inr [4] \<and>
    fst (getRawDataForKey_crypt (checkLoadData_crypt sample_crypt_env) [107] (crypt_object sample_env shared_config [5, 6] False
       (f_disk (m_file (m_store t))) (f_disk (m_metaFile (m_store t))) [] [])) = Inr [4]"
proof -
  have ne: "log_contents small_log \<noteq> Map.empty" by (simp add: small_log_contents)
  have v: "value_of small_log [107] = [4]" by (simp add: value_of_def small_log_contents)
  have l: "length (enc_log (live small_log)) < 2 ^ 32 - 5"
    using length_enc_log_live [of small_log] by (simp add: enc_entry_def enc_data_def)
  have k: "reported_key (\<lambda>_. 7) [3, 4] False = [3, 4]" "reported_key (\<lambda>_. 7) [9] True = [9]" "reported_key (\<lambda>_. 7) [] False = []"
    using reported_key_short [of "[3, 4]" False "\<lambda>_. 7"] reported_key_short [of "[9]" True "\<lambda>_. 7"]
    by (simp_all add: reported_key_def)
  have f: "final_key (fresh_mem sample_crypt_env) ([3, 4], False) [([9], True), ([], False), ([5, 6], False)] = ([5, 6], False)"
    by (simp add: k)
  have h: "length sample_header = 4" by simp
  from rekeyed_files_keep_contents [OF sample_crypt_iterates, of shared_config "[3, 4]" False "sample_disk [3, 4]" "sample_crypt_meta [3, 4]"
      sample_header small_log "[([9], True), ([], False), ([5, 6], False)]"]
    sample_env_files shared_config_ok(1) sample_keyed_files sample_no_expire ne l h
  show ?thesis unfolding f by (auto simp: v)
qed

text \<open>C15. A full AES-128 key is not always recognised. The report of the key reads a local array of 32 bytes of which a key
  of 16 bytes without a zero fills only the first half. When the byte behind it happens not to be zero, the store that is
  given its own key again replaces its cipher: the new one starts at the key instead of the vector of the meta file, at the
  beginning of the stream instead of the end of the log. With a zero byte there, nothing changes.\<close>

theorem same_key_replaces_cipher:
  assumes "crypt_ok X s key False hdr es" and "length key = 16" and "0 \<notin> set key"
  shows "checkReSetCryptKey X (Some key) False s =
      (Inr (), if fresh_mem X 16 = 0 then s else s\<lparr>m_crypter := Some (AESCrypt_new key [] False)\<rparr>) \<and>
    get_cfb (AESCrypt_new key [] False) = \<lparr>ivec = key, num = 0\<rparr>"
  using checkReSet_same_key [OF assms] new_key_stream [OF assms(2)] by simp

lemma same_key_replaces_cipher_witness:
  "\<exists>s c. checkLoadData_crypt sample_crypt_env (crypt_object sample_env shared_config (replicate 16 5) False
        (sample_disk (replicate 16 5)) (sample_crypt_meta (replicate 16 5)) [] []) = (Inr (), s) \<and>
    m_crypter (snd (checkReSetCryptKey sample_crypt_env (Some (replicate 16 5)) False s)) = Some c \<and>
    get_cfb c = \<lparr>ivec = replicate 16 5, num = 0\<rparr>"
proof -
  let ?key = "replicate 16 (5 :: byte)"
  have k: "?key \<noteq> []" by simp
  have f: "keyed_files (plain_env sample_crypt_env) ?key False (sample_disk ?key) (sample_crypt_meta ?key) sample_header small_log"
    using sample_keyed_files [OF k] by simp
  have E: "env_files (plain_env sample_crypt_env)" using sample_env_files by simp
  from open_keyed [OF E shared_config_ok(1) f] k obtain s where
    s: "checkLoadData_crypt sample_crypt_env (crypt_object sample_env shared_config ?key False (sample_disk ?key) (sample_crypt_meta ?key) [] []) = (Inr (), s)"
    "crypt_ok sample_crypt_env s ?key False sample_header small_log" by auto
  have "length ?key = 16" "0 \<notin> set ?key" by simp_all
  from same_key_replaces_cipher [OF s(2) this] show ?thesis
    using s(1) by (intro exI [of _ s] exI [of _ "AESCrypt_new ?key [] False"]) simp
qed

text \<open>C16. A key that is given to a plain store. The check of the key gives a store that was opened without one a cipher, and
  leaves it without the dictionary of encrypted values; the next get follows a null pointer, whatever its key is.\<close>

theorem reset_key_loses_dictionary:
  assumes "plain_ok X s hdr es" and "m_dicCrypt s = None" and "key \<noteq> []"
  shows "\<exists>t. checkReSetCryptKey X (Some key) aes256 s = (Inr (), t) \<and>
    fst (getRawDataForKey_crypt (checkLoadData_crypt X) k t) = Inl MemoryFault"
  by (rule checkReSet_plain [OF assms])

lemma reset_key_loses_dictionary_witness:
  "\<exists>t. checkReSetCryptKey sample_crypt_env (Some [1, 2]) True
      \<lparr>m_store = small_store False 100, m_hasDic = True, m_dicCrypt = None, m_crypter = None\<rparr> = (Inr (), t) \<and>
    fst (getRawDataForKey_crypt (checkLoadData_crypt sample_crypt_env) [107] t) = Inl MemoryFault"
  by (rule reset_key_loses_dictionary [of _ _ small_header small_log])
    (use small_store_ok [of False 100] in \<open>simp_all add: plain_ok_def\<close>)

end
